(* ===== verification/Prelude.thy ===== *)
theory Prelude
  imports Main "HOL-Library.Word" "HOL-Library.Monad_Syntax"
begin

text \<open>
  Shared vocabulary of the development: the machine types the C++ code uses, byte literals,
  memory regions as byte lists with checked stores, and the named collections of rules
  that carry the proofs about the buffer, encoder and decoder components.

  A memory access outside the object a pointer points into is undefined behaviour in C++; it
  is the value \<open>None\<close> of an \<open>option\<close> throughout.
\<close>

type_synonym byte = "8 word"
type_synonym u16 = "16 word"
type_synonym u32 = "32 word"
type_synonym u64 = "64 word"

named_theorems write_rules
  \<open>contracts of the functions that append to a buffer\<close>
named_theorems read_rules
  \<open>what the decoding functions compute on a well-formed encoding\<close>
named_theorems safe_rules
  \<open>decoding functions return on every input and stay near the buffer\<close>

section \<open>Byte literals\<close>

text \<open>The bytes of a string literal, without its terminating NUL.\<close>

definition lit :: "string \<Rightarrow> byte list" where
  "lit s = map of_char s"

lemma lit_Nil [simp]: "lit [] = []"
  by (simp add: lit_def)

lemma lit_Cons [simp]: "lit (c # cs) = of_char c # lit cs"
  by (simp add: lit_def)

lemma length_lit [simp]: "length (lit s) = length s"
  by (simp add: lit_def)

section \<open>Memory regions\<close>

text \<open>
  \<open>mem_store m p bs\<close> is the effect of writing the bytes \<open>bs\<close> at offset \<open>p\<close> of the memory
  region \<open>m\<close>; \<open>mem_load m p n\<close> reads \<open>n\<close> bytes.
\<close>

definition mem_store :: "byte list \<Rightarrow> nat \<Rightarrow> byte list \<Rightarrow> byte list option" where
  "mem_store m p bs =
     (if p + length bs \<le> length m then Some (take p m @ bs @ drop (p + length bs) m) else None)"

definition mem_load :: "byte list \<Rightarrow> nat \<Rightarrow> nat \<Rightarrow> byte list option" where
  "mem_load m p n = (if p + n \<le> length m then Some (take n (drop p m)) else None)"

lemma mem_store_Some_iff:
  "mem_store m p bs = Some m' \<longleftrightarrow>
     p + length bs \<le> length m \<and> m' = take p m @ bs @ drop (p + length bs) m"
  by (auto simp: mem_store_def)

lemma mem_load_Some_iff:
  "mem_load m p n = Some bs \<longleftrightarrow> p + n \<le> length m \<and> bs = take n (drop p m)"
  by (auto simp: mem_load_def)

lemma length_mem_store: "mem_store m p bs = Some m' \<Longrightarrow> length m' = length m"
  by (auto simp: mem_store_Some_iff)

lemma mem_load_store_same:
  "mem_store m p bs = Some m' \<Longrightarrow> mem_load m' p (length bs) = Some bs"
  by (auto simp: mem_store_Some_iff mem_load_def)

lemma mem_load_store_other:
  assumes st: "mem_store m p bs = Some m'" and disj: "q + n \<le> p \<or> p + length bs \<le> q"
  shows "mem_load m' q n = mem_load m q n"
proof (cases "q + n \<le> length m")
  case True
  from st have m': "m' = take p m @ bs @ drop (p + length bs) m" and le: "p + length bs \<le> length m"
    by (simp_all add: mem_store_Some_iff)
  have lm: "length m' = length m" by (rule length_mem_store [OF st])
  have "take n (drop q m') = take n (drop q m)"
    using disj
  proof
    assume "q + n \<le> p"
    then show ?thesis using le by (auto simp: m' drop_take take_take min_def)
  next
    assume "p + length bs \<le> q"
    then show ?thesis using le by (simp add: m' min_def)
  qed
  then show ?thesis
    by (simp add: mem_load_def lm)
next
  case False
  with length_mem_store [OF st] show ?thesis by (simp add: mem_load_def)
qed

section \<open>Lists\<close>

lemma take_add_take_drop: "take (i + j) xs = take i xs @ take j (drop i xs)"
  by (rule take_add)

lemma drop_eq_append_imp_nth: "drop n xs = y # ys \<Longrightarrow> n < length xs \<and> xs ! n = y"
  by (metis Cons_nth_drop_Suc drop_eq_Nil linorder_not_less list.distinct(1) list.inject)

lemma drop_eq_append_imp_drop: "drop n xs = ys @ zs \<Longrightarrow> drop (n + length ys) xs = zs"
  by (metis add.commute append_eq_conv_conj drop_drop)

lemma drop_eq_append_imp_le:
  assumes "drop n xs = ys @ zs" and "ys @ zs \<noteq> []"
  shows "n + length ys + length zs = length xs"
proof -
  from assms have "length xs - n = length ys + length zs"
    by (metis length_append length_drop)
  moreover from assms have "n < length xs"
    by (metis drop_eq_Nil linorder_not_less)
  ultimately show ?thesis by simp
qed

section \<open>Options and booleans\<close>

lemma ex_bool [simp]: "\<exists>x :: bool. x" "\<exists>x :: bool. \<not> x"
  by blast+

lemma bind_Some_conv: "(m \<bind> f = Some y) \<longleftrightarrow> (\<exists>x. m = Some x \<and> f x = Some y)"
  by (cases m) auto

end
