(* ===== verification/CLib.thy ===== *)
theory CLib
  imports Prelude
begin

text \<open>
  The C library functions the sources call on bytes and text: the integer conversions of
  \<open>printf\<close>, \<open>atoi\<close> and \<open>atol\<close> (as \<open>strtol\<close> with base 10, which saturates), \<open>memcmp\<close> and
  \<open>strnlen\<close>. The main results are that parsing inverts printing and that the texts
  printed for machine integers are short.
\<close>

section \<open>Decimal output\<close>

fun dec_nat :: "nat \<Rightarrow> byte list" where
  "dec_nat n =
     (if n < 10 then [of_nat (48 + n)] else dec_nat (n div 10) @ [of_nat (48 + n mod 10)])"

declare dec_nat.simps [simp del]

definition dec_int :: "int \<Rightarrow> byte list" where
  "dec_int i = (if i < 0 then 45 # dec_nat (nat (- i)) else dec_nat (nat i))"

text \<open>The conversions \<open>%ld\<close> and \<open>%d\<close> print their argument as a signed integer.\<close>

definition fmt_ld :: "u64 \<Rightarrow> byte list" where
  "fmt_ld w = dec_int (sint w)"

definition fmt_d :: "u32 \<Rightarrow> byte list" where
  "fmt_d w = dec_int (sint w)"

section \<open>Decimal input\<close>

definition isspace :: "byte \<Rightarrow> bool" where
  "isspace c \<longleftrightarrow> c = 32 \<or> c = 9 \<or> c = 10 \<or> c = 11 \<or> c = 12 \<or> c = 13"

definition isdigit :: "byte \<Rightarrow> bool" where
  "isdigit c \<longleftrightarrow> 48 \<le> c \<and> c \<le> 57"

fun digits_val :: "nat \<Rightarrow> byte list \<Rightarrow> nat" where
  "digits_val acc [] = acc"
| "digits_val acc (c # cs) =
     (if isdigit c then digits_val (10 * acc + (unat c - 48)) cs else acc)"

definition strtol10 :: "byte list \<Rightarrow> int" where
  "strtol10 s =
     (case dropWhile isspace s of
        [] \<Rightarrow> 0
      | c # cs \<Rightarrow>
          if c = 45 then - int (digits_val 0 cs)
          else if c = 43 then int (digits_val 0 cs)
          else int (digits_val 0 (c # cs)))"

text \<open>\<open>strtol\<close> saturates at the bounds of \<open>long\<close>; \<open>atoi\<close> keeps the low 32 bits.\<close>

definition atol :: "byte list \<Rightarrow> int" where
  "atol s = max (- (2 ^ 63)) (min (2 ^ 63 - 1) (strtol10 s))"

definition atoi :: "byte list \<Rightarrow> int" where
  "atoi s = signed_take_bit 31 (atol s)"

section \<open>Comparing and measuring memory\<close>

fun memcmp :: "byte list \<Rightarrow> byte list \<Rightarrow> int" where
  "memcmp (x # xs) (y # ys) = (if x = y then memcmp xs ys else if x < y then -1 else 1)"
| "memcmp _ _ = 0"

text \<open>\<open>strnlen\<close> of a char array: the bytes before the first NUL, at most the array's size.\<close>

definition strnlen :: "byte list \<Rightarrow> nat" where
  "strnlen s = length (takeWhile (\<lambda>c. c \<noteq> 0) s)"

section \<open>Parsing inverts printing\<close>

lemma unat_digit: "d < 10 \<Longrightarrow> unat (of_nat (48 + d) :: byte) = 48 + d"
  by (simp add: unat_of_nat take_bit_nat_eq_self del: of_nat_add)

lemma isdigit_of_nat: "d < 10 \<Longrightarrow> isdigit (of_nat (48 + d))"
  using unat_digit [of d] by (simp add: isdigit_def word_le_nat_alt del: of_nat_add)

lemma dec_nat_digits: "c \<in> set (dec_nat n) \<Longrightarrow> isdigit c"
proof (induction n rule: dec_nat.induct)
  case (1 n)
  show ?case
  proof (cases "n < 10")
    case True
    with "1.prems" show ?thesis
      using isdigit_of_nat [of n] by (simp add: dec_nat.simps [of n])
  next
    case False
    with "1" show ?thesis
      using isdigit_of_nat [of "n mod 10"] by (auto simp: dec_nat.simps [of n])
  qed
qed

lemma dec_nat_not_Nil [simp]: "dec_nat n \<noteq> []"
  by (subst dec_nat.simps) simp

lemma digits_val_append:
  assumes "\<And>c. c \<in> set xs \<Longrightarrow> isdigit c"
  shows "digits_val acc (xs @ ys) = digits_val (digits_val acc xs) ys"
  using assms by (induction xs arbitrary: acc) auto

lemma digits_val_dec_nat: "digits_val 0 (dec_nat n) = n"
proof (induction n rule: dec_nat.induct)
  case (1 n)
  show ?case
  proof (cases "n < 10")
    case True
    then show ?thesis
      using isdigit_of_nat [of n] unat_digit [of n] by (simp add: dec_nat.simps [of n])
  next
    case False
    then have "digits_val 0 (dec_nat n) =
        digits_val (digits_val 0 (dec_nat (n div 10))) [of_nat (48 + n mod 10)]"
      by (simp add: dec_nat.simps [of n] digits_val_append dec_nat_digits del: digits_val.simps)
    also have "\<dots> = digits_val (n div 10) [of_nat (48 + n mod 10)]"
      using "1" False by simp
    also have "\<dots> = n"
      using isdigit_of_nat [of "n mod 10"] unat_digit [of "n mod 10"] by simp
    finally show ?thesis .
  qed
qed

lemma digit_not_special:
  "isdigit c \<Longrightarrow> \<not> isspace c \<and> c \<noteq> 45 \<and> c \<noteq> 43 \<and> c \<noteq> 101 \<and> c \<noteq> 58 \<and> c \<noteq> 0"
  by (auto simp: isdigit_def isspace_def)

lemma strtol10_dec_int: "strtol10 (dec_int i) = i"
proof (cases "i < 0")
  case True
  then show ?thesis
    by (simp add: strtol10_def dec_int_def digits_val_dec_nat isspace_def)
next
  case False
  obtain c cs where ccs: "dec_nat (nat i) = c # cs"
    by (cases "dec_nat (nat i)") auto
  then have "isdigit c"
    using dec_nat_digits [of c "nat i"] by simp
  then have "\<not> isspace c" "c \<noteq> 45" "c \<noteq> 43"
    using digit_not_special by blast+
  moreover have "digits_val 0 (c # cs) = nat i"
    using digits_val_dec_nat [of "nat i"] ccs by simp
  ultimately show ?thesis
    using False by (simp add: strtol10_def dec_int_def ccs del: digits_val.simps)
qed

lemma atol_fmt_ld: "atol (fmt_ld w) = sint w"
proof -
  have "- (2 ^ 63) \<le> sint w" "sint w < 2 ^ 63"
    using sint_ge [of w] sint_lt [of w] by simp_all
  then show ?thesis
    by (simp add: atol_def fmt_ld_def strtol10_dec_int)
qed

lemma dec_int_chars:
  "c \<in> set (dec_int i) \<Longrightarrow> c \<noteq> 101 \<and> c \<noteq> 58 \<and> c \<noteq> 0"
  using dec_nat_digits digit_not_special by (fastforce simp: dec_int_def split: if_splits)

lemma dec_int_not_Nil [simp]: "dec_int i \<noteq> []"
  by (simp add: dec_int_def)

section \<open>The printed texts are short\<close>

lemma length_dec_nat: "0 < k \<Longrightarrow> n < 10 ^ k \<Longrightarrow> length (dec_nat n) \<le> k"
proof (induction k arbitrary: n)
  case 0
  then show ?case by simp
next
  case (Suc k)
  show ?case
  proof (cases "n < 10")
    case True
    then show ?thesis by (simp add: dec_nat.simps [of n])
  next
    case False
    with Suc.prems have k: "0 < k" by (cases k) auto
    from Suc.prems have "n div 10 < 10 ^ k" by (simp add: div_less_iff_less_mult mult.commute)
    with Suc.IH k have "length (dec_nat (n div 10)) \<le> k" by blast
    with False show ?thesis by (simp add: dec_nat.simps [of n])
  qed
qed

lemma length_fmt_ld: "length (fmt_ld w) \<le> 20"
proof -
  have b: "- (2 ^ 63) \<le> sint w" "sint w < 2 ^ 63"
    using sint_ge [of w] sint_lt [of w] by simp_all
  have "nat (- sint w) < 10 ^ 19" "nat (sint w) < 10 ^ 19"
    using b by auto
  then have "length (dec_nat (nat (- sint w))) \<le> 19" "length (dec_nat (nat (sint w))) \<le> 19"
    by (auto intro!: length_dec_nat)
  then show ?thesis by (auto simp: fmt_ld_def dec_int_def)
qed

lemma fmt_ld_of_nat: "n < 2 ^ 63 \<Longrightarrow> fmt_ld (of_nat n) = dec_nat n"
proof -
  assume n: "n < 2 ^ 63"
  then have "sint (of_nat n :: u64) = int n"
    by (simp add: signed_of_nat signed_take_bit_int_eq_self)
  then show ?thesis by (simp add: fmt_ld_def dec_int_def)
qed

lemma atoi_dec_nat:
  assumes "n < 2 ^ 31"
  shows "atoi (dec_nat n) = int n"
proof -
  from assms have "strtol10 (dec_nat n) = int n"
    using strtol10_dec_int [of "int n"] by (simp add: dec_int_def)
  then have "atol (dec_nat n) = int n"
    using assms by (simp add: atol_def)
  moreover have "signed_take_bit 31 (int n) = int n"
    using assms by (simp add: signed_take_bit_int_eq_self)
  ultimately show ?thesis by (simp add: atoi_def)
qed

lemma memcmp_eq_0_iff: "length xs = length ys \<Longrightarrow> memcmp xs ys = 0 \<longleftrightarrow> xs = ys"
  by (induction xs ys rule: list_induct2) auto

end
