(* ===== verification/Buffer.thy ===== *)
theory Buffer
  imports CLib
begin

text \<open>
  \<open>udap/buffer.cpp\<close>: the memory buffer every encoder and decoder of the program works on, and
  the contracts its clients are verified against. \<open>emits f bs\<close> is the contract of a
  function that appends the bytes \<open>bs\<close>; \<open>reads f s bs s'\<close> says that a decoder turns the object
  \<open>s\<close> into \<open>s'\<close> when it meets the bytes \<open>bs\<close>; the contract \<open>rsafe j f\<close> of theory \<open>Safety\<close> says that a
  decoder returns whatever it meets.
\<close>

section \<open>The buffer\<close>

text \<open>
  \<open>b_mem\<close> is the memory object the pointers point into; \<open>b_base\<close> and \<open>b_cur\<close> are offsets into
  it. A buffer that \<open>bencode_read_string\<close> returns points into the object of its parent.
\<close>

record udap_buffer_t =
  b_mem :: "byte list"
  b_base :: nat
  b_cur :: nat
  b_sz :: nat

text \<open>\<open>StackBuffer\<close> and \<open>Buffer\<close>: a buffer over a whole array or container.\<close>

definition StackBuffer :: "byte list \<Rightarrow> udap_buffer_t" where
  "StackBuffer stack = \<lparr>b_mem = stack, b_base = 0, b_cur = 0, b_sz = length stack\<rparr>"

text \<open>The idiom \<open>buf.sz = buf.cur - buf.base; buf.cur = buf.base\<close> after encoding.\<close>

definition rewind :: "udap_buffer_t \<Rightarrow> udap_buffer_t" where
  "rewind b = b\<lparr>b_sz := b_cur b - b_base b, b_cur := b_base b\<rparr>"

definition udap_buffer_size_left :: "udap_buffer_t \<Rightarrow> nat" where
  "udap_buffer_size_left buff =
     (let diff = b_cur buff - b_base buff
      in if diff > b_sz buff then 0 else b_sz buff - diff)"

text \<open>
  \<open>vsnprintf(cur, n, \<dots>)\<close> stores at most \<open>n - 1\<close> bytes of the formatted text \<open>out\<close> and a NUL;
  it returns the length the whole text has.
\<close>

definition vsnprintf :: "byte list \<Rightarrow> nat \<Rightarrow> nat \<Rightarrow> byte list \<Rightarrow> (nat \<times> byte list) option" where
  "vsnprintf m p n out =
     (if n = 0 then Some (length out, m)
      else do { m' \<leftarrow> mem_store m p (take (n - 1) out @ [0]); Some (length out, m') })"

definition udap_buffer_writef :: "byte list \<Rightarrow> udap_buffer_t \<Rightarrow> (bool \<times> udap_buffer_t) option" where
  "udap_buffer_writef out buff = do {
     let n = udap_buffer_size_left buff;
     (written, m) \<leftarrow> vsnprintf (b_mem buff) (b_cur buff) n out;
     let buff = buff\<lparr>b_mem := m\<rparr>;
     if written \<le> 0 then Some (False, buff)
     else if n < written then Some (False, buff)
     else Some (True, buff\<lparr>b_cur := b_cur buff + written\<rparr>)
   }"

definition udap_buffer_write :: "byte list \<Rightarrow> udap_buffer_t \<Rightarrow> (bool \<times> udap_buffer_t) option" where
  "udap_buffer_write data buff =
     (let left = udap_buffer_size_left buff in
      if left \<ge> length data
      then do {
        m \<leftarrow> mem_store (b_mem buff) (b_cur buff) data;
        Some (True, buff\<lparr>b_mem := m, b_cur := b_cur buff + length data\<rparr>)
      }
      else Some (False, buff))"

text \<open>\<open>*buff->cur\<close>\<close>

definition deref :: "udap_buffer_t \<Rightarrow> byte option" where
  "deref buff = (if b_cur buff < length (b_mem buff) then Some (b_mem buff ! b_cur buff) else None)"

text \<open>\<open>buff->cur++\<close>\<close>

definition advance :: "udap_buffer_t \<Rightarrow> udap_buffer_t" where
  "advance buff = buff\<lparr>b_cur := Suc (b_cur buff)\<rparr>"

text \<open>The loop tests the byte before it tests that the position is inside the buffer.\<close>

fun read_until_loop ::
  "byte \<Rightarrow> nat \<Rightarrow> udap_buffer_t \<Rightarrow> byte list \<Rightarrow> (byte list \<times> udap_buffer_t) option" where
  "read_until_loop delim 0 buff acc = do { _ \<leftarrow> deref buff; Some (acc, buff) }"
| "read_until_loop delim (Suc resultsize) buff acc = do {
     c \<leftarrow> deref buff;
     if c \<noteq> delim \<and> b_cur buff \<noteq> b_base buff + b_sz buff
     then read_until_loop delim resultsize (advance buff) (acc @ [c])
     else Some (acc, buff)
   }"

text \<open>The result is the count the C function returns, and the bytes it stored.\<close>

definition udap_buffer_read_until ::
  "byte \<Rightarrow> nat \<Rightarrow> udap_buffer_t \<Rightarrow> (nat \<times> byte list \<times> udap_buffer_t) option" where
  "udap_buffer_read_until delim resultsize buff = do {
     (result, buff) \<leftarrow> read_until_loop delim resultsize buff [];
     if udap_buffer_size_left buff \<noteq> 0 then Some (length result, result, buff)
     else Some (0, result, buff)
   }"

fun udap_buffer_eq :: "udap_buffer_t \<Rightarrow> byte list \<Rightarrow> bool option" where
  "udap_buffer_eq buf [] = Some True"
| "udap_buffer_eq buf (c # str) =
     (if b_cur buf \<noteq> b_base buf + b_sz buf
      then do { d \<leftarrow> deref buf; if d \<noteq> c then Some False else udap_buffer_eq (advance buf) str }
      else Some False)"

section \<open>Sequencing in the style \<open>if(!f(buf)) return false; \<dots>\<close>\<close>

type_synonym writer = "udap_buffer_t \<Rightarrow> (bool \<times> udap_buffer_t) option"

definition wthen :: "writer \<Rightarrow> writer \<Rightarrow> writer" where
  "wthen f g b = do { (ok, b) \<leftarrow> f b; if \<not> ok then Some (False, b) else g b }"

fun wseq :: "writer list \<Rightarrow> writer" where
  "wseq [] = (\<lambda>b. Some (True, b))"
| "wseq [f] = f"
| "wseq (f # fs) = wthen f (wseq fs)"

text \<open>A decoding step changes the object under construction and moves in the buffer.\<close>

type_synonym 's act = "'s \<Rightarrow> udap_buffer_t \<Rightarrow> (bool \<times> 's \<times> udap_buffer_t) option"

text \<open>\<open>if(udap_buffer_eq(key, "k")) A else B\<close>\<close>

definition if_key :: "udap_buffer_t \<Rightarrow> string \<Rightarrow> 'r option \<Rightarrow> 'r option \<Rightarrow> 'r option" where
  "if_key key k A B = do { e \<leftarrow> udap_buffer_eq key (lit k); if e then A else B }"

section \<open>Writers\<close>

definition buf_wf :: "udap_buffer_t \<Rightarrow> bool" where
  "buf_wf b \<longleftrightarrow> b_base b \<le> b_cur b \<and> b_cur b \<le> b_base b + b_sz b \<and>
     b_base b + b_sz b \<le> length (b_mem b)"

definition room :: "udap_buffer_t \<Rightarrow> nat" where
  "room b = b_base b + b_sz b - b_cur b"

text \<open>
  What a writer may change: the position, and bytes between the old position and the end of
  the buffer.
\<close>

definition wframe :: "udap_buffer_t \<Rightarrow> udap_buffer_t \<Rightarrow> bool" where
  "wframe b b' \<longleftrightarrow> buf_wf b' \<and> b_base b' = b_base b \<and> b_sz b' = b_sz b \<and>
     b_cur b \<le> b_cur b' \<and> length (b_mem b') = length (b_mem b) \<and>
     take (b_cur b) (b_mem b') = take (b_cur b) (b_mem b) \<and>
     drop (b_base b + b_sz b) (b_mem b') = drop (b_base b + b_sz b) (b_mem b)"

definition appended :: "byte list \<Rightarrow> udap_buffer_t \<Rightarrow> udap_buffer_t \<Rightarrow> bool" where
  "appended bs b b' \<longleftrightarrow> b_cur b' = b_cur b + length bs \<and>
     take (b_cur b') (b_mem b') = take (b_cur b) (b_mem b) @ bs"

text \<open>\<open>wsafe\<close>: returns, and stays inside the buffer.\<close>

definition wsafe :: "writer \<Rightarrow> bool" where
  "wsafe f \<longleftrightarrow> (\<forall>b. buf_wf b \<longrightarrow> (\<exists>ok b'. f b = Some (ok, b') \<and> wframe b b'))"

text \<open>\<open>emits\<close>: moreover appends \<open>bs\<close> and returns true when there is room to spare.\<close>

definition emits :: "writer \<Rightarrow> byte list \<Rightarrow> bool" where
  "emits f bs \<longleftrightarrow> wsafe f \<and>
     (\<forall>b. buf_wf b \<longrightarrow> length bs < room b \<longrightarrow> (\<exists>b'. f b = Some (True, b') \<and> appended bs b b'))"

text \<open>\<open>exact\<close>: moreover never reports success when the bytes do not fit.\<close>

definition exact :: "writer \<Rightarrow> byte list \<Rightarrow> bool" where
  "exact f bs \<longleftrightarrow> emits f bs \<and>
     (\<forall>b b'. buf_wf b \<longrightarrow> f b = Some (True, b') \<longrightarrow> b_cur b' = b_cur b + length bs)"

lemma size_left_eq_room:
  "b_base b \<le> b_cur b \<Longrightarrow> udap_buffer_size_left b = room b"
  by (auto simp: udap_buffer_size_left_def room_def Let_def)

lemma wframe_refl: "buf_wf b \<Longrightarrow> wframe b b"
  by (simp add: wframe_def)

lemma wframe_wf: "wframe b b' \<Longrightarrow> buf_wf b'"
  by (simp add: wframe_def)

lemma wframe_trans: "wframe b b' \<Longrightarrow> wframe b' b'' \<Longrightarrow> wframe b b''"
proof -
  assume 1: "wframe b b'" and 2: "wframe b' b''"
  then have le: "b_cur b \<le> b_cur b'" by (simp add: wframe_def)
  have "take (b_cur b) (b_mem b'') = take (b_cur b) (take (b_cur b') (b_mem b''))"
    using le by (simp add: min_def)
  also have "\<dots> = take (b_cur b) (take (b_cur b') (b_mem b'))"
    using 2 by (simp add: wframe_def)
  also have "\<dots> = take (b_cur b) (b_mem b)"
    using 1 le by (simp add: wframe_def min_def)
  finally show ?thesis
    using 1 2 by (simp add: wframe_def)
qed

lemma appended_trans:
  "appended xs b b' \<Longrightarrow> appended ys b' b'' \<Longrightarrow> appended (xs @ ys) b b''"
  by (auto simp: appended_def)

lemma appended_room: "appended bs b b' \<Longrightarrow> wframe b b' \<Longrightarrow> room b' = room b - length bs"
  by (simp add: appended_def wframe_def room_def)

lemma wsafeI:
  "(\<And>b. buf_wf b \<Longrightarrow> \<exists>ok b'. f b = Some (ok, b') \<and> wframe b b') \<Longrightarrow> wsafe f"
  by (simp add: wsafe_def)

lemma wsafeE:
  assumes "wsafe f" "buf_wf b"
  obtains ok b' where "f b = Some (ok, b')" "wframe b b'"
  using assms by (auto simp: wsafe_def)

lemma emits_wsafe: "emits f bs \<Longrightarrow> wsafe f"
  by (simp add: emits_def)

lemma exact_emits: "exact f bs \<Longrightarrow> emits f bs"
  by (simp add: exact_def)

lemma emitsE:
  assumes "emits f bs" "buf_wf b" "length bs < room b"
  obtains b' where "f b = Some (True, b')" "wframe b b'" "appended bs b b'"
proof -
  from assms obtain b' where *: "f b = Some (True, b')" "appended bs b b'"
    by (auto simp: emits_def)
  moreover from assms have "wsafe f" by (simp add: emits_def)
  then obtain ok b'' where "f b = Some (ok, b'')" "wframe b b''"
    using \<open>buf_wf b\<close> by (rule wsafeE)
  ultimately show ?thesis using that by simp
qed

subsection \<open>The buffer operations meet the contracts\<close>

lemma store_in_buffer:
  assumes wf: "buf_wf b" and fits: "length bs \<le> room b"
  shows "\<exists>m. mem_store (b_mem b) (b_cur b) bs = Some m \<and> length m = length (b_mem b) \<and>
     take (b_cur b) m = take (b_cur b) (b_mem b) \<and>
     take (b_cur b + length bs) m = take (b_cur b) (b_mem b) @ bs \<and>
     drop (b_base b + b_sz b) m = drop (b_base b + b_sz b) (b_mem b)"
proof -
  let ?m = "take (b_cur b) (b_mem b) @ bs @ drop (b_cur b + length bs) (b_mem b)"
  from wf fits have le: "b_cur b + length bs \<le> b_base b + b_sz b"
    and le': "b_base b + b_sz b \<le> length (b_mem b)"
    by (auto simp: buf_wf_def room_def)
  have "mem_store (b_mem b) (b_cur b) bs = Some ?m"
    using le le' by (simp add: mem_store_def)
  moreover have "length ?m = length (b_mem b)"
    using le le' by simp
  moreover have "take (b_cur b) ?m = take (b_cur b) (b_mem b)"
    using le le' by simp
  moreover have "take (b_cur b + length bs) ?m = take (b_cur b) (b_mem b) @ bs"
    using le le' by simp
  moreover have "drop (b_base b + b_sz b) ?m = drop (b_base b + b_sz b) (b_mem b)"
    using le le' by simp
  ultimately show ?thesis by blast
qed

lemma exactI:
  assumes "\<And>b. buf_wf b \<Longrightarrow> \<exists>ok b'. f b = Some (ok, b') \<and> wframe b b' \<and>
      (ok \<longrightarrow> b_cur b' = b_cur b + length bs) \<and> (length bs < room b \<longrightarrow> ok \<and> appended bs b b')"
  shows "exact f bs"
  unfolding exact_def emits_def wsafe_def
proof (intro conjI allI impI)
  fix b assume wf: "buf_wf b"
  from assms [OF this] obtain ok b' where *: "f b = Some (ok, b')" "wframe b b'"
    "ok \<longrightarrow> b_cur b' = b_cur b + length bs" "length bs < room b \<longrightarrow> ok \<and> appended bs b b'"
    by blast
  show "\<exists>ok b'. f b = Some (ok, b') \<and> wframe b b'" using * by blast
  show "\<exists>b'. f b = Some (True, b') \<and> appended bs b b'" if "length bs < room b"
    using * that by auto
  show "b_cur b'' = b_cur b + length bs" if "f b = Some (True, b'')" for b''
    using * that by auto
qed

lemma exact_write [write_rules]: "exact (udap_buffer_write data) data"
proof (rule exactI)
  fix b assume wf: "buf_wf b"
  then have left: "udap_buffer_size_left b = room b"
    by (simp add: size_left_eq_room buf_wf_def)
  show "\<exists>ok b'. udap_buffer_write data b = Some (ok, b') \<and> wframe b b' \<and>
      (ok \<longrightarrow> b_cur b' = b_cur b + length data) \<and> (length data < room b \<longrightarrow> ok \<and> appended data b b')"
  proof (cases "length data \<le> room b")
    case True
    with wf obtain m where m: "mem_store (b_mem b) (b_cur b) data = Some m"
      "length m = length (b_mem b)" "take (b_cur b) m = take (b_cur b) (b_mem b)"
      "take (b_cur b + length data) m = take (b_cur b) (b_mem b) @ data"
      "drop (b_base b + b_sz b) m = drop (b_base b + b_sz b) (b_mem b)"
      using store_in_buffer by blast
    let ?b = "b\<lparr>b_mem := m, b_cur := b_cur b + length data\<rparr>"
    have "udap_buffer_write data b = Some (True, ?b)"
      using True m left by (simp add: udap_buffer_write_def)
    moreover have "wframe b ?b"
      using True m wf by (auto simp: wframe_def buf_wf_def room_def)
    moreover have "appended data b ?b"
      using m by (simp add: appended_def)
    ultimately show ?thesis by auto
  next
    case False
    then have "udap_buffer_write data b = Some (False, b)"
      using left by (simp add: udap_buffer_write_def)
    with False wf show ?thesis by (auto intro: wframe_refl)
  qed
qed

lemma exact_writef [write_rules]:
  assumes ne: "out \<noteq> []"
  shows "exact (udap_buffer_writef out) out"
proof (rule exactI)
  fix b assume wf: "buf_wf b"
  then have left: "udap_buffer_size_left b = room b"
    by (simp add: size_left_eq_room buf_wf_def)
  show "\<exists>ok b'. udap_buffer_writef out b = Some (ok, b') \<and> wframe b b' \<and>
      (ok \<longrightarrow> b_cur b' = b_cur b + length out) \<and> (length out < room b \<longrightarrow> ok \<and> appended out b b')"
  proof (cases "room b = 0")
    case True
    with ne left have "udap_buffer_writef out b = Some (False, b)"
      by (simp add: udap_buffer_writef_def vsnprintf_def)
    with True wf show ?thesis by (auto intro: wframe_refl)
  next
    case False
    let ?bs = "take (room b - 1) out @ [0]"
    have "length ?bs \<le> room b" using False by simp
    with wf obtain m where m: "mem_store (b_mem b) (b_cur b) ?bs = Some m"
      "length m = length (b_mem b)" "take (b_cur b) m = take (b_cur b) (b_mem b)"
      "take (b_cur b + length ?bs) m = take (b_cur b) (b_mem b) @ ?bs"
      "drop (b_base b + b_sz b) m = drop (b_base b + b_sz b) (b_mem b)"
      using store_in_buffer by blast
    have eq: "udap_buffer_writef out b =
        (if room b < length out then Some (False, b\<lparr>b_mem := m\<rparr>)
         else Some (True, b\<lparr>b_mem := m, b_cur := b_cur b + length out\<rparr>))"
      using False m ne left by (simp add: udap_buffer_writef_def vsnprintf_def)
    have fr: "wframe b (b\<lparr>b_mem := m\<rparr>)"
      using m wf by (simp add: wframe_def buf_wf_def)
    have fr': "wframe b (b\<lparr>b_mem := m, b_cur := b_cur b + length out\<rparr>)" if "\<not> room b < length out"
      using m wf that by (auto simp: wframe_def buf_wf_def room_def)
    have app: "appended out b (b\<lparr>b_mem := m, b_cur := b_cur b + length out\<rparr>)"
      if "length out < room b"
    proof -
      have bs: "?bs = out @ [0]" using that by simp
      have "take (b_cur b + length out) m =
          take (b_cur b + length out) (take (b_cur b + length ?bs) m)"
        unfolding bs by (simp add: min_def)
      also have "\<dots> = take (b_cur b) (b_mem b) @ out"
        using m(4) wf unfolding bs by (simp add: buf_wf_def)
      finally show ?thesis by (simp add: appended_def)
    qed
    show ?thesis
      using eq fr fr' app by (cases "room b < length out") auto
  qed
qed

subsection \<open>Sequences of writers\<close>

lemma wsafe_wthen:
  assumes "wsafe f" "wsafe g" shows "wsafe (wthen f g)"
proof (rule wsafeI)
  fix b assume "buf_wf b"
  with \<open>wsafe f\<close> obtain ok b1 where 1: "f b = Some (ok, b1)" "wframe b b1"
    by (rule wsafeE)
  from \<open>wsafe g\<close> wframe_wf [OF 1(2)] obtain ok2 b2 where 2: "g b1 = Some (ok2, b2)" "wframe b1 b2"
    by (rule wsafeE)
  show "\<exists>ok b'. wthen f g b = Some (ok, b') \<and> wframe b b'"
    using 1 2 wframe_trans [OF 1(2) 2(2)] by (cases ok) (auto simp: wthen_def)
qed

lemma emits_wthen:
  assumes f: "emits f xs" and g: "emits g ys" shows "emits (wthen f g) (xs @ ys)"
  unfolding emits_def
proof (intro conjI allI impI)
  show "wsafe (wthen f g)" using f g by (intro wsafe_wthen emits_wsafe)
  fix b assume wf: "buf_wf b" and len: "length (xs @ ys) < room b"
  then have "length xs < room b" by simp
  with f wf obtain b1 where 1: "f b = Some (True, b1)" "wframe b b1" "appended xs b b1"
    by (rule emitsE)
  have "length ys < room b1" using appended_room [OF 1(3,2)] len by simp
  with g wframe_wf [OF 1(2)] obtain b2 where 2: "g b1 = Some (True, b2)" "appended ys b1 b2"
    using emitsE by blast
  show "\<exists>b'. wthen f g b = Some (True, b') \<and> appended (xs @ ys) b b'"
    using 1 2 appended_trans by (auto simp: wthen_def)
qed

lemma exact_wthen:
  assumes f: "exact f xs" and g: "exact g ys" shows "exact (wthen f g) (xs @ ys)"
  unfolding exact_def
proof (intro conjI allI impI)
  show "emits (wthen f g) (xs @ ys)" using f g by (intro emits_wthen exact_emits)
  fix b b' assume wf: "buf_wf b" and ret: "wthen f g b = Some (True, b')"
  from f have "wsafe f" by (intro emits_wsafe exact_emits)
  then obtain ok b1 where 1: "f b = Some (ok, b1)" "wframe b b1"
    using wf by (rule wsafeE)
  with ret have "ok" and "g b1 = Some (True, b')"
    by (auto simp: wthen_def split: if_splits)
  then show "b_cur b' = b_cur b + length (xs @ ys)"
    using 1 f g wf wframe_wf [OF 1(2)] by (auto simp: exact_def)
qed

lemma exact_Nil [write_rules]: "exact (\<lambda>b. Some (True, b)) []"
  by (rule exactI) (auto simp: appended_def intro: wframe_refl)

lemma wseq_wsafe: "(\<And>f. f \<in> set fs \<Longrightarrow> wsafe f) \<Longrightarrow> wsafe (wseq fs)"
  by (induction fs rule: wseq.induct)
    (auto intro!: wsafe_wthen intro: emits_wsafe exact_emits exact_Nil)

lemma wseq_emits: "list_all2 emits fs bss \<Longrightarrow> emits (wseq fs) (concat bss)"
proof (induction fs arbitrary: bss rule: wseq.induct)
  case 1
  then show ?case by (auto intro: exact_emits exact_Nil)
next
  case (2 f)
  then show ?case by (auto simp: list_all2_Cons1)
next
  case (3 f g fs)
  from "3.prems" obtain z zs where "bss = z # zs" "emits f z" "list_all2 emits (g # fs) zs"
    by (auto simp: list_all2_Cons1)
  with "3.IH" show ?case by (simp add: emits_wthen)
qed

lemma wseq_exact: "list_all2 exact fs bss \<Longrightarrow> exact (wseq fs) (concat bss)"
proof (induction fs arbitrary: bss rule: wseq.induct)
  case 1
  then show ?case by (auto intro: exact_Nil)
next
  case (2 f)
  then show ?case by (auto simp: list_all2_Cons1)
next
  case (3 f g fs)
  from "3.prems" obtain z zs where "bss = z # zs" "exact f z" "list_all2 exact (g # fs) zs"
    by (auto simp: list_all2_Cons1)
  with "3.IH" show ?case by (simp add: exact_wthen)
qed

end
