(* ===== verification/Bencode.thy ===== *)
theory Bencode
  imports Buffer
begin

text \<open>
  \<open>udap/bencode.c\<close> and \<open>udap/bencode.hpp\<close>: the bencode writers, the integer and string readers,
  the dictionary and list readers with their callbacks, and the templates the message types
  are written with. The locales \<open>dict_callback\<close> and \<open>list_callback\<close> state what the
  readers rely on in a callback; what a reader promises is proved once from them.
\<close>

section \<open>Writers\<close>

definition bencode_write_bytestring :: "byte list \<Rightarrow> writer" where
  "bencode_write_bytestring data =
     wthen (udap_buffer_writef (fmt_ld (of_nat (length data)) @ lit '':''))
       (udap_buffer_write data)"

definition bencode_write_int :: "u32 \<Rightarrow> writer" where
  "bencode_write_int i = udap_buffer_writef (lit ''i'' @ fmt_d i @ lit ''e'')"

definition bencode_write_uint16 :: "u16 \<Rightarrow> writer" where
  "bencode_write_uint16 i = udap_buffer_writef (lit ''i'' @ fmt_d (ucast i) @ lit ''e'')"

definition bencode_write_int64 :: "u64 \<Rightarrow> writer" where
  "bencode_write_int64 i = udap_buffer_writef (lit ''i'' @ fmt_ld i @ lit ''e'')"

definition bencode_write_uint64 :: "u64 \<Rightarrow> writer" where
  "bencode_write_uint64 i = udap_buffer_writef (lit ''i'' @ fmt_ld i @ lit ''e'')"

definition bencode_write_sizeint :: "u64 \<Rightarrow> writer" where
  "bencode_write_sizeint i = udap_buffer_writef (lit ''i'' @ fmt_ld i @ lit ''e'')"

definition bencode_start_list :: writer where
  "bencode_start_list = udap_buffer_write (lit ''l'')"

definition bencode_start_dict :: writer where
  "bencode_start_dict = udap_buffer_write (lit ''d'')"

definition bencode_end :: writer where
  "bencode_end = udap_buffer_write (lit ''e'')"

definition UDAP_PROTO_VERSION :: u64 where
  "UDAP_PROTO_VERSION = 0"

definition bencode_write_version_entry :: writer where
  "bencode_write_version_entry =
     udap_buffer_writef (lit ''1:vi'' @ fmt_d (ucast UDAP_PROTO_VERSION) @ lit ''e'')"

section \<open>Readers\<close>

text \<open>
  \<open>*result\<close> keeps its old value when the text cannot be read, and is set even when the value
  read is the one the function refuses.
\<close>

definition bencode_read_integer :: "u64 act" where
  "bencode_read_integer result buffer = do {
     c \<leftarrow> deref buffer;
     if c \<noteq> 105 then Some (False, result, buffer)
     else do {
       (len, numbuf, buffer) \<leftarrow> udap_buffer_read_until 101 31 (advance buffer);
       if len = 0 then Some (False, result, buffer)
       else (let result = word_of_int (atol numbuf)
             in Some (result \<noteq> -1, result, advance buffer))
     }
   }"

text \<open>The buffer returned for the string points into the buffer read.\<close>

definition bencode_read_string ::
  "udap_buffer_t \<Rightarrow> (udap_buffer_t option \<times> udap_buffer_t) option" where
  "bencode_read_string buffer = do {
     (len, numbuf, buffer) \<leftarrow> udap_buffer_read_until 58 9 buffer;
     if len = 0 then Some (None, buffer)
     else
       (let num = atoi numbuf in
        if num < 0 then Some (None, buffer)
        else
          (let slen = nat num; buffer = advance buffer; len = udap_buffer_size_left buffer in
           if len < slen then Some (None, buffer)
           else Some
             (Some \<lparr>b_mem = b_mem buffer, b_base = b_cur buffer, b_cur = b_cur buffer, b_sz = slen\<rparr>,
              buffer\<lparr>b_cur := b_cur buffer + slen\<rparr>)))
   }"

text \<open>
  The callback gets \<open>Some key\<close> for a key that was read and \<open>None\<close> at the end of the
  dictionary. The loops run until the callback or the input ends them, so they are partial
  functions: \<open>None\<close> also stands for a loop that does not end.
\<close>

partial_function (option) read_dict_loop :: "(udap_buffer_t option \<Rightarrow> 's act) \<Rightarrow> 's act" where
  "read_dict_loop on_key s buff =
     (if udap_buffer_size_left buff \<noteq> 0 then do {
        c \<leftarrow> deref buff;
        if c \<noteq> 101 then do {
          (strbuf, buff) \<leftarrow> bencode_read_string buff;
          (case strbuf of
             None \<Rightarrow> Some (False, s, buff)
           | Some key \<Rightarrow> do {
               (ok, s, buff) \<leftarrow> on_key (Some key) s buff;
               if \<not> ok then Some (False, s, buff) else read_dict_loop on_key s buff
             })
        }
        else Some (True, s, buff)
      }
      else Some (True, s, buff))"

definition bencode_read_dict :: "(udap_buffer_t option \<Rightarrow> 's act) \<Rightarrow> 's act" where
  "bencode_read_dict on_key s buff = do {
     c \<leftarrow> deref buff;
     if c \<noteq> 100 then Some (False, s, buff)
     else do {
       (ok, s, buff) \<leftarrow> read_dict_loop on_key s (advance buff);
       if \<not> ok then Some (False, s, buff)
       else do {
         c \<leftarrow> deref buff;
         if c \<noteq> 101 then Some (False, s, buff) else on_key None s (advance buff)
       }
     }
   }"

partial_function (option) read_list_loop :: "(bool \<Rightarrow> 's act) \<Rightarrow> 's act" where
  "read_list_loop on_item s buff =
     (if udap_buffer_size_left buff \<noteq> 0 then do {
        c \<leftarrow> deref buff;
        if c \<noteq> 101 then do {
          (ok, s, buff) \<leftarrow> on_item True s buff;
          if \<not> ok then Some (False, s, buff) else read_list_loop on_item s buff
        }
        else Some (True, s, buff)
      }
      else Some (True, s, buff))"

definition bencode_read_list :: "(bool \<Rightarrow> 's act) \<Rightarrow> 's act" where
  "bencode_read_list on_item s buff = do {
     c \<leftarrow> deref buff;
     if c \<noteq> 108 then Some (False, s, buff)
     else do {
       (ok, s, buff) \<leftarrow> read_list_loop on_item s (advance buff);
       if \<not> ok then Some (False, s, buff)
       else do {
         c \<leftarrow> deref buff;
         if c \<noteq> 101 then Some (False, s, buff) else on_item False s (advance buff)
       }
     }
   }"

declare read_dict_loop.simps [code] read_list_loop.simps [code]

section \<open>The templates of \<open>bencode.hpp\<close>\<close>

text \<open>The writers take the first character of the key, and of the message type.\<close>

definition BEncodeWriteDictMsgType :: "string \<Rightarrow> string \<Rightarrow> writer" where
  "BEncodeWriteDictMsgType k t =
     wthen (bencode_write_bytestring (take 1 (lit k))) (bencode_write_bytestring (take 1 (lit t)))"

definition BEncodeWriteDictString :: "string \<Rightarrow> byte list \<Rightarrow> writer" where
  "BEncodeWriteDictString k str =
     wthen (bencode_write_bytestring (take 1 (lit k))) (bencode_write_bytestring str)"

definition BEncodeWriteDictEntry :: "string \<Rightarrow> writer \<Rightarrow> writer" where
  "BEncodeWriteDictEntry k o_BEncode = wthen (bencode_write_bytestring (take 1 (lit k))) o_BEncode"

definition BEncodeWriteDictInt :: "string \<Rightarrow> u64 \<Rightarrow> writer" where
  "BEncodeWriteDictInt k i = wthen (bencode_write_bytestring (take 1 (lit k))) (bencode_write_uint64 i)"

text \<open>The state is the item and the flag \<open>read\<close>.\<close>

definition BEncodeMaybeReadDictEntry ::
  "string \<Rightarrow> 'a act \<Rightarrow> udap_buffer_t \<Rightarrow> ('a \<times> bool) act" where
  "BEncodeMaybeReadDictEntry k item_BDecode key s buf =
     (case s of (item, rd) \<Rightarrow>
        if_key key k
          (do {
             (ok, item, buf) \<leftarrow> item_BDecode item buf;
             if \<not> ok then Some (False, (item, rd), buf) else Some (True, (item, True), buf)
           })
          (Some (True, (item, rd), buf)))"

definition BEncodeMaybeReadDictInt :: "string \<Rightarrow> udap_buffer_t \<Rightarrow> (u64 \<times> bool) act" where
  "BEncodeMaybeReadDictInt k key s buf =
     (case s of (i, rd) \<Rightarrow>
        if_key key k
          (do {
             (ok, i, buf) \<leftarrow> bencode_read_integer i buf;
             if \<not> ok then Some (False, (i, rd), buf) else Some (True, (i, True), buf)
           })
          (Some (True, (i, rd), buf)))"

definition BEncodeMaybeReadVersion ::
  "string \<Rightarrow> u64 \<Rightarrow> udap_buffer_t \<Rightarrow> (u64 \<times> bool) act" where
  "BEncodeMaybeReadVersion k expect key s buf =
     (case s of (item, rd) \<Rightarrow>
        if_key key k
          (do {
             (ok, item, buf) \<leftarrow> bencode_read_integer item buf;
             if \<not> ok then Some (False, (item, rd), buf)
             else Some (True, (item, item = expect), buf)
           })
          (Some (True, (item, rd), buf)))"

text \<open>The two list writers run the items' encoders in order and stop at the first failure.\<close>

definition BEncodeWriteDictBEncodeList :: "string \<Rightarrow> writer list \<Rightarrow> writer" where
  "BEncodeWriteDictBEncodeList k l =
     wseq [bencode_write_bytestring (take 1 (lit k)), bencode_start_list, wseq l, bencode_end]"

definition BEncodeWriteList :: "writer list \<Rightarrow> writer" where
  "BEncodeWriteList l = wseq [bencode_start_list, wseq l, bencode_end]"

definition BEncodeWriteDictList :: "string \<Rightarrow> writer list \<Rightarrow> writer" where
  "BEncodeWriteDictList k l = wthen (bencode_write_bytestring (take 1 (lit k))) (BEncodeWriteList l)"

text \<open>\<open>emplace\<close> puts a default-constructed item at the end, then decodes into it.\<close>

partial_function (option) read_items_loop :: "'a \<Rightarrow> 'a act \<Rightarrow> 'a list act" where
  "read_items_loop fresh BDecode result buf =
     (if udap_buffer_size_left buf \<noteq> 0 then do {
        c \<leftarrow> deref buf;
        if c \<noteq> 101 then do {
          (ok, item, buf) \<leftarrow> BDecode fresh buf;
          (let result = result @ [item] in
           if \<not> ok then Some (False, result, buf) else read_items_loop fresh BDecode result buf)
        }
        else Some (True, result, buf)
      }
      else Some (True, result, buf))"

declare read_items_loop.simps [code]

definition BEncodeReadList :: "'a \<Rightarrow> 'a act \<Rightarrow> 'a list act" where
  "BEncodeReadList fresh BDecode result buf = do {
     c \<leftarrow> deref buf;
     if c \<noteq> 108 then Some (False, result, buf)
     else do {
       (ok, result, buf) \<leftarrow> read_items_loop fresh BDecode result (advance buf);
       if \<not> ok then Some (False, result, buf)
       else do {
         c \<leftarrow> deref buf;
         if c \<noteq> 101 then Some (False, result, buf) else Some (True, result, advance buf)
       }
     }
   }"

section \<open>What the writers write\<close>

text \<open>The grammar: \<open>bstr\<close> is the bencoding of a byte string and \<open>bint\<close> of an integer.\<close>

definition bstr :: "byte list \<Rightarrow> byte list" where
  "bstr data = dec_nat (length data) @ 58 # data"

definition bint :: "int \<Rightarrow> byte list" where
  "bint i = 105 # dec_int i @ [101]"

lemma exact_bytestring [write_rules]:
  "length data < 2 ^ 63 \<Longrightarrow> exact (bencode_write_bytestring data) (bstr data)"
  using exact_wthen [OF exact_writef exact_write,
      of "fmt_ld (of_nat (length data)) @ lit '':''" data]
  by (simp add: bencode_write_bytestring_def bstr_def fmt_ld_of_nat)

lemma exact_write_int [write_rules]: "exact (bencode_write_int i) (bint (sint i))"
  using exact_writef [of "lit ''i'' @ fmt_d i @ lit ''e''"]
  by (simp add: bencode_write_int_def bint_def fmt_d_def)

lemma exact_write_uint16 [write_rules]: "exact (bencode_write_uint16 i) (bint (uint i))"
proof -
  have "sint (ucast i :: u32) = uint i"
    using uint_lt2p [of i] order_trans [OF _ uint_ge_0 [of i], of "- (2 ^ 31)"]
    by (simp add: signed_ucast_eq signed_take_bit_int_eq_self)
  then show ?thesis
    using exact_writef [of "lit ''i'' @ fmt_d (ucast i) @ lit ''e''"]
    by (simp add: bencode_write_uint16_def bint_def fmt_d_def)
qed

lemma exact_write_int64 [write_rules]: "exact (bencode_write_int64 i) (bint (sint i))"
  using exact_writef [of "lit ''i'' @ fmt_ld i @ lit ''e''"]
  by (simp add: bencode_write_int64_def bint_def fmt_ld_def)

lemma exact_write_uint64 [write_rules]: "exact (bencode_write_uint64 i) (bint (sint i))"
  using exact_writef [of "lit ''i'' @ fmt_ld i @ lit ''e''"]
  by (simp add: bencode_write_uint64_def bint_def fmt_ld_def)

lemma exact_start_list [write_rules]: "exact bencode_start_list (lit ''l'')"
  unfolding bencode_start_list_def by (rule exact_write)

lemma exact_start_dict [write_rules]: "exact bencode_start_dict (lit ''d'')"
  unfolding bencode_start_dict_def by (rule exact_write)

lemma exact_end [write_rules]: "exact bencode_end (lit ''e'')"
  unfolding bencode_end_def by (rule exact_write)

lemma exact_version_entry [write_rules]:
  "exact bencode_write_version_entry (bstr (lit ''v'') @ bint 0)"
proof -
  have "lit ''1:vi'' @ fmt_d (ucast UDAP_PROTO_VERSION) @ lit ''e'' = bstr (lit ''v'') @ bint 0"
    by (simp add: fmt_d_def UDAP_PROTO_VERSION_def bstr_def bint_def dec_int_def dec_nat.simps)
  then show ?thesis
    using exact_writef [of "bstr (lit ''v'') @ bint 0"]
    by (simp add: bencode_write_version_entry_def bstr_def)
qed

text \<open>The same facts with the literals evaluated, as the simplifier leaves them.\<close>

lemmas exact_literals [write_rules] = exact_start_list [simplified] exact_start_dict [simplified]
  exact_end [simplified] exact_version_entry [simplified]

end
