(* ===== verification/Reading.thy ===== *)
theory Reading
  imports Bencode
begin

text \<open>
  What the readers of \<open>bencode.c\<close> compute. \<open>reads\<close> describes them on well-formed input:
  integers, strings, dictionaries and lists that were written by the encoders are read back.
  \<open>rsafe\<close> describes them on arbitrary input: they return, and touch at most \<open>overread\<close> bytes
  past the end of the buffer.
\<close>

section \<open>Positions in a buffer\<close>

definition skip :: "nat \<Rightarrow> udap_buffer_t \<Rightarrow> udap_buffer_t" where
  "skip n b = b\<lparr>b_cur := b_cur b + n\<rparr>"

lemma skip_simps [simp]:
  "b_mem (skip n b) = b_mem b" "b_base (skip n b) = b_base b"
  "b_cur (skip n b) = b_cur b + n" "b_sz (skip n b) = b_sz b"
  by (simp_all add: skip_def)

lemma skip_skip [simp]: "skip n (skip m b) = skip (m + n) b"
  by (simp add: skip_def)

lemma skip_0 [simp]: "skip 0 b = b"
  by (simp add: skip_def)

lemma advance_skip: "advance b = skip 1 b"
  by (simp add: advance_def skip_def)

text \<open>The bytes \<open>bs\<close> lie ahead of the position, inside the buffer.\<close>

definition ahead :: "byte list \<Rightarrow> udap_buffer_t \<Rightarrow> bool" where
  "ahead bs b \<longleftrightarrow> b_base b \<le> b_cur b \<and> b_cur b + length bs \<le> b_base b + b_sz b \<and>
     b_base b + b_sz b \<le> length (b_mem b) \<and> take (length bs) (drop (b_cur b) (b_mem b)) = bs"

lemma ahead_append: "ahead (xs @ ys) b \<longleftrightarrow> ahead xs b \<and> ahead ys (skip (length xs) b)"
  unfolding ahead_def
  by (auto simp: take_add append_eq_append_conv add.commute add.left_commute)

lemma ahead_Cons: "ahead (x # xs) b \<longleftrightarrow> ahead [x] b \<and> ahead xs (skip 1 b)"
  using ahead_append [of "[x]" xs b] by simp

lemma ahead_deref: "ahead (x # xs) b \<Longrightarrow> deref b = Some x"
  by (cases "drop (b_cur b) (b_mem b)")
    (auto simp: ahead_def deref_def dest!: drop_eq_append_imp_nth)

lemma ahead_last: "ahead (xs @ [x]) b \<Longrightarrow> deref (skip (length xs) b) = Some x"
  by (auto simp: ahead_append intro: ahead_deref)

lemma ahead_size_left:
  "ahead (x # xs) b \<Longrightarrow> udap_buffer_size_left b = b_base b + b_sz b - b_cur b \<and> udap_buffer_size_left b \<noteq> 0"
  by (auto simp: ahead_def size_left_eq_room room_def)

lemma ahead_not_end: "ahead (x # xs) b \<Longrightarrow> b_cur b \<noteq> b_base b + b_sz b"
  by (auto simp: ahead_def)

section \<open>Decoding well-formed input\<close>

definition reads :: "'s act \<Rightarrow> 's \<Rightarrow> byte list \<Rightarrow> 's \<Rightarrow> bool" where
  "reads f s bs s' \<longleftrightarrow> (\<forall>b. ahead bs b \<longrightarrow> f s b = Some (True, s', skip (length bs) b))"

lemma readsD: "reads f s bs s' \<Longrightarrow> ahead bs b \<Longrightarrow> f s b = Some (True, s', skip (length bs) b)"
  by (simp add: reads_def)

lemma readsI: "(\<And>b. ahead bs b \<Longrightarrow> f s b = Some (True, s', skip (length bs) b)) \<Longrightarrow> reads f s bs s'"
  by (simp add: reads_def)

lemma read_until_loop_ahead:
  assumes "ahead (xs @ [d]) b" "d \<notin> set xs" "length xs \<le> n"
  shows "read_until_loop d n b acc = Some (acc @ xs, skip (length xs) b)"
  using assms
proof (induction xs arbitrary: n b acc)
  case Nil
  then have "deref b = Some d" by (simp add: ahead_deref)
  then show ?case by (cases n) auto
next
  case (Cons x xs)
  then obtain m where n: "n = Suc m" by (cases n) auto
  from Cons.prems have "deref b = Some x" "b_cur b \<noteq> b_base b + b_sz b"
    using ahead_deref ahead_not_end by (metis append_Cons)+
  moreover from Cons.prems have "ahead (xs @ [d]) (skip 1 b)"
    using ahead_Cons by (metis append_Cons)
  ultimately show ?case
    using Cons n by (auto simp: advance_skip)
qed

lemma read_until_ahead:
  assumes "ahead (xs @ [d]) b" "d \<notin> set xs" "length xs \<le> n"
  shows "udap_buffer_read_until d n b = Some (length xs, xs, skip (length xs) b)"
proof -
  from assms(1) have "ahead [d] (skip (length xs) b)" by (simp add: ahead_append)
  then have "udap_buffer_size_left (skip (length xs) b) \<noteq> 0"
    using ahead_size_left by blast
  then show ?thesis
    using read_until_loop_ahead [OF assms, of "[]"] by (simp add: udap_buffer_read_until_def)
qed

text \<open>An unsigned value survives the trip through its signed decimal text.\<close>

lemma reads_integer [read_rules]:
  assumes "w \<noteq> -1"
  shows "reads bencode_read_integer v (bint (sint w)) w"
proof (rule readsI)
  fix b assume a: "ahead (bint (sint w)) b"
  have tx: "dec_int (sint w) = fmt_ld w" by (simp add: fmt_ld_def)
  from a have 1: "deref b = Some 105"
    using ahead_deref by (simp add: bint_def)
  from a have "ahead (fmt_ld w @ [101]) (skip 1 b)"
    using ahead_Cons by (metis bint_def tx append_Cons append_Nil)
  moreover have "101 \<notin> set (fmt_ld w)"
    using dec_int_chars tx by metis
  ultimately have 2: "udap_buffer_read_until 101 31 (skip 1 b) =
      Some (length (fmt_ld w), fmt_ld w, skip (length (fmt_ld w)) (skip 1 b))"
    using length_fmt_ld [of w] by (intro read_until_ahead) auto
  have 3: "word_of_int (atol (fmt_ld w)) = w"
    by (simp add: atol_fmt_ld)
  have "fmt_ld w \<noteq> []" by (simp flip: tx)
  with 1 2 3 assms show "bencode_read_integer v b = Some (True, w, skip (length (bint (sint w))) b)"
    by (simp add: bencode_read_integer_def advance_skip Let_def bint_def tx)
qed

lemma reads_zero [read_rules]: "reads bencode_read_integer v (bint 0) 0"
  using reads_integer [of 0 v] by simp

text \<open>The contents of a buffer that spans a key or a string value.\<close>

definition holds :: "udap_buffer_t \<Rightarrow> byte list \<Rightarrow> bool" where
  "holds k bs \<longleftrightarrow> b_cur k = b_base k \<and> b_sz k = length bs \<and>
     b_base k + b_sz k \<le> length (b_mem k) \<and> take (length bs) (drop (b_base k) (b_mem k)) = bs"

lemma read_string_ahead:
  assumes a: "ahead (bstr data) b" and len: "length data < 10 ^ 9"
  shows "\<exists>k. bencode_read_string b = Some (Some k, skip (length (bstr data)) b) \<and> holds k data"
proof -
  let ?n = "dec_nat (length data)"
  from a have a1: "ahead (?n @ [58]) b" and a2: "ahead data (skip (length ?n + 1) b)"
    using ahead_append [of "?n @ [58]" data b] by (simp_all add: bstr_def)
  have "58 \<notin> set ?n" using dec_nat_digits digit_not_special by metis
  moreover have "length ?n \<le> 9" using len by (intro length_dec_nat) auto
  ultimately have 1: "udap_buffer_read_until 58 9 b = Some (length ?n, ?n, skip (length ?n) b)"
    using a1 by (intro read_until_ahead)
  have 2: "atoi ?n = int (length data)" using len by (intro atoi_dec_nat) simp
  let ?b = "skip (length ?n + 1) b"
  have 3: "udap_buffer_size_left ?b \<ge> length data"
    using a2 by (auto simp: ahead_def size_left_eq_room room_def)
  let ?k = "\<lparr>b_mem = b_mem b, b_base = b_cur ?b, b_cur = b_cur ?b, b_sz = length data\<rparr>"
  have "bencode_read_string b = Some (Some ?k, skip (length (bstr data)) b)"
    using 1 2 3 by (simp add: bencode_read_string_def advance_skip Let_def bstr_def skip_def)
  moreover have "holds ?k data"
    using a2 by (auto simp: ahead_def holds_def)
  ultimately show ?thesis by blast
qed

lemma buffer_eq_at:
  assumes "b_cur k \<le> b_base k + b_sz k" "b_base k + b_sz k \<le> length (b_mem k)"
  shows "udap_buffer_eq k str =
    Some (str = take (length str) (take (b_base k + b_sz k - b_cur k) (drop (b_cur k) (b_mem k))))"
  using assms
proof (induction str arbitrary: k)
  case Nil
  then show ?case by simp
next
  case (Cons c str)
  show ?case
  proof (cases "b_cur k = b_base k + b_sz k")
    case True
    then show ?thesis by simp
  next
    case False
    with Cons.prems have lt: "b_cur k < length (b_mem k)" by simp
    then have dr: "drop (b_cur k) (b_mem k) = b_mem k ! b_cur k # drop (Suc (b_cur k)) (b_mem k)"
      by (simp add: Cons_nth_drop_Suc)
    from False Cons.prems have n: "b_base k + b_sz k - b_cur k = Suc (b_base k + b_sz k - Suc (b_cur k))"
      by simp
    have "udap_buffer_eq (advance k) str = Some (str = take (length str)
        (take (b_base k + b_sz k - Suc (b_cur k)) (drop (Suc (b_cur k)) (b_mem k))))"
      using Cons.IH [of "advance k"] Cons.prems False by (simp add: advance_def)
    with False lt show ?thesis
      by (auto simp: deref_def dr n)
  qed
qed

text \<open>A key of the input matches a literal when the literal is a prefix of it.\<close>

lemma buffer_eq_holds: "holds k key \<Longrightarrow> udap_buffer_eq k str = Some (str = take (length str) key)"
  by (subst buffer_eq_at) (auto simp: holds_def)

lemma if_key_holds:
  "holds k key \<Longrightarrow> if_key k str A B = (if lit str = take (length str) key then A else B)"
  by (simp add: if_key_def buffer_eq_holds)

lemma holds_load: "holds k bs \<Longrightarrow> mem_load (b_mem k) (b_base k) (b_sz k) = Some bs"
  by (auto simp: holds_def mem_load_def)

lemma holds_sz: "holds k bs \<Longrightarrow> b_sz k = length bs"
  by (simp add: holds_def)

lemma holds_deref: "holds k (x # xs) \<Longrightarrow> deref k = Some x"
  using ahead_deref [of x xs k] by (auto simp: holds_def ahead_def)

subsection \<open>Dictionaries and lists\<close>

text \<open>
  \<open>dict_run on_key s bs s'\<close>: the entries \<open>bs\<close> of a dictionary take the callback's state from
  \<open>s\<close> to \<open>s'\<close>.
\<close>

inductive dict_run ::
  "(udap_buffer_t option \<Rightarrow> 's act) \<Rightarrow> 's \<Rightarrow> byte list \<Rightarrow> 's \<Rightarrow> bool" for on_key where
  dict_nil: "dict_run on_key s [] s"
| dict_cons: "length key < 10 ^ 9 \<Longrightarrow> (\<forall>k. holds k key \<longrightarrow> reads (on_key (Some k)) s v s1) \<Longrightarrow>
    dict_run on_key s1 bs s2 \<Longrightarrow> dict_run on_key s (bstr key @ v @ bs) s2"

lemma dec_nat_head: "\<exists>c cs. dec_nat n = c # cs \<and> isdigit c"
  using dec_nat_digits [of "hd (dec_nat n)" n] by (cases "dec_nat n") auto

lemma bstr_head: "\<exists>c cs. bstr data = c # cs \<and> c \<noteq> 101"
  using dec_nat_head [of "length data"] digit_not_special by (fastforce simp: bstr_def)

lemma read_dict_loop_run:
  "dict_run on_key s bs s' \<Longrightarrow> ahead (bs @ [101]) b \<Longrightarrow>
     read_dict_loop on_key s b = Some (True, s', skip (length bs) b)"
proof (induction arbitrary: b rule: dict_run.induct)
  case (dict_nil s)
  then have "deref b = Some 101" by (simp add: ahead_deref)
  then show ?case by (simp add: read_dict_loop.simps)
next
  case (dict_cons key s v s1 bs s2)
  obtain c cs where c: "bstr key = c # cs" "c \<noteq> 101" using bstr_head by blast
  from dict_cons.prems have a: "ahead (bstr key) b" "ahead v (skip (length (bstr key)) b)"
    "ahead (bs @ [101]) (skip (length v) (skip (length (bstr key)) b))"
    by (simp_all add: ahead_append)
  from a(1) c have d: "deref b = Some c" "udap_buffer_size_left b \<noteq> 0"
    using ahead_deref ahead_size_left by metis+
  obtain k where k: "bencode_read_string b = Some (Some k, skip (length (bstr key)) b)" "holds k key"
    using read_string_ahead [OF a(1) dict_cons.hyps(1)] by blast
  have "on_key (Some k) s (skip (length (bstr key)) b) =
      Some (True, s1, skip (length v) (skip (length (bstr key)) b))"
    using dict_cons.hyps(2) k(2) a(2) by (blast intro: readsD)
  then show ?case
    using d k c dict_cons.IH [OF a(3)] by (simp add: read_dict_loop.simps [of on_key s b] add.assoc)
qed

lemma read_dict_run:
  assumes run: "dict_run on_key s bs s1" and a: "ahead (100 # bs @ [101]) b"
  shows "bencode_read_dict on_key s b = on_key None s1 (skip (length (100 # bs @ [101])) b)"
proof -
  from a have "deref b = Some 100" by (rule ahead_deref)
  moreover from a have a1: "ahead (bs @ [101]) (skip 1 b)" by (metis ahead_Cons)
  moreover from a1 have "deref (skip (length bs) (skip 1 b)) = Some 101"
    by (rule ahead_last)
  ultimately show ?thesis
    using read_dict_loop_run [OF run a1] by (simp add: bencode_read_dict_def advance_skip)
qed

lemma reads_dict [read_rules]:
  assumes run: "dict_run on_key s bs s1" and fin: "\<And>b. on_key None s1 b = Some (True, s2, b)"
  shows "reads (bencode_read_dict on_key) s (100 # bs @ [101]) s2"
  using read_dict_run [OF run] fin by (simp add: reads_def)

lemma reads_dict_eq:
  assumes "dict_run on_key s bs s1" "\<And>b. on_key None s1 b = Some (True, s2, b)" "v = 100 # bs @ [101]"
  shows "reads (bencode_read_dict on_key) s v s2"
  using reads_dict [OF assms(1,2)] assms(3) by simp

inductive list_run :: "(bool \<Rightarrow> 's act) \<Rightarrow> 's \<Rightarrow> byte list \<Rightarrow> 's \<Rightarrow> bool" for on_item where
  list_nil: "list_run on_item s [] s"
| list_cons: "c \<noteq> 101 \<Longrightarrow> reads (on_item True) s (c # v) s1 \<Longrightarrow>
    list_run on_item s1 bs s2 \<Longrightarrow> list_run on_item s (c # v @ bs) s2"

lemma read_list_loop_run:
  "list_run on_item s bs s' \<Longrightarrow> ahead (bs @ [101]) b \<Longrightarrow>
     read_list_loop on_item s b = Some (True, s', skip (length bs) b)"
proof (induction arbitrary: b rule: list_run.induct)
  case (list_nil s)
  then have "deref b = Some 101" by (simp add: ahead_deref)
  then show ?case by (simp add: read_list_loop.simps)
next
  case (list_cons c s v s1 bs s2)
  from list_cons.prems have a: "ahead (c # v) b" "ahead (bs @ [101]) (skip (length (c # v)) b)"
    using ahead_append [of "c # v" "bs @ [101]" b] by simp_all
  from a(1) have d: "deref b = Some c" "udap_buffer_size_left b \<noteq> 0"
    using ahead_deref ahead_size_left by blast+
  have "on_item True s b = Some (True, s1, skip (length (c # v)) b)"
    using list_cons.hyps(2) a(1) by (rule readsD)
  then show ?case
    using d list_cons.hyps(1) list_cons.IH [OF a(2)] by (simp add: read_list_loop.simps [of on_item s b])
qed

lemma reads_list [read_rules]:
  assumes run: "list_run on_item s bs s1" and fin: "\<And>b. on_item False s1 b = Some (True, s2, b)"
  shows "reads (bencode_read_list on_item) s (108 # bs @ [101]) s2"
proof (rule readsI)
  fix b assume a: "ahead (108 # bs @ [101]) b"
  then have "deref b = Some 108" by (rule ahead_deref)
  moreover from a have a1: "ahead (bs @ [101]) (skip 1 b)" by (metis ahead_Cons)
  moreover from a1 have "deref (skip (length bs) (skip 1 b)) = Some 101"
    by (rule ahead_last)
  ultimately show "bencode_read_list on_item s b =
      Some (True, s2, skip (length (108 # bs @ [101])) b)"
    using read_list_loop_run [OF run a1] fin by (simp add: bencode_read_list_def advance_skip)
qed

lemma list_run_items:
  assumes "\<And>x acc. x \<in> set l \<Longrightarrow> reads (on_item True) acc (enc x) (acc @ [x])"
    and "\<And>x. x \<in> set l \<Longrightarrow> \<exists>c v. enc x = c # v \<and> c \<noteq> 101"
  shows "list_run on_item acc (concat (map enc l)) (acc @ l)"
  using assms
proof (induction l arbitrary: acc)
  case Nil
  then show ?case by (simp add: list_nil)
next
  case (Cons x l)
  from Cons.prems(2) [of x] obtain c v where v: "enc x = c # v" "c \<noteq> 101" by auto
  have "reads (on_item True) acc (c # v) (acc @ [x])"
    using Cons.prems(1) [of x acc] v by simp
  moreover have "list_run on_item (acc @ [x]) (concat (map enc l)) ((acc @ [x]) @ l)"
    using Cons.IH [of "acc @ [x]"] Cons.prems by auto
  ultimately show ?case using list_cons [OF v(2)] v(1) by fastforce
qed

text \<open>Lists of items that each start with a byte other than \<open>e\<close>, as every encoding does.\<close>

lemma read_items_loop_items:
  assumes item: "\<And>x. x \<in> set xs \<Longrightarrow> reads BDecode fresh (enc x) x \<and> (\<exists>c cs. enc x = c # cs \<and> c \<noteq> 101)"
  shows "ahead (concat (map enc xs) @ [101]) b \<Longrightarrow>
    read_items_loop fresh BDecode acc b = Some (True, acc @ xs, skip (length (concat (map enc xs))) b)"
  using item
proof (induction xs arbitrary: acc b)
  case Nil
  then have "deref b = Some 101" by (simp add: ahead_deref)
  then show ?case by (simp add: read_items_loop.simps)
next
  case (Cons x xs)
  from Cons.prems(2) [of x] obtain c cs where c: "enc x = c # cs" "c \<noteq> 101"
    and r: "reads BDecode fresh (enc x) x" by auto
  from Cons.prems have a: "ahead (enc x) b" "ahead (concat (map enc xs) @ [101]) (skip (length (enc x)) b)"
    by (simp_all add: ahead_append)
  from a(1) c have d: "deref b = Some c" "udap_buffer_size_left b \<noteq> 0"
    using ahead_deref ahead_size_left by metis+
  have "BDecode fresh b = Some (True, x, skip (length (enc x)) b)" using r a(1) by (rule readsD)
  then show ?case
    using d c Cons.IH [OF a(2), of "acc @ [x]"] Cons.prems(2)
    by (simp add: read_items_loop.simps [of fresh BDecode acc b])
qed

lemma reads_items:
  assumes item: "\<And>x. x \<in> set xs \<Longrightarrow> reads BDecode fresh (enc x) x \<and> (\<exists>c cs. enc x = c # cs \<and> c \<noteq> 101)"
  shows "reads (BEncodeReadList fresh BDecode) acc (108 # concat (map enc xs) @ [101]) (acc @ xs)"
proof (rule readsI)
  fix b assume a: "ahead (108 # concat (map enc xs) @ [101]) b"
  then have "deref b = Some 108" by (rule ahead_deref)
  moreover from a have a1: "ahead (concat (map enc xs) @ [101]) (skip 1 b)" by (metis ahead_Cons)
  moreover from a1 have "deref (skip (length (concat (map enc xs))) (skip 1 b)) = Some 101"
    by (rule ahead_last)
  ultimately show "BEncodeReadList fresh BDecode acc b =
      Some (True, acc @ xs, skip (length (108 # concat (map enc xs) @ [101])) b)"
    using read_items_loop_items [OF item a1] by (simp add: BEncodeReadList_def advance_skip)
qed

end
