(* ===== verification/Safety.thy ===== *)
theory Safety
  imports Reading
begin

text \<open>
  The decoders on arbitrary input. \<open>udap_buffer_read_until\<close> and the readers look at
  \<open>*buff->cur\<close> before they compare \<open>cur\<close> with the end, so they can run past it; the contract
  \<open>rsafe j f\<close> bounds how far. It says that a decoder returns on every input, that a
  successful one makes progress, and that it leaves the position at most \<open>j\<close> bytes past the end.
\<close>

section \<open>The contract\<close>

text \<open>
  33 bytes: the byte at the end, taken for the \<open>i\<close> of an integer, 31 characters of its text
  and the byte the loop stops at.
\<close>

definition overread :: nat where
  "overread = 33"

definition slack :: "udap_buffer_t \<Rightarrow> bool" where
  "slack b \<longleftrightarrow> b_base b \<le> b_cur b \<and> b_cur b \<le> b_base b + b_sz b \<and>
     b_base b + b_sz b + overread \<le> length (b_mem b)"

definition moved :: "nat \<Rightarrow> udap_buffer_t \<Rightarrow> udap_buffer_t \<Rightarrow> bool" where
  "moved j b b' \<longleftrightarrow> b_mem b' = b_mem b \<and> b_base b' = b_base b \<and> b_sz b' = b_sz b \<and>
     b_cur b < b_cur b' \<and> b_cur b' \<le> b_base b + b_sz b + j"

definition rsafe :: "nat \<Rightarrow> 's act \<Rightarrow> bool" where
  "rsafe j f \<longleftrightarrow>
     (\<forall>s b. slack b \<longrightarrow> (\<exists>ok s' b'. f s b = Some (ok, s', b') \<and> (ok \<longrightarrow> moved j b b')))"

lemma rsafeI:
  "(\<And>s b. slack b \<Longrightarrow> \<exists>ok s' b'. f s b = Some (ok, s', b') \<and> (ok \<longrightarrow> moved j b b')) \<Longrightarrow> rsafe j f"
  by (simp add: rsafe_def)

lemma rsafeE:
  assumes "rsafe j f" "slack b"
  obtains ok s' b' where "f s b = Some (ok, s', b')" "ok \<longrightarrow> moved j b b'"
proof -
  from assms have "\<exists>ok s' b'. f s b = Some (ok, s', b') \<and> (ok \<longrightarrow> moved j b b')"
    unfolding rsafe_def by blast
  then show ?thesis using that by blast
qed

text \<open>The same for a decoder that relies on its state and keeps what it relies on.\<close>

definition rsafe_on :: "('s \<Rightarrow> bool) \<Rightarrow> nat \<Rightarrow> 's act \<Rightarrow> bool" where
  "rsafe_on I j f \<longleftrightarrow> (\<forall>s b. I s \<longrightarrow> slack b \<longrightarrow>
     (\<exists>ok s' b'. f s b = Some (ok, s', b') \<and> (ok \<longrightarrow> I s' \<and> moved j b b')))"

lemma rsafe_onI:
  "(\<And>s b. I s \<Longrightarrow> slack b \<Longrightarrow> \<exists>ok s' b'. f s b = Some (ok, s', b') \<and> (ok \<longrightarrow> I s' \<and> moved j b b')) \<Longrightarrow>
   rsafe_on I j f"
  by (simp add: rsafe_on_def)

lemma rsafe_onE:
  assumes "rsafe_on I j f" "I s" "slack b"
  obtains ok s' b' where "f s b = Some (ok, s', b')" "ok \<longrightarrow> I s' \<and> moved j b b'"
proof -
  from assms have "\<exists>ok s' b'. f s b = Some (ok, s', b') \<and> (ok \<longrightarrow> I s' \<and> moved j b b')"
    unfolding rsafe_on_def by blast
  then show ?thesis using that by blast
qed

lemma moved_mono: "moved i b b' \<Longrightarrow> i \<le> j \<Longrightarrow> moved j b b'"
  by (simp add: moved_def)

lemma rsafe_mono: "rsafe i f \<Longrightarrow> i \<le> j \<Longrightarrow> rsafe j f"
  unfolding rsafe_def using moved_mono by blast

lemma moved_slack: "slack b \<Longrightarrow> moved 0 b b' \<Longrightarrow> slack b'"
  by (simp add: slack_def moved_def)

lemma moved_trans: "moved i b b' \<Longrightarrow> moved j b' b'' \<Longrightarrow> moved j b b''"
  by (simp add: moved_def)

lemma deref_slack: "slack b \<Longrightarrow> \<exists>c. deref b = Some c"
  by (simp add: deref_def slack_def overread_def)

section \<open>Reading up to a delimiter\<close>

lemma read_until_loop_inside:
  assumes "b_cur b \<le> b_base b + b_sz b" "b_base b + b_sz b < length (b_mem b)"
  shows "\<exists>m acc'. read_until_loop d n b acc = Some (acc', skip m b) \<and>
    length acc' = length acc + m \<and> b_cur b + m \<le> b_base b + b_sz b"
  using assms
proof (induction d n b acc rule: read_until_loop.induct)
  case (1 d b acc)
  then show ?case by (intro exI [of _ 0] exI [of _ acc]) (simp add: deref_def)
next
  case (2 d n b acc)
  from "2.prems" obtain c where c: "deref b = Some c" by (simp add: deref_def)
  show ?case
  proof (cases "c \<noteq> d \<and> b_cur b \<noteq> b_base b + b_sz b")
    case True
    with "2.prems" have "b_cur (advance b) \<le> b_base (advance b) + b_sz (advance b)"
      and "b_base (advance b) + b_sz (advance b) < length (b_mem (advance b))"
      by (auto simp: advance_skip)
    from "2.IH" [OF c True this] obtain m acc' where
      "read_until_loop d n (advance b) (acc @ [c]) = Some (acc', skip m (advance b))"
      "length acc' = length (acc @ [c]) + m" "b_cur (advance b) + m \<le> b_base b + b_sz b"
      by (auto simp: advance_skip)
    with c True show ?thesis
      by (intro exI [of _ "Suc m"] exI [of _ acc']) (auto simp: advance_skip)
  next
    case False
    with c "2.prems" show ?thesis
      by (intro exI [of _ 0] exI [of _ acc]) auto
  qed
qed

lemma read_until_loop_bounded:
  assumes "b_cur b + n < length (b_mem b)"
  shows "\<exists>m acc'. read_until_loop d n b acc = Some (acc', skip m b) \<and>
    length acc' = length acc + m"
  using assms
proof (induction d n b acc rule: read_until_loop.induct)
  case (1 d b acc)
  then show ?case by (intro exI [of _ 0] exI [of _ acc]) (simp add: deref_def)
next
  case (2 d n b acc)
  from "2.prems" obtain c where c: "deref b = Some c" by (simp add: deref_def)
  show ?case
  proof (cases "c \<noteq> d \<and> b_cur b \<noteq> b_base b + b_sz b")
    case True
    with "2.prems" have "b_cur (advance b) + n < length (b_mem (advance b))"
      by (auto simp: advance_skip)
    from "2.IH" [OF c True this] obtain m acc' where
      "read_until_loop d n (advance b) (acc @ [c]) = Some (acc', skip m (advance b))"
      "length acc' = length (acc @ [c]) + m" by blast
    with c True show ?thesis
      by (intro exI [of _ "Suc m"] exI [of _ acc']) (auto simp: advance_skip)
  next
    case False
    with c show ?thesis by (intro exI [of _ 0] exI [of _ acc]) auto
  qed
qed

lemma read_until_returns:
  assumes lo: "b_base b \<le> b_cur b"
    and inside: "b_cur b \<le> b_base b + b_sz b \<and> b_base b + b_sz b < length (b_mem b) \<or>
      b_cur b + n < length (b_mem b)"
  shows "\<exists>len res m. udap_buffer_read_until d n b = Some (len, res, skip m b) \<and>
    (len \<noteq> 0 \<longrightarrow> len = m \<and> length res = m \<and> b_cur b + m < b_base b + b_sz b)"
proof -
  obtain m res where loop: "read_until_loop d n b [] = Some (res, skip m b)" "length res = m"
    using inside read_until_loop_inside [of b d n "[]"] read_until_loop_bounded [of b n d "[]"]
    by auto
  have left: "udap_buffer_size_left (skip m b) = b_base b + b_sz b - (b_cur b + m)"
    using lo by (simp add: size_left_eq_room room_def)
  show ?thesis
    by (cases "udap_buffer_size_left (skip m b) = 0")
      (use loop left in \<open>auto simp: udap_buffer_read_until_def\<close>)
qed

section \<open>Integers and strings\<close>

lemma rsafe_read_integer [safe_rules]: "rsafe 0 bencode_read_integer"
proof (rule rsafeI)
  fix s b assume sl: "slack b"
  then obtain c where c: "deref b = Some c" using deref_slack by blast
  show "\<exists>ok s' b'. bencode_read_integer s b = Some (ok, s', b') \<and> (ok \<longrightarrow> moved 0 b b')"
  proof (cases "c = 105")
    case True
    have "b_base (skip 1 b) \<le> b_cur (skip 1 b)" using sl by (simp add: slack_def)
    moreover have "b_cur (skip 1 b) \<le> b_base (skip 1 b) + b_sz (skip 1 b) \<and>
        b_base (skip 1 b) + b_sz (skip 1 b) < length (b_mem (skip 1 b)) \<or>
        b_cur (skip 1 b) + 31 < length (b_mem (skip 1 b))"
      using sl by (auto simp: slack_def overread_def)
    ultimately obtain len res m where r:
      "udap_buffer_read_until 101 31 (skip 1 b) = Some (len, res, skip m (skip 1 b))"
      "len \<noteq> 0 \<longrightarrow> len = m \<and> length res = m \<and>
         b_cur (skip 1 b) + m < b_base (skip 1 b) + b_sz (skip 1 b)"
      using read_until_returns by blast
    show ?thesis
    proof (cases "len = 0")
      case True
      with r c \<open>c = 105\<close> show ?thesis by (auto simp: bencode_read_integer_def advance_skip)
    next
      case False
      with r have "moved 0 b (skip 1 (skip m (skip 1 b)))"
        using sl by (auto simp: moved_def slack_def)
      with False r c \<open>c = 105\<close> show ?thesis
        by (auto simp: bencode_read_integer_def advance_skip Let_def)
    qed
  next
    case False
    with c show ?thesis by (auto simp: bencode_read_integer_def)
  qed
qed

text \<open>The string lies inside the buffer, so its bytes can be copied without a check.\<close>

lemma read_string_safe:
  assumes sl: "slack b"
  shows "\<exists>r b'. bencode_read_string b = Some (r, b') \<and>
    (\<forall>k. r = Some k \<longrightarrow> moved 0 b b' \<and> buf_wf k \<and> b_cur k = b_base k)"
proof -
  from sl obtain len res m where r:
    "udap_buffer_read_until 58 9 b = Some (len, res, skip m b)"
    "len \<noteq> 0 \<longrightarrow> len = m \<and> length res = m \<and> b_cur b + m < b_base b + b_sz b"
    using read_until_returns [of b 9 58] by (auto simp: slack_def overread_def)
  show ?thesis
  proof (cases "len = 0 \<or> atoi res < 0 \<or>
      udap_buffer_size_left (skip (Suc m) b) < nat (atoi res)")
    case True
    with r show ?thesis
      by (auto simp: bencode_read_string_def advance_skip Let_def)
  next
    case False
    let ?n = "nat (atoi res)" and ?b = "skip (Suc m) b"
    let ?k = "\<lparr>b_mem = b_mem b, b_base = b_cur ?b, b_cur = b_cur ?b, b_sz = ?n\<rparr>"
    have eq: "bencode_read_string b = Some (Some ?k, skip (Suc m + ?n) b)"
      using False r by (auto simp: bencode_read_string_def advance_skip Let_def skip_def)
    have "b_cur b + Suc m + ?n \<le> b_base b + b_sz b"
      using False r sl by (auto simp: size_left_eq_room room_def slack_def)
    then have "moved 0 b (skip (Suc m + ?n) b)" "buf_wf ?k"
      using sl by (auto simp: moved_def buf_wf_def slack_def)
    with eq show ?thesis by auto
  qed
qed

lemma buffer_eq_wf: "buf_wf k \<Longrightarrow> \<exists>e. udap_buffer_eq k str = Some e"
  using buffer_eq_at [of k str] by (simp add: buf_wf_def)

lemma load_wf: "buf_wf k \<Longrightarrow> \<exists>bs. mem_load (b_mem k) (b_base k) (b_sz k) = Some bs \<and> length bs = b_sz k"
  by (auto simp: buf_wf_def mem_load_def)

section \<open>Dictionaries and lists\<close>

text \<open>
  What the dictionary reader relies on in a callback: it returns for every key, at the end of the
  dictionary too, when its state satisfies \<open>I\<close>, and keeps \<open>I\<close>.
\<close>

locale dict_parser =
  fixes on_key :: "udap_buffer_t option \<Rightarrow> 's act" and j :: nat and I :: "'s \<Rightarrow> bool"
  assumes key_kept: "buf_wf k \<Longrightarrow> b_cur k = b_base k \<Longrightarrow> rsafe_on I j (on_key (Some k))"
    and end_kept: "I s \<Longrightarrow> \<exists>ok s'. on_key None s b = Some (ok, s', b)"
    and bound: "1 \<le> j" "j < overread"
begin

lemma loop_safe:
  assumes "I s" "b_base b \<le> b_cur b" "b_cur b \<le> b_base b + b_sz b + j"
    and "b_base b + b_sz b + overread \<le> length (b_mem b)"
  shows "\<exists>ok s' b'. read_dict_loop on_key s b = Some (ok, s', b') \<and>
    (ok \<longrightarrow> I s' \<and> (b' = b \<or> moved j b b'))"
  using assms
proof (induction "b_base b + b_sz b + j - b_cur b" arbitrary: b s rule: less_induct)
  case less
  show ?case
  proof (cases "udap_buffer_size_left b = 0")
    case True
    then have "read_dict_loop on_key s b = Some (True, s, b)"
      by (simp add: read_dict_loop.simps [of on_key s b])
    then show ?thesis using less.prems by blast
  next
    case False
    with less.prems have sl: "slack b"
      by (auto simp: slack_def size_left_eq_room room_def)
    then obtain c where c: "deref b = Some c" using deref_slack by blast
    obtain r b1 where str: "bencode_read_string b = Some (r, b1)"
      and k: "\<And>k. r = Some k \<Longrightarrow> moved 0 b b1 \<and> buf_wf k \<and> b_cur k = b_base k"
      using read_string_safe [OF sl] by blast
    show ?thesis
    proof (cases "c = 101 \<or> r = None")
      case True
      with False c str less.prems show ?thesis by (auto simp: read_dict_loop.simps [of on_key s b])
    next
      case F: False
      then obtain key where key: "r = Some key" by auto
      with k have m1: "moved 0 b b1" and "rsafe_on I j (on_key (Some key))"
        using key_kept by blast+
      then obtain ok s2 b2 where cb: "on_key (Some key) s b1 = Some (ok, s2, b2)"
        "ok \<longrightarrow> I s2 \<and> moved j b1 b2"
        using moved_slack [OF sl m1] less.prems(1) by (metis rsafe_onE)
      show ?thesis
      proof (cases ok)
        case False
        with F c str key cb \<open>udap_buffer_size_left b \<noteq> 0\<close> show ?thesis
          by (auto simp: read_dict_loop.simps [of on_key s b])
      next
        case True
        with m1 cb have m2: "moved j b b2" by (blast intro: moved_trans)
        have measure: "b_base b2 + b_sz b2 + j - b_cur b2 < b_base b + b_sz b + j - b_cur b"
          using m2 unfolding moved_def by linarith
        have pre: "I s2" "b_base b2 \<le> b_cur b2" "b_cur b2 \<le> b_base b2 + b_sz b2 + j"
          "b_base b2 + b_sz b2 + overread \<le> length (b_mem b2)"
          using m2 less.prems cb True by (auto simp: moved_def)
        obtain ok3 s3 b3 where l: "read_dict_loop on_key s2 b2 = Some (ok3, s3, b3)"
          "ok3 \<longrightarrow> I s3 \<and> (b3 = b2 \<or> moved j b2 b3)"
          using less.hyps [OF measure pre] by blast
        from l m2 have "ok3 \<longrightarrow> I s3 \<and> moved j b b3" by (auto intro: moved_trans)
        with l True F c str key cb \<open>udap_buffer_size_left b \<noteq> 0\<close> show ?thesis
          by (auto simp: read_dict_loop.simps [of on_key s b])
      qed
    qed
  qed
qed

lemma read_dict_kept:
  assumes I: "I s" and sl: "slack b"
  shows "\<exists>ok s' b'. bencode_read_dict on_key s b = Some (ok, s', b') \<and> (ok \<longrightarrow> moved (j + 1) b b')"
proof -
  from sl obtain c where c: "deref b = Some c" using deref_slack by blast
  from sl obtain ok s1 b1 where l: "read_dict_loop on_key s (skip 1 b) = Some (ok, s1, b1)"
    "ok \<longrightarrow> I s1 \<and> (b1 = skip 1 b \<or> moved j (skip 1 b) b1)"
    using loop_safe [of s "skip 1 b"] I bound by (auto simp: slack_def)
  show ?thesis
  proof (cases "c = 100 \<and> ok")
    case False
    with c l show ?thesis by (auto simp: bencode_read_dict_def advance_skip)
  next
    case True
    with l sl bound have m: "b_cur b < b_cur b1" "b_cur b1 \<le> b_base b + b_sz b + j"
      "b_mem b1 = b_mem b" "b_base b1 = b_base b" "b_sz b1 = b_sz b"
      by (auto simp: moved_def slack_def)
    then obtain d where d: "deref b1 = Some d"
      using sl bound by (auto simp: deref_def slack_def overread_def)
    obtain ok2 s2 where e: "on_key None s1 (skip 1 b1) = Some (ok2, s2, skip 1 b1)"
      using end_kept l True by blast
    have "moved (j + 1) b (skip 1 b1)" using m by (auto simp: moved_def)
    with True c l d e show ?thesis
      by (auto simp: bencode_read_dict_def advance_skip)
  qed
qed

end

text \<open>A callback that does not depend on its state.\<close>

locale dict_callback =
  fixes on_key :: "udap_buffer_t option \<Rightarrow> 's act" and j :: nat
  assumes key_safe: "buf_wf k \<Longrightarrow> b_cur k = b_base k \<Longrightarrow> rsafe j (on_key (Some k))"
    and end_safe: "\<exists>ok s'. on_key None s b = Some (ok, s', b)"
    and near: "1 \<le> j" "j < overread"

sublocale dict_callback \<subseteq> parser: dict_parser on_key j "\<lambda>_. True"
  by unfold_locales (use key_safe end_safe near in \<open>auto simp: rsafe_on_def rsafe_def\<close>)

context dict_callback
begin

lemma read_dict_safe: "rsafe (j + 1) (bencode_read_dict on_key)"
  using parser.read_dict_kept by (intro rsafeI) blast

end

locale list_callback =
  fixes on_item :: "bool \<Rightarrow> 's act" and j :: nat
  assumes item_safe: "rsafe j (on_item True)"
    and last_safe: "\<exists>ok s'. on_item False s b = Some (ok, s', b)"
    and bound: "1 \<le> j" "j < overread"
begin

lemma loop_safe:
  assumes "b_base b \<le> b_cur b" "b_cur b \<le> b_base b + b_sz b + j"
    and "b_base b + b_sz b + overread \<le> length (b_mem b)"
  shows "\<exists>ok s' b'. read_list_loop on_item s b = Some (ok, s', b') \<and>
    (ok \<longrightarrow> (b' = b \<or> moved (j) b b'))"
  using assms
proof (induction "b_base b + b_sz b + j - b_cur b" arbitrary: b s rule: less_induct)
  case less
  show ?case
  proof (cases "udap_buffer_size_left b = 0")
    case True
    then have "read_list_loop on_item s b = Some (True, s, b)"
      by (simp add: read_list_loop.simps [of on_item s b])
    then show ?thesis by blast
  next
    case False
    with less.prems have sl: "slack b"
      by (auto simp: slack_def size_left_eq_room room_def)
    then obtain c where c: "deref b = Some c" using deref_slack by blast
    obtain ok s2 b2 where cb: "on_item True s b = Some (ok, s2, b2)" "ok \<longrightarrow> moved j b b2"
      using item_safe sl by (rule rsafeE)
    show ?thesis
    proof (cases "c = 101 \<or> \<not> ok")
      case True
      with False c cb show ?thesis by (auto simp: read_list_loop.simps [of on_item s b])
    next
      case F: False
      with cb have m2: "moved j b b2" by simp
      have measure: "b_base b2 + b_sz b2 + j - b_cur b2 < b_base b + b_sz b + j - b_cur b"
        using m2 unfolding moved_def by linarith
      have pre: "b_base b2 \<le> b_cur b2" "b_cur b2 \<le> b_base b2 + b_sz b2 + j"
        "b_base b2 + b_sz b2 + overread \<le> length (b_mem b2)"
        using m2 less.prems by (auto simp: moved_def)
      obtain ok3 s3 b3 where l: "read_list_loop on_item s2 b2 = Some (ok3, s3, b3)"
        "ok3 \<longrightarrow> b3 = b2 \<or> moved (j) b2 b3"
        using less.hyps [OF measure pre] by blast
      have "moved (j) b b2" using m2 by (auto simp: moved_def)
      with l have "ok3 \<longrightarrow> moved (j) b b3" by (auto intro: moved_trans)
      with l F c cb \<open>udap_buffer_size_left b \<noteq> 0\<close> show ?thesis
        by (auto simp: read_list_loop.simps [of on_item s b])
    qed
  qed
qed

lemma read_list_safe: "rsafe (j + 1) (bencode_read_list on_item)"
proof (rule rsafeI)
  fix s b assume sl: "slack b"
  then obtain c where c: "deref b = Some c" using deref_slack by blast
  from sl obtain ok s1 b1 where l: "read_list_loop on_item s (skip 1 b) = Some (ok, s1, b1)"
    "ok \<longrightarrow> b1 = skip 1 b \<or> moved (j) (skip 1 b) b1"
    using loop_safe [of "skip 1 b" s] bound by (auto simp: slack_def)
  show "\<exists>ok s' b'. bencode_read_list on_item s b = Some (ok, s', b') \<and>
      (ok \<longrightarrow> moved (j + 1) b b')"
  proof (cases "c = 108 \<and> ok")
    case False
    with c l show ?thesis by (auto simp: bencode_read_list_def advance_skip)
  next
    case True
    with l sl bound have m: "b_cur b < b_cur b1" "b_cur b1 \<le> b_base b + b_sz b + j"
      "b_mem b1 = b_mem b" "b_base b1 = b_base b" "b_sz b1 = b_sz b"
      by (auto simp: moved_def slack_def)
    then obtain d where d: "deref b1 = Some d"
      using sl bound by (auto simp: deref_def slack_def overread_def)
    obtain ok2 s2 where e: "on_item False s1 (skip 1 b1) = Some (ok2, s2, skip 1 b1)"
      using last_safe by blast
    have "moved (j + 1) b (skip 1 b1)" using m by (auto simp: moved_def)
    with True c l d e show ?thesis
      by (auto simp: bencode_read_list_def advance_skip)
  qed
qed

end

text \<open>
  The list template reads items like \<open>bencode_read_list\<close> with a callback that appends a fresh
  item and decodes into it; the callback at the end does nothing.
\<close>

definition item_callback :: "'a \<Rightarrow> 'a act \<Rightarrow> bool \<Rightarrow> 'a list act" where
  "item_callback fresh BDecode has xs b =
     (if has then do { (ok, x, b) \<leftarrow> BDecode fresh b; Some (ok, xs @ [x], b) }
      else Some (True, xs, b))"

lemma items_loop_step:
  "read_items_loop fresh BDecode xs b =
     (if udap_buffer_size_left b = 0 then Some (True, xs, b)
      else deref b \<bind> (\<lambda>c. if c = 101 then Some (True, xs, b)
        else item_callback fresh BDecode True xs b \<bind>
          (\<lambda>(ok, xs, b). if \<not> ok then Some (False, xs, b) else read_items_loop fresh BDecode xs b)))"
  by (subst read_items_loop.simps)
    (cases "deref b"; cases "BDecode fresh b"; auto simp: item_callback_def Let_def)

lemma list_loop_items:
  assumes ret: "read_list_loop on_item s b = Some r" and cb: "on_item = item_callback fresh BDecode"
  shows "read_items_loop fresh BDecode s b = Some r"
proof -
  have "on_item = item_callback fresh BDecode \<longrightarrow> read_items_loop fresh BDecode s b = Some r"
  proof (rule read_list_loop.raw_induct [where P = "\<lambda>on_item s b r.
      on_item = item_callback fresh BDecode \<longrightarrow> read_items_loop fresh BDecode s b = Some r", OF _ ret],
      rule impI)
    fix loop :: "(bool \<Rightarrow> 'a list act) \<Rightarrow> 'a list act" and on_item s b r
    assume IH: "\<And>on_item s b r. loop on_item s b = Some r \<Longrightarrow>
        on_item = item_callback fresh BDecode \<longrightarrow> read_items_loop fresh BDecode s b = Some r"
      and eq: "(if udap_buffer_size_left b \<noteq> 0 then do {
          c \<leftarrow> deref b;
          if c \<noteq> 101 then do {
            (ok, s, b) \<leftarrow> on_item True s b;
            if \<not> ok then Some (False, s, b) else loop on_item s b
          }
          else Some (True, s, b)
        }
        else Some (True, s, b)) = Some r"
      and cb: "on_item = item_callback fresh BDecode"
    show "read_items_loop fresh BDecode s b = Some r"
    proof (cases "udap_buffer_size_left b = 0 \<or> deref b = Some 101")
      case True
      with eq show ?thesis by (auto simp: items_loop_step [of fresh BDecode s b])
    next
      case False
      with eq obtain c ok s1 b1 where "deref b = Some c" "c \<noteq> 101"
        and "on_item True s b = Some (ok, s1, b1)"
        and "(if \<not> ok then Some (False, s1, b1) else loop on_item s1 b1) = Some r"
        by (auto simp: bind_Some_conv split: if_splits)
      with False cb IH show ?thesis
        by (auto simp: items_loop_step [of fresh BDecode s b] split: if_splits)
    qed
  qed
  with cb show ?thesis by simp
qed

lemma list_callback_items:
  assumes "rsafe j BDecode" "1 \<le> j" "j < overread"
  shows "list_callback (item_callback fresh BDecode) j"
proof
  show "rsafe j (item_callback fresh BDecode True)"
  proof (rule rsafeI)
    fix s b assume "slack b"
    with assms(1) obtain ok x b' where "BDecode fresh b = Some (ok, x, b')" "ok \<longrightarrow> moved j b b'"
      by (rule rsafeE)
    then show "\<exists>ok s' b'. item_callback fresh BDecode True s b = Some (ok, s', b') \<and>
        (ok \<longrightarrow> moved j b b')"
      by (auto simp: item_callback_def)
  qed
qed (use assms in \<open>auto simp: item_callback_def\<close>)

lemma rsafe_items [safe_rules]:
  assumes "rsafe j BDecode" "1 \<le> j" "j < overread"
  shows "rsafe (j + 1) (BEncodeReadList fresh BDecode)"
proof (rule rsafeI)
  fix s b assume sl: "slack b"
  let ?cb = "item_callback fresh BDecode"
  obtain ok s' b' where r: "bencode_read_list ?cb s b = Some (ok, s', b')" "ok \<longrightarrow> moved (j + 1) b b'"
    using list_callback.read_list_safe [OF list_callback_items [OF assms]] sl by (rule rsafeE)
  then have "BEncodeReadList fresh BDecode s b = Some (ok, s', b')"
    using list_loop_items [OF _ refl, of fresh BDecode]
    by (fastforce simp: bencode_read_list_def BEncodeReadList_def bind_Some_conv item_callback_def
        split: if_splits)
  with r show "\<exists>ok s' b'. BEncodeReadList fresh BDecode s b = Some (ok, s', b') \<and>
      (ok \<longrightarrow> moved (j + 1) b b')"
    by blast
qed

end
