(* ===== verification/Codec.thy ===== *)
theory Codec
  imports Safety
begin

text \<open>
  The idioms the message types are decoded with, each with its rule for well-formed and for
  arbitrary input, and the locale \<open>codec\<close>: an encoder and a decoder that agree on a grammar.
  A message type is a \<open>codec\<close>, and the round trip through a buffer is proved once.
\<close>

section \<open>Decoding idioms\<close>

text \<open>\<open>if(!bencode_read_string(buf, &strbuf)) return false; \<dots>\<close>\<close>

definition if_string :: "(udap_buffer_t \<Rightarrow> 's act) \<Rightarrow> 's act" where
  "if_string body s buf = do {
     (strbuf, buf) \<leftarrow> bencode_read_string buf;
     (case strbuf of None \<Rightarrow> Some (False, s, buf) | Some k \<Rightarrow> body k s buf)
   }"

text \<open>\<open>if(!bencode_read_integer(buf, &i)) return false; \<dots>\<close> with a local \<open>i\<close>\<close>

definition if_integer :: "(u64 \<Rightarrow> 's act) \<Rightarrow> 's act" where
  "if_integer body s buf = do {
     (ok, i, buf) \<leftarrow> bencode_read_integer 0 buf;
     if \<not> ok then Some (False, s, buf) else body i s buf
   }"

text \<open>\<open>memcpy(dst, strbuf.base, n)\<close>\<close>

definition copy_from :: "udap_buffer_t \<Rightarrow> nat \<Rightarrow> byte list option" where
  "copy_from k n = mem_load (b_mem k) (b_base k) n"

text \<open>\<open>return dec(&s->member, buf)\<close>\<close>

definition into :: "('s \<Rightarrow> 'a) \<Rightarrow> ('a \<Rightarrow> 's \<Rightarrow> 's) \<Rightarrow> 'a act \<Rightarrow> 's act" where
  "into get upd dec s buf = do { (ok, x, buf) \<leftarrow> dec (get s) buf; Some (ok, upd x s, buf) }"

text \<open>\<open>if(!bencode_read_integer(buf, &version)) return false; return version == UDAP_PROTO_VERSION;\<close>\<close>

definition read_version :: "('s \<Rightarrow> u64) \<Rightarrow> (u64 \<Rightarrow> 's \<Rightarrow> 's) \<Rightarrow> 's act" where
  "read_version get upd s buf = do {
     (ok, v, buf) \<leftarrow> bencode_read_integer (get s) buf;
     if \<not> ok then Some (False, upd v s, buf) else Some (v = UDAP_PROTO_VERSION, upd v s, buf)
   }"

text \<open>
  Members of a message decoded with the \<open>BEncodeMaybeRead\<close> templates: the state is the message
  and the flag \<open>read\<close>, and the function ends with \<open>return read\<close>.
\<close>

definition field :: "('m \<Rightarrow> 'a) \<Rightarrow> ('a \<Rightarrow> 'm \<Rightarrow> 'm) \<Rightarrow> ('a \<times> bool) act \<Rightarrow> ('m \<times> bool) act" where
  "field get upd f s b =
     (case s of (m, rd) \<Rightarrow> do { (ok, (x, rd), b) \<leftarrow> f (get m, rd) b; Some (ok, (upd x m, rd), b) })"

fun run_fields :: "('m \<times> bool) act list \<Rightarrow> ('m \<times> bool) act" where
  "run_fields [] s b = Some (True, s, b)"
| "run_fields (f # fs) s b = do {
     (ok, s, b) \<leftarrow> f s b;
     if \<not> ok then Some (False, s, b) else run_fields fs s b
   }"

definition decode_fields :: "('m \<times> bool) act list \<Rightarrow> 'm act" where
  "decode_fields fs m b = do {
     (ok, (m, rd), b) \<leftarrow> run_fields fs (m, False) b;
     if \<not> ok then Some (False, m, b) else Some (rd, m, b)
   }"

section \<open>The templates as writers\<close>

lemma exact_key: "exact (bencode_write_bytestring (take 1 (lit [c]))) (bstr (lit [c]))"
  using exact_bytestring [of "lit [c]"] by simp

lemma exact_msg_type [write_rules]:
  "exact (BEncodeWriteDictMsgType [c] [t]) (bstr (lit [c]) @ bstr (lit [t]))"
  unfolding BEncodeWriteDictMsgType_def by (intro exact_wthen exact_key)

lemma exact_dict_entry [write_rules]:
  "exact f bs \<Longrightarrow> exact (BEncodeWriteDictEntry [c] f) (bstr (lit [c]) @ bs)"
  unfolding BEncodeWriteDictEntry_def by (intro exact_wthen exact_key)

lemma exact_dict_int [write_rules]:
  "exact (BEncodeWriteDictInt [c] i) (bstr (lit [c]) @ bint (sint i))"
  unfolding BEncodeWriteDictInt_def by (intro exact_wthen exact_key exact_write_uint64)

lemma emits_list:
  assumes "\<And>x. x \<in> set xs \<Longrightarrow> emits (enc x) (f x)"
  shows "emits (BEncodeWriteList (map enc xs)) (108 # concat (map f xs) @ [101])"
proof -
  have items: "emits (wseq (map enc xs)) (concat (map f xs))"
    using assms by (intro wseq_emits) (simp add: list_all2_map1 list_all2_map2 list_all2_same)
  have "emits (BEncodeWriteList (map enc xs)) (concat [lit ''l'', concat (map f xs), lit ''e''])"
    unfolding BEncodeWriteList_def
    by (rule wseq_emits)
      (intro list.rel_intros items exact_emits [OF exact_start_list] exact_emits [OF exact_end])
  then show ?thesis by simp
qed

lemma emits_dict_list [write_rules]:
  assumes "\<And>x. x \<in> set xs \<Longrightarrow> emits (enc x) (f x)"
  shows "emits (BEncodeWriteDictList [c] (map enc xs))
    (bstr (lit [c]) @ 108 # concat (map f xs) @ [101])"
  unfolding BEncodeWriteDictList_def
  by (intro emits_wthen exact_emits [OF exact_key] emits_list assms)

section \<open>Well-formed input\<close>

lemma reads_if_string [read_rules]:
  assumes "length data < 10 ^ 9"
    and body: "\<And>k b. holds k data \<Longrightarrow> body k s b = Some (True, s', b)"
  shows "reads (if_string body) s (bstr data) s'"
proof (rule readsI)
  fix b assume "ahead (bstr data) b"
  then obtain k where "bencode_read_string b = Some (Some k, skip (length (bstr data)) b)"
    and "holds k data"
    using read_string_ahead assms(1) by blast
  then show "if_string body s b = Some (True, s', skip (length (bstr data)) b)"
    using body by (simp add: if_string_def)
qed

lemma reads_if_integer [read_rules]:
  assumes "w \<noteq> -1" and "\<And>b. body w s b = Some (True, s', b)"
  shows "reads (if_integer body) s (bint (sint w)) s'"
proof (rule readsI)
  fix b assume "ahead (bint (sint w)) b"
  with reads_integer [OF assms(1)]
  have "bencode_read_integer 0 b = Some (True, w, skip (length (bint (sint w))) b)"
    by (rule readsD)
  then show "if_integer body s b = Some (True, s', skip (length (bint (sint w))) b)"
    using assms(2) by (simp add: if_integer_def)
qed

lemma reads_if_integer_0 [read_rules]:
  "(\<And>b. body 0 s b = Some (True, s', b)) \<Longrightarrow> reads (if_integer body) s (bint 0) s'"
  using reads_if_integer [of 0 body s s'] by simp

lemma reads_into [read_rules]:
  "reads dec (get s) v x \<Longrightarrow> s' = upd x s \<Longrightarrow> reads (into get upd dec) s v s'"
  by (auto simp: reads_def into_def)

lemma reads_read_version [read_rules]: "s' = upd 0 s \<Longrightarrow> reads (read_version get upd) s (bint 0) s'"
  using reads_zero by (auto simp: reads_def read_version_def UDAP_PROTO_VERSION_def)

text \<open>The same for a value of 16 bits.\<close>

lemma sint_ucast_u16: "sint (ucast (i :: u16) :: u64) = uint i"
  using uint_lt2p [of i] order_trans [OF _ uint_ge_0 [of i], of "- (2 ^ 63)"]
  by (simp add: signed_ucast_eq signed_take_bit_int_eq_self)

lemma ucast_u16_bounds:
  "(ucast (i :: u16) :: u64) \<noteq> -1" "\<not> (ucast i :: u64) > 65536" "i \<noteq> 0 \<Longrightarrow> (ucast i :: u64) > 0"
  "ucast (ucast i :: u64) = i"
proof -
  have lt: "unat i < 65536" using unsigned_less [of i, where 'a = nat] by simp
  have u: "unat (ucast i :: u64) = unat i"
    using lt by (simp add: unsigned_ucast_eq take_bit_nat_eq_self)
  show "(ucast i :: u64) \<noteq> -1"
    using sint_ucast_u16 [of i] uint_ge_0 [of i] by (metis not_one_le_zero neg_0_le_iff_le sint_n1)
  show "\<not> (ucast i :: u64) > 65536" using lt u by (simp add: word_less_nat_alt)
  show "i \<noteq> 0 \<Longrightarrow> (ucast i :: u64) > 0" using u by (simp add: word_less_nat_alt unat_gt_0)
  show "ucast (ucast i :: u64) = i" by transfer simp
qed

lemma reads_if_integer_u16 [read_rules]:
  assumes "\<And>b. body (ucast (i :: u16)) s b = Some (True, s', b)"
  shows "reads (if_integer body) s (bint (uint i)) s'"
  using reads_if_integer [of "ucast i" body s s'] assms by (simp add: sint_ucast_u16 ucast_u16_bounds)

lemma copy_from_holds: "holds k bs \<Longrightarrow> n = length bs \<Longrightarrow> copy_from k n = Some bs"
  by (auto simp: copy_from_def holds_def mem_load_def)

lemma reads_if_key_hit:
  assumes "holds k key" "lit str = take (length str) key" "reads A s v s'"
  shows "reads (\<lambda>s b. if_key k str (A s b) (B s b)) s v s'"
  using assms by (auto simp: if_key_holds reads_def)

lemma reads_if_key_miss:
  assumes "holds k key" "lit str \<noteq> take (length str) key" "reads B s v s'"
  shows "reads (\<lambda>s b. if_key k str (A s b) (B s b)) s v s'"
  using assms by (auto simp: if_key_holds reads_def)

text \<open>
  A decoder of keys as the callback of a dictionary, and how its runs carry over to a callback
  that does the same inside a larger state.
\<close>

definition keys :: "(udap_buffer_t \<Rightarrow> 's act) \<Rightarrow> udap_buffer_t option \<Rightarrow> 's act" where
  "keys dec key s b = (case key of None \<Rightarrow> Some (True, s, b) | Some k \<Rightarrow> dec k s b)"

lemma keys_Some [simp]: "keys dec (Some k) = dec k"
  by (rule ext)+ (simp add: keys_def)

lemma dict_run_wrap:
  assumes "dict_run f s bs s'"
    and "\<And>k s v s1. reads (f (Some k)) s v s1 \<Longrightarrow> reads (g (Some k)) (wrap s) v (wrap s1)"
  shows "dict_run g (wrap s) bs (wrap s')"
  using assms(1)
proof induction
  case (dict_nil s)
  show ?case by (rule dict_run.dict_nil)
next
  case (dict_cons key s v s1 bs s2)
  then show ?case by (intro dict_run.dict_cons) (auto intro: assms(2))
qed

lemma dict_run_append:
  "dict_run f s xs s1 \<Longrightarrow> dict_run f s1 ys s2 \<Longrightarrow> dict_run f s (xs @ ys) s2"
  by (induction rule: dict_run.induct) (auto intro: dict_run.intros)

lemma dict_run_single:
  assumes "\<And>k. holds k key \<Longrightarrow> reads (f (Some k)) s v s1" "length key < 10 ^ 9"
  shows "dict_run f s (bstr key @ v) s1"
  using dict_cons [of key f s v s1 "[]" s1, OF _ _ dict_nil] assms by auto

section \<open>Arbitrary input\<close>

lemma rsafe_if_string [safe_rules]:
  assumes body: "\<And>k s b. buf_wf k \<Longrightarrow> b_cur k = b_base k \<Longrightarrow> \<exists>ok s'. body k s b = Some (ok, s', b)"
  shows "rsafe j (if_string body)"
proof (rule rsafe_mono [OF rsafeI le0])
  fix s b assume "slack b"
  then obtain r b' where r: "bencode_read_string b = Some (r, b')"
    and k: "\<And>k. r = Some k \<Longrightarrow> moved 0 b b' \<and> buf_wf k \<and> b_cur k = b_base k"
    using read_string_safe by blast
  show "\<exists>ok s' b'. if_string body s b = Some (ok, s', b') \<and> (ok \<longrightarrow> moved 0 b b')"
  proof (cases r)
    case None
    with r show ?thesis by (auto simp: if_string_def)
  next
    case (Some key)
    with k obtain ok s' where "body key s b' = Some (ok, s', b')" using body by blast
    with r Some k show ?thesis by (simp add: if_string_def)
  qed
qed

lemma rsafe_if_integer [safe_rules]:
  assumes body: "\<And>i s b. \<exists>ok s'. body i s b = Some (ok, s', b)"
  shows "rsafe j (if_integer body)"
proof (rule rsafe_mono [OF rsafeI le0])
  fix s b assume "slack b"
  then obtain ok i b' where r: "bencode_read_integer 0 b = Some (ok, i, b')" "ok \<longrightarrow> moved 0 b b'"
    using rsafeE [OF rsafe_read_integer] by metis
  obtain ok' s' where "body i s b' = Some (ok', s', b')" using body by blast
  with r show "\<exists>ok s' b'. if_integer body s b = Some (ok, s', b') \<and> (ok \<longrightarrow> moved 0 b b')"
    by (cases ok) (auto simp: if_integer_def)
qed

lemma rsafe_if_key [safe_rules]:
  assumes "buf_wf k" "rsafe j A" "rsafe j B"
  shows "rsafe j (\<lambda>s b. if_key k str (A s b) (B s b))"
  using assms buffer_eq_wf [OF assms(1), of "lit str"] by (auto simp: rsafe_def if_key_def)

lemma rsafe_fail [safe_rules]: "rsafe j (\<lambda>s b. Some (False, s, b))"
  by (auto simp: rsafe_def)

lemma rsafe_into [safe_rules]:
  assumes "rsafe j dec" shows "rsafe j (into get upd dec)"
proof (rule rsafeI)
  fix s b assume "slack b"
  with assms obtain ok x b' where "dec (get s) b = Some (ok, x, b')" "ok \<longrightarrow> moved j b b'"
    by (rule rsafeE)
  then show "\<exists>ok s' b'. into get upd dec s b = Some (ok, s', b') \<and> (ok \<longrightarrow> moved j b b')"
    by (auto simp: into_def)
qed

lemma rsafe_read_version [safe_rules]: "rsafe j (read_version get upd)"
proof (rule rsafe_mono [OF rsafeI le0])
  fix s b assume "slack b"
  with rsafe_read_integer obtain ok v b' where "bencode_read_integer (get s) b = Some (ok, v, b')"
    "ok \<longrightarrow> moved 0 b b'" by (rule rsafeE)
  then show "\<exists>ok s' b'. read_version get upd s b = Some (ok, s', b') \<and> (ok \<longrightarrow> moved 0 b b')"
    by (cases ok) (auto simp: read_version_def)
qed

lemma copy_from_wf: "buf_wf k \<Longrightarrow> n \<le> b_sz k \<Longrightarrow> \<exists>bs. copy_from k n = Some bs \<and> length bs = n"
  by (auto simp: copy_from_def buf_wf_def mem_load_def)

lemma rsafe_string_bodies:
  assumes "buf_wf k" shows "\<exists>bs. copy_from k (b_sz k) = Some bs" "b_sz k = n \<Longrightarrow> \<exists>bs. copy_from k n = Some bs"
  using copy_from_wf [OF assms, of "b_sz k"] by auto

text \<open>A field either leaves everything alone or reads something.\<close>

definition msafe :: "('m \<times> bool) act \<Rightarrow> bool" where
  "msafe f \<longleftrightarrow> (\<forall>m rd b. slack b \<longrightarrow> (\<exists>ok m' rd' b'. f (m, rd) b = Some (ok, (m', rd'), b') \<and>
     (ok \<longrightarrow> b' = b \<and> (rd' \<longrightarrow> rd) \<or> moved 0 b b')))"

lemma msafeI:
  "(\<And>m rd b. slack b \<Longrightarrow> \<exists>ok m' rd' b'. f (m, rd) b = Some (ok, (m', rd'), b') \<and>
     (ok \<longrightarrow> b' = b \<and> (rd' \<longrightarrow> rd) \<or> moved 0 b b')) \<Longrightarrow> msafe f"
  by (simp add: msafe_def)

lemma msafeE:
  assumes "msafe f" "slack b"
  obtains ok m' rd' b' where "f (m, rd) b = Some (ok, (m', rd'), b')"
    "ok \<longrightarrow> b' = b \<and> (rd' \<longrightarrow> rd) \<or> moved 0 b b'"
proof -
  from assms have "\<exists>ok m' rd' b'. f (m, rd) b = Some (ok, (m', rd'), b') \<and>
     (ok \<longrightarrow> b' = b \<and> (rd' \<longrightarrow> rd) \<or> moved 0 b b')"
    unfolding msafe_def by blast
  then show ?thesis using that by blast
qed

lemma msafe_entry [safe_rules]:
  assumes k: "buf_wf k" and dec: "rsafe 0 dec"
  shows "msafe (BEncodeMaybeReadDictEntry str dec k)"
proof (rule msafeI)
  fix m rd b assume sl: "slack b"
  obtain e where e: "udap_buffer_eq k (lit str) = Some e" using buffer_eq_wf [OF k] by blast
  obtain ok m' b' where d: "dec m b = Some (ok, m', b')" "ok \<longrightarrow> moved 0 b b'"
    using dec sl by (rule rsafeE)
  show "\<exists>ok m' rd' b'. BEncodeMaybeReadDictEntry str dec k (m, rd) b = Some (ok, (m', rd'), b') \<and>
      (ok \<longrightarrow> b' = b \<and> (rd' \<longrightarrow> rd) \<or> moved 0 b b')"
    using e d by (cases e; cases ok) (auto simp: BEncodeMaybeReadDictEntry_def if_key_def)
qed

lemma maybe_int_is_entry:
  "BEncodeMaybeReadDictInt str = BEncodeMaybeReadDictEntry str bencode_read_integer"
  by (rule ext)+ (simp add: BEncodeMaybeReadDictInt_def BEncodeMaybeReadDictEntry_def)

lemma msafe_int [safe_rules]: "buf_wf k \<Longrightarrow> msafe (BEncodeMaybeReadDictInt str k)"
  unfolding maybe_int_is_entry by (rule msafe_entry) (auto intro: rsafe_read_integer)

lemma msafe_version [safe_rules]:
  assumes k: "buf_wf k" shows "msafe (BEncodeMaybeReadVersion str expect k)"
proof (rule msafeI)
  fix m rd b assume sl: "slack b"
  obtain e where e: "udap_buffer_eq k (lit str) = Some e" using buffer_eq_wf [OF k] by blast
  obtain ok m' b' where d: "bencode_read_integer m b = Some (ok, m', b')" "ok \<longrightarrow> moved 0 b b'"
    using rsafe_read_integer sl by (rule rsafeE)
  show "\<exists>ok m' rd' b'. BEncodeMaybeReadVersion str expect k (m, rd) b = Some (ok, (m', rd'), b') \<and>
      (ok \<longrightarrow> b' = b \<and> (rd' \<longrightarrow> rd) \<or> moved 0 b b')"
    using e d by (cases e; cases ok) (auto simp: BEncodeMaybeReadVersion_def if_key_def)
qed

lemma msafe_field [safe_rules]:
  assumes "msafe f" shows "msafe (field get upd f)"
proof (rule msafeI)
  fix m rd b assume sl: "slack b"
  obtain ok x rd' b' where "f (get m, rd) b = Some (ok, (x, rd'), b')"
    "ok \<longrightarrow> b' = b \<and> (rd' \<longrightarrow> rd) \<or> moved 0 b b'"
    using assms sl by (rule msafeE)
  then show "\<exists>ok m' rd' b'. field get upd f (m, rd) b = Some (ok, (m', rd'), b') \<and>
      (ok \<longrightarrow> b' = b \<and> (rd' \<longrightarrow> rd) \<or> moved 0 b b')"
    by (auto simp: field_def)
qed

lemma msafe_run_fields:
  assumes "\<And>f. f \<in> set fs \<Longrightarrow> msafe f" shows "msafe (run_fields fs)"
  using assms
proof (induction fs)
  case Nil
  then show ?case by (auto simp: msafe_def)
next
  case (Cons f fs)
  then have f: "msafe f" and fs: "msafe (run_fields fs)" by auto
  show ?case
  proof (rule msafeI)
    fix m rd b assume sl: "slack b"
    obtain ok m1 rd1 b1 where 1: "f (m, rd) b = Some (ok, (m1, rd1), b1)"
      "ok \<longrightarrow> b1 = b \<and> (rd1 \<longrightarrow> rd) \<or> moved 0 b b1"
      using f sl by (rule msafeE)
    show "\<exists>ok m' rd' b'. run_fields (f # fs) (m, rd) b = Some (ok, (m', rd'), b') \<and>
        (ok \<longrightarrow> b' = b \<and> (rd' \<longrightarrow> rd) \<or> moved 0 b b')"
    proof (cases ok)
      case False
      with 1 show ?thesis by auto
    next
      case True
      with 1 sl have "slack b1" using moved_slack by auto
      with fs obtain ok2 m2 rd2 b2 where "run_fields fs (m1, rd1) b1 = Some (ok2, (m2, rd2), b2)"
        "ok2 \<longrightarrow> b2 = b1 \<and> (rd2 \<longrightarrow> rd1) \<or> moved 0 b1 b2"
        by (rule msafeE)
      with 1 True show ?thesis by (auto intro: moved_trans)
    qed
  qed
qed

lemma rsafe_decode_fields [safe_rules]:
  assumes "\<And>f. f \<in> set fs \<Longrightarrow> msafe f" shows "rsafe 0 (decode_fields fs)"
proof (rule rsafeI)
  fix m b assume sl: "slack b"
  obtain ok m' rd' b' where "run_fields fs (m, False) b = Some (ok, (m', rd'), b')"
    "ok \<longrightarrow> b' = b \<and> (rd' \<longrightarrow> False) \<or> moved 0 b b'"
    using msafe_run_fields [OF assms] sl by (rule msafeE)
  then show "\<exists>ok s' b'. decode_fields fs m b = Some (ok, s', b') \<and> (ok \<longrightarrow> moved 0 b b')"
    by (auto simp: decode_fields_def)
qed

text \<open>What a field does for a given key, and the member it stores.\<close>

lemma field_entry_holds:
  "holds k key \<Longrightarrow> field get upd (BEncodeMaybeReadDictEntry str dec k) (m, rd) b =
     (if lit str = take (length str) key
      then do { (ok, x, b) \<leftarrow> dec (get m) b; Some (ok, (upd x m, if ok then True else rd), b) }
      else Some (True, (upd (get m) m, rd), b))"
  by (cases "dec (get m) b")
    (auto simp: field_def BEncodeMaybeReadDictEntry_def if_key_holds split: if_splits)

lemma field_version_holds:
  "holds k key \<Longrightarrow> field get upd (BEncodeMaybeReadVersion str e k) (m, rd) b =
     (if lit str = take (length str) key
      then do { (ok, x, b) \<leftarrow> bencode_read_integer (get m) b;
                Some (ok, (upd x m, if ok then x = e else rd), b) }
      else Some (True, (upd (get m) m, rd), b))"
  by (cases "bencode_read_integer (get m) b")
    (auto simp: field_def BEncodeMaybeReadVersion_def if_key_holds split: if_splits)

lemmas fields_simps = decode_fields_def [abs_def] field_entry_holds field_version_holds

text \<open>A decoder that does with the key's value what \<open>into\<close> does decodes it.\<close>

lemma reads_cong:
  assumes "reads g s v s'" "\<And>b. ahead v b \<Longrightarrow> g s b = Some (True, s', skip (length v) b) \<Longrightarrow> f s b = g s b"
  shows "reads f s v s'"
  using assms by (auto simp: reads_def)

section \<open>Encoder and decoder of a message type\<close>

text \<open>
  \<open>enc x\<close> writes \<open>x\<close>, \<open>dec\<close> decodes into an existing object and \<open>bytes x\<close> is the wire format.
  \<open>valid s x\<close> says which objects \<open>x\<close> the format can carry, when \<open>s\<close> is the object decoded into.
\<close>

lemma ahead_rewind:
  assumes wf: "buf_wf b" and start: "b_cur b = b_base b"
    and fr: "wframe b b'" and app: "appended bs b b'"
  shows "ahead bs (rewind b')"
proof -
  have "take (length bs) (drop (b_cur b) (b_mem b')) = drop (b_cur b) (take (b_cur b') (b_mem b'))"
    using app by (simp add: appended_def drop_take)
  also have "\<dots> = bs"
    using app wf unfolding appended_def buf_wf_def by (elim conjE) simp
  finally show ?thesis
    using app fr start by (auto simp: ahead_def rewind_def wframe_def appended_def buf_wf_def)
qed

text \<open>The encoded bytes of a buffer, from \<open>base\<close> to \<open>cur\<close>.\<close>

definition encoded :: "udap_buffer_t \<Rightarrow> byte list" where
  "encoded b = take (b_cur b - b_base b) (drop (b_base b) (b_mem b))"

lemma wf_StackBuffer: "buf_wf (StackBuffer stack)"
  by (simp add: buf_wf_def StackBuffer_def)

text \<open>Encoding into a stack array.\<close>

lemma emits_stack:
  assumes "emits f bs" "length bs < length stack"
  shows "\<exists>b. f (StackBuffer stack) = Some (True, b) \<and> encoded b = bs"
proof -
  have "length bs < room (StackBuffer stack)" using assms(2) by (simp add: room_def StackBuffer_def)
  with assms(1) wf_StackBuffer obtain b where
    "f (StackBuffer stack) = Some (True, b)" "wframe (StackBuffer stack) b"
    "appended bs (StackBuffer stack) b" by (rule emitsE)
  then show ?thesis by (auto simp: encoded_def appended_def wframe_def StackBuffer_def)
qed

locale codec =
  fixes enc :: "'a \<Rightarrow> writer" and dec :: "'a act" and bytes :: "'a \<Rightarrow> byte list"
    and valid :: "'a \<Rightarrow> 'a \<Rightarrow> bool"
  assumes enc_emits: "valid s x \<Longrightarrow> emits (enc x) (bytes x)"
    and dec_reads: "valid s x \<Longrightarrow> reads dec s (bytes x) x"
begin

lemma roundtrip:
  assumes v: "valid s x" and wf: "buf_wf b" and start: "b_cur b = b_base b"
    and fits: "length (bytes x) < b_sz b"
  shows "\<exists>b' b''. enc x b = Some (True, b') \<and> dec s (rewind b') = Some (True, x, b'') \<and>
    udap_buffer_size_left b'' = 0"
proof -
  have "length (bytes x) < room b" using fits start by (simp add: room_def)
  with enc_emits [OF v] wf obtain b' where
    b': "enc x b = Some (True, b')" "wframe b b'" "appended (bytes x) b b'"
    by (rule emitsE)
  have "ahead (bytes x) (rewind b')"
    using wf start b'(2,3) by (rule ahead_rewind)
  then have "dec s (rewind b') = Some (True, x, skip (length (bytes x)) (rewind b'))"
    using dec_reads [OF v] by (rule readsD [rotated])
  moreover have "udap_buffer_size_left (skip (length (bytes x)) (rewind b')) = 0"
    using b' start by (simp add: udap_buffer_size_left_def rewind_def appended_def wframe_def Let_def)
  ultimately show ?thesis using b' by blast
qed

end

text \<open>The integers: every value but \<open>2 ^ 64 - 1\<close>, which the reader refuses.\<close>

interpretation integer: codec bencode_write_uint64 bencode_read_integer "\<lambda>w. bint (sint w)"
    "\<lambda>_ w. w \<noteq> -1"
  by unfold_locales (auto intro: exact_emits exact_write_uint64 reads_integer)

text \<open>
  An integer written with \<open>bencode_write_uint64\<close> into a buffer with room is read back by
  \<open>bencode_read_integer\<close> unchanged, and reading ends where writing ended. The value
  \<open>2 ^ 64 - 1\<close> is excepted: the reader takes it for an error.
\<close>

theorem integer_roundtrip:
  assumes "w \<noteq> -1" "buf_wf b" "b_cur b = b_base b" "length (bint (sint w)) < b_sz b"
  shows "\<exists>b' b''. bencode_write_uint64 w b = Some (True, b') \<and>
    bencode_read_integer v (rewind b') = Some (True, w, b'') \<and> udap_buffer_size_left b'' = 0"
  using assms by (rule integer.roundtrip)

theorem integer_roundtrip_witness:
  "\<exists>b' b''. bencode_write_uint64 (2 ^ 64 - 2) (StackBuffer (replicate 40 0)) = Some (True, b') \<and>
    bencode_read_integer 0 (rewind b') = Some (True, 2 ^ 64 - 2, b'') \<and> udap_buffer_size_left b'' = 0"
  by (rule integer_roundtrip) code_simp+

end
