(* ===== verification/Aligned.thy ===== *)
theory Aligned
  imports Codec
begin

text \<open>
  \<open>include/udap/aligned.hpp\<close>, \<open>include/udap/encrypted.hpp\<close> and \<open>udap/encode.cpp\<close>: fixed-size byte
  arrays (keys, nonces, hashes, path ids), variable-size encrypted blobs and hex text. An
  \<open>AlignedBuffer< sz >\<close> is a byte list of length \<open>sz\<close>.
\<close>

section \<open>AlignedBuffer\<close>

definition PUBKEYSIZE :: nat where "PUBKEYSIZE = 32"
definition SECKEYSIZE :: nat where "SECKEYSIZE = 64"
definition SHORTHASHSIZE :: nat where "SHORTHASHSIZE = 32"
definition SIGSIZE :: nat where "SIGSIZE = 64"
definition TUNNONCESIZE :: nat where "TUNNONCESIZE = 32"
definition PATHIDSIZE :: nat where "PATHIDSIZE = 16"

lemmas size_defs = PUBKEYSIZE_def SECKEYSIZE_def SHORTHASHSIZE_def SIGSIZE_def TUNNONCESIZE_def
  PATHIDSIZE_def

definition AlignedBuffer_eq :: "byte list \<Rightarrow> byte list \<Rightarrow> bool" where
  "AlignedBuffer_eq a b \<longleftrightarrow> memcmp a b = 0"

definition AlignedBuffer_less :: "byte list \<Rightarrow> byte list \<Rightarrow> bool" where
  "AlignedBuffer_less a b \<longleftrightarrow> memcmp a b < 0"

definition AlignedBuffer_Fill :: "nat \<Rightarrow> byte \<Rightarrow> byte list" where
  "AlignedBuffer_Fill n f = replicate n f"

definition AlignedBuffer_Zero :: "nat \<Rightarrow> byte list" where
  "AlignedBuffer_Zero n = replicate n 0"

definition AlignedBuffer_IsZero :: "byte list \<Rightarrow> bool" where
  "AlignedBuffer_IsZero a \<longleftrightarrow> memcmp a (AlignedBuffer_Zero (length a)) = 0"

definition AlignedBuffer_BEncode :: "byte list \<Rightarrow> writer" where
  "AlignedBuffer_BEncode b = bencode_write_bytestring b"

definition AlignedBuffer_BDecode :: "nat \<Rightarrow> byte list act" where
  "AlignedBuffer_BDecode n = if_string (\<lambda>strbuf b buf.
     if b_sz strbuf \<noteq> n then Some (False, b, buf)
     else do { b \<leftarrow> copy_from strbuf n; Some (True, b, buf) })"

section \<open>Encrypted\<close>

text \<open>The state is the byte array \<open>_data\<close> of size \<open>_sz\<close>; \<open>m_Buffer\<close> always spans it.\<close>

definition Encrypted_BEncode :: "byte list \<Rightarrow> writer" where
  "Encrypted_BEncode data = bencode_write_bytestring data"

definition Encrypted_BDecode :: "byte list act" where
  "Encrypted_BDecode = if_string (\<lambda>strbuf data buf.
     if b_sz strbuf = 0 then Some (False, data, buf)
     else do { data \<leftarrow> copy_from strbuf (b_sz strbuf); Some (True, data, buf) })"

definition Encrypted_Fill :: "byte \<Rightarrow> byte list \<Rightarrow> byte list" where
  "Encrypted_Fill f data = map (\<lambda>_. f) data"

section \<open>Hex text\<close>

definition hex_digit :: "byte \<Rightarrow> byte" where
  "hex_digit d = (if d < 10 then 48 + d else 87 + d)"

text \<open>The characters \<open>%.2x\<close> prints for each byte, before the terminating NUL.\<close>

definition HexEncode :: "byte list \<Rightarrow> byte list" where
  "HexEncode v = concat (map (\<lambda>b. [hex_digit (b div 16), hex_digit (b mod 16)]) v)"

text \<open>\<open>None\<close>: the exception \<open>std::invalid_argument\<close>.\<close>

definition char2int :: "byte \<Rightarrow> byte option" where
  "char2int c =
     (if 48 \<le> c \<and> c \<le> 57 then Some (c - 48)
      else if 65 \<le> c \<and> c \<le> 70 then Some (c - 65 + 10)
      else if 97 \<le> c \<and> c \<le> 102 then Some (c - 97 + 10)
      else None)"

text \<open>The source text is a C string: the loop ends at the first NUL of either position.\<close>

fun HexDecode :: "byte list \<Rightarrow> byte list option" where
  "HexDecode (x # y # src) =
     (if x = 0 \<or> y = 0 then Some []
      else do {
        hi \<leftarrow> char2int x;
        lo \<leftarrow> char2int y;
        rest \<leftarrow> HexDecode src;
        Some ((hi * 16 + lo) # rest)
      })"
| "HexDecode _ = Some []"

section \<open>Contracts\<close>

lemma exact_aligned [write_rules]:
  "length a < 2 ^ 63 \<Longrightarrow> exact (AlignedBuffer_BEncode a) (bstr a)"
  unfolding AlignedBuffer_BEncode_def by (rule exact_bytestring)

lemma reads_aligned [read_rules]:
  "length a = n \<Longrightarrow> n < 10 ^ 9 \<Longrightarrow> reads (AlignedBuffer_BDecode n) s (bstr a) a"
  unfolding AlignedBuffer_BDecode_def
  by (rule reads_if_string) (auto simp: holds_sz copy_from_holds)

lemma rsafe_aligned [safe_rules]: "rsafe 0 (AlignedBuffer_BDecode n)"
  unfolding AlignedBuffer_BDecode_def
proof (rule rsafe_if_string)
  fix k s b assume "buf_wf k"
  then show "\<exists>ok s'. (if b_sz k \<noteq> n then Some (False, s, b)
      else do { s \<leftarrow> copy_from k n; Some (True, s, b) }) = Some (ok, s', b)"
    using copy_from_wf [of k n] by auto
qed

lemma exact_encrypted [write_rules]:
  "length a < 2 ^ 63 \<Longrightarrow> exact (Encrypted_BEncode a) (bstr a)"
  unfolding Encrypted_BEncode_def by (rule exact_bytestring)

lemma reads_encrypted [read_rules]:
  "a \<noteq> [] \<Longrightarrow> length a < 10 ^ 9 \<Longrightarrow> reads Encrypted_BDecode s (bstr a) a"
  unfolding Encrypted_BDecode_def
  by (rule reads_if_string) (auto simp: holds_sz copy_from_holds)

lemma rsafe_encrypted [safe_rules]: "rsafe 0 Encrypted_BDecode"
  unfolding Encrypted_BDecode_def
proof (rule rsafe_if_string)
  fix k s b assume "buf_wf k"
  then show "\<exists>ok s'. (if b_sz k = 0 then Some (False, s, b)
      else do { s \<leftarrow> copy_from k (b_sz k); Some (True, s, b) }) = Some (ok, s', b)"
    using copy_from_wf [of k "b_sz k"] by auto
qed

interpretation aligned: codec AlignedBuffer_BEncode "AlignedBuffer_BDecode n" bstr
    "\<lambda>_ a. length a = n \<and> n < 10 ^ 9" for n
  by unfold_locales (auto intro!: exact_emits exact_aligned reads_aligned)

interpretation encrypted: codec Encrypted_BEncode Encrypted_BDecode bstr
    "\<lambda>_ a. a \<noteq> [] \<and> length a < 10 ^ 9"
  by unfold_locales (auto intro!: exact_emits exact_encrypted reads_encrypted)

section \<open>Hex round trip\<close>

lemma hex_digit_inverse:
  assumes "d < (16 :: byte)" shows "char2int (hex_digit d) = Some d" "hex_digit d \<noteq> 0"
proof -
  have "\<forall>n \<in> set [0..<16]. char2int (hex_digit (of_nat n)) = Some (of_nat n) \<and>
      hex_digit (of_nat n) \<noteq> 0"
    by code_simp
  moreover have "unat d \<in> set [0..<16]" using assms by (simp add: word_less_nat_alt)
  ultimately have "char2int (hex_digit (of_nat (unat d))) = Some (of_nat (unat d)) \<and>
      hex_digit (of_nat (unat d)) \<noteq> 0"
    by blast
  then show "char2int (hex_digit d) = Some d" "hex_digit d \<noteq> 0" by simp_all
qed

lemma byte_div_mod: "(b :: byte) div 16 < 16" "b mod 16 < 16" "b div 16 * 16 + b mod 16 = b"
proof -
  show "b div 16 < 16"
    using unsigned_less [of b, where 'a = nat] by (simp add: word_less_nat_alt unat_div)
  show "b mod 16 < 16" by (simp add: word_less_nat_alt unat_mod)
  show "b div 16 * 16 + b mod 16 = b" by (rule div_mult_mod_eq)
qed

lemma HexDecode_HexEncode: "HexDecode (HexEncode v) = Some v"
  by (induction v) (auto simp: HexEncode_def hex_digit_inverse byte_div_mod)

end
