(* ===== verification/Address_Info.thy ===== *)
theory Address_Info
  imports Aligned
begin

text \<open>
  \<open>udap/address_info.cpp\<close>: the address information of a router, its bencoding, and lists of it.
  The text form of an IPv6 address comes from the operating system: \<open>inet_ntop\<close> and \<open>inet_pton\<close>
  are parameters \<open>ntop\<close> and \<open>pton\<close>, with their documented behaviour as the hypothesis \<open>inet_ok\<close>.
\<close>

section \<open>Model\<close>

record udap_ai =
  ai_rank :: u16
  ai_dialect :: "byte list"
  ai_enc_key :: "byte list"
  ai_ip :: "byte list"
  ai_port :: u16

definition MAX_AI_DIALECT_SIZE :: nat where
  "MAX_AI_DIALECT_SIZE = 5"

type_synonym ntop = "byte list \<Rightarrow> byte list option"
type_synonym pton = "byte list \<Rightarrow> byte list option"

definition cstr :: "byte list \<Rightarrow> byte list" where
  "cstr s = takeWhile (\<lambda>c. c \<noteq> 0) s"

text \<open>The array \<open>dialect\<close> has \<open>MAX_AI_DIALECT_SIZE + 1\<close> bytes; the bytes behind the NUL stay.\<close>

definition udap_ai_decode_key :: "pton \<Rightarrow> udap_buffer_t option \<Rightarrow> udap_ai act" where
  "udap_ai_decode_key pton key ai buf =
     (case key of
        None \<Rightarrow> Some (True, ai, buf)
      | Some key \<Rightarrow>
          if_key key ''c'' (if_integer (\<lambda>i ai buf.
              if i > 65536 \<or> i \<le> 0 then Some (False, ai, buf)
              else Some (True, ai\<lparr>ai_rank := ucast i\<rparr>, buf)) ai buf)
         (if_key key ''d'' (if_string (\<lambda>strbuf ai buf.
              if b_sz strbuf \<ge> MAX_AI_DIALECT_SIZE + 1 then Some (False, ai, buf)
              else do {
                s \<leftarrow> copy_from strbuf (b_sz strbuf);
                Some (True, ai\<lparr>ai_dialect := s @ 0 # drop (Suc (b_sz strbuf)) (ai_dialect ai)\<rparr>, buf)
              }) ai buf)
         (if_key key ''e'' (if_string (\<lambda>strbuf ai buf.
              if b_sz strbuf \<noteq> PUBKEYSIZE then Some (False, ai, buf)
              else do {
                k \<leftarrow> copy_from strbuf PUBKEYSIZE;
                Some (True, ai\<lparr>ai_enc_key := k\<rparr>, buf)
              }) ai buf)
         (if_key key ''i'' (if_string (\<lambda>strbuf ai buf.
              if b_sz strbuf \<ge> 128 then Some (False, ai, buf)
              else do {
                tmp \<leftarrow> copy_from strbuf (b_sz strbuf);
                (case pton (cstr tmp) of
                   None \<Rightarrow> Some (False, ai, buf)
                 | Some ip \<Rightarrow> Some (True, ai\<lparr>ai_ip := ip\<rparr>, buf))
              }) ai buf)
         (if_key key ''p'' (if_integer (\<lambda>i ai buf.
              if i > 65536 \<or> i \<le> 0 then Some (False, ai, buf)
              else Some (True, ai\<lparr>ai_port := ucast i\<rparr>, buf)) ai buf)
         (if_key key ''v'' (if_integer (\<lambda>i ai buf. Some (i = UDAP_PROTO_VERSION, ai, buf)) ai buf)
         (Some (False, ai, buf))))))))"

definition udap_ai_bdecode :: "pton \<Rightarrow> udap_ai act" where
  "udap_ai_bdecode pton = bencode_read_dict (udap_ai_decode_key pton)"

definition udap_ai_bencode :: "ntop \<Rightarrow> udap_ai \<Rightarrow> writer" where
  "udap_ai_bencode ntop ai =
     wseq [bencode_start_dict,
       bencode_write_bytestring (lit ''c''),
       bencode_write_uint16 (ai_rank ai),
       bencode_write_bytestring (lit ''d''),
       bencode_write_bytestring (cstr (ai_dialect ai)),
       bencode_write_bytestring (lit ''e''),
       bencode_write_bytestring (ai_enc_key ai),
       (case ntop (ai_ip ai) of
          None \<Rightarrow> (\<lambda>b. Some (False, b))
        | Some ipstr \<Rightarrow>
            wseq [bencode_write_bytestring (lit ''i''), bencode_write_bytestring (cstr ipstr)]),
       bencode_write_bytestring (lit ''p''),
       bencode_write_uint16 (ai_port ai),
       bencode_write_version_entry,
       bencode_end]"

section \<open>Lists\<close>

definition udap_ai_list_new :: "udap_ai list" where
  "udap_ai_list_new = []"

definition udap_ai_list_pushback :: "udap_ai list \<Rightarrow> udap_ai \<Rightarrow> udap_ai list" where
  "udap_ai_list_pushback l ai = l @ [ai]"

definition udap_ai_list_copy :: "udap_ai list \<Rightarrow> udap_ai list \<Rightarrow> udap_ai list" where
  "udap_ai_list_copy dst src = fold (\<lambda>itr l. l @ [itr]) src []"

definition udap_ai_list_index :: "udap_ai list \<Rightarrow> int \<Rightarrow> udap_ai option" where
  "udap_ai_list_index l idx =
     (if idx < 0 then None
      else (let i = nat idx in if length l > i then Some (l ! i) else None))"

text \<open>The iteration stops when the visitor returns false, and does not report it.\<close>

fun list_iterate :: "('a \<Rightarrow> writer) \<Rightarrow> 'a list \<Rightarrow> udap_buffer_t \<Rightarrow> udap_buffer_t option" where
  "list_iterate visit [] b = Some b"
| "list_iterate visit (x # l) b = do {
     (ok, b) \<leftarrow> visit x b;
     if \<not> ok then Some b else list_iterate visit l b
   }"

definition udap_ai_list_iterate ::
  "(udap_ai \<Rightarrow> writer) \<Rightarrow> udap_ai list \<Rightarrow> udap_buffer_t \<Rightarrow> udap_buffer_t option" where
  "udap_ai_list_iterate visit l = list_iterate visit l"

definition udap_ai_list_bencode :: "ntop \<Rightarrow> udap_ai list \<Rightarrow> writer" where
  "udap_ai_list_bencode ntop l =
     wseq [bencode_start_list,
       (\<lambda>b. do { b \<leftarrow> udap_ai_list_iterate (udap_ai_bencode ntop) l b; Some (True, b) }),
       bencode_end]"

text \<open>Each element is decoded into an uninitialised stack variable, \<open>uninit\<close>.\<close>

definition udap_ai_list_bdecode_item :: "pton \<Rightarrow> udap_ai \<Rightarrow> bool \<Rightarrow> udap_ai list act" where
  "udap_ai_list_bdecode_item pton uninit has l buf =
     (if \<not> has then Some (True, l, buf)
      else do {
        (ok, ai, buf) \<leftarrow> udap_ai_bdecode pton uninit buf;
        if \<not> ok then Some (False, l, buf) else Some (True, udap_ai_list_pushback l ai, buf)
      })"

definition udap_ai_list_bdecode :: "pton \<Rightarrow> udap_ai \<Rightarrow> udap_ai list act" where
  "udap_ai_list_bdecode pton uninit = bencode_read_list (udap_ai_list_bdecode_item pton uninit)"

section \<open>Wire format\<close>

text \<open>What POSIX says of \<open>inet_ntop\<close> and \<open>inet_pton\<close> for \<open>AF_INET6\<close>.\<close>

definition inet_ok :: "ntop \<Rightarrow> pton \<Rightarrow> bool" where
  "inet_ok ntop pton \<longleftrightarrow>
     (\<forall>ip. length ip = 16 \<longrightarrow>
        (\<exists>t. ntop ip = Some t \<and> 0 \<notin> set t \<and> length t < 46 \<and> pton t = Some ip))"

definition ai_bytes :: "ntop \<Rightarrow> udap_ai \<Rightarrow> byte list" where
  "ai_bytes ntop ai = lit ''d'' @
     bstr (lit ''c'') @ bint (uint (ai_rank ai)) @
     bstr (lit ''d'') @ bstr (cstr (ai_dialect ai)) @
     bstr (lit ''e'') @ bstr (ai_enc_key ai) @
     bstr (lit ''i'') @ bstr (the (ntop (ai_ip ai))) @
     bstr (lit ''p'') @ bint (uint (ai_port ai)) @
     bstr (lit ''v'') @ bint 0 @ lit ''e''"

text \<open>
  An address the format can carry: sizes as in the struct, rank and port not 0 (the decoder
  refuses 0), and a dialect text that ends in the array. The array behind the text's NUL is
  not transmitted, so it is what the decoder finds in the object it decodes into.
\<close>

definition ai_valid :: "udap_ai \<Rightarrow> udap_ai \<Rightarrow> bool" where
  "ai_valid s ai \<longleftrightarrow> ai_rank ai \<noteq> 0 \<and> ai_port ai \<noteq> 0 \<and> length (ai_enc_key ai) = PUBKEYSIZE \<and>
     length (ai_ip ai) = 16 \<and> length (cstr (ai_dialect ai)) \<le> MAX_AI_DIALECT_SIZE \<and>
     length (ai_dialect s) = MAX_AI_DIALECT_SIZE + 1 \<and>
     cstr (ai_dialect ai) @ 0 # drop (Suc (length (cstr (ai_dialect ai)))) (ai_dialect s) =
       ai_dialect ai"

section \<open>Contracts\<close>

lemma cstr_id: "0 \<notin> set t \<Longrightarrow> cstr t = t"
  by (auto simp: cstr_def takeWhile_eq_all_conv)

lemma length_cstr: "length (cstr t) \<le> length t"
  by (simp add: cstr_def length_takeWhile_le)

lemma emits_ai [write_rules]:
  assumes io: "inet_ok ntop pton" and v: "ai_valid s ai"
  shows "emits (udap_ai_bencode ntop ai) (ai_bytes ntop ai)"
proof -
  from io v obtain t where t: "ntop (ai_ip ai) = Some t" "0 \<notin> set t" "length t < 46"
    by (auto simp: inet_ok_def ai_valid_def)
  have "emits (udap_ai_bencode ntop ai) (concat [lit ''d'', bstr (lit ''c''), bint (uint (ai_rank ai)),
      bstr (lit ''d''), bstr (cstr (ai_dialect ai)), bstr (lit ''e''), bstr (ai_enc_key ai),
      concat [bstr (lit ''i''), bstr t], bstr (lit ''p''), bint (uint (ai_port ai)),
      bstr (lit ''v'') @ bint 0, lit ''e''])"
    unfolding udap_ai_bencode_def t option.case
    using v t length_cstr [of "ai_dialect ai"]
    by (intro wseq_emits) (auto simp: ai_valid_def cstr_id size_defs MAX_AI_DIALECT_SIZE_def
        intro!: exact_emits exact_wthen write_rules)
  then show ?thesis using t by (simp add: ai_bytes_def)
qed

lemma ai_key_int:
  assumes "i \<noteq> 0"
  shows "holds k (lit ''c'') \<Longrightarrow>
      reads (udap_ai_decode_key pton (Some k)) s (bint (uint i)) (s\<lparr>ai_rank := i\<rparr>)"
    and "holds k (lit ''p'') \<Longrightarrow>
      reads (udap_ai_decode_key pton (Some k)) s (bint (uint i)) (s\<lparr>ai_port := i\<rparr>)"
  using assms ucast_u16_bounds [of i]
  by (auto simp: udap_ai_decode_key_def [abs_def] if_key_holds intro!: reads_if_integer_u16)

lemma ai_key_version: "holds k (lit ''v'') \<Longrightarrow> reads (udap_ai_decode_key pton (Some k)) s (bint 0) s"
  by (auto simp: udap_ai_decode_key_def [abs_def] if_key_holds UDAP_PROTO_VERSION_def
      intro!: reads_if_integer_0)

lemma ai_key_dialect:
  assumes "holds k (lit ''d'')" "length t \<le> MAX_AI_DIALECT_SIZE"
  shows "reads (udap_ai_decode_key pton (Some k)) s (bstr t)
    (s\<lparr>ai_dialect := t @ 0 # drop (Suc (length t)) (ai_dialect s)\<rparr>)"
  using assms
  by (auto simp: udap_ai_decode_key_def [abs_def] if_key_holds MAX_AI_DIALECT_SIZE_def holds_sz
      copy_from_holds intro!: reads_if_string)

lemma ai_key_enc_key:
  assumes "holds k (lit ''e'')" "length t = PUBKEYSIZE"
  shows "reads (udap_ai_decode_key pton (Some k)) s (bstr t) (s\<lparr>ai_enc_key := t\<rparr>)"
  using assms
  by (auto simp: udap_ai_decode_key_def [abs_def] if_key_holds PUBKEYSIZE_def holds_sz
      copy_from_holds intro!: reads_if_string)

lemma ai_key_ip:
  assumes "holds k (lit ''i'')" "length t < 128" "0 \<notin> set t" "pton t = Some ip"
  shows "reads (udap_ai_decode_key pton (Some k)) s (bstr t) (s\<lparr>ai_ip := ip\<rparr>)"
  using assms
  by (auto simp: udap_ai_decode_key_def [abs_def] if_key_holds holds_sz cstr_id
      copy_from_holds intro!: reads_if_string)

lemma reads_ai [read_rules]:
  assumes io: "inet_ok ntop pton" and v: "ai_valid s ai"
  shows "reads (udap_ai_bdecode pton) s (ai_bytes ntop ai) ai"
proof -
  from io v obtain t where t: "ntop (ai_ip ai) = Some t" "0 \<notin> set t" "length t < 46"
    "pton t = Some (ai_ip ai)"
    by (auto simp: inet_ok_def ai_valid_def)
  let ?s1 = "s\<lparr>ai_rank := ai_rank ai\<rparr>"
  let ?s2 = "?s1\<lparr>ai_dialect := ai_dialect ai\<rparr>"
  let ?s3 = "?s2\<lparr>ai_enc_key := ai_enc_key ai\<rparr>"
  let ?s4 = "?s3\<lparr>ai_ip := ai_ip ai\<rparr>"
  have dial: "reads (udap_ai_decode_key pton (Some k)) ?s1 (bstr (cstr (ai_dialect ai))) ?s2"
    if "holds k (lit ''d'')" for k
    using ai_key_dialect [OF that, of "cstr (ai_dialect ai)" pton ?s1] v
    by (simp add: ai_valid_def)
  have "dict_run (udap_ai_decode_key pton) s
      (bstr (lit ''c'') @ bint (uint (ai_rank ai)) @
       bstr (lit ''d'') @ bstr (cstr (ai_dialect ai)) @
       bstr (lit ''e'') @ bstr (ai_enc_key ai) @
       bstr (lit ''i'') @ bstr t @
       bstr (lit ''p'') @ bint (uint (ai_port ai)) @
       bstr (lit ''v'') @ bint 0 @ []) (?s4\<lparr>ai_port := ai_port ai\<rparr>)"
    using v t dial by (intro dict_run.intros allI impI)
      (auto simp: ai_valid_def intro: dict_nil ai_key_int ai_key_version ai_key_enc_key ai_key_ip)
  moreover have "?s4\<lparr>ai_port := ai_port ai\<rparr> = ai" by simp
  ultimately show ?thesis
    using t unfolding udap_ai_bdecode_def
    by (intro reads_dict_eq) (auto simp: ai_bytes_def udap_ai_decode_key_def)
qed

interpretation ai: dict_callback "udap_ai_decode_key pton" 1 for pton
proof
  fix k :: udap_buffer_t assume "buf_wf k" "b_cur k = b_base k"
  then show "rsafe 1 (udap_ai_decode_key pton (Some k))"
    unfolding udap_ai_decode_key_def [abs_def] option.case
    by (intro safe_rules) (auto dest: rsafe_string_bodies split: option.split)
qed (auto simp: udap_ai_decode_key_def overread_def)

lemma rsafe_ai [safe_rules]: "rsafe 2 (udap_ai_bdecode pton)"
  unfolding udap_ai_bdecode_def using ai.read_dict_safe by (simp add: numeral_2_eq_2)

subsection \<open>Lists\<close>

lemma emits_list_iterate:
  assumes "\<And>x. x \<in> set l \<Longrightarrow> emits (visit x) (enc x)"
  shows "emits (\<lambda>b. do { b \<leftarrow> list_iterate visit l b; Some (True, b) }) (concat (map enc l))"
  using assms
proof (induction l)
  case Nil
  then show ?case by (auto intro: exact_emits exact_Nil)
next
  case (Cons x l)
  let ?rest = "\<lambda>b. do { b \<leftarrow> list_iterate visit l b; Some (True, b) }"
  let ?all = "\<lambda>b. do { b \<leftarrow> list_iterate visit (x # l) b; Some (True, b) }"
  have x: "emits (visit x) (enc x)" and l: "emits ?rest (concat (map enc l))"
    using Cons by auto
  have eq: "wthen (visit x) ?rest b = Some (ok, b') \<Longrightarrow> ?all b = Some (True, b')" for b b' ok
    by (cases "visit x b") (auto simp: wthen_def bind_Some_conv split: if_splits)
  have w: "emits (wthen (visit x) ?rest) (enc x @ concat (map enc l))"
    using x l by (rule emits_wthen)
  have "wsafe ?all"
    using emits_wsafe [OF w] eq unfolding wsafe_def by blast
  with w eq show ?case unfolding emits_def by (simp, blast)
qed

definition ai_list_bytes :: "ntop \<Rightarrow> udap_ai list \<Rightarrow> byte list" where
  "ai_list_bytes ntop l = 108 # concat (map (ai_bytes ntop) l) @ [101]"

lemma emits_ai_list [write_rules]:
  assumes "inet_ok ntop pton" "list_all (ai_valid s) l"
  shows "emits (udap_ai_list_bencode ntop l) (ai_list_bytes ntop l)"
proof -
  have "emits (\<lambda>b. do { b \<leftarrow> udap_ai_list_iterate (udap_ai_bencode ntop) l b; Some (True, b) })
      (concat (map (ai_bytes ntop) l))"
    unfolding udap_ai_list_iterate_def
    using assms by (intro emits_list_iterate) (auto simp: list_all_iff intro: emits_ai)
  then have "emits (udap_ai_list_bencode ntop l)
      (concat [lit ''l'', concat (map (ai_bytes ntop) l), lit ''e''])"
    unfolding udap_ai_list_bencode_def
    by (intro wseq_emits) (auto intro!: exact_emits write_rules)
  then show ?thesis by (simp add: ai_list_bytes_def)
qed

lemma ai_list_run:
  assumes "inet_ok ntop pton" "list_all (ai_valid uninit) l"
  shows "list_run (udap_ai_list_bdecode_item pton uninit) acc (concat (map (ai_bytes ntop) l)) (acc @ l)"
proof (rule list_run_items)
  fix ai acc assume "ai \<in> set l"
  then have "ai_valid uninit ai" using assms by (simp add: list_all_iff)
  then show "reads (udap_ai_list_bdecode_item pton uninit True) acc (ai_bytes ntop ai) (acc @ [ai])"
    using reads_ai [OF assms(1)]
    by (simp add: reads_def udap_ai_list_bdecode_item_def udap_ai_list_pushback_def)
qed (simp add: ai_bytes_def)

lemma reads_ai_list [read_rules]:
  assumes "inet_ok ntop pton" "list_all (ai_valid uninit) l"
  shows "reads (udap_ai_list_bdecode pton uninit) acc (ai_list_bytes ntop l) (acc @ l)"
  unfolding udap_ai_list_bdecode_def ai_list_bytes_def
  by (rule reads_list [OF ai_list_run [OF assms]]) (simp add: udap_ai_list_bdecode_item_def)

interpretation ai_list: list_callback "udap_ai_list_bdecode_item pton uninit" 2 for pton uninit
proof
  show "rsafe 2 (udap_ai_list_bdecode_item pton uninit True)"
  proof (rule rsafeI)
    fix s b assume "slack b"
    with rsafe_ai obtain ok x b' where "udap_ai_bdecode pton uninit b = Some (ok, x, b')"
      "ok \<longrightarrow> moved 2 b b'" by (rule rsafeE)
    then show "\<exists>ok s' b'. udap_ai_list_bdecode_item pton uninit True s b = Some (ok, s', b') \<and>
        (ok \<longrightarrow> moved 2 b b')"
      by (auto simp: udap_ai_list_bdecode_item_def)
  qed
qed (auto simp: udap_ai_list_bdecode_item_def overread_def)

lemma rsafe_ai_list [safe_rules]: "rsafe 3 (udap_ai_list_bdecode pton uninit)"
  unfolding udap_ai_list_bdecode_def using ai_list.read_list_safe by simp

lemma list_copy_eq: "udap_ai_list_copy dst src = src"
proof -
  have "fold (\<lambda>itr l. l @ [itr]) src acc = acc @ src" for acc by (induction src arbitrary: acc) auto
  then show ?thesis by (simp add: udap_ai_list_copy_def)
qed

end
