(* ===== verification/Exit_Info.thy ===== *)
theory Exit_Info
  imports Address_Info
begin

text \<open>
  \<open>udap/exit_info.cpp\<close>: the exit information of a router, its bencoding, and lists of it.
\<close>

section \<open>Model\<close>

record udap_xi =
  xi_address :: "byte list"
  xi_netmask :: "byte list"
  xi_pubkey :: "byte list"

definition udap_xi_bencode :: "ntop \<Rightarrow> udap_xi \<Rightarrow> writer" where
  "udap_xi_bencode ntop xi =
     wseq [bencode_start_dict,
       (case ntop (xi_address xi) of
          None \<Rightarrow> (\<lambda>b. Some (False, b))
        | Some addr \<Rightarrow>
            wseq [bencode_write_bytestring (lit ''a''), bencode_write_bytestring (cstr addr)]),
       (case ntop (xi_netmask xi) of
          None \<Rightarrow> (\<lambda>b. Some (False, b))
        | Some addr \<Rightarrow>
            wseq [bencode_write_bytestring (lit ''b''), bencode_write_bytestring (cstr addr)]),
       bencode_write_bytestring (lit ''k''),
       bencode_write_bytestring (xi_pubkey xi),
       bencode_write_version_entry,
       bencode_end]"

definition udap_xi_decode_dict :: "pton \<Rightarrow> udap_buffer_t option \<Rightarrow> udap_xi act" where
  "udap_xi_decode_dict pton key xi buf =
     (case key of
        None \<Rightarrow> Some (True, xi, buf)
      | Some key \<Rightarrow>
          if_key key ''a'' (if_string (\<lambda>strbuf xi buf.
              if b_sz strbuf \<ge> 128 then Some (False, xi, buf)
              else do {
                tmp \<leftarrow> copy_from strbuf (b_sz strbuf);
                (case pton (cstr tmp) of
                   None \<Rightarrow> Some (False, xi, buf)
                 | Some ip \<Rightarrow> Some (True, xi\<lparr>xi_address := ip\<rparr>, buf))
              }) xi buf)
         (if_key key ''b'' (if_string (\<lambda>strbuf xi buf.
              if b_sz strbuf \<ge> 128 then Some (False, xi, buf)
              else do {
                tmp \<leftarrow> copy_from strbuf (b_sz strbuf);
                (case pton (cstr tmp) of
                   None \<Rightarrow> Some (False, xi, buf)
                 | Some ip \<Rightarrow> Some (True, xi\<lparr>xi_netmask := ip\<rparr>, buf))
              }) xi buf)
         (if_key key ''k'' (if_string (\<lambda>strbuf xi buf.
              if b_sz strbuf \<noteq> PUBKEYSIZE then Some (False, xi, buf)
              else do {
                k \<leftarrow> copy_from strbuf PUBKEYSIZE;
                Some (True, xi\<lparr>xi_pubkey := k\<rparr>, buf)
              }) xi buf)
         (if_key key ''v'' (if_integer (\<lambda>v xi buf. Some (v = UDAP_PROTO_VERSION, xi, buf)) xi buf)
         (Some (False, xi, buf))))))"

definition udap_xi_bdecode :: "pton \<Rightarrow> udap_xi act" where
  "udap_xi_bdecode pton = bencode_read_dict (udap_xi_decode_dict pton)"

section \<open>Lists\<close>

definition udap_xi_list_new :: "udap_xi list" where
  "udap_xi_list_new = []"

definition udap_xi_list_iterate ::
  "(udap_xi \<Rightarrow> writer) \<Rightarrow> udap_xi list \<Rightarrow> udap_buffer_t \<Rightarrow> udap_buffer_t option" where
  "udap_xi_list_iterate visit l = list_iterate visit l"

definition udap_xi_list_bencode :: "ntop \<Rightarrow> udap_xi list \<Rightarrow> writer" where
  "udap_xi_list_bencode ntop l =
     wseq [bencode_start_list,
       (\<lambda>b. do { b \<leftarrow> udap_xi_list_iterate (udap_xi_bencode ntop) l b; Some (True, b) }),
       bencode_end]"

text \<open>\<open>emplace_back()\<close> appends an element with all its members zero.\<close>

definition xi_zero :: udap_xi where
  "xi_zero = \<lparr>xi_address = replicate 16 0, xi_netmask = replicate 16 0,
     xi_pubkey = replicate PUBKEYSIZE 0\<rparr>"

definition udap_xi_list_pushback :: "udap_xi list \<Rightarrow> udap_xi \<Rightarrow> udap_xi list" where
  "udap_xi_list_pushback l xi = l @ [xi]"

definition udap_xi_list_copy :: "udap_xi list \<Rightarrow> udap_xi list \<Rightarrow> udap_xi list" where
  "udap_xi_list_copy dst src = fold (\<lambda>itr l. l @ [itr]) src []"

text \<open>The element is decoded in the list, where it stays when decoding fails.\<close>

definition udap_xi_list_decode_item :: "pton \<Rightarrow> bool \<Rightarrow> udap_xi list act" where
  "udap_xi_list_decode_item pton has l buf =
     (if \<not> has then Some (True, l, buf)
      else do {
        (ok, xi, buf) \<leftarrow> udap_xi_bdecode pton xi_zero buf;
        Some (ok, l @ [xi], buf)
      })"

definition udap_xi_list_bdecode :: "pton \<Rightarrow> udap_xi list act" where
  "udap_xi_list_bdecode pton = bencode_read_list (udap_xi_list_decode_item pton)"

section \<open>Wire format and contracts\<close>

definition xi_bytes :: "ntop \<Rightarrow> udap_xi \<Rightarrow> byte list" where
  "xi_bytes ntop xi = lit ''d'' @
     bstr (lit ''a'') @ bstr (the (ntop (xi_address xi))) @
     bstr (lit ''b'') @ bstr (the (ntop (xi_netmask xi))) @
     bstr (lit ''k'') @ bstr (xi_pubkey xi) @
     bstr (lit ''v'') @ bint 0 @ lit ''e''"

definition xi_valid :: "udap_xi \<Rightarrow> bool" where
  "xi_valid xi \<longleftrightarrow> length (xi_address xi) = 16 \<and> length (xi_netmask xi) = 16 \<and>
     length (xi_pubkey xi) = PUBKEYSIZE"

lemma inet_text:
  assumes "inet_ok ntop pton" "length ip = 16"
  obtains t where "ntop ip = Some t" "0 \<notin> set t" "length t < 46" "pton t = Some ip" "cstr t = t"
  using assms by (auto simp: inet_ok_def cstr_id)

lemma emits_xi [write_rules]:
  assumes io: "inet_ok ntop pton" and v: "xi_valid xi"
  shows "emits (udap_xi_bencode ntop xi) (xi_bytes ntop xi)"
proof -
  from io v obtain t where t: "ntop (xi_address xi) = Some t" "length t < 46" "cstr t = t"
    by (auto simp: xi_valid_def elim: inet_text)
  from io v obtain u where u: "ntop (xi_netmask xi) = Some u" "length u < 46" "cstr u = u"
    by (auto simp: xi_valid_def elim: inet_text)
  have "emits (udap_xi_bencode ntop xi) (concat [lit ''d'', concat [bstr (lit ''a''), bstr t],
      concat [bstr (lit ''b''), bstr u], bstr (lit ''k''), bstr (xi_pubkey xi),
      bstr (lit ''v'') @ bint 0, lit ''e''])"
    unfolding udap_xi_bencode_def t u option.case
    using v t u by (intro wseq_emits) (auto simp: xi_valid_def size_defs
        intro!: exact_emits exact_wthen write_rules)
  then show ?thesis using t u by (simp add: xi_bytes_def)
qed

lemma xi_key_ip:
  assumes "length t < 128" "cstr t = t" "pton t = Some ip"
  shows "holds k (lit ''a'') \<Longrightarrow>
      reads (udap_xi_decode_dict pton (Some k)) s (bstr t) (s\<lparr>xi_address := ip\<rparr>)"
    and "holds k (lit ''b'') \<Longrightarrow>
      reads (udap_xi_decode_dict pton (Some k)) s (bstr t) (s\<lparr>xi_netmask := ip\<rparr>)"
  using assms
  by (auto simp: udap_xi_decode_dict_def [abs_def] if_key_holds holds_sz
      copy_from_holds intro!: reads_if_string)

lemma xi_key_pubkey:
  assumes "holds k (lit ''k'')" "length t = PUBKEYSIZE"
  shows "reads (udap_xi_decode_dict pton (Some k)) s (bstr t) (s\<lparr>xi_pubkey := t\<rparr>)"
  using assms
  by (auto simp: udap_xi_decode_dict_def [abs_def] if_key_holds PUBKEYSIZE_def holds_sz
      copy_from_holds intro!: reads_if_string)

lemma xi_key_version: "holds k (lit ''v'') \<Longrightarrow> reads (udap_xi_decode_dict pton (Some k)) s (bint 0) s"
  by (auto simp: udap_xi_decode_dict_def [abs_def] if_key_holds UDAP_PROTO_VERSION_def
      intro!: reads_if_integer_0)

lemma reads_xi [read_rules]:
  assumes io: "inet_ok ntop pton" and v: "xi_valid xi"
  shows "reads (udap_xi_bdecode pton) s (xi_bytes ntop xi) xi"
proof -
  from io v obtain t where t: "ntop (xi_address xi) = Some t" "length t < 46" "cstr t = t"
    "pton t = Some (xi_address xi)" by (auto simp: xi_valid_def elim: inet_text)
  from io v obtain u where u: "ntop (xi_netmask xi) = Some u" "length u < 46" "cstr u = u"
    "pton u = Some (xi_netmask xi)" by (auto simp: xi_valid_def elim: inet_text)
  have "dict_run (udap_xi_decode_dict pton) s
      (bstr (lit ''a'') @ bstr t @ bstr (lit ''b'') @ bstr u @
       bstr (lit ''k'') @ bstr (xi_pubkey xi) @ bstr (lit ''v'') @ bint 0 @ [])
      (s\<lparr>xi_address := xi_address xi, xi_netmask := xi_netmask xi, xi_pubkey := xi_pubkey xi\<rparr>)"
    using v t u by (intro dict_run.intros allI impI)
      (auto simp: xi_valid_def intro: dict_nil xi_key_ip xi_key_pubkey xi_key_version)
  moreover have "s\<lparr>xi_address := xi_address xi, xi_netmask := xi_netmask xi,
      xi_pubkey := xi_pubkey xi\<rparr> = xi" by simp
  ultimately show ?thesis
    using t u unfolding udap_xi_bdecode_def
    by (intro reads_dict_eq) (auto simp: xi_bytes_def udap_xi_decode_dict_def)
qed

interpretation xi: dict_callback "udap_xi_decode_dict pton" 1 for pton
proof
  fix k :: udap_buffer_t assume "buf_wf k" "b_cur k = b_base k"
  then show "rsafe 1 (udap_xi_decode_dict pton (Some k))"
    unfolding udap_xi_decode_dict_def [abs_def] option.case
    by (intro safe_rules) (auto dest: rsafe_string_bodies split: option.split)
qed (auto simp: udap_xi_decode_dict_def overread_def)

lemma rsafe_xi [safe_rules]: "rsafe 2 (udap_xi_bdecode pton)"
  unfolding udap_xi_bdecode_def using xi.read_dict_safe by (simp add: numeral_2_eq_2)

subsection \<open>Lists\<close>

definition xi_list_bytes :: "ntop \<Rightarrow> udap_xi list \<Rightarrow> byte list" where
  "xi_list_bytes ntop l = 108 # concat (map (xi_bytes ntop) l) @ [101]"

lemma emits_xi_list [write_rules]:
  assumes "inet_ok ntop pton" "list_all xi_valid l"
  shows "emits (udap_xi_list_bencode ntop l) (xi_list_bytes ntop l)"
proof -
  have "emits (\<lambda>b. do { b \<leftarrow> udap_xi_list_iterate (udap_xi_bencode ntop) l b; Some (True, b) })
      (concat (map (xi_bytes ntop) l))"
    unfolding udap_xi_list_iterate_def
    using assms by (intro emits_list_iterate) (auto simp: list_all_iff intro: emits_xi)
  then have "emits (udap_xi_list_bencode ntop l)
      (concat [lit ''l'', concat (map (xi_bytes ntop) l), lit ''e''])"
    unfolding udap_xi_list_bencode_def
    by (intro wseq_emits) (auto intro!: exact_emits write_rules)
  then show ?thesis by (simp add: xi_list_bytes_def)
qed

lemma xi_list_run:
  assumes "inet_ok ntop pton" "list_all xi_valid l"
  shows "list_run (udap_xi_list_decode_item pton) acc (concat (map (xi_bytes ntop) l)) (acc @ l)"
proof (rule list_run_items)
  fix xi acc assume "xi \<in> set l"
  then have "xi_valid xi" using assms by (simp add: list_all_iff)
  then show "reads (udap_xi_list_decode_item pton True) acc (xi_bytes ntop xi) (acc @ [xi])"
    using reads_xi [OF assms(1)] by (simp add: reads_def udap_xi_list_decode_item_def)
qed (simp add: xi_bytes_def)

lemma reads_xi_list [read_rules]:
  assumes "inet_ok ntop pton" "list_all xi_valid l"
  shows "reads (udap_xi_list_bdecode pton) acc (xi_list_bytes ntop l) (acc @ l)"
  unfolding udap_xi_list_bdecode_def xi_list_bytes_def
  by (rule reads_list [OF xi_list_run [OF assms]]) (simp add: udap_xi_list_decode_item_def)

interpretation xi_list: list_callback "udap_xi_list_decode_item pton" 2 for pton
proof
  show "rsafe 2 (udap_xi_list_decode_item pton True)"
  proof (rule rsafeI)
    fix s b assume "slack b"
    with rsafe_xi obtain ok x b' where "udap_xi_bdecode pton xi_zero b = Some (ok, x, b')"
      "ok \<longrightarrow> moved 2 b b'" by (rule rsafeE)
    then show "\<exists>ok s' b'. udap_xi_list_decode_item pton True s b = Some (ok, s', b') \<and>
        (ok \<longrightarrow> moved 2 b b')"
      by (auto simp: udap_xi_list_decode_item_def)
  qed
qed (auto simp: udap_xi_list_decode_item_def overread_def)

lemma rsafe_xi_list [safe_rules]: "rsafe 3 (udap_xi_list_bdecode pton)"
  unfolding udap_xi_list_bdecode_def using xi_list.read_list_safe by simp

lemma xi_list_copy_eq: "udap_xi_list_copy dst src = src"
proof -
  have "fold (\<lambda>itr l. l @ [itr]) src acc = acc @ src" for acc by (induction src arbitrary: acc) auto
  then show ?thesis by (simp add: udap_xi_list_copy_def)
qed

section \<open>Exit routes\<close>

text \<open>\<open>udap/exit_route.c\<close>: the encoder of a route to an exit; there is no decoder.\<close>

record udap_xr =
  xr_gateway :: "byte list"
  xr_netmask :: "byte list"
  xr_source :: "byte list"
  xr_lifetime :: u64

definition write_ip :: "ntop \<Rightarrow> string \<Rightarrow> byte list \<Rightarrow> writer" where
  "write_ip ntop key ip =
     (case ntop ip of
        None \<Rightarrow> (\<lambda>b. Some (False, b))
      | Some addr \<Rightarrow> wseq [bencode_write_bytestring (lit key), bencode_write_bytestring (cstr addr)])"

definition udap_xr_bencode :: "ntop \<Rightarrow> udap_xr \<Rightarrow> writer" where
  "udap_xr_bencode ntop xr =
     wseq [bencode_start_dict,
       write_ip ntop ''a'' (xr_gateway xr),
       write_ip ntop ''b'' (xr_netmask xr),
       write_ip ntop ''c'' (xr_source xr),
       bencode_write_bytestring (lit ''l''),
       bencode_write_uint64 (xr_lifetime xr),
       bencode_write_version_entry,
       bencode_end]"

definition xr_bytes :: "ntop \<Rightarrow> udap_xr \<Rightarrow> byte list" where
  "xr_bytes ntop xr = lit ''d'' @ bstr (lit ''a'') @ bstr (the (ntop (xr_gateway xr))) @ bstr (lit ''b'') @ bstr (the (ntop (xr_netmask xr))) @
     bstr (lit ''c'') @ bstr (the (ntop (xr_source xr))) @ bstr (lit ''l'') @ bint (sint (xr_lifetime xr)) @ bstr (lit ''v'') @ bint 0 @ lit ''e''"

lemma emits_ip:
  assumes "inet_ok ntop pton" "length ip = 16"
  shows "emits (write_ip ntop [c] ip) (bstr (lit [c]) @ bstr (the (ntop ip)))"
proof -
  from assms obtain t where t: "ntop ip = Some t" "length t < 46" "cstr t = t" by (auto elim: inet_text)
  have "emits (write_ip ntop [c] ip) (concat [bstr (lit [c]), bstr t])"
    unfolding write_ip_def t option.case using t by (intro wseq_emits) (auto intro!: exact_emits write_rules)
  then show ?thesis using t by simp
qed

text \<open>
  A route is written into every buffer that has room for it as a dictionary with sorted keys. The lifetime is an unsigned number, but it is
  written with its sign: from the middle of its range on it is negative.
\<close>

theorem route_written:
  assumes "inet_ok ntop pton" "length (xr_gateway xr) = 16" "length (xr_netmask xr) = 16" "length (xr_source xr) = 16"
  shows "emits (udap_xr_bencode ntop xr) (xr_bytes ntop xr)"
proof -
  have "emits (udap_xr_bencode ntop xr) (concat [lit ''d'', bstr (lit ''a'') @ bstr (the (ntop (xr_gateway xr))),
      bstr (lit ''b'') @ bstr (the (ntop (xr_netmask xr))), bstr (lit ''c'') @ bstr (the (ntop (xr_source xr))), bstr (lit ''l''),
      bint (sint (xr_lifetime xr)), bstr (lit ''v'') @ bint 0, lit ''e''])"
    unfolding udap_xr_bencode_def
    by (intro wseq_emits) (auto intro!: exact_emits write_rules exact_write_uint64 emits_ip [OF assms(1,2)] emits_ip [OF assms(1,3)] emits_ip [OF assms(1,4)]
      simp del: lit_Cons)
  then show ?thesis by (simp add: xr_bytes_def)
qed

end
