(* ===== verification/Router_Contact.thy ===== *)
theory Router_Contact
  imports Exit_Info
begin

text \<open>
  \<open>udap/router_contact.cpp\<close> and the \<open>udap_rc_\<close> functions of \<open>udap/router.cpp\<close>: the router
  contact, the signed record by which a router is known to the network. Signing and verifying
  are libsodium's: parameters \<open>sign\<close> and \<open>verify\<close>, with the hypothesis \<open>signs\<close> that a
  signature made with a secret key verifies under its public key.
\<close>

section \<open>Model\<close>

record udap_rc =
  rc_addrs :: "udap_ai list option"
  rc_enckey :: "byte list"
  rc_pubkey :: "byte list"
  rc_exits :: "udap_xi list option"
  rc_signature :: "byte list"
  rc_last_updated :: u64

definition MAX_RC_SIZE :: nat where
  "MAX_RC_SIZE = 1024"

definition udap_rc_free :: "udap_rc \<Rightarrow> udap_rc" where
  "udap_rc_free rc = rc\<lparr>rc_exits := None, rc_addrs := None\<rparr>"

definition rc_zero :: udap_rc where
  "rc_zero = \<lparr>rc_addrs = None, rc_enckey = replicate PUBKEYSIZE 0,
     rc_pubkey = replicate PUBKEYSIZE 0, rc_exits = None, rc_signature = replicate SIGSIZE 0,
     rc_last_updated = 0\<rparr>"

definition udap_rc_clear :: "udap_rc \<Rightarrow> udap_rc" where
  "udap_rc_clear rc = rc_zero"

definition udap_rc_decode_dict :: "pton \<Rightarrow> udap_ai \<Rightarrow> udap_buffer_t option \<Rightarrow> udap_rc act" where
  "udap_rc_decode_dict pton uninit key rc buf =
     (case key of
        None \<Rightarrow> Some (True, rc, buf)
      | Some key \<Rightarrow>
          if_key key ''a'' (into (\<lambda>rc. udap_ai_list_new) (\<lambda>l. rc_addrs_update (\<lambda>_. Some l))
              (udap_ai_list_bdecode pton uninit) rc buf)
         (if_key key ''k'' (if_string (\<lambda>strbuf rc buf.
              if b_sz strbuf \<noteq> PUBKEYSIZE then Some (False, rc, buf)
              else do {
                k \<leftarrow> copy_from strbuf PUBKEYSIZE;
                Some (True, rc\<lparr>rc_pubkey := k\<rparr>, buf)
              }) rc buf)
         (if_key key ''p'' (if_string (\<lambda>strbuf rc buf.
              if b_sz strbuf \<noteq> PUBKEYSIZE then Some (False, rc, buf)
              else do {
                k \<leftarrow> copy_from strbuf PUBKEYSIZE;
                Some (True, rc\<lparr>rc_enckey := k\<rparr>, buf)
              }) rc buf)
         (if_key key ''u'' (into rc_last_updated (\<lambda>i. rc_last_updated_update (\<lambda>_. i))
              bencode_read_integer rc buf)
         (if_key key ''v'' (if_integer (\<lambda>v rc buf. Some (v = UDAP_PROTO_VERSION, rc, buf)) rc buf)
         (if_key key ''x'' (into (\<lambda>rc. udap_xi_list_new) (\<lambda>l. rc_exits_update (\<lambda>_. Some l))
              (udap_xi_list_bdecode pton) rc buf)
         (if_key key ''z'' (if_string (\<lambda>strbuf rc buf.
              if b_sz strbuf \<noteq> SIGSIZE then Some (False, rc, buf)
              else do {
                k \<leftarrow> copy_from strbuf SIGSIZE;
                Some (True, rc\<lparr>rc_signature := k\<rparr>, buf)
              }) rc buf)
         (Some (False, rc, buf)))))))))"

definition udap_rc_bdecode :: "pton \<Rightarrow> udap_ai \<Rightarrow> udap_rc act" where
  "udap_rc_bdecode pton uninit = bencode_read_dict (udap_rc_decode_dict pton uninit)"

definition udap_rc_bencode :: "ntop \<Rightarrow> udap_rc \<Rightarrow> writer" where
  "udap_rc_bencode ntop rc =
     wseq [bencode_start_dict,
       (case rc_addrs rc of
          None \<Rightarrow> (\<lambda>b. Some (True, b))
        | Some l \<Rightarrow> wseq [bencode_write_bytestring (lit ''a''), udap_ai_list_bencode ntop l]),
       bencode_write_bytestring (lit ''k''),
       bencode_write_bytestring (rc_pubkey rc),
       bencode_write_bytestring (lit ''p''),
       bencode_write_bytestring (rc_enckey rc),
       bencode_write_bytestring (lit ''u''),
       bencode_write_uint64 (rc_last_updated rc),
       bencode_write_version_entry,
       (case rc_exits rc of
          None \<Rightarrow> (\<lambda>b. Some (True, b))
        | Some l \<Rightarrow> wseq [bencode_write_bytestring (lit ''x''), udap_xi_list_bencode ntop l]),
       bencode_write_bytestring (lit ''z''),
       bencode_write_bytestring (rc_signature rc),
       bencode_end]"

definition udap_rc_copy :: "udap_rc \<Rightarrow> udap_rc \<Rightarrow> udap_rc" where
  "udap_rc_copy dst src =
     (let dst = udap_rc_clear (udap_rc_free dst);
          dst = dst\<lparr>rc_pubkey := rc_pubkey src, rc_enckey := rc_enckey src,
                    rc_signature := rc_signature src, rc_last_updated := rc_last_updated src\<rparr>;
          dst = (case rc_addrs src of
                   None \<Rightarrow> dst
                 | Some l \<Rightarrow> dst\<lparr>rc_addrs := Some (udap_ai_list_copy udap_ai_list_new l)\<rparr>)
      in (case rc_exits src of
            None \<Rightarrow> dst
          | Some l \<Rightarrow> dst\<lparr>rc_exits := Some (udap_xi_list_copy udap_xi_list_new l)\<rparr>))"

text \<open>\<open>stack\<close> is the uninitialised array the next functions encode into.\<close>

type_synonym signer = "byte list \<Rightarrow> byte list \<Rightarrow> byte list"
type_synonym verifier = "byte list \<Rightarrow> byte list \<Rightarrow> byte list \<Rightarrow> bool"

text \<open>The signature is zeroed while the record is encoded, and restored at the end.\<close>

definition udap_rc_verify_sig ::
  "ntop \<Rightarrow> verifier \<Rightarrow> byte list \<Rightarrow> udap_rc \<Rightarrow> (bool \<times> udap_rc) option" where
  "udap_rc_verify_sig ntop verify stack rc = do {
     let sig = rc_signature rc;
     let rc = rc\<lparr>rc_signature := replicate SIGSIZE 0\<rparr>;
     (ok, buf) \<leftarrow> udap_rc_bencode ntop rc (StackBuffer stack);
     let result = (if ok then verify (rc_pubkey rc) (encoded buf) sig else False);
     Some (result, rc\<lparr>rc_signature := sig\<rparr>)
   }"

definition udap_rc_sign ::
  "ntop \<Rightarrow> signer \<Rightarrow> byte list \<Rightarrow> byte list \<Rightarrow> udap_rc \<Rightarrow> udap_rc option" where
  "udap_rc_sign ntop sign stack seckey rc = do {
     let rc = rc\<lparr>rc_signature := replicate SIGSIZE 0\<rparr>;
     (ok, signbuf) \<leftarrow> udap_rc_bencode ntop rc (StackBuffer stack);
     Some (if ok then rc\<lparr>rc_signature := sign seckey (encoded signbuf)\<rparr> else rc)
   }"

definition udap_rc_set_pubenckey :: "udap_rc \<Rightarrow> byte list \<Rightarrow> udap_rc" where
  "udap_rc_set_pubenckey rc pubenckey = rc\<lparr>rc_enckey := pubenckey\<rparr>"

definition udap_rc_set_pubsigkey :: "udap_rc \<Rightarrow> byte list \<Rightarrow> udap_rc" where
  "udap_rc_set_pubsigkey rc pubsigkey = rc\<lparr>rc_pubkey := pubsigkey\<rparr>"

definition udap_rc_set_pubkey :: "udap_rc \<Rightarrow> byte list \<Rightarrow> byte list \<Rightarrow> udap_rc" where
  "udap_rc_set_pubkey rc pubenckey pubsigkey =
     udap_rc_set_pubsigkey (udap_rc_set_pubenckey rc pubenckey) pubsigkey"

definition udap_rc_set_addrs :: "udap_rc \<Rightarrow> udap_ai list \<Rightarrow> udap_rc" where
  "udap_rc_set_addrs rc addr =
     rc\<lparr>rc_addrs := Some (fold (\<lambda>ai l. udap_ai_list_pushback l ai) addr udap_ai_list_new)\<rparr>"

text \<open>
  Files are byte lists: \<open>None\<close> when the file does not exist or cannot be opened. The bytes of the
  stack array behind the file's contents stay in the buffer that is decoded.
\<close>

definition udap_rc_write ::
  "ntop \<Rightarrow> byte list \<Rightarrow> bool \<Rightarrow> udap_rc \<Rightarrow> (bool \<times> byte list option) option" where
  "udap_rc_write ntop stack is_open rc = do {
     (ok, buf) \<leftarrow> udap_rc_bencode ntop rc (StackBuffer stack);
     Some (if ok \<and> is_open then (True, Some (encoded buf)) else (False, None))
   }"

definition udap_rc_read ::
  "pton \<Rightarrow> udap_ai \<Rightarrow> byte list \<Rightarrow> udap_rc \<Rightarrow> byte list option \<Rightarrow> udap_rc option option" where
  "udap_rc_read pton uninit stack garbage file =
     (case file of
        None \<Rightarrow> Some None
      | Some contents \<Rightarrow>
          if length contents > length stack then Some None
          else do {
            tmp \<leftarrow> mem_store stack 0 contents;
            (ok, rc, buf) \<leftarrow> udap_rc_bdecode pton uninit (udap_rc_clear garbage) (StackBuffer tmp);
            Some (if \<not> ok then None else Some rc)
          })"

section \<open>Wire format and contracts\<close>

definition rc_bytes :: "ntop \<Rightarrow> udap_rc \<Rightarrow> byte list" where
  "rc_bytes ntop rc = lit ''d'' @
     (case rc_addrs rc of None \<Rightarrow> [] | Some l \<Rightarrow> bstr (lit ''a'') @ ai_list_bytes ntop l) @
     bstr (lit ''k'') @ bstr (rc_pubkey rc) @
     bstr (lit ''p'') @ bstr (rc_enckey rc) @
     bstr (lit ''u'') @ bint (sint (rc_last_updated rc)) @
     bstr (lit ''v'') @ bint 0 @
     (case rc_exits rc of None \<Rightarrow> [] | Some l \<Rightarrow> bstr (lit ''x'') @ xi_list_bytes ntop l) @
     bstr (lit ''z'') @ bstr (rc_signature rc) @ lit ''e''"

text \<open>A contact the format can carry; \<open>uninit\<close> is as for \<open>udap_ai_list_bdecode\<close>.\<close>

definition rc_valid :: "udap_ai \<Rightarrow> udap_rc \<Rightarrow> bool" where
  "rc_valid uninit rc \<longleftrightarrow> length (rc_pubkey rc) = PUBKEYSIZE \<and> length (rc_enckey rc) = PUBKEYSIZE \<and>
     length (rc_signature rc) = SIGSIZE \<and> rc_last_updated rc \<noteq> -1 \<and>
     pred_option (list_all (ai_valid uninit)) (rc_addrs rc) \<and>
     pred_option (list_all xi_valid) (rc_exits rc)"

text \<open>Lists that are absent from the encoding leave what the object had.\<close>

definition rc_fresh :: "udap_rc \<Rightarrow> bool" where
  "rc_fresh rc \<longleftrightarrow> rc_addrs rc = None \<and> rc_exits rc = None"

lemma emits_opt_entry:
  assumes "\<And>l. x = Some l \<Longrightarrow> emits (enc l) (f l)"
  shows "emits (case x of None \<Rightarrow> \<lambda>b. Some (True, b)
      | Some l \<Rightarrow> wseq [bencode_write_bytestring (lit [c]), enc l])
    (case x of None \<Rightarrow> [] | Some l \<Rightarrow> bstr (lit [c]) @ f l)"
proof (cases x)
  case None
  then show ?thesis by (auto intro: exact_emits exact_Nil)
next
  case (Some l)
  have "emits (bencode_write_bytestring (lit [c])) (bstr (lit [c]))"
    by (intro exact_emits exact_bytestring) simp
  then show ?thesis using Some emits_wthen assms by fastforce
qed

lemma emits_rc [write_rules]:
  assumes io: "inet_ok ntop pton" and v: "rc_valid uninit rc"
  shows "emits (udap_rc_bencode ntop rc) (rc_bytes ntop rc)"
proof -
  have lists: "rc_addrs rc = Some l \<Longrightarrow> emits (udap_ai_list_bencode ntop l) (ai_list_bytes ntop l)"
    "rc_exits rc = Some m \<Longrightarrow> emits (udap_xi_list_bencode ntop m) (xi_list_bytes ntop m)" for l m
    using v emits_ai_list [OF io] emits_xi_list [OF io] by (auto simp: rc_valid_def)
  have "emits (udap_rc_bencode ntop rc) (concat [lit ''d'',
      (case rc_addrs rc of None \<Rightarrow> [] | Some l \<Rightarrow> bstr (lit ''a'') @ ai_list_bytes ntop l),
      bstr (lit ''k''), bstr (rc_pubkey rc), bstr (lit ''p''), bstr (rc_enckey rc),
      bstr (lit ''u''), bint (sint (rc_last_updated rc)), bstr (lit ''v'') @ bint 0,
      (case rc_exits rc of None \<Rightarrow> [] | Some l \<Rightarrow> bstr (lit ''x'') @ xi_list_bytes ntop l),
      bstr (lit ''z''), bstr (rc_signature rc), lit ''e''])"
    unfolding udap_rc_bencode_def
    by (intro wseq_emits list.rel_intros emits_opt_entry lists exact_emits write_rules)
      (use v in \<open>auto simp: rc_valid_def size_defs\<close>)
  then show ?thesis by (simp add: rc_bytes_def)
qed

lemma rc_key_strings:
  "holds k (lit ''k'') \<Longrightarrow> length t = PUBKEYSIZE \<Longrightarrow>
     reads (udap_rc_decode_dict pton uninit (Some k)) s (bstr t) (s\<lparr>rc_pubkey := t\<rparr>)"
  "holds k (lit ''p'') \<Longrightarrow> length t = PUBKEYSIZE \<Longrightarrow>
     reads (udap_rc_decode_dict pton uninit (Some k)) s (bstr t) (s\<lparr>rc_enckey := t\<rparr>)"
  "holds k (lit ''z'') \<Longrightarrow> length t = SIGSIZE \<Longrightarrow>
     reads (udap_rc_decode_dict pton uninit (Some k)) s (bstr t) (s\<lparr>rc_signature := t\<rparr>)"
  by (auto simp: udap_rc_decode_dict_def [abs_def] if_key_holds size_defs holds_sz
      copy_from_holds intro!: reads_if_string)

lemma rc_key_ints:
  "holds k (lit ''u'') \<Longrightarrow> i \<noteq> -1 \<Longrightarrow>
     reads (udap_rc_decode_dict pton uninit (Some k)) s (bint (sint i)) (s\<lparr>rc_last_updated := i\<rparr>)"
  "holds k (lit ''v'') \<Longrightarrow> reads (udap_rc_decode_dict pton uninit (Some k)) s (bint 0) s"
  by (auto simp: udap_rc_decode_dict_def [abs_def] if_key_holds UDAP_PROTO_VERSION_def
      intro!: reads_into reads_integer reads_if_integer_0)

lemma rc_key_lists:
  assumes "inet_ok ntop pton"
  shows "holds k (lit ''a'') \<Longrightarrow> list_all (ai_valid uninit) l \<Longrightarrow>
     reads (udap_rc_decode_dict pton uninit (Some k)) s (ai_list_bytes ntop l) (s\<lparr>rc_addrs := Some l\<rparr>)"
  and "holds k (lit ''x'') \<Longrightarrow> list_all xi_valid m \<Longrightarrow>
     reads (udap_rc_decode_dict pton uninit (Some k)) s (xi_list_bytes ntop m) (s\<lparr>rc_exits := Some m\<rparr>)"
  using reads_ai_list [OF assms, of uninit l "[]"] reads_xi_list [OF assms, of m "[]"]
  by (auto simp: udap_rc_decode_dict_def [abs_def] if_key_holds udap_ai_list_new_def
      udap_xi_list_new_def intro!: reads_into)

lemmas rc_keys = rc_key_strings rc_key_ints rc_key_lists

lemma dict_run_opt:
  assumes "x = None \<longrightarrow> s1 = s" and "\<And>l k. x = Some l \<Longrightarrow> holds k key \<Longrightarrow> reads (on_key (Some k)) s (f l) s1"
    and "length key < 10 ^ 9" "dict_run on_key s1 bs s2"
  shows "dict_run on_key s ((case x of None \<Rightarrow> [] | Some l \<Rightarrow> bstr key @ f l) @ bs) s2"
proof (cases x)
  case None
  with assms show ?thesis by simp
next
  case (Some l)
  with assms show ?thesis using dict_cons [of key on_key s "f l" s1 bs s2] by auto
qed

lemma reads_rc [read_rules]:
  assumes io: "inet_ok ntop pton" and v: "rc_valid uninit rc" and fresh: "rc_fresh s"
  shows "reads (udap_rc_bdecode pton uninit) s (rc_bytes ntop rc) rc"
proof -
  let ?s1 = "s\<lparr>rc_addrs := rc_addrs rc\<rparr>"
  let ?s2 = "?s1\<lparr>rc_pubkey := rc_pubkey rc, rc_enckey := rc_enckey rc,
    rc_last_updated := rc_last_updated rc\<rparr>"
  let ?s3 = "?s2\<lparr>rc_exits := rc_exits rc\<rparr>"
  have z: "dict_run (udap_rc_decode_dict pton uninit) ?s3
      (bstr (lit ''z'') @ bstr (rc_signature rc) @ []) (?s3\<lparr>rc_signature := rc_signature rc\<rparr>)"
    using v by (intro dict_run.intros allI impI) (auto simp: rc_valid_def intro: rc_keys dict_nil)
  have x: "dict_run (udap_rc_decode_dict pton uninit) ?s2
      ((case rc_exits rc of None \<Rightarrow> [] | Some l \<Rightarrow> bstr (lit ''x'') @ xi_list_bytes ntop l) @
       bstr (lit ''z'') @ bstr (rc_signature rc) @ []) (?s3\<lparr>rc_signature := rc_signature rc\<rparr>)"
    using v fresh rc_key_lists(2) [OF io]
    by (intro dict_run_opt [OF _ _ _ z]) (auto simp: rc_valid_def rc_fresh_def)
  have k: "dict_run (udap_rc_decode_dict pton uninit) ?s1
      (bstr (lit ''k'') @ bstr (rc_pubkey rc) @ bstr (lit ''p'') @ bstr (rc_enckey rc) @
       bstr (lit ''u'') @ bint (sint (rc_last_updated rc)) @ bstr (lit ''v'') @ bint 0 @
       (case rc_exits rc of None \<Rightarrow> [] | Some l \<Rightarrow> bstr (lit ''x'') @ xi_list_bytes ntop l) @
       bstr (lit ''z'') @ bstr (rc_signature rc) @ []) (?s3\<lparr>rc_signature := rc_signature rc\<rparr>)"
    using v x by (intro dict_run.dict_cons allI impI) (auto simp: rc_valid_def intro: rc_keys)
  have "dict_run (udap_rc_decode_dict pton uninit) s
      ((case rc_addrs rc of None \<Rightarrow> [] | Some l \<Rightarrow> bstr (lit ''a'') @ ai_list_bytes ntop l) @
       bstr (lit ''k'') @ bstr (rc_pubkey rc) @ bstr (lit ''p'') @ bstr (rc_enckey rc) @
       bstr (lit ''u'') @ bint (sint (rc_last_updated rc)) @ bstr (lit ''v'') @ bint 0 @
       (case rc_exits rc of None \<Rightarrow> [] | Some l \<Rightarrow> bstr (lit ''x'') @ xi_list_bytes ntop l) @
       bstr (lit ''z'') @ bstr (rc_signature rc) @ []) (?s3\<lparr>rc_signature := rc_signature rc\<rparr>)"
    using v fresh rc_key_lists(1) [OF io]
    by (intro dict_run_opt [OF _ _ _ k]) (auto simp: rc_valid_def rc_fresh_def)
  moreover have "?s3\<lparr>rc_signature := rc_signature rc\<rparr> = rc" by simp
  ultimately show ?thesis
    unfolding udap_rc_bdecode_def
    by (intro reads_dict_eq) (auto simp: rc_bytes_def udap_rc_decode_dict_def)
qed

interpretation rc: dict_callback "udap_rc_decode_dict pton uninit" 3 for pton uninit
proof
  fix k :: udap_buffer_t assume "buf_wf k" "b_cur k = b_base k"
  then show "rsafe 3 (udap_rc_decode_dict pton uninit (Some k))"
    unfolding udap_rc_decode_dict_def [abs_def] option.case
    by (intro safe_rules rsafe_mono [OF rsafe_read_integer])
      (auto dest: rsafe_string_bodies split: option.split)
qed (auto simp: udap_rc_decode_dict_def overread_def)

lemma rsafe_rc [safe_rules]: "rsafe 4 (udap_rc_bdecode pton uninit)"
  unfolding udap_rc_bdecode_def using rc.read_dict_safe by (simp add: eval_nat_numeral)

section \<open>Properties\<close>

lemma rc_codec:
  "inet_ok ntop pton \<Longrightarrow>
   codec (udap_rc_bencode ntop) (udap_rc_bdecode pton uninit) (rc_bytes ntop)
     (\<lambda>s rc. rc_fresh s \<and> rc_valid uninit rc)"
  by unfold_locales (auto intro: emits_rc reads_rc)

lemma fresh_zero: "rc_fresh rc_zero"
  by (simp add: rc_fresh_def rc_zero_def)

lemma fresh_clear: "rc_fresh (udap_rc_clear rc)"
  by (simp add: udap_rc_clear_def fresh_zero)

text \<open>What libsodium documents of detached signatures, for one key pair.\<close>

definition signs :: "signer \<Rightarrow> verifier \<Rightarrow> byte list \<Rightarrow> byte list \<Rightarrow> bool" where
  "signs sign verify seckey pubkey \<longleftrightarrow>
     (\<forall>m. length (sign seckey m) = SIGSIZE \<and> verify pubkey m (sign seckey m))"

text \<open>
  Concrete instances: the text of an address is its hex text, so that \<open>inet_ok\<close> holds, and a
  contact with one address and one exit.
\<close>

declare option.pred_inject [code]

definition hex_ntop :: ntop where
  "hex_ntop ip = Some (HexEncode ip)"

lemma length_HexEncode: "length (HexEncode v) = 2 * length v"
  by (induction v) (auto simp: HexEncode_def)

lemma inet_ok_hex: "inet_ok hex_ntop HexDecode"
proof -
  have "0 \<notin> set (HexEncode ip)" for ip
    using hex_digit_inverse(2) [OF byte_div_mod(1)] hex_digit_inverse(2) [OF byte_div_mod(2)]
    by (induction ip) (auto simp: HexEncode_def dest: sym)
  then show ?thesis by (auto simp: inet_ok_def hex_ntop_def HexDecode_HexEncode length_HexEncode)
qed

definition example_ai :: udap_ai where
  "example_ai = \<lparr>ai_rank = 2, ai_dialect = lit ''iwp'' @ [0, 0, 0], ai_enc_key = replicate 32 7,
     ai_ip = replicate 16 1, ai_port = 1090\<rparr>"

definition example_rc :: udap_rc where
  "example_rc = \<lparr>rc_addrs = Some [example_ai], rc_enckey = replicate 32 3,
     rc_pubkey = replicate 32 4, rc_exits = Some [xi_zero], rc_signature = replicate 64 5,
     rc_last_updated = 1530000000\<rparr>"

definition uninit_ai :: udap_ai where
  "uninit_ai = \<lparr>ai_rank = 0, ai_dialect = replicate 6 0, ai_enc_key = replicate 32 0,
     ai_ip = replicate 16 0, ai_port = 0\<rparr>"

lemma example_rc_valid: "rc_valid uninit_ai example_rc"
  by code_simp

lemma example_rc_fits: "length (rc_bytes hex_ntop example_rc) < MAX_RC_SIZE"
proof -
  have "length (bint (sint (1530000000 :: u64))) \<le> 22"
    using length_fmt_ld [of 1530000000] by (simp add: bint_def fmt_ld_def)
  moreover have "length (ai_bytes hex_ntop example_ai) < 200" "length (xi_bytes hex_ntop xi_zero) < 200"
    by code_simp+
  ultimately show ?thesis
    by (simp add: rc_bytes_def example_rc_def ai_list_bytes_def xi_list_bytes_def bstr_def
        dec_nat.simps bint_def dec_int_def MAX_RC_SIZE_def)
qed

text \<open>
  C27. A router contact that is encoded into a buffer with room for it and decoded into a
  cleared object comes back unchanged, with every address and exit; the decoder consumes
  exactly what the encoder wrote.
\<close>

theorem rc_roundtrip:
  assumes "inet_ok ntop pton" "rc_valid uninit rc" "rc_fresh s"
    and "buf_wf b" "b_cur b = b_base b" "length (rc_bytes ntop rc) < b_sz b"
  shows "\<exists>b' b''. udap_rc_bencode ntop rc b = Some (True, b') \<and>
    udap_rc_bdecode pton uninit s (rewind b') = Some (True, rc, b'') \<and> udap_buffer_size_left b'' = 0"
  using codec.roundtrip [OF rc_codec [OF assms(1)], of s uninit rc b] assms by blast

theorem rc_roundtrip_witness:
  "\<exists>b' b''. udap_rc_bencode hex_ntop example_rc (StackBuffer (replicate 1024 0)) = Some (True, b') \<and>
    udap_rc_bdecode HexDecode uninit_ai (udap_rc_clear example_rc) (rewind b') =
      Some (True, example_rc, b'') \<and> udap_buffer_size_left b'' = 0"
  by (rule rc_roundtrip [OF inet_ok_hex example_rc_valid fresh_clear wf_StackBuffer])
    (use example_rc_fits in \<open>simp_all add: StackBuffer_def MAX_RC_SIZE_def\<close>)

lemma signed_verifies:
  assumes io: "inet_ok ntop pton" and v: "rc_valid uninit rc"
    and keys: "signs sign verify seckey (rc_pubkey rc)"
    and fits: "length (rc_bytes ntop rc) < MAX_RC_SIZE"
    and st: "length stack = MAX_RC_SIZE" "length stack' = MAX_RC_SIZE"
  obtains sig where "udap_rc_sign ntop sign stack seckey rc = Some (rc\<lparr>rc_signature := sig\<rparr>)"
    "rc_valid uninit (rc\<lparr>rc_signature := sig\<rparr>)"
    "udap_rc_verify_sig ntop verify stack' (rc\<lparr>rc_signature := sig\<rparr>) =
      Some (True, rc\<lparr>rc_signature := sig\<rparr>)"
proof -
  let ?zeroed = "rc\<lparr>rc_signature := replicate SIGSIZE 0\<rparr>"
  let ?signed = "?zeroed\<lparr>rc_signature := sign seckey (rc_bytes ntop ?zeroed)\<rparr>"
  have v0: "rc_valid uninit ?zeroed" using v by (simp add: rc_valid_def)
  have len: "length (rc_bytes ntop ?zeroed) < MAX_RC_SIZE"
    using fits v by (simp add: rc_bytes_def rc_valid_def bstr_def)
  obtain b b' where "udap_rc_bencode ntop ?zeroed (StackBuffer stack) = Some (True, b)"
    "encoded b = rc_bytes ntop ?zeroed"
    "udap_rc_bencode ntop ?zeroed (StackBuffer stack') = Some (True, b')"
    "encoded b' = rc_bytes ntop ?zeroed"
    using emits_stack [OF emits_rc [OF io v0]] len st by metis
  then have "udap_rc_sign ntop sign stack seckey rc = Some ?signed"
    "udap_rc_verify_sig ntop verify stack' ?signed = Some (True, ?signed)"
    using keys by (simp_all add: udap_rc_sign_def udap_rc_verify_sig_def signs_def)
  moreover have "rc_valid uninit ?signed" using v keys by (simp add: rc_valid_def signs_def)
  ultimately show ?thesis using that [of "rc_signature ?signed"] by simp
qed

text \<open>
  \<open>udap_rc_sign\<close> followed by \<open>udap_rc_verify_sig\<close>: a valid contact whose encoding fits in
  \<open>MAX_RC_SIZE\<close>, signed with the secret key of its public key, verifies, whatever the stack arrays
  hold; and verifying leaves the contact as it was, signature included.
\<close>

theorem rc_sign_verify:
  assumes io: "inet_ok ntop pton" and v: "rc_valid uninit rc"
    and keys: "signs sign verify seckey (rc_pubkey rc)"
    and fits: "length (rc_bytes ntop rc) < MAX_RC_SIZE"
    and st: "length stack = MAX_RC_SIZE" "length stack' = MAX_RC_SIZE"
  shows "\<exists>rc'. udap_rc_sign ntop sign stack seckey rc = Some rc' \<and> rc_valid uninit rc' \<and>
    udap_rc_verify_sig ntop verify stack' rc' = Some (True, rc')"
  by (rule signed_verifies [OF assms]) blast

theorem rc_sign_verify_witness:
  "\<exists>rc'. udap_rc_sign hex_ntop (\<lambda>sk m. sk) (replicate 1024 0) (replicate 64 9) example_rc = Some rc' \<and>
    rc_valid uninit_ai rc' \<and>
    udap_rc_verify_sig hex_ntop (\<lambda>pk m s. s = replicate 64 9) (replicate 1024 1) rc' = Some (True, rc')"
  by (rule rc_sign_verify [OF inet_ok_hex example_rc_valid _ example_rc_fits])
    (simp_all add: signs_def size_defs MAX_RC_SIZE_def)

lemma rc_file_read:
  assumes io: "inet_ok ntop pton" and v: "rc_valid uninit rc"
    and fits: "length (rc_bytes ntop rc) < MAX_RC_SIZE" and st: "length stack = MAX_RC_SIZE"
  shows "udap_rc_read pton uninit stack garbage (Some (rc_bytes ntop rc)) = Some (Some rc)"
proof -
  let ?file = "rc_bytes ntop rc"
  have st': "mem_store stack 0 ?file = Some (?file @ drop (length ?file) stack)"
    using fits st by (simp add: mem_store_def)
  have "ahead ?file (StackBuffer (?file @ drop (length ?file) stack))"
    using fits st by (simp add: ahead_def StackBuffer_def)
  from readsD [OF reads_rc [OF io v fresh_clear] this] show ?thesis
    using fits st st' by (simp add: udap_rc_read_def)
qed

text \<open>
  A contact that \<open>udap_rc_write\<close> stores in a file is what \<open>udap_rc_read\<close> returns for it,
  although the reader decodes a buffer that is longer than the file.
\<close>

theorem rc_write_read:
  assumes io: "inet_ok ntop pton" and v: "rc_valid uninit rc"
    and fits: "length (rc_bytes ntop rc) < MAX_RC_SIZE"
    and st: "length stack = MAX_RC_SIZE" "length stack' = MAX_RC_SIZE"
  shows "\<exists>file. udap_rc_write ntop stack True rc = Some (True, Some file) \<and>
    udap_rc_read pton uninit stack' garbage (Some file) = Some (Some rc)"
proof -
  obtain b where b: "udap_rc_bencode ntop rc (StackBuffer stack) = Some (True, b)"
    "encoded b = rc_bytes ntop rc"
    using emits_stack [OF emits_rc [OF io v]] fits st by metis
  with rc_file_read [OF io v fits st(2)] have "udap_rc_read pton uninit stack' garbage (Some (encoded b)) = Some (Some rc)"
    by simp
  with b show ?thesis by (simp add: udap_rc_write_def)
qed

theorem rc_write_read_witness:
  "\<exists>file. udap_rc_write hex_ntop (replicate 1024 0) True example_rc = Some (True, Some file) \<and>
    udap_rc_read HexDecode uninit_ai (replicate 1024 1) (udap_rc_clear example_rc) (Some file) =
      Some (Some example_rc)"
  by (rule rc_write_read [OF inet_ok_hex example_rc_valid example_rc_fits]) (simp_all add: MAX_RC_SIZE_def)

lemma copy_is_source: "udap_rc_copy dst src = src"
  by (cases "rc_addrs src"; cases "rc_exits src")
    (simp_all add: udap_rc_copy_def udap_rc_clear_def rc_zero_def list_copy_eq xi_list_copy_eq)

end
