(* ===== verification/Link_Messages.thy ===== *)
theory Link_Messages
  imports Router_Contact
begin

text \<open>
  The link-layer messages: \<open>link_intro.cpp\<close> and \<open>link/encoder.hpp\<close> (introductions),
  \<open>messages/discard.hpp\<close>, \<open>relay_up_down.cpp\<close> (relayed traffic), \<open>relay_commit.cpp\<close> (path
  building), \<open>relay_ack.cpp\<close> and \<open>proofofwork.cpp\<close>: their members, encoders and decoders.
\<close>

section \<open>Introductions\<close>

record LinkIntroMessage =
  lim_remote :: "byte list"
  lim_version :: u64
  lim_RC :: "udap_rc option"

text \<open>The contact is decoded in place; without a contact to decode into this is undefined.\<close>

definition LinkIntroMessage_DecodeKey ::
  "pton \<Rightarrow> udap_ai \<Rightarrow> udap_buffer_t \<Rightarrow> LinkIntroMessage act" where
  "LinkIntroMessage_DecodeKey pton uninit key msg buf =
     if_key key ''r''
       (case lim_RC msg of
          None \<Rightarrow> None
        | Some RC \<Rightarrow> do {
            (ok, RC, buf) \<leftarrow> udap_rc_bdecode pton uninit RC buf;
            (let msg = msg\<lparr>lim_RC := Some RC\<rparr> in
             if \<not> ok then Some (False, msg, buf)
             else Some (True, msg\<lparr>lim_remote := rc_pubkey RC\<rparr>, buf))
          })
      (if_key key ''v''
         (read_version lim_version (\<lambda>v. lim_version_update (\<lambda>_. v)) msg buf)
         (Some (False, msg, buf)))"

definition LinkIntroMessage_BEncode :: "ntop \<Rightarrow> LinkIntroMessage \<Rightarrow> writer" where
  "LinkIntroMessage_BEncode ntop msg =
     wseq [bencode_start_dict,
       bencode_write_bytestring (lit ''a''),
       bencode_write_bytestring (lit ''i''),
       (case lim_RC msg of
          None \<Rightarrow> (\<lambda>b. Some (True, b))
        | Some RC \<Rightarrow> wseq [bencode_write_bytestring (lit ''r''), udap_rc_bencode ntop RC]),
       bencode_write_version_entry,
       bencode_end]"

definition EncodeLIM :: "ntop \<Rightarrow> udap_rc option \<Rightarrow> writer" where
  "EncodeLIM ntop router =
     wseq [bencode_start_dict,
       bencode_write_bytestring (lit ''a''),
       bencode_write_bytestring (lit ''i''),
       (case router of
          None \<Rightarrow> (\<lambda>b. Some (True, b))
        | Some RC \<Rightarrow> wseq [bencode_write_bytestring (lit ''r''), udap_rc_bencode ntop RC]),
       bencode_write_version_entry,
       bencode_end]"

section \<open>Discarded traffic\<close>

definition MAX_DISCARD_SIZE :: nat where
  "MAX_DISCARD_SIZE = 10000"

text \<open>\<open>dm_pad\<close> is the used part of the array \<open>pad\<close>, its first \<open>sz\<close> bytes.\<close>

record DiscardMessage =
  dm_remote :: "byte list"
  dm_version :: u64
  dm_pad :: "byte list"

definition DiscardMessage_DecodeKey :: "udap_buffer_t \<Rightarrow> DiscardMessage act" where
  "DiscardMessage_DecodeKey key msg buf =
     if_key key ''v''
       (read_version dm_version (\<lambda>v. dm_version_update (\<lambda>_. v)) msg buf)
      (if_key key ''z''
         (if_string (\<lambda>strbuf msg buf.
            if b_sz strbuf > MAX_DISCARD_SIZE then Some (False, msg, buf)
            else do {
              d \<leftarrow> copy_from strbuf (b_sz strbuf);
              Some (True, msg\<lparr>dm_pad := d\<rparr>, buf)
            }) msg buf)
         (Some (False, msg, buf)))"

definition DiscardMessage_BEncode :: "DiscardMessage \<Rightarrow> writer" where
  "DiscardMessage_BEncode msg =
     wseq [bencode_start_dict,
       bencode_write_bytestring (lit ''a''),
       bencode_write_bytestring (lit ''z''),
       bencode_write_version_entry,
       bencode_write_bytestring (lit ''z''),
       bencode_write_bytestring (dm_pad msg),
       bencode_end]"

section \<open>Relayed traffic\<close>

text \<open>\<open>RelayUpstreamMessage\<close> and \<open>RelayDownstreamMessage\<close> have the same members.\<close>

record RelayMessage =
  rm_remote :: "byte list"
  rm_version :: u64
  rm_pathid :: "byte list"
  rm_X :: "byte list"
  rm_Y :: "byte list"

definition RelayUpstreamMessage_BEncode :: "RelayMessage \<Rightarrow> writer" where
  "RelayUpstreamMessage_BEncode msg =
     wseq [bencode_start_dict,
       BEncodeWriteDictMsgType ''a'' ''u'',
       BEncodeWriteDictEntry ''p'' (AlignedBuffer_BEncode (rm_pathid msg)),
       BEncodeWriteDictInt ''v'' UDAP_PROTO_VERSION,
       BEncodeWriteDictEntry ''x'' (Encrypted_BEncode (rm_X msg)),
       BEncodeWriteDictEntry ''y'' (AlignedBuffer_BEncode (rm_Y msg)),
       bencode_end]"

definition RelayUpstreamMessage_DecodeKey :: "udap_buffer_t \<Rightarrow> RelayMessage act" where
  "RelayUpstreamMessage_DecodeKey key = decode_fields
     [field rm_pathid (\<lambda>x. rm_pathid_update (\<lambda>_. x))
        (BEncodeMaybeReadDictEntry ''p'' (AlignedBuffer_BDecode PATHIDSIZE) key),
      field rm_version (\<lambda>x. rm_version_update (\<lambda>_. x))
        (BEncodeMaybeReadVersion ''v'' UDAP_PROTO_VERSION key),
      field rm_X (\<lambda>x. rm_X_update (\<lambda>_. x)) (BEncodeMaybeReadDictEntry ''x'' Encrypted_BDecode key),
      field rm_Y (\<lambda>x. rm_Y_update (\<lambda>_. x))
        (BEncodeMaybeReadDictEntry ''y'' (AlignedBuffer_BDecode TUNNONCESIZE) key)]"

definition RelayDownstreamMessage_BEncode :: "RelayMessage \<Rightarrow> writer" where
  "RelayDownstreamMessage_BEncode msg =
     wseq [bencode_start_dict,
       BEncodeWriteDictMsgType ''a'' ''d'',
       BEncodeWriteDictEntry ''p'' (AlignedBuffer_BEncode (rm_pathid msg)),
       BEncodeWriteDictInt ''v'' UDAP_PROTO_VERSION,
       BEncodeWriteDictEntry ''x'' (Encrypted_BEncode (rm_X msg)),
       BEncodeWriteDictEntry ''y'' (AlignedBuffer_BEncode (rm_Y msg)),
       bencode_end]"

definition RelayDownstreamMessage_DecodeKey :: "udap_buffer_t \<Rightarrow> RelayMessage act" where
  "RelayDownstreamMessage_DecodeKey key = decode_fields
     [field rm_pathid (\<lambda>x. rm_pathid_update (\<lambda>_. x))
        (BEncodeMaybeReadDictEntry ''p'' (AlignedBuffer_BDecode PATHIDSIZE) key),
      field rm_version (\<lambda>x. rm_version_update (\<lambda>_. x))
        (BEncodeMaybeReadVersion ''v'' UDAP_PROTO_VERSION key),
      field rm_X (\<lambda>x. rm_X_update (\<lambda>_. x)) (BEncodeMaybeReadDictEntry ''x'' Encrypted_BDecode key),
      field rm_Y (\<lambda>x. rm_Y_update (\<lambda>_. x))
        (BEncodeMaybeReadDictEntry ''y'' (AlignedBuffer_BDecode TUNNONCESIZE) key)]"

section \<open>Path building\<close>

text \<open>An \<open>EncryptedFrame\<close> is an \<open>Encrypted\<close> of at least \<open>OverheadSize\<close> bytes, 256 more by default.\<close>

definition OverheadSize :: nat where
  "OverheadSize = PUBKEYSIZE + TUNNONCESIZE + SHORTHASHSIZE"

definition EncryptedFrame_new :: "nat \<Rightarrow> byte list" where
  "EncryptedFrame_new sz = replicate (sz + PUBKEYSIZE + TUNNONCESIZE + SHORTHASHSIZE) 0"

record LR_CommitMessage =
  lrcm_remote :: "byte list"
  lrcm_version :: u64
  lrcm_frames :: "byte list list"

definition LR_CommitMessage_DecodeKey :: "udap_buffer_t \<Rightarrow> LR_CommitMessage act" where
  "LR_CommitMessage_DecodeKey key msg buf =
     if_key key ''c''
       (into lrcm_frames (\<lambda>l. lrcm_frames_update (\<lambda>_. l))
          (BEncodeReadList (EncryptedFrame_new 256) Encrypted_BDecode) msg buf)
       (decode_fields [field lrcm_version (\<lambda>x. lrcm_version_update (\<lambda>_. x))
          (BEncodeMaybeReadVersion ''v'' UDAP_PROTO_VERSION key)] msg buf)"

definition LR_CommitMessage_BEncode :: "LR_CommitMessage \<Rightarrow> writer" where
  "LR_CommitMessage_BEncode msg =
     wseq [bencode_start_dict,
       BEncodeWriteDictMsgType ''a'' ''c'',
       BEncodeWriteDictList ''c'' (map Encrypted_BEncode (lrcm_frames msg)),
       bencode_write_version_entry,
       bencode_end]"

text \<open>A proof of work cannot be encoded or decoded yet: both functions only return false.\<close>

record PoW =
  pow_router :: "byte list"
  pow_version :: u64
  pow_extendedLifetime :: u32
  pow_nonce :: "byte list"

definition PoW_BDecode :: "PoW act" where
  "PoW_BDecode w buf = Some (False, w, buf)"

definition PoW_BEncode :: "PoW \<Rightarrow> writer" where
  "PoW_BEncode w buf = Some (False, buf)"

text \<open>
  \<open>hash\<close> is the short hash and \<open>required x\<close> the value of \<open>std::floor(std::log(x))\<close>, at most 22 for an
  argument of 32 bits.
\<close>

definition PoW_IsValid ::
  "(byte list \<Rightarrow> byte list option) \<Rightarrow> (u32 \<Rightarrow> nat) \<Rightarrow> byte list \<Rightarrow> byte list \<Rightarrow> PoW \<Rightarrow> bool option" where
  "PoW_IsValid hash required stack us w =
     (if \<not> AlignedBuffer_eq (pow_router w) us then Some False
      else do {
        (ok, buf) \<leftarrow> PoW_BEncode w (StackBuffer stack);
        if \<not> ok then Some False
        else (case hash (encoded buf) of
                None \<Rightarrow> Some False
              | Some digest \<Rightarrow>
                  Some (list_all (\<lambda>d. d = 0) (take (required (pow_extendedLifetime w)) digest)))
      })"

definition PoW_eq :: "PoW \<Rightarrow> PoW \<Rightarrow> bool" where
  "PoW_eq a b \<longleftrightarrow> AlignedBuffer_eq (pow_router a) (pow_router b) \<and> pow_version a = pow_version b \<and>
     pow_extendedLifetime a = pow_extendedLifetime b \<and> AlignedBuffer_eq (pow_nonce a) (pow_nonce b)"

record LR_CommitRecord =
  cr_commkey :: "byte list"
  cr_nextHop :: "byte list"
  cr_tunnelNonce :: "byte list"
  cr_txid :: "byte list"
  cr_rxid :: "byte list"
  cr_work :: "PoW option"
  cr_version :: u64

definition LR_CommitRecord_BEncode :: "LR_CommitRecord \<Rightarrow> writer" where
  "LR_CommitRecord_BEncode r =
     wseq [bencode_start_dict,
       BEncodeWriteDictEntry ''c'' (AlignedBuffer_BEncode (cr_commkey r)),
       BEncodeWriteDictEntry ''i'' (AlignedBuffer_BEncode (cr_nextHop r)),
       BEncodeWriteDictEntry ''n'' (AlignedBuffer_BEncode (cr_tunnelNonce r)),
       BEncodeWriteDictEntry ''r'' (AlignedBuffer_BEncode (cr_rxid r)),
       BEncodeWriteDictEntry ''t'' (AlignedBuffer_BEncode (cr_txid r)),
       bencode_write_version_entry,
       (case cr_work r of
          None \<Rightarrow> (\<lambda>b. Some (True, b))
        | Some w \<Rightarrow> BEncodeWriteDictEntry ''w'' (PoW_BEncode w)),
       bencode_end]"

text \<open>\<open>fresh\<close> is a new proof of work object.\<close>

definition LR_CommitRecord_OnKey :: "PoW \<Rightarrow> udap_buffer_t option \<Rightarrow> LR_CommitRecord act" where
  "LR_CommitRecord_OnKey fresh key r buf =
     (case key of
        None \<Rightarrow> Some (True, r, buf)
      | Some key \<Rightarrow> do {
          (ok, (r, rd), buf) \<leftarrow> run_fields
            [field cr_commkey (\<lambda>x. cr_commkey_update (\<lambda>_. x))
               (BEncodeMaybeReadDictEntry ''c'' (AlignedBuffer_BDecode PUBKEYSIZE) key),
             field cr_nextHop (\<lambda>x. cr_nextHop_update (\<lambda>_. x))
               (BEncodeMaybeReadDictEntry ''i'' (AlignedBuffer_BDecode 32) key),
             field cr_tunnelNonce (\<lambda>x. cr_tunnelNonce_update (\<lambda>_. x))
               (BEncodeMaybeReadDictEntry ''n'' (AlignedBuffer_BDecode TUNNONCESIZE) key),
             field cr_rxid (\<lambda>x. cr_rxid_update (\<lambda>_. x))
               (BEncodeMaybeReadDictEntry ''r'' (AlignedBuffer_BDecode PATHIDSIZE) key),
             field cr_txid (\<lambda>x. cr_txid_update (\<lambda>_. x))
               (BEncodeMaybeReadDictEntry ''t'' (AlignedBuffer_BDecode PATHIDSIZE) key),
             field cr_version (\<lambda>x. cr_version_update (\<lambda>_. x))
               (BEncodeMaybeReadVersion ''v'' UDAP_PROTO_VERSION key)] (r, False) buf;
          if \<not> ok then Some (False, r, buf)
          else if_key key ''w''
            (case cr_work r of
               Some w \<Rightarrow> Some (False, r, buf)
             | None \<Rightarrow> do {
                 (ok, w, buf) \<leftarrow> PoW_BDecode fresh buf;
                 Some (ok, r\<lparr>cr_work := Some w\<rparr>, buf)
               })
            (Some (rd, r, buf))
        })"

definition LR_CommitRecord_BDecode :: "PoW \<Rightarrow> LR_CommitRecord act" where
  "LR_CommitRecord_BDecode fresh = bencode_read_dict (LR_CommitRecord_OnKey fresh)"

definition LR_CommitRecord_eq :: "LR_CommitRecord \<Rightarrow> LR_CommitRecord \<Rightarrow> bool" where
  "LR_CommitRecord_eq a b \<longleftrightarrow>
     (case (cr_work a, cr_work b) of (Some v, Some w) \<Rightarrow> PoW_eq v w | _ \<Rightarrow> True) \<and>
     AlignedBuffer_eq (cr_nextHop a) (cr_nextHop b) \<and> AlignedBuffer_eq (cr_commkey a) (cr_commkey b) \<and>
     AlignedBuffer_eq (cr_txid a) (cr_txid b) \<and> AlignedBuffer_eq (cr_rxid a) (cr_rxid b)"

text \<open>Acknowledgements are not implemented: their encoder and decoder only return false.\<close>

record LR_AckMessage =
  lram_remote :: "byte list"
  lram_version :: u64
  lram_replies :: "byte list list"

definition LR_AckMessage_BEncode :: "LR_AckMessage \<Rightarrow> writer" where
  "LR_AckMessage_BEncode msg buf = Some (False, buf)"

definition LR_AckMessage_DecodeKey :: "udap_buffer_t \<Rightarrow> LR_AckMessage act" where
  "LR_AckMessage_DecodeKey key msg buf = Some (False, msg, buf)"

section \<open>Wire format\<close>

definition lim_entries :: "ntop \<Rightarrow> LinkIntroMessage \<Rightarrow> byte list" where
  "lim_entries ntop msg =
     (case lim_RC msg of None \<Rightarrow> [] | Some RC \<Rightarrow> bstr (lit ''r'') @ rc_bytes ntop RC) @
     bstr (lit ''v'') @ bint 0"

definition dm_entries :: "DiscardMessage \<Rightarrow> byte list" where
  "dm_entries msg = bstr (lit ''v'') @ bint 0 @ bstr (lit ''z'') @ bstr (dm_pad msg)"

definition rm_entries :: "RelayMessage \<Rightarrow> byte list" where
  "rm_entries msg = bstr (lit ''p'') @ bstr (rm_pathid msg) @ bstr (lit ''v'') @ bint 0 @
     bstr (lit ''x'') @ bstr (rm_X msg) @ bstr (lit ''y'') @ bstr (rm_Y msg)"

definition rm_valid :: "RelayMessage \<Rightarrow> bool" where
  "rm_valid msg \<longleftrightarrow> length (rm_pathid msg) = PATHIDSIZE \<and> rm_X msg \<noteq> [] \<and> length (rm_X msg) < 10 ^ 9 \<and>
     length (rm_Y msg) = TUNNONCESIZE \<and> rm_version msg = 0"

definition lrcm_entries :: "LR_CommitMessage \<Rightarrow> byte list" where
  "lrcm_entries msg = bstr (lit ''c'') @ 108 # concat (map bstr (lrcm_frames msg)) @ [101] @
     bstr (lit ''v'') @ bint 0"

definition lrcm_valid :: "LR_CommitMessage \<Rightarrow> bool" where
  "lrcm_valid msg \<longleftrightarrow> list_all (\<lambda>f. f \<noteq> [] \<and> length f < 10 ^ 9) (lrcm_frames msg) \<and> lrcm_version msg = 0"

text \<open>A message is a dictionary whose first entry is its type.\<close>

definition msg_bytes :: "char \<Rightarrow> char \<Rightarrow> byte list \<Rightarrow> byte list" where
  "msg_bytes a t entries = 100 # (bstr (lit [a]) @ bstr (lit [t]) @ entries) @ [101]"

definition cr_bytes :: "LR_CommitRecord \<Rightarrow> byte list" where
  "cr_bytes r = 100 # (bstr (lit ''c'') @ bstr (cr_commkey r) @ bstr (lit ''i'') @ bstr (cr_nextHop r) @
     bstr (lit ''n'') @ bstr (cr_tunnelNonce r) @ bstr (lit ''r'') @ bstr (cr_rxid r) @
     bstr (lit ''t'') @ bstr (cr_txid r) @ bstr (lit ''v'') @ bint 0) @ [101]"

definition cr_valid :: "LR_CommitRecord \<Rightarrow> bool" where
  "cr_valid r \<longleftrightarrow> length (cr_commkey r) = PUBKEYSIZE \<and> length (cr_nextHop r) = 32 \<and>
     length (cr_tunnelNonce r) = TUNNONCESIZE \<and> length (cr_rxid r) = PATHIDSIZE \<and>
     length (cr_txid r) = PATHIDSIZE \<and> cr_work r = None \<and> cr_version r = 0"

section \<open>Encoders\<close>

lemma emits_lim [write_rules]:
  assumes "inet_ok ntop pton" "pred_option (rc_valid uninit) (lim_RC msg)"
  shows "emits (LinkIntroMessage_BEncode ntop msg) (msg_bytes CHR ''a'' CHR ''i'' (lim_entries ntop msg))"
proof -
  have "emits (LinkIntroMessage_BEncode ntop msg) (concat [lit ''d'', bstr (lit ''a''), bstr (lit ''i''),
      (case lim_RC msg of None \<Rightarrow> [] | Some RC \<Rightarrow> bstr (lit ''r'') @ rc_bytes ntop RC),
      bstr (lit ''v'') @ bint 0, lit ''e''])"
    unfolding LinkIntroMessage_BEncode_def
    by (intro wseq_emits list.rel_intros emits_opt_entry exact_emits write_rules)
      (use assms in \<open>auto intro: emits_rc\<close>)
  then show ?thesis by (simp add: msg_bytes_def lim_entries_def)
qed

lemma EncodeLIM_eq: "EncodeLIM ntop (lim_RC msg) = LinkIntroMessage_BEncode ntop msg"
  by (simp add: EncodeLIM_def LinkIntroMessage_BEncode_def)

lemma exact_dm [write_rules]:
  assumes "length (dm_pad msg) \<le> MAX_DISCARD_SIZE"
  shows "exact (DiscardMessage_BEncode msg) (msg_bytes CHR ''a'' CHR ''z'' (dm_entries msg))"
proof -
  have "exact (DiscardMessage_BEncode msg) (concat [lit ''d'', bstr (lit ''a''), bstr (lit ''z''),
      bstr (lit ''v'') @ bint 0, bstr (lit ''z''), bstr (dm_pad msg), lit ''e''])"
    unfolding DiscardMessage_BEncode_def
    by (intro wseq_exact list.rel_intros write_rules)
      (use assms in \<open>auto simp: MAX_DISCARD_SIZE_def\<close>)
  then show ?thesis by (simp add: msg_bytes_def dm_entries_def)
qed

lemma exact_relay [write_rules]:
  assumes "rm_valid msg"
  shows "exact (RelayUpstreamMessage_BEncode msg) (msg_bytes CHR ''a'' CHR ''u'' (rm_entries msg))"
    and "exact (RelayDownstreamMessage_BEncode msg) (msg_bytes CHR ''a'' CHR ''d'' (rm_entries msg))"
proof -
  have "exact (RelayUpstreamMessage_BEncode msg) (concat [lit ''d'', bstr (lit ''a'') @ bstr (lit ''u''),
      bstr (lit ''p'') @ bstr (rm_pathid msg), bstr (lit ''v'') @ bint (sint UDAP_PROTO_VERSION),
      bstr (lit ''x'') @ bstr (rm_X msg), bstr (lit ''y'') @ bstr (rm_Y msg), lit ''e''])"
    unfolding RelayUpstreamMessage_BEncode_def
    by (intro wseq_exact list.rel_intros write_rules) (use assms in \<open>auto simp: rm_valid_def size_defs\<close>)
  then show "exact (RelayUpstreamMessage_BEncode msg) (msg_bytes CHR ''a'' CHR ''u'' (rm_entries msg))"
    by (simp add: msg_bytes_def rm_entries_def UDAP_PROTO_VERSION_def)
  have "exact (RelayDownstreamMessage_BEncode msg) (concat [lit ''d'', bstr (lit ''a'') @ bstr (lit ''d''),
      bstr (lit ''p'') @ bstr (rm_pathid msg), bstr (lit ''v'') @ bint (sint UDAP_PROTO_VERSION),
      bstr (lit ''x'') @ bstr (rm_X msg), bstr (lit ''y'') @ bstr (rm_Y msg), lit ''e''])"
    unfolding RelayDownstreamMessage_BEncode_def
    by (intro wseq_exact list.rel_intros write_rules) (use assms in \<open>auto simp: rm_valid_def size_defs\<close>)
  then show "exact (RelayDownstreamMessage_BEncode msg) (msg_bytes CHR ''a'' CHR ''d'' (rm_entries msg))"
    by (simp add: msg_bytes_def rm_entries_def UDAP_PROTO_VERSION_def)
qed

lemma emits_lrcm [write_rules]:
  assumes "lrcm_valid msg"
  shows "emits (LR_CommitMessage_BEncode msg) (msg_bytes CHR ''a'' CHR ''c'' (lrcm_entries msg))"
proof -
  have "emits (LR_CommitMessage_BEncode msg) (concat [lit ''d'', bstr (lit ''a'') @ bstr (lit ''c''),
      bstr (lit ''c'') @ 108 # concat (map bstr (lrcm_frames msg)) @ [101],
      bstr (lit ''v'') @ bint 0, lit ''e''])"
    unfolding LR_CommitMessage_BEncode_def
    by (intro wseq_emits list.rel_intros emits_dict_list exact_emits write_rules)
      (use assms in \<open>auto simp: lrcm_valid_def list_all_iff\<close>)
  then show ?thesis by (simp add: msg_bytes_def lrcm_entries_def)
qed

lemma exact_cr [write_rules]:
  assumes "cr_valid r" shows "exact (LR_CommitRecord_BEncode r) (cr_bytes r)"
proof -
  from assms have work: "cr_work r = None" by (simp add: cr_valid_def)
  have "exact (LR_CommitRecord_BEncode r) (concat [lit ''d'', bstr (lit ''c'') @ bstr (cr_commkey r),
      bstr (lit ''i'') @ bstr (cr_nextHop r), bstr (lit ''n'') @ bstr (cr_tunnelNonce r),
      bstr (lit ''r'') @ bstr (cr_rxid r), bstr (lit ''t'') @ bstr (cr_txid r),
      bstr (lit ''v'') @ bint 0, [], lit ''e''])"
    unfolding LR_CommitRecord_BEncode_def work option.case
    by (intro wseq_exact list.rel_intros write_rules) (use assms in \<open>auto simp: cr_valid_def size_defs\<close>)
  then show ?thesis by (simp add: cr_bytes_def)
qed

section \<open>Decoders on well-formed input\<close>

lemma lim_keys:
  assumes "inet_ok ntop pton"
  shows "holds k (lit ''r'') \<Longrightarrow> rc_valid uninit rc \<Longrightarrow> lim_RC m = Some rc0 \<Longrightarrow> rc_fresh rc0 \<Longrightarrow>
      reads (LinkIntroMessage_DecodeKey pton uninit k) m (rc_bytes ntop rc)
        (m\<lparr>lim_RC := Some rc, lim_remote := rc_pubkey rc\<rparr>)"
    and "holds k (lit ''v'') \<Longrightarrow>
      reads (LinkIntroMessage_DecodeKey pton uninit k) m (bint 0) (m\<lparr>lim_version := 0\<rparr>)"
proof -
  show "reads (LinkIntroMessage_DecodeKey pton uninit k) m (rc_bytes ntop rc)
        (m\<lparr>lim_RC := Some rc, lim_remote := rc_pubkey rc\<rparr>)"
    if "holds k (lit ''r'')" "rc_valid uninit rc" "lim_RC m = Some rc0" "rc_fresh rc0"
    using that reads_rc [OF assms] by (auto simp: reads_def LinkIntroMessage_DecodeKey_def if_key_holds)
  show "reads (LinkIntroMessage_DecodeKey pton uninit k) m (bint 0) (m\<lparr>lim_version := 0\<rparr>)"
    if "holds k (lit ''v'')"
    using that by (auto simp: LinkIntroMessage_DecodeKey_def [abs_def] if_key_holds intro!: reads_read_version)
qed

lemma lim_run:
  assumes "inet_ok ntop pton" "rc_valid uninit rc" "lim_RC m = Some rc0" "rc_fresh rc0"
  shows "dict_run (keys (LinkIntroMessage_DecodeKey pton uninit)) m
    (lim_entries ntop (m\<lparr>lim_RC := Some rc\<rparr>))
    (m\<lparr>lim_RC := Some rc, lim_remote := rc_pubkey rc, lim_version := 0\<rparr>)"
proof -
  have "dict_run (keys (LinkIntroMessage_DecodeKey pton uninit)) m
    (bstr (lit ''r'') @ rc_bytes ntop rc @ bstr (lit ''v'') @ bint 0)
    (m\<lparr>lim_RC := Some rc, lim_remote := rc_pubkey rc, lim_version := 0\<rparr>)"
    using assms lim_keys [OF assms(1)]
    by (intro dict_cons dict_run_single allI impI) (auto simp del: lit_Cons lit_Nil)
  then show ?thesis by (simp add: lim_entries_def)
qed

lemma dm_keys:
  "holds k (lit ''v'') \<Longrightarrow> reads (DiscardMessage_DecodeKey k) m (bint 0) (m\<lparr>dm_version := 0\<rparr>)"
  "holds k (lit ''z'') \<Longrightarrow> length d \<le> MAX_DISCARD_SIZE \<Longrightarrow>
     reads (DiscardMessage_DecodeKey k) m (bstr d) (m\<lparr>dm_pad := d\<rparr>)"
  by (auto simp: DiscardMessage_DecodeKey_def [abs_def] if_key_holds holds_sz
      copy_from_holds MAX_DISCARD_SIZE_def intro!: reads_if_string reads_read_version)

lemma dm_run:
  assumes "length (dm_pad msg) \<le> MAX_DISCARD_SIZE"
  shows "dict_run (keys DiscardMessage_DecodeKey) m (dm_entries msg)
    (m\<lparr>dm_version := 0, dm_pad := dm_pad msg\<rparr>)"
  unfolding dm_entries_def
  using assms dm_keys by (intro dict_cons dict_run_single allI impI) (auto simp del: lit_Cons lit_Nil)

lemma relay_keys:
  "holds k (lit ''p'') \<Longrightarrow> length v = PATHIDSIZE \<Longrightarrow>
     reads (RelayUpstreamMessage_DecodeKey k) m (bstr v) (m\<lparr>rm_pathid := v\<rparr>)"
  "holds k (lit ''v'') \<Longrightarrow> reads (RelayUpstreamMessage_DecodeKey k) m (bint 0) (m\<lparr>rm_version := 0\<rparr>)"
  "holds k (lit ''x'') \<Longrightarrow> v \<noteq> [] \<Longrightarrow> length v < 10 ^ 9 \<Longrightarrow>
     reads (RelayUpstreamMessage_DecodeKey k) m (bstr v) (m\<lparr>rm_X := v\<rparr>)"
  "holds k (lit ''y'') \<Longrightarrow> length v = TUNNONCESIZE \<Longrightarrow>
     reads (RelayUpstreamMessage_DecodeKey k) m (bstr v) (m\<lparr>rm_Y := v\<rparr>)"
  using reads_aligned [of v PATHIDSIZE] reads_aligned [of v TUNNONCESIZE] reads_encrypted [of v] reads_zero
  by (auto simp: reads_def RelayUpstreamMessage_DecodeKey_def fields_simps UDAP_PROTO_VERSION_def size_defs)

lemma relay_decode_eq: "RelayDownstreamMessage_DecodeKey = RelayUpstreamMessage_DecodeKey"
  by (rule ext) (simp add: RelayDownstreamMessage_DecodeKey_def RelayUpstreamMessage_DecodeKey_def)

lemma relay_run:
  assumes "rm_valid msg"
  shows "dict_run (keys RelayUpstreamMessage_DecodeKey) m (rm_entries msg)
    (m\<lparr>rm_pathid := rm_pathid msg, rm_version := 0, rm_X := rm_X msg, rm_Y := rm_Y msg\<rparr>)"
  unfolding rm_entries_def
  using assms relay_keys
  by (intro dict_cons dict_run_single allI impI) (auto simp: rm_valid_def simp del: lit_Cons lit_Nil)

lemma lrcm_keys:
  "holds k (lit ''c'') \<Longrightarrow> list_all (\<lambda>f. f \<noteq> [] \<and> length f < 10 ^ 9) fs \<Longrightarrow>
     reads (LR_CommitMessage_DecodeKey k) m (108 # concat (map bstr fs) @ [101])
       (m\<lparr>lrcm_frames := lrcm_frames m @ fs\<rparr>)"
  "holds k (lit ''v'') \<Longrightarrow> reads (LR_CommitMessage_DecodeKey k) m (bint 0) (m\<lparr>lrcm_version := 0\<rparr>)"
proof -
  assume k: "holds k (lit ''c'')" and fs: "list_all (\<lambda>f. f \<noteq> [] \<and> length f < 10 ^ 9) fs"
  have "reads (BEncodeReadList (EncryptedFrame_new 256) Encrypted_BDecode) (lrcm_frames m)
      (108 # concat (map bstr fs) @ [101]) (lrcm_frames m @ fs)"
    using fs bstr_head by (intro reads_items) (auto simp: list_all_iff intro: reads_encrypted)
  then show "reads (LR_CommitMessage_DecodeKey k) m (108 # concat (map bstr fs) @ [101])
       (m\<lparr>lrcm_frames := lrcm_frames m @ fs\<rparr>)"
    using k by (auto simp: LR_CommitMessage_DecodeKey_def [abs_def] if_key_holds intro!: reads_into)
next
  assume "holds k (lit ''v'')"
  then show "reads (LR_CommitMessage_DecodeKey k) m (bint 0) (m\<lparr>lrcm_version := 0\<rparr>)"
    using reads_zero by (auto simp: reads_def LR_CommitMessage_DecodeKey_def fields_simps if_key_holds
        UDAP_PROTO_VERSION_def)
qed

lemma lrcm_run:
  assumes "lrcm_valid msg"
  shows "dict_run (keys LR_CommitMessage_DecodeKey) m (lrcm_entries msg)
    (m\<lparr>lrcm_frames := lrcm_frames m @ lrcm_frames msg, lrcm_version := 0\<rparr>)"
proof -
  have "dict_run (keys LR_CommitMessage_DecodeKey) m
    (bstr (lit ''c'') @ (108 # concat (map bstr (lrcm_frames msg)) @ [101]) @ bstr (lit ''v'') @ bint 0)
    (m\<lparr>lrcm_frames := lrcm_frames m @ lrcm_frames msg, lrcm_version := 0\<rparr>)"
    using assms lrcm_keys
    by (intro dict_cons dict_run_single allI impI) (auto simp: lrcm_valid_def simp del: lit_Cons lit_Nil)
  then show ?thesis by (simp add: lrcm_entries_def)
qed

lemma cr_keys:
  "holds k (lit ''c'') \<Longrightarrow> length v = PUBKEYSIZE \<Longrightarrow>
     reads (LR_CommitRecord_OnKey fresh (Some k)) r (bstr v) (r\<lparr>cr_commkey := v\<rparr>)"
  "holds k (lit ''i'') \<Longrightarrow> length v = 32 \<Longrightarrow>
     reads (LR_CommitRecord_OnKey fresh (Some k)) r (bstr v) (r\<lparr>cr_nextHop := v\<rparr>)"
  "holds k (lit ''n'') \<Longrightarrow> length v = TUNNONCESIZE \<Longrightarrow>
     reads (LR_CommitRecord_OnKey fresh (Some k)) r (bstr v) (r\<lparr>cr_tunnelNonce := v\<rparr>)"
  "holds k (lit ''r'') \<Longrightarrow> length v = PATHIDSIZE \<Longrightarrow>
     reads (LR_CommitRecord_OnKey fresh (Some k)) r (bstr v) (r\<lparr>cr_rxid := v\<rparr>)"
  "holds k (lit ''t'') \<Longrightarrow> length v = PATHIDSIZE \<Longrightarrow>
     reads (LR_CommitRecord_OnKey fresh (Some k)) r (bstr v) (r\<lparr>cr_txid := v\<rparr>)"
  "holds k (lit ''v'') \<Longrightarrow> reads (LR_CommitRecord_OnKey fresh (Some k)) r (bint 0) (r\<lparr>cr_version := 0\<rparr>)"
  using reads_aligned [of v PATHIDSIZE] reads_aligned [of v 32] reads_zero
  by (auto simp: reads_def LR_CommitRecord_OnKey_def fields_simps if_key_holds
      UDAP_PROTO_VERSION_def size_defs)

lemma reads_cr [read_rules]:
  assumes v: "cr_valid r" and s: "cr_work s = None"
  shows "reads (LR_CommitRecord_BDecode fresh) s (cr_bytes r) r"
proof -
  have "dict_run (LR_CommitRecord_OnKey fresh) s (bstr (lit ''c'') @ bstr (cr_commkey r) @
      bstr (lit ''i'') @ bstr (cr_nextHop r) @
      bstr (lit ''n'') @ bstr (cr_tunnelNonce r) @ bstr (lit ''r'') @ bstr (cr_rxid r) @
      bstr (lit ''t'') @ bstr (cr_txid r) @ bstr (lit ''v'') @ bint 0)
    (s\<lparr>cr_commkey := cr_commkey r, cr_nextHop := cr_nextHop r, cr_tunnelNonce := cr_tunnelNonce r,
       cr_rxid := cr_rxid r, cr_txid := cr_txid r, cr_version := 0\<rparr>)"
    using v cr_keys
    by (intro dict_cons dict_run_single allI impI) (auto simp: cr_valid_def simp del: lit_Cons lit_Nil)
  moreover have "s\<lparr>cr_commkey := cr_commkey r, cr_nextHop := cr_nextHop r,
      cr_tunnelNonce := cr_tunnelNonce r, cr_rxid := cr_rxid r, cr_txid := cr_txid r, cr_version := 0\<rparr> = r"
    using v s by (cases r; cases s) (simp add: cr_valid_def)
  ultimately show ?thesis
    unfolding LR_CommitRecord_BDecode_def cr_bytes_def
    by (intro reads_dict) (simp_all add: LR_CommitRecord_OnKey_def)
qed

interpretation commit_record: codec LR_CommitRecord_BEncode "LR_CommitRecord_BDecode fresh" cr_bytes
    "\<lambda>s r. cr_valid r \<and> cr_work s = None" for fresh
  by unfold_locales (auto intro: exact_emits exact_cr reads_cr)

end
