(* ===== verification/Crypto.thy ===== *)
theory Crypto
  imports Link_Messages
begin

text \<open>
  \<open>udap/crypto_libsodium.cpp\<close>, \<open>udap/mem.cpp\<close> and \<open>udap/encrypted_frame.cpp\<close>: the primitives the
  router builds from libsodium and the encrypted frames of a path build. libsodium is a
  parameter: a record of the functions the source calls, each with its C return code and the
  bytes it leaves in the output. What the code relies on is \<open>sodium_ok\<close> (the stream cipher is its
  own inverse, hashes succeed and have the requested size) and \<open>dh_agree\<close> (the two ends of
  a Curve25519 exchange compute the same point).
\<close>

section \<open>libsodium\<close>

record sodium =
  scalarmult_curve25519 :: "byte list \<Rightarrow> byte list \<Rightarrow> int \<times> byte list"
  generichash :: "nat \<Rightarrow> byte list \<Rightarrow> byte list \<Rightarrow> int \<times> byte list"
  stream_xchacha20_xor :: "byte list \<Rightarrow> byte list \<Rightarrow> byte list \<Rightarrow> int \<times> byte list"
  sign_detached :: "byte list \<Rightarrow> byte list \<Rightarrow> int \<times> byte list"
  sign_verify_detached :: "byte list \<Rightarrow> byte list \<Rightarrow> byte list \<Rightarrow> int"

definition sodium_ok :: "sodium \<Rightarrow> bool" where
  "sodium_ok S \<longleftrightarrow>
     (\<forall>m n k. length n = 24 \<longrightarrow> length k = 32 \<longrightarrow>
        (\<exists>c. stream_xchacha20_xor S m n k = (0, c) \<and> length c = length m \<and>
          stream_xchacha20_xor S c n k = (0, m))) \<and>
     (\<forall>out m k. out \<in> {32, 64} \<longrightarrow> length k \<in> {0, 32} \<longrightarrow>
        (\<exists>h. generichash S out m k = (0, h) \<and> length h = out))"

section \<open>Primitives\<close>

text \<open>A secret key is the 32-byte scalar followed by its public key.\<close>

definition seckey_topublic :: "byte list \<Rightarrow> byte list" where
  "seckey_topublic sec = drop 32 sec"

text \<open>
  An output array is passed with its old contents, which a failing function leaves in
  place. Arguments are pointers: a callee reads the prefix it needs.
\<close>

definition sodium_xchacha20 ::
  "sodium \<Rightarrow> byte list \<Rightarrow> byte list \<Rightarrow> byte list \<Rightarrow> bool \<times> byte list" where
  "sodium_xchacha20 S buff k n =
     (let (rc, c) = stream_xchacha20_xor S buff (take 24 n) (take 32 k) in (rc = 0, c))"

definition sodium_dh ::
  "sodium \<Rightarrow> byte list \<Rightarrow> byte list \<Rightarrow> byte list \<Rightarrow> byte list \<Rightarrow> byte list \<Rightarrow> bool \<times> byte list" where
  "sodium_dh S out client_pk server_pk themPub usSec =
     (let (rc, shared) = scalarmult_curve25519 S (take 32 usSec) (take 32 themPub) in
      if rc \<noteq> 0 then (False, out)
      else (True, snd (generichash S 32
              (take 32 client_pk @ take 32 server_pk @ take 32 shared) [])))"

definition sodium_dh_client ::
  "sodium \<Rightarrow> byte list \<Rightarrow> byte list \<Rightarrow> byte list \<Rightarrow> byte list \<Rightarrow> bool \<times> byte list" where
  "sodium_dh_client S shared pk sk n =
     (let (ok, dh_result) = sodium_dh S [] (seckey_topublic sk) pk pk sk in
      if ok then (let (rc, h) = generichash S 32 (take 32 n) (take 32 dh_result) in (rc \<noteq> -1, h))
      else (False, shared))"

definition sodium_dh_server ::
  "sodium \<Rightarrow> byte list \<Rightarrow> byte list \<Rightarrow> byte list \<Rightarrow> byte list \<Rightarrow> bool \<times> byte list" where
  "sodium_dh_server S shared pk sk n =
     (let (ok, dh_result) = sodium_dh S [] pk (seckey_topublic sk) pk sk in
      if ok then (let (rc, h) = generichash S 32 (take 32 n) (take 32 dh_result) in (rc \<noteq> -1, h))
      else (False, shared))"

definition sodium_hash :: "sodium \<Rightarrow> byte list \<Rightarrow> bool \<times> byte list" where
  "sodium_hash S buff = (let (rc, h) = generichash S 64 buff [] in (rc \<noteq> -1, h))"

definition sodium_shorthash :: "sodium \<Rightarrow> byte list \<Rightarrow> bool \<times> byte list" where
  "sodium_shorthash S buff = (let (rc, h) = generichash S SHORTHASHSIZE buff [] in (rc \<noteq> -1, h))"

definition sodium_hmac :: "sodium \<Rightarrow> byte list \<Rightarrow> byte list \<Rightarrow> bool \<times> byte list" where
  "sodium_hmac S buff secret =
     (let (rc, h) = generichash S 32 buff (take 32 secret) in (rc \<noteq> -1, h))"

definition sodium_sign :: "sodium \<Rightarrow> byte list \<Rightarrow> byte list \<Rightarrow> bool \<times> byte list" where
  "sodium_sign S secret buff = (let (rc, sig) = sign_detached S buff secret in (rc \<noteq> -1, sig))"

definition sodium_verify :: "sodium \<Rightarrow> byte list \<Rightarrow> byte list \<Rightarrow> byte list \<Rightarrow> bool" where
  "sodium_verify S pub buff sig \<longleftrightarrow> sign_verify_detached S sig buff pub \<noteq> -1"

text \<open>The constant-time comparison: from the last byte to the first, without an early exit.\<close>

fun udap_eq_from :: "byte list \<Rightarrow> byte list \<Rightarrow> nat \<Rightarrow> bool \<Rightarrow> bool" where
  "udap_eq_from a b 0 result = result"
| "udap_eq_from a b (Suc sz) result = udap_eq_from a b sz (result \<and> a ! sz = b ! sz)"

definition udap_eq :: "byte list \<Rightarrow> byte list \<Rightarrow> nat \<Rightarrow> bool" where
  "udap_eq a b sz = udap_eq_from a b sz True"

section \<open>Operations on a part of a memory region\<close>

text \<open>Subtraction of \<open>size_t\<close>, which wraps around.\<close>

definition size_sub :: "nat \<Rightarrow> nat \<Rightarrow> nat" where
  "size_sub a b = unat (of_nat a - of_nat b :: u64)"

text \<open>
  A \<open>udap_buffer_t\<close> whose base points into the region \<open>mem\<close> at offset \<open>off\<close>: the cipher works in
  place, the keyed hash reads it. Reaching beyond the region is \<open>None\<close>.
\<close>

definition xchacha20_at ::
  "sodium \<Rightarrow> byte list \<Rightarrow> nat \<Rightarrow> nat \<Rightarrow> byte list \<Rightarrow> byte list \<Rightarrow> (bool \<times> byte list) option" where
  "xchacha20_at S mem off sz key nonce = do {
     m \<leftarrow> mem_load mem off sz;
     let (ok, c) = sodium_xchacha20 S m key nonce;
     mem \<leftarrow> mem_store mem off c;
     Some (ok, mem)
   }"

definition hmac_at ::
  "sodium \<Rightarrow> byte list \<Rightarrow> nat \<Rightarrow> nat \<Rightarrow> byte list \<Rightarrow> (bool \<times> byte list) option" where
  "hmac_at S mem off sz secret = do {
     m \<leftarrow> mem_load mem off sz;
     Some (sodium_hmac S m secret)
   }"

section \<open>Encrypted frames\<close>

text \<open>
  A frame is \<open>hash (32) nonce (32) pubkey (32) body\<close>. \<open>rand\<close> is what \<open>randbytes\<close> draws
  for the nonce, \<open>stack\<close> the uninitialised \<open>SharedSecret\<close>.
\<close>

definition EncryptInPlace ::
  "sodium \<Rightarrow> byte list \<Rightarrow> byte list \<Rightarrow> byte list \<Rightarrow> byte list \<Rightarrow> byte list \<Rightarrow>
    (bool \<times> byte list) option" where
  "EncryptInPlace S rand stack ourSecretKey otherPubkey frame = do {
     let sz = length frame;
     frame \<leftarrow> mem_store frame 64 (take PUBKEYSIZE (seckey_topublic ourSecretKey));
     frame \<leftarrow> mem_store frame 32 rand;
     nonce \<leftarrow> mem_load frame 32 TUNNONCESIZE;
     let (ok, shared) = sodium_dh_client S stack otherPubkey ourSecretKey nonce;
     if \<not> ok then Some (False, frame)
     else do {
       (ok, frame) \<leftarrow> xchacha20_at S frame 96 (size_sub sz OverheadSize) shared nonce;
       if \<not> ok then Some (False, frame)
       else do {
         (ok, digest) \<leftarrow> hmac_at S frame 32 (size_sub sz SHORTHASHSIZE) shared;
         frame \<leftarrow> mem_store frame 0 digest;
         Some (ok, frame)
       }
     }
   }"

definition DecryptInPlace ::
  "sodium \<Rightarrow> byte list \<Rightarrow> byte list \<Rightarrow> byte list \<Rightarrow> (bool \<times> byte list) option" where
  "DecryptInPlace S stack ourSecretKey frame =
     (if length frame \<le> OverheadSize then Some (False, frame)
      else do {
        hash \<leftarrow> mem_load frame 0 SHORTHASHSIZE;
        nonce \<leftarrow> mem_load frame 32 TUNNONCESIZE;
        otherPubkey \<leftarrow> mem_load frame 64 PUBKEYSIZE;
        let (ok, shared) = sodium_dh_server S stack otherPubkey ourSecretKey nonce;
        if \<not> ok then Some (False, frame)
        else do {
          (ok, digest) \<leftarrow> hmac_at S frame 32 (size_sub (length frame) SHORTHASHSIZE) shared;
          if \<not> ok then Some (False, frame)
          else if memcmp digest hash \<noteq> 0 then Some (False, frame)
          else xchacha20_at S frame 96 (size_sub (length frame) OverheadSize) shared nonce
        }
      })"

section \<open>Memory layouts\<close>

lemma mem_load_at:
  "p = length a \<Longrightarrow> n = length b \<Longrightarrow> mem_load (a @ b @ c) p n = Some b"
  by (simp add: mem_load_def)

lemma mem_load_at_end: "p = length a \<Longrightarrow> n = length b \<Longrightarrow> mem_load (a @ b) p n = Some b"
  by (simp add: mem_load_def)

lemma mem_store_at:
  "p = length a \<Longrightarrow> length b' = length b \<Longrightarrow> mem_store (a @ b @ c) p b' = Some (a @ b' @ c)"
  by (simp add: mem_store_def)

lemma mem_store_at_end:
  "p = length a \<Longrightarrow> length b' = length b \<Longrightarrow> mem_store (a @ b) p b' = Some (a @ b')"
  by (simp add: mem_store_def)

lemma mem_store_head: "length b' = length b \<Longrightarrow> mem_store (b @ c) 0 b' = Some (b' @ c)"
  by (simp add: mem_store_def)

lemma unat_of_nat_u64: "a < 2 ^ 64 \<Longrightarrow> unat (of_nat a :: u64) = a"
  by (simp add: unat_of_nat take_bit_nat_eq_self)

lemma size_sub_le: "b \<le> a \<Longrightarrow> a < 2 ^ 64 \<Longrightarrow> size_sub a b = a - b"
  by (simp add: size_sub_def unat_sub_if' unat_of_nat_u64 word_le_nat_alt)

lemma size_sub_wrap: "a < b \<Longrightarrow> b < 2 ^ 64 \<Longrightarrow> size_sub a b = 2 ^ 64 + a - b"
  by (simp add: size_sub_def unat_sub_if' unat_of_nat_u64 word_le_nat_alt)

lemma mem_load_wrapped:
  assumes "a < b" "b < 2 ^ 32" "length mem < 2 ^ 63"
  shows "mem_load mem off (size_sub a b) = None"
  using assms by (simp add: mem_load_def size_sub_wrap)

lemma udap_eq_from_iff: "udap_eq_from a b n r \<longleftrightarrow> r \<and> (\<forall>i < n. a ! i = b ! i)"
  by (induction n arbitrary: r) (auto simp: less_Suc_eq)

lemma udap_eq_iff:
  "n \<le> length a \<Longrightarrow> n \<le> length b \<Longrightarrow> udap_eq a b n \<longleftrightarrow> take n a = take n b"
  by (auto simp: udap_eq_def udap_eq_from_iff list_eq_iff_nth_eq)

section \<open>The laws of the primitives\<close>

lemma sodium_cipher:
  assumes "sodium_ok S" "length n = 24" "length k = 32"
  shows "\<exists>c. stream_xchacha20_xor S m n k = (0, c) \<and> length c = length m \<and>
    stream_xchacha20_xor S c n k = (0, m)"
  using assms(2-) by (rule assms(1) [unfolded sodium_ok_def, THEN conjunct1, rule_format])

lemma sodium_generichash:
  assumes "sodium_ok S" "out \<in> {32, 64}" "length k \<in> {0, 32}"
  shows "\<exists>h. generichash S out m k = (0, h) \<and> length h = out"
  using assms(2-) by (rule assms(1) [unfolded sodium_ok_def, THEN conjunct2, rule_format])

lemma xchacha20_ok:
  assumes "sodium_ok S" "24 \<le> length n" "length k = 32"
  shows "\<exists>c. sodium_xchacha20 S m k n = (True, c) \<and> length c = length m \<and>
    sodium_xchacha20 S c k n = (True, m)"
  using sodium_cipher [OF assms(1), of "take 24 n" k m] assms(2-)
  by (auto simp: sodium_xchacha20_def)

lemma hmac_ok:
  assumes "sodium_ok S" "length k = 32"
  shows "\<exists>h. sodium_hmac S m k = (True, h) \<and> length h = 32"
  using sodium_generichash [OF assms(1), of 32 k m] assms(2) by (auto simp: sodium_hmac_def)

lemma shorthash_ok:
  assumes "sodium_ok S" shows "\<exists>h. sodium_shorthash S m = (True, h) \<and> length h = 32"
  using sodium_generichash [OF assms, of 32 "[]" m]
  by (auto simp: sodium_shorthash_def size_defs)

text \<open>The two ends of the exchange, each with the other's public key, reach the same point.\<close>

definition dh_agree :: "sodium \<Rightarrow> byte list \<Rightarrow> byte list \<Rightarrow> bool" where
  "dh_agree S a b \<longleftrightarrow> length a = SECKEYSIZE \<and> length b = SECKEYSIZE \<and>
     (\<exists>p. scalarmult_curve25519 S (take 32 a) (drop 32 b) = (0, p) \<and>
          scalarmult_curve25519 S (take 32 b) (drop 32 a) = (0, p))"

text \<open>
  What the clients of the key exchange rely on: both directions succeed on a pair of keys and
  give the same key of 32 bytes, whatever the output arrays held.
\<close>

locale key_exchange =
  fixes client server :: "byte list \<Rightarrow> byte list \<Rightarrow> byte list \<Rightarrow> byte list \<Rightarrow> bool \<times> byte list"
    and pairs :: "byte list \<Rightarrow> byte list \<Rightarrow> bool"
  assumes pair_sizes: "pairs a b \<Longrightarrow> length a = 64 \<and> length b = 64"
    and agree: "pairs a b \<Longrightarrow> 32 \<le> length n \<Longrightarrow>
      \<exists>k. length k = 32 \<and> (\<forall>s. client s (seckey_topublic b) a n = (True, k)) \<and>
          (\<forall>s. server s (seckey_topublic a) b n = (True, k))"
begin

definition shared :: "byte list \<Rightarrow> byte list \<Rightarrow> byte list \<Rightarrow> byte list" where
  "shared a b n = snd (client [] (seckey_topublic b) a n)"

lemma shared_props:
  assumes "pairs a b" "32 \<le> length n"
  shows "length (shared a b n) = 32" "client s (seckey_topublic b) a n = (True, shared a b n)"
    "server s (seckey_topublic a) b n = (True, shared a b n)"
  using agree [OF assms] by (auto simp: shared_def)

end

lemma dh_both:
  assumes "sodium_ok S" "dh_agree S a b"
  shows "\<exists>r. length r = 32 \<and>
    (\<forall>s. sodium_dh S s (seckey_topublic a) (seckey_topublic b) (seckey_topublic b) a = (True, r)) \<and>
    (\<forall>s. sodium_dh S s (seckey_topublic a) (seckey_topublic b) (seckey_topublic a) b = (True, r))"
proof -
  from assms(2) obtain p where p: "scalarmult_curve25519 S (take 32 a) (drop 32 b) = (0, p)"
      "scalarmult_curve25519 S (take 32 b) (drop 32 a) = (0, p)"
    and l: "length a = 64" "length b = 64"
    by (auto simp: dh_agree_def size_defs)
  let ?m = "drop 32 a @ drop 32 b @ take 32 p"
  have "\<exists>h. generichash S 32 ?m [] = (0, h) \<and> length h = 32"
    by (rule sodium_generichash [OF assms(1)]) simp_all
  then show ?thesis
    using p l by (auto simp: sodium_dh_def seckey_topublic_def)
qed

interpretation dh: key_exchange "sodium_dh_client S" "sodium_dh_server S"
    "\<lambda>a b. sodium_ok S \<and> dh_agree S a b" for S
proof unfold_locales
  fix a b n :: "byte list"
  assume ab: "sodium_ok S \<and> dh_agree S a b" and n: "32 \<le> length n"
  from ab obtain r where r: "length r = 32"
      "\<And>s. sodium_dh S s (seckey_topublic a) (seckey_topublic b) (seckey_topublic b) a = (True, r)"
      "\<And>s. sodium_dh S s (seckey_topublic a) (seckey_topublic b) (seckey_topublic a) b = (True, r)"
    using dh_both by metis
  from ab r(1) obtain h where "generichash S 32 (take 32 n) r = (0, h)" "length h = 32"
    using sodium_generichash [of S 32 r "take 32 n"] by auto
  with r show "\<exists>k. length k = 32 \<and>
      (\<forall>s. sodium_dh_client S s (seckey_topublic b) a n = (True, k)) \<and>
      (\<forall>s. sodium_dh_server S s (seckey_topublic a) b n = (True, k))"
    by (intro exI [of _ h]) (simp add: sodium_dh_client_def sodium_dh_server_def)
qed (simp add: dh_agree_def size_defs)

text \<open>The results of the cipher and of the keyed hash, when they succeed.\<close>

definition enc :: "sodium \<Rightarrow> byte list \<Rightarrow> byte list \<Rightarrow> byte list \<Rightarrow> byte list" where
  "enc S k n m = snd (sodium_xchacha20 S m k n)"

definition mac :: "sodium \<Rightarrow> byte list \<Rightarrow> byte list \<Rightarrow> byte list" where
  "mac S k m = snd (sodium_hmac S m k)"

lemma enc_props:
  assumes "sodium_ok S" "24 \<le> length n" "length k = 32"
  shows "sodium_xchacha20 S m k n = (True, enc S k n m)" "length (enc S k n m) = length m"
    "enc S k n (enc S k n m) = m"
  using xchacha20_ok [OF assms, of m] by (auto simp: enc_def)

lemma mac_props:
  assumes "sodium_ok S" "length k = 32"
  shows "sodium_hmac S m k = (True, mac S k m)" "length (mac S k m) = 32"
  using hmac_ok [OF assms, of m] by (auto simp: mac_def)

lemma xchacha20_at_eq:
  assumes "sodium_ok S" "24 \<le> length n" "length k = 32" "off = length a" "sz = length m"
  shows "xchacha20_at S (a @ m @ b) off sz k n = Some (True, a @ enc S k n m @ b)"
  using assms by (simp add: xchacha20_at_def mem_load_at mem_store_at enc_props)

lemma hmac_at_eq:
  assumes "sodium_ok S" "length k = 32" "off = length a" "sz = length m"
  shows "hmac_at S (a @ m @ b) off sz k = Some (True, mac S k m)"
  using assms by (simp add: hmac_at_def mem_load_at mac_props)

text \<open>The same at the end of the region.\<close>

lemmas xchacha20_at_end = xchacha20_at_eq [where b = "[]", simplified]
lemmas hmac_at_end = hmac_at_eq [where b = "[]", simplified]

lemma dh_server_length:
  assumes "sodium_ok S" "sodium_dh_server S s pk sk n = (True, k)" shows "length k = 32"
proof -
  obtain r where r: "sodium_dh S [] pk (seckey_topublic sk) pk sk = (True, r)"
    and k: "snd (generichash S 32 (take 32 n) (take 32 r)) = k"
    using assms(2) by (auto simp: sodium_dh_server_def Let_def split: if_splits prod.splits)
  from r obtain m where "r = snd (generichash S 32 m [])"
    by (auto simp: sodium_dh_def split: if_splits prod.splits)
  with sodium_generichash [OF assms(1), of 32 "[]" m] have "length r = 32" by auto
  with sodium_generichash [OF assms(1), of 32 r "take 32 n"] k show ?thesis by auto
qed

section \<open>An instance\<close>

text \<open>
  Functions with the documented laws, for examples: the public key is the scalar, the
  exchange and the cipher are exclusive or, a hash repeats the sum of its input.
\<close>

definition example_sodium :: sodium where
  "example_sodium = \<lparr>
     scalarmult_curve25519 = (\<lambda>n p. (0, map2 (\<lambda>x y. xor x y) n p)),
     generichash = (\<lambda>out m k. (0, replicate out (sum_list m + sum_list k))),
     stream_xchacha20_xor = (\<lambda>m n k. (0, map (xor (sum_list k + sum_list n)) m)),
     sign_detached = (\<lambda>m sk. (0, replicate 64 (sum_list m))),
     sign_verify_detached = (\<lambda>sig m pk. if sig = replicate 64 (sum_list m) then 0 else -1)\<rparr>"

definition example_key :: "byte \<Rightarrow> byte list" where
  "example_key x = replicate 64 x"

lemma example_sodium_ok: "sodium_ok example_sodium"
  by (auto simp: sodium_ok_def example_sodium_def comp_def simp flip: xor.assoc)

lemma example_agree: "dh_agree example_sodium (example_key x) (example_key y)"
  by (simp add: dh_agree_def example_sodium_def example_key_def size_defs xor.commute)

section \<open>Frames survive the round trip and are authenticated\<close>

text \<open>The parts of a frame.\<close>

lemma frame_parts:
  assumes "96 \<le> length f"
  obtains h n p body where "f = h @ n @ p @ body" "length h = 32" "length n = 32" "length p = 32"
proof
  show "f = take 32 f @ take 32 (drop 32 f) @ take 32 (drop 64 f) @ drop 96 f"
    using append_take_drop_id [of 32 f] append_take_drop_id [of 32 "drop 32 f"]
      append_take_drop_id [of 32 "drop 64 f"] by simp
qed (use assms in simp_all)

lemma OverheadSize_eq: "OverheadSize = 96"
  by (simp add: OverheadSize_def size_defs)

lemma length_public: "length a = 64 \<Longrightarrow> length (seckey_topublic a) = 32"
  by (simp add: seckey_topublic_def)

lemma EncryptInPlace_eq:
  fixes S a b rand
  defines "k \<equiv> dh.shared S a b rand"
  assumes ok: "sodium_ok S" "dh_agree S a b" and r: "length rand = 32"
    and l: "length h = 32" "length n = 32" "length p = 32" "length body < 2 ^ 63"
  shows "EncryptInPlace S rand stack a (seckey_topublic b) (h @ n @ p @ body) =
    Some (True, mac S k (rand @ seckey_topublic a @ enc S k rand body) @
      rand @ seckey_topublic a @ enc S k rand body)"
proof -
  have ab: "length a = 64" "length b = 64" using dh.pair_sizes [of S a b] ok by simp_all
  note k = dh.shared_props [of S a b rand, folded k_def]
  have k32: "length k = 32" using k(1) ok r by simp
  have pub: "take 32 (seckey_topublic a) = seckey_topublic a" "length (seckey_topublic a) = 32"
    using ab by (simp_all add: seckey_topublic_def)
  have "mem_store (h @ n @ p @ body) 64 (seckey_topublic a) =
      Some (h @ n @ seckey_topublic a @ body)"
    using mem_store_at [of 64 "h @ n" "seckey_topublic a" p body] l pub by simp
  moreover have "mem_store (h @ n @ seckey_topublic a @ body) 32 rand =
      Some (h @ rand @ seckey_topublic a @ body)"
    using l r by (simp add: mem_store_at)
  moreover have "mem_load (h @ rand @ seckey_topublic a @ body) 32 32 = Some rand"
    using l r by (simp add: mem_load_at)
  moreover have "xchacha20_at S (h @ rand @ seckey_topublic a @ body) 96 (length body) k rand =
      Some (True, h @ rand @ seckey_topublic a @ enc S k rand body)"
    using xchacha20_at_end [of S rand k 96 "h @ rand @ seckey_topublic a" "length body" body]
      ok r k32 l pub by simp
  moreover have "hmac_at S (h @ rand @ seckey_topublic a @ enc S k rand body) 32
      (64 + length body) k = Some (True, mac S k (rand @ seckey_topublic a @ enc S k rand body))"
    by (rule hmac_at_end) (simp_all add: enc_props ok r k32 l pub)
  moreover have "mem_store (h @ rand @ seckey_topublic a @ enc S k rand body) 0
      (mac S k (rand @ seckey_topublic a @ enc S k rand body)) =
    Some (mac S k (rand @ seckey_topublic a @ enc S k rand body) @
      rand @ seckey_topublic a @ enc S k rand body)"
    by (rule mem_store_head) (simp add: mac_props ok k32 l)
  ultimately show ?thesis
    using l r k(2) [of stack] ok pub
    by (simp add: EncryptInPlace_def size_defs OverheadSize_eq size_sub_le)
qed

lemma DecryptInPlace_eq:
  assumes ok: "sodium_ok S" and l: "length h = 32" "length n = 32" "length p = 32"
    and body: "body \<noteq> []" "length body < 2 ^ 63"
  shows "DecryptInPlace S stack b (h @ n @ p @ body) =
    (let (dh, k) = sodium_dh_server S stack p b n in
     if dh \<and> mac S k (n @ p @ body) = h then Some (True, h @ n @ p @ enc S k n body)
     else Some (False, h @ n @ p @ body))"
proof (cases "sodium_dh_server S stack p b n")
  case (Pair dh k)
  have loads: "mem_load (h @ n @ p @ body) 0 32 = Some h" "mem_load (h @ n @ p @ body) 32 32 = Some n"
      "mem_load (h @ n @ p @ body) 64 32 = Some p"
    using l by (simp_all add: mem_load_def)
  show ?thesis
  proof (cases dh)
    case True
    then have k: "length k = 32" using dh_server_length [OF ok, of stack p b n k] Pair by simp
    have "hmac_at S (h @ n @ p @ body) 32 (64 + length body) k =
        Some (True, mac S k (n @ p @ body))"
      by (rule hmac_at_end) (simp_all add: ok k l)
    moreover have "xchacha20_at S (h @ n @ p @ body) 96 (length body) k n =
        Some (True, h @ n @ p @ enc S k n body)"
      using xchacha20_at_end [of S n k 96 "h @ n @ p" "length body" body] ok k l by simp
    ultimately show ?thesis
      using loads Pair True l body mac_props(2) [OF ok k]
      by (simp add: DecryptInPlace_def size_defs OverheadSize_eq size_sub_le memcmp_eq_0_iff)
  next
    case False
    then show ?thesis
      using loads Pair l body by (simp add: DecryptInPlace_def size_defs OverheadSize_eq)
  qed
qed

lemma sealed_opens:
  assumes ok: "sodium_ok S" "dh_agree S a b" and r: "length rand = TUNNONCESIZE"
    and l: "OverheadSize < length frame" "length frame < 2 ^ 63"
  shows "\<exists>sealed opened. EncryptInPlace S rand stack a (seckey_topublic b) frame = Some (True, sealed) \<and>
    length sealed = length frame \<and> take 32 (drop 64 sealed) = seckey_topublic a \<and>
    DecryptInPlace S stack' b sealed = Some (True, opened) \<and>
    drop OverheadSize opened = drop OverheadSize frame"
proof -
  have "96 \<le> length frame" using l by (simp add: OverheadSize_eq)
  then obtain h n p body where f: "frame = h @ n @ p @ body"
    and hnp: "length h = 32" "length n = 32" "length p = 32"
    by (rule frame_parts)
  have body: "body \<noteq> []" "length body < 2 ^ 63" using l f hnp by (auto simp: OverheadSize_eq)
  let ?k = "dh.shared S a b rand"
  have r32: "length rand = 32" and ab: "length a = 64"
    using r dh.pair_sizes [of S a b] ok by (simp_all add: size_defs)
  note k = dh.shared_props [of S a b rand]
  have e: "length (enc S ?k rand body) = length body" "enc S ?k rand (enc S ?k rand body) = body"
    using enc_props [OF ok(1), of rand ?k body] k(1) ok r32 by simp_all
  have "DecryptInPlace S stack' b (mac S ?k (rand @ seckey_topublic a @ enc S ?k rand body) @
      rand @ seckey_topublic a @ enc S ?k rand body) =
    Some (True, mac S ?k (rand @ seckey_topublic a @ enc S ?k rand body) @
      rand @ seckey_topublic a @ body)"
    by (subst DecryptInPlace_eq)
      (use e body r32 ok k ab in \<open>auto simp: mac_props length_public\<close>)
  with EncryptInPlace_eq [OF ok r32 hnp body(2), of stack] show ?thesis
    using e body r32 ok k(1) ab hnp by (simp add: f OverheadSize_eq mac_props length_public)
qed

text \<open>
  C34. \<open>EncryptedFrame\<close>: a frame that \<open>EncryptInPlace\<close> seals with our secret key for a peer's
  public key is opened by \<open>DecryptInPlace\<close> with the peer's secret key: authentication
  succeeds, the payload is the one that was sealed, and the header still carries our public key.
\<close>

theorem frame_roundtrip:
  assumes ok: "sodium_ok S" "dh_agree S a b" and r: "length rand = TUNNONCESIZE"
    and l: "OverheadSize < length frame" "length frame < 2 ^ 63"
  shows "\<exists>sealed opened. EncryptInPlace S rand stack a (seckey_topublic b) frame = Some (True, sealed) \<and>
    length sealed = length frame \<and> take 32 (drop 64 sealed) = seckey_topublic a \<and>
    DecryptInPlace S stack' b sealed = Some (True, opened) \<and>
    drop OverheadSize opened = drop OverheadSize frame"
  by (rule sealed_opens [OF assms])

theorem frame_roundtrip_witness:
  "\<exists>sealed opened. EncryptInPlace example_sodium (replicate 32 5) [] (example_key 1)
      (seckey_topublic (example_key 2)) (replicate 100 9) = Some (True, sealed) \<and>
    length sealed = 100 \<and> take 32 (drop 64 sealed) = seckey_topublic (example_key 1) \<and>
    DecryptInPlace example_sodium [] (example_key 2) sealed = Some (True, opened) \<and>
    drop OverheadSize opened = drop OverheadSize (replicate 100 9)"
  using frame_roundtrip [OF example_sodium_ok example_agree [of 1 2], of "replicate 32 5"
      "replicate 100 9" "[]" "[]"]
  by (simp add: size_defs OverheadSize_eq)

text \<open>
  \<open>DecryptInPlace\<close> on any frame from the network: it returns, accepts only a frame whose first 32
  bytes are the keyed hash of the rest under the key agreed with the public key it carries, and
  leaves a frame it rejects as it was: nothing is decrypted before it is authenticated.
\<close>

theorem frame_authenticated:
  assumes ok: "sodium_ok S" and l: "length frame < 2 ^ 63"
  shows "\<exists>acc frame'. DecryptInPlace S stack b frame = Some (acc, frame') \<and>
    length frame' = length frame \<and> take OverheadSize frame' = take OverheadSize frame \<and>
    (\<not> acc \<longrightarrow> frame' = frame) \<and>
    (acc \<longrightarrow> OverheadSize < length frame \<and>
      (\<exists>k. sodium_dh_server S stack (take 32 (drop 64 frame)) b (take 32 (drop 32 frame)) = (True, k) \<and>
        sodium_hmac S (drop 32 frame) k = (True, take 32 frame)))"
proof (cases "OverheadSize < length frame")
  case False
  then show ?thesis by (auto simp: DecryptInPlace_def)
next
  case True
  then have "96 \<le> length frame" by (simp add: OverheadSize_eq)
  then obtain h n p body where f: "frame = h @ n @ p @ body"
    and hnp: "length h = 32" "length n = 32" "length p = 32"
    by (rule frame_parts)
  have body: "body \<noteq> []" "length body < 2 ^ 63" using True l f hnp by (auto simp: OverheadSize_eq)
  obtain dh k where dk: "sodium_dh_server S stack p b n = (dh, k)" by fastforce
  show ?thesis
  proof (cases "dh \<and> mac S k (n @ p @ body) = h")
    case acc: True
    then have k: "length k = 32" using dh_server_length [OF ok, of stack p b n k] dk by simp
    have "DecryptInPlace S stack b frame = Some (True, h @ n @ p @ enc S k n body)"
      using acc dk by (simp add: f DecryptInPlace_eq [OF ok hnp body])
    then show ?thesis
      using acc dk hnp True mac_props [OF ok k, of "n @ p @ body"] enc_props [OF ok, of n k body] k
      by (intro exI [of _ True] exI) (auto simp: f OverheadSize_eq)
  next
    case False
    then have "DecryptInPlace S stack b frame = Some (False, frame)"
      using dk by (auto simp: f DecryptInPlace_eq [OF ok hnp body])
    then show ?thesis by auto
  qed
qed

theorem frame_authenticated_witness:
  "\<exists>acc frame'. DecryptInPlace example_sodium [] (example_key 2) (replicate 100 9) = Some (acc, frame') \<and>
    length frame' = 100 \<and> (\<not> acc \<longrightarrow> frame' = replicate 100 9)"
  using frame_authenticated [OF example_sodium_ok, of "replicate 100 9" "[]" "example_key 2"] by auto

end
