(* ===== verification/Crypto_Async.thy ===== *)
theory Crypto_Async
  imports Crypto
begin

text \<open>
  \<open>udap/crypto_async.cpp\<close>: the cryptography of the link layer, run on the worker threads. A
  handshake has three packets, each \<open>hmac (32) nonce (32) x (32) padding\<close>: the intro carries
  the client's public key in \<open>x\<close>, the introack the server's token, the session start the token
  again; a transport frame is \<open>hmac (32) nonce (32) body\<close>. The sessions of \<open>iwp_link.cpp\<close> always
  pass \<open>nonce = buf + 32\<close>, so the nonce is read from the packet. \<open>stack\<close> stands for the
  uninitialised \<open>SharedSecret\<close> that a failing key exchange leaves as it is: no result of the
  key exchange is tested in this file.
\<close>

section \<open>Requests\<close>

text \<open>\<open>None\<close> in the field \<open>buf\<close> is the null pointer by which a verification reports failure.\<close>

record iwp_async_intro =
  i_buf :: "byte list option"
  i_sz :: nat
  i_remote_pubkey :: "byte list"
  i_secretkey :: "byte list"

record iwp_async_introack =
  ia_buf :: "byte list option"
  ia_sz :: nat
  ia_token :: "byte list"
  ia_remote_pubkey :: "byte list"
  ia_secretkey :: "byte list"

record iwp_async_session_start =
  ss_buf :: "byte list option"
  ss_sz :: nat
  ss_token :: "byte list"
  ss_sessionkey :: "byte list"
  ss_secretkey :: "byte list"
  ss_remote_pubkey :: "byte list"

record iwp_async_frame =
  f_success :: bool
  f_created :: u64
  f_sessionkey :: "byte list"
  f_sz :: nat
  f_buf :: "byte list"

section \<open>Introduction\<close>

definition gen_intro :: "sodium \<Rightarrow> byte list \<Rightarrow> iwp_async_intro \<Rightarrow> iwp_async_intro option" where
  "gen_intro S stack intro = do {
     buf \<leftarrow> i_buf intro;
     nonce \<leftarrow> mem_load buf 32 32;
     let sharedkey = snd (sodium_dh_client S stack (i_remote_pubkey intro) (i_secretkey intro) nonce);
     let n = take 24 nonce;
     let e_k = snd (sodium_shorthash S (take 32 (i_remote_pubkey intro) @ nonce));
     buf \<leftarrow> mem_store buf 64 (take 32 (seckey_topublic (i_secretkey intro)));
     (_, buf) \<leftarrow> xchacha20_at S buf 64 32 e_k n;
     (_, h) \<leftarrow> hmac_at S buf 32 (size_sub (i_sz intro) 32) sharedkey;
     buf \<leftarrow> mem_store buf 0 h;
     Some (intro\<lparr>i_buf := Some buf\<rparr>)
   }"

definition verify_intro :: "sodium \<Rightarrow> byte list \<Rightarrow> iwp_async_intro \<Rightarrow> iwp_async_intro option" where
  "verify_intro S stack intro = do {
     buf \<leftarrow> i_buf intro;
     let OurPK = seckey_topublic (i_secretkey intro);
     nonce \<leftarrow> mem_load buf 32 32;
     let e_K = snd (sodium_shorthash S (take 32 OurPK @ nonce));
     let N = take 24 nonce;
     x \<leftarrow> mem_load buf 64 32;
     let remote_pubkey = snd (sodium_xchacha20 S x e_K N);
     let sharedkey = snd (sodium_dh_server S stack remote_pubkey (i_secretkey intro) nonce);
     (_, h) \<leftarrow> hmac_at S buf 32 (size_sub (i_sz intro) 32) sharedkey;
     hmac \<leftarrow> mem_load buf 0 32;
     Some (intro\<lparr>i_remote_pubkey := remote_pubkey,
       i_buf := if memcmp h hmac \<noteq> 0 then None else Some buf\<rparr>)
   }"

section \<open>Introduction acknowledgement\<close>

definition gen_introack ::
  "sodium \<Rightarrow> byte list \<Rightarrow> iwp_async_introack \<Rightarrow> iwp_async_introack option" where
  "gen_introack S stack introack = do {
     buf \<leftarrow> ia_buf introack;
     nonce \<leftarrow> mem_load buf 32 32;
     let sharedkey = snd (sodium_dh_server S stack (ia_remote_pubkey introack)
           (ia_secretkey introack) nonce);
     buf \<leftarrow> mem_store buf 64 (take 32 (ia_token introack));
     (_, buf) \<leftarrow> xchacha20_at S buf 64 32 sharedkey nonce;
     (_, h) \<leftarrow> hmac_at S buf 32 (size_sub (ia_sz introack) 32) sharedkey;
     buf \<leftarrow> mem_store buf 0 h;
     Some (introack\<lparr>ia_buf := Some buf\<rparr>)
   }"

definition verify_introack ::
  "sodium \<Rightarrow> byte list \<Rightarrow> iwp_async_introack \<Rightarrow> iwp_async_introack option" where
  "verify_introack S stack introack = do {
     buf \<leftarrow> ia_buf introack;
     nonce \<leftarrow> mem_load buf 32 32;
     let sharedkey = snd (sodium_dh_client S stack (ia_remote_pubkey introack)
           (ia_secretkey introack) nonce);
     (_, digest) \<leftarrow> hmac_at S buf 32 (size_sub (ia_sz introack) 32) sharedkey;
     hmac \<leftarrow> mem_load buf 0 32;
     if \<not> udap_eq digest hmac 32 then Some (introack\<lparr>ia_buf := None\<rparr>)
     else do {
       (_, buf) \<leftarrow> xchacha20_at S buf 64 32 sharedkey nonce;
       token \<leftarrow> mem_load buf 64 32;
       Some (introack\<lparr>ia_buf := Some buf, ia_token := token\<rparr>)
     }
   }"

section \<open>Session start\<close>

definition gen_session_start ::
  "sodium \<Rightarrow> byte list \<Rightarrow> iwp_async_session_start \<Rightarrow> iwp_async_session_start option" where
  "gen_session_start S stack session = do {
     buf \<leftarrow> ss_buf session;
     N \<leftarrow> mem_load buf 32 32;
     let token = ss_token session;
     let T = snd (sodium_shorthash S (take 32 token @ N));
     let e_K = snd (sodium_dh_client S stack (ss_remote_pubkey session) (ss_secretkey session) N);
     let K = snd (sodium_dh_client S (ss_sessionkey session) (ss_remote_pubkey session)
           (ss_secretkey session) T);
     buf \<leftarrow> mem_store buf 64 (take 32 token);
     (_, buf) \<leftarrow> xchacha20_at S buf 64 32 e_K N;
     (_, h) \<leftarrow> hmac_at S buf 32 (size_sub (ss_sz session) 32) e_K;
     buf \<leftarrow> mem_store buf 0 h;
     Some (session\<lparr>ss_buf := Some buf, ss_sessionkey := K\<rparr>)
   }"

definition verify_session_start ::
  "sodium \<Rightarrow> byte list \<Rightarrow> iwp_async_session_start \<Rightarrow> iwp_async_session_start option" where
  "verify_session_start S stack session = do {
     buf \<leftarrow> ss_buf session;
     N \<leftarrow> mem_load buf 32 32;
     let token = ss_token session;
     let e_K = snd (sodium_dh_server S stack (ss_remote_pubkey session) (ss_secretkey session) N);
     (_, tmp) \<leftarrow> hmac_at S buf 32 (size_sub (ss_sz session) 32) e_K;
     hmac \<leftarrow> mem_load buf 0 32;
     if memcmp tmp hmac = 0 then do {
       (_, buf) \<leftarrow> xchacha20_at S buf 64 32 e_K N;
       x \<leftarrow> mem_load buf 64 32;
       if memcmp x (take 32 token) = 0 then do {
         let T = snd (sodium_shorthash S (take 32 token @ N));
         let K = snd (sodium_dh_server S (ss_sessionkey session) (ss_remote_pubkey session)
               (ss_secretkey session) T);
         Some (session\<lparr>ss_buf := Some buf, ss_sessionkey := K\<rparr>)
       }
       else Some (session\<lparr>ss_buf := None\<rparr>)
     }
     else Some (session\<lparr>ss_buf := None\<rparr>)
   }"

section \<open>Transport frames\<close>

definition iwp_decrypt_frame ::
  "sodium \<Rightarrow> iwp_async_frame \<Rightarrow> (bool \<times> iwp_async_frame) option" where
  "iwp_decrypt_frame S frame = do {
     let buf = f_buf frame;
     hmac \<leftarrow> mem_load buf 0 32;
     nonce \<leftarrow> mem_load buf 32 32;
     (_, digest) \<leftarrow> hmac_at S buf 32 (size_sub (f_sz frame) 32) (f_sessionkey frame);
     let success = (memcmp digest hmac = 0);
     (_, buf) \<leftarrow> xchacha20_at S buf 64 (size_sub (f_sz frame) 64) (f_sessionkey frame) nonce;
     Some (success, frame\<lparr>f_success := success, f_buf := buf\<rparr>)
   }"

definition iwp_encrypt_frame ::
  "sodium \<Rightarrow> byte list \<Rightarrow> iwp_async_frame \<Rightarrow> (bool \<times> iwp_async_frame) option" where
  "iwp_encrypt_frame S rand frame = do {
     buf \<leftarrow> mem_store (f_buf frame) 32 rand;
     nonce \<leftarrow> mem_load buf 32 32;
     (_, buf) \<leftarrow> xchacha20_at S buf 64 (size_sub (f_sz frame) 64) (f_sessionkey frame) nonce;
     (_, hmac) \<leftarrow> hmac_at S buf 32 (size_sub (f_sz frame) 32) (f_sessionkey frame);
     buf \<leftarrow> mem_store buf 0 hmac;
     Some (True, frame\<lparr>f_buf := buf\<rparr>)
   }"

section \<open>Sealed packets\<close>

text \<open>
  A packet with nonce \<open>n\<close>, the 32 bytes \<open>t\<close> encrypted with \<open>k1\<close>, the padding \<open>w\<close> and the keyed
  hash of everything after it with \<open>k2\<close>.
\<close>

definition sealed_packet ::
  "sodium \<Rightarrow> byte list \<Rightarrow> byte list \<Rightarrow> byte list \<Rightarrow> byte list \<Rightarrow> byte list \<Rightarrow> byte list" where
  "sealed_packet S k1 k2 n t w = mac S k2 (n @ enc S k1 n t @ w) @ n @ enc S k1 n t @ w"

definition intro_key :: "sodium \<Rightarrow> byte list \<Rightarrow> byte list \<Rightarrow> byte list" where
  "intro_key S pk n = snd (sodium_shorthash S (pk @ n))"

lemma length_intro_key: "sodium_ok S \<Longrightarrow> length (intro_key S pk n) = 32"
  using shorthash_ok [of S "pk @ n"] by (auto simp: intro_key_def)

lemma cipher_nonce: "sodium_xchacha20 S m k (take 24 n) = sodium_xchacha20 S m k n"
  by (simp add: sodium_xchacha20_def)

lemma xchacha20_at_nonce: "xchacha20_at S b off sz k (take 24 n) = xchacha20_at S b off sz k n"
  by (simp add: xchacha20_at_def cipher_nonce)

text \<open>Sealing in place: store the clear text at 64, encrypt it, store the keyed hash at 0.\<close>

lemma seal_steps:
  assumes ok: "sodium_ok S" and k: "length k1 = 32" "length k2 = 32"
    and l: "length h = 32" "length n = 32" "length x = 32" "length t = 32"
    and sz: "sz = 96 + length w" "sz < 2 ^ 64"
  shows "mem_load (h @ n @ x @ w @ rest) 32 32 = Some n"
    "mem_store (h @ n @ x @ w @ rest) 64 t = Some (h @ n @ t @ w @ rest)"
    "xchacha20_at S (h @ n @ t @ w @ rest) 64 32 k1 n = Some (True, h @ n @ enc S k1 n t @ w @ rest)"
    "hmac_at S (h @ n @ enc S k1 n t @ w @ rest) 32 (size_sub sz 32) k2 =
      Some (True, mac S k2 (n @ enc S k1 n t @ w))"
    "mem_store (h @ n @ enc S k1 n t @ w @ rest) 0 (mac S k2 (n @ enc S k1 n t @ w)) =
      Some (sealed_packet S k1 k2 n t w @ rest)"
proof -
  have e: "length (enc S k1 n t) = 32" using enc_props(2) [OF ok, of n k1 t] k l by simp
  have m: "size_sub sz 32 = length (n @ enc S k1 n t @ w)"
    unfolding sz(1) using sz e l by (simp add: size_sub_le)
  show "mem_load (h @ n @ x @ w @ rest) 32 32 = Some n"
    using l by (simp add: mem_load_at)
  show "mem_store (h @ n @ x @ w @ rest) 64 t = Some (h @ n @ t @ w @ rest)"
    using mem_store_at [of 64 "h @ n" t x "w @ rest"] l by simp
  show "xchacha20_at S (h @ n @ t @ w @ rest) 64 32 k1 n =
      Some (True, h @ n @ enc S k1 n t @ w @ rest)"
    by (rule xchacha20_at_eq [of S n k1 64 "h @ n" 32 t "w @ rest", unfolded append_assoc])
      (simp_all add: ok k l)
  show "hmac_at S (h @ n @ enc S k1 n t @ w @ rest) 32 (size_sub sz 32) k2 =
      Some (True, mac S k2 (n @ enc S k1 n t @ w))"
    using hmac_at_eq [OF ok k(2) _ m, of 32 h rest] l by simp
  show "mem_store (h @ n @ enc S k1 n t @ w @ rest) 0 (mac S k2 (n @ enc S k1 n t @ w)) =
      Some (sealed_packet S k1 k2 n t w @ rest)"
    using mem_store_head [of "mac S k2 (n @ enc S k1 n t @ w)" h "n @ enc S k1 n t @ w @ rest"]
      mac_props(2) [OF ok k(2)] l by (simp add: sealed_packet_def)
qed

text \<open>Opening it again: the parts are where they were put and the keyed hash agrees.\<close>

lemma open_steps:
  assumes ok: "sodium_ok S" and k: "length k1 = 32" "length k2 = 32"
    and l: "length n = 32" "length t = 32" and sz: "sz = 96 + length w" "sz < 2 ^ 64"
  shows "mem_load (sealed_packet S k1 k2 n t w @ rest) 32 32 = Some n"
    "mem_load (sealed_packet S k1 k2 n t w @ rest) 64 32 = Some (enc S k1 n t)"
    "mem_load (sealed_packet S k1 k2 n t w @ rest) 0 32 = Some (mac S k2 (n @ enc S k1 n t @ w))"
    "hmac_at S (sealed_packet S k1 k2 n t w @ rest) 32 (size_sub sz 32) k2 =
      Some (True, mac S k2 (n @ enc S k1 n t @ w))"
    "xchacha20_at S (sealed_packet S k1 k2 n t w @ rest) 64 32 k1 n =
      Some (True, mac S k2 (n @ enc S k1 n t @ w) @ n @ t @ w @ rest)"
    "mem_load (mac S k2 (n @ enc S k1 n t @ w) @ n @ t @ w @ rest) 64 32 = Some t"
    "sodium_xchacha20 S (enc S k1 n t) k1 n = (True, t)"
proof -
  let ?h = "mac S k2 (n @ enc S k1 n t @ w)"
  note e = enc_props [OF ok, of n k1 t] enc_props [OF ok, of n k1 "enc S k1 n t"]
  have len: "length (enc S k1 n t) = 32" "length ?h = 32" "enc S k1 n (enc S k1 n t) = t"
    using e mac_props(2) [OF ok k(2)] k l by simp_all
  have m: "size_sub sz 32 = length (n @ enc S k1 n t @ w)"
    unfolding sz(1) using sz len l by (simp add: size_sub_le)
  show "mem_load (sealed_packet S k1 k2 n t w @ rest) 32 32 = Some n"
    "mem_load (sealed_packet S k1 k2 n t w @ rest) 64 32 = Some (enc S k1 n t)"
    "mem_load (sealed_packet S k1 k2 n t w @ rest) 0 32 = Some ?h"
    "mem_load (?h @ n @ t @ w @ rest) 64 32 = Some t"
    using l len by (simp_all add: sealed_packet_def mem_load_def)
  show "sodium_xchacha20 S (enc S k1 n t) k1 n = (True, t)" using e k l len by simp
  show "hmac_at S (sealed_packet S k1 k2 n t w @ rest) 32 (size_sub sz 32) k2 = Some (True, ?h)"
    using hmac_at_eq [OF ok k(2) _ m, of 32 ?h rest] len by (simp add: sealed_packet_def)
  have "xchacha20_at S (?h @ n @ enc S k1 n t @ w @ rest) 64 32 k1 n =
      Some (True, ?h @ n @ enc S k1 n (enc S k1 n t) @ w @ rest)"
    by (rule xchacha20_at_eq [of S n k1 64 "?h @ n" 32 "enc S k1 n t" "w @ rest",
        unfolded append_assoc]) (simp_all add: ok k l len)
  then show "xchacha20_at S (sealed_packet S k1 k2 n t w @ rest) 64 32 k1 n =
      Some (True, ?h @ n @ t @ w @ rest)"
    unfolding len(3) by (simp add: sealed_packet_def)
qed

section \<open>The handshake, packet by packet\<close>

lemma gen_intro_eq:
  assumes ok: "sodium_ok S" "dh_agree S a b"
    and l: "length h = 32" "length n = 32" "length x = 32" and sz: "96 + length w < 2 ^ 64"
  shows "gen_intro S stack \<lparr>i_buf = Some (h @ n @ x @ w @ rest), i_sz = 96 + length w,
      i_remote_pubkey = seckey_topublic b, i_secretkey = a\<rparr> =
    Some \<lparr>i_buf = Some (sealed_packet S (intro_key S (seckey_topublic b) n) (dh.shared S a b n) n
        (seckey_topublic a) w @ rest), i_sz = 96 + length w,
      i_remote_pubkey = seckey_topublic b, i_secretkey = a\<rparr>"
proof -
  have ab: "length (seckey_topublic a) = 32" "length (seckey_topublic b) = 32"
    using dh.pair_sizes [of S a b] ok by (simp_all add: length_public)
  note k = dh.shared_props [of S a b n]
  have k2: "length (dh.shared S a b n) = 32" using k ok l by simp
  note steps = seal_steps [OF ok(1) length_intro_key [OF ok(1)] k2 l ab(1) refl sz]
  show ?thesis
    using k(2) [of stack] ok l ab
    by (simp add: gen_intro_def Let_def steps intro_key_def [symmetric] xchacha20_at_nonce)
qed

lemma verify_intro_eq:
  assumes ok: "sodium_ok S" "dh_agree S a b"
    and l: "length n = 32" and sz: "96 + length w < 2 ^ 64"
    and buf: "buf = sealed_packet S (intro_key S (seckey_topublic b) n) (dh.shared S a b n) n
        (seckey_topublic a) w @ rest"
  shows "verify_intro S stack \<lparr>i_buf = Some buf, i_sz = 96 + length w, i_remote_pubkey = r,
      i_secretkey = b\<rparr> =
    Some \<lparr>i_buf = Some buf, i_sz = 96 + length w, i_remote_pubkey = seckey_topublic a,
      i_secretkey = b\<rparr>"
proof -
  have ab: "length (seckey_topublic a) = 32" "length (seckey_topublic b) = 32"
    using dh.pair_sizes [of S a b] ok by (simp_all add: length_public)
  note k = dh.shared_props [of S a b n]
  have k2: "length (dh.shared S a b n) = 32" using k ok l by simp
  note steps = open_steps [OF ok(1) length_intro_key [OF ok(1)] k2 l ab(1) refl sz]
  show ?thesis
    using k(3) [of stack] ok l ab
    by (simp add: buf verify_intro_def Let_def steps intro_key_def [symmetric] cipher_nonce memcmp_eq_0_iff)
qed

lemma gen_introack_eq:
  assumes ok: "sodium_ok S" "dh_agree S a b" and t: "length t = 32"
    and l: "length h = 32" "length n = 32" "length x = 32" and sz: "96 + length w < 2 ^ 64"
  shows "gen_introack S stack \<lparr>ia_buf = Some (h @ n @ x @ w @ rest), ia_sz = 96 + length w,
      ia_token = t, ia_remote_pubkey = seckey_topublic a, ia_secretkey = b\<rparr> =
    Some \<lparr>ia_buf = Some (sealed_packet S (dh.shared S a b n) (dh.shared S a b n) n t w @ rest),
      ia_sz = 96 + length w, ia_token = t, ia_remote_pubkey = seckey_topublic a, ia_secretkey = b\<rparr>"
proof -
  note k = dh.shared_props [of S a b n]
  have k2: "length (dh.shared S a b n) = 32" using k ok l by simp
  note steps = seal_steps [OF ok(1) k2 k2 l t refl sz]
  show ?thesis
    using k(3) [of stack] ok l t by (simp add: gen_introack_def Let_def steps)
qed

lemma verify_introack_eq:
  assumes ok: "sodium_ok S" "dh_agree S a b" and t: "length t = 32"
    and l: "length n = 32" and sz: "96 + length w < 2 ^ 64"
  shows "\<exists>buf. length buf = 96 + length w + length rest \<and> verify_introack S stack
      \<lparr>ia_buf = Some (sealed_packet S (dh.shared S a b n) (dh.shared S a b n) n t w @ rest),
       ia_sz = 96 + length w, ia_token = t', ia_remote_pubkey = seckey_topublic b,
       ia_secretkey = a\<rparr> =
    Some \<lparr>ia_buf = Some buf, ia_sz = 96 + length w, ia_token = t,
      ia_remote_pubkey = seckey_topublic b, ia_secretkey = a\<rparr>"
proof -
  note k = dh.shared_props [of S a b n]
  have k2: "length (dh.shared S a b n) = 32" using k ok l by simp
  note steps = open_steps [OF ok(1) k2 k2 l t refl sz]
  show ?thesis
    using k(2) [of stack] ok l t mac_props(2) [OF ok(1) k2]
    by (simp add: verify_introack_def Let_def steps udap_eq_iff)
qed

lemma gen_session_start_eq:
  assumes ok: "sodium_ok S" "dh_agree S a b" and t: "length t = 32"
    and l: "length h = 32" "length n = 32" "length x = 32" and sz: "96 + length w < 2 ^ 64"
  shows "gen_session_start S stack \<lparr>ss_buf = Some (h @ n @ x @ w @ rest), ss_sz = 96 + length w,
      ss_token = t, ss_sessionkey = key, ss_secretkey = a, ss_remote_pubkey = seckey_topublic b\<rparr> =
    Some \<lparr>ss_buf = Some (sealed_packet S (dh.shared S a b n) (dh.shared S a b n) n t w @ rest),
      ss_sz = 96 + length w, ss_token = t, ss_sessionkey = dh.shared S a b (intro_key S t n),
      ss_secretkey = a, ss_remote_pubkey = seckey_topublic b\<rparr>"
proof -
  note k = dh.shared_props [of S a b n] and k' = dh.shared_props [of S a b "intro_key S t n"]
  have k2: "length (dh.shared S a b n) = 32" using k ok l by simp
  note steps = seal_steps [OF ok(1) k2 k2 l t refl sz]
  show ?thesis
    using k(2) [of stack] k'(2) [of key] ok l t length_intro_key [OF ok(1), of t n]
    by (simp add: gen_session_start_def Let_def steps intro_key_def [symmetric])
qed

lemma verify_session_start_eq:
  assumes ok: "sodium_ok S" "dh_agree S a b" and t: "length t = 32" "length t' = 32"
    and l: "length n = 32" and sz: "96 + length w < 2 ^ 64"
  shows "\<exists>buf. verify_session_start S stack
      \<lparr>ss_buf = Some (sealed_packet S (dh.shared S a b n) (dh.shared S a b n) n t w @ rest),
       ss_sz = 96 + length w, ss_token = t', ss_sessionkey = key, ss_secretkey = b,
       ss_remote_pubkey = seckey_topublic a\<rparr> =
    Some \<lparr>ss_buf = if t = t' then Some buf else None, ss_sz = 96 + length w, ss_token = t',
      ss_sessionkey = if t = t' then dh.shared S a b (intro_key S t n) else key,
      ss_secretkey = b, ss_remote_pubkey = seckey_topublic a\<rparr>"
proof -
  note k = dh.shared_props [of S a b n] and k' = dh.shared_props [of S a b "intro_key S t n"]
  have k2: "length (dh.shared S a b n) = 32" using k ok l by simp
  note steps = open_steps [OF ok(1) k2 k2 l t(1) refl sz]
  show ?thesis
    using k(3) [of stack] k'(3) [of key] ok l t length_intro_key [OF ok(1), of t n]
    by (auto simp: verify_session_start_def Let_def steps intro_key_def [symmetric] memcmp_eq_0_iff)
qed

section \<open>Frames\<close>

text \<open>Frames are read and written in place; bytes beyond the frame's size stay.\<close>

lemma iwp_encrypt_frame_eq:
  assumes ok: "sodium_ok S" and k: "length k = 32" and r: "length rand = 32"
    and l: "length h = 32" "length n = 32" and sz: "64 + length body < 2 ^ 64"
  shows "iwp_encrypt_frame S rand \<lparr>f_success = s, f_created = c, f_sessionkey = k,
      f_sz = 64 + length body, f_buf = h @ n @ body @ rest\<rparr> =
    Some (True, \<lparr>f_success = s, f_created = c, f_sessionkey = k, f_sz = 64 + length body,
      f_buf = mac S k (rand @ enc S k rand body) @ rand @ enc S k rand body @ rest\<rparr>)"
proof -
  have e: "length (enc S k rand body) = length body"
    using enc_props(2) [OF ok, of rand k body] k r by simp
  have "mem_store (h @ n @ body @ rest) 32 rand = Some (h @ rand @ body @ rest)"
    "mem_load (h @ rand @ body @ rest) 32 32 = Some rand"
    using l r by (simp_all add: mem_store_at mem_load_at)
  moreover have "xchacha20_at S (h @ rand @ body @ rest) 64 (length body) k rand =
      Some (True, h @ rand @ enc S k rand body @ rest)"
    by (rule xchacha20_at_eq [of S rand k 64 "h @ rand" "length body" body rest,
        unfolded append_assoc]) (simp_all add: ok k r l)
  moreover have "hmac_at S (h @ rand @ enc S k rand body @ rest) 32 (32 + length body) k =
      Some (True, mac S k (rand @ enc S k rand body))"
    by (rule hmac_at_eq [of S k 32 h "32 + length body" "rand @ enc S k rand body" rest,
        unfolded append_assoc]) (simp_all add: ok k r l e)
  moreover have "mem_store (h @ rand @ enc S k rand body @ rest) 0
      (mac S k (rand @ enc S k rand body)) =
    Some (mac S k (rand @ enc S k rand body) @ rand @ enc S k rand body @ rest)"
    by (rule mem_store_head) (simp add: mac_props ok k l)
  ultimately show ?thesis
    using sz by (simp add: iwp_encrypt_frame_def size_sub_le)
qed

lemma iwp_decrypt_frame_eq:
  assumes ok: "sodium_ok S" and k: "length k = 32"
    and l: "length h = 32" "length n = 32" and sz: "64 + length body < 2 ^ 64"
  shows "iwp_decrypt_frame S \<lparr>f_success = s, f_created = c, f_sessionkey = k,
      f_sz = 64 + length body, f_buf = h @ n @ body @ rest\<rparr> =
    (let good = (mac S k (n @ body) = h) in
     Some (good, \<lparr>f_success = good, f_created = c, f_sessionkey = k, f_sz = 64 + length body,
      f_buf = h @ n @ enc S k n body @ rest\<rparr>))"
proof -
  have "mem_load (h @ n @ body @ rest) 0 32 = Some h" "mem_load (h @ n @ body @ rest) 32 32 = Some n"
    using l by (simp_all add: mem_load_def)
  moreover have "hmac_at S (h @ n @ body @ rest) 32 (32 + length body) k =
      Some (True, mac S k (n @ body))"
    by (rule hmac_at_eq [of S k 32 h "32 + length body" "n @ body" rest, unfolded append_assoc])
      (simp_all add: ok k l)
  moreover have "xchacha20_at S (h @ n @ body @ rest) 64 (length body) k n =
      Some (True, h @ n @ enc S k n body @ rest)"
    by (rule xchacha20_at_eq [of S n k 64 "h @ n" "length body" body rest,
        unfolded append_assoc]) (simp_all add: ok k l)
  ultimately show ?thesis
    using sz mac_props(2) [OF ok k, of "n @ body"] l
    by (simp add: iwp_decrypt_frame_def size_sub_le memcmp_eq_0_iff)
qed

lemma packet_parts:
  assumes "64 \<le> sz" "sz \<le> length f"
  obtains h n body rest where "f = h @ n @ body @ rest" "length h = 32" "length n = 32"
    "sz = 64 + length body"
proof
  show "f = take 32 f @ take 32 (drop 32 f) @ take (sz - 64) (drop 64 f) @ drop sz f"
    using append_take_drop_id [of 32 f] append_take_drop_id [of 32 "drop 32 f"]
      append_take_drop_id [of "sz - 64" "drop 64 f"] assms by simp
qed (use assms in simp_all)

text \<open>
  \<open>iwp_encrypt_frame\<close> followed, at the other end, by \<open>iwp_decrypt_frame\<close> with the same
  session key: authentication succeeds and the body of the frame is the one that was sent.
  The receiver may hold the packet in a larger buffer.
\<close>

theorem iwp_frame_roundtrip:
  assumes ok: "sodium_ok S" and k: "length (f_sessionkey frame) = 32"
    and r: "length rand = 32" and sz: "64 \<le> f_sz frame" "f_sz frame \<le> length (f_buf frame)"
      "length (f_buf frame) < 2 ^ 63"
    and rx: "f_sessionkey rx = f_sessionkey frame" "f_sz rx = f_sz frame"
  shows "\<exists>frame' rx'. iwp_encrypt_frame S rand frame = Some (True, frame') \<and>
    f_sz frame' = f_sz frame \<and>
    iwp_decrypt_frame S (rx\<lparr>f_buf := take (f_sz frame) (f_buf frame') @ junk\<rparr>) = Some (True, rx') \<and>
    f_success rx' \<and>
    take (f_sz frame - 64) (drop 64 (f_buf rx')) = take (f_sz frame - 64) (drop 64 (f_buf frame))"
proof -
  obtain h n body rest where f: "f_buf frame = h @ n @ body @ rest"
    and l: "length h = 32" "length n = 32" and b: "f_sz frame = 64 + length body"
    using sz(1,2) by (rule packet_parts)
  let ?k = "f_sessionkey frame"
  have lt: "64 + length body < 2 ^ 64" using sz b by simp
  note e = enc_props [OF ok _ k, of rand body]
  have lb: "64 + length (enc S ?k rand body) < 2 ^ 64" using e r lt by simp
  let ?x = "enc S ?k rand body"
  have fr: "frame = \<lparr>f_success = f_success frame, f_created = f_created frame, f_sessionkey = ?k,
      f_sz = 64 + length body, f_buf = h @ n @ body @ rest\<rparr>"
    using f b by (cases frame) simp
  have "iwp_encrypt_frame S rand frame = Some (True, frame\<lparr>f_buf := mac S ?k (rand @ ?x) @ rand @ ?x @ rest\<rparr>)"
    using iwp_encrypt_frame_eq [OF ok k r l lt] by (subst (1 2) fr) simp
  moreover have "rx\<lparr>f_buf := mac S ?k (rand @ ?x) @ rand @ ?x @ junk\<rparr> =
      \<lparr>f_success = f_success rx, f_created = f_created rx, f_sessionkey = ?k,
       f_sz = 64 + length ?x, f_buf = mac S ?k (rand @ ?x) @ rand @ ?x @ junk\<rparr>"
    using rx b e r by (cases rx) simp
  ultimately show ?thesis
    using iwp_decrypt_frame_eq [OF ok k _ r lb, of "mac S ?k (rand @ ?x)"] e r b f l k
    by (simp add: mac_props [OF ok k])
qed

theorem iwp_frame_roundtrip_witness:
  "\<exists>frame' rx'. iwp_encrypt_frame example_sodium (replicate 32 5)
      \<lparr>f_success = False, f_created = 0, f_sessionkey = replicate 32 1, f_sz = 70, f_buf = replicate 1500 7\<rparr> =
      Some (True, frame') \<and> f_sz frame' = 70 \<and>
    iwp_decrypt_frame example_sodium \<lparr>f_success = False, f_created = 3, f_sessionkey = replicate 32 1,
      f_sz = 70, f_buf = take 70 (f_buf frame') @ replicate 1430 0\<rparr> = Some (True, rx') \<and>
    f_success rx' \<and> take 6 (drop 64 (f_buf rx')) = replicate 6 7"
proof -
  have l: "64 \<le> f_sz \<lparr>f_success = False, f_created = 0, f_sessionkey = replicate 32 1, f_sz = 70,
      f_buf = replicate 1500 (7 :: byte)\<rparr>" by simp
  show ?thesis
    using iwp_frame_roundtrip [of example_sodium _ "replicate 32 5"
        "\<lparr>f_success = False, f_created = 3, f_sessionkey = replicate 32 1, f_sz = 70, f_buf = []\<rparr>"
        "replicate 1430 0", OF example_sodium_ok _ _ l]
    by simp
qed

end
