(* ===== verification/Iwp_Message.thy ===== *)
theory Iwp_Message
  imports Crypto_Async "HOL-Library.AList"
begin

text \<open>
  \<open>udap/iwp_link.cpp\<close>, first part: the plaintext frames of a link session and the messages
  that are cut into fragments to travel in them. A message goes out as one \<open>XMIT\<close> frame with its
  description and last fragment, and a \<open>FRAG\<close> frame for every full fragment; the receiver
  collects the fragments in any order. Integers are copied to the wire as the host stores them,
  little endian. \<open>None\<close> is an access outside an array or the exception \<open>std::bitset\<close> throws.
\<close>

unbundle bit_operations_syntax

section \<open>Integers in memory\<close>

fun le_bytes :: "nat \<Rightarrow> nat \<Rightarrow> byte list" where
  "le_bytes 0 n = []"
| "le_bytes (Suc k) n = of_nat n # le_bytes k (n div 256)"

fun le_val :: "byte list \<Rightarrow> nat" where
  "le_val [] = 0"
| "le_val (b # bs) = unat b + 256 * le_val bs"

section \<open>Frame headers\<close>

definition eALIV :: byte where "eALIV = 0"
definition eXMIT :: byte where "eXMIT = 1"
definition eACKS :: byte where "eACKS = 2"
definition eFRAG :: byte where "eFRAG = 3"

definition eSessionInvalidated :: byte where "eSessionInvalidated = 1"

lemmas frame_consts = eALIV_def eXMIT_def eACKS_def eFRAG_def

text \<open>A header is the frame's bytes; \<open>hdr_data\<close> is where the pointer \<open>data()\<close> points.\<close>

definition hdr_data :: nat where "hdr_data = 6"

definition hdr_byte :: "byte list \<Rightarrow> nat \<Rightarrow> byte option" where
  "hdr_byte ptr i = (if i < length ptr then Some (ptr ! i) else None)"

definition hdr_msgtype :: "byte list \<Rightarrow> byte option" where
  "hdr_msgtype ptr = hdr_byte ptr 1"

definition hdr_size :: "byte list \<Rightarrow> nat option" where
  "hdr_size ptr = map_option le_val (mem_load ptr 2 2)"

definition hdr_flags :: "byte list \<Rightarrow> byte option" where
  "hdr_flags ptr = hdr_byte ptr 5"

text \<open>
  \<open>new sendbuf_t(s)\<close> is an uninitialised array; the writers below fill every byte of it.
\<close>

definition sendbuf :: "nat \<Rightarrow> byte list" where
  "sendbuf s = replicate s 0"

definition init_sendbuf :: "byte list \<Rightarrow> byte \<Rightarrow> nat \<Rightarrow> byte \<Rightarrow> byte list option" where
  "init_sendbuf buf t sz flags = mem_store buf 0 ([0, t] @ le_bytes 2 sz @ [0, flags])"

section \<open>The description of a message\<close>

type_synonym xmit = "byte list"

definition set_info ::
  "byte list \<Rightarrow> u64 \<Rightarrow> nat \<Rightarrow> nat \<Rightarrow> byte \<Rightarrow> byte \<Rightarrow> xmit" where
  "set_info hash msgid fragsz lastsz numfrags flags =
     take 32 hash @ le_bytes 8 (unat msgid) @ le_bytes 2 fragsz @ le_bytes 2 lastsz @
     [0, 0, numfrags, flags]"

definition xmit_hash :: "xmit \<Rightarrow> byte list" where "xmit_hash x = take 32 x"
definition xmit_msgid :: "xmit \<Rightarrow> u64" where "xmit_msgid x = of_nat (le_val (take 8 (drop 32 x)))"
definition xmit_fragsize :: "xmit \<Rightarrow> nat" where "xmit_fragsize x = le_val (take 2 (drop 40 x))"
definition xmit_lastfrag :: "xmit \<Rightarrow> nat" where "xmit_lastfrag x = le_val (take 2 (drop 42 x))"
definition xmit_numfrags :: "xmit \<Rightarrow> nat" where "xmit_numfrags x = unat (x ! 46)"
definition xmit_flags :: "xmit \<Rightarrow> byte" where "xmit_flags x = x ! 47"

definition xmit_totalsize :: "xmit \<Rightarrow> nat" where
  "xmit_totalsize x = xmit_fragsize x * xmit_numfrags x + xmit_lastfrag x"

section \<open>Messages in transit\<close>

text \<open>
  The fragments of an \<open>unordered_map\<close> are an association list; the order of a loop
  over it is that of the list.
\<close>

record transit_message =
  msginfo :: xmit
  status :: u32
  frags :: "(byte \<times> byte list) list"
  lastfrag :: "byte list"

definition bitset_test :: "u32 \<Rightarrow> nat \<Rightarrow> bool option" where
  "bitset_test st i = (if i < 32 then Some (bit st i) else None)"

definition bitset_set :: "u32 \<Rightarrow> nat \<Rightarrow> u32 option" where
  "bitset_set st i = (if i < 32 then Some (st OR push_bit i 1) else None)"

definition get_bitmask :: "transit_message \<Rightarrow> u32" where
  "get_bitmask t = foldl (\<lambda>bm i. bm OR (if bit (status t) i then push_bit i 1 else 0)) 0 [0..<32]"

definition transit_message_inbound :: "xmit \<Rightarrow> transit_message" where
  "transit_message_inbound x = \<lparr>msginfo = x, status = 0,
     frags = map (\<lambda>i. (of_nat i, replicate (xmit_fragsize x) 0)) [0..<xmit_numfrags x],
     lastfrag = []\<rparr>"

definition transit_ack :: "u32 \<Rightarrow> transit_message \<Rightarrow> transit_message" where
  "transit_ack bitmask t = t\<lparr>status :=
     foldl (\<lambda>st i. if bitmask AND push_bit i 1 \<noteq> 0 then st OR push_bit i 1 else st)
       (status t) [0..<32]\<rparr>"

definition should_send_ack :: "transit_message \<Rightarrow> bool" where
  "should_send_ack t \<longleftrightarrow>
     (if xmit_numfrags (msginfo t) = 0 then True
      else length (filter (bit (status t)) [0..<32]) mod (1 + xmit_numfrags (msginfo t) div 2) = 0)"

fun all_received :: "u32 \<Rightarrow> nat list \<Rightarrow> bool option" where
  "all_received st [] = Some True"
| "all_received st (i # is) = do {
     b \<leftarrow> bitset_test st i;
     if \<not> b then Some False else all_received st is
   }"

definition transit_completed :: "transit_message \<Rightarrow> bool option" where
  "transit_completed t = all_received (status t) [0..<xmit_numfrags (msginfo t)]"

definition generate_xmit ::
  "byte list list \<Rightarrow> byte \<Rightarrow> transit_message \<Rightarrow> byte list list option" where
  "generate_xmit queue flags t = do {
     let sz = (length (lastfrag t) + 48) mod 2 ^ 16;
     buf \<leftarrow> init_sendbuf (sendbuf (sz + 6)) eXMIT sz flags;
     buf \<leftarrow> mem_store buf hdr_data (msginfo t);
     buf \<leftarrow> mem_store buf (hdr_data + 48) (lastfrag t);
     Some (queue @ [buf])
   }"

fun retransmit_loop ::
  "transit_message \<Rightarrow> byte \<Rightarrow> (byte \<times> byte list) list \<Rightarrow> byte list list \<Rightarrow> byte list list option" where
  "retransmit_loop t flags [] queue = Some queue"
| "retransmit_loop t flags ((no, frag) # rest) queue = do {
     acked \<leftarrow> bitset_test (status t) (unat no);
     if acked then retransmit_loop t flags rest queue
     else do {
       let fragsize = xmit_fragsize (msginfo t);
       let sz = (9 + fragsize) mod 2 ^ 16;
       buf \<leftarrow> init_sendbuf (sendbuf (sz + 6)) eFRAG sz flags;
       buf \<leftarrow> mem_store buf hdr_data (le_bytes 8 (unat (xmit_msgid (msginfo t))));
       buf \<leftarrow> mem_store buf (hdr_data + 8) [no];
       body \<leftarrow> mem_load frag 0 fragsize;
       buf \<leftarrow> mem_store buf (hdr_data + 9) body;
       retransmit_loop t flags rest (queue @ [buf])
     }
   }"

definition retransmit_frags ::
  "byte list list \<Rightarrow> byte \<Rightarrow> transit_message \<Rightarrow> byte list list option" where
  "retransmit_frags queue flags t = retransmit_loop t flags (frags t) queue"

text \<open>The buffer is resized to the whole message; \<open>p\<close> is the offset of \<open>ptr\<close> in it.\<close>

fun reassemble_loop ::
  "transit_message \<Rightarrow> nat list \<Rightarrow> nat \<Rightarrow> byte list \<Rightarrow> (bool \<times> nat \<times> byte list) option" where
  "reassemble_loop t [] p buffer = Some (True, p, buffer)"
| "reassemble_loop t (i # is) p buffer = do {
     b \<leftarrow> bitset_test (status t) i;
     if \<not> b then Some (False, p, buffer)
     else do {
       let frag = (case map_of (frags t) (of_nat i) of Some f \<Rightarrow> f | None \<Rightarrow> []);
       body \<leftarrow> mem_load frag 0 (xmit_fragsize (msginfo t));
       buffer \<leftarrow> mem_store buffer p body;
       reassemble_loop t is (p + xmit_fragsize (msginfo t)) buffer
     }
   }"

definition reassemble :: "transit_message \<Rightarrow> (bool \<times> byte list) option" where
  "reassemble t = do {
     let buffer = replicate (xmit_totalsize (msginfo t)) 0;
     (ok, p, buffer) \<leftarrow> reassemble_loop t [0..<xmit_numfrags (msginfo t)] 0 buffer;
     if \<not> ok then Some (False, buffer)
     else do {
       buffer \<leftarrow> mem_store buffer p (lastfrag t);
       Some (True, buffer)
     }
   }"

definition MTU :: nat where "MTU = 1024"

text \<open>
  The loop of \<open>put_message\<close>, with the default \<open>mtu\<close> every caller uses: \<open>fragid\<close> is a byte and
  wraps around.
\<close>

function put_message_loop ::
  "byte list \<Rightarrow> byte \<Rightarrow> (byte \<times> byte list) list \<Rightarrow> byte list \<times> byte \<times> (byte \<times> byte list) list" where
  "put_message_loop buf fragid fs =
     (if MTU < length buf
      then put_message_loop (drop MTU buf) (fragid + 1) (AList.update fragid (take MTU buf) fs)
      else (buf, fragid, fs))"
  by pat_completeness auto
termination by (relation "measure (\<lambda>(buf, fragid, fs). length buf)") (auto simp: MTU_def)

declare put_message_loop.simps [simp del]

definition transit_message_outbound :: "byte list \<Rightarrow> byte list \<Rightarrow> u64 \<Rightarrow> transit_message" where
  "transit_message_outbound buf hash msgid =
     (let (last, fragid, fs) = put_message_loop buf 0 []
      in \<lparr>msginfo = set_info hash msgid MTU (length last) fragid 1, status = 0, frags = fs,
          lastfrag = last\<rparr>)"

text \<open>\<open>ptr\<close> is the whole frame, \<open>off\<close> the offset of the pointer passed.\<close>

definition put_lastfrag ::
  "byte list \<Rightarrow> nat \<Rightarrow> nat \<Rightarrow> transit_message \<Rightarrow> transit_message option" where
  "put_lastfrag ptr off sz t = do {
     body \<leftarrow> mem_load ptr off sz;
     Some (t\<lparr>lastfrag := body\<rparr>)
   }"

definition put_frag ::
  "byte \<Rightarrow> byte list \<Rightarrow> nat \<Rightarrow> transit_message \<Rightarrow> (bool \<times> transit_message) option" where
  "put_frag fragno ptr off t =
     (case map_of (frags t) fragno of
        None \<Rightarrow> Some (False, t)
      | Some old \<Rightarrow> do {
          body \<leftarrow> mem_load ptr off (xmit_fragsize (msginfo t));
          frag \<leftarrow> mem_store old 0 body;
          st \<leftarrow> bitset_set (status t) (unat fragno);
          Some (True, t\<lparr>frags := AList.update fragno frag (frags t), status := st\<rparr>)
        })"

section \<open>Integers survive the wire\<close>

lemma length_le_bytes [simp]: "length (le_bytes k n) = k"
  by (induction k arbitrary: n) auto

lemma le_val_le_bytes: "le_val (le_bytes k n) = n mod 256 ^ k"
proof (induction k arbitrary: n)
  case (Suc k)
  have "unat (of_nat n :: byte) = n mod 256" by (simp add: unat_of_nat take_bit_eq_mod)
  then show ?case using Suc by (simp add: mod_mult2_eq)
qed simp

lemma le_val_2: "n < 2 ^ 16 \<Longrightarrow> le_val (le_bytes 2 n) = n"
  by (simp add: le_val_le_bytes)

lemma le_val_8: "of_nat (le_val (le_bytes 8 (unat w))) = (w :: u64)"
proof -
  have "unat w < 256 ^ 8" using unsigned_less [of w, where 'a = nat] by simp
  then show ?thesis by (simp add: le_val_le_bytes)
qed

lemma length_set_info: "32 \<le> length hash \<Longrightarrow> length (set_info hash i f l n fl) = 48"
  by (simp add: set_info_def)

lemma set_info_simps:
  assumes "length hash = 32"
  shows "xmit_hash (set_info hash i f l n fl) = hash"
    "xmit_msgid (set_info hash i f l n fl) = i"
    "f < 2 ^ 16 \<Longrightarrow> xmit_fragsize (set_info hash i f l n fl) = f"
    "l < 2 ^ 16 \<Longrightarrow> xmit_lastfrag (set_info hash i f l n fl) = l"
    "xmit_numfrags (set_info hash i f l n fl) = unat n"
    "xmit_flags (set_info hash i f l n fl) = fl"
  using assms
  by (simp_all add: set_info_def xmit_hash_def xmit_msgid_def xmit_fragsize_def xmit_lastfrag_def
      xmit_numfrags_def xmit_flags_def le_val_2 le_val_8 nth_append)

section \<open>Cutting a message\<close>

definition nfrags :: "byte list \<Rightarrow> nat" where
  "nfrags m = (length m - 1) div MTU"

definition chunk :: "byte list \<Rightarrow> nat \<Rightarrow> byte list" where
  "chunk m i = take MTU (drop (i * MTU) m)"

lemma nfrags_0: "nfrags m = 0 \<longleftrightarrow> length m \<le> MTU"
  by (auto simp: nfrags_def MTU_def div_eq_0_iff)

lemma nfrags_drop: "MTU < length m \<Longrightarrow> nfrags m = Suc (nfrags (drop MTU m))"
  by (simp add: nfrags_def MTU_def)

lemma nfrags_bounds: "nfrags m * MTU \<le> length m" "length m - nfrags m * MTU \<le> MTU"
  by (simp_all add: nfrags_def MTU_def)

lemma length_chunk: "i < nfrags m \<Longrightarrow> length (chunk m i) = MTU"
proof -
  assume "i < nfrags m"
  then have "Suc i * MTU \<le> nfrags m * MTU" by (intro mult_le_mono1) simp
  then have "Suc i * MTU \<le> length m" using nfrags_bounds(1) [of m] by simp
  then show ?thesis by (simp add: chunk_def)
qed

lemma chunk_drop: "chunk (drop MTU m) i = chunk m (Suc i)"
  by (simp add: chunk_def add.commute)

lemma concat_chunks: "n * MTU \<le> length m \<Longrightarrow> concat (map (chunk m) [0..<n]) = take (n * MTU) m"
  by (induction n) (simp_all add: chunk_def add.commute [of MTU] take_add)

lemma update_fresh: "k \<notin> fst ` set al \<Longrightarrow> AList.update k v al = al @ [(k, v)]"
  by (induction al) auto

lemma put_message_loop_eq:
  assumes "k + nfrags m < 256" and "\<And>x. x \<in> fst ` set fs \<Longrightarrow> unat x < k"
  shows "put_message_loop m (of_nat k) fs = (drop (nfrags m * MTU) m, of_nat (k + nfrags m),
    fs @ map (\<lambda>i. (of_nat (k + i), chunk m i)) [0..<nfrags m])"
  using assms
proof (induction "nfrags m" arbitrary: m k fs)
  case 0
  then have "\<not> MTU < length m" using nfrags_0 [of m] by simp
  then show ?case using 0 by (simp add: put_message_loop.simps)
next
  case (Suc n)
  have lt: "MTU < length m" using Suc.hyps(2) nfrags_0 [of m] by simp
  have n: "n = nfrags (drop MTU m)" using nfrags_drop [OF lt] Suc.hyps(2) by simp
  have k: "unat (of_nat k :: byte) = k"
    using Suc.prems(1) by (simp add: unat_of_nat take_bit_nat_eq_self)
  have fresh: "of_nat k \<notin> fst ` set fs" using Suc.prems(2) [of "of_nat k"] k by auto
  have "put_message_loop m (of_nat k) fs =
      put_message_loop (drop MTU m) (of_nat (Suc k)) (fs @ [(of_nat k, chunk m 0)])"
    using lt by (subst put_message_loop.simps) (simp add: update_fresh [OF fresh] chunk_def add.commute)
  also have "\<dots> = (drop (n * MTU) (drop MTU m), of_nat (Suc k + n),
      (fs @ [(of_nat k, chunk m 0)]) @ map (\<lambda>i. (of_nat (Suc k + i), chunk (drop MTU m) i)) [0..<n])"
    unfolding n
  proof (rule Suc.hyps(1) [OF n])
    show "Suc k + nfrags (drop MTU m) < 256" using Suc.prems(1) Suc.hyps(2) n by simp
    show "unat x < Suc k" if "x \<in> fst ` set (fs @ [(of_nat k, chunk m 0)])" for x
    proof -
      from that have "x \<in> fst ` set fs \<or> x = of_nat k" by auto
      then show ?thesis using Suc.prems(2) [of x] k by (elim disjE) simp_all
    qed
  qed
  also have "\<dots> = (drop (nfrags m * MTU) m, of_nat (k + nfrags m),
      fs @ map (\<lambda>i. (of_nat (k + i), chunk m i)) [0..<nfrags m])"
    by (simp add: Suc.hyps(2) [symmetric] upt_conv_Cons map_Suc_upt [symmetric] chunk_drop
        add.commute comp_def del: upt_Suc)
  finally show ?case .
qed

lemma outbound_eq:
  assumes "nfrags m < 256"
  shows "transit_message_outbound m hash i =
    \<lparr>msginfo = set_info hash i MTU (length m - nfrags m * MTU) (of_nat (nfrags m)) 1, status = 0,
     frags = map (\<lambda>i. (of_nat i, chunk m i)) [0..<nfrags m], lastfrag = drop (nfrags m * MTU) m\<rparr>"
  using put_message_loop_eq [of 0 m "[]"] assms by (simp add: transit_message_outbound_def)

section \<open>The frames of a message\<close>

definition frame_bytes :: "byte \<Rightarrow> byte \<Rightarrow> byte list \<Rightarrow> byte list" where
  "frame_bytes t flags body = [0, t] @ le_bytes 2 (length body) @ [0, flags] @ body"

definition frag_body :: "u64 \<Rightarrow> nat \<Rightarrow> byte list \<Rightarrow> byte list" where
  "frag_body i no data = le_bytes 8 (unat i) @ [of_nat no] @ data"

lemma length_frame_bytes: "length (frame_bytes t flags body) = 6 + length body"
  by (simp add: frame_bytes_def)

lemma init_sendbuf_eq:
  "init_sendbuf (sendbuf (n + 6)) t n flags =
    Some ([0, t] @ le_bytes 2 n @ [0, flags] @ replicate n 0)"
proof -
  have "sendbuf (n + 6) = replicate 6 0 @ replicate n 0"
    by (simp add: sendbuf_def add.commute flip: replicate_add)
  then show ?thesis
    unfolding init_sendbuf_def
    using mem_store_head [of "[0, t] @ le_bytes 2 n @ [0, flags]" "replicate 6 0" "replicate n 0"]
    by simp
qed

text \<open>Storing at offset \<open>p\<close> past a prefix, over the first bytes of the rest.\<close>

lemma mem_store_over:
  assumes "p = length a" "length bs \<le> length r"
  shows "mem_store (a @ r) p bs = Some (a @ bs @ drop (length bs) r)"
  using assms by (simp add: mem_store_def)

lemma mem_load_skip: "mem_load (a @ b) (length a + i) n = mem_load b i n"
  by (simp add: mem_load_def)

lemma generate_xmit_eq:
  assumes "length (msginfo t) = 48" "length (lastfrag t) < 2 ^ 15"
  shows "generate_xmit queue flags t =
    Some (queue @ [frame_bytes eXMIT flags (msginfo t @ lastfrag t)])"
proof -
  let ?n = "length (lastfrag t) + 48"
  let ?h = "[0, eXMIT] @ le_bytes 2 ?n @ [0, flags]"
  have "mem_store (?h @ replicate ?n 0) 6 (msginfo t) =
      Some (?h @ msginfo t @ replicate (length (lastfrag t)) 0)"
    using assms by (subst mem_store_over) simp_all
  moreover have "mem_store (?h @ msginfo t @ replicate (length (lastfrag t)) 0) 54 (lastfrag t) =
      Some (?h @ msginfo t @ lastfrag t)"
    using mem_store_over [of 54 "?h @ msginfo t" "lastfrag t" "replicate (length (lastfrag t)) 0"]
      assms by simp
  ultimately show ?thesis
    using assms init_sendbuf_eq [of ?n eXMIT flags]
    by (simp add: generate_xmit_def frame_bytes_def hdr_data_def add.commute [of 48])
qed

lemma retransmit_loop_eq:
  assumes "xmit_fragsize (msginfo t) = MTU"
    and "\<And>no f. (no, f) \<in> set fs \<Longrightarrow> unat no < 32 \<and> length f = MTU"
  shows "retransmit_loop t flags fs queue =
    Some (queue @ map (\<lambda>(no, f). frame_bytes eFRAG flags (frag_body (xmit_msgid (msginfo t)) (unat no) f))
      (filter (\<lambda>(no, f). \<not> bit (status t) (unat no)) fs))"
  using assms(2)
proof (induction fs arbitrary: queue)
  case (Cons nf fs)
  obtain no f where nf: "nf = (no, f)" by fastforce
  have no: "unat no < 32" "length f = MTU" using Cons.prems [of no f] nf by simp_all
  note IH = Cons.IH [OF Cons.prems [OF list.set_intros(2)]]
  let ?h = "[0, eFRAG] @ le_bytes 2 1033 @ [0, flags]"
  let ?i = "le_bytes 8 (unat (xmit_msgid (msginfo t)))"
  have "mem_store (?h @ replicate 1033 0) 6 ?i = Some (?h @ ?i @ replicate 1025 0)"
    by (subst mem_store_over) simp_all
  moreover have "mem_store (?h @ ?i @ replicate 1025 0) 14 [no] = Some (?h @ ?i @ [no] @ replicate 1024 0)"
    using mem_store_over [of 14 "?h @ ?i" "[no]" "replicate 1025 0"] by simp
  moreover have "mem_store (?h @ ?i @ [no] @ replicate 1024 0) 15 f = Some (?h @ ?i @ [no] @ f)"
    using mem_store_over [of 15 "?h @ ?i @ [no]" f "replicate 1024 0"] no by (simp add: MTU_def)
  moreover have "mem_load f 0 1024 = Some f" using no by (simp add: mem_load_def MTU_def)
  ultimately show ?case
    using no assms(1) IH init_sendbuf_eq [of 1033 eFRAG flags]
    by (simp add: nf bitset_test_def MTU_def hdr_data_def frame_bytes_def frag_body_def)
qed simp

lemma frame_bytes_header:
  assumes "length body < 2 ^ 16"
  shows "hdr_msgtype (frame_bytes t flags body @ pad) = Some t"
    "hdr_flags (frame_bytes t flags body @ pad) = Some flags"
    "hdr_size (frame_bytes t flags body @ pad) = Some (length body)"
    "mem_load (frame_bytes t flags body @ pad) (6 + i) n = mem_load (body @ pad) i n"
proof -
  have "frame_bytes t flags body @ pad = [0, t] @ le_bytes 2 (length body) @ [0, flags] @ body @ pad"
    by (simp add: frame_bytes_def)
  then show "hdr_size (frame_bytes t flags body @ pad) = Some (length body)"
    "mem_load (frame_bytes t flags body @ pad) (6 + i) n = mem_load (body @ pad) i n"
    using assms mem_load_skip [of "[0, t] @ le_bytes 2 (length body) @ [0, flags]" "body @ pad" i n]
    by (simp_all add: hdr_size_def mem_load_def [of _ 2] le_val_2)
  show "hdr_msgtype (frame_bytes t flags body @ pad) = Some t"
    "hdr_flags (frame_bytes t flags body @ pad) = Some flags"
    by (simp_all add: hdr_msgtype_def hdr_flags_def hdr_byte_def frame_bytes_def nth_append)
qed

section \<open>Collecting the fragments\<close>

lemma bit_or_push: "bit ((st :: u32) OR push_bit i 1) j \<longleftrightarrow> bit st j \<or> j = i \<and> j < 32"
  by (auto simp: bit_simps)

lemma get_bitmask_eq: "get_bitmask t = status t"
proof (rule bit_word_eqI)
  have "bit (foldl (\<lambda>bm i. bm OR (if bit st i then push_bit i 1 else 0)) m is) j \<longleftrightarrow>
      bit m j \<or> j \<in> set is \<and> bit st j \<and> j < 32" for m st :: u32 and j "is"
    by (induction "is" arbitrary: m) (auto simp: bit_simps)
  then show "bit (get_bitmask t) n = bit (status t) n" if "n < LENGTH(32)" for n
    using that by (simp add: get_bitmask_def)
qed

lemma transit_ack_eq: "transit_ack bm t = t\<lparr>status := status t OR bm\<rparr>"
proof -
  have "bm AND push_bit i 1 \<noteq> 0 \<longleftrightarrow> bit bm i" if "i < 32" for i
    using that by (simp add: and_exp_eq_0_iff_not_bit [of bm] push_bit_of_1)
  then have "bit (foldl (\<lambda>st i. if bm AND push_bit i 1 \<noteq> 0 then st OR push_bit i 1 else st) m is) j
      \<longleftrightarrow> bit m j \<or> j \<in> set is \<and> bit bm j" if "\<forall>i\<in>set is. i < 32" for m :: u32 and j "is"
    using that by (induction "is" arbitrary: m) (auto simp: bit_simps)
  then have "foldl (\<lambda>st i. if bm AND push_bit i 1 \<noteq> 0 then st OR push_bit i 1 else st)
      (status t) [0..<32] = status t OR bm"
    by (intro bit_word_eqI) (auto simp: bit_or_iff)
  then show ?thesis by (simp add: transit_ack_def)
qed

lemma all_received_eq:
  "\<forall>i\<in>set is. i < 32 \<Longrightarrow> all_received st is = Some (\<forall>i\<in>set is. bit st i)"
  by (induction "is") (auto simp: bitset_test_def)

text \<open>
  The receiver holds the description of \<open>m\<close>, its last fragment, and the fragments numbered in \<open>R\<close>.
\<close>

definition collecting ::
  "byte list \<Rightarrow> byte list \<Rightarrow> u64 \<Rightarrow> nat set \<Rightarrow> transit_message \<Rightarrow> bool" where
  "collecting m hash i R t \<longleftrightarrow>
     nfrags m \<le> 32 \<and> length hash = 32 \<and> R \<subseteq> {..<nfrags m} \<and>
     msginfo t = set_info hash i MTU (length m - nfrags m * MTU) (of_nat (nfrags m)) 1 \<and>
     lastfrag t = drop (nfrags m * MTU) m \<and>
     (\<forall>j < 32. bit (status t) j \<longleftrightarrow> j \<in> R) \<and>
     (\<forall>j < nfrags m. \<exists>f. map_of (frags t) (of_nat j) = Some f \<and> length f = MTU \<and>
        (j \<in> R \<longrightarrow> f = chunk m j))"

lemma collecting_info:
  assumes "collecting m hash i R t"
  shows "xmit_fragsize (msginfo t) = MTU" "xmit_numfrags (msginfo t) = nfrags m"
    "xmit_lastfrag (msginfo t) = length m - nfrags m * MTU" "xmit_hash (msginfo t) = hash"
    "xmit_msgid (msginfo t) = i" "xmit_totalsize (msginfo t) = length m"
proof -
  have c: "length hash = 32" "nfrags m \<le> 32"
      "msginfo t = set_info hash i MTU (length m - nfrags m * MTU) (of_nat (nfrags m)) 1"
    using assms by (simp_all add: collecting_def)
  have "length m - nfrags m * MTU < 2 ^ 16" "unat (of_nat (nfrags m) :: byte) = nfrags m"
    using c nfrags_bounds(2) [of m] by (simp_all add: MTU_def unat_of_nat take_bit_nat_eq_self)
  then show "xmit_fragsize (msginfo t) = MTU" "xmit_numfrags (msginfo t) = nfrags m"
    "xmit_lastfrag (msginfo t) = length m - nfrags m * MTU" "xmit_hash (msginfo t) = hash"
    "xmit_msgid (msginfo t) = i"
    using c by (simp_all add: set_info_simps MTU_def)
  then show "xmit_totalsize (msginfo t) = length m"
    using nfrags_bounds(1) [of m] by (simp add: xmit_totalsize_def mult.commute)
qed

lemma collecting_init:
  assumes "nfrags m \<le> 32" "length hash = 32"
  shows "collecting m hash i {} ((transit_message_inbound
    (set_info hash i MTU (length m - nfrags m * MTU) (of_nat (nfrags m)) 1))
      \<lparr>lastfrag := drop (nfrags m * MTU) m\<rparr>)"
proof -
  have u: "unat (of_nat (nfrags m) :: byte) = nfrags m"
    using assms by (simp add: unat_of_nat take_bit_nat_eq_self)
  have "map_of (map (\<lambda>i. (of_nat i :: byte, f)) [0..<n]) (of_nat j) = Some f"
    if "j < n" for j n and f :: "byte list"
  proof -
    have "(of_nat j, f) \<in> set (map (\<lambda>i. (of_nat i :: byte, f)) [0..<n])"
      using that by (auto simp: image_iff intro: bexI [of _ j])
    from weak_map_of_SomeI [OF this]
    obtain g where g: "map_of (map (\<lambda>i. (of_nat i :: byte, f)) [0..<n]) (of_nat j) = Some g"
      by blast
    from map_of_SomeD [OF g] have "g = f" by auto
    with g show ?thesis by simp
  qed
  then show ?thesis
    using assms by (simp add: collecting_def transit_message_inbound_def set_info_simps u MTU_def)
qed

lemma byte_unat_of_nat: "i < 256 \<Longrightarrow> unat (of_nat i :: byte) = i"
  by (simp add: unat_of_nat take_bit_nat_eq_self)

lemma byte_of_nat_inj: "i < 256 \<Longrightarrow> j < 256 \<Longrightarrow> (of_nat i :: byte) = of_nat j \<longleftrightarrow> i = j"
  by (metis byte_unat_of_nat)

lemma collecting_put:
  assumes c: "collecting m hash i R t" and j: "j < nfrags m"
    and ld: "mem_load ptr off MTU = Some (chunk m j)"
  shows "\<exists>t'. put_frag (of_nat j) ptr off t = Some (True, t') \<and> collecting m hash i (insert j R) t'"
proof -
  have n: "nfrags m \<le> 32" "j < 32" using c j by (simp_all add: collecting_def)
  have uj: "unat (of_nat j :: byte) = j" using n by (simp add: byte_unat_of_nat)
  from c j obtain old where old: "map_of (frags t) (of_nat j) = Some old" "length old = MTU"
    by (auto simp: collecting_def)
  let ?t = "t\<lparr>frags := AList.update (of_nat j) (chunk m j) (frags t), status := status t OR push_bit j 1\<rparr>"
  have "mem_store old 0 (chunk m j) = Some (chunk m j)"
    using old length_chunk [OF j] mem_store_head [of "chunk m j" old "[]"] by simp
  then have "put_frag (of_nat j) ptr off t = Some (True, ?t)"
    using old ld n collecting_info(1) [OF c] by (simp add: put_frag_def uj bitset_set_def)
  moreover have "map_of (frags ?t) (of_nat l) =
      (if l = j then Some (chunk m j) else map_of (frags t) (of_nat l))" if "l < nfrags m" for l
    using that n byte_of_nat_inj [of l j] by (simp add: update_conv')
  then have "collecting m hash i (insert j R) ?t"
    using c j n length_chunk [OF j]
    by (simp add: collecting_def bit_or_push del: push_bit_of_1) blast
  ultimately show ?thesis by blast
qed

lemma collecting_completed:
  assumes "collecting m hash i R t"
  shows "transit_completed t = Some (R = {..<nfrags m})"
proof -
  have "nfrags m \<le> 32" "R \<subseteq> {..<nfrags m}" "\<forall>j < 32. bit (status t) j \<longleftrightarrow> j \<in> R"
    using assms by (simp_all add: collecting_def)
  then show ?thesis
    using collecting_info(2) [OF assms] all_received_eq [of "[0..<nfrags m]" "status t"]
    by (auto simp: transit_completed_def)
qed

lemma reassemble_loop_eq:
  assumes c: "collecting m hash i {..<nfrags m} t" and "j + n \<le> nfrags m"
  shows "reassemble_loop t [j..<j + n] (j * MTU) (take (j * MTU) m @ replicate (length m - j * MTU) 0) =
    Some (True, (j + n) * MTU,
      take ((j + n) * MTU) m @ replicate (length m - (j + n) * MTU) 0)"
  using assms(2)
proof (induction n arbitrary: j)
  case (Suc n)
  have j: "j < nfrags m" "j < 32" using Suc.prems c by (simp_all add: collecting_def)
  obtain f where f: "map_of (frags t) (of_nat j) = Some (chunk m j)" "bit (status t) j"
    using c j by (auto simp: collecting_def)
  have "Suc j * MTU \<le> nfrags m * MTU" using j by (intro mult_le_mono1) simp
  then have jl: "Suc j * MTU \<le> length m" using nfrags_bounds(1) [of m] by simp
  have len: "length (chunk m j) = MTU" by (rule length_chunk [OF j(1)])
  have "mem_store (take (j * MTU) m @ replicate (length m - j * MTU) 0) (j * MTU) (chunk m j) =
      Some (take (Suc j * MTU) m @ replicate (length m - Suc j * MTU) 0)"
    using jl len
    by (subst mem_store_over) (simp_all add: chunk_def add.commute [of MTU] take_add diff_diff_add)
  then show ?case
    using Suc.IH [of "Suc j"] Suc.prems f j len collecting_info(1) [OF c]
    by (simp add: upt_conv_Cons bitset_test_def mem_load_def add.commute [of MTU] del: upt_Suc)
qed simp

lemma collecting_reassemble:
  assumes c: "collecting m hash i {..<nfrags m} t" shows "reassemble t = Some (True, m)"
proof -
  have l: "lastfrag t = drop (nfrags m * MTU) m" using c by (simp add: collecting_def)
  have "mem_store (take (nfrags m * MTU) m @ replicate (length m - nfrags m * MTU) 0)
      (nfrags m * MTU) (lastfrag t) = Some m"
    using nfrags_bounds(1) [of m] by (subst mem_store_over) (simp_all add: l)
  then show ?thesis
    using reassemble_loop_eq [OF c, of 0 "nfrags m"] collecting_info [OF c]
    by (simp add: reassemble_def)
qed

end
