(* ===== verification/Codel.thy ===== *)
theory Codel
  imports Prelude "HOL-Library.Multiset"
begin

text \<open>
  \<open>udap/codel.hpp\<close>: the queue of outbound frames. The intent is controlled delay: drop frames
  that waited too long. The accessors of the frame's time stamp are parameters, as they are
  template arguments of the class. The theorem shows what the code does: under a clock
  that does not run backwards nothing is ever dropped and the newest frame comes out first.
\<close>

record 'a CoDelQueue =
  firstPut :: u64
  dropNum :: nat
  nextTickInterval :: u64
  m_Queue :: "'a list"

definition dropMs :: u64 where "dropMs = 20"
definition initialIntervalMs :: u64 where "initialIntervalMs = 100"

definition CoDelQueue_new :: "'a CoDelQueue" where
  "CoDelQueue_new = \<lparr>firstPut = 0, dropNum = 0, nextTickInterval = initialIntervalMs, m_Queue = []\<rparr>"

text \<open>
  \<open>std::priority_queue\<close> with \<open>CoDelCompare\<close>: the top is an element with the greatest time stamp.
  The standard does not say which one of several; here it is the first that came.
\<close>

fun queue_top :: "('a \<Rightarrow> u64) \<Rightarrow> 'a \<Rightarrow> 'a list \<Rightarrow> 'a" where
  "queue_top getTime x [] = x"
| "queue_top getTime x (y # ys) = queue_top getTime (if getTime x < getTime y then y else x) ys"

text \<open>The integer part of \<open>initialIntervalMs / sqrt(n)\<close>, the greatest \<open>k\<close> with \<open>k\<^sup>2 n \<le> 100\<^sup>2\<close>.\<close>

definition interval_over_sqrt :: "nat \<Rightarrow> nat" where
  "interval_over_sqrt n = last (filter (\<lambda>k. k * k * n \<le> 10000) [0..<101])"

definition CoDel_Put ::
  "('a \<Rightarrow> u64) \<Rightarrow> (u64 \<Rightarrow> 'a \<Rightarrow> 'a) \<Rightarrow> u64 \<Rightarrow> 'a \<Rightarrow> 'a CoDelQueue \<Rightarrow> 'a CoDelQueue" where
  "CoDel_Put getTime putTime now i q =
     (let i = putTime now i in
      q\<lparr>m_Queue := m_Queue q @ [i],
        firstPut := if firstPut q = 0 then getTime i else firstPut q\<rparr>)"

lemma queue_top_in: "queue_top getTime x ys \<in> set (x # ys)"
  by (induction getTime x ys rule: queue_top.induct) auto

function CoDel_loop ::
  "('a \<Rightarrow> u64) \<Rightarrow> u64 \<Rightarrow> u64 \<Rightarrow> 'a CoDelQueue \<Rightarrow> 'a list \<Rightarrow> 'a CoDelQueue \<times> 'a list" where
  "CoDel_loop getTime start lowest q result =
     (case m_Queue q of
        [] \<Rightarrow> (q, result)
      | x # xs \<Rightarrow>
          let item = queue_top getTime x xs;
              dlt = start - getTime item;
              lowest = min dlt lowest;
              rest = remove1 item (x # xs)
          in if xs = [] \<and> lowest > dropMs
             then (q\<lparr>nextTickInterval := nextTickInterval q + of_nat (interval_over_sqrt (dropNum q + 1)),
                     dropNum := dropNum q + 1, m_Queue := rest\<rparr>, result)
             else let q = (if xs = [] then q\<lparr>nextTickInterval := initialIntervalMs, dropNum := 0\<rparr> else q)
                  in CoDel_loop getTime start lowest (q\<lparr>m_Queue := rest\<rparr>) (result @ [item]))"
  by pat_completeness auto
termination
proof (relation "measure (\<lambda>(g, s, l, q, r). length (m_Queue q))", simp, goal_cases)
  case (1 getTime start lowest q result x xs item dlt low rest q')
  then have "item \<in> set (x # xs)" using queue_top_in by metis
  then show ?case using 1 by (auto simp: length_remove1 intro: diff_less length_pos_if_in_set)
qed

declare CoDel_loop.simps [simp del]

definition CoDel_Process :: "('a \<Rightarrow> u64) \<Rightarrow> 'a CoDelQueue \<Rightarrow> 'a CoDelQueue \<times> 'a list" where
  "CoDel_Process getTime q =
     (let (q, result) = CoDel_loop getTime (firstPut q) 0xFFFFFFFFFFFFFFFF q []
      in (q\<lparr>firstPut := 0\<rparr>, result))"

section \<open>Nothing is dropped\<close>

lemma queue_top_max: "y \<in> set (x # ys) \<Longrightarrow> getTime y \<le> getTime (queue_top getTime x ys)"
proof (induction getTime x ys arbitrary: y rule: queue_top.induct)
  case (2 getTime x z ys)
  show ?case
  proof (cases "y = x \<or> y = z")
    case True
    then have "getTime y \<le> getTime (if getTime x < getTime z then z else x)" by auto
    also have "\<dots> \<le> getTime (queue_top getTime (if getTime x < getTime z then z else x) ys)"
      by (rule "2.IH") simp
    finally show ?thesis by simp
  next
    case False
    with "2.prems" "2.IH" [of y] show ?thesis by simp
  qed
qed simp

text \<open>The queue between two calls of \<open>Process\<close>: the first stamp is the least one.\<close>

definition codel_inv :: "('a \<Rightarrow> u64) \<Rightarrow> 'a CoDelQueue \<Rightarrow> bool" where
  "codel_inv getTime q \<longleftrightarrow>
     (if m_Queue q = [] then firstPut q = 0
      else firstPut q \<noteq> 0 \<and> (\<exists>i\<in>set (m_Queue q). getTime i = firstPut q) \<and>
           (\<forall>i\<in>set (m_Queue q). firstPut q \<le> getTime i))"

lemma loop_step:
  assumes q: "m_Queue q = x # xs" and st: "\<exists>i\<in>set (x # xs). getTime i = start"
    "\<forall>i\<in>set (x # xs). start \<le> getTime i"
  defines "item \<equiv> queue_top getTime x xs"
  defines "q' \<equiv> (if xs = [] then q\<lparr>nextTickInterval := initialIntervalMs, dropNum := 0\<rparr> else q)
    \<lparr>m_Queue := remove1 item (x # xs)\<rparr>"
  shows "CoDel_loop getTime start lowest q result =
      CoDel_loop getTime start (min (start - getTime item) lowest) q' (result @ [item])"
    "item \<in> set (x # xs)" "\<And>i. i \<in> set (x # xs) \<Longrightarrow> getTime i \<le> getTime item"
    "xs \<noteq> [] \<Longrightarrow> \<exists>i\<in>set (m_Queue q'). getTime i = start"
proof -
  show it: "item \<in> set (x # xs)" unfolding item_def by (rule queue_top_in)
  show mx: "\<And>i. i \<in> set (x # xs) \<Longrightarrow> getTime i \<le> getTime item"
    unfolding item_def by (rule queue_top_max)
  have "\<not> (xs = [] \<and> min (start - getTime item) lowest > dropMs)"
  proof
    assume a: "xs = [] \<and> min (start - getTime item) lowest > dropMs"
    then have "getTime item = start" using st(1) by (simp add: item_def)
    with a show False by (simp add: min_def dropMs_def split: if_splits)
  qed
  then show "CoDel_loop getTime start lowest q result =
      CoDel_loop getTime start (min (start - getTime item) lowest) q' (result @ [item])"
    by (subst CoDel_loop.simps) (auto simp: q Let_def item_def q'_def)
  show "\<exists>i\<in>set (m_Queue q'). getTime i = start" if "xs \<noteq> []"
  proof (cases "getTime item = start")
    case True
    from that it have "remove1 item (x # xs) \<noteq> []"
      by (cases xs) auto
    then obtain i where i: "i \<in> set (remove1 item (x # xs))" by fastforce
    then have "i \<in> set (x # xs)" using set_remove1_subset by fastforce
    with True mx [of i] st(2) have "getTime i = start" by (metis order_antisym)
    with i show ?thesis by (auto simp: q'_def)
  next
    case False
    from st(1) obtain i where i: "i \<in> set (x # xs)" "getTime i = start" by blast
    with False have "i \<in> set (remove1 item (x # xs))" by (metis in_set_remove1)
    with i show ?thesis by (auto simp: q'_def)
  qed
qed

lemma loop_delivers:
  assumes "m_Queue q \<noteq> []" "\<exists>i\<in>set (m_Queue q). getTime i = start"
    "\<forall>i\<in>set (m_Queue q). start \<le> getTime i"
  shows "\<exists>q' r. CoDel_loop getTime start lowest q result = (q', result @ r) \<and>
    mset r = mset (m_Queue q) \<and> sorted_wrt (\<lambda>a b. getTime b \<le> getTime a) r \<and>
    m_Queue q' = [] \<and> dropNum q' = 0 \<and> nextTickInterval q' = initialIntervalMs"
  using assms
proof (induction "length (m_Queue q)" arbitrary: q lowest result rule: less_induct)
  case less
  obtain x xs where q: "m_Queue q = x # xs" using less.prems(1) by (cases "m_Queue q") auto
  define item where "item = queue_top getTime x xs"
  define q' where "q' = (if xs = [] then q\<lparr>nextTickInterval := initialIntervalMs, dropNum := 0\<rparr> else q)
    \<lparr>m_Queue := remove1 item (x # xs)\<rparr>"
  note st = loop_step [OF q less.prems(2,3) [unfolded q], folded item_def, folded q'_def]
  have mq: "m_Queue q' = remove1 item (x # xs)" by (simp add: q'_def)
  show ?case
  proof (cases "xs = []")
    case True
    then have "item = x" "m_Queue q' = []" using st(2) mq by simp_all
    then show ?thesis
      using True q by (subst st(1)) (auto simp: CoDel_loop.simps q'_def)
  next
    case False
    have sub: "set (remove1 item (x # xs)) \<subseteq> set (x # xs)" by (rule set_remove1_subset)
    have len: "length (m_Queue q') < length (m_Queue q)"
      using st(2) mq q by (auto simp: length_remove1 intro: diff_less length_pos_if_in_set)
    have ne: "m_Queue q' \<noteq> []" using st(4) [OF False] by auto
    have ge: "\<forall>i\<in>set (m_Queue q'). start \<le> getTime i"
      using less.prems(3) sub unfolding mq q by blast
    obtain q'' r where r: "CoDel_loop getTime start (min (start - getTime item) lowest) q'
        (result @ [item]) = (q'', (result @ [item]) @ r)" "mset r = mset (m_Queue q')"
        "sorted_wrt (\<lambda>a b. getTime b \<le> getTime a) r"
        "m_Queue q'' = [] \<and> dropNum q'' = 0 \<and> nextTickInterval q'' = initialIntervalMs"
      using less.hyps [OF len ne st(4) [OF False] ge] by blast
    have "mset (item # r) = mset (m_Queue q)"
      using r(2) mq st(2) by (auto simp: q)
    moreover have "set r \<subseteq> set (x # xs)"
      using r(2) sub mq by (metis set_mset_mset)
    then have "sorted_wrt (\<lambda>a b. getTime b \<le> getTime a) (item # r)"
      using r(3) st(3) by auto
    ultimately show ?thesis
      using st(1) [of lowest result] r(1,4)
      by (intro exI [of _ q''] exI [of _ "item # r"]) simp
  qed
qed

lemma Put_inv:
  assumes "codel_inv getTime q" "getTime (putTime now i) = now" "now \<noteq> 0" "firstPut q \<le> now"
  shows "codel_inv getTime (CoDel_Put getTime putTime now i q)"
  using assms by (auto simp: codel_inv_def CoDel_Put_def split: if_splits)

definition CoDel_puts ::
  "('a \<Rightarrow> u64) \<Rightarrow> (u64 \<Rightarrow> 'a \<Rightarrow> 'a) \<Rightarrow> (u64 \<times> 'a) list \<Rightarrow> 'a CoDelQueue \<Rightarrow> 'a CoDelQueue" where
  "CoDel_puts getTime putTime ps q = foldl (\<lambda>q (now, i). CoDel_Put getTime putTime now i q) q ps"

lemma puts_inv:
  assumes "codel_inv getTime q" "\<And>now i. getTime (putTime now i) = now"
    "sorted (map fst ps)" "\<forall>p\<in>set ps. fst p \<noteq> 0 \<and> firstPut q \<le> fst p"
  shows "codel_inv getTime (CoDel_puts getTime putTime ps q) \<and>
    m_Queue (CoDel_puts getTime putTime ps q) = m_Queue q @ map (\<lambda>(now, i). putTime now i) ps"
  using assms
proof (induction ps arbitrary: q)
  case (Cons p ps)
  obtain now i where p: "p = (now, i)" by fastforce
  let ?q = "CoDel_Put getTime putTime now i q"
  have "codel_inv getTime ?q" using Cons.prems p by (intro Put_inv) simp_all
  moreover have "\<forall>p\<in>set ps. fst p \<noteq> 0 \<and> firstPut ?q \<le> fst p"
    using Cons.prems p by (auto simp: CoDel_Put_def Let_def)
  ultimately have "codel_inv getTime (CoDel_puts getTime putTime ps ?q) \<and>
      m_Queue (CoDel_puts getTime putTime ps ?q) = m_Queue ?q @ map (\<lambda>(now, i). putTime now i) ps"
    using Cons.prems(2,3) by (intro Cons.IH) simp_all
  moreover have "CoDel_puts getTime putTime (p # ps) q = CoDel_puts getTime putTime ps ?q"
    by (simp add: p CoDel_puts_def)
  moreover have "m_Queue ?q = m_Queue q @ [putTime now i]" by (simp add: CoDel_Put_def Let_def)
  ultimately show ?case by (simp add: p)
qed (simp add: CoDel_puts_def)

text \<open>
  \<open>CoDelQueue\<close>: frames put at times that never decrease (and are not 0) all come out of the next
  \<open>Process\<close>, however long they waited, in the order of falling time stamps: the newest first. The
  queue is empty afterwards and ready for the next round.
\<close>

theorem codel_never_drops:
  assumes "codel_inv getTime q" "\<And>now i. getTime (putTime now i) = now"
    "sorted (map fst ps)" "\<forall>p\<in>set ps. fst p \<noteq> 0 \<and> firstPut q \<le> fst p"
  shows "\<exists>q' r. CoDel_Process getTime (CoDel_puts getTime putTime ps q) = (q', r) \<and>
    mset r = mset (m_Queue q) + mset (map (\<lambda>(now, i). putTime now i) ps) \<and>
    sorted_wrt (\<lambda>a b. getTime b \<le> getTime a) r \<and> m_Queue q' = [] \<and> codel_inv getTime q'"
proof -
  let ?q = "CoDel_puts getTime putTime ps q"
  have inv: "codel_inv getTime ?q" "m_Queue ?q = m_Queue q @ map (\<lambda>(now, i). putTime now i) ps"
    using puts_inv [of getTime q putTime ps] assms by simp_all
  show ?thesis
  proof (cases "m_Queue ?q = []")
    case True
    then have "CoDel_Process getTime ?q = (?q\<lparr>firstPut := 0\<rparr>, [])"
      by (simp add: CoDel_Process_def CoDel_loop.simps [of _ _ _ ?q])
    then show ?thesis
      using True inv(2) by (auto simp: codel_inv_def)
  next
    case False
    with inv loop_delivers [of ?q getTime "firstPut ?q" "0xFFFFFFFFFFFFFFFF" "[]"]
    show ?thesis by (auto simp: CoDel_Process_def codel_inv_def [of _ ?q] codel_inv_def [of _ "_\<lparr>firstPut := 0\<rparr>"])
  qed
qed

theorem codel_never_drops_witness:
  "\<exists>q' r. CoDel_Process fst (CoDel_puts fst (\<lambda>now i. (now, snd i))
      [(1, (0, ''old'')), (100000, (0, ''new''))] CoDelQueue_new) = (q', r) \<and>
    mset r = {#(1, ''old''), (100000, ''new'')#} \<and>
    sorted_wrt (\<lambda>a b. fst b \<le> fst a) r \<and> m_Queue q' = [] \<and> codel_inv fst q'"
  using codel_never_drops [of fst CoDelQueue_new "\<lambda>now i. (now, snd i)"
      "[(1, (0, ''old'')), (100000, (0, ''new''))]"]
  by (simp add: codel_inv_def CoDelQueue_new_def)

end
