(* ===== verification/Iwp_Session.thy ===== *)
theory Iwp_Session
  imports Iwp_Message Codel
begin

text \<open>
  \<open>udap/iwp_link.cpp\<close>, second part: the state of the frames of a session (\<open>frame_state\<close>) and the
  session itself, from the handshake to the delivery of messages. A step of a session is one
  call from the event loop, a timer or a worker thread; jobs for other threads and datagrams
  for the network are collected in the state. \<open>None\<close> is undefined behaviour (a null pointer, an
  array overrun) or an uncaught exception.
\<close>

section \<open>Frame state\<close>

record frame_state =
  rxflags :: byte
  txflags :: byte
  rxids :: u64
  txids :: u64
  lastEvent :: u64
  rx :: "(u64 \<times> transit_message) list"
  tx :: "(u64 \<times> transit_message) list"
  sendqueue :: "byte list list"

definition frame_state_new :: frame_state where
  "frame_state_new = \<lparr>rxflags = 0, txflags = 0, rxids = 0, txids = 0, lastEvent = 0, rx = [], tx = [],
     sendqueue = []\<rparr>"

definition flags_agree :: "byte \<Rightarrow> frame_state \<Rightarrow> bool" where
  "flags_agree flags fs \<longleftrightarrow> (rxflags fs AND flags) AND (txflags fs AND flags) = flags"

definition push_ackfor :: "u64 \<Rightarrow> u32 \<Rightarrow> frame_state \<Rightarrow> frame_state option" where
  "push_ackfor msgid bitmask fs = do {
     buf \<leftarrow> init_sendbuf (sendbuf (12 + 6)) eACKS 12 (txflags fs);
     buf \<leftarrow> mem_store buf hdr_data (le_bytes 8 (unat msgid));
     buf \<leftarrow> mem_store buf (hdr_data + 8) (le_bytes 4 (unat bitmask));
     Some (fs\<lparr>sendqueue := sendqueue fs @ [buf]\<rparr>)
   }"

text \<open>\<open>tx.insert\<close> keeps an entry that is already there.\<close>

definition queue_tx :: "u64 \<Rightarrow> transit_message \<Rightarrow> frame_state \<Rightarrow> frame_state option" where
  "queue_tx msgid msg fs = do {
     let fs = (case map_of (tx fs) msgid of None \<Rightarrow> fs\<lparr>tx := tx fs @ [(msgid, msg)]\<rparr> | Some _ \<Rightarrow> fs);
     q \<leftarrow> generate_xmit (sendqueue fs) (txflags fs) msg;
     Some (fs\<lparr>sendqueue := q\<rparr>)
   }"

fun retransmit_all ::
  "(u64 \<times> transit_message) list \<Rightarrow> byte \<Rightarrow> byte list list \<Rightarrow> byte list list option" where
  "retransmit_all [] flags q = Some q"
| "retransmit_all ((_, msg) # rest) flags q = do {
     q \<leftarrow> retransmit_frags q flags msg;
     retransmit_all rest flags q
   }"

definition retransmit :: "frame_state \<Rightarrow> frame_state option" where
  "retransmit fs = do {
     q \<leftarrow> retransmit_all (tx fs) (txflags fs) (sendqueue fs);
     Some (fs\<lparr>sendqueue := q\<rparr>)
   }"

definition got_acks :: "byte list \<Rightarrow> nat \<Rightarrow> frame_state \<Rightarrow> (bool \<times> frame_state) option" where
  "got_acks hdr sz fs = do {
     hsz \<leftarrow> hdr_size hdr;
     if hsz > sz then Some (False, fs)
     else if hsz < 12 then Some (False, fs)
     else do {
       idb \<leftarrow> mem_load hdr hdr_data 8;
       maskb \<leftarrow> mem_load hdr (hdr_data + 8) 4;
       let msgid = of_nat (le_val idb);
       let bitmask = of_nat (le_val maskb);
       case map_of (tx fs) msgid of
         None \<Rightarrow> Some (True, fs)
       | Some msg \<Rightarrow> do {
           let msg = transit_ack bitmask msg;
           done \<leftarrow> transit_completed msg;
           if done then Some (True, fs\<lparr>tx := AList.delete msgid (tx fs)\<rparr>)
           else do {
             q \<leftarrow> retransmit_frags (sendqueue fs) (txflags fs) msg;
             Some (True, fs\<lparr>tx := AList.update msgid msg (tx fs), sendqueue := q\<rparr>)
           }
         }
     }
   }"

section \<open>Sessions\<close>

datatype State =
    eInitial | eIntroRecv | eIntroSent | eIntroAckSent | eIntroAckRecv | eSessionStartSent
  | eLIMSent | eEstablished | eTimeout

text \<open>
  Jobs a session queues on the worker threads or on the logic thread. The requests of the
  handshake are members of the session and point into it (\<open>buf = workbuf\<close>, \<open>nonce = workbuf + 32\<close>,
  \<open>remote_pubkey = remote\<close>, \<open>token\<close>, \<open>sessionkey\<close>), so a job reads the session when it runs.
\<close>

datatype job =
    GenIntro | VerifyIntro | GenIntroack | VerifyIntroack | GenSessionStart | VerifySessionStart
  | FrameDecrypt iwp_async_frame | CryptoOutbound | SendKeepalive | SessionEstablished
  | CancelCall nat

record session =
  s_remote_router :: udap_rc
  s_our_router :: udap_rc
  s_eph_seckey :: "byte list"
  s_remote :: "byte list"
  s_sessionkey :: "byte list"
  s_token :: "byte list"
  s_workbuf :: "byte list"
  s_intro_sz :: nat
  s_introack_sz :: nat
  s_start_sz :: nat
  s_working :: bool
  s_state :: State
  s_establish_job_id :: nat
  s_frame :: frame_state
  s_outbound :: "iwp_async_frame CoDelQueue"
  s_deleted :: bool
  s_tracked :: bool
  s_mapped :: "byte list option"
  s_sent :: "byte list list"
  s_jobs :: "job list"
  s_rng :: "nat \<Rightarrow> byte"

text \<open>
  What a step takes from its surroundings: libsodium, \<open>inet_ntop\<close>, uninitialised stack arrays of a
  given size, whether \<open>udap_ev_udp_sendto\<close> succeeds, and the clock.
\<close>

record iwp_env =
  e_sodium :: sodium
  e_ntop :: ntop
  e_stack :: "nat \<Rightarrow> byte list"
  e_sendto :: "byte list \<Rightarrow> bool"
  e_now :: u64

definition MAX_PAD :: nat where "MAX_PAD = 128"
definition SESSION_TIMEOUT :: u64 where "SESSION_TIMEOUT = 10000"

text \<open>The random bytes to come: \<open>randbytes\<close> and \<open>rand() % MAX_PAD\<close> draw from them.\<close>

definition randbytes :: "nat \<Rightarrow> 'x session_scheme \<Rightarrow> byte list \<times> 'x session_scheme" where
  "randbytes n s = (map (s_rng s) [0..<n], s\<lparr>s_rng := \<lambda>i. s_rng s (i + n)\<rparr>)"

definition rand_pad :: "'x session_scheme \<Rightarrow> nat \<times> 'x session_scheme" where
  "rand_pad s = (unat (s_rng s 0) mod MAX_PAD, s\<lparr>s_rng := \<lambda>i. s_rng s (Suc i)\<rparr>)"

definition session_new ::
  "byte list \<Rightarrow> udap_rc \<Rightarrow> (nat \<Rightarrow> byte list) \<Rightarrow> (nat \<Rightarrow> byte) \<Rightarrow> session" where
  "session_new seckey our_rc mem rng =
     (let (token, s) = randbytes 32 \<lparr>s_remote_router = rc_zero, s_our_router = our_rc,
        s_eph_seckey = seckey, s_remote = mem 32, s_sessionkey = mem 32, s_token = [],
        s_workbuf = mem (MAX_PAD + 128), s_intro_sz = 0, s_introack_sz = 0, s_start_sz = 0,
        s_working = False, s_state = eInitial, s_establish_job_id = 0, s_frame = frame_state_new,
        s_outbound = CoDelQueue_new, s_deleted = False, s_tracked = False, s_mapped = None,
        s_sent = [], s_jobs = [], s_rng = rng\<rparr>
      in s\<lparr>s_token := token\<rparr>)"

definition queue_job :: "job \<Rightarrow> 'x session_scheme \<Rightarrow> 'x session_scheme" where
  "queue_job j s = s\<lparr>s_jobs := s_jobs s @ [j]\<rparr>"

definition PumpCryptoOutbound :: "'x session_scheme \<Rightarrow> 'x session_scheme" where
  "PumpCryptoOutbound s = queue_job CryptoOutbound s"

definition alive :: "iwp_env \<Rightarrow> 'x session_scheme \<Rightarrow> 'x session_scheme" where
  "alive E s = s\<lparr>s_frame := (s_frame s)\<lparr>lastEvent := e_now E\<rparr>\<rparr>"

definition EnterState :: "iwp_env \<Rightarrow> State \<Rightarrow> 'x session_scheme \<Rightarrow> 'x session_scheme" where
  "EnterState E st s =
     (let s = (alive E s)\<lparr>s_state := st\<rparr>
      in if st = eSessionStartSent \<or> st = eIntroAckSent then PumpCryptoOutbound s else s)"

definition IsEstablished :: "'x session_scheme \<Rightarrow> bool" where
  "IsEstablished s \<longleftrightarrow> s_state s = eEstablished"

definition is_invalidated :: "'x session_scheme \<Rightarrow> bool" where
  "is_invalidated s \<longleftrightarrow> flags_agree eSessionInvalidated (s_frame s)"

definition timedout :: "u64 \<Rightarrow> 'x session_scheme \<Rightarrow> bool" where
  "timedout now s \<longleftrightarrow> now - lastEvent (s_frame s) \<ge> SESSION_TIMEOUT"

subsection \<open>Sending\<close>

text \<open>
  The array of a new frame is not initialised behind what is copied into it; here it is zero. Encryption writes the rest of what is sent, and a received frame
  is read within its size by the messages of an honest peer.
\<close>

definition alloc_frame :: "'x session_scheme \<Rightarrow> byte list option \<Rightarrow> nat \<Rightarrow> iwp_async_frame option" where
  "alloc_frame s buf sz =
     (if sz > 1500 then None
      else Some \<lparr>f_success = False, f_created = 0, f_sessionkey = s_sessionkey s, f_sz = sz,
        f_buf = (case buf of None \<Rightarrow> [] | Some b \<Rightarrow> b) @
          replicate (1500 - (case buf of None \<Rightarrow> 0 | Some b \<Rightarrow> length b)) 0\<rparr>)"

text \<open>The pointer \<open>alloc_frame\<close> returns is not tested: null is undefined behaviour.\<close>

definition encrypt_frame_async_send :: "iwp_env \<Rightarrow> byte list \<Rightarrow> 'x session_scheme \<Rightarrow> 'x session_scheme option" where
  "encrypt_frame_async_send E buf s = do {
     frame \<leftarrow> alloc_frame s None (length buf + 64);
     fbuf \<leftarrow> mem_store (f_buf frame) 64 buf;
     let (padding, s) = rand_pad s;
     let (pad, s) = randbytes padding s;
     fbuf \<leftarrow> mem_store fbuf (64 + length buf) pad;
     let frame = frame\<lparr>f_buf := fbuf, f_sz := f_sz frame + padding\<rparr>;
     Some (s\<lparr>s_outbound := CoDel_Put f_created (\<lambda>now f. f\<lparr>f_created := now\<rparr>) (e_now E) frame
       (s_outbound s)\<rparr>)
   }"

fun pump_loop :: "iwp_env \<Rightarrow> byte list list \<Rightarrow> 'x session_scheme \<Rightarrow> 'x session_scheme option" where
  "pump_loop E [] s = Some s"
| "pump_loop E (buf # rest) s = do {
     s \<leftarrow> encrypt_frame_async_send E buf s;
     pump_loop E rest (s\<lparr>s_frame := (s_frame s)\<lparr>sendqueue := rest\<rparr>\<rparr>)
   }"

definition pump :: "iwp_env \<Rightarrow> 'x session_scheme \<Rightarrow> 'x session_scheme option" where
  "pump E s = pump_loop E (sendqueue (s_frame s)) s"

definition add_outbound_message ::
  "iwp_env \<Rightarrow> u64 \<Rightarrow> transit_message \<Rightarrow> 'x session_scheme \<Rightarrow> 'x session_scheme option" where
  "add_outbound_message E msgid msg s = do {
     fs \<leftarrow> queue_tx msgid msg (s_frame s);
     s \<leftarrow> pump E (s\<lparr>s_frame := fs\<rparr>);
     Some (PumpCryptoOutbound s)
   }"

text \<open>A message with the next id of the session, which both \<open>sendto\<close> and \<open>send_LIM\<close> queue.\<close>

definition sendto :: "iwp_env \<Rightarrow> byte list \<Rightarrow> 'x session_scheme \<Rightarrow> 'x session_scheme option" where
  "sendto E msg s =
     (let msgid = txids (s_frame s);
          s = s\<lparr>s_frame := (s_frame s)\<lparr>txids := msgid + 1\<rparr>\<rparr>;
          digest = snd (sodium_shorthash (e_sodium E) msg)
      in add_outbound_message E msgid (transit_message_outbound msg digest msgid) s)"

definition send_LIM :: "iwp_env \<Rightarrow> 'x session_scheme \<Rightarrow> 'x session_scheme option" where
  "send_LIM E s = do {
     (ok, buf) \<leftarrow> EncodeLIM (e_ntop E) (Some (s_our_router s)) (StackBuffer (e_stack E (MAX_RC_SIZE + 64)));
     if ok then do {
       s \<leftarrow> sendto E (encoded buf) s;
       Some (EnterState E eLIMSent s)
     }
     else Some s
   }"

definition send_keepalive :: "iwp_env \<Rightarrow> 'x session_scheme \<Rightarrow> 'x session_scheme option" where
  "send_keepalive E s =
     (if is_invalidated s then Some s
      else do {
        s \<leftarrow> encrypt_frame_async_send E [0, 0, 0, 0, 0, txflags (s_frame s), 0, 0] s;
        s \<leftarrow> pump E s;
        Some (PumpCryptoOutbound s)
      })"

definition close :: "'x session_scheme \<Rightarrow> 'x session_scheme" where
  "close s = queue_job SendKeepalive
     (s\<lparr>s_frame := (s_frame s)\<lparr>txflags := txflags (s_frame s) OR eSessionInvalidated\<rparr>\<rparr>)"

text \<open>\<open>udap_ev_udp_sendto\<close>: the datagrams handed to the socket, in order.\<close>

definition udp_sendto :: "iwp_env \<Rightarrow> byte list \<Rightarrow> 'x session_scheme \<Rightarrow> bool \<times> 'x session_scheme" where
  "udp_sendto E pkt s =
     (if e_sendto E pkt then (True, s\<lparr>s_sent := s_sent s @ [pkt]\<rparr>) else (False, s))"

fun encrypt_loop :: "iwp_env \<Rightarrow> iwp_async_frame list \<Rightarrow> 'x session_scheme \<Rightarrow> 'x session_scheme option" where
  "encrypt_loop E [] s = Some s"
| "encrypt_loop E (front # rest) s = do {
     let (rand, s) = randbytes 32 s;
     (ok, front) \<leftarrow> iwp_encrypt_frame (e_sodium E) rand (front\<lparr>f_sessionkey := s_sessionkey s\<rparr>);
     let s = (if ok then snd (udp_sendto E (take (f_sz front) (f_buf front)) s) else s);
     encrypt_loop E rest s
   }"

definition EncryptOutboundFrames :: "iwp_env \<Rightarrow> 'x session_scheme \<Rightarrow> 'x session_scheme option" where
  "EncryptOutboundFrames E s =
     (let (q, outq) = CoDel_Process f_created (s_outbound s)
      in encrypt_loop E outq (s\<lparr>s_outbound := q\<rparr>))"

subsection \<open>Receiving frames\<close>

text \<open>A contact without address list is dereferenced all the same.\<close>

definition CheckRCValid :: "iwp_env \<Rightarrow> 'x session_scheme \<Rightarrow> (bool \<times> 'x session_scheme) option" where
  "CheckRCValid E s = do {
     (ok, rc) \<leftarrow> udap_rc_verify_sig (e_ntop E) (sodium_verify (e_sodium E)) (e_stack E MAX_RC_SIZE)
       (s_remote_router s);
     let s = s\<lparr>s_remote_router := rc\<rparr>;
     if \<not> ok then Some (False, s)
     else do {
       list \<leftarrow> rc_addrs rc;
       if list = [] then Some (True, s)
       else Some (list_ex (\<lambda>ai. memcmp (ai_enc_key ai) (s_remote s) = 0) list, s)
     }
   }"

definition session_established :: "iwp_env \<Rightarrow> 'x session_scheme \<Rightarrow> 'x session_scheme" where
  "session_established E s =
     (let s = (EnterState E eEstablished s)\<lparr>s_mapped := Some (rc_pubkey (s_remote_router s))\<rparr>
      in queue_job (CancelCall (s_establish_job_id s)) s)"

text \<open>
  \<open>recv\<close> is \<open>router->HandleRecvLinkMessage\<close> (\<open>ProcessFrom\<close> of the link message parser with the
  router's handlers), which may change the session it is called from. The operations work on every extension of the
  session, so that a handler can keep the router beside it (\<open>Link_Transfer\<close>).
\<close>

type_synonym 'x recv_handler = "byte list \<Rightarrow> 'x session_scheme \<Rightarrow> (bool \<times> 'x session_scheme) option"

definition inbound_frame_complete ::
  "iwp_env \<Rightarrow> 'x recv_handler \<Rightarrow> u64 \<Rightarrow> 'x session_scheme \<Rightarrow> (bool \<times> 'x session_scheme) option" where
  "inbound_frame_complete E recv msgid s = do {
     rxmsg \<leftarrow> map_of (rx (s_frame s)) msgid;
     (ok, msg) \<leftarrow> reassemble rxmsg;
     if ok \<and> memcmp (snd (sodium_shorthash (e_sodium E) msg)) (xmit_hash (msginfo rxmsg)) \<noteq> 0
     then Some (False, s)
     else do {
       (success, s) \<leftarrow>
         (if ok then do {
            (success, s) \<leftarrow> recv msg s;
            if success \<and> msgid = 0 then do {
              (valid, s) \<leftarrow> CheckRCValid E s;
              if valid then
                (if \<not> IsEstablished s then do {
                   s \<leftarrow> send_LIM E s;
                   Some (True, session_established E s)
                 }
                 else Some (True, s))
              else Some (False, close s)
            }
            else Some (success, s)
          }
          else Some (False, s));
       Some (success, s\<lparr>s_frame := (s_frame s)\<lparr>rx := AList.delete msgid (rx (s_frame s))\<rparr>\<rparr>)
     }
   }"

definition got_xmit ::
  "iwp_env \<Rightarrow> 'x recv_handler \<Rightarrow> byte list \<Rightarrow> nat \<Rightarrow> 'x session_scheme \<Rightarrow> (bool \<times> 'x session_scheme) option" where
  "got_xmit E recv hdr sz s = do {
     hsz \<leftarrow> hdr_size hdr;
     if hsz > sz then Some (False, s)
     else do {
       x \<leftarrow> mem_load hdr hdr_data 48;
       if size_sub hsz 48 < xmit_lastfrag x then Some (False, s)
       else if xmit_flags x AND 1 \<noteq> 0 then do {
         let msgid = xmit_msgid x;
         case map_of (rx (s_frame s)) msgid of
           None \<Rightarrow> do {
             msg \<leftarrow> put_lastfrag hdr (hdr_data + 48) (xmit_lastfrag x) (transit_message_inbound x);
             let fs = (s_frame s)\<lparr>rx := rx (s_frame s) @ [(msgid, msg)]\<rparr>;
             fs \<leftarrow> push_ackfor msgid 0 fs;
             let s = s\<lparr>s_frame := fs\<rparr>;
             if xmit_numfrags x = 0 then inbound_frame_complete E recv msgid s
             else Some (True, s)
           }
         | Some _ \<Rightarrow> Some (False, s)
       }
       else Some (False, s)
     }
   }"

definition got_frag ::
  "iwp_env \<Rightarrow> 'x recv_handler \<Rightarrow> byte list \<Rightarrow> nat \<Rightarrow> 'x session_scheme \<Rightarrow> (bool \<times> 'x session_scheme) option" where
  "got_frag E recv hdr sz s = do {
     hsz \<leftarrow> hdr_size hdr;
     if hsz > sz then Some (False, s)
     else if hsz \<le> 9 then Some (False, s)
     else do {
       idb \<leftarrow> mem_load hdr hdr_data 8;
       fragb \<leftarrow> mem_load hdr (hdr_data + 8) 1;
       let msgid = of_nat (le_val idb);
       let fragno = of_nat (le_val fragb);
       case map_of (rx (s_frame s)) msgid of
         None \<Rightarrow> Some (True, s)
       | Some msg \<Rightarrow>
           if xmit_fragsize (msginfo msg) \<noteq> hsz - 9 then Some (False, s)
           else do {
             (ok, msg) \<leftarrow> put_frag fragno hdr (hdr_data + 9) msg;
             let s = s\<lparr>s_frame := (s_frame s)\<lparr>rx := AList.update msgid msg (rx (s_frame s))\<rparr>\<rparr>;
             if \<not> ok then Some (False, s)
             else do {
               let bm = get_bitmask msg;
               done \<leftarrow> transit_completed msg;
               if done then do {
                 fs \<leftarrow> push_ackfor msgid bm (s_frame s);
                 inbound_frame_complete E recv msgid (s\<lparr>s_frame := fs\<rparr>)
               }
               else if should_send_ack msg then do {
                 fs \<leftarrow> push_ackfor msgid bm (s_frame s);
                 Some (True, s\<lparr>s_frame := fs\<rparr>)
               }
               else Some (True, s)
             }
           }
     }
   }"

text \<open>\<open>hdr\<close> is the rest of the frame's array from the header on, \<open>sz\<close> the size of the plaintext.\<close>

definition process ::
  "iwp_env \<Rightarrow> 'x recv_handler \<Rightarrow> byte list \<Rightarrow> nat \<Rightarrow> 'x session_scheme \<Rightarrow> (bool \<times> 'x session_scheme) option" where
  "process E recv hdr sz s = do {
     flags \<leftarrow> hdr_flags hdr;
     let s = (if flags AND eSessionInvalidated \<noteq> 0
              then s\<lparr>s_frame := (s_frame s)\<lparr>rxflags := rxflags (s_frame s) OR eSessionInvalidated\<rparr>\<rparr>
              else s);
     t \<leftarrow> hdr_msgtype hdr;
     if t = eALIV then
       Some (True, if rxflags (s_frame s) AND eSessionInvalidated \<noteq> 0
         then s\<lparr>s_frame := (s_frame s)\<lparr>txflags := txflags (s_frame s) OR eSessionInvalidated\<rparr>\<rparr>
         else s)
     else if t = eXMIT then got_xmit E recv hdr (size_sub sz 6) s
     else if t = eACKS then do {
       (ok, fs) \<leftarrow> got_acks hdr (size_sub sz 6) (s_frame s);
       Some (ok, s\<lparr>s_frame := fs\<rparr>)
     }
     else if t = eFRAG then got_frag E recv hdr (size_sub sz 6) s
     else Some (False, s)
   }"

definition handle_frame_decrypt ::
  "iwp_env \<Rightarrow> 'x recv_handler \<Rightarrow> iwp_async_frame \<Rightarrow> 'x session_scheme \<Rightarrow> 'x session_scheme option" where
  "handle_frame_decrypt E recv frame s =
     (if f_success frame then do {
        (ok, s) \<leftarrow> process E recv (drop 64 (f_buf frame)) (size_sub (f_sz frame) 64) s;
        if ok then pump E (alive E s) else Some s
      }
      else Some s)"

definition decrypt_frame :: "byte list \<Rightarrow> 'x session_scheme \<Rightarrow> 'x session_scheme option" where
  "decrypt_frame buf s =
     (if length buf > 64 then do {
        f \<leftarrow> alloc_frame s (Some buf) (length buf);
        Some (queue_job (FrameDecrypt f) s)
      }
      else Some s)"

subsection \<open>The handshake\<close>

text \<open>\<open>memcpy(workbuf + off, ...)\<close>\<close>

definition put_workbuf :: "nat \<Rightarrow> byte list \<Rightarrow> 'x session_scheme \<Rightarrow> 'x session_scheme option" where
  "put_workbuf off bs s = do {
     w \<leftarrow> mem_store (s_workbuf s) off bs;
     Some (s\<lparr>s_workbuf := w\<rparr>)
   }"

text \<open>Padding and nonce are drawn in the order of the source: the size, the padding, the nonce.\<close>

definition introduce :: "byte list \<Rightarrow> nat \<Rightarrow> 'x session_scheme \<Rightarrow> 'x session_scheme option" where
  "introduce pub job_id s = do {
     let s = s\<lparr>s_remote := take 32 pub\<rparr>;
     let (w0sz, s) = rand_pad s;
     let s = s\<lparr>s_intro_sz := 32 * 3 + w0sz\<rparr>;
     let (pad, s) = randbytes w0sz s;
     s \<leftarrow> put_workbuf (32 * 3) pad s;
     let (nonce, s) = randbytes 32 s;
     s \<leftarrow> put_workbuf 32 nonce s;
     Some ((queue_job GenIntro (s\<lparr>s_working := True\<rparr>))\<lparr>s_establish_job_id := job_id\<rparr>)
   }"

definition on_intro :: "iwp_env \<Rightarrow> byte list \<Rightarrow> 'x session_scheme \<Rightarrow> 'x session_scheme option" where
  "on_intro E buf s =
     (if length buf \<ge> length (s_workbuf s) then Some (s\<lparr>s_deleted := True\<rparr>)
      else do {
        s \<leftarrow> put_workbuf 0 buf s;
        let s = EnterState E eIntroRecv (s\<lparr>s_intro_sz := length buf\<rparr>);
        Some (queue_job VerifyIntro (s\<lparr>s_working := True\<rparr>))
      })"

definition intro_ack :: "'x session_scheme \<Rightarrow> 'x session_scheme option" where
  "intro_ack s = do {
     let (w1sz, s) = rand_pad s;
     let s = s\<lparr>s_introack_sz := 32 * 3 + w1sz\<rparr>;
     let (pad, s) = randbytes w1sz s;
     s \<leftarrow> put_workbuf (32 * 3) pad s;
     let (nonce, s) = randbytes 32 s;
     s \<leftarrow> put_workbuf 32 nonce s;
     Some (queue_job GenIntroack (s\<lparr>s_working := True\<rparr>))
   }"

text \<open>A packet that is too big removes the session from its server, which destroys it.\<close>

definition on_intro_ack :: "byte list \<Rightarrow> 'x session_scheme \<Rightarrow> 'x session_scheme option" where
  "on_intro_ack buf s =
     (if length buf \<ge> length (s_workbuf s) then Some (s\<lparr>s_tracked := False, s_deleted := True\<rparr>)
      else do {
        s \<leftarrow> put_workbuf 0 buf s;
        Some (queue_job VerifyIntroack (s\<lparr>s_introack_sz := length buf, s_working := True\<rparr>))
      })"

definition session_start :: "'x session_scheme \<Rightarrow> 'x session_scheme option" where
  "session_start s = do {
     let (w2sz, s) = rand_pad s;
     let s = s\<lparr>s_start_sz := w2sz + 32 * 3\<rparr>;
     let (nonce, s) = randbytes 32 s;
     s \<leftarrow> put_workbuf 32 nonce s;
     s \<leftarrow> put_workbuf 64 (take 32 (s_token s)) s;
     let (pad, s) = randbytes w2sz s;
     s \<leftarrow> put_workbuf (32 * 3) pad s;
     Some (queue_job GenSessionStart (s\<lparr>s_working := True\<rparr>))
   }"

definition on_session_start :: "byte list \<Rightarrow> 'x session_scheme \<Rightarrow> 'x session_scheme option" where
  "on_session_start buf s =
     (if length buf > length (s_workbuf s) then Some s
      else do {
        s \<leftarrow> put_workbuf 0 buf s;
        Some (queue_job VerifySessionStart (s\<lparr>s_start_sz := length buf, s_working := True\<rparr>))
      })"

definition session_recv :: "iwp_env \<Rightarrow> byte list \<Rightarrow> 'x session_scheme \<Rightarrow> 'x session_scheme option" where
  "session_recv E buf s =
     (case s_state s of
        eInitial \<Rightarrow> on_intro E buf s
      | eIntroSent \<Rightarrow> on_intro_ack buf s
      | eIntroAckSent \<Rightarrow> on_session_start buf s
      | eSessionStartSent \<Rightarrow> decrypt_frame buf s
      | eLIMSent \<Rightarrow> decrypt_frame buf s
      | eEstablished \<Rightarrow> decrypt_frame buf s
      | _ \<Rightarrow> Some s)"

subsection \<open>Jobs\<close>

text \<open>The stack array of a \<open>SharedSecret\<close> in a handshake job.\<close>

definition job_stack :: "iwp_env \<Rightarrow> byte list" where
  "job_stack E = e_stack E 32"

definition handle_generated_intro :: "iwp_env \<Rightarrow> 'x session_scheme \<Rightarrow> 'x session_scheme option" where
  "handle_generated_intro E s = do {
     let s = s\<lparr>s_working := False\<rparr>;
     pkt \<leftarrow> mem_load (s_workbuf s) 0 (s_intro_sz s);
     let (ok, s) = udp_sendto E pkt s;
     Some (if ok then EnterState E eIntroSent s else s)
   }"

definition run_gen_intro :: "iwp_env \<Rightarrow> 'x session_scheme \<Rightarrow> 'x session_scheme option" where
  "run_gen_intro E s = do {
     i \<leftarrow> gen_intro (e_sodium E) (job_stack E) \<lparr>i_buf = Some (s_workbuf s), i_sz = s_intro_sz s,
       i_remote_pubkey = s_remote s, i_secretkey = s_eph_seckey s\<rparr>;
     case i_buf i of
       None \<Rightarrow> Some (s\<lparr>s_working := False\<rparr>)
     | Some w \<Rightarrow> handle_generated_intro E (s\<lparr>s_workbuf := w\<rparr>)
   }"

definition run_verify_intro :: "iwp_env \<Rightarrow> 'x session_scheme \<Rightarrow> 'x session_scheme option" where
  "run_verify_intro E s = do {
     i \<leftarrow> verify_intro (e_sodium E) (job_stack E) \<lparr>i_buf = Some (s_workbuf s), i_sz = s_intro_sz s,
       i_remote_pubkey = s_remote s, i_secretkey = s_eph_seckey s\<rparr>;
     let s = s\<lparr>s_remote := i_remote_pubkey i, s_working := False\<rparr>;
     if i_buf i = None then Some s else intro_ack s
   }"

text \<open>
  \<open>dup\<close>: the server already has a session to this address, and this one is destroyed. The flag
  \<open>working\<close> that \<open>intro_ack\<close> set is not reset here.
\<close>

definition handle_introack_generated :: "iwp_env \<Rightarrow> bool \<Rightarrow> 'x session_scheme \<Rightarrow> 'x session_scheme option" where
  "handle_introack_generated E dup s =
     (if dup then Some (s\<lparr>s_deleted := True\<rparr>)
      else do {
        let s = (alive E s)\<lparr>s_tracked := True\<rparr>;
        pkt \<leftarrow> mem_load (s_workbuf s) 0 (s_introack_sz s);
        let (ok, s) = udp_sendto E pkt s;
        Some (if ok then EnterState E eIntroAckSent s else s)
      })"

definition run_gen_introack :: "iwp_env \<Rightarrow> bool \<Rightarrow> 'x session_scheme \<Rightarrow> 'x session_scheme option" where
  "run_gen_introack E dup s = do {
     a \<leftarrow> gen_introack (e_sodium E) (job_stack E) \<lparr>ia_buf = Some (s_workbuf s),
       ia_sz = s_introack_sz s, ia_token = s_token s, ia_remote_pubkey = s_remote s,
       ia_secretkey = s_eph_seckey s\<rparr>;
     case ia_buf a of
       None \<Rightarrow> Some (s\<lparr>s_deleted := True\<rparr>)
     | Some w \<Rightarrow> handle_introack_generated E dup (s\<lparr>s_workbuf := w\<rparr>)
   }"

definition run_verify_introack :: "iwp_env \<Rightarrow> 'x session_scheme \<Rightarrow> 'x session_scheme option" where
  "run_verify_introack E s = do {
     a \<leftarrow> verify_introack (e_sodium E) (job_stack E) \<lparr>ia_buf = Some (s_workbuf s),
       ia_sz = s_introack_sz s, ia_token = s_token s, ia_remote_pubkey = s_remote s,
       ia_secretkey = s_eph_seckey s\<rparr>;
     let s = s\<lparr>s_working := False\<rparr>;
     case ia_buf a of
       None \<Rightarrow> Some s
     | Some w \<Rightarrow> session_start (EnterState E eIntroAckRecv (s\<lparr>s_workbuf := w, s_token := ia_token a\<rparr>))
   }"

definition run_gen_session_start :: "iwp_env \<Rightarrow> 'x session_scheme \<Rightarrow> 'x session_scheme option" where
  "run_gen_session_start E s = do {
     st \<leftarrow> gen_session_start (e_sodium E) (job_stack E) \<lparr>ss_buf = Some (s_workbuf s),
       ss_sz = s_start_sz s, ss_token = s_token s, ss_sessionkey = s_sessionkey s,
       ss_secretkey = s_eph_seckey s, ss_remote_pubkey = s_remote s\<rparr>;
     w \<leftarrow> ss_buf st;
     let s = s\<lparr>s_workbuf := w, s_sessionkey := ss_sessionkey st, s_working := False\<rparr>;
     pkt \<leftarrow> mem_load w 0 (s_start_sz s);
     Some (EnterState E eSessionStartSent (snd (udp_sendto E pkt s)))
   }"

definition run_verify_session_start :: "iwp_env \<Rightarrow> 'x session_scheme \<Rightarrow> 'x session_scheme option" where
  "run_verify_session_start E s = do {
     st \<leftarrow> verify_session_start (e_sodium E) (job_stack E) \<lparr>ss_buf = Some (s_workbuf s),
       ss_sz = s_start_sz s, ss_token = s_token s, ss_sessionkey = s_sessionkey s,
       ss_secretkey = s_eph_seckey s, ss_remote_pubkey = s_remote s\<rparr>;
     let s = s\<lparr>s_sessionkey := ss_sessionkey st, s_working := False\<rparr>;
     case ss_buf st of
       None \<Rightarrow> Some s
     | Some w \<Rightarrow> send_LIM E (s\<lparr>s_workbuf := w\<rparr>)
   }"

text \<open>\<open>hmac_then_decrypt\<close> on a worker, then \<open>inform_frame_done\<close> on the logic thread.\<close>

definition run_frame_decrypt ::
  "iwp_env \<Rightarrow> 'x recv_handler \<Rightarrow> iwp_async_frame \<Rightarrow> 'x session_scheme \<Rightarrow> 'x session_scheme option" where
  "run_frame_decrypt E recv f s = do {
     (_, f) \<leftarrow> iwp_decrypt_frame (e_sodium E) (f\<lparr>f_sessionkey := s_sessionkey s\<rparr>);
     handle_frame_decrypt E recv f s
   }"

definition run_job :: "iwp_env \<Rightarrow> 'x recv_handler \<Rightarrow> bool \<Rightarrow> job \<Rightarrow> 'x session_scheme \<Rightarrow> 'x session_scheme option" where
  "run_job E recv dup j s =
     (case j of
        GenIntro \<Rightarrow> run_gen_intro E s
      | VerifyIntro \<Rightarrow> run_verify_intro E s
      | GenIntroack \<Rightarrow> run_gen_introack E dup s
      | VerifyIntroack \<Rightarrow> run_verify_introack E s
      | GenSessionStart \<Rightarrow> run_gen_session_start E s
      | VerifySessionStart \<Rightarrow> run_verify_session_start E s
      | FrameDecrypt f \<Rightarrow> run_frame_decrypt E recv f s
      | CryptoOutbound \<Rightarrow> EncryptOutboundFrames E s
      | SendKeepalive \<Rightarrow> send_keepalive E s
      | SessionEstablished \<Rightarrow> Some (session_established E s)
      | CancelCall _ \<Rightarrow> Some s)"

subsection \<open>Timers\<close>

text \<open>The result says whether the server removes the session.\<close>

definition Tick :: "iwp_env \<Rightarrow> 'x session_scheme \<Rightarrow> (bool \<times> 'x session_scheme) option" where
  "Tick E s =
     (if timedout (e_now E) s then Some (\<not> s_working s, s)
      else if is_invalidated s then Some (\<not> s_working s, s)
      else do {
        s \<leftarrow> (if s_state s = eEstablished \<or> s_state s = eLIMSent then send_keepalive E s else Some s);
        s \<leftarrow> (if s_state s = eEstablished then do {
               fs \<leftarrow> retransmit (s_frame s);
               s \<leftarrow> pump E (s\<lparr>s_frame := fs\<rparr>);
               Some (PumpCryptoOutbound s)
             }
             else Some s);
        Some (False, s)
      })"

end
