(* ===== verification/Iwp_Sending.thy ===== *)
theory Iwp_Sending
  imports Iwp_Session
begin

text \<open>
  The sending side of a session: queued plaintext frames become transport frames of at
  most 1500 bytes, messages are cut and queued, and the introduction (LIM) of a router with a
  valid contact is always sent.
\<close>

lemma randbytes_props:
  assumes "randbytes n s = (bs, s')"
  shows "length bs = n" "s' = s\<lparr>s_rng := \<lambda>i. s_rng s (i + n)\<rparr>"
  using assms by (auto simp: randbytes_def)

lemma rand_pad_props:
  assumes "rand_pad s = (n, s')"
  shows "n < 128" "s' = s\<lparr>s_rng := \<lambda>i. s_rng s (Suc i)\<rparr>"
  using assms by (auto simp: rand_pad_def MAX_PAD_def)

section \<open>Transport frames\<close>

definition MAX_PLAIN :: nat where "MAX_PLAIN = 1500 - 64 - 127"

definition plain_ok :: "byte list \<Rightarrow> bool" where
  "plain_ok buf \<longleftrightarrow> length buf \<le> MAX_PLAIN"

text \<open>A transport frame carries the plaintext \<open>buf\<close>, followed by padding.\<close>

definition carries :: "iwp_async_frame \<Rightarrow> byte list \<Rightarrow> bool" where
  "carries f buf \<longleftrightarrow> length (f_buf f) = 1500 \<and> 64 + length buf \<le> f_sz f \<and> f_sz f \<le> 1500 \<and>
     take (length buf) (drop 64 (f_buf f)) = buf"

definition put_frames :: "u64 \<Rightarrow> iwp_async_frame list \<Rightarrow> iwp_async_frame CoDelQueue \<Rightarrow> iwp_async_frame CoDelQueue" where
  "put_frames now fs q =
     CoDel_puts f_created (\<lambda>now f. f\<lparr>f_created := now\<rparr>) (map (\<lambda>f. (now, f)) fs) q"

lemma put_frames_simps [simp]:
  "put_frames now [] q = q"
  "put_frames now (f # fs) q = put_frames now fs (CoDel_Put f_created (\<lambda>now f. f\<lparr>f_created := now\<rparr>) now f q)"
  by (simp_all add: put_frames_def CoDel_puts_def)

lemma encrypt_send_ok:
  assumes "plain_ok buf"
  shows "\<exists>f rng. carries f buf \<and> encrypt_frame_async_send E buf s =
    Some (s\<lparr>s_outbound := put_frames (e_now E) [f] (s_outbound s), s_rng := rng\<rparr>)"
proof -
  obtain k s1 where k: "rand_pad s = (k, s1)" by fastforce
  note k' = rand_pad_props [OF k]
  obtain pad s2 where p: "randbytes k s1 = (pad, s2)" by fastforce
  note p' = randbytes_props [OF p]
  have l: "length buf \<le> 1309" using assms by (simp add: plain_ok_def MAX_PLAIN_def)
  let ?z = "replicate 64 (0 :: byte)"
  have z: "replicate 1500 (0 :: byte) = ?z @ replicate 1436 0"
    by (simp flip: replicate_add)
  have st1: "mem_store (replicate 1500 0) 64 buf = Some (?z @ buf @ drop (length buf) (replicate 1436 0))"
    unfolding z by (rule mem_store_over) (use l in simp_all)
  have st2: "mem_store (?z @ buf @ drop (length buf) (replicate 1436 0)) (64 + length buf) pad =
      Some (?z @ buf @ pad @ drop (length pad) (drop (length buf) (replicate 1436 0)))"
    using mem_store_over [of "64 + length buf" "?z @ buf" pad "drop (length buf) (replicate 1436 0)"]
      k' p' l by simp
  let ?f = "\<lparr>f_success = False, f_created = 0, f_sessionkey = s_sessionkey s,
    f_sz = length buf + 64 + k,
    f_buf = ?z @ buf @ pad @ drop (length pad) (drop (length buf) (replicate 1436 0))\<rparr>"
  have "carries ?f buf" using k' p' l by (simp add: carries_def)
  moreover have "encrypt_frame_async_send E buf s =
      Some (s2\<lparr>s_outbound := put_frames (e_now E) [?f] (s_outbound s)\<rparr>)"
    using l k k' p p' st1 st2 by (simp add: encrypt_frame_async_send_def alloc_frame_def)
  moreover have "s2\<lparr>s_outbound := q\<rparr> = s\<lparr>s_outbound := q, s_rng := s_rng s2\<rparr>" for q
    using k' p' by simp
  ultimately show ?thesis by metis
qed

lemma pump_loop_ok:
  assumes "list_all plain_ok bufs" "sendqueue (s_frame s) = bufs"
  shows "\<exists>fs rng. list_all2 carries fs bufs \<and> pump_loop E bufs s =
    Some (s\<lparr>s_frame := (s_frame s)\<lparr>sendqueue := []\<rparr>,
      s_outbound := put_frames (e_now E) fs (s_outbound s), s_rng := rng\<rparr>)"
  using assms
proof (induction bufs arbitrary: s)
  case Nil
  then have "s = s\<lparr>s_frame := (s_frame s)\<lparr>sendqueue := []\<rparr>, s_outbound := s_outbound s,
      s_rng := s_rng s\<rparr>" by (cases s) simp
  then show ?case by - (rule exI [of _ "[]"], rule exI [of _ "s_rng s"], simp)
next
  case (Cons b bs)
  obtain f rng where f: "carries f b" "encrypt_frame_async_send E b s =
      Some (s\<lparr>s_outbound := put_frames (e_now E) [f] (s_outbound s), s_rng := rng\<rparr>)"
    using Cons.prems encrypt_send_ok [of b E s] by auto
  let ?s = "s\<lparr>s_outbound := put_frames (e_now E) [f] (s_outbound s), s_rng := rng,
    s_frame := (s_frame s)\<lparr>sendqueue := bs\<rparr>\<rparr>"
  obtain fs rng' where fs: "list_all2 carries fs bs" "pump_loop E bs ?s =
      Some (?s\<lparr>s_frame := (s_frame ?s)\<lparr>sendqueue := []\<rparr>,
        s_outbound := put_frames (e_now E) fs (s_outbound ?s), s_rng := rng'\<rparr>)"
    using Cons.IH [of ?s] Cons.prems by auto
  show ?case
    using f fs by - (rule exI [of _ "f # fs"], rule exI [of _ rng'], simp)
qed

lemma pump_ok:
  assumes "list_all plain_ok (sendqueue (s_frame s))"
  shows "\<exists>fs rng. list_all2 carries fs (sendqueue (s_frame s)) \<and> pump E s =
    Some (s\<lparr>s_frame := (s_frame s)\<lparr>sendqueue := []\<rparr>,
      s_outbound := put_frames (e_now E) fs (s_outbound s), s_rng := rng\<rparr>)"
  using pump_loop_ok [OF assms refl, of E] by (simp add: pump_def)

section \<open>Messages\<close>

lemma xmit_plain_ok:
  assumes "length hash = 32"
  shows "plain_ok (frame_bytes eXMIT flags (set_info hash i f l n fl @ drop (nfrags m * MTU) m))"
  using nfrags_bounds(2) [of m] assms
  by (simp add: plain_ok_def MAX_PLAIN_def length_frame_bytes length_set_info MTU_def)

definition xmit_frame :: "sodium \<Rightarrow> byte \<Rightarrow> u64 \<Rightarrow> byte list \<Rightarrow> byte list" where
  "xmit_frame S flags i m =
     (let t = transit_message_outbound m (snd (sodium_shorthash S m)) i
      in frame_bytes eXMIT flags (msginfo t @ lastfrag t))"

definition frag_frame :: "byte \<Rightarrow> u64 \<Rightarrow> byte list \<Rightarrow> nat \<Rightarrow> byte list" where
  "frag_frame flags i m j = frame_bytes eFRAG flags (frag_body i j (chunk m j))"

lemma queue_tx_outbound:
  assumes "sodium_ok S" "nfrags m < 256" "map_of (tx fs) i = None"
  shows "queue_tx i (transit_message_outbound m (snd (sodium_shorthash S m)) i) fs =
    Some (fs\<lparr>tx := tx fs @ [(i, transit_message_outbound m (snd (sodium_shorthash S m)) i)],
      sendqueue := sendqueue fs @ [xmit_frame S (txflags fs) i m]\<rparr>)"
proof -
  have h: "length (snd (sodium_shorthash S m)) = 32"
    using shorthash_ok [OF assms(1), of m] by auto
  have l: "length m - nfrags m * MTU < 2 ^ 15" using nfrags_bounds(2) [of m] by (simp add: MTU_def)
  show ?thesis
    using assms(2,3) h l
    by (simp add: queue_tx_def generate_xmit_eq xmit_frame_def outbound_eq length_set_info)
qed

text \<open>Every message of at most 256 fragments is queued with the next id, and its frame is sent on.\<close>

lemma sendto_ok:
  assumes ok: "sodium_ok (e_sodium E)" and m: "nfrags m < 256"
    and q: "list_all plain_ok (sendqueue (s_frame s))" and new: "map_of (tx (s_frame s)) (txids (s_frame s)) = None"
  shows "\<exists>fs rng. list_all2 carries fs (sendqueue (s_frame s) @
      [xmit_frame (e_sodium E) (txflags (s_frame s)) (txids (s_frame s)) m]) \<and>
    sendto E m s = Some (s\<lparr>s_frame := (s_frame s)\<lparr>txids := txids (s_frame s) + 1,
        tx := tx (s_frame s) @ [(txids (s_frame s), transit_message_outbound m
          (snd (sodium_shorthash (e_sodium E) m)) (txids (s_frame s)))], sendqueue := []\<rparr>,
      s_outbound := put_frames (e_now E) fs (s_outbound s), s_rng := rng,
      s_jobs := s_jobs s @ [CryptoOutbound]\<rparr>)"
proof -
  let ?i = "txids (s_frame s)"
  let ?m = "transit_message_outbound m (snd (sodium_shorthash (e_sodium E) m)) ?i"
  let ?x = "xmit_frame (e_sodium E) (txflags (s_frame s)) ?i m"
  let ?s = "s\<lparr>s_frame := (s_frame s)\<lparr>txids := ?i + 1, tx := tx (s_frame s) @ [(?i, ?m)],
    sendqueue := sendqueue (s_frame s) @ [?x]\<rparr>\<rparr>"
  have h: "length (snd (sodium_shorthash (e_sodium E) m)) = 32"
    using shorthash_ok [OF ok, of m] by auto
  have "plain_ok ?x" using m xmit_plain_ok [OF h] by (simp add: xmit_frame_def outbound_eq)
  then have "list_all plain_ok (sendqueue (s_frame ?s))" using q by simp
  from pump_ok [OF this, of E] obtain fs rng where fs: "list_all2 carries fs (sendqueue (s_frame ?s))"
    "pump E ?s = Some (?s\<lparr>s_frame := (s_frame ?s)\<lparr>sendqueue := []\<rparr>,
      s_outbound := put_frames (e_now E) fs (s_outbound ?s), s_rng := rng\<rparr>)" by blast
  have "queue_tx ?i ?m ((s_frame s)\<lparr>txids := ?i + 1\<rparr>) = Some (s_frame ?s)"
    using queue_tx_outbound [OF ok m, of "(s_frame s)\<lparr>txids := ?i + 1\<rparr>" ?i] new by simp
  then show ?thesis
    using fs
    by - (rule exI [of _ fs], rule exI [of _ rng],
      simp add: sendto_def add_outbound_message_def PumpCryptoOutbound_def queue_job_def Let_def)
qed

section \<open>The introduction\<close>

text \<open>The contact of this router is valid and fits its own bound; then it fits in the introduction.\<close>

definition lim_fits :: "iwp_env \<Rightarrow> udap_rc \<Rightarrow> bool" where
  "lim_fits E rc \<longleftrightarrow> (\<exists>pton uninit. inet_ok (e_ntop E) pton \<and> rc_valid uninit rc) \<and>
     length (rc_bytes (e_ntop E) rc) < MAX_RC_SIZE \<and>
     length (e_stack E (MAX_RC_SIZE + 64)) = MAX_RC_SIZE + 64"

lemma length_lim:
  "length (msg_bytes CHR ''a'' CHR ''i''
     (lim_entries ntop \<lparr>lim_remote = [], lim_version = 0, lim_RC = Some rc\<rparr>)) =
   17 + length (rc_bytes ntop rc)"
proof -
  have "length (bstr (lit [c])) = 3" for c by (simp add: bstr_def dec_nat.simps)
  moreover have "length (bint 0) = 3" by (simp add: bint_def dec_int_def dec_nat.simps)
  ultimately show ?thesis by (simp add: msg_bytes_def lim_entries_def del: lit_Cons lit_Nil)
qed

lemma send_LIM_ok:
  assumes ok: "sodium_ok (e_sodium E)" and fits: "lim_fits E (s_our_router s)"
    and q: "list_all plain_ok (sendqueue (s_frame s))"
    and new: "map_of (tx (s_frame s)) (txids (s_frame s)) = None"
  shows "\<exists>m s'. send_LIM E s = Some s' \<and> s_state s' = eLIMSent \<and>
    s_sessionkey s' = s_sessionkey s \<and> s_remote s' = s_remote s \<and> s_working s' = s_working s \<and>
    s_remote_router s' = s_remote_router s \<and> s_establish_job_id s' = s_establish_job_id s \<and>
    rx (s_frame s') = rx (s_frame s) \<and> sendqueue (s_frame s') = [] \<and>
    map_of (tx (s_frame s')) (txids (s_frame s)) = Some (transit_message_outbound m
      (snd (sodium_shorthash (e_sodium E) m)) (txids (s_frame s)))"
proof -
  let ?lim = "\<lparr>lim_remote = [], lim_version = 0, lim_RC = Some (s_our_router s)\<rparr>"
  from fits obtain pton uninit where v: "inet_ok (e_ntop E) pton" "rc_valid uninit (s_our_router s)"
    by (auto simp: lim_fits_def)
  have em: "emits (EncodeLIM (e_ntop E) (Some (s_our_router s)))
      (msg_bytes CHR ''a'' CHR ''i'' (lim_entries (e_ntop E) ?lim))"
    using emits_lim [OF v(1), of uninit ?lim] v(2) EncodeLIM_eq [of "e_ntop E" ?lim] by simp
  have "length (msg_bytes CHR ''a'' CHR ''i'' (lim_entries (e_ntop E) ?lim)) <
      length (e_stack E (MAX_RC_SIZE + 64))"
    using fits by (simp add: length_lim lim_fits_def)
  from emits_stack [OF em this] obtain b where b: "EncodeLIM (e_ntop E) (Some (s_our_router s))
        (StackBuffer (e_stack E (MAX_RC_SIZE + 64))) = Some (True, b)"
      "encoded b = msg_bytes CHR ''a'' CHR ''i'' (lim_entries (e_ntop E) ?lim)"
    by blast
  have "length (encoded b) < 1088"
    using fits length_lim [of "e_ntop E" "s_our_router s"] unfolding b(2) lim_fits_def MAX_RC_SIZE_def
    by simp
  then have "nfrags (encoded b) < 256"
    using nfrags_bounds(1) [of "encoded b"] by (simp add: MTU_def)
  from sendto_ok [OF ok this q new] obtain fs rng where
    "sendto E (encoded b) s = Some (s\<lparr>s_frame := (s_frame s)\<lparr>txids := txids (s_frame s) + 1,
        tx := tx (s_frame s) @ [(txids (s_frame s), transit_message_outbound (encoded b)
          (snd (sodium_shorthash (e_sodium E) (encoded b))) (txids (s_frame s)))], sendqueue := []\<rparr>,
      s_outbound := put_frames (e_now E) fs (s_outbound s), s_rng := rng,
      s_jobs := s_jobs s @ [CryptoOutbound]\<rparr>)" by blast
  then show ?thesis
    using b(1) new
    by - (rule exI [of _ "encoded b"], simp add: send_LIM_def EnterState_def alive_def map_add_def)
qed

end
