(* ===== verification/Iwp_Handshake.thy ===== *)
theory Iwp_Handshake
  imports Iwp_Sending
begin

text \<open>
  The handshake of two sessions of \<open>udap/iwp_link.cpp\<close>, run over the models of the sessions, of the
  worker jobs and of the packets' cryptography: the client and the server reach the same
  session key. Also what happens to packets of unusual sizes, and to half-open sessions.
\<close>

section \<open>Working buffers\<close>

definition session_sizes :: "session \<Rightarrow> bool" where
  "session_sizes s \<longleftrightarrow> length (s_workbuf s) = 256 \<and> length (s_token s) = 32 \<and>
     length (s_remote s) = 32 \<and> length (s_eph_seckey s) = 64 \<and> length (s_sessionkey s) = 32"

lemma workbuf_split:
  assumes "length w = 256" "k \<le> 160"
  obtains h n x p r where "w = h @ n @ x @ p @ r" "length h = 32" "length n = 32" "length x = 32"
    "length p = k" "length r = 160 - k"
proof
  show "w = take 32 w @ take 32 (drop 32 w) @ take 32 (drop 64 w) @ take k (drop 96 w) @ drop (96 + k) w"
    using append_take_drop_id [of 32 w] append_take_drop_id [of 32 "drop 32 w"]
      append_take_drop_id [of 32 "drop 64 w"] append_take_drop_id [of k "drop 96 w"]
    by (simp add: add.commute)
qed (use assms in simp_all)

text \<open>Stores of the padding, the nonce and the token into a split buffer, in any order.\<close>

lemma workbuf_stores:
  assumes "length h = 32" "length n = 32" "length x = 32"
  shows "length p' = length p \<Longrightarrow> mem_store (h @ n @ x @ p @ r) 96 p' = Some (h @ n @ x @ p' @ r)"
    "length n' = 32 \<Longrightarrow> mem_store (h @ n @ x @ p @ r) 32 n' = Some (h @ n' @ x @ p @ r)"
    "length x' = 32 \<Longrightarrow> mem_store (h @ n @ x @ p @ r) 64 x' = Some (h @ n @ x' @ p @ r)"
proof -
  show "length p' = length p \<Longrightarrow> mem_store (h @ n @ x @ p @ r) 96 p' = Some (h @ n @ x @ p' @ r)"
    using mem_store_at [of 96 "h @ n @ x" p' p r] assms by simp
  show "length n' = 32 \<Longrightarrow> mem_store (h @ n @ x @ p @ r) 32 n' = Some (h @ n' @ x @ p @ r)"
    using mem_store_at [of 32 h n' n "x @ p @ r"] assms by simp
  show "length x' = 32 \<Longrightarrow> mem_store (h @ n @ x @ p @ r) 64 x' = Some (h @ n @ x' @ p @ r)"
    using mem_store_at [of 64 "h @ n" x' x "p @ r"] assms by simp
qed

lemma length_sealed_packet:
  assumes "sodium_ok S" "length k1 = 32" "length k2 = 32" "length n = 32" "length t = 32"
  shows "length (sealed_packet S k1 k2 n t w) = 96 + length w"
  using assms enc_props(2) [of S n k1 t] mac_props(2) [of S k2]
  by (simp add: sealed_packet_def)

text \<open>A packet received into the working buffer.\<close>

lemma receive_workbuf:
  assumes "length (s_workbuf s) = 256" "length pkt \<le> 256"
  shows "put_workbuf 0 pkt s = Some (s\<lparr>s_workbuf := pkt @ drop (length pkt) (s_workbuf s)\<rparr>)"
  using mem_store_over [of 0 "[]" pkt "s_workbuf s"] assms by (simp add: put_workbuf_def)

section \<open>Filling in padding, nonce and token\<close>

lemma introduce_fills:
  assumes "length (s_workbuf s) = 256" "length pub = 32"
  shows "\<exists>h n x w r rng. length h = 32 \<and> length n = 32 \<and> length x = 32 \<and> length w < 128 \<and>
    length r = 160 - length w \<and>
    introduce pub j s = Some (s\<lparr>s_remote := pub, s_workbuf := h @ n @ x @ w @ r,
      s_intro_sz := 96 + length w, s_working := True, s_establish_job_id := j,
      s_jobs := s_jobs s @ [GenIntro], s_rng := rng\<rparr>)"
proof -
  obtain k s0 where k: "rand_pad (s\<lparr>s_remote := pub\<rparr>) = (k, s0)" by fastforce
  note k' = rand_pad_props [OF k]
  obtain w s1 where p: "randbytes k (s0\<lparr>s_intro_sz := 32 * 3 + k\<rparr>) = (w, s1)" by fastforce
  note p' = randbytes_props [OF p]
  obtain h n0 x p0 r where l: "s_workbuf s = h @ n0 @ x @ p0 @ r" "length h = 32" "length n0 = 32"
      "length x = 32" "length p0 = k" "length r = 160 - k"
    by (rule workbuf_split [of "s_workbuf s" k]) (use assms k' in simp_all)
  obtain n s2 where n: "randbytes 32 (s1\<lparr>s_workbuf := h @ n0 @ x @ w @ r\<rparr>) = (n, s2)" by fastforce
  note n' = randbytes_props [OF n]
  have "introduce pub j s = Some ((queue_job GenIntro
      (s2\<lparr>s_workbuf := h @ n @ x @ w @ r, s_working := True\<rparr>))\<lparr>s_establish_job_id := j\<rparr>)"
    using k k' p p' n n' l assms
    by (simp add: introduce_def Let_def put_workbuf_def workbuf_stores)
  moreover have "length w < 128" "length r = 160 - length w" using k' p' l by simp_all
  ultimately show ?thesis
    using k' p' n' l(2,4)
    by - (rule exI [of _ h], rule exI [of _ n], rule exI [of _ x], rule exI [of _ w], rule exI [of _ r], rule exI [of _ "s_rng s2"],
      simp add: queue_job_def)
qed

lemma intro_ack_fills:
  assumes "length (s_workbuf s) = 256"
  shows "\<exists>h n x w r rng. length h = 32 \<and> length n = 32 \<and> length x = 32 \<and> length w < 128 \<and>
    length r = 160 - length w \<and>
    intro_ack s = Some (s\<lparr>s_workbuf := h @ n @ x @ w @ r, s_introack_sz := 96 + length w,
      s_working := True, s_jobs := s_jobs s @ [GenIntroack], s_rng := rng\<rparr>)"
proof -
  obtain k s0 where k: "rand_pad s = (k, s0)" by fastforce
  note k' = rand_pad_props [OF k]
  obtain w s1 where p: "randbytes k (s0\<lparr>s_introack_sz := 32 * 3 + k\<rparr>) = (w, s1)" by fastforce
  note p' = randbytes_props [OF p]
  obtain h n0 x p0 r where l: "s_workbuf s = h @ n0 @ x @ p0 @ r" "length h = 32" "length n0 = 32"
      "length x = 32" "length p0 = k" "length r = 160 - k"
    by (rule workbuf_split [of "s_workbuf s" k]) (use assms k' in simp_all)
  obtain n s2 where n: "randbytes 32 (s1\<lparr>s_workbuf := h @ n0 @ x @ w @ r\<rparr>) = (n, s2)" by fastforce
  note n' = randbytes_props [OF n]
  have "intro_ack s = Some (queue_job GenIntroack
      (s2\<lparr>s_workbuf := h @ n @ x @ w @ r, s_working := True\<rparr>))"
    using k k' p p' n n' l by (simp add: intro_ack_def Let_def put_workbuf_def workbuf_stores)
  moreover have "length w < 128" "length r = 160 - length w" using k' p' l by simp_all
  ultimately show ?thesis
    using k' p' n' l(2,4)
    by - (rule exI [of _ h], rule exI [of _ n], rule exI [of _ x], rule exI [of _ w], rule exI [of _ r], rule exI [of _ "s_rng s2"],
      simp add: queue_job_def)
qed

lemma session_start_fills:
  assumes "length (s_workbuf s) = 256" "length (s_token s) = 32"
  shows "\<exists>h n w r rng. length h = 32 \<and> length n = 32 \<and> length w < 128 \<and>
    length r = 160 - length w \<and>
    session_start s = Some (s\<lparr>s_workbuf := h @ n @ s_token s @ w @ r, s_start_sz := 96 + length w,
      s_working := True, s_jobs := s_jobs s @ [GenSessionStart], s_rng := rng\<rparr>)"
proof -
  obtain k s0 where k: "rand_pad s = (k, s0)" by fastforce
  note k' = rand_pad_props [OF k]
  obtain n s1 where n: "randbytes 32 (s0\<lparr>s_start_sz := k + 32 * 3\<rparr>) = (n, s1)" by fastforce
  note n' = randbytes_props [OF n]
  obtain h n0 x p0 r where l: "s_workbuf s = h @ n0 @ x @ p0 @ r" "length h = 32" "length n0 = 32"
      "length x = 32" "length p0 = k" "length r = 160 - k"
    by (rule workbuf_split [of "s_workbuf s" k]) (use assms k' in simp_all)
  obtain w s2 where p: "randbytes k (s1\<lparr>s_workbuf := h @ n @ s_token s @ p0 @ r\<rparr>) = (w, s2)" by fastforce
  note p' = randbytes_props [OF p]
  have "session_start s = Some (queue_job GenSessionStart
      (s2\<lparr>s_workbuf := h @ n @ s_token s @ w @ r, s_working := True\<rparr>))"
    using k k' p p' n n' l assms
    by (simp add: session_start_def Let_def put_workbuf_def workbuf_stores)
  moreover have "length w < 128" "length r = 160 - length w" using k' p' l by simp_all
  ultimately show ?thesis
    using k' p' n' l(2,4)
    by - (rule exI [of _ h], rule exI [of _ n], rule exI [of _ w], rule exI [of _ r], rule exI [of _ "s_rng s2"],
      simp add: queue_job_def)
qed

section \<open>The steps of the handshake\<close>

text \<open>The three packets, for a nonce and a padding.\<close>

definition intro_packet :: "sodium \<Rightarrow> byte list \<Rightarrow> byte list \<Rightarrow> byte list \<Rightarrow> bool" where
  "intro_packet S a b pkt \<longleftrightarrow> (\<exists>n w. length n = 32 \<and> length w < 128 \<and>
     pkt = sealed_packet S (intro_key S (seckey_topublic b) n) (dh.shared S a b n) n
       (seckey_topublic a) w)"

definition token_packet :: "sodium \<Rightarrow> byte list \<Rightarrow> byte list \<Rightarrow> byte list \<Rightarrow> byte list \<Rightarrow> byte list \<Rightarrow> bool" where
  "token_packet S a b tok n pkt \<longleftrightarrow> length n = 32 \<and> (\<exists>w. length w < 128 \<and>
     pkt = sealed_packet S (dh.shared S a b n) (dh.shared S a b n) n tok w)"

lemmas handshake_defs = EnterState_def alive_def queue_job_def PumpCryptoOutbound_def udp_sendto_def

text \<open>What a step leaves alone.\<close>

definition kept :: "session \<Rightarrow> session \<Rightarrow> bool" where
  "kept s s' \<longleftrightarrow> s_eph_seckey s' = s_eph_seckey s \<and> s_our_router s' = s_our_router s \<and>
     s_outbound s' = s_outbound s \<and>
     s_frame s' = (s_frame s)\<lparr>lastEvent := lastEvent (s_frame s')\<rparr> \<and>
     s_tracked s' = s_tracked s \<and> session_sizes s'"

lemma client_introduces:
  assumes ok: "sodium_ok (e_sodium E)" "dh_agree (e_sodium E) a b" and snd: "\<And>p. e_sendto E p"
    and s: "session_sizes s" "s_eph_seckey s = a"
  shows "\<exists>s1 s2 pkt. introduce (seckey_topublic b) j s = Some s1 \<and> run_gen_intro E s1 = Some s2 \<and>
    intro_packet (e_sodium E) a b pkt \<and> s_sent s2 = s_sent s @ [pkt] \<and> s_state s2 = eIntroSent \<and>
    s_remote s2 = seckey_topublic b \<and> kept s s2"
proof -
  let ?S = "e_sodium E"
  have ab: "length (seckey_topublic b) = 32" "length (seckey_topublic a) = 32"
    using dh.pair_sizes [of ?S a b] ok by (simp_all add: length_public)
  obtain h n x w r rng where l: "length h = 32" "length n = 32" "length x = 32" "length w < 128"
      "length r = 160 - length w"
    and i: "introduce (seckey_topublic b) j s = Some (s\<lparr>s_remote := seckey_topublic b,
      s_workbuf := h @ n @ x @ w @ r, s_intro_sz := 96 + length w, s_working := True,
      s_establish_job_id := j, s_jobs := s_jobs s @ [GenIntro], s_rng := rng\<rparr>)" (is "_ = Some ?s1")
    using introduce_fills [of s "seckey_topublic b" j] s ab unfolding session_sizes_def by blast
  let ?pkt = "sealed_packet ?S (intro_key ?S (seckey_topublic b) n) (dh.shared ?S a b n) n
    (seckey_topublic a) w"
  have len: "length ?pkt = 96 + length w"
    using length_sealed_packet [OF ok(1) length_intro_key [OF ok(1)]] dh.shared_props(1) [of ?S a b n]
      ok l ab by simp
  let ?s2 = "EnterState E eIntroSent (?s1\<lparr>s_workbuf := ?pkt @ r, s_working := False,
    s_sent := s_sent s @ [?pkt]\<rparr>)"
  have "run_gen_intro E ?s1 = Some ?s2"
    using gen_intro_eq [OF ok l(1-3), of w "job_stack E" r] s(2) l len snd
    by (simp add: run_gen_intro_def handle_generated_intro_def mem_load_def udp_sendto_def)
  moreover have "intro_packet ?S a b ?pkt" using l unfolding intro_packet_def by blast
  moreover have "s_sent ?s2 = s_sent s @ [?pkt] \<and> s_state ?s2 = eIntroSent \<and>
      s_remote ?s2 = seckey_topublic b \<and> kept s ?s2"
    using s l len ab by (simp add: handshake_defs session_sizes_def kept_def)
  ultimately show ?thesis using i by metis
qed

lemma server_answers:
  assumes ok: "sodium_ok (e_sodium E)" "dh_agree (e_sodium E) a b" and snd: "\<And>p. e_sendto E p"
    and s: "session_sizes s" "s_eph_seckey s = b" "s_state s = eInitial"
    and pkt: "intro_packet (e_sodium E) a b pkt"
  shows "\<exists>s1 s2. session_recv E pkt s = Some s1 \<and> run_verify_intro E s1 = Some s2 \<and>
    (\<exists>s3 n pkt'. run_gen_introack E False s2 = Some s3 \<and>
      token_packet (e_sodium E) a b (s_token s) n pkt' \<and>
      s_sent s3 = s_sent s @ [pkt'] \<and> s_state s3 = eIntroAckSent \<and>
      s_remote s3 = seckey_topublic a \<and> s_token s3 = s_token s \<and> s_working s3 \<and>
      kept (s\<lparr>s_tracked := True\<rparr>) s3)"
proof -
  let ?S = "e_sodium E"
  from pkt obtain n0 w0 where nw: "length n0 = 32" "length w0 < 128"
    and p: "pkt = sealed_packet ?S (intro_key ?S (seckey_topublic b) n0) (dh.shared ?S a b n0) n0
      (seckey_topublic a) w0" by (auto simp: intro_packet_def)
  have a32: "length (seckey_topublic a) = 32" and tok: "length (s_token s) = 32"
    using dh.pair_sizes [of ?S a b] ok s by (simp_all add: length_public session_sizes_def)
  have lp: "length pkt = 96 + length w0"
    unfolding p using length_sealed_packet [OF ok(1) length_intro_key [OF ok(1)]] nw a32 ok
      dh.shared_props(1) [of ?S a b n0] by simp
  let ?rest = "drop (length pkt) (s_workbuf s)"
  let ?s1 = "queue_job VerifyIntro ((EnterState E eIntroRecv (s\<lparr>s_workbuf := pkt @ ?rest,
    s_intro_sz := length pkt\<rparr>))\<lparr>s_working := True\<rparr>)"
  have r: "session_recv E pkt s = Some ?s1"
    using s lp nw receive_workbuf [of s pkt]
    by (simp add: session_recv_def on_intro_def session_sizes_def)
  let ?t = "?s1\<lparr>s_remote := seckey_topublic a, s_working := False\<rparr>"
  note v = verify_intro_eq [OF ok nw(1) _ arg_cong [of _ _ "\<lambda>x. x @ ?rest", OF p], of "job_stack E"
      "s_remote s"]
  have vi: "run_verify_intro E ?s1 = intro_ack ?t"
    using v nw lp s(2) by (simp add: run_verify_intro_def handshake_defs)
  have "length (s_workbuf ?t) = 256" using s lp nw by (simp add: session_sizes_def handshake_defs)
  then obtain h n x w r rng where l: "length h = 32" "length n = 32" "length x = 32" "length w < 128"
      "length r = 160 - length w"
    and i: "intro_ack ?t = Some (?t\<lparr>s_workbuf := h @ n @ x @ w @ r, s_introack_sz := 96 + length w,
      s_working := True, s_jobs := s_jobs ?t @ [GenIntroack], s_rng := rng\<rparr>)" (is "_ = Some ?s2")
    using intro_ack_fills by blast
  let ?pkt = "sealed_packet ?S (dh.shared ?S a b n) (dh.shared ?S a b n) n (s_token s) w"
  have len: "length ?pkt = 96 + length w"
    using length_sealed_packet [OF ok(1), of "dh.shared ?S a b n" "dh.shared ?S a b n" n]
      dh.shared_props(1) [of ?S a b n] ok l tok by simp
  let ?s3 = "EnterState E eIntroAckSent ((alive E (?s2\<lparr>s_workbuf := ?pkt @ r\<rparr>))
    \<lparr>s_tracked := True, s_sent := s_sent s @ [?pkt]\<rparr>)"
  have "run_gen_introack E False ?s2 = Some ?s3"
    using gen_introack_eq [OF ok tok l(1-3), of w "job_stack E" r] s(2) l len snd
    by (simp add: run_gen_introack_def handle_introack_generated_def mem_load_def handshake_defs)
  moreover have "token_packet ?S a b (s_token s) n ?pkt" using l unfolding token_packet_def by blast
  moreover have "s_sent ?s3 = s_sent s @ [?pkt] \<and> s_state ?s3 = eIntroAckSent \<and>
      s_remote ?s3 = seckey_topublic a \<and> s_token ?s3 = s_token s \<and> s_working ?s3 \<and>
      kept (s\<lparr>s_tracked := True\<rparr>) ?s3"
    using s l len a32 by (simp add: handshake_defs session_sizes_def kept_def)
  ultimately show ?thesis using r vi i by metis
qed

lemma client_starts:
  assumes ok: "sodium_ok (e_sodium E)" "dh_agree (e_sodium E) a b" and snd: "\<And>p. e_sendto E p"
    and s: "session_sizes s" "s_eph_seckey s = a" "s_state s = eIntroSent" "s_remote s = seckey_topublic b"
    and pkt: "token_packet (e_sodium E) a b tok n0 pkt" and tok: "length tok = 32"
  shows "\<exists>s1 s2. session_recv E pkt s = Some s1 \<and> run_verify_introack E s1 = Some s2 \<and>
    (\<exists>s3 n pkt'. run_gen_session_start E s2 = Some s3 \<and> token_packet (e_sodium E) a b tok n pkt' \<and>
      s_sent s3 = s_sent s @ [pkt'] \<and> s_state s3 = eSessionStartSent \<and>
      s_sessionkey s3 = dh.shared (e_sodium E) a b (intro_key (e_sodium E) tok n) \<and>
      s_token s3 = tok \<and> s_remote s3 = seckey_topublic b \<and> kept s s3)"
proof -
  let ?S = "e_sodium E"
  from pkt obtain w0 where nw: "length n0 = 32" "length w0 < 128"
    and p: "pkt = sealed_packet ?S (dh.shared ?S a b n0) (dh.shared ?S a b n0) n0 tok w0"
    by (auto simp: token_packet_def)
  have lp: "length pkt = 96 + length w0"
    unfolding p using length_sealed_packet [OF ok(1), of "dh.shared ?S a b n0" "dh.shared ?S a b n0" n0 tok]
      nw tok ok dh.shared_props(1) [of ?S a b n0] by simp
  let ?rest = "drop (length pkt) (s_workbuf s)"
  let ?s1 = "queue_job VerifyIntroack (s\<lparr>s_workbuf := pkt @ ?rest, s_introack_sz := length pkt,
    s_working := True\<rparr>)"
  have r: "session_recv E pkt s = Some ?s1"
    using s lp nw receive_workbuf [of s pkt]
    by (simp add: session_recv_def on_intro_ack_def session_sizes_def)
  obtain buf where v: "verify_introack ?S (job_stack E) \<lparr>ia_buf = Some (pkt @ ?rest),
      ia_sz = 96 + length w0, ia_token = s_token s, ia_remote_pubkey = seckey_topublic b,
      ia_secretkey = a\<rparr> = Some \<lparr>ia_buf = Some buf, ia_sz = 96 + length w0, ia_token = tok,
      ia_remote_pubkey = seckey_topublic b, ia_secretkey = a\<rparr>" and lb: "length buf = 256"
    using verify_introack_eq [OF ok tok nw(1), of w0 ?rest "job_stack E" "s_token s"] p nw
      lp s by (auto simp: session_sizes_def)
  let ?t = "EnterState E eIntroAckRecv (?s1\<lparr>s_working := False, s_workbuf := buf, s_token := tok\<rparr>)"
  have vi: "run_verify_introack E ?s1 = session_start ?t"
    using v lp s(2,4) by (simp add: run_verify_introack_def handshake_defs)
  have "length (s_workbuf ?t) = 256" "length (s_token ?t) = 32"
    using lb tok by (simp_all add: handshake_defs)
  then obtain h n w r rng where l: "length h = 32" "length n = 32" "length w < 128"
      "length r = 160 - length w"
    and i: "session_start ?t = Some (?t\<lparr>s_workbuf := h @ n @ s_token ?t @ w @ r,
      s_start_sz := 96 + length w, s_working := True, s_jobs := s_jobs ?t @ [GenSessionStart],
      s_rng := rng\<rparr>)" (is "_ = Some ?s2")
    using session_start_fills by blast
  let ?pkt = "sealed_packet ?S (dh.shared ?S a b n) (dh.shared ?S a b n) n tok w"
  let ?K = "dh.shared ?S a b (intro_key ?S tok n)"
  have len: "length ?pkt = 96 + length w" "length ?K = 32"
    using length_sealed_packet [OF ok(1), of "dh.shared ?S a b n" "dh.shared ?S a b n" n]
      dh.shared_props(1) [of ?S a b n] dh.shared_props(1) [of ?S a b "intro_key ?S tok n"] ok l tok
      length_intro_key [OF ok(1)] by simp_all
  let ?s3 = "EnterState E eSessionStartSent (?s2\<lparr>s_workbuf := ?pkt @ r, s_sessionkey := ?K,
    s_working := False, s_sent := s_sent s @ [?pkt]\<rparr>)"
  have "run_gen_session_start E ?s2 = Some ?s3"
    using gen_session_start_eq [OF ok tok l(1,2) tok, of w "job_stack E" r "s_sessionkey s"] s(2,4) l len snd
    by (simp add: run_gen_session_start_def mem_load_def handshake_defs)
  moreover have "token_packet ?S a b tok n ?pkt" using l unfolding token_packet_def by blast
  moreover have "s_sent ?s3 = s_sent s @ [?pkt] \<and> s_state ?s3 = eSessionStartSent \<and>
      s_sessionkey ?s3 = ?K \<and> s_token ?s3 = tok \<and> s_remote ?s3 = seckey_topublic b \<and> kept s ?s3"
    using s l len tok by (simp add: handshake_defs session_sizes_def kept_def)
  ultimately show ?thesis using r vi i by metis
qed

lemma server_finishes:
  assumes ok: "sodium_ok (e_sodium E)" "dh_agree (e_sodium E) a b"
    and s: "session_sizes s" "s_eph_seckey s = b" "s_state s = eIntroAckSent" "s_remote s = seckey_topublic a"
    and pkt: "token_packet (e_sodium E) a b (s_token s) n pkt"
  shows "\<exists>s1 s2. session_recv E pkt s = Some s1 \<and> run_verify_session_start E s1 = send_LIM E s2 \<and>
    s_sessionkey s2 = dh.shared (e_sodium E) a b (intro_key (e_sodium E) (s_token s) n) \<and>
    \<not> s_working s2 \<and> s_remote s2 = s_remote s \<and> s_our_router s2 = s_our_router s \<and>
    s_frame s2 = s_frame s"
proof -
  let ?S = "e_sodium E"
  have tok: "length (s_token s) = 32" using s by (simp add: session_sizes_def)
  from pkt obtain w0 where nw: "length n = 32" "length w0 < 128"
    and p: "pkt = sealed_packet ?S (dh.shared ?S a b n) (dh.shared ?S a b n) n (s_token s) w0"
    by (auto simp: token_packet_def)
  have lp: "length pkt = 96 + length w0"
    unfolding p using length_sealed_packet [OF ok(1), of "dh.shared ?S a b n" "dh.shared ?S a b n" n "s_token s"]
      nw tok ok dh.shared_props(1) [of ?S a b n] by simp
  let ?rest = "drop (length pkt) (s_workbuf s)"
  let ?s1 = "queue_job VerifySessionStart (s\<lparr>s_workbuf := pkt @ ?rest, s_start_sz := length pkt,
    s_working := True\<rparr>)"
  have r: "session_recv E pkt s = Some ?s1"
    using s lp nw receive_workbuf [of s pkt]
    by (simp add: session_recv_def on_session_start_def session_sizes_def)
  let ?K = "dh.shared ?S a b (intro_key ?S (s_token s) n)"
  obtain buf where v: "verify_session_start ?S (job_stack E) \<lparr>ss_buf = Some (pkt @ ?rest),
      ss_sz = 96 + length w0, ss_token = s_token s, ss_sessionkey = s_sessionkey s,
      ss_secretkey = b, ss_remote_pubkey = seckey_topublic a\<rparr> =
    Some \<lparr>ss_buf = Some buf, ss_sz = 96 + length w0, ss_token = s_token s, ss_sessionkey = ?K,
      ss_secretkey = b, ss_remote_pubkey = seckey_topublic a\<rparr>"
    using verify_session_start_eq [OF ok tok tok nw(1), of w0 "job_stack E" ?rest "s_sessionkey s"] p nw
    by auto
  let ?s2 = "?s1\<lparr>s_sessionkey := ?K, s_working := False, s_workbuf := buf\<rparr>"
  have "run_verify_session_start E ?s1 = send_LIM E ?s2"
    using v lp s(2,4) by (simp add: run_verify_session_start_def handshake_defs)
  with r show ?thesis
    by - (rule exI [of _ ?s1], rule exI [of _ ?s2], simp add: queue_job_def)
qed

section \<open>Both ends agree\<close>

text \<open>
  C4. The link handshake, run through the sessions and their worker jobs: the client
  introduces itself, the server answers with its token, the client starts the session. If every
  packet arrives, each step succeeds, the client has learnt the server's token, the server the
  client's public key, both hold the same session key, and the server has sent its introduction.
\<close>

theorem handshake_agrees:
  assumes ok: "sodium_ok S" "dh_agree S a b"
    and E: "e_sodium EA = S" "e_sodium EB = S" "\<And>p. e_sendto EA p" "\<And>p. e_sendto EB p"
    and A: "session_sizes A" "s_eph_seckey A = a"
    and B: "session_sizes B" "s_eph_seckey B = b" "s_state B = eInitial" "s_frame B = frame_state_new"
    and fits: "lim_fits EB (s_our_router B)"
  shows "\<exists>A1 A2 A3 A4 A5 B1 B2 B3 B4 B5.
    introduce (seckey_topublic b) j A = Some A1 \<and> run_gen_intro EA A1 = Some A2 \<and>
    session_recv EB (last (s_sent A2)) B = Some B1 \<and> run_verify_intro EB B1 = Some B2 \<and>
    run_gen_introack EB False B2 = Some B3 \<and>
    session_recv EA (last (s_sent B3)) A2 = Some A3 \<and> run_verify_introack EA A3 = Some A4 \<and>
    run_gen_session_start EA A4 = Some A5 \<and>
    session_recv EB (last (s_sent A5)) B3 = Some B4 \<and> run_verify_session_start EB B4 = Some B5 \<and>
    s_sessionkey A5 = s_sessionkey B5 \<and> s_token A5 = s_token B \<and>
    s_remote B5 = seckey_topublic a \<and> s_state A5 = eSessionStartSent \<and> s_state B5 = eLIMSent \<and>
    \<not> s_working B5"
proof -
  note okA = ok [folded E(1)] and okB = ok [folded E(2)]
  obtain A1 A2 p1 where a: "introduce (seckey_topublic b) j A = Some A1" "run_gen_intro EA A1 = Some A2"
      "intro_packet S a b p1" "s_sent A2 = s_sent A @ [p1]" "s_state A2 = eIntroSent"
      "s_remote A2 = seckey_topublic b" "kept A A2"
    using client_introduces [OF okA E(3) A] E(1) by blast
  obtain B1 B2 B3 n1 p2 where b: "session_recv EB p1 B = Some B1" "run_verify_intro EB B1 = Some B2"
      "run_gen_introack EB False B2 = Some B3" "token_packet S a b (s_token B) n1 p2"
      "s_sent B3 = s_sent B @ [p2]" "s_state B3 = eIntroAckSent" "s_remote B3 = seckey_topublic a"
      "s_token B3 = s_token B" "kept (B\<lparr>s_tracked := True\<rparr>) B3"
    using server_answers [OF okB E(4) B(1-3)] a(3) E(2) by metis
  have tok: "length (s_token B) = 32" using B(1) by (simp add: session_sizes_def)
  have A2: "session_sizes A2" "s_eph_seckey A2 = a" using a(7) A by (simp_all add: kept_def)
  obtain A3 A4 A5 n2 p3 where c: "session_recv EA p2 A2 = Some A3" "run_verify_introack EA A3 = Some A4"
      "run_gen_session_start EA A4 = Some A5" "token_packet S a b (s_token B) n2 p3"
      "s_sent A5 = s_sent A2 @ [p3]" "s_state A5 = eSessionStartSent"
      "s_sessionkey A5 = dh.shared S a b (intro_key S (s_token B) n2)" "s_token A5 = s_token B"
    using client_starts [OF okA E(3) A2 a(5,6) _ tok] b(4) E(1) by metis
  have B3: "session_sizes B3" "s_eph_seckey B3 = b" "s_our_router B3 = s_our_router B"
    and fr: "s_frame B3 = frame_state_new\<lparr>lastEvent := lastEvent (s_frame B3)\<rparr>"
    using b(9) B by (simp_all add: kept_def)
  obtain B4 s2 where d: "session_recv EB p3 B3 = Some B4" "run_verify_session_start EB B4 = send_LIM EB s2"
      "s_sessionkey s2 = dh.shared S a b (intro_key S (s_token B) n2)" "\<not> s_working s2"
      "s_remote s2 = seckey_topublic a" "s_our_router s2 = s_our_router B" "s_frame s2 = s_frame B3"
    using server_finishes [OF okB B3(1,2) b(6,7)] c(4) b(7,8) E(2) B3(3) by metis
  have "sendqueue (s_frame s2) = []" "tx (s_frame s2) = []"
    unfolding d(7) by (subst fr, simp add: frame_state_new_def)+
  then obtain B5 where "send_LIM EB s2 = Some B5" "s_state B5 = eLIMSent"
      "s_sessionkey B5 = s_sessionkey s2" "s_remote B5 = s_remote s2" "s_working B5 = s_working s2"
    using send_LIM_ok [OF okB(1), of s2] fits d(6) by auto
  with d a b c show ?thesis by auto
qed

definition example_env :: iwp_env where
  "example_env = \<lparr>e_sodium = example_sodium, e_ntop = hex_ntop, e_stack = (\<lambda>n. replicate n 0),
     e_sendto = (\<lambda>p. True), e_now = 1000\<rparr>"

definition example_session :: "byte \<Rightarrow> session" where
  "example_session x = session_new (example_key x) example_rc (\<lambda>n. replicate n 0) (\<lambda>i. of_nat i)"

lemma example_session_ok:
  "session_sizes (example_session x)" "s_eph_seckey (example_session x) = example_key x"
  "s_state (example_session x) = eInitial" "s_frame (example_session x) = frame_state_new"
  "s_our_router (example_session x) = example_rc"
  by (simp_all add: example_session_def session_new_def session_sizes_def randbytes_def MAX_PAD_def
      example_key_def)

lemma example_lim_fits: "lim_fits example_env example_rc"
  using inet_ok_hex example_rc_valid example_rc_fits by (auto simp: lim_fits_def example_env_def)

theorem handshake_agrees_witness:
  "\<exists>A1 A2 A3 A4 A5 B1 B2 B3 B4 B5.
    introduce (seckey_topublic (example_key 2)) 1 (example_session 1) = Some A1 \<and>
    run_gen_intro example_env A1 = Some A2 \<and>
    session_recv example_env (last (s_sent A2)) (example_session 2) = Some B1 \<and>
    run_verify_intro example_env B1 = Some B2 \<and> run_gen_introack example_env False B2 = Some B3 \<and>
    session_recv example_env (last (s_sent B3)) A2 = Some A3 \<and>
    run_verify_introack example_env A3 = Some A4 \<and> run_gen_session_start example_env A4 = Some A5 \<and>
    session_recv example_env (last (s_sent A5)) B3 = Some B4 \<and>
    run_verify_session_start example_env B4 = Some B5 \<and>
    s_sessionkey A5 = s_sessionkey B5 \<and> s_token A5 = s_token (example_session 2) \<and>
    s_remote B5 = seckey_topublic (example_key 1) \<and> s_state A5 = eSessionStartSent \<and>
    s_state B5 = eLIMSent \<and> \<not> s_working B5"
  by (rule handshake_agrees [OF example_sodium_ok example_agree])
    (simp_all add: example_session_ok example_lim_fits, simp_all add: example_env_def)

section \<open>Packets of unusual sizes\<close>

text \<open>
  A datagram shorter than 32 bytes in the state \<open>eInitial\<close> (any first datagram of an unknown
  address): it is accepted for verification, and the job that verifies it subtracts 32 from
  the size, wraps around, and hashes beyond the working buffer.
\<close>

theorem short_intro_undefined:
  assumes "session_sizes s" "s_state s = eInitial" "length pkt < 32"
  shows "\<exists>s1. session_recv E pkt s = Some s1 \<and> VerifyIntro \<in> set (s_jobs s1) \<and>
    run_job E recv dup VerifyIntro s1 = None"
proof -
  have w: "length (s_workbuf s) = 256" using assms by (simp add: session_sizes_def)
  let ?w = "pkt @ drop (length pkt) (s_workbuf s)"
  let ?s1 = "queue_job VerifyIntro ((EnterState E eIntroRecv (s\<lparr>s_workbuf := ?w,
    s_intro_sz := length pkt\<rparr>))\<lparr>s_working := True\<rparr>)"
  have r: "session_recv E pkt s = Some ?s1"
    using assms w receive_workbuf [of s pkt] by (simp add: session_recv_def on_intro_def)
  have "hmac_at S ?w 32 (size_sub (length pkt) 32) k = None" for S k
    using mem_load_wrapped [of "length pkt" 32 ?w 32] assms w by (simp add: hmac_at_def)
  then have "run_job E recv dup VerifyIntro ?s1 = None"
    using assms w
    by (simp add: run_job_def run_verify_intro_def verify_intro_def handshake_defs Let_def mem_load_def)
  with r show ?thesis by - (rule exI [of _ ?s1], simp add: queue_job_def)
qed

theorem short_intro_undefined_witness:
  "\<exists>s1. session_recv example_env [] (example_session 2) = Some s1 \<and> VerifyIntro \<in> set (s_jobs s1) \<and>
    run_job example_env (\<lambda>m s. None) False VerifyIntro s1 = None"
  by (rule short_intro_undefined) (simp_all add: example_session_ok)

text \<open>
  A session that is established or being established and gets a datagram of more than 1500
  bytes: \<open>alloc_frame\<close> returns the null pointer, which \<open>decrypt_frame\<close> dereferences. The event loop
  reads datagrams of up to 2048 bytes.
\<close>

theorem long_frame_undefined:
  assumes "s_state s \<in> {eSessionStartSent, eLIMSent, eEstablished}" "length pkt > 1500"
  shows "session_recv E pkt s = None"
  using assms by (auto simp: session_recv_def decrypt_frame_def alloc_frame_def)

theorem long_frame_undefined_witness:
  "session_recv example_env (replicate 2048 0) ((example_session 2)\<lparr>s_state := eEstablished\<rparr>) = None"
  by (rule long_frame_undefined) simp_all

section \<open>Half-open sessions\<close>

text \<open>
  A server session whose client never starts the session: the job that sends the
  introduction acknowledgement leaves \<open>working\<close> set, and \<open>Tick\<close> keeps a session that is working
  however long it has been silent. The session is never removed.
\<close>

theorem half_open_never_removed:
  assumes "sodium_ok (e_sodium E)" "dh_agree (e_sodium E) a b" "\<And>p. e_sendto E p"
    and "session_sizes s" "s_eph_seckey s = b" "s_state s = eInitial"
    and "intro_packet (e_sodium E) a b pkt"
  shows "\<exists>s1 s2 s3. session_recv E pkt s = Some s1 \<and> run_verify_intro E s1 = Some s2 \<and>
    run_gen_introack E False s2 = Some s3 \<and> s_state s3 = eIntroAckSent \<and> s_tracked s3 \<and>
    (\<forall>E' removed s'. Tick E' s3 = Some (removed, s') \<longrightarrow> \<not> removed \<and> s' = s3)"
proof -
  obtain s1 s2 s3 where s: "session_recv E pkt s = Some s1" "run_verify_intro E s1 = Some s2"
      "run_gen_introack E False s2 = Some s3" "s_state s3 = eIntroAckSent" "s_working s3"
      "kept (s\<lparr>s_tracked := True\<rparr>) s3"
    using server_answers [OF assms] by blast
  have "Tick E' s3 = Some (removed, s') \<Longrightarrow> \<not> removed \<and> s' = s3" for E' removed s'
    using s(4,5) by (auto simp: Tick_def split: if_splits)
  moreover have "s_tracked s3" using s(6) by (simp add: kept_def)
  ultimately show ?thesis using s by blast
qed

definition example_intro :: "byte list" where
  "example_intro = sealed_packet example_sodium
     (intro_key example_sodium (seckey_topublic (example_key 2)) (replicate 32 3))
     (dh.shared example_sodium (example_key 1) (example_key 2) (replicate 32 3)) (replicate 32 3)
     (seckey_topublic (example_key 1)) []"

theorem half_open_never_removed_witness:
  "\<exists>s1 s2 s3. session_recv example_env example_intro (example_session 2) = Some s1 \<and>
    run_verify_intro example_env s1 = Some s2 \<and> run_gen_introack example_env False s2 = Some s3 \<and>
    s_state s3 = eIntroAckSent \<and> s_tracked s3 \<and>
    (\<forall>E' removed s'. Tick E' s3 = Some (removed, s') \<longrightarrow> \<not> removed \<and> s' = s3)"
proof -
  have E: "e_sodium example_env = example_sodium" "\<And>p. e_sendto example_env p"
    by (simp_all add: example_env_def)
  have "intro_packet example_sodium (example_key 1) (example_key 2) example_intro"
    unfolding intro_packet_def example_intro_def
    by (rule exI [of _ "replicate 32 3"], rule exI [of _ "[]"]) simp
  then show ?thesis
    using half_open_never_removed [of example_env "example_key 1" "example_key 2" "example_session 2"
        example_intro] E example_sodium_ok example_agree example_session_ok
    by simp
qed

end
