(* ===== verification/Iwp_Delivery.thy ===== *)
theory Iwp_Delivery
  imports Iwp_Handshake
begin

text \<open>
  The receiving side of a session: the frames that the sender makes of a message, processed in
  any order of the fragments, deliver that message to the router; acknowledgements; and the
  inputs of an authenticated peer for which the code has no defined behaviour.
\<close>

section \<open>Acknowledgements\<close>

definition ack_frame :: "byte \<Rightarrow> u64 \<Rightarrow> u32 \<Rightarrow> byte list" where
  "ack_frame flags i bm = frame_bytes eACKS flags (le_bytes 8 (unat i) @ le_bytes 4 (unat bm))"

lemma push_ackfor_eq:
  "push_ackfor i bm fs = Some (fs\<lparr>sendqueue := sendqueue fs @ [ack_frame (txflags fs) i bm]\<rparr>)"
proof -
  let ?h = "[0, eACKS] @ le_bytes 2 12 @ [0, txflags fs]"
  have "mem_store (?h @ replicate 12 0) 6 (le_bytes 8 (unat i)) =
      Some (?h @ le_bytes 8 (unat i) @ replicate 4 0)"
    by (subst mem_store_over) simp_all
  moreover have "mem_store (?h @ le_bytes 8 (unat i) @ replicate 4 0) 14 (le_bytes 4 (unat bm)) =
      Some (?h @ le_bytes 8 (unat i) @ le_bytes 4 (unat bm))"
    using mem_store_over [of 14 "?h @ le_bytes 8 (unat i)" "le_bytes 4 (unat bm)" "replicate 4 0"]
    by simp
  ultimately show ?thesis
    using init_sendbuf_eq [of 12 eACKS "txflags fs"]
    by (simp add: push_ackfor_def hdr_data_def ack_frame_def frame_bytes_def)
qed

lemma le_val_4: "of_nat (le_val (le_bytes 4 (unat w))) = (w :: u32)"
proof -
  have "unat w < 256 ^ 4" using unsigned_less [of w, where 'a = nat] by simp
  then show ?thesis by (simp add: le_val_le_bytes)
qed

section \<open>Frames of a message arrive\<close>

text \<open>A plaintext frame as it is decrypted: followed by padding, of which \<open>k\<close> bytes were sent.\<close>

lemma size_after_header:
  assumes "length f = 6 + n" "length f + k < 2 ^ 63"
  shows "size_sub (length f + k) 6 = n + k"
  using assms by (simp add: size_sub_le)

definition only_frame :: "'x session_scheme \<Rightarrow> 'x session_scheme \<Rightarrow> bool" where
  "only_frame s s' \<longleftrightarrow> (\<exists>r q. s' = s\<lparr>s_frame := (s_frame s)\<lparr>rx := r, sendqueue := q\<rparr>\<rparr>)"

lemma only_frame_update:
  "only_frame s s1 \<Longrightarrow> only_frame s (s1\<lparr>s_frame := (s_frame s1)\<lparr>rx := r, sendqueue := q\<rparr>\<rparr>)"
  unfolding only_frame_def by (elim exE, rule exI [of _ r], rule exI [of _ q]) simp

lemma only_frame_rx:
  assumes "only_frame s s1" shows "only_frame s (s1\<lparr>s_frame := (s_frame s1)\<lparr>rx := r\<rparr>\<rparr>)"
proof -
  have "s1\<lparr>s_frame := (s_frame s1)\<lparr>rx := r\<rparr>\<rparr> =
      s1\<lparr>s_frame := (s_frame s1)\<lparr>rx := r, sendqueue := sendqueue (s_frame s1)\<rparr>\<rparr>" by simp
  with only_frame_update [OF assms] show ?thesis by metis
qed

text \<open>\<open>s'\<close> is \<open>s\<close> after the fragments in \<open>R\<close> of the message arrived.\<close>

definition receiving ::
  "byte list \<Rightarrow> byte list \<Rightarrow> u64 \<Rightarrow> nat set \<Rightarrow> 'x session_scheme \<Rightarrow> 'x session_scheme \<Rightarrow> bool" where
  "receiving m hash i R s s' \<longleftrightarrow> only_frame s s' \<and>
     (\<exists>t. map_of (rx (s_frame s')) i = Some t \<and> collecting m hash i R t)"

abbreviation msg_hash :: "iwp_env \<Rightarrow> byte list \<Rightarrow> byte list" where
  "msg_hash E m \<equiv> snd (sodium_shorthash (e_sodium E) m)"

lemma length_msg_hash: "sodium_ok (e_sodium E) \<Longrightarrow> length (msg_hash E m) = 32"
  using shorthash_ok [of "e_sodium E" m] by auto

lemma process_xmit:
  assumes ok: "sodium_ok (e_sodium E)" and n: "nfrags m \<le> 32"
    and fl: "flags AND eSessionInvalidated = 0" and new: "map_of (rx (s_frame s)) i = None"
    and sz: "length (xmit_frame (e_sodium E) flags i m) + k < 2 ^ 63"
  shows "\<exists>s'. receiving m (msg_hash E m) i {} s s' \<and>
    sendqueue (s_frame s') = sendqueue (s_frame s) @ [ack_frame (txflags (s_frame s)) i 0] \<and>
    process E recv (xmit_frame (e_sodium E) flags i m @ pad)
      (length (xmit_frame (e_sodium E) flags i m) + k) s =
    (if nfrags m = 0 then inbound_frame_complete E recv i s' else Some (True, s'))"
proof -
  let ?x = "set_info (msg_hash E m) i MTU (length m - nfrags m * MTU) (of_nat (nfrags m)) 1"
  let ?l = "drop (nfrags m * MTU) m"
  let ?f = "frame_bytes eXMIT flags (?x @ ?l)"
  have h: "length (msg_hash E m) = 32" by (rule length_msg_hash [OF ok])
  have f: "xmit_frame (e_sodium E) flags i m = ?f" using n by (simp add: xmit_frame_def outbound_eq)
  have l: "length ?l \<le> 1024" "length ?l = length m - nfrags m * MTU"
    using nfrags_bounds(2) [of m] by (simp_all add: MTU_def)
  have x48: "length ?x = 48" by (simp add: length_set_info h)
  have hd: "hdr_msgtype (?f @ pad) = Some eXMIT" "hdr_flags (?f @ pad) = Some flags"
      "hdr_size (?f @ pad) = Some (48 + length ?l)"
    using frame_bytes_header [of "?x @ ?l" eXMIT flags pad] l x48 by simp_all
  have ld: "mem_load (?f @ pad) 6 48 = Some ?x" "mem_load (?f @ pad) 54 (length ?l) = Some ?l"
    using frame_bytes_header(4) [of "?x @ ?l" eXMIT flags pad 0 48]
      frame_bytes_header(4) [of "?x @ ?l" eXMIT flags pad 48 "length ?l"] l x48
      mem_load_at [of 48 ?x "length ?l" ?l pad]
    by (simp_all add: mem_load_def)
  have xi: "xmit_lastfrag ?x = length ?l" "xmit_flags ?x = 1" "xmit_msgid ?x = i"
      "xmit_numfrags ?x = nfrags m"
    using n l h by (simp_all add: set_info_simps MTU_def byte_unat_of_nat)
  have ss: "size_sub (length ?f + k) 6 = 48 + length ?l + k"
    using size_after_header [of ?f "48 + length ?l" k] sz x48 by (simp add: f length_frame_bytes)
  have s48: "size_sub (48 + length ?l) 48 = length ?l" using l by (simp add: size_sub_le)
  let ?t = "(transit_message_inbound ?x)\<lparr>lastfrag := ?l\<rparr>"
  let ?s = "s\<lparr>s_frame := (s_frame s)\<lparr>rx := rx (s_frame s) @ [(i, ?t)],
    sendqueue := sendqueue (s_frame s) @ [ack_frame (txflags (s_frame s)) i 0]\<rparr>\<rparr>"
  have "process E recv (?f @ pad) (length ?f + k) s =
      (if nfrags m = 0 then inbound_frame_complete E recv i ?s else Some (True, ?s))"
    using hd ld xi ss s48 new fl
    by (simp add: process_def got_xmit_def frame_consts hdr_data_def put_lastfrag_def push_ackfor_eq)
  moreover have "receiving m (msg_hash E m) i {} s ?s"
    using collecting_init [OF n h, of i] new
    by (auto simp: receiving_def only_frame_def map_add_def)
  moreover have "sendqueue (s_frame ?s) = sendqueue (s_frame s) @ [ack_frame (txflags (s_frame s)) i 0]" by simp
  ultimately show ?thesis unfolding f by blast
qed

lemma process_frag:
  assumes n: "j < nfrags m" and fl: "flags AND eSessionInvalidated = 0"
    and r: "receiving m hash i R s s1"
    and sz: "length (frag_frame flags i m j) + k < 2 ^ 63"
  shows "\<exists>s'. receiving m hash i (insert j R) s s' \<and>
    (\<exists>as. sendqueue (s_frame s') = sendqueue (s_frame s1) @ as \<and> list_all (\<lambda>f. length f = 18) as) \<and>
    process E recv (frag_frame flags i m j @ pad) (length (frag_frame flags i m j) + k) s1 =
    (if insert j R = {..<nfrags m} then inbound_frame_complete E recv i s' else Some (True, s'))"
proof -
  let ?b = "frag_body i j (chunk m j)"
  let ?f = "frame_bytes eFRAG flags ?b"
  obtain t where t: "map_of (rx (s_frame s1)) i = Some t" "collecting m hash i R t"
    using r by (auto simp: receiving_def)
  have n32: "nfrags m \<le> 32" using t(2) by (simp add: collecting_def)
  have c: "length (chunk m j) = MTU" by (rule length_chunk [OF n])
  have b: "length ?b = 1033" using c by (simp add: frag_body_def MTU_def)
  have f: "frag_frame flags i m j = ?f" by (simp add: frag_frame_def)
  have hd: "hdr_msgtype (?f @ pad) = Some eFRAG" "hdr_flags (?f @ pad) = Some flags"
      "hdr_size (?f @ pad) = Some 1033"
    using frame_bytes_header [of ?b eFRAG flags pad] b by simp_all
  have ld: "mem_load (?f @ pad) 6 8 = Some (le_bytes 8 (unat i))" "mem_load (?f @ pad) 14 1 = Some [of_nat j]"
      "mem_load (?f @ pad) 15 MTU = Some (chunk m j)"
    using frame_bytes_header(4) [of ?b eFRAG flags pad 0 8] frame_bytes_header(4) [of ?b eFRAG flags pad 8 1]
      frame_bytes_header(4) [of ?b eFRAG flags pad 9 MTU] b c
    by (simp_all add: frag_body_def mem_load_def)
  have ss: "size_sub (length ?f + k) 6 = 1033 + k"
    using size_after_header [of ?f 1033 k] sz b by (simp add: f length_frame_bytes)
  have j: "of_nat (le_val [of_nat j :: byte]) = (of_nat j :: byte)" by simp
  obtain t' where t': "put_frag (of_nat j) (?f @ pad) 15 t = Some (True, t')"
      "collecting m hash i (insert j R) t'"
    using collecting_put [OF t(2) n ld(3)] by blast
  note ci = collecting_info [OF t(2)] and cc = collecting_completed [OF t'(2)]
  let ?s = "s1\<lparr>s_frame := (s_frame s1)\<lparr>rx := AList.update i t' (rx (s_frame s1))\<rparr>\<rparr>"
  let ?ack = "?s\<lparr>s_frame := (s_frame ?s)\<lparr>sendqueue := sendqueue (s_frame ?s) @
    [ack_frame (txflags (s_frame ?s)) i (get_bitmask t')]\<rparr>\<rparr>"
  have pr: "process E recv (?f @ pad) (length ?f + k) s1 =
      (if insert j R = {..<nfrags m} then inbound_frame_complete E recv i ?ack
       else Some (True, if should_send_ack t' then ?ack else ?s))"
    using hd ld ss t(1) t'(1) ci(1) cc fl
    by (simp add: process_def got_frag_def frame_consts hdr_data_def le_val_8 j push_ackfor_eq MTU_def Let_def
        del: le_val.simps)
  have "receiving m hash i (insert j R) s ?s" "receiving m hash i (insert j R) s ?ack"
    using r t'(2) by (simp_all add: receiving_def only_frame_update only_frame_rx update_conv')
  moreover have "\<exists>as. sendqueue (s_frame ?s) = sendqueue (s_frame s1) @ as \<and> list_all (\<lambda>f. length f = 18) as" by simp
  moreover have "\<exists>as. sendqueue (s_frame ?ack) = sendqueue (s_frame s1) @ as \<and> list_all (\<lambda>f. length f = 18) as"
    by (rule exI [of _ "[ack_frame (txflags (s_frame ?s)) i (get_bitmask t')]"]) (simp add: ack_frame_def length_frame_bytes)
  ultimately show ?thesis
    using pr unfolding f by (cases "should_send_ack t' \<or> insert j R = {..<nfrags m}") auto
qed

lemma complete_delivers:
  assumes "receiving m (msg_hash E m) i {..<nfrags m} s s'" "i \<noteq> 0"
  shows "inbound_frame_complete E recv i s' = do {
    (ok, s') \<leftarrow> recv m s';
    Some (ok, s'\<lparr>s_frame := (s_frame s')\<lparr>rx := AList.delete i (rx (s_frame s'))\<rparr>\<rparr>)
  }"
proof -
  obtain t where t: "map_of (rx (s_frame s')) i = Some t" "collecting m (msg_hash E m) i {..<nfrags m} t"
    using assms(1) by (auto simp: receiving_def)
  have "memcmp (msg_hash E m) (xmit_hash (msginfo t)) = 0"
    using collecting_info(4) [OF t(2)] by (simp add: memcmp_eq_0_iff)
  then show ?thesis
    using t(1) collecting_reassemble [OF t(2)] assms(2)
    by (simp add: inbound_frame_complete_def case_prod_beta')
qed

text \<open>A run of the receiver over plaintext frames; each comes with the padding received after it.\<close>

fun process_all ::
  "iwp_env \<Rightarrow> 'x recv_handler \<Rightarrow> (byte list \<times> byte list) list \<Rightarrow> 'x session_scheme \<Rightarrow> (bool \<times> 'x session_scheme) option" where
  "process_all E recv [] s = Some (True, s)"
| "process_all E recv ((f, pad) # fs) s = do {
     (ok, s) \<leftarrow> process E recv (f @ pad) (length f + length pad) s;
     (oks, s) \<leftarrow> process_all E recv fs s;
     Some (ok \<and> oks, s)
   }"

lemma process_frags:
  assumes "\<forall>j\<in>set js. j < nfrags m" "R \<union> set js \<noteq> {..<nfrags m}" "flags AND eSessionInvalidated = 0"
    "receiving m hash i R s s1" "length pads = length js" "\<forall>pad\<in>set pads. length pad \<le> 1500"
  shows "\<exists>s'. receiving m hash i (R \<union> set js) s s' \<and>
    process_all E recv (zip (map (frag_frame flags i m) js) pads) s1 = Some (True, s')"
  using assms
proof (induction js arbitrary: R s1 pads)
  case (Cons j js)
  obtain pad pads' where pads: "pads = pad # pads'" using Cons.prems(5) by (cases pads) auto
  have j: "j < nfrags m" using Cons.prems by simp
  have sub: "R \<subseteq> {..<nfrags m}" using Cons.prems(4) by (auto simp: receiving_def collecting_def)
  have "insert j R \<noteq> {..<nfrags m}"
  proof
    assume "insert j R = {..<nfrags m}"
    then have "R \<union> set (j # js) = {..<nfrags m}" using Cons.prems(1) sub by auto
    then show False using Cons.prems(2) by simp
  qed
  moreover have "length (frag_frame flags i m j) + length pad < 2 ^ 63"
    using Cons.prems(6) pads length_chunk [OF j]
    by (simp add: frag_frame_def length_frame_bytes frag_body_def MTU_def)
  ultimately obtain s2 where s2: "receiving m hash i (insert j R) s s2"
      "process E recv (frag_frame flags i m j @ pad) (length (frag_frame flags i m j) + length pad) s1 =
        Some (True, s2)"
    using process_frag [OF j Cons.prems(3,4), of "length pad" E recv pad] by auto
  have "insert j R \<union> set js \<noteq> {..<nfrags m}" using Cons.prems(2) by simp
  from Cons.IH [OF _ this Cons.prems(3) s2(1), of pads'] Cons.prems pads
  obtain s3 where "receiving m hash i (insert j R \<union> set js) s s3"
      "process_all E recv (zip (map (frag_frame flags i m) js) pads') s2 = Some (True, s3)"
    by auto
  with s2 show ?case by (simp add: pads)
qed simp

text \<open>
  C5. A message of up to 33 KiB, cut by \<open>transit_message\<close> into an \<open>XMIT\<close> frame and full
  fragments: whatever the order in which the fragments arrive after it, repeated or not, with
  whatever padding, the receiver accepts all frames, waits for the last missing fragment, and
  then calls the router with exactly the bytes that were sent, with only its own bookkeeping
  (fragments and acknowledgements) changed; then it forgets the message.
\<close>

theorem fragments_delivered:
  assumes ok: "sodium_ok (e_sodium E)" and n: "nfrags m \<le> 32" and i: "i \<noteq> 0"
    and fl: "flags AND eSessionInvalidated = 0" and new: "map_of (rx (s_frame s)) i = None"
    and js: "set js = {..<nfrags m} - {j}" "j < nfrags m"
    and pads: "length pads = length js" "\<forall>pad\<in>set (pad0 # pad1 # pads). length pad \<le> 1500"
  shows "\<exists>s1 s2. process_all E recv ((xmit_frame (e_sodium E) flags i m, pad0) #
      zip (map (frag_frame flags i m) js) pads) s = Some (True, s1) \<and> only_frame s s1 \<and>
    only_frame s s2 \<and>
    process_all E recv [(frag_frame flags i m j, pad1)] s1 = do {
      (ok, s') \<leftarrow> recv m s2;
      Some (ok, s'\<lparr>s_frame := (s_frame s')\<lparr>rx := AList.delete i (rx (s_frame s'))\<rparr>\<rparr>)
    }"
proof -
  have "length (xmit_frame (e_sodium E) flags i m) + length pad0 < 2 ^ 63"
    using pads(2) n nfrags_bounds(2) [of m] length_msg_hash [OF ok, of m]
    by (simp add: xmit_frame_def outbound_eq length_frame_bytes length_set_info MTU_def)
  from process_xmit [OF ok n fl new this, of recv pad0] js(2)
  obtain s0 where s0: "receiving m (msg_hash E m) i {} s s0"
      "process E recv (xmit_frame (e_sodium E) flags i m @ pad0)
        (length (xmit_frame (e_sodium E) flags i m) + length pad0) s = Some (True, s0)"
    by auto
  have "\<forall>j\<in>set js. j < nfrags m" "{} \<union> set js \<noteq> {..<nfrags m}" using js by auto
  from process_frags [OF this fl s0(1) pads(1), of E recv] pads(2)
  obtain s1 where s1: "receiving m (msg_hash E m) i (set js) s s1"
      "process_all E recv (zip (map (frag_frame flags i m) js) pads) s0 = Some (True, s1)"
    by auto
  have "length (frag_frame flags i m j) + length pad1 < 2 ^ 63"
    using pads(2) length_chunk [OF js(2)] by (simp add: frag_frame_def length_frame_bytes frag_body_def MTU_def)
  moreover have all: "insert j (set js) = {..<nfrags m}" using js by auto
  ultimately obtain s2 where s2: "receiving m (msg_hash E m) i {..<nfrags m} s s2"
      "process E recv (frag_frame flags i m j @ pad1) (length (frag_frame flags i m j) + length pad1) s1 =
        inbound_frame_complete E recv i s2"
    using process_frag [OF js(2) fl s1(1), of "length pad1" E recv pad1] by auto
  have "process_all E recv [(frag_frame flags i m j, pad1)] s1 = do {
      (ok, s') \<leftarrow> recv m s2;
      Some (ok, s'\<lparr>s_frame := (s_frame s')\<lparr>rx := AList.delete i (rx (s_frame s'))\<rparr>\<rparr>)
    }"
    using s2(2) complete_delivers [OF s2(1) i, of recv]
    by (cases "recv m s2") (auto simp: case_prod_beta')
  moreover have "only_frame s s1" "only_frame s s2" using s1(1) s2(1) by (simp_all add: receiving_def)
  ultimately show ?thesis using s0(2) s1(2) by auto
qed

theorem fragments_delivered_witness:
  "\<exists>s1 s2. process_all example_env (\<lambda>m s. Some (m = replicate 3000 1, s))
      [(xmit_frame (e_sodium example_env) 0 7 (replicate 3000 1), [0]),
       (frag_frame 0 7 (replicate 3000 1) 1, [])] (example_session 2) = Some (True, s1) \<and>
    only_frame (example_session 2) s1 \<and> only_frame (example_session 2) s2 \<and>
    process_all example_env (\<lambda>m s. Some (m = replicate 3000 1, s))
      [(frag_frame 0 7 (replicate 3000 1) 0, [])] s1 =
      Some (True, s2\<lparr>s_frame := (s_frame s2)\<lparr>rx := AList.delete 7 (rx (s_frame s2))\<rparr>\<rparr>)"
proof -
  have E: "sodium_ok (e_sodium example_env)" using example_sodium_ok by (simp add: example_env_def)
  have n: "nfrags (replicate 3000 (1 :: byte)) = 2" by (simp add: nfrags_def MTU_def)
  have js: "set [1] = {..<2} - {0 :: nat}" by auto
  show ?thesis
    using fragments_delivered [OF E, of "replicate 3000 1" 7 0 "example_session 2" "[1]" 0 "[[]]" "[0]" "[]"
        "\<lambda>m s. Some (m = replicate 3000 1, s)"] js
    by (simp add: n example_session_ok frame_state_new_def)
qed

section \<open>Acknowledging\<close>

text \<open>A message of this sender whose acknowledged fragments are the bits of \<open>st\<close>.\<close>

definition sent_message :: "iwp_env \<Rightarrow> byte list \<Rightarrow> u64 \<Rightarrow> u32 \<Rightarrow> transit_message" where
  "sent_message E m i st = (transit_message_outbound m (msg_hash E m) i)\<lparr>status := st\<rparr>"

definition missing :: "byte list \<Rightarrow> u32 \<Rightarrow> nat list" where
  "missing m st = filter (\<lambda>j. \<not> bit st j) [0..<nfrags m]"

lemma sent_message_facts:
  assumes ok: "sodium_ok (e_sodium E)" and n: "nfrags m \<le> 32"
  shows "transit_completed (sent_message E m i st) = Some (missing m st = [])"
    "retransmit_frags q flags (sent_message E m i st) = Some (q @ map (frag_frame flags i m) (missing m st))"
proof -
  let ?x = "set_info (msg_hash E m) i MTU (length m - nfrags m * MTU) (of_nat (nfrags m)) 1"
  have h: "length (msg_hash E m) = 32" by (rule length_msg_hash [OF ok])
  have t: "msginfo (sent_message E m i st) = ?x" "status (sent_message E m i st) = st"
      "frags (sent_message E m i st) = map (\<lambda>j. (of_nat j, chunk m j)) [0..<nfrags m]"
    using n by (simp_all add: sent_message_def outbound_eq)
  have x: "xmit_numfrags ?x = nfrags m" "xmit_fragsize ?x = MTU" "xmit_msgid ?x = i"
    using h n by (simp_all add: set_info_simps byte_unat_of_nat MTU_def)
  show "transit_completed (sent_message E m i st) = Some (missing m st = [])"
    using t x n all_received_eq [of "[0..<nfrags m]" st]
    by (auto simp: transit_completed_def missing_def filter_empty_conv)
  have u: "unat (of_nat j :: byte) = j" if "j < nfrags m" for j
    using that n by (simp add: byte_unat_of_nat)
  have "retransmit_frags q flags (sent_message E m i st) = Some (q @
      map (\<lambda>(no, f). frame_bytes eFRAG flags (frag_body i (unat no) f))
        (filter (\<lambda>(no, f). \<not> bit st (unat no))
          (map (\<lambda>j. (of_nat j :: byte, chunk m j)) [0..<nfrags m])))"
    unfolding retransmit_frags_def t(3)
    by (subst retransmit_loop_eq) (use t x n u length_chunk in auto)
  moreover have "filter (\<lambda>(no, f). \<not> bit st (unat no)) (map (\<lambda>j. (of_nat j :: byte, chunk m j)) [0..<nfrags m]) =
      map (\<lambda>j. (of_nat j, chunk m j)) (missing m st)"
    unfolding filter_map missing_def comp_def prod.case
    by (intro arg_cong [where f = "map _"] filter_cong) (simp_all add: u)
  moreover have "j < nfrags m" if "j \<in> set (missing m st)" for j using that by (simp add: missing_def)
  ultimately show "retransmit_frags q flags (sent_message E m i st) =
      Some (q @ map (frag_frame flags i m) (missing m st))"
    by (simp add: frag_frame_def u)
qed

lemma got_acks_eq:
  assumes ok: "sodium_ok (e_sodium E)" and n: "nfrags m \<le> 32"
    and tx: "map_of (tx fs) i = Some (sent_message E m i st)"
  shows "got_acks (ack_frame flags i bm @ pad) (12 + k) fs =
    Some (True, if missing m (st OR bm) = [] then fs\<lparr>tx := AList.delete i (tx fs)\<rparr>
      else fs\<lparr>tx := AList.update i (sent_message E m i (st OR bm)) (tx fs),
        sendqueue := sendqueue fs @ map (frag_frame (txflags fs) i m) (missing m (st OR bm))\<rparr>)"
proof -
  let ?b = "le_bytes 8 (unat i) @ le_bytes 4 (unat bm)"
  have hd: "hdr_size (ack_frame flags i bm @ pad) = Some 12"
      "mem_load (ack_frame flags i bm @ pad) 6 8 = Some (le_bytes 8 (unat i))"
      "mem_load (ack_frame flags i bm @ pad) 14 4 = Some (le_bytes 4 (unat bm))"
    using frame_bytes_header(3) [of ?b eACKS flags pad] frame_bytes_header(4) [of ?b eACKS flags pad 0 8]
      frame_bytes_header(4) [of ?b eACKS flags pad 8 4]
    by (simp_all add: ack_frame_def mem_load_def)
  have "transit_ack bm (sent_message E m i st) = sent_message E m i (st OR bm)"
    by (simp add: transit_ack_eq sent_message_def)
  then show ?thesis
    using hd tx sent_message_facts [OF ok n, where i = i and st = "st OR bm"]
    by (simp add: got_acks_def hdr_data_def le_val_8 le_val_4 Let_def)
qed

text \<open>
  \<open>got_acks\<close>: an acknowledgement with the bitmask \<open>bm\<close> for a message whose fragments \<open>st\<close> were
  acknowledged before. If none is missing any more the message is forgotten, otherwise
  exactly the fragments still missing are queued again; other messages are not touched.
\<close>

theorem acks_exact:
  assumes ok: "sodium_ok (e_sodium E)" and n: "nfrags m \<le> 32"
    and tx: "map_of (tx fs) i = Some (sent_message E m i st)"
  shows "got_acks (ack_frame flags i bm @ pad) (12 + k) fs =
    Some (True, if missing m (st OR bm) = [] then fs\<lparr>tx := AList.delete i (tx fs)\<rparr>
      else fs\<lparr>tx := AList.update i (sent_message E m i (st OR bm)) (tx fs),
        sendqueue := sendqueue fs @ map (frag_frame (txflags fs) i m) (missing m (st OR bm))\<rparr>)"
  by (rule got_acks_eq [OF assms])

theorem acks_exact_witness:
  "got_acks (ack_frame 0 5 1 @ []) (12 + 0)
      (frame_state_new\<lparr>tx := [(5, sent_message example_env (replicate 3000 1) 5 0)]\<rparr>) =
    Some (True, frame_state_new\<lparr>tx := [(5, sent_message example_env (replicate 3000 1) 5 1)],
      sendqueue := [frag_frame 0 5 (replicate 3000 1) 1]\<rparr>)"
proof -
  have E: "sodium_ok (e_sodium example_env)" using example_sodium_ok by (simp add: example_env_def)
  have n: "nfrags (replicate 3000 (1 :: byte)) = 2" by (simp add: nfrags_def MTU_def)
  have "missing (replicate 3000 1) 1 = [1]" by (simp add: missing_def n upt_rec bit_1_iff)
  then show ?thesis
    using acks_exact [OF E, of "replicate 3000 1" "frame_state_new\<lparr>tx := [(5, sent_message example_env
        (replicate 3000 1) 5 0)]\<rparr>" 5 0 0 1 "[]" 0]
    by (simp add: n frame_state_new_def)
qed

text \<open>
  The periodic \<open>retransmit\<close> never resends an \<open>XMIT\<close> frame: what it adds to the queue are
  fragment frames only. A message of one fragment (at most 1024 bytes) whose only frame was lost
  is not sent again, and stays in the table of unacknowledged messages.
\<close>

theorem lost_xmit_not_resent:
  assumes ok: "sodium_ok (e_sodium E)"
    and tx: "\<forall>(i, t)\<in>set (tx fs). \<exists>m st. t = sent_message E m i st \<and> length m \<le> MTU"
  shows "retransmit fs = Some fs"
proof -
  have "retransmit_all ts flags q = Some q"
    if "\<forall>(i, t)\<in>set ts. \<exists>m st. t = sent_message E m i st \<and> length m \<le> MTU" for ts flags q
    using that
  proof (induction ts)
    case (Cons it ts)
    obtain i t where it: "it = (i, t)" by fastforce
    with Cons.prems obtain m st where t: "t = sent_message E m i st" "nfrags m = 0"
      by (auto simp: nfrags_0)
    then have "missing m st = []" by (simp add: missing_def)
    then have "retransmit_frags q flags t = Some q"
      using sent_message_facts(2) [OF ok, of m q flags i st] t by simp
    with Cons it show ?case by simp
  qed simp
  from this [OF tx] show ?thesis by (simp add: retransmit_def)
qed

theorem lost_xmit_not_resent_witness:
  "retransmit (frame_state_new\<lparr>tx := [(5, sent_message example_env (replicate 900 1) 5 0)]\<rparr>) =
    Some (frame_state_new\<lparr>tx := [(5, sent_message example_env (replicate 900 1) 5 0)]\<rparr>)"
proof (rule lost_xmit_not_resent [of example_env])
  show "sodium_ok (e_sodium example_env)" using example_sodium_ok by (simp add: example_env_def)
  have "length (replicate 900 (1 :: byte)) \<le> MTU" by (simp add: MTU_def)
  then show "\<forall>(i, t)\<in>set (tx (frame_state_new\<lparr>tx := [(5, sent_message example_env (replicate 900 1) 5 0)]\<rparr>)).
      \<exists>m st. t = sent_message example_env m i st \<and> length m \<le> MTU"
    by auto
qed

section \<open>Inputs without defined behaviour\<close>

text \<open>
  An \<open>XMIT\<close> frame that claims fewer than 48 bytes: the size of the last fragment is compared with
  a difference that has wrapped around, so any size passes, and a size beyond the end of the
  received array is copied from there.
\<close>

theorem short_xmit_overread:
  assumes "hdr_size hdr = Some hsz" "hsz < 48" "hsz \<le> sz" "mem_load hdr 6 48 = Some x"
    and "xmit_flags x AND 1 \<noteq> 0" "map_of (rx (s_frame s)) (xmit_msgid x) = None"
    and "length hdr \<le> 1436" "length hdr - 54 < xmit_lastfrag x"
  shows "got_xmit E recv hdr sz s = None"
proof -
  have "le_val bs < 256 ^ length bs" for bs
  proof (induction bs)
    case (Cons b bs)
    have "unat b < 256" using unsigned_less [of b, where 'a = nat] by simp
    with Cons show ?case by simp
  qed simp
  then have "xmit_lastfrag x < 256 ^ length (take 2 (drop 42 x))" unfolding xmit_lastfrag_def .
  also have "\<dots> \<le> 256 ^ 2" by (rule power_increasing) simp_all
  finally have "\<not> size_sub hsz 48 < xmit_lastfrag x" using assms(2) by (simp add: size_sub_wrap)
  moreover have "mem_load hdr 54 (xmit_lastfrag x) = None"
    using assms(4,8) by (auto simp: mem_load_def split: if_splits)
  ultimately show ?thesis
    using assms(1,3-6) by (simp add: got_xmit_def hdr_data_def put_lastfrag_def)
qed

theorem short_xmit_overread_witness:
  "got_xmit example_env (\<lambda>m s. None)
     (frame_bytes eXMIT 0 [] @ set_info (replicate 32 0) 9 0 65535 0 1 @ replicate 1382 0) 100
     (example_session 2) = None"
proof -
  let ?x = "set_info (replicate 32 0) 9 0 65535 0 1"
  let ?hdr = "frame_bytes eXMIT 0 [] @ ?x @ replicate 1382 0"
  have x: "length ?x = 48" "xmit_flags ?x AND 1 \<noteq> 0" "xmit_lastfrag ?x = 65535" "xmit_msgid ?x = 9"
    by (simp_all add: length_set_info set_info_simps)
  have h: "hdr_size ?hdr = Some 0" "mem_load ?hdr 6 48 = Some ?x" "length ?hdr = 1436"
    using frame_bytes_header(3,4) [of "[]" eXMIT 0 "?x @ replicate 1382 0"] mem_load_at [of 0 "[]" 48 ?x]
      frame_bytes_header(4) [of "[]" eXMIT 0 "?x @ replicate 1382 0" 0 48] x
    by (simp_all add: length_frame_bytes)
  show ?thesis
    by (rule short_xmit_overread [OF h(1) _ _ h(2)])
      (simp_all add: x h(3) length_frame_bytes example_session_ok frame_state_new_def)
qed

text \<open>
  A message announced with more than 32 full fragments: the receiver keeps its state in a
  \<open>bitset\<close> of 32, and \<open>set\<close> throws for the fragment number 32 and above. Nothing catches it.
\<close>

theorem fragment_32_throws:
  assumes "hdr_size hdr = Some hsz" "9 < hsz" "hsz \<le> sz"
    and "mem_load hdr 6 8 = Some (le_bytes 8 (unat i))" "mem_load hdr 14 1 = Some [no]" "32 \<le> unat no"
    and "map_of (rx (s_frame s)) i = Some t" "xmit_fragsize (msginfo t) = hsz - 9"
    and "map_of (frags t) no = Some old"
  shows "got_frag E recv hdr sz s = None"
proof -
  have "of_nat (unat no) = no" by simp
  then show ?thesis
    using assms by (simp add: got_frag_def hdr_data_def le_val_8 put_frag_def bitset_set_def Let_def split: option.splits)
qed

theorem fragment_32_throws_witness:
  "got_frag example_env (\<lambda>m s. None)
     (frame_bytes eFRAG 0 (frag_body 9 40 (replicate 1024 0)) @ []) 1033
     ((example_session 2)\<lparr>s_frame := frame_state_new\<lparr>rx := [(9, transit_message_inbound
        (set_info (replicate 32 0) 9 1024 0 60 1))]\<rparr>\<rparr>) = None"
proof -
  let ?b = "frag_body 9 40 (replicate 1024 0)"
  have b: "length ?b = 1033" by (simp add: frag_body_def)
  note fb = frame_bytes_header [of ?b eFRAG 0 "[]"]
  have h: "hdr_size (frame_bytes eFRAG 0 ?b @ []) = Some 1033"
      "mem_load (frame_bytes eFRAG 0 ?b @ []) 6 8 = Some (le_bytes 8 (unat (9 :: u64)))"
      "mem_load (frame_bytes eFRAG 0 ?b @ []) 14 1 = Some [40]"
    using fb(3) fb(4) [of 0 8] fb(4) [of 8 1] b by (simp_all add: frag_body_def mem_load_def)
  let ?t = "transit_message_inbound (set_info (replicate 32 0) 9 1024 0 60 1)"
  have t: "frags ?t = map (\<lambda>i. (of_nat i, replicate 1024 0)) [0..<60]" "xmit_fragsize (msginfo ?t) = 1024"
    by (simp_all add: transit_message_inbound_def set_info_simps del: upt_rec_numeral)
  have "(40, replicate 1024 0) \<in> set (frags ?t)"
    unfolding t by (auto simp: image_iff intro: bexI [of _ 40])
  from weak_map_of_SomeI [OF this] obtain old where "map_of (frags ?t) 40 = Some old" by blast
  then show ?thesis
    by (intro fragment_32_throws [OF h(1) _ _ h(2,3)]) (simp_all add: t(2))
qed

text \<open>
  The first message of a peer carries its contact. A contact whose owner signed it without an
  address list (the key \<open>a\<close> of the dictionary is optional) passes the check of its signature, and
  \<open>CheckRCValid\<close> then follows a null pointer.
\<close>

theorem contact_without_addresses:
  assumes "inet_ok (e_ntop E) pton" "rc_valid uninit rc" "rc_addrs rc = None"
    and "signs sign (sodium_verify (e_sodium E)) seckey (rc_pubkey rc)"
    and "length (rc_bytes (e_ntop E) rc) < MAX_RC_SIZE"
    and "length stack = MAX_RC_SIZE" "length (e_stack E MAX_RC_SIZE) = MAX_RC_SIZE"
  shows "\<exists>rc'. udap_rc_sign (e_ntop E) sign stack seckey rc = Some rc' \<and>
    CheckRCValid E (s\<lparr>s_remote_router := rc'\<rparr>) = None"
  by (rule signed_verifies [OF assms(1,2,4-7)]) (use assms(3) in \<open>simp add: CheckRCValid_def\<close>)

theorem contact_without_addresses_witness:
  "\<exists>rc'. udap_rc_sign hex_ntop (\<lambda>sk m. replicate 64 (sum_list m)) (replicate 1024 0) (example_key 4)
      (example_rc\<lparr>rc_addrs := None\<rparr>) = Some rc' \<and>
    CheckRCValid example_env ((example_session 2)\<lparr>s_remote_router := rc'\<rparr>) = None"
proof -
  have "length (rc_bytes hex_ntop (example_rc\<lparr>rc_addrs := None\<rparr>)) < MAX_RC_SIZE"
    using example_rc_fits by (simp add: rc_bytes_def example_rc_def)
  moreover have "rc_valid uninit_ai (example_rc\<lparr>rc_addrs := None\<rparr>)"
    using example_rc_valid by (simp add: rc_valid_def)
  moreover have "signs (\<lambda>sk m. replicate 64 (sum_list m)) (sodium_verify example_sodium) (example_key 4)
      (rc_pubkey (example_rc\<lparr>rc_addrs := None\<rparr>))"
    by (simp add: signs_def sodium_verify_def example_sodium_def size_defs)
  ultimately show ?thesis
    using contact_without_addresses [of example_env HexDecode uninit_ai "example_rc\<lparr>rc_addrs := None\<rparr>"
        "\<lambda>sk m. replicate 64 (sum_list m)" "example_key 4" "replicate 1024 0" "example_session 2"] inet_ok_hex
    by (simp add: example_env_def MAX_RC_SIZE_def)
qed

end
