(* ===== verification/Routing.thy ===== *)
theory Routing
  imports Link_Messages
begin

text \<open>
  The messages that travel inside a path (\<open>udap/routing/path_latency.cpp\<close>,
  \<open>udap/routing/path_confirm.cpp\<close>) and their parser (\<open>udap/routing/message_parser.cpp\<close>). The handler of
  a message is a method of the end of the path that received it and a parameter here. The
  member \<open>from\<close> of the messages is never set or read and left out.
\<close>

section \<open>Messages\<close>

record PathConfirmMessage =
  pathLifetime :: u64
  pathCreated :: u64

record PathLatencyMessage =
  pl_T :: u64
  pl_L :: u64

datatype routing_message = PathLatency PathLatencyMessage | PathConfirm PathConfirmMessage

definition PathLatencyMessage_new :: PathLatencyMessage where
  "PathLatencyMessage_new = \<lparr>pl_T = 0, pl_L = 0\<rparr>"

definition PathConfirmMessage_new :: PathConfirmMessage where
  "PathConfirmMessage_new = \<lparr>pathLifetime = 0, pathCreated = 0\<rparr>"

definition PathConfirmMessage_of :: "u64 \<Rightarrow> u64 \<Rightarrow> PathConfirmMessage" where
  "PathConfirmMessage_of now lifetime = \<lparr>pathLifetime = lifetime, pathCreated = now\<rparr>"

definition PathConfirmMessage_DecodeKey :: "udap_buffer_t \<Rightarrow> PathConfirmMessage act" where
  "PathConfirmMessage_DecodeKey key = decode_fields
     [field pathLifetime (\<lambda>x. pathLifetime_update (\<lambda>_. x)) (BEncodeMaybeReadDictInt ''L'' key),
      field pathCreated (\<lambda>x. pathCreated_update (\<lambda>_. x)) (BEncodeMaybeReadDictInt ''S'' key)]"

definition PathConfirmMessage_BEncode :: "PathConfirmMessage \<Rightarrow> writer" where
  "PathConfirmMessage_BEncode msg =
     wseq [bencode_start_dict,
       BEncodeWriteDictMsgType ''A'' ''P'',
       BEncodeWriteDictInt ''L'' (pathLifetime msg),
       BEncodeWriteDictInt ''S'' (pathCreated msg),
       bencode_end]"

definition PathLatencyMessage_DecodeKey :: "udap_buffer_t \<Rightarrow> PathLatencyMessage act" where
  "PathLatencyMessage_DecodeKey key = decode_fields
     [field pl_L (\<lambda>x. pl_L_update (\<lambda>_. x)) (BEncodeMaybeReadDictInt ''L'' key),
      field pl_T (\<lambda>x. pl_T_update (\<lambda>_. x)) (BEncodeMaybeReadDictInt ''T'' key)]"

definition PathLatencyMessage_BEncode :: "PathLatencyMessage \<Rightarrow> writer" where
  "PathLatencyMessage_BEncode msg =
     wseq [bencode_start_dict,
       BEncodeWriteDictMsgType ''A'' ''L'',
       (if pl_L msg \<noteq> 0 then BEncodeWriteDictInt ''L'' (pl_L msg) else (\<lambda>b. Some (True, b))),
       (if pl_T msg \<noteq> 0 then BEncodeWriteDictInt ''T'' (pl_T msg) else (\<lambda>b. Some (True, b))),
       bencode_end]"

text \<open>\<open>msg->BEncode(&buf)\<close> and \<open>msg->DecodeKey(*key, r->buffer)\<close>\<close>

definition routing_BEncode :: "routing_message \<Rightarrow> writer" where
  "routing_BEncode msg =
     (case msg of PathLatency m \<Rightarrow> PathLatencyMessage_BEncode m
      | PathConfirm m \<Rightarrow> PathConfirmMessage_BEncode m)"

definition routing_DecodeKey :: "udap_buffer_t \<Rightarrow> routing_message act" where
  "routing_DecodeKey key msg buf =
     (case msg of
        PathLatency m \<Rightarrow> do {
          (ok, m, buf) \<leftarrow> PathLatencyMessage_DecodeKey key m buf; Some (ok, PathLatency m, buf) }
      | PathConfirm m \<Rightarrow> do {
          (ok, m, buf) \<leftarrow> PathConfirmMessage_DecodeKey key m buf; Some (ok, PathConfirm m, buf) })"

section \<open>Parser\<close>

record routing_parser =
  rp_firstKey :: bool
  rp_msg :: "routing_message option"

definition routing_new :: "byte \<Rightarrow> routing_message option" where
  "routing_new c =
     (if c = of_char CHR ''L'' then Some (PathLatency PathLatencyMessage_new)
      else if c = of_char CHR ''P'' then Some (PathConfirm PathConfirmMessage_new)
      else None)"

definition routing_OnKey :: "udap_buffer_t option \<Rightarrow> routing_parser act" where
  "routing_OnKey key self buf =
     (case key of
        None \<Rightarrow> Some (\<not> rp_firstKey self, self, buf)
      | Some key \<Rightarrow>
          if rp_firstKey self then
            if_key key ''A''
              (if_string (\<lambda>strbuf self buf.
                 if b_sz strbuf \<noteq> 1 then Some (False, self, buf)
                 else do {
                   c \<leftarrow> deref strbuf;
                   (let msg = (case routing_new c of None \<Rightarrow> rp_msg self | Some m \<Rightarrow> Some m)
                    in Some (msg \<noteq> None, self\<lparr>rp_firstKey := False, rp_msg := msg\<rparr>, buf))
                 }) self buf)
              (Some (False, self, buf))
          else (case rp_msg self of
              None \<Rightarrow> None
            | Some msg \<Rightarrow> do {
                (ok, msg, buf) \<leftarrow> routing_DecodeKey key msg buf;
                Some (ok, self\<lparr>rp_msg := Some msg\<rparr>, buf)
              }))"

text \<open>
  \<open>handle msg r\<close> is the handler's method for the message. The parser is reset at the start, so it
  has no state to pass on.
\<close>

definition ParseMessageBuffer ::
  "(routing_message \<Rightarrow> 'r \<Rightarrow> (bool \<times> 'r) option) \<Rightarrow> udap_buffer_t \<Rightarrow> 'r \<Rightarrow> (bool \<times> 'r) option" where
  "ParseMessageBuffer handle buf r = do {
     (ok, p, buf) \<leftarrow> bencode_read_dict routing_OnKey \<lparr>rp_firstKey = True, rp_msg = None\<rparr> buf;
     if ok then do { msg \<leftarrow> rp_msg p; handle msg r } else Some (False, r)
   }"

section \<open>Wire format\<close>

definition opt_int :: "char \<Rightarrow> u64 \<Rightarrow> byte list" where
  "opt_int c i = (if i \<noteq> 0 then bstr (lit [c]) @ bint (sint i) else [])"

fun routing_body :: "routing_message \<Rightarrow> char \<times> byte list" where
  "routing_body (PathLatency m) = (CHR ''L'', opt_int CHR ''L'' (pl_L m) @ opt_int CHR ''T'' (pl_T m))"
| "routing_body (PathConfirm m) =
     (CHR ''P'', bstr (lit ''L'') @ bint (sint (pathLifetime m)) @ bstr (lit ''S'') @ bint (sint (pathCreated m)))"

definition routing_bytes :: "routing_message \<Rightarrow> byte list" where
  "routing_bytes msg = msg_bytes CHR ''A'' (fst (routing_body msg)) (snd (routing_body msg))"

text \<open>The one number that the integer reader refuses (\<open>Codec\<close>).\<close>

fun routing_valid :: "routing_message \<Rightarrow> bool" where
  "routing_valid (PathLatency m) \<longleftrightarrow> pl_L m \<noteq> -1 \<and> pl_T m \<noteq> -1"
| "routing_valid (PathConfirm m) \<longleftrightarrow> pathLifetime m \<noteq> -1 \<and> pathCreated m \<noteq> -1"

lemma exact_opt_int:
  "exact (if i \<noteq> 0 then BEncodeWriteDictInt [c] i else (\<lambda>b. Some (True, b))) (opt_int c i)"
  using exact_dict_int exact_Nil by (simp add: opt_int_def)

lemma exact_routing [write_rules]: "exact (routing_BEncode msg) (routing_bytes msg)"
proof (cases msg)
  case (PathLatency m)
  have "exact (PathLatencyMessage_BEncode m) (concat [lit ''d'', bstr (lit ''A'') @ bstr (lit ''L''),
      opt_int CHR ''L'' (pl_L m), opt_int CHR ''T'' (pl_T m), lit ''e''])"
    unfolding PathLatencyMessage_BEncode_def
    by (intro wseq_exact list.rel_intros exact_opt_int write_rules)
  then show ?thesis using PathLatency by (simp add: routing_BEncode_def routing_bytes_def msg_bytes_def)
next
  case (PathConfirm m)
  have "exact (PathConfirmMessage_BEncode m) (concat [lit ''d'', bstr (lit ''A'') @ bstr (lit ''P''),
      bstr (lit ''L'') @ bint (sint (pathLifetime m)), bstr (lit ''S'') @ bint (sint (pathCreated m)), lit ''e''])"
    unfolding PathConfirmMessage_BEncode_def by (intro wseq_exact list.rel_intros write_rules)
  then show ?thesis using PathConfirm by (simp add: routing_BEncode_def routing_bytes_def msg_bytes_def)
qed

lemma length_bint: "length (bint (sint (i :: u64))) \<le> 22"
  using length_fmt_ld [of i] by (simp add: bint_def fmt_ld_def)

lemma length_routing_bytes: "length (routing_bytes msg) < 60"
proof -
  have "length (bstr (lit [c])) = 3" for c by (simp add: bstr_def dec_nat.simps)
  moreover have "length (bint (sint i)) + length (bint (sint j)) < 46" "length (bint (sint i)) < 49"
    for i j :: u64 using length_bint [of i] length_bint [of j] by simp_all
  ultimately show ?thesis
    by (cases msg) (auto simp: routing_bytes_def msg_bytes_def opt_int_def simp del: lit_Cons)
qed

lemma routing_keys:
  "holds k (lit ''L'') \<Longrightarrow> i \<noteq> -1 \<Longrightarrow>
     reads (PathLatencyMessage_DecodeKey k) m (bint (sint i)) (m\<lparr>pl_L := i\<rparr>)"
  "holds k (lit ''T'') \<Longrightarrow> i \<noteq> -1 \<Longrightarrow>
     reads (PathLatencyMessage_DecodeKey k) m (bint (sint i)) (m\<lparr>pl_T := i\<rparr>)"
  "holds k (lit ''L'') \<Longrightarrow> i \<noteq> -1 \<Longrightarrow>
     reads (PathConfirmMessage_DecodeKey k) n (bint (sint i)) (n\<lparr>pathLifetime := i\<rparr>)"
  "holds k (lit ''S'') \<Longrightarrow> i \<noteq> -1 \<Longrightarrow>
     reads (PathConfirmMessage_DecodeKey k) n (bint (sint i)) (n\<lparr>pathCreated := i\<rparr>)"
  using reads_integer [of i]
  by (auto simp: reads_def PathLatencyMessage_DecodeKey_def PathConfirmMessage_DecodeKey_def
      maybe_int_is_entry fields_simps)

lemma opt_int_run:
  assumes "\<forall>k. holds k (lit [c]) \<longrightarrow> i \<noteq> 0 \<longrightarrow> reads (dec k) m (bint (sint i)) m1"
    and "i = 0 \<longrightarrow> m1 = m" "dict_run (keys dec) m1 bs m2"
  shows "dict_run (keys dec) m (opt_int c i @ bs) m2"
  using assms by (cases "i = 0") (auto simp: opt_int_def intro!: dict_cons)

lemma latency_run:
  assumes "pl_L m \<noteq> -1" "pl_T m \<noteq> -1"
  shows "dict_run (keys PathLatencyMessage_DecodeKey) PathLatencyMessage_new
    (opt_int CHR ''L'' (pl_L m) @ opt_int CHR ''T'' (pl_T m)) m"
proof -
  let ?m1 = "PathLatencyMessage_new\<lparr>pl_L := pl_L m\<rparr>"
  have m: "?m1\<lparr>pl_T := pl_T m\<rparr> = m" by (cases m) (simp add: PathLatencyMessage_new_def)
  have "dict_run (keys PathLatencyMessage_DecodeKey) ?m1 (opt_int CHR ''T'' (pl_T m) @ []) m"
    by (rule opt_int_run [where ?m1.0 = m])
      (use assms routing_keys(2) [of _ "pl_T m" ?m1, unfolded m] m in \<open>auto simp: PathLatencyMessage_new_def intro: dict_nil\<close>)
  then have "dict_run (keys PathLatencyMessage_DecodeKey) PathLatencyMessage_new
      (opt_int CHR ''L'' (pl_L m) @ opt_int CHR ''T'' (pl_T m) @ []) m"
    by (rule opt_int_run [where ?m1.0 = ?m1, rotated 2])
      (use assms routing_keys(1) [of _ "pl_L m" PathLatencyMessage_new] in \<open>auto simp: PathLatencyMessage_new_def\<close>)
  then show ?thesis by simp
qed

lemma confirm_run:
  assumes "pathLifetime m \<noteq> -1" "pathCreated m \<noteq> -1"
  shows "dict_run (keys PathConfirmMessage_DecodeKey) PathConfirmMessage_new
    (bstr (lit ''L'') @ bint (sint (pathLifetime m)) @ bstr (lit ''S'') @ bint (sint (pathCreated m))) m"
proof -
  have "dict_run (keys PathConfirmMessage_DecodeKey) PathConfirmMessage_new
    (bstr (lit ''L'') @ bint (sint (pathLifetime m)) @ bstr (lit ''S'') @ bint (sint (pathCreated m)))
    (PathConfirmMessage_new\<lparr>pathLifetime := pathLifetime m, pathCreated := pathCreated m\<rparr>)"
    using assms routing_keys
    by (intro dict_cons dict_run_single allI impI) (auto simp del: lit_Cons lit_Nil)
  moreover have "PathConfirmMessage_new\<lparr>pathLifetime := pathLifetime m, pathCreated := pathCreated m\<rparr> = m"
    by (cases m) (simp add: PathConfirmMessage_new_def)
  ultimately show ?thesis by simp
qed

lemma routing_wrap:
  assumes "\<And>k m b. routing_DecodeKey k (C m) b = do { (ok, m, b) \<leftarrow> dec k m b; Some (ok, C m, b) }"
    and "dict_run (keys dec) m bs m'"
  shows "dict_run routing_OnKey \<lparr>rp_firstKey = False, rp_msg = Some (C m)\<rparr> bs
    \<lparr>rp_firstKey = False, rp_msg = Some (C m')\<rparr>"
  using assms(2) by (rule dict_run_wrap [where wrap = "\<lambda>m. \<lparr>rp_firstKey = False, rp_msg = Some (C m)\<rparr>"])
    (auto simp: reads_def routing_OnKey_def assms(1))

lemma routing_first_key:
  assumes "holds k (lit ''A'')" "routing_new (of_char c) = Some msg"
  shows "reads (routing_OnKey (Some k)) \<lparr>rp_firstKey = True, rp_msg = None\<rparr> (bstr (lit [c]))
    \<lparr>rp_firstKey = False, rp_msg = Some msg\<rparr>"
  using assms
  by (auto simp: reads_def routing_OnKey_def if_key_holds holds_sz holds_deref Let_def
      intro!: reads_if_string [unfolded reads_def, rule_format])

lemma routing_run:
  assumes "routing_valid msg"
  shows "dict_run routing_OnKey \<lparr>rp_firstKey = True, rp_msg = None\<rparr>
    (bstr (lit ''A'') @ bstr (lit [fst (routing_body msg)]) @ snd (routing_body msg))
    \<lparr>rp_firstKey = False, rp_msg = Some msg\<rparr>"
proof -
  obtain m0 where new: "routing_new (of_char (fst (routing_body msg))) = Some m0"
    and run: "dict_run routing_OnKey \<lparr>rp_firstKey = False, rp_msg = Some m0\<rparr> (snd (routing_body msg))
      \<lparr>rp_firstKey = False, rp_msg = Some msg\<rparr>"
    using assms
      routing_wrap [where C = PathLatency, OF _ latency_run] routing_wrap [where C = PathConfirm, OF _ confirm_run]
    by (cases msg) (auto simp: routing_new_def routing_DecodeKey_def)
  show ?thesis
    using run by (rule dict_cons [rotated 2]) (simp_all add: routing_first_key [OF _ new] del: lit_Cons lit_Nil)
qed

text \<open>The buffer of an \<open>Encrypted\<close>: an object of exactly its bytes.\<close>

definition Encrypted_Buffer :: "byte list \<Rightarrow> udap_buffer_t" where
  "Encrypted_Buffer d = \<lparr>b_mem = d, b_base = 0, b_cur = 0, b_sz = length d\<rparr>"

lemma parse_routing:
  assumes "routing_valid msg"
  shows "ParseMessageBuffer handle (Encrypted_Buffer (routing_bytes msg)) r = handle msg r"
proof -
  have "ahead (routing_bytes msg) (Encrypted_Buffer (routing_bytes msg))"
    by (simp add: ahead_def Encrypted_Buffer_def)
  with read_dict_run [OF routing_run [OF assms]] show ?thesis
    by (auto simp: ParseMessageBuffer_def routing_bytes_def msg_bytes_def routing_OnKey_def)
qed

section \<open>Properties\<close>

text \<open>
  C17. A routing message that its sender encodes is recognised by the parser at the other end of
  the path and handed to the handler there, with every member as it was sent.
\<close>

theorem routing_message_delivered:
  assumes "routing_valid msg" "100 \<le> length stack"
  shows "\<exists>b. routing_BEncode msg (StackBuffer stack) = Some (True, b) \<and>
    ParseMessageBuffer handle (Encrypted_Buffer (encoded b)) r = handle msg r"
proof -
  have "length (routing_bytes msg) < length stack" using length_routing_bytes [of msg] assms(2) by simp
  from emits_stack [OF exact_emits [OF exact_routing] this] obtain b where
    "routing_BEncode msg (StackBuffer stack) = Some (True, b)" "encoded b = routing_bytes msg" by blast
  with parse_routing [OF assms(1)] show ?thesis by auto
qed

theorem routing_message_delivered_witness:
  "\<exists>b. routing_BEncode (PathConfirm \<lparr>pathLifetime = 600000, pathCreated = 77\<rparr>)
      (StackBuffer (replicate 100 0)) = Some (True, b) \<and>
    ParseMessageBuffer (\<lambda>m r. Some (True, m # r)) (Encrypted_Buffer (encoded b)) [] =
      Some (True, [PathConfirm \<lparr>pathLifetime = 600000, pathCreated = 77\<rparr>])"
  by (rule routing_message_delivered) simp_all

text \<open>
  The payload of a relay message is a heap object of exactly its size, and the dictionary reader
  looks at the byte behind an unterminated dictionary: a payload that opens to the single byte
  \<open>d\<close> makes the end of the path read outside the object.
\<close>

theorem routing_overread:
  "ParseMessageBuffer handle (Encrypted_Buffer (lit ''d'')) r = None"
  by (simp add: ParseMessageBuffer_def Encrypted_Buffer_def bencode_read_dict_def deref_def advance_def
      udap_buffer_size_left_def read_dict_loop.simps mem_load_def)

end
