(* ===== verification/Dht_Messages.thy ===== *)
theory Dht_Messages
  imports Link_Messages
begin

text \<open>
  The messages of the distributed hash table (\<open>udap/dht.cpp\<close>, \<open>include/udap/dht.hpp\<close>): asking for a
  router, answering, lists of messages, and the link message that carries a list.
  \<open>junk\<close> stands for the contents of an uninitialised key.
\<close>

section \<open>Model\<close>

record FindRouterMessage =
  fr_From :: "byte list"
  fr_K :: "byte list"
  fr_iterative :: bool
  fr_txid :: u64
  fr_version :: u64

record GotRouterMessage =
  gr_From :: "byte list"
  gr_R :: "udap_rc list"
  gr_txid :: u64
  gr_version :: u64

datatype dht_message = FindRouter FindRouterMessage | GotRouter GotRouterMessage

definition FindRouterMessage_new :: "byte list \<Rightarrow> byte list \<Rightarrow> FindRouterMessage" where
  "FindRouterMessage_new junk from =
     \<lparr>fr_From = from, fr_K = junk, fr_iterative = False, fr_txid = 0, fr_version = 0\<rparr>"

definition FindRouterMessage_ask :: "byte list \<Rightarrow> byte list \<Rightarrow> u64 \<Rightarrow> FindRouterMessage" where
  "FindRouterMessage_ask from target i =
     \<lparr>fr_From = from, fr_K = target, fr_iterative = False, fr_txid = i, fr_version = 0\<rparr>"

definition GotRouterMessage_new :: "byte list \<Rightarrow> GotRouterMessage" where
  "GotRouterMessage_new from = \<lparr>gr_From = from, gr_R = [], gr_txid = 0, gr_version = 0\<rparr>"

definition GotRouterMessage_reply :: "byte list \<Rightarrow> u64 \<Rightarrow> udap_rc option \<Rightarrow> GotRouterMessage" where
  "GotRouterMessage_reply from i result =
     \<lparr>gr_From = from,
      gr_R = (case result of None \<Rightarrow> [] | Some r \<Rightarrow> [udap_rc_copy (udap_rc_clear rc_zero) r]),
      gr_txid = i, gr_version = 0\<rparr>"

definition GotRouterMessage_BEncode :: "ntop \<Rightarrow> GotRouterMessage \<Rightarrow> writer" where
  "GotRouterMessage_BEncode ntop m =
     wseq [bencode_start_dict,
       BEncodeWriteDictMsgType ''A'' ''S'',
       BEncodeWriteDictList ''R'' (map (udap_rc_bencode ntop) (gr_R m)),
       BEncodeWriteDictInt ''T'' (gr_txid m),
       BEncodeWriteDictInt ''V'' (gr_version m),
       bencode_end]"

definition GotRouterMessage_DecodeKey ::
  "pton \<Rightarrow> udap_ai \<Rightarrow> udap_buffer_t \<Rightarrow> GotRouterMessage act" where
  "GotRouterMessage_DecodeKey pton uninit key m buf =
     if_key key ''R''
       (into gr_R (\<lambda>l. gr_R_update (\<lambda>_. l)) (BEncodeReadList rc_zero (udap_rc_bdecode pton uninit)) m buf)
      (if_key key ''T'' (into gr_txid (\<lambda>i. gr_txid_update (\<lambda>_. i)) bencode_read_integer m buf)
      (decode_fields [field gr_version (\<lambda>x. gr_version_update (\<lambda>_. x))
         (BEncodeMaybeReadVersion ''V'' UDAP_PROTO_VERSION key)] m buf))"

definition FindRouterMessage_BEncode :: "FindRouterMessage \<Rightarrow> writer" where
  "FindRouterMessage_BEncode m =
     wseq [bencode_start_dict,
       bencode_write_bytestring (lit ''A''),
       bencode_write_bytestring (lit ''R''),
       bencode_write_bytestring (lit ''I''),
       bencode_write_int (if fr_iterative m then 1 else 0),
       bencode_write_bytestring (lit ''K''),
       bencode_write_bytestring (fr_K m),
       bencode_write_bytestring (lit ''T''),
       bencode_write_uint64 (fr_txid m),
       bencode_write_bytestring (lit ''V''),
       bencode_write_uint64 (fr_version m),
       bencode_end]"

definition FindRouterMessage_DecodeKey :: "udap_buffer_t \<Rightarrow> FindRouterMessage act" where
  "FindRouterMessage_DecodeKey key m buf =
     if_key key ''I'' (if_integer (\<lambda>result m buf. Some (True, m\<lparr>fr_iterative := result \<noteq> 0\<rparr>, buf)) m buf)
    (if_key key ''K'' (if_string (\<lambda>strbuf m buf.
        if b_sz strbuf \<noteq> 32 then Some (False, m, buf)
        else do { k \<leftarrow> copy_from strbuf 32; Some (True, m\<lparr>fr_K := k\<rparr>, buf) }) m buf)
    (if_key key ''T'' (into fr_txid (\<lambda>i. fr_txid_update (\<lambda>_. i)) bencode_read_integer m buf)
    (if_key key ''V'' (into fr_version (\<lambda>i. fr_version_update (\<lambda>_. i)) bencode_read_integer m buf)
    (Some (False, m, buf)))))"

definition dht_BEncode :: "ntop \<Rightarrow> dht_message \<Rightarrow> writer" where
  "dht_BEncode ntop msg =
     (case msg of FindRouter m \<Rightarrow> FindRouterMessage_BEncode m | GotRouter m \<Rightarrow> GotRouterMessage_BEncode ntop m)"

definition dht_DecodeKey :: "pton \<Rightarrow> udap_ai \<Rightarrow> udap_buffer_t \<Rightarrow> dht_message act" where
  "dht_DecodeKey pton uninit key msg buf =
     (case msg of
        FindRouter m \<Rightarrow> do {
          (ok, m, buf) \<leftarrow> FindRouterMessage_DecodeKey key m buf; Some (ok, FindRouter m, buf) }
      | GotRouter m \<Rightarrow> do {
          (ok, m, buf) \<leftarrow> GotRouterMessage_DecodeKey pton uninit key m buf; Some (ok, GotRouter m, buf) })"

text \<open>The decoder's state: \<open>None\<close> while \<open>firstKey\<close> holds, then the message.\<close>

definition MessageDecoder_on_key ::
  "pton \<Rightarrow> udap_ai \<Rightarrow> byte list \<Rightarrow> byte list \<Rightarrow> udap_buffer_t option \<Rightarrow> dht_message option act" where
  "MessageDecoder_on_key pton uninit junk From key msg buf =
     (case key of
        None \<Rightarrow> Some (msg \<noteq> None, msg, buf)
      | Some key \<Rightarrow>
          (case msg of
             None \<Rightarrow>
               if_key key ''A''
                 (if_string (\<lambda>strbuf msg buf.
                    if b_sz strbuf \<noteq> 1 then Some (False, msg, buf)
                    else do {
                      c \<leftarrow> deref strbuf;
                      if c = 82 then Some (True, Some (FindRouter (FindRouterMessage_new junk From)), buf)
                      else if c = 83 then Some (True, Some (GotRouter (GotRouterMessage_new From)), buf)
                      else Some (False, msg, buf)
                    }) msg buf)
                 (Some (False, msg, buf))
           | Some m \<Rightarrow> do {
               (ok, m, buf) \<leftarrow> dht_DecodeKey pton uninit key m buf;
               Some (ok, Some m, buf)
             }))"

definition DecodeMesssage ::
  "pton \<Rightarrow> udap_ai \<Rightarrow> byte list \<Rightarrow> byte list \<Rightarrow> udap_buffer_t \<Rightarrow>
     (dht_message option \<times> udap_buffer_t) option" where
  "DecodeMesssage pton uninit junk from buf = do {
     (ok, msg, buf) \<leftarrow> bencode_read_dict (MessageDecoder_on_key pton uninit junk from) None buf;
     Some (if ok then msg else None, buf)
   }"

definition ListDecoder_on_item ::
  "pton \<Rightarrow> udap_ai \<Rightarrow> byte list \<Rightarrow> byte list \<Rightarrow> bool \<Rightarrow> dht_message list act" where
  "ListDecoder_on_item pton uninit junk From has l buf =
     (if \<not> has then Some (True, l, buf)
      else do {
        (msg, buf) \<leftarrow> DecodeMesssage pton uninit junk From buf;
        (case msg of Some m \<Rightarrow> Some (True, l @ [m], buf) | None \<Rightarrow> Some (False, l, buf))
      })"

definition DecodeMesssageList ::
  "pton \<Rightarrow> udap_ai \<Rightarrow> byte list \<Rightarrow> byte list \<Rightarrow> dht_message list act" where
  "DecodeMesssageList pton uninit junk from = bencode_read_list (ListDecoder_on_item pton uninit junk from)"

record DHTImmeidateMessage =
  im_remote :: "byte list"
  im_version :: u64
  im_msgs :: "dht_message list"

definition DHTImmeidateMessage_DecodeKey ::
  "pton \<Rightarrow> udap_ai \<Rightarrow> byte list \<Rightarrow> udap_buffer_t \<Rightarrow> DHTImmeidateMessage act" where
  "DHTImmeidateMessage_DecodeKey pton uninit junk key m buf =
     if_key key ''m''
       (do {
          (ok, l, buf) \<leftarrow> DecodeMesssageList pton uninit junk (im_remote m) (im_msgs m) buf;
          Some (ok, m\<lparr>im_msgs := l\<rparr>, buf)
        })
      (if_key key ''v''
         (read_version im_version (\<lambda>v. im_version_update (\<lambda>_. v)) m buf)
         (Some (False, m, buf)))"

definition DHTImmeidateMessage_BEncode :: "ntop \<Rightarrow> DHTImmeidateMessage \<Rightarrow> writer" where
  "DHTImmeidateMessage_BEncode ntop m =
     wseq [bencode_start_dict,
       bencode_write_bytestring (lit ''a''),
       bencode_write_bytestring (lit ''m''),
       bencode_write_bytestring (lit ''m''),
       bencode_start_list,
       wseq (map (dht_BEncode ntop) (im_msgs m)),
       bencode_end,
       bencode_write_version_entry,
       bencode_end]"

section \<open>Wire format\<close>

definition bbool :: "bool \<Rightarrow> byte list" where
  "bbool x = bint (of_bool x)"

definition fr_entries :: "FindRouterMessage \<Rightarrow> byte list" where
  "fr_entries m = bstr (lit ''I'') @ bbool (fr_iterative m) @
     bstr (lit ''K'') @ bstr (fr_K m) @ bstr (lit ''T'') @ bint (sint (fr_txid m)) @
     bstr (lit ''V'') @ bint (sint (fr_version m))"

definition gr_entries :: "ntop \<Rightarrow> GotRouterMessage \<Rightarrow> byte list" where
  "gr_entries ntop m = bstr (lit ''R'') @ (108 # concat (map (rc_bytes ntop) (gr_R m)) @ [101]) @
     bstr (lit ''T'') @ bint (sint (gr_txid m)) @ bstr (lit ''V'') @ bint 0"

definition dht_bytes :: "ntop \<Rightarrow> dht_message \<Rightarrow> byte list" where
  "dht_bytes ntop msg =
     (case msg of
        FindRouter m \<Rightarrow> msg_bytes CHR ''A'' CHR ''R'' (fr_entries m)
      | GotRouter m \<Rightarrow> msg_bytes CHR ''A'' CHR ''S'' (gr_entries ntop m))"

text \<open>The sender is not transmitted: the receiver takes it from the link.\<close>

definition dht_valid :: "udap_ai \<Rightarrow> byte list \<Rightarrow> dht_message \<Rightarrow> bool" where
  "dht_valid uninit from msg =
     (case msg of
        FindRouter m \<Rightarrow> fr_From m = from \<and> length (fr_K m) = 32 \<and> fr_txid m \<noteq> -1 \<and> fr_version m \<noteq> -1
      | GotRouter m \<Rightarrow> gr_From m = from \<and> list_all (rc_valid uninit) (gr_R m) \<and> gr_txid m \<noteq> -1 \<and>
          gr_version m = 0)"

definition im_entries :: "ntop \<Rightarrow> DHTImmeidateMessage \<Rightarrow> byte list" where
  "im_entries ntop m = bstr (lit ''m'') @ (108 # concat (map (dht_bytes ntop) (im_msgs m)) @ [101]) @
     bstr (lit ''v'') @ bint 0"

section \<open>Encoders\<close>

lemma emits_dht [write_rules]:
  assumes "inet_ok ntop pton" "dht_valid uninit from msg"
  shows "emits (dht_BEncode ntop msg) (dht_bytes ntop msg)"
proof (cases msg)
  case (FindRouter m)
  have i: "sint (if fr_iterative m then 1 else 0 :: u32) = of_bool (fr_iterative m)" by simp
  have "exact (FindRouterMessage_BEncode m) (concat [lit ''d'', bstr (lit ''A''), bstr (lit ''R''),
      bstr (lit ''I''), bint (sint (if fr_iterative m then 1 else 0 :: u32)), bstr (lit ''K''), bstr (fr_K m),
      bstr (lit ''T''), bint (sint (fr_txid m)), bstr (lit ''V''), bint (sint (fr_version m)), lit ''e''])"
    unfolding FindRouterMessage_BEncode_def
    by (intro wseq_exact list.rel_intros write_rules)
      (use assms FindRouter in \<open>auto simp: dht_valid_def\<close>)
  then show ?thesis
    using FindRouter unfolding i
    by (simp add: dht_BEncode_def dht_bytes_def msg_bytes_def fr_entries_def bbool_def exact_emits)
next
  case (GotRouter m)
  then have v: "gr_version m = 0" "list_all (rc_valid uninit) (gr_R m)"
    using assms by (auto simp: dht_valid_def)
  have "emits (GotRouterMessage_BEncode ntop m) (concat [lit ''d'', bstr (lit ''A'') @ bstr (lit ''S''),
      bstr (lit ''R'') @ 108 # concat (map (rc_bytes ntop) (gr_R m)) @ [101],
      bstr (lit ''T'') @ bint (sint (gr_txid m)), bstr (lit ''V'') @ bint (sint (gr_version m)), lit ''e''])"
    unfolding GotRouterMessage_BEncode_def
    by (intro wseq_emits list.rel_intros emits_dict_list emits_rc [OF assms(1)] exact_emits write_rules)
      (use v in \<open>auto simp: list_all_iff\<close>)
  then show ?thesis
    using GotRouter v by (simp add: dht_BEncode_def dht_bytes_def msg_bytes_def gr_entries_def)
qed

lemma emits_im [write_rules]:
  assumes "inet_ok ntop pton" "list_all (dht_valid uninit from) (im_msgs m)"
  shows "emits (DHTImmeidateMessage_BEncode ntop m) (msg_bytes CHR ''a'' CHR ''m'' (im_entries ntop m))"
proof -
  have items: "emits (wseq (map (dht_BEncode ntop) (im_msgs m))) (concat (map (dht_bytes ntop) (im_msgs m)))"
    using assms by (intro wseq_emits)
      (auto simp: list_all2_map1 list_all2_map2 list_all2_same list_all_iff intro: emits_dht)
  have "emits (DHTImmeidateMessage_BEncode ntop m) (concat [lit ''d'', bstr (lit ''a''), bstr (lit ''m''),
      bstr (lit ''m''), lit ''l'', concat (map (dht_bytes ntop) (im_msgs m)), lit ''e'',
      bstr (lit ''v'') @ bint 0, lit ''e''])"
    unfolding DHTImmeidateMessage_BEncode_def
    by (rule wseq_emits) (intro list.rel_intros items; intro exact_emits write_rules; simp)
  then show ?thesis by (simp add: msg_bytes_def im_entries_def)
qed

section \<open>Decoders on well-formed input\<close>

lemma reads_if_integer_bit:
  assumes "\<And>b. body (of_bool x) s b = Some (True, s', b)"
  shows "reads (if_integer body) s (bbool x) s'"
  using reads_if_integer [of "of_bool x" body s s'] assms by (cases x) (auto simp: bbool_def)

lemma fr_keys:
  "holds k (lit ''I'') \<Longrightarrow>
     reads (FindRouterMessage_DecodeKey k) m (bbool x) (m\<lparr>fr_iterative := x\<rparr>)"
  "holds k (lit ''K'') \<Longrightarrow> length v = 32 \<Longrightarrow>
     reads (FindRouterMessage_DecodeKey k) m (bstr v) (m\<lparr>fr_K := v\<rparr>)"
  "holds k (lit ''T'') \<Longrightarrow> i \<noteq> -1 \<Longrightarrow>
     reads (FindRouterMessage_DecodeKey k) m (bint (sint i)) (m\<lparr>fr_txid := i\<rparr>)"
  "holds k (lit ''V'') \<Longrightarrow> i \<noteq> -1 \<Longrightarrow>
     reads (FindRouterMessage_DecodeKey k) m (bint (sint i)) (m\<lparr>fr_version := i\<rparr>)"
  by (auto simp: FindRouterMessage_DecodeKey_def [abs_def] if_key_holds holds_sz copy_from_holds
      intro!: reads_if_integer_bit reads_if_string reads_into reads_integer split: if_splits)

lemma fr_run:
  assumes "length (fr_K m) = 32" "fr_txid m \<noteq> -1" "fr_version m \<noteq> -1"
  shows "dict_run (keys FindRouterMessage_DecodeKey) s (fr_entries m)
    (s\<lparr>fr_iterative := fr_iterative m, fr_K := fr_K m, fr_txid := fr_txid m, fr_version := fr_version m\<rparr>)"
  unfolding fr_entries_def
  using assms fr_keys by (intro dict_cons dict_run_single allI impI) (auto simp del: lit_Cons lit_Nil)

lemma gr_keys:
  "inet_ok ntop pton \<Longrightarrow> holds k (lit ''R'') \<Longrightarrow> list_all (rc_valid uninit) l \<Longrightarrow>
     reads (GotRouterMessage_DecodeKey pton uninit k) m (108 # concat (map (rc_bytes ntop) l) @ [101])
       (m\<lparr>gr_R := gr_R m @ l\<rparr>)"
  "holds k (lit ''T'') \<Longrightarrow> i \<noteq> -1 \<Longrightarrow>
     reads (GotRouterMessage_DecodeKey pton uninit k) m (bint (sint i)) (m\<lparr>gr_txid := i\<rparr>)"
  "holds k (lit ''V'') \<Longrightarrow>
     reads (GotRouterMessage_DecodeKey pton uninit k) m (bint 0) (m\<lparr>gr_version := 0\<rparr>)"
proof -
  assume io: "inet_ok ntop pton" and k: "holds k (lit ''R'')" and l: "list_all (rc_valid uninit) l"
  have "reads (BEncodeReadList rc_zero (udap_rc_bdecode pton uninit)) (gr_R m)
      (108 # concat (map (rc_bytes ntop) l) @ [101]) (gr_R m @ l)"
    using l by (intro reads_items)
      (auto simp: list_all_iff rc_bytes_def intro!: reads_rc [OF io _ fresh_zero, unfolded rc_bytes_def, simplified])
  then show "reads (GotRouterMessage_DecodeKey pton uninit k) m (108 # concat (map (rc_bytes ntop) l) @ [101])
       (m\<lparr>gr_R := gr_R m @ l\<rparr>)"
    using k by (auto simp: GotRouterMessage_DecodeKey_def [abs_def] if_key_holds intro!: reads_into)
next
  assume "holds k (lit ''T'')" "i \<noteq> -1"
  then show "reads (GotRouterMessage_DecodeKey pton uninit k) m (bint (sint i)) (m\<lparr>gr_txid := i\<rparr>)"
    by (auto simp: GotRouterMessage_DecodeKey_def [abs_def] if_key_holds intro!: reads_into reads_integer)
next
  assume "holds k (lit ''V'')"
  then show "reads (GotRouterMessage_DecodeKey pton uninit k) m (bint 0) (m\<lparr>gr_version := 0\<rparr>)"
    using reads_zero by (auto simp: reads_def GotRouterMessage_DecodeKey_def if_key_holds fields_simps
        UDAP_PROTO_VERSION_def)
qed

lemma gr_run:
  assumes "inet_ok ntop pton" "list_all (rc_valid uninit) (gr_R m)" "gr_txid m \<noteq> -1"
  shows "dict_run (keys (GotRouterMessage_DecodeKey pton uninit)) s (gr_entries ntop m)
    (s\<lparr>gr_R := gr_R s @ gr_R m, gr_txid := gr_txid m, gr_version := 0\<rparr>)"
  unfolding gr_entries_def
  using assms gr_keys by (intro dict_cons dict_run_single allI impI) (auto simp del: lit_Cons lit_Nil)

lemma decoder_first_key:
  assumes "holds k (lit ''A'')"
  shows "reads (MessageDecoder_on_key pton uninit junk from (Some k)) None (bstr (lit ''R''))
      (Some (FindRouter (FindRouterMessage_new junk from)))"
    and "reads (MessageDecoder_on_key pton uninit junk from (Some k)) None (bstr (lit ''S''))
      (Some (GotRouter (GotRouterMessage_new from)))"
  using assms
  by (auto simp: reads_def MessageDecoder_on_key_def if_key_holds holds_sz holds_deref
      intro!: reads_if_string [unfolded reads_def, rule_format])

lemma decoder_wrap:
  "reads (FindRouterMessage_DecodeKey k) m v m' \<Longrightarrow>
     reads (MessageDecoder_on_key pton uninit junk from (Some k)) (Some (FindRouter m)) v (Some (FindRouter m'))"
  "reads (GotRouterMessage_DecodeKey pton uninit k) n v n' \<Longrightarrow>
     reads (MessageDecoder_on_key pton uninit junk from (Some k)) (Some (GotRouter n)) v (Some (GotRouter n'))"
  by (auto simp: reads_def MessageDecoder_on_key_def dht_DecodeKey_def)

lemma decoder_run:
  assumes io: "inet_ok ntop pton" and v: "dht_valid uninit from msg"
  shows "reads (bencode_read_dict (MessageDecoder_on_key pton uninit junk from)) None
    (dht_bytes ntop msg) (Some msg)"
proof (cases msg)
  case (FindRouter m)
  let ?new = "FindRouterMessage_new junk from"
  have "dict_run (MessageDecoder_on_key pton uninit junk from) (Some (FindRouter ?new)) (fr_entries m)
      (Some (FindRouter (?new\<lparr>fr_iterative := fr_iterative m, fr_K := fr_K m, fr_txid := fr_txid m,
         fr_version := fr_version m\<rparr>)))"
    using v FindRouter
    by (intro dict_run_wrap [where wrap = "\<lambda>m. Some (FindRouter m)", OF fr_run])
      (auto simp: dht_valid_def intro: decoder_wrap)
  moreover have "?new\<lparr>fr_iterative := fr_iterative m, fr_K := fr_K m, fr_txid := fr_txid m,
      fr_version := fr_version m\<rparr> = m"
    using v FindRouter by (cases m) (simp add: FindRouterMessage_new_def dht_valid_def)
  ultimately have "dict_run (MessageDecoder_on_key pton uninit junk from) None
      (bstr (lit ''A'') @ bstr (lit ''R'') @ fr_entries m) (Some msg)"
    using FindRouter decoder_first_key(1) by (intro dict_cons allI impI) auto
  then show ?thesis
    using FindRouter by (intro reads_dict_eq) (auto simp: MessageDecoder_on_key_def dht_bytes_def msg_bytes_def)
next
  case (GotRouter m)
  let ?new = "GotRouterMessage_new from"
  have "dict_run (MessageDecoder_on_key pton uninit junk from) (Some (GotRouter ?new)) (gr_entries ntop m)
      (Some (GotRouter (?new\<lparr>gr_R := gr_R ?new @ gr_R m, gr_txid := gr_txid m, gr_version := 0\<rparr>)))"
    using v GotRouter
    by (intro dict_run_wrap [where wrap = "\<lambda>m. Some (GotRouter m)", OF gr_run [OF io]])
      (auto simp: dht_valid_def intro: decoder_wrap)
  moreover have "?new\<lparr>gr_R := gr_R ?new @ gr_R m, gr_txid := gr_txid m, gr_version := 0\<rparr> = m"
    using v GotRouter by (cases m) (simp add: GotRouterMessage_new_def dht_valid_def)
  ultimately have "dict_run (MessageDecoder_on_key pton uninit junk from) None
      (bstr (lit ''A'') @ bstr (lit ''S'') @ gr_entries ntop m) (Some msg)"
    using GotRouter decoder_first_key(2) by (intro dict_cons allI impI) auto
  then show ?thesis
    using GotRouter by (intro reads_dict_eq) (auto simp: MessageDecoder_on_key_def dht_bytes_def msg_bytes_def)
qed

lemma reads_dht_list:
  assumes io: "inet_ok ntop pton" and v: "list_all (dht_valid uninit from) l"
  shows "reads (DecodeMesssageList pton uninit junk from) acc
    (108 # concat (map (dht_bytes ntop) l) @ [101]) (acc @ l)"
proof -
  have "list_run (ListDecoder_on_item pton uninit junk from) acc (concat (map (dht_bytes ntop) l)) (acc @ l)"
  proof (rule list_run_items)
    fix m acc assume "m \<in> set l"
    with v have "dht_valid uninit from m" by (simp add: list_all_iff)
    then show "reads (ListDecoder_on_item pton uninit junk from True) acc (dht_bytes ntop m) (acc @ [m])"
      using decoder_run [OF io, of uninit "from" m junk]
      by (auto simp: reads_def ListDecoder_on_item_def DecodeMesssage_def)
  qed (auto simp: dht_bytes_def msg_bytes_def split: dht_message.split)
  then show ?thesis
    unfolding DecodeMesssageList_def by (rule reads_list) (simp add: ListDecoder_on_item_def)
qed

lemma im_keys:
  "inet_ok ntop pton \<Longrightarrow> holds k (lit ''m'') \<Longrightarrow> list_all (dht_valid uninit (im_remote m)) l \<Longrightarrow>
     reads (DHTImmeidateMessage_DecodeKey pton uninit junk k) m
       (108 # concat (map (dht_bytes ntop) l) @ [101]) (m\<lparr>im_msgs := im_msgs m @ l\<rparr>)"
  "holds k (lit ''v'') \<Longrightarrow>
     reads (DHTImmeidateMessage_DecodeKey pton uninit junk k) m (bint 0) (m\<lparr>im_version := 0\<rparr>)"
proof -
  show "reads (DHTImmeidateMessage_DecodeKey pton uninit junk k) m
       (108 # concat (map (dht_bytes ntop) l) @ [101]) (m\<lparr>im_msgs := im_msgs m @ l\<rparr>)"
    if "inet_ok ntop pton" "holds k (lit ''m'')" "list_all (dht_valid uninit (im_remote m)) l"
    using that reads_dht_list [of ntop pton uninit "im_remote m" l junk "im_msgs m"]
    by (auto simp: reads_def DHTImmeidateMessage_DecodeKey_def if_key_holds)
  show "reads (DHTImmeidateMessage_DecodeKey pton uninit junk k) m (bint 0) (m\<lparr>im_version := 0\<rparr>)"
    if "holds k (lit ''v'')"
    using that by (auto simp: DHTImmeidateMessage_DecodeKey_def [abs_def] if_key_holds
        intro!: reads_read_version)
qed

lemma im_run:
  assumes "inet_ok ntop pton" "list_all (dht_valid uninit (im_remote m)) (im_msgs msg)"
  shows "dict_run (keys (DHTImmeidateMessage_DecodeKey pton uninit junk)) m (im_entries ntop msg)
    (m\<lparr>im_msgs := im_msgs m @ im_msgs msg, im_version := 0\<rparr>)"
  unfolding im_entries_def
  using assms im_keys by (intro dict_cons dict_run_single allI impI) (auto simp del: lit_Cons lit_Nil)

section \<open>Decoders on arbitrary input\<close>

lemma rsafe_fr: "buf_wf k \<Longrightarrow> rsafe j (FindRouterMessage_DecodeKey k)"
  unfolding FindRouterMessage_DecodeKey_def [abs_def]
  by (intro safe_rules rsafe_mono [OF rsafe_read_integer le0]) (auto dest: rsafe_string_bodies)

lemma rsafe_rc_list: "rsafe 5 (BEncodeReadList rc_zero (udap_rc_bdecode pton uninit))"
  using rsafe_items [OF rsafe_rc, of rc_zero pton uninit] by (simp add: overread_def)

lemma rsafe_gr: "buf_wf k \<Longrightarrow> rsafe 5 (GotRouterMessage_DecodeKey pton uninit k)"
  unfolding GotRouterMessage_DecodeKey_def [abs_def]
  by (intro safe_rules rsafe_rc_list rsafe_mono [OF rsafe_read_integer le0]
      rsafe_mono [OF rsafe_decode_fields le0]) (auto intro: safe_rules)

lemma rsafe_dht: 
  assumes "buf_wf k" shows "rsafe 5 (dht_DecodeKey pton uninit k)"
proof (rule rsafeI)
  fix s b assume sl: "slack b"
  show "\<exists>ok s' b'. dht_DecodeKey pton uninit k s b = Some (ok, s', b') \<and> (ok \<longrightarrow> moved 5 b b')"
  proof (cases s)
    case (FindRouter m)
    obtain ok m' b' where "FindRouterMessage_DecodeKey k m b = Some (ok, m', b')" "ok \<longrightarrow> moved 5 b b'"
      using rsafe_fr [OF assms] sl by (rule rsafeE)
    with FindRouter show ?thesis by (auto simp: dht_DecodeKey_def)
  next
    case (GotRouter m)
    obtain ok m' b' where "GotRouterMessage_DecodeKey pton uninit k m b = Some (ok, m', b')"
      "ok \<longrightarrow> moved 5 b b'"
      using rsafe_gr [OF assms] sl by (rule rsafeE)
    with GotRouter show ?thesis by (auto simp: dht_DecodeKey_def)
  qed
qed

text \<open>A decoder that first reads the type of the message, then decodes it.\<close>

lemma rsafe_cases:
  assumes "rsafe j A" "\<And>m. rsafe j (B m)"
  shows "rsafe j (\<lambda>s b. case f s of None \<Rightarrow> A s b | Some m \<Rightarrow> B m s b)"
  using assms by (auto simp: rsafe_def split: option.split)

lemma deref_one: "buf_wf k \<Longrightarrow> b_cur k = b_base k \<Longrightarrow> b_sz k = 1 \<Longrightarrow> \<exists>c. deref k = Some c"
  by (auto simp: buf_wf_def deref_def)

interpretation dht_decoder: dict_callback "MessageDecoder_on_key pton uninit junk from" 5
  for pton uninit junk "from"
proof
  fix k :: udap_buffer_t assume k: "buf_wf k" "b_cur k = b_base k"
  have "rsafe 5 (into (\<lambda>s. m) (\<lambda>m s. Some m) (dht_DecodeKey pton uninit k))" for m
    by (intro rsafe_into rsafe_dht k)
  then have B: "rsafe 5 (\<lambda>s b. do { (ok, m, b) \<leftarrow> dht_DecodeKey pton uninit k m b; Some (ok, Some m, b) })" for m
    by (simp add: into_def [abs_def])
  show "rsafe 5 (MessageDecoder_on_key pton uninit junk from (Some k))"
    unfolding MessageDecoder_on_key_def [abs_def] option.case
    by (rule rsafe_cases, intro safe_rules k)
      (auto intro: B dest: deref_one split: if_splits)
qed (auto simp: MessageDecoder_on_key_def overread_def)

interpretation dht_list: list_callback "ListDecoder_on_item pton uninit junk from" 6
  for pton uninit junk "from"
proof
  show "rsafe 6 (ListDecoder_on_item pton uninit junk from True)"
  proof (rule rsafeI)
    fix s :: "dht_message list" and b assume "slack b"
    then obtain ok m b' where "bencode_read_dict (MessageDecoder_on_key pton uninit junk from) None b =
        Some (ok, m, b')" "ok \<longrightarrow> moved (5 + 1) b b'"
      by (rule rsafeE [OF dht_decoder.read_dict_safe])
    then show "\<exists>ok s' b'. ListDecoder_on_item pton uninit junk from True s b = Some (ok, s', b') \<and>
        (ok \<longrightarrow> moved 6 b b')"
      by (cases ok; cases m) (auto simp: ListDecoder_on_item_def DecodeMesssage_def)
  qed
qed (auto simp: ListDecoder_on_item_def overread_def)

lemma rsafe_dht_list: "rsafe 7 (DecodeMesssageList pton uninit junk from)"
  unfolding DecodeMesssageList_def using dht_list.read_list_safe by simp

lemma rsafe_im:
  assumes k: "buf_wf k" shows "rsafe 7 (DHTImmeidateMessage_DecodeKey pton uninit junk k)"
proof (rule rsafeI)
  fix m :: DHTImmeidateMessage and b assume sl: "slack b"
  obtain e1 e2 where e: "udap_buffer_eq k (lit ''m'') = Some e1" "udap_buffer_eq k (lit ''v'') = Some e2"
    using buffer_eq_wf [OF k] by blast
  obtain ok l b1 where 1: "DecodeMesssageList pton uninit junk (im_remote m) (im_msgs m) b = Some (ok, l, b1)"
    "ok \<longrightarrow> moved 7 b b1" using rsafe_dht_list sl by (rule rsafeE)
  obtain ok2 m2 b2 where 2: "read_version im_version (\<lambda>v. im_version_update (\<lambda>_. v)) m b = Some (ok2, m2, b2)"
    "ok2 \<longrightarrow> moved 7 b b2" using rsafe_read_version sl by (rule rsafeE)
  show "\<exists>ok s' b'. DHTImmeidateMessage_DecodeKey pton uninit junk k m b = Some (ok, s', b') \<and>
      (ok \<longrightarrow> moved 7 b b')"
    using e 1 2 by (cases e1; cases e2)
      (auto simp: DHTImmeidateMessage_DecodeKey_def if_key_def simp del: lit_Cons lit_Nil)
qed

end
