(* ===== verification/Link_Parser.thy ===== *)
theory Link_Parser
  imports Dht_Messages
begin

text \<open>
  \<open>udap/link_message.cpp\<close>: the parser that turns the bytes of a link-layer message into one of the
  message types and hands it to its handler. The handlers change the router; they are the
  parameter \<open>handle\<close> here.
\<close>

section \<open>Model\<close>

datatype link_message =
    LinkIntro LinkIntroMessage
  | RelayDownstream RelayMessage
  | RelayUpstream RelayMessage
  | DHTImmeidate DHTImmeidateMessage
  | LR_Ack LR_AckMessage
  | LR_Commit LR_CommitMessage
  | Discard DiscardMessage

text \<open>The contents of members that the constructors do not initialise.\<close>

record uninit =
  u_ai :: udap_ai
  u_bytes :: "nat \<Rightarrow> byte list"
  u_u64 :: u64

text \<open>
  The parser of a router, with the contact of the session a message comes from. An introduction
  points at that contact and decodes into it.
\<close>

record 'r InboundMessageParser =
  p_firstkey :: bool
  p_router :: 'r
  p_from :: udap_rc
  p_msg :: "link_message option"

definition GetCurrentFrom :: "'r InboundMessageParser \<Rightarrow> byte list" where
  "GetCurrentFrom h = rc_pubkey (p_from h)"

definition new_relay :: "uninit \<Rightarrow> byte list \<Rightarrow> RelayMessage" where
  "new_relay u from = \<lparr>rm_remote = from, rm_version = 0, rm_pathid = u_bytes u PATHIDSIZE, rm_X = [],
     rm_Y = u_bytes u TUNNONCESIZE\<rparr>"

definition new_message :: "uninit \<Rightarrow> 'r InboundMessageParser \<Rightarrow> byte \<Rightarrow> link_message option" where
  "new_message u h c =
     (if c = of_char CHR ''i'' then
        Some (LinkIntro \<lparr>lim_remote = replicate 32 0, lim_version = 0, lim_RC = Some (p_from h)\<rparr>)
      else if c = of_char CHR ''d'' then Some (RelayDownstream (new_relay u (GetCurrentFrom h)))
      else if c = of_char CHR ''u'' then Some (RelayUpstream (new_relay u (GetCurrentFrom h)))
      else if c = of_char CHR ''m'' then
        Some (DHTImmeidate \<lparr>im_remote = GetCurrentFrom h, im_version = 0, im_msgs = []\<rparr>)
      else if c = of_char CHR ''a'' then
        Some (LR_Ack \<lparr>lram_remote = GetCurrentFrom h, lram_version = 0, lram_replies = []\<rparr>)
      else if c = of_char CHR ''c'' then
        Some (LR_Commit \<lparr>lrcm_remote = GetCurrentFrom h, lrcm_version = u_u64 u, lrcm_frames = []\<rparr>)
      else if c = of_char CHR ''z'' then
        Some (Discard \<lparr>dm_remote = GetCurrentFrom h, dm_version = 0, dm_pad = []\<rparr>)
      else None)"

text \<open>\<open>msg->DecodeKey(*key, r->buffer)\<close>\<close>

definition link_DecodeKey :: "pton \<Rightarrow> uninit \<Rightarrow> udap_buffer_t \<Rightarrow> link_message act" where
  "link_DecodeKey pton u key msg buf =
     (case msg of
        LinkIntro m \<Rightarrow> do {
          (ok, m, buf) \<leftarrow> LinkIntroMessage_DecodeKey pton (u_ai u) key m buf; Some (ok, LinkIntro m, buf) }
      | RelayDownstream m \<Rightarrow> do {
          (ok, m, buf) \<leftarrow> RelayDownstreamMessage_DecodeKey key m buf; Some (ok, RelayDownstream m, buf) }
      | RelayUpstream m \<Rightarrow> do {
          (ok, m, buf) \<leftarrow> RelayUpstreamMessage_DecodeKey key m buf; Some (ok, RelayUpstream m, buf) }
      | DHTImmeidate m \<Rightarrow> do {
          (ok, m, buf) \<leftarrow> DHTImmeidateMessage_DecodeKey pton (u_ai u) (u_bytes u 32) key m buf;
          Some (ok, DHTImmeidate m, buf) }
      | LR_Ack m \<Rightarrow> do { (ok, m, buf) \<leftarrow> LR_AckMessage_DecodeKey key m buf; Some (ok, LR_Ack m, buf) }
      | LR_Commit m \<Rightarrow> do {
          (ok, m, buf) \<leftarrow> LR_CommitMessage_DecodeKey key m buf; Some (ok, LR_Commit m, buf) }
      | Discard m \<Rightarrow> do { (ok, m, buf) \<leftarrow> DiscardMessage_DecodeKey key m buf; Some (ok, Discard m, buf) })"

text \<open>The contact the session has once a message was decoded this far.\<close>

definition aliased :: "link_message \<Rightarrow> udap_rc \<Rightarrow> udap_rc" where
  "aliased msg rc =
     (case msg of LinkIntro m \<Rightarrow> (case lim_RC m of Some RC \<Rightarrow> RC | None \<Rightarrow> rc) | _ \<Rightarrow> rc)"

type_synonym 'r handler = "link_message \<Rightarrow> 'r \<Rightarrow> bool \<times> 'r"

definition MessageDone :: "'r handler \<Rightarrow> 'r InboundMessageParser \<Rightarrow> bool \<times> 'r InboundMessageParser" where
  "MessageDone handle h =
     (case p_msg h of
        None \<Rightarrow> (False, h)
      | Some msg \<Rightarrow>
          (let (result, r) = handle msg (p_router h) in (result, h\<lparr>p_router := r, p_msg := None\<rparr>)))"

definition InboundMessageParser_OnKey ::
  "'r handler \<Rightarrow> pton \<Rightarrow> uninit \<Rightarrow> udap_buffer_t option \<Rightarrow> 'r InboundMessageParser act" where
  "InboundMessageParser_OnKey handle pton u key h buf =
     (if p_firstkey h then
        (case key of
           None \<Rightarrow> Some (False, h, buf)
         | Some key \<Rightarrow>
             if_key key ''a''
               (if_string (\<lambda>strbuf h buf.
                  if b_sz strbuf \<noteq> 1 then Some (False, h, buf)
                  else do {
                    c \<leftarrow> deref strbuf;
                    (case new_message u h c of
                       None \<Rightarrow> Some (False, h, buf)
                     | Some msg \<Rightarrow> Some (True, h\<lparr>p_firstkey := False, p_msg := Some msg\<rparr>, buf))
                  }) h buf)
               (Some (False, h, buf)))
      else
        (case key of
           None \<Rightarrow> (let (result, h) = MessageDone handle h in Some (result, h, buf))
         | Some key \<Rightarrow>
             (case p_msg h of
                None \<Rightarrow> None
              | Some msg \<Rightarrow> do {
                  (ok, msg, buf) \<leftarrow> link_DecodeKey pton u key msg buf;
                  Some (ok, h\<lparr>p_msg := Some msg, p_from := aliased msg (p_from h)\<rparr>, buf)
                })))"

definition ProcessFrom ::
  "'r handler \<Rightarrow> pton \<Rightarrow> uninit \<Rightarrow> udap_rc \<Rightarrow> udap_buffer_t \<Rightarrow> 'r InboundMessageParser \<Rightarrow>
     (bool \<times> 'r InboundMessageParser) option" where
  "ProcessFrom handle pton u src buf h = do {
     (ok, h, buf) \<leftarrow> bencode_read_dict (InboundMessageParser_OnKey handle pton u)
       (h\<lparr>p_from := src, p_firstkey := True\<rparr>) buf;
     Some (ok, h)
   }"

section \<open>Arbitrary input\<close>

text \<open>
  Once the type was read there is a message, and an introduction has a contact to decode into.
\<close>

definition parser_inv :: "'r InboundMessageParser \<Rightarrow> bool" where
  "parser_inv h \<longleftrightarrow> p_firstkey h \<or>
     (case p_msg h of None \<Rightarrow> False | Some msg \<Rightarrow> (\<forall>m. msg = LinkIntro m \<longrightarrow> lim_RC m \<noteq> None))"

lemma rsafe_relay: "buf_wf k \<Longrightarrow> rsafe j (RelayUpstreamMessage_DecodeKey k)"
  unfolding RelayUpstreamMessage_DecodeKey_def
  by (intro rsafe_mono [OF rsafe_decode_fields le0]) (auto intro: safe_rules)

lemma rsafe_lrcm:
  assumes "buf_wf k" shows "rsafe 2 (LR_CommitMessage_DecodeKey k)"
proof -
  have "rsafe 2 (BEncodeReadList (EncryptedFrame_new 256) Encrypted_BDecode)"
    using rsafe_items [of 1 Encrypted_BDecode] rsafe_mono [OF rsafe_encrypted, of 1]
    by (simp add: overread_def numeral_2_eq_2)
  with assms show ?thesis
    unfolding LR_CommitMessage_DecodeKey_def [abs_def]
    by (intro rsafe_if_key rsafe_into rsafe_mono [OF rsafe_decode_fields le0]) (auto intro: safe_rules)
qed

lemma rsafe_dm: "buf_wf k \<Longrightarrow> rsafe 0 (DiscardMessage_DecodeKey k)"
  unfolding DiscardMessage_DecodeKey_def [abs_def]
  by (intro safe_rules) (auto dest: rsafe_string_bodies)

lemma lim_safe:
  assumes k: "buf_wf k" and sl: "slack b" and rc: "lim_RC m = Some rc"
  shows "\<exists>ok m' b'. LinkIntroMessage_DecodeKey pton ai k m b = Some (ok, m', b') \<and>
    (ok \<longrightarrow> lim_RC m' \<noteq> None \<and> moved 4 b b')"
proof -
  obtain e1 e2 where e: "udap_buffer_eq k (lit ''r'') = Some e1" "udap_buffer_eq k (lit ''v'') = Some e2"
    using buffer_eq_wf [OF k] by blast
  obtain ok rc' b1 where 1: "udap_rc_bdecode pton ai rc b = Some (ok, rc', b1)" "ok \<longrightarrow> moved 4 b b1"
    using rsafe_rc sl by (rule rsafeE)
  obtain ok2 v b2 where 2: "bencode_read_integer (lim_version m) b = Some (ok2, v, b2)"
    "ok2 \<longrightarrow> moved 4 b b2"
    using rsafe_mono [OF rsafe_read_integer le0] sl by (rule rsafeE)
  show ?thesis
    using e 1 2 rc by (cases e1; cases e2; cases ok; cases ok2)
      (auto simp: LinkIntroMessage_DecodeKey_def read_version_def if_key_def simp del: lit_Cons lit_Nil)
qed

lemma lifted:
  assumes "rsafe i dec" "i \<le> 7" "slack b"
  shows "\<exists>ok s' b'. do { (ok, m, b) \<leftarrow> dec m b; Some (ok, C m, b) } = Some (ok, s', b') \<and>
    (ok \<longrightarrow> (\<exists>m'. s' = C m') \<and> moved 7 b b')"
proof -
  obtain ok m' b' where "dec m b = Some (ok, m', b')" "ok \<longrightarrow> moved 7 b b'"
    using rsafe_mono [OF assms(1,2)] assms(3) by (rule rsafeE)
  then show ?thesis by auto
qed

lemma link_safe:
  assumes k: "buf_wf k" and sl: "slack b" and rc: "\<forall>m. msg = LinkIntro m \<longrightarrow> lim_RC m \<noteq> None"
  shows "\<exists>ok s' b'. link_DecodeKey pton u k msg b = Some (ok, s', b') \<and>
    (ok \<longrightarrow> (\<forall>m. s' = LinkIntro m \<longrightarrow> lim_RC m \<noteq> None) \<and> moved 7 b b')"
proof (cases msg)
  case (LinkIntro m)
  with rc obtain rc' where "lim_RC m = Some rc'" by auto
  from lim_safe [OF k sl this] obtain ok m' b' where
    "LinkIntroMessage_DecodeKey pton (u_ai u) k m b = Some (ok, m', b')"
    "ok \<longrightarrow> lim_RC m' \<noteq> None \<and> moved 4 b b'" by blast
  then show ?thesis using LinkIntro by (auto simp: link_DecodeKey_def intro: moved_mono)
next
  case (LR_Ack m)
  then show ?thesis by (auto simp: link_DecodeKey_def LR_AckMessage_DecodeKey_def)
next
  case (RelayDownstream m)
  then show ?thesis using lifted [OF rsafe_relay [OF k] le0 sl, of m RelayDownstream]
    by (fastforce simp: link_DecodeKey_def relay_decode_eq)
next
  case (RelayUpstream m)
  then show ?thesis using lifted [OF rsafe_relay [OF k] le0 sl, of m RelayUpstream]
    by (fastforce simp: link_DecodeKey_def)
next
  case (DHTImmeidate m)
  then show ?thesis using lifted [OF rsafe_im [OF k, of pton "u_ai u" "u_bytes u 32"] _ sl, of m DHTImmeidate]
    by (fastforce simp: link_DecodeKey_def)
next
  case (LR_Commit m)
  then show ?thesis using lifted [OF rsafe_lrcm [OF k] _ sl, of m LR_Commit]
    by (fastforce simp: link_DecodeKey_def)
next
  case (Discard m)
  then show ?thesis using lifted [OF rsafe_dm [OF k] le0 sl, of m Discard]
    by (fastforce simp: link_DecodeKey_def)
qed

interpretation link: dict_parser "InboundMessageParser_OnKey handle pton u" 7 parser_inv for handle pton u
proof
  fix k :: udap_buffer_t assume k: "buf_wf k" "b_cur k = b_base k"
  show "rsafe_on parser_inv 7 (InboundMessageParser_OnKey handle pton u (Some k))"
  proof (rule rsafe_onI)
    fix h :: "'a InboundMessageParser" and b assume inv: "parser_inv h" and sl: "slack b"
    show "\<exists>ok s' b'. InboundMessageParser_OnKey handle pton u (Some k) h b = Some (ok, s', b') \<and>
        (ok \<longrightarrow> parser_inv s' \<and> moved 7 b b')"
    proof (cases "p_firstkey h")
      case True
      obtain e where e: "udap_buffer_eq k (lit ''a'') = Some e" using buffer_eq_wf [OF k(1)] by blast
      from sl obtain r b' where r: "bencode_read_string b = Some (r, b')"
        and w: "\<And>w. r = Some w \<Longrightarrow> moved 0 b b' \<and> buf_wf w \<and> b_cur w = b_base w"
        using read_string_safe by blast
      from w have c: "r = Some w \<Longrightarrow> b_sz w = 1 \<Longrightarrow> \<exists>c. deref w = Some c" for w
        using deref_one by blast
      show ?thesis
        using True e r w c by (cases r; cases e)
          (fastforce simp: InboundMessageParser_OnKey_def if_key_def if_string_def parser_inv_def
            new_message_def simp del: lit_Cons lit_Nil intro: moved_mono split: option.split)+
    next
      case False
      with inv obtain msg where msg: "p_msg h = Some msg" "\<forall>m. msg = LinkIntro m \<longrightarrow> lim_RC m \<noteq> None"
        by (auto simp: parser_inv_def split: option.splits)
      obtain ok msg' b' where "link_DecodeKey pton u k msg b = Some (ok, msg', b')"
        "ok \<longrightarrow> (\<forall>m. msg' = LinkIntro m \<longrightarrow> lim_RC m \<noteq> None) \<and> moved 7 b b'"
        using link_safe [OF k(1) sl msg(2)] by blast
      then show ?thesis
        using False msg by (auto simp: InboundMessageParser_OnKey_def parser_inv_def)
    qed
  qed
qed (auto simp: InboundMessageParser_OnKey_def overread_def split: prod.split)

section \<open>Well-formed input\<close>

definition link_BEncode :: "ntop \<Rightarrow> link_message \<Rightarrow> writer" where
  "link_BEncode ntop msg =
     (case msg of
        LinkIntro m \<Rightarrow> LinkIntroMessage_BEncode ntop m
      | RelayDownstream m \<Rightarrow> RelayDownstreamMessage_BEncode m
      | RelayUpstream m \<Rightarrow> RelayUpstreamMessage_BEncode m
      | DHTImmeidate m \<Rightarrow> DHTImmeidateMessage_BEncode ntop m
      | LR_Ack m \<Rightarrow> LR_AckMessage_BEncode m
      | LR_Commit m \<Rightarrow> LR_CommitMessage_BEncode m
      | Discard m \<Rightarrow> DiscardMessage_BEncode m)"

fun link_body :: "ntop \<Rightarrow> link_message \<Rightarrow> char \<times> byte list" where
  "link_body ntop (LinkIntro m) = (CHR ''i'', lim_entries ntop m)"
| "link_body ntop (RelayDownstream m) = (CHR ''d'', rm_entries m)"
| "link_body ntop (RelayUpstream m) = (CHR ''u'', rm_entries m)"
| "link_body ntop (DHTImmeidate m) = (CHR ''m'', im_entries ntop m)"
| "link_body ntop (LR_Ack m) = (CHR ''a'', [])"
| "link_body ntop (LR_Commit m) = (CHR ''c'', lrcm_entries m)"
| "link_body ntop (Discard m) = (CHR ''z'', dm_entries m)"

definition link_bytes :: "ntop \<Rightarrow> link_message \<Rightarrow> byte list" where
  "link_bytes ntop msg = msg_bytes CHR ''a'' (fst (link_body ntop msg)) (snd (link_body ntop msg))"

text \<open>
  A message as the receiver sees it, when the contact of the session it comes from is \<open>src\<close>:
  the sender is taken from the session, or from the contact an introduction carries.
\<close>

fun link_valid :: "uninit \<Rightarrow> udap_rc \<Rightarrow> link_message \<Rightarrow> bool" where
  "link_valid u src (LinkIntro m) \<longleftrightarrow> rc_fresh src \<and> lim_version m = 0 \<and>
     (case lim_RC m of None \<Rightarrow> False | Some rc \<Rightarrow> rc_valid (u_ai u) rc \<and> lim_remote m = rc_pubkey rc)"
| "link_valid u src (RelayDownstream m) \<longleftrightarrow> rm_valid m \<and> rm_remote m = rc_pubkey src"
| "link_valid u src (RelayUpstream m) \<longleftrightarrow> rm_valid m \<and> rm_remote m = rc_pubkey src"
| "link_valid u src (DHTImmeidate m) \<longleftrightarrow> im_remote m = rc_pubkey src \<and> im_version m = 0 \<and>
     list_all (dht_valid (u_ai u) (rc_pubkey src)) (im_msgs m)"
| "link_valid u src (LR_Ack m) \<longleftrightarrow> False"
| "link_valid u src (LR_Commit m) \<longleftrightarrow> lrcm_valid m \<and> lrcm_remote m = rc_pubkey src"
| "link_valid u src (Discard m) \<longleftrightarrow> length (dm_pad m) \<le> MAX_DISCARD_SIZE \<and> dm_version m = 0 \<and>
     dm_remote m = rc_pubkey src"

lemma emits_link:
  assumes "inet_ok ntop pton" "link_valid u src msg"
  shows "emits (link_BEncode ntop msg) (link_bytes ntop msg)"
proof (cases msg)
  case (LinkIntro m)
  then show ?thesis
    using assms emits_lim [OF assms(1), of "u_ai u" m]
    by (auto simp: link_BEncode_def link_bytes_def split: option.splits)
next
  case (DHTImmeidate m)
  then show ?thesis
    using assms emits_im [OF assms(1), of "u_ai u" "rc_pubkey src" m]
    by (simp add: link_BEncode_def link_bytes_def)
qed (use assms in \<open>auto simp: link_BEncode_def link_bytes_def intro: exact_emits exact_relay exact_dm emits_lrcm\<close>)

text \<open>Decoding inside the parser.\<close>

abbreviation having :: "'r InboundMessageParser \<Rightarrow> link_message \<Rightarrow> 'r InboundMessageParser" where
  "having h msg \<equiv> h\<lparr>p_firstkey := False, p_msg := Some msg, p_from := aliased msg (p_from h)\<rparr>"

lemma first_key:
  assumes "holds k (lit ''a'')" "p_firstkey h" "new_message u h (of_char c) = Some msg"
  shows "reads (InboundMessageParser_OnKey handle pton u (Some k)) h (bstr (lit [c]))
    (h\<lparr>p_firstkey := False, p_msg := Some msg\<rparr>)"
  using assms
  by (auto simp: reads_def InboundMessageParser_OnKey_def if_key_holds holds_sz holds_deref
      intro!: reads_if_string [unfolded reads_def, rule_format])

lemma wrap_key:
  assumes "reads (dec k) m v m'"
    and "\<And>m b. link_DecodeKey pton u k (C m) b = do { (ok, m, b) \<leftarrow> dec k m b; Some (ok, C m, b) }"
    and "aliased (C m') (aliased (C m) (p_from h)) = aliased (C m') (p_from h)"
  shows "reads (InboundMessageParser_OnKey handle pton u (Some k)) (having h (C m)) v (having h (C m'))"
  using assms by (auto simp: reads_def InboundMessageParser_OnKey_def)

lemma message_run:
  assumes run: "dict_run (keys dec) m bs m'"
    and dec: "\<And>k m b. link_DecodeKey pton u k (C m) b = do { (ok, m, b) \<leftarrow> dec k m b; Some (ok, C m, b) }"
    and al: "\<And>k m v m'. reads (dec k) m v m' \<Longrightarrow>
      aliased (C m') (aliased (C m) (p_from h)) = aliased (C m') (p_from h)"
    and new: "new_message u h (of_char c) = Some (C m)" "aliased (C m) (p_from h) = p_from h" "p_firstkey h"
  shows "dict_run (InboundMessageParser_OnKey handle pton u) h (bstr (lit ''a'') @ bstr (lit [c]) @ bs)
    (having h (C m'))"
proof (rule dict_cons)
  show "dict_run (InboundMessageParser_OnKey handle pton u) (having h (C m)) bs (having h (C m'))"
    using run by (rule dict_run_wrap [where wrap = "\<lambda>m. having h (C m)"])
      (simp add: wrap_key [OF _ dec al])
  show "\<forall>k. holds k (lit ''a'') \<longrightarrow>
      reads (InboundMessageParser_OnKey handle pton u (Some k)) h (bstr (lit [c])) (having h (C m))"
    using first_key [OF _ new(3,1)] new(2) by simp
qed simp

text \<open>The aliasing law needed above, with the message types that do not alias the contact.\<close>

lemma aliased_simps [simp]:
  "aliased (RelayDownstream m) rc = rc" "aliased (RelayUpstream m) rc = rc"
  "aliased (DHTImmeidate n) rc = rc" "aliased (LR_Commit c) rc = rc" "aliased (Discard d) rc = rc"
  by (simp_all add: aliased_def)

lemma lim_keeps_contact:
  assumes "reads (LinkIntroMessage_DecodeKey pton ai k) m v m'"
  shows "lim_RC m' = None \<longleftrightarrow> lim_RC m = None"
proof -
  have "ahead v (StackBuffer v)" by (simp add: ahead_def StackBuffer_def)
  with assms have "LinkIntroMessage_DecodeKey pton ai k m (StackBuffer v) =
      Some (True, m', skip (length v) (StackBuffer v))" by (rule readsD)
  then show ?thesis
    by (auto simp: LinkIntroMessage_DecodeKey_def read_version_def if_key_def bind_Some_conv Let_def
        split: if_splits option.splits)
qed

lemma link_run_intro:
  assumes io: "inet_ok ntop pton" and v: "link_valid u (p_from h) (LinkIntro m)" and f: "p_firstkey h"
  shows "dict_run (InboundMessageParser_OnKey handle pton u) h
    (bstr (lit ''a'') @ bstr (lit ''i'') @ lim_entries ntop m) (having h (LinkIntro m))"
proof -
  from v obtain rc where rc: "lim_RC m = Some rc" "rc_valid (u_ai u) rc" "lim_remote m = rc_pubkey rc"
    "rc_fresh (p_from h)" "lim_version m = 0" by (auto split: option.splits)
  let ?new = "\<lparr>lim_remote = replicate 32 0, lim_version = 0, lim_RC = Some (p_from h)\<rparr>"
  have new: "?new\<lparr>lim_RC := Some rc, lim_remote := rc_pubkey rc, lim_version := 0\<rparr> = m"
    using rc by (cases m) simp
  have ent: "lim_entries ntop (?new\<lparr>lim_RC := Some rc\<rparr>) = lim_entries ntop m"
    using rc by (simp add: lim_entries_def)
  have "lim_RC ?new = Some (p_from h)" by simp
  from lim_run [OF io rc(2) this rc(4)]
  have "dict_run (keys (LinkIntroMessage_DecodeKey pton (u_ai u))) ?new (lim_entries ntop m) m"
    by (simp only: new ent)
  then show ?thesis
    by (rule message_run [where C = LinkIntro])
      (auto simp: link_DecodeKey_def new_message_def f aliased_def dest: lim_keeps_contact split: option.split)
qed

lemma link_run:
  assumes io: "inet_ok ntop pton" and v: "link_valid u (p_from h) msg" and f: "p_firstkey h"
  shows "dict_run (InboundMessageParser_OnKey handle pton u) h
    (bstr (lit ''a'') @ bstr (lit [fst (link_body ntop msg)]) @ snd (link_body ntop msg)) (having h msg)"
proof (cases msg)
  case (LinkIntro m)
  with assms link_run_intro show ?thesis by simp
next
  case (RelayDownstream m)
  with v have "dict_run (keys RelayDownstreamMessage_DecodeKey) (new_relay u (GetCurrentFrom h)) (rm_entries m) m"
    using relay_run [of m "new_relay u (GetCurrentFrom h)"]
    by (cases m) (simp add: relay_decode_eq new_relay_def GetCurrentFrom_def rm_valid_def)
  then show ?thesis
    unfolding RelayDownstream link_body.simps fst_conv snd_conv
    by (rule message_run [where C = RelayDownstream])
      (simp_all add: link_DecodeKey_def new_message_def f)
next
  case (RelayUpstream m)
  with v have "dict_run (keys RelayUpstreamMessage_DecodeKey) (new_relay u (GetCurrentFrom h)) (rm_entries m) m"
    using relay_run [of m "new_relay u (GetCurrentFrom h)"]
    by (cases m) (simp add: new_relay_def GetCurrentFrom_def rm_valid_def)
  then show ?thesis
    unfolding RelayUpstream link_body.simps fst_conv snd_conv
    by (rule message_run [where C = RelayUpstream])
      (simp_all add: link_DecodeKey_def new_message_def f)
next
  case (DHTImmeidate m)
  let ?new = "\<lparr>im_remote = GetCurrentFrom h, im_version = 0, im_msgs = []\<rparr>"
  from DHTImmeidate v
  have "dict_run (keys (DHTImmeidateMessage_DecodeKey pton (u_ai u) (u_bytes u 32))) ?new (im_entries ntop m) m"
    using im_run [OF io, of "u_ai u" ?new m "u_bytes u 32"] by (cases m) (simp add: GetCurrentFrom_def)
  then show ?thesis
    unfolding DHTImmeidate link_body.simps fst_conv snd_conv
    by (rule message_run [where C = DHTImmeidate])
      (simp_all add: link_DecodeKey_def new_message_def f)
next
  case (LR_Ack m)
  with v show ?thesis by simp
next
  case (LR_Commit m)
  let ?new = "\<lparr>lrcm_remote = GetCurrentFrom h, lrcm_version = u_u64 u, lrcm_frames = []\<rparr>"
  from LR_Commit v have "dict_run (keys LR_CommitMessage_DecodeKey) ?new (lrcm_entries m) m"
    using lrcm_run [of m ?new] by (cases m) (simp add: GetCurrentFrom_def lrcm_valid_def)
  then show ?thesis
    unfolding LR_Commit link_body.simps fst_conv snd_conv
    by (rule message_run [where C = LR_Commit])
      (simp_all add: link_DecodeKey_def new_message_def f)
next
  case (Discard m)
  let ?new = "\<lparr>dm_remote = GetCurrentFrom h, dm_version = 0, dm_pad = []\<rparr>"
  from Discard v have "dict_run (keys DiscardMessage_DecodeKey) ?new (dm_entries m) m"
    using dm_run [of m ?new] by (cases m) (simp add: GetCurrentFrom_def)
  then show ?thesis
    unfolding Discard link_body.simps fst_conv snd_conv
    by (rule message_run [where C = Discard])
      (simp_all add: link_DecodeKey_def new_message_def f)
qed

section \<open>Properties\<close>

text \<open>
  C21. Whatever bytes arrive, in whatever state the parser is, \<open>ProcessFrom\<close> returns: it never
  loops, and it does not read further than 33 bytes behind the end of the message (the buffer
  is followed by at least that many bytes of its memory object). No message type escapes this.
\<close>

theorem process_returns:
  assumes "b_base buf \<le> b_cur buf" "b_cur buf \<le> b_base buf + b_sz buf"
    and "b_base buf + b_sz buf + 33 \<le> length (b_mem buf)"
  shows "\<exists>ok h'. ProcessFrom handle pton u src buf h = Some (ok, h')"
proof -
  have "slack buf" using assms by (simp add: slack_def overread_def)
  then show ?thesis
    using link.read_dict_kept [of "h\<lparr>p_from := src, p_firstkey := True\<rparr>" buf handle pton u]
    by (auto simp: ProcessFrom_def parser_inv_def)
qed

theorem process_returns_witness:
  "\<exists>ok h'. ProcessFrom (\<lambda>m r. (True, r)) HexDecode
      \<lparr>u_ai = uninit_ai, u_bytes = (\<lambda>n. replicate n 0), u_u64 = 0\<rparr> rc_zero
      \<lparr>b_mem = replicate 40 105, b_base = 0, b_cur = 0, b_sz = 7\<rparr>
      \<lparr>p_firstkey = True, p_router = (), p_from = rc_zero, p_msg = None\<rparr> = Some (ok, h')"
  by (rule process_returns) simp_all

lemma process_link_bytes:
  assumes io: "inet_ok ntop pton" and v: "link_valid u src msg" and a: "ahead (link_bytes ntop msg) b"
  shows "ProcessFrom handle pton u src b h =
      Some (fst (handle msg (p_router h)),
            h\<lparr>p_firstkey := False, p_router := snd (handle msg (p_router h)),
              p_from := aliased msg src, p_msg := None\<rparr>)"
proof -
  let ?h = "h\<lparr>p_from := src, p_firstkey := True\<rparr>"
  have "dict_run (InboundMessageParser_OnKey handle pton u) ?h
      (bstr (lit ''a'') @ bstr (lit [fst (link_body ntop msg)]) @ snd (link_body ntop msg)) (having ?h msg)"
    using link_run [OF io, of u ?h msg] v by simp
  from read_dict_run [OF this] a show ?thesis
    by (auto simp: ProcessFrom_def link_bytes_def msg_bytes_def InboundMessageParser_OnKey_def
        MessageDone_def split: prod.split)
qed

text \<open>
  C3. A message of any of the implemented types, encoded by its sender, is recognised by the
  receiver's parser and handed to the handler exactly once and with every member as it was
  sent; the parser returns what the handler returns.
\<close>

theorem link_message_delivered:
  assumes io: "inet_ok ntop pton" and v: "link_valid u src msg"
    and buf: "buf_wf b" "b_cur b = b_base b" "length (link_bytes ntop msg) < b_sz b"
  shows "\<exists>b'. link_BEncode ntop msg b = Some (True, b') \<and>
    ProcessFrom handle pton u src (rewind b') h =
      Some (fst (handle msg (p_router h)),
            h\<lparr>p_firstkey := False, p_router := snd (handle msg (p_router h)),
              p_from := aliased msg src, p_msg := None\<rparr>)"
proof -
  have "length (link_bytes ntop msg) < room b" using buf by (simp add: room_def)
  with emits_link [OF io v] buf(1) obtain b' where b': "link_BEncode ntop msg b = Some (True, b')"
    "wframe b b'" "appended (link_bytes ntop msg) b b'" by (rule emitsE)
  have a: "ahead (link_bytes ntop msg) (rewind b')"
    using buf(1,2) b'(2,3) by (rule ahead_rewind)
  from b'(1) process_link_bytes [OF io v a] show ?thesis by blast
qed

theorem link_message_delivered_witness:
  "\<exists>b'. link_BEncode hex_ntop (Discard \<lparr>dm_remote = replicate 32 0, dm_version = 0, dm_pad = [1, 2, 3]\<rparr>)
      (StackBuffer (replicate 60 0)) = Some (True, b') \<and>
    ProcessFrom (\<lambda>m r. (True, m # r)) HexDecode
      \<lparr>u_ai = uninit_ai, u_bytes = (\<lambda>n. replicate n 0), u_u64 = 0\<rparr> rc_zero (rewind b')
      \<lparr>p_firstkey = True, p_router = [], p_from = rc_zero, p_msg = None\<rparr> =
    Some (True, \<lparr>p_firstkey = False,
      p_router = [Discard \<lparr>dm_remote = replicate 32 0, dm_version = 0, dm_pad = [1, 2, 3]\<rparr>],
      p_from = rc_zero, p_msg = None\<rparr>)"
proof -
  let ?m = "Discard \<lparr>dm_remote = replicate 32 0, dm_version = 0, dm_pad = [1, 2, 3]\<rparr>"
  have "length (link_bytes hex_ntop ?m) < b_sz (StackBuffer (replicate 60 0))" by code_simp
  moreover have "link_valid \<lparr>u_ai = uninit_ai, u_bytes = (\<lambda>n. replicate n 0), u_u64 = 0\<rparr> rc_zero ?m"
    by (simp add: rc_zero_def MAX_DISCARD_SIZE_def PUBKEYSIZE_def)
  ultimately show ?thesis
    using link_message_delivered [OF inet_ok_hex, of
        "\<lparr>u_ai = uninit_ai, u_bytes = (\<lambda>n. replicate n 0), u_u64 = 0\<rparr>" rc_zero ?m
        "StackBuffer (replicate 60 0)" "\<lambda>m r. (True, m # r)"
        "\<lparr>p_firstkey = True, p_router = [], p_from = rc_zero, p_msg = None\<rparr>"]
      wf_StackBuffer [of "replicate 60 0"]
    by (simp add: StackBuffer_def)
qed

end
