(* ===== verification/Std_Map.thy ===== *)
theory Std_Map
  imports Aligned
begin

text \<open>
  \<open>std::map\<close> as the program uses it: an association list kept in the order of the map's comparison,
  in which two keys are the same when neither is less than the other. \<open>key_order\<close> is what a
  map relies on in its comparison; from it follow the laws of a map, for keys of the map's kind
  \<open>K\<close>. The comparisons of the program (byte order, XOR distance, and others in their components)
  interpret it.
\<close>

section \<open>Operations\<close>

fun map_find :: "('k \<Rightarrow> 'k \<Rightarrow> bool) \<Rightarrow> 'k \<Rightarrow> ('k \<times> 'v) list \<Rightarrow> 'v option" where
  "map_find lt k [] = None"
| "map_find lt k ((k', v) # m) =
     (if lt k' k then map_find lt k m else if lt k k' then None else Some v)"

text \<open>\<open>m[k] = v\<close>: an element that is there keeps its key.\<close>

fun map_put :: "('k \<Rightarrow> 'k \<Rightarrow> bool) \<Rightarrow> 'k \<Rightarrow> 'v \<Rightarrow> ('k \<times> 'v) list \<Rightarrow> ('k \<times> 'v) list" where
  "map_put lt k v [] = [(k, v)]"
| "map_put lt k v ((k', v') # m) =
     (if lt k' k then (k', v') # map_put lt k v m
      else if lt k k' then (k, v) # (k', v') # m else (k', v) # m)"

text \<open>\<open>m.erase(m.find(k))\<close> when there is such an element\<close>

fun map_del :: "('k \<Rightarrow> 'k \<Rightarrow> bool) \<Rightarrow> 'k \<Rightarrow> ('k \<times> 'v) list \<Rightarrow> ('k \<times> 'v) list" where
  "map_del lt k [] = []"
| "map_del lt k ((k', v) # m) =
     (if lt k' k then (k', v) # map_del lt k m else if lt k k' then (k', v) # m else m)"

text \<open>\<open>m.emplace(k, v)\<close>: an element that is there stays.\<close>

definition map_emplace :: "('k \<Rightarrow> 'k \<Rightarrow> bool) \<Rightarrow> 'k \<Rightarrow> 'v \<Rightarrow> ('k \<times> 'v) list \<Rightarrow> ('k \<times> 'v) list" where
  "map_emplace lt k v m = (case map_find lt k m of None \<Rightarrow> map_put lt k v m | Some _ \<Rightarrow> m)"

text \<open>
  \<open>std::multimap\<close>: \<open>emplace\<close> puts an element behind those with the same key; \<open>equal_range\<close> are the
  elements of a key, and \<open>erase\<close> with a key removes all of them.
\<close>

fun multimap_emplace :: "('k \<Rightarrow> 'k \<Rightarrow> bool) \<Rightarrow> 'k \<Rightarrow> 'v \<Rightarrow> ('k \<times> 'v) list \<Rightarrow> ('k \<times> 'v) list" where
  "multimap_emplace lt k v [] = [(k, v)]"
| "multimap_emplace lt k v ((k', v') # m) =
     (if lt k k' then (k, v) # (k', v') # m else (k', v') # multimap_emplace lt k v m)"

definition equal_range :: "('k \<Rightarrow> 'k \<Rightarrow> bool) \<Rightarrow> 'k \<Rightarrow> ('k \<times> 'v) list \<Rightarrow> ('k \<times> 'v) list" where
  "equal_range lt k m = filter (\<lambda>(k', v). \<not> lt k' k \<and> \<not> lt k k') m"

definition multimap_erase :: "('k \<Rightarrow> 'k \<Rightarrow> bool) \<Rightarrow> 'k \<Rightarrow> ('k \<times> 'v) list \<Rightarrow> ('k \<times> 'v) list" where
  "multimap_erase lt k m = filter (\<lambda>(k', v). lt k' k \<or> lt k k') m"

section \<open>Laws\<close>

locale key_order =
  fixes lt :: "'k \<Rightarrow> 'k \<Rightarrow> bool" and K :: "'k \<Rightarrow> bool"
  assumes irrefl: "K x \<Longrightarrow> \<not> lt x x"
    and trans: "K x \<Longrightarrow> K y \<Longrightarrow> K z \<Longrightarrow> lt x y \<Longrightarrow> lt y z \<Longrightarrow> lt x z"
    and total: "K x \<Longrightarrow> K y \<Longrightarrow> \<not> lt x y \<Longrightarrow> \<not> lt y x \<Longrightarrow> x = y"
begin

definition ordered :: "('k \<times> 'v) list \<Rightarrow> bool" where
  "ordered m \<longleftrightarrow> list_all K (map fst m) \<and> sorted_wrt lt (map fst m)"

lemma ordered_Nil [simp]: "ordered []"
  by (simp add: ordered_def)

lemma ordered_Cons:
  "ordered ((k, v) # m) \<longleftrightarrow> K k \<and> (\<forall>x \<in> set m. lt k (fst x)) \<and> ordered m"
  by (auto simp: ordered_def)

lemma asym: "K x \<Longrightarrow> K y \<Longrightarrow> lt x y \<Longrightarrow> \<not> lt y x"
  using irrefl trans by blast

lemma ordered_key: "ordered m \<Longrightarrow> (k, v) \<in> set m \<Longrightarrow> K k"
  by (auto simp: ordered_def list_all_iff)

lemma put_keys: "x \<in> set (map_put lt k v m) \<Longrightarrow> fst x = k \<or> fst x \<in> fst ` set m"
  by (induction m) (auto split: if_splits)

lemma ordered_put:
  assumes "K k" "ordered m" shows "ordered (map_put lt k v m)"
  using assms(2)
proof (induction m)
  case Nil
  then show ?case using assms by (simp add: ordered_Cons)
next
  case (Cons x m)
  obtain k' v' where x: "x = (k', v')" by fastforce
  with Cons have k': "K k'" "ordered m" "\<forall>y \<in> set m. lt k' (fst y)" by (auto simp: ordered_Cons)
  have Km: "K (fst y)" if "y \<in> set m" for y
    using ordered_key [OF k'(2)] that by (metis prod.collapse)
  show ?case
  proof (cases "lt k' k")
    case True
    then show ?thesis
      using x k' Cons.IH put_keys [of _ k v m] by (fastforce simp: ordered_Cons)
  next
    case False
    then show ?thesis
      using x k' assms(1) Km trans [OF assms(1) k'(1)] by (auto simp: ordered_Cons)
  qed
qed

lemma del_sub: "x \<in> set (map_del lt k m) \<Longrightarrow> x \<in> set m"
  by (induction m) (auto split: if_splits)

lemma ordered_del: "ordered m \<Longrightarrow> ordered (map_del lt k m)"
  by (induction m) (fastforce simp: ordered_Cons dest: del_sub)+

text \<open>A lookup is a lookup in the association list, so the order does not show.\<close>

lemma find_map_of:
  assumes "K k" "ordered m" shows "map_find lt k m = map_of m k"
  using assms(2)
proof (induction m)
  case (Cons x m)
  obtain k' v' where x: "x = (k', v')" by fastforce
  with Cons have k': "K k'" "ordered m" "\<forall>y \<in> set m. lt k' (fst y)" by (auto simp: ordered_Cons)
  have none: "map_of m k = None" if "lt k k' \<or> k = k'"
  proof (rule ccontr)
    assume "map_of m k \<noteq> None"
    then obtain w where w: "(k, w) \<in> set m" using map_of_SomeD by fastforce
    with k'(3) have "lt k' k" by force
    with that show False using asym [OF assms(1) k'(1)] irrefl [OF assms(1)] by auto
  qed
  show ?case
    using x Cons.IH k' none irrefl [OF assms(1)] total [OF assms(1) k'(1)] by auto
qed simp

lemma find_put:
  assumes "K k" "K k2" "ordered m"
  shows "map_find lt k2 (map_put lt k v m) = (if k2 = k then Some v else map_find lt k2 m)"
proof -
  have "map_of (map_put lt k v m) = (map_of m)(k \<mapsto> v)"
    using assms(3)
  proof (induction m)
    case (Cons x m)
    obtain k' v' where x: "x = (k', v')" by fastforce
    with Cons have k': "K k'" "ordered m" by (auto simp: ordered_Cons)
    show ?case
      using x Cons.IH [OF k'(2)] irrefl [OF assms(1)] total [OF assms(1) k'(1)] by (auto split: if_splits)
  qed simp
  then show ?thesis
    using find_map_of [OF assms(2) ordered_put [OF assms(1,3)]] find_map_of [OF assms(2,3)] by simp
qed

lemma find_del:
  assumes "K k" "K k2" "ordered m"
  shows "map_find lt k2 (map_del lt k m) = (if k2 = k then None else map_find lt k2 m)"
proof -
  have "map_of (map_del lt k m) = (map_of m)(k := None)"
    using assms(3)
  proof (induction m)
    case (Cons x m)
    obtain k' v' where x: "x = (k', v')" by fastforce
    with Cons have k': "K k'" "ordered m" "\<forall>y \<in> set m. lt k' (fst y)" by (auto simp: ordered_Cons)
    have none: "map_of m k = None" if "lt k k' \<or> k = k'"
      using find_map_of [OF assms(1), of "(k', v') # m"] find_map_of [OF assms(1) k'(2)] that x Cons.prems
      by (metis asym assms(1) k'(1,3) fst_conv irrefl map_of_SomeD not_Some_eq)
    show ?case
      using x Cons.IH k' none irrefl [OF assms(1)] total [OF assms(1) k'(1)] by (auto split: if_splits)
  qed simp
  then show ?thesis
    using find_map_of [OF assms(2) ordered_del [OF assms(3)]] find_map_of [OF assms(2,3)] by simp
qed

lemma find_in:
  assumes "K k" "ordered m" shows "map_find lt k m = Some v \<longleftrightarrow> (k, v) \<in> set m"
proof -
  have "distinct (map fst m)"
    using assms(2)
  proof (induction m)
    case (Cons x m)
    obtain k' v' where x: "x = (k', v')" by fastforce
    with Cons show ?case using irrefl by (fastforce simp: ordered_Cons)
  qed simp
  then show ?thesis using find_map_of [OF assms] by simp
qed

text \<open>A multimap is ordered, with equal keys allowed.\<close>

definition multi :: "('k \<times> 'v) list \<Rightarrow> bool" where
  "multi m \<longleftrightarrow> list_all K (map fst m) \<and> sorted_wrt (\<lambda>a b. \<not> lt b a) (map fst m)"

lemma multi_Nil [simp]: "multi []"
  by (simp add: multi_def)

lemma multi_Cons: "multi ((k, v) # m) \<longleftrightarrow> K k \<and> (\<forall>x \<in> set m. \<not> lt (fst x) k) \<and> multi m"
  by (auto simp: multi_def)

lemma emplace_set: "set (multimap_emplace lt k v m) = insert (k, v) (set m)"
  by (induction m) (auto split: if_splits)

lemma multi_emplace:
  assumes "K k" "multi m" shows "multi (multimap_emplace lt k v m)"
  using assms(2)
proof (induction m)
  case (Cons x m)
  obtain k' v' where x: "x = (k', v')" by fastforce
  with Cons have k': "K k'" "multi m" "\<forall>y \<in> set m. \<not> lt (fst y) k'" by (auto simp: multi_Cons)
  have Km: "K (fst y)" if "y \<in> set m" for y using k'(2) that by (auto simp: multi_def list_all_iff)
  have "lt k k' \<Longrightarrow> y \<in> set m \<Longrightarrow> \<not> lt (fst y) k" for y
    using trans [OF Km assms(1) k'(1)] k'(3) by blast
  then show ?case
    using x Cons.IH k' assms(1) asym [OF assms(1) k'(1)] by (auto simp: multi_Cons emplace_set)
qed (use assms in \<open>simp add: multi_Cons\<close>)

lemma multi_erase: "multi m \<Longrightarrow> multi (multimap_erase lt k m)"
  unfolding multi_def multimap_erase_def
  by (induction m) (auto simp: list_all_iff split: if_splits)

lemma range_iff: "K k \<Longrightarrow> multi m \<Longrightarrow> equal_range lt k m = filter (\<lambda>x. fst x = k) m"
  using irrefl total by (fastforce simp: equal_range_def multi_def list_all_iff intro!: filter_cong)

lemma erase_iff: "K k \<Longrightarrow> multi m \<Longrightarrow> multimap_erase lt k m = filter (\<lambda>x. fst x \<noteq> k) m"
  using irrefl total by (fastforce simp: multimap_erase_def multi_def list_all_iff intro!: filter_cong)

lemma range_emplace:
  assumes "K k" "K k2" "multi m"
  shows "equal_range lt k2 (multimap_emplace lt k v m) =
    equal_range lt k2 m @ (if k2 = k then [(k, v)] else [])"
  using assms(3)
proof (induction m)
  case Nil
  then show ?case using assms irrefl total by (auto simp: equal_range_def)
next
  case (Cons x m)
  obtain k' v' where x: "x = (k', v')" by fastforce
  with Cons.prems have k': "K k'" "multi m" "\<forall>y \<in> set m. \<not> lt (fst y) k'" by (auto simp: multi_Cons)
  have "equal_range lt k m = []" if "lt k k'"
    using that k' by (auto simp: range_iff [OF assms(1) k'(2)] filter_empty_conv)
  moreover have "k2 \<noteq> k \<Longrightarrow> lt k k2 \<or> lt k2 k" "\<not> lt k k" using total irrefl assms by blast+
  ultimately show ?case
    using x Cons.IH [OF k'(2)] by (cases "k2 = k") (auto simp: equal_range_def)
qed

lemma range_erase:
  assumes "K k" "K k2" "multi m"
  shows "equal_range lt k2 (multimap_erase lt k m) = (if k2 = k then [] else equal_range lt k2 m)"
  using assms multi_erase [OF assms(3), of k]
  by (auto simp: range_iff erase_iff filter_empty_conv intro: filter_cong)

lemma ordered_multi: "ordered m \<Longrightarrow> multi m"
proof (induction m)
  case (Cons x m)
  obtain k v where x: "x = (k, v)" by fastforce
  have "\<not> lt (fst y) k" if "y \<in> set m" for y
    using that Cons.prems asym [of k "fst y"] ordered_key [of m "fst y" "snd y"] by (auto simp: x ordered_Cons)
  with Cons show ?case by (auto simp: x ordered_Cons multi_Cons)
qed simp

lemma range_find:
  assumes "K k" "ordered m"
  shows "equal_range lt k m = (case map_find lt k m of None \<Rightarrow> [] | Some v \<Rightarrow> [(k, v)])"
  using assms(2)
proof (induction m)
  case (Cons x m)
  obtain k' v where x: "x = (k', v)" by fastforce
  with Cons.prems have m: "K k'" "ordered m" "\<forall>y \<in> set m. lt k' (fst y)" by (auto simp: ordered_Cons)
  have "equal_range lt k m = []" if "lt k k' \<or> k = k'"
  proof -
    have "lt k (fst y)" if "y \<in> set m" for y
      using that \<open>lt k k' \<or> k = k'\<close> m assms(1) trans [of k k' "fst y"] ordered_key [of m "fst y" "snd y"] by auto
    then show ?thesis by (auto simp: equal_range_def filter_empty_conv)
  qed
  then show ?case
    using Cons.IH [OF m(2)] total [OF assms(1) m(1)] asym [OF assms(1) m(1)]
    by (auto simp: x equal_range_def)
qed (simp add: equal_range_def)

lemma emplace_find:
  assumes "K k" "K k2" "ordered m"
  shows "map_find lt k2 (map_emplace lt k v m) =
    (if k2 = k \<and> map_find lt k m = None then Some v else map_find lt k2 m)"
  using find_put [OF assms] by (auto simp: map_emplace_def split: option.split)

lemma ordered_emplace: "K k \<Longrightarrow> ordered m \<Longrightarrow> ordered (map_emplace lt k v m)"
  using ordered_put by (auto simp: map_emplace_def split: option.split)

end

section \<open>Keys in byte order and by XOR distance\<close>

lemma memcmp_trans:
  "length x = length y \<Longrightarrow> length y = length z \<Longrightarrow> memcmp x y < 0 \<Longrightarrow> memcmp y z < 0 \<Longrightarrow> memcmp x z < 0"
proof (induction x y arbitrary: z rule: memcmp.induct)
  case (1 a xs b ys)
  then show ?case by (cases z) (auto split: if_splits)
qed auto

lemma memcmp_antisym: "length x = length y \<Longrightarrow> memcmp x y < 0 \<or> memcmp y x < 0 \<or> x = y"
  by (induction x y rule: memcmp.induct) auto

lemma memcmp_irrefl: "\<not> memcmp x x < 0"
  by (induction x) auto

interpretation bytes: key_order AlignedBuffer_less "\<lambda>k. length k = n" for n
proof
  show "\<not> AlignedBuffer_less x x" for x by (simp add: AlignedBuffer_less_def memcmp_irrefl)
  show "AlignedBuffer_less x z" if "length x = n" "length y = n" "length z = n"
    "AlignedBuffer_less x y" "AlignedBuffer_less y z" for x y z
    using that memcmp_trans [of x y z] by (simp add: AlignedBuffer_less_def)
  show "x = y" if "length x = n" "length y = n" "\<not> AlignedBuffer_less x y" "\<not> AlignedBuffer_less y x" for x y
    using that memcmp_antisym [of x y] by (auto simp: AlignedBuffer_less_def)
qed

end
