(* ===== verification/Path.thy ===== *)
theory Path
  imports Routing Link_Parser Crypto Std_Map
begin

text \<open>
  The paths of the onion router: the ends and hops of a path (\<open>udap/path.cpp\<close>,
  \<open>udap/transit_hop.cpp\<close>, \<open>include/udap/path.hpp\<close>), the sets of own paths (\<open>udap/pathset.cpp\<close>) and
  the tables that find the hop for a relayed message (\<open>PathContext\<close>, \<open>udap/relay_up_down.cpp\<close>). What
  is handed to the router is a list of events. \<open>None\<close> is undefined behaviour.
\<close>

section \<open>Surroundings\<close>

definition MAX_LINK_MSG_SIZE :: nat where "MAX_LINK_MSG_SIZE = 32768"
definition DEFAULT_PATH_LIFETIME :: u64 where "DEFAULT_PATH_LIFETIME = 10 * 60 * 1000"
definition PATH_BUILD_TIMEOUT :: u64 where "PATH_BUILD_TIMEOUT = 30 * 1000"

text \<open>
  What an operation takes from the router and its surroundings: libsodium, the identity key of the
  router, uninitialised stack arrays, a random nonce, \<open>rand()\<close> and the clock.
\<close>

record path_env =
  pv_sodium :: sodium
  pv_pubkey :: "byte list"
  pv_stack :: "nat \<Rightarrow> byte list"
  pv_nonce :: "byte list"
  pv_rand :: u64
  pv_now :: u64

text \<open>
  \<open>SendToOrQueue\<close> of the router, which always reports success; and the hook that a path set installs
  for a path being confirmed.
\<close>

datatype path_event = RouterSend "byte list" link_message | PathBuilt "byte list"

definition new_relay_message :: "byte list \<Rightarrow> byte list \<Rightarrow> byte list \<Rightarrow> RelayMessage" where
  "new_relay_message pathid X Y =
     \<lparr>rm_remote = replicate 32 0, rm_version = 0, rm_pathid = pathid, rm_X = X, rm_Y = Y\<rparr>"

section \<open>Hops\<close>

record TransitHopInfo =
  ti_txID :: "byte list"
  ti_rxID :: "byte list"
  ti_upstream :: "byte list"
  ti_downstream :: "byte list"

definition TransitHopInfo_eq :: "TransitHopInfo \<Rightarrow> TransitHopInfo \<Rightarrow> bool" where
  "TransitHopInfo_eq a b \<longleftrightarrow> AlignedBuffer_eq (ti_txID a) (ti_txID b) \<and>
     AlignedBuffer_eq (ti_rxID a) (ti_rxID b) \<and> AlignedBuffer_eq (ti_upstream a) (ti_upstream b) \<and>
     AlignedBuffer_eq (ti_downstream a) (ti_downstream b)"

record TransitHop =
  th_info :: TransitHopInfo
  th_pathKey :: "byte list"
  th_started :: u64
  th_lifetime :: u64

definition TransitHop_Expired :: "u64 \<Rightarrow> TransitHop \<Rightarrow> bool" where
  "TransitHop_Expired now h \<longleftrightarrow> now - th_started h > th_lifetime h"

definition TransitHop_HandleDownstream ::
  "path_env \<Rightarrow> TransitHop \<Rightarrow> byte list \<Rightarrow> byte list \<Rightarrow> bool \<times> path_event list" where
  "TransitHop_HandleDownstream E h buf Y =
     (let buf = snd (sodium_xchacha20 (pv_sodium E) buf (th_pathKey h) Y)
      in (True, [RouterSend (ti_downstream (th_info h))
           (RelayDownstream (new_relay_message (ti_rxID (th_info h)) buf Y))]))"

definition TransitHop_SendRoutingMessage ::
  "path_env \<Rightarrow> TransitHop \<Rightarrow> routing_message \<Rightarrow> (bool \<times> path_event list) option" where
  "TransitHop_SendRoutingMessage E h msg = do {
     (ok, buf) \<leftarrow> routing_BEncode msg (StackBuffer (pv_stack E (MAX_LINK_MSG_SIZE div 2)));
     Some (if \<not> ok then (False, []) else TransitHop_HandleDownstream E h (encoded buf) (pv_nonce E))
   }"

definition TransitHop_HandlePathLatencyMessage ::
  "path_env \<Rightarrow> TransitHop \<Rightarrow> PathLatencyMessage \<Rightarrow> (bool \<times> path_event list) option" where
  "TransitHop_HandlePathLatencyMessage E h msg =
     TransitHop_SendRoutingMessage E h (PathLatency (PathLatencyMessage_new\<lparr>pl_L := pl_T msg\<rparr>))"

definition TransitHop_HandlePathConfirmMessage ::
  "path_env \<Rightarrow> TransitHop \<Rightarrow> PathConfirmMessage \<Rightarrow> (bool \<times> path_event list) option" where
  "TransitHop_HandlePathConfirmMessage E h msg = Some (False, [])"

definition TransitHop_handler ::
  "path_env \<Rightarrow> TransitHop \<Rightarrow> routing_message \<Rightarrow> path_event list \<Rightarrow> (bool \<times> path_event list) option" where
  "TransitHop_handler E h msg evs = do {
     (ok, new) \<leftarrow> (case msg of
         PathLatency m \<Rightarrow> TransitHop_HandlePathLatencyMessage E h m
       | PathConfirm m \<Rightarrow> TransitHop_HandlePathConfirmMessage E h m);
     Some (ok, evs @ new)
   }"

definition TransitHop_HandleUpstream ::
  "path_env \<Rightarrow> TransitHop \<Rightarrow> byte list \<Rightarrow> byte list \<Rightarrow> (bool \<times> path_event list) option" where
  "TransitHop_HandleUpstream E h buf Y =
     (let buf = snd (sodium_xchacha20 (pv_sodium E) buf (th_pathKey h) Y) in
      if AlignedBuffer_eq (ti_upstream (th_info h)) (pv_pubkey E)
      then ParseMessageBuffer (TransitHop_handler E h) (Encrypted_Buffer buf) []
      else Some (True, [RouterSend (ti_upstream (th_info h))
        (RelayUpstream (new_relay_message (ti_txID (th_info h)) buf Y))]))"

section \<open>Own paths\<close>

datatype PathStatus = ePathBuilding | ePathEstablished | ePathTimeout | ePathExpired

record PathHopConfig =
  hc_txID :: "byte list"
  hc_rxID :: "byte list"
  hc_router :: udap_rc
  hc_commkey :: "byte list"
  hc_shared :: "byte list"
  hc_upstream :: "byte list"
  hc_nonce :: "byte list"
  hc_lifetime :: u64

record Path =
  pa_hops :: "PathHopConfig list"
  pa_buildStarted :: u64
  pa_status :: PathStatus
  pa_Latency :: u64
  pa_BuiltHook :: bool
  pa_LastLatencyTestTime :: u64
  pa_LastLatencyTestID :: u64

definition PathHopConfig_new :: "(nat \<Rightarrow> byte list) \<Rightarrow> PathHopConfig" where
  "PathHopConfig_new mem = \<lparr>hc_txID = mem PATHIDSIZE, hc_rxID = mem PATHIDSIZE, hc_router = rc_zero,
     hc_commkey = mem SECKEYSIZE, hc_shared = mem 32, hc_upstream = mem 32, hc_nonce = mem TUNNONCESIZE,
     hc_lifetime = DEFAULT_PATH_LIFETIME\<rparr>"

text \<open>
  \<open>tx\<close> and \<open>rx\<close> are the random path ids. A hop sends upstream with the id that the next hop receives
  with. For no hops the bound \<open>numHops - 1\<close> of the second loop wraps around.
\<close>

fun link_ids :: "PathHopConfig list \<Rightarrow> PathHopConfig list" where
  "link_ids (a # b # hs) = a\<lparr>hc_txID := hc_rxID b\<rparr> # link_ids (b # hs)"
| "link_ids hs = hs"

definition Path_new ::
  "(nat \<Rightarrow> byte list) \<Rightarrow> u64 \<Rightarrow> PathStatus \<Rightarrow> (nat \<Rightarrow> byte list) \<Rightarrow> (nat \<Rightarrow> byte list) \<Rightarrow> udap_rc list \<Rightarrow> Path option" where
  "Path_new mem t st tx rx hops =
     (if hops = [] then None
      else Some \<lparr>pa_hops = link_ids (map (\<lambda>i. (PathHopConfig_new mem)\<lparr>
             hc_router := udap_rc_copy rc_zero (hops ! i), hc_txID := tx i, hc_rxID := rx i\<rparr>) [0..<length hops]),
           pa_buildStarted = t, pa_status = st, pa_Latency = 0, pa_BuiltHook = False,
           pa_LastLatencyTestTime = 0, pa_LastLatencyTestID = 0\<rparr>)"

definition TXID :: "Path \<Rightarrow> byte list" where
  "TXID p = hc_txID (hd (pa_hops p))"

definition RXID :: "Path \<Rightarrow> byte list" where
  "RXID p = hc_rxID (hd (pa_hops p))"

definition Upstream :: "Path \<Rightarrow> byte list" where
  "Upstream p = rc_pubkey (hc_router (hd (pa_hops p)))"

definition crypt_hops :: "sodium \<Rightarrow> PathHopConfig list \<Rightarrow> byte list \<Rightarrow> byte list \<Rightarrow> byte list" where
  "crypt_hops S hops Y buf = fold (\<lambda>hop buf. snd (sodium_xchacha20 S buf (hc_shared hop) Y)) hops buf"

definition Path_HandleUpstream ::
  "path_env \<Rightarrow> Path \<Rightarrow> byte list \<Rightarrow> byte list \<Rightarrow> bool \<times> path_event list" where
  "Path_HandleUpstream E p buf Y =
     (let buf = crypt_hops (pv_sodium E) (pa_hops p) Y buf
      in (True, [RouterSend (Upstream p) (RelayUpstream (new_relay_message (TXID p) buf Y))]))"

definition Path_Expired :: "u64 \<Rightarrow> Path \<Rightarrow> bool" where
  "Path_Expired now p =
     (case pa_status p of
        ePathEstablished \<Rightarrow> now - pa_buildStarted p > hc_lifetime (hd (pa_hops p))
      | ePathBuilding \<Rightarrow> now - pa_buildStarted p > PATH_BUILD_TIMEOUT
      | _ \<Rightarrow> True)"

definition Path_SendRoutingMessage ::
  "path_env \<Rightarrow> Path \<Rightarrow> routing_message \<Rightarrow> (bool \<times> path_event list) option" where
  "Path_SendRoutingMessage E p msg = do {
     (ok, buf) \<leftarrow> routing_BEncode msg (StackBuffer (pv_stack E (MAX_LINK_MSG_SIZE div 2)));
     Some (if \<not> ok then (False, []) else Path_HandleUpstream E p (encoded buf) (pv_nonce E))
   }"

definition Path_HandlePathConfirmMessage ::
  "path_env \<Rightarrow> PathConfirmMessage \<Rightarrow> Path \<Rightarrow> (bool \<times> Path \<times> path_event list) option" where
  "Path_HandlePathConfirmMessage E msg p =
     (if pa_status p = ePathBuilding then do {
        let built = (if pa_BuiltHook p then [PathBuilt (RXID p)] else []);
        let p = p\<lparr>pa_status := ePathEstablished, pa_BuiltHook := False,
          pa_LastLatencyTestID := pv_rand E, pa_LastLatencyTestTime := pv_now E\<rparr>;
        (ok, evs) \<leftarrow> Path_SendRoutingMessage E p (PathLatency (PathLatencyMessage_new\<lparr>pl_T := pv_rand E\<rparr>));
        Some (ok, p, built @ evs)
      }
      else Some (False, p, []))"

definition Path_HandlePathLatencyMessage ::
  "path_env \<Rightarrow> PathLatencyMessage \<Rightarrow> Path \<Rightarrow> (bool \<times> Path \<times> path_event list) option" where
  "Path_HandlePathLatencyMessage E msg p =
     Some (if pl_L msg = pa_LastLatencyTestID p
       then (True, p\<lparr>pa_Latency := pv_now E - pa_LastLatencyTestTime p\<rparr>, []) else (False, p, []))"

definition Path_handler ::
  "path_env \<Rightarrow> routing_message \<Rightarrow> Path \<times> path_event list \<Rightarrow> (bool \<times> Path \<times> path_event list) option" where
  "Path_handler E msg st = do {
     (ok, p, new) \<leftarrow> (case msg of
         PathLatency m \<Rightarrow> Path_HandlePathLatencyMessage E m (fst st)
       | PathConfirm m \<Rightarrow> Path_HandlePathConfirmMessage E m (fst st));
     Some (ok, p, snd st @ new)
   }"

definition Path_HandleRoutingMessage ::
  "path_env \<Rightarrow> udap_buffer_t \<Rightarrow> Path \<Rightarrow> (bool \<times> Path \<times> path_event list) option" where
  "Path_HandleRoutingMessage E buf p = ParseMessageBuffer (Path_handler E) buf (p, [])"

definition Path_HandleDownstream ::
  "path_env \<Rightarrow> byte list \<Rightarrow> byte list \<Rightarrow> Path \<Rightarrow> (bool \<times> Path \<times> path_event list) option" where
  "Path_HandleDownstream E buf Y p =
     Path_HandleRoutingMessage E (Encrypted_Buffer (crypt_hops (pv_sodium E) (pa_hops p) Y buf)) p"

section \<open>Path sets\<close>

text \<open>\<open>operator<\<close> of \<open>std::pair< RouterID, PathID_t >\<close>\<close>

definition PathInfo_less :: "byte list \<times> byte list \<Rightarrow> byte list \<times> byte list \<Rightarrow> bool" where
  "PathInfo_less a b \<longleftrightarrow> AlignedBuffer_less (fst a) (fst b) \<or>
     \<not> AlignedBuffer_less (fst b) (fst a) \<and> AlignedBuffer_less (snd a) (snd b)"

record PathSet =
  ps_NumPaths :: nat
  ps_Paths :: "((byte list \<times> byte list) \<times> Path) list"

definition PathSet_new :: "nat \<Rightarrow> PathSet" where
  "PathSet_new num = \<lparr>ps_NumPaths = num, ps_Paths = []\<rparr>"

definition ShouldBuildMore :: "PathSet \<Rightarrow> bool" where
  "ShouldBuildMore s \<longleftrightarrow> length (ps_Paths s) < ps_NumPaths s"

definition PathSet_ExpirePaths :: "u64 \<Rightarrow> PathSet \<Rightarrow> PathSet" where
  "PathSet_ExpirePaths now s = s\<lparr>ps_Paths := filter (\<lambda>x. \<not> Path_Expired now (snd x)) (ps_Paths s)\<rparr>"

definition NumInStatus :: "PathStatus \<Rightarrow> PathSet \<Rightarrow> nat" where
  "NumInStatus st s = length (filter (\<lambda>x. pa_status (snd x) = st) (ps_Paths s))"

definition AddPath :: "Path \<Rightarrow> PathSet \<Rightarrow> PathSet" where
  "AddPath p s = s\<lparr>ps_Paths := map_emplace PathInfo_less (Upstream p, RXID p) p (ps_Paths s)\<rparr>"

definition RemovePath :: "Path \<Rightarrow> PathSet \<Rightarrow> PathSet" where
  "RemovePath p s = s\<lparr>ps_Paths := map_del PathInfo_less (Upstream p, RXID p) (ps_Paths s)\<rparr>"

definition PathSet_GetByUpstream :: "byte list \<Rightarrow> byte list \<Rightarrow> PathSet \<Rightarrow> Path option" where
  "PathSet_GetByUpstream remote rxid s = map_find PathInfo_less (remote, rxid) (ps_Paths s)"

section \<open>The path context\<close>

text \<open>
  The pointers to path sets are indices into the list of path builders, the only path sets. A
  transit hop is not changed once it is in the table, so the table holds the hops themselves.
\<close>

record PathContext =
  pc_AllowTransit :: bool
  pc_TransitPaths :: "(byte list \<times> TransitHop) list"
  pc_OurPaths :: "(byte list \<times> nat) list"
  pc_PathBuilders :: "PathSet list"

definition PathContext_new :: PathContext where
  "PathContext_new = \<lparr>pc_AllowTransit = False, pc_TransitPaths = [], pc_OurPaths = [], pc_PathBuilders = []\<rparr>"

definition AllowTransit :: "PathContext \<Rightarrow> PathContext" where
  "AllowTransit ctx = ctx\<lparr>pc_AllowTransit := True\<rparr>"

definition HopIsUs :: "path_env \<Rightarrow> byte list \<Rightarrow> bool" where
  "HopIsUs E k \<longleftrightarrow> memcmp k (pv_pubkey E) = 0"

text \<open>The version of the message is not initialised; \<open>BEncode\<close> does not write it. It is 0 here.\<close>

definition ForwardLRCM :: "byte list \<Rightarrow> byte list list \<Rightarrow> bool \<times> path_event list" where
  "ForwardLRCM nextHop frames =
     (True, [RouterSend nextHop (LR_Commit \<lparr>lrcm_remote = replicate 32 0, lrcm_version = 0, lrcm_frames = frames\<rparr>)])"

definition MapGet ::
  "('v \<Rightarrow> bool) \<Rightarrow> ('v \<Rightarrow> 'r option) \<Rightarrow> byte list \<Rightarrow> (byte list \<times> 'v) list \<Rightarrow> 'r option" where
  "MapGet check get k m =
     (case filter (\<lambda>x. check (snd x)) (equal_range AlignedBuffer_less k m) of
        [] \<Rightarrow> None | x # _ \<Rightarrow> get (snd x))"

definition MapHas :: "('v \<Rightarrow> bool) \<Rightarrow> byte list \<Rightarrow> (byte list \<times> 'v) list \<Rightarrow> bool" where
  "MapHas check k m \<longleftrightarrow> list_ex (\<lambda>x. check (snd x)) (equal_range AlignedBuffer_less k m)"

definition AddOwnPath :: "nat \<Rightarrow> Path \<Rightarrow> PathContext \<Rightarrow> PathContext" where
  "AddOwnPath i path ctx = ctx\<lparr>
     pc_PathBuilders := (pc_PathBuilders ctx)[i := AddPath path (pc_PathBuilders ctx ! i)],
     pc_OurPaths := map_emplace AlignedBuffer_less (RXID path) i
       (map_emplace AlignedBuffer_less (TXID path) i (pc_OurPaths ctx))\<rparr>"

definition HasTransitHop :: "TransitHopInfo \<Rightarrow> PathContext \<Rightarrow> bool" where
  "HasTransitHop info ctx =
     MapHas (\<lambda>hop. TransitHopInfo_eq info (th_info hop)) (ti_txID info) (pc_TransitPaths ctx)"

text \<open>The hop handler found: the path of a path set, or a transit hop.\<close>

datatype IHopHandler = OwnPath nat Path | Transit TransitHop

definition GetByUpstream :: "byte list \<Rightarrow> byte list \<Rightarrow> PathContext \<Rightarrow> IHopHandler option" where
  "GetByUpstream remote pid ctx =
     (case MapGet (\<lambda>_. True)
         (\<lambda>i. map_option (OwnPath i) (PathSet_GetByUpstream remote pid (pc_PathBuilders ctx ! i)))
         pid (pc_OurPaths ctx) of
        Some own \<Rightarrow> Some own
      | None \<Rightarrow> MapGet (\<lambda>hop. AlignedBuffer_eq (ti_upstream (th_info hop)) remote) (\<lambda>h. Some (Transit h))
          pid (pc_TransitPaths ctx))"

definition GetByDownstream :: "byte list \<Rightarrow> byte list \<Rightarrow> PathContext \<Rightarrow> TransitHop option" where
  "GetByDownstream remote pid ctx =
     MapGet (\<lambda>hop. AlignedBuffer_eq (ti_downstream (th_info hop)) remote) Some pid (pc_TransitPaths ctx)"

definition PutTransitHop :: "TransitHop \<Rightarrow> PathContext \<Rightarrow> PathContext" where
  "PutTransitHop hop ctx = ctx\<lparr>pc_TransitPaths :=
     multimap_emplace AlignedBuffer_less (ti_rxID (th_info hop)) hop
       (multimap_emplace AlignedBuffer_less (ti_txID (th_info hop)) hop (pc_TransitPaths ctx))\<rparr>"

definition ExpirePaths :: "u64 \<Rightarrow> PathContext \<Rightarrow> PathContext" where
  "ExpirePaths now ctx =
     (let removePaths = filter (TransitHop_Expired now) (map snd (pc_TransitPaths ctx))
      in ctx\<lparr>pc_TransitPaths := fold (\<lambda>p m. multimap_erase AlignedBuffer_less (ti_rxID (th_info p))
             (multimap_erase AlignedBuffer_less (ti_txID (th_info p)) m)) removePaths (pc_TransitPaths ctx),
           pc_PathBuilders := map (PathSet_ExpirePaths now) (pc_PathBuilders ctx)\<rparr>)"

text \<open>The builders that \<open>BuildPaths\<close> lets build one more path.\<close>

definition BuildPaths :: "PathContext \<Rightarrow> nat list" where
  "BuildPaths ctx = filter (\<lambda>i. ShouldBuildMore (pc_PathBuilders ctx ! i)) [0..<length (pc_PathBuilders ctx)]"

definition AddPathBuilder :: "PathSet \<Rightarrow> PathContext \<Rightarrow> PathContext" where
  "AddPathBuilder s ctx = ctx\<lparr>pc_PathBuilders := pc_PathBuilders ctx @ [s]\<rparr>"

section \<open>Relayed messages\<close>

definition HandleDownstream ::
  "path_env \<Rightarrow> IHopHandler \<Rightarrow> byte list \<Rightarrow> byte list \<Rightarrow> PathContext \<Rightarrow>
    (bool \<times> PathContext \<times> path_event list) option" where
  "HandleDownstream E h X Y ctx =
     (case h of
        Transit hop \<Rightarrow> (let (ok, evs) = TransitHop_HandleDownstream E hop X Y in Some (ok, ctx, evs))
      | OwnPath i p \<Rightarrow> do {
          (ok, p', evs) \<leftarrow> Path_HandleDownstream E X Y p;
          let s = pc_PathBuilders ctx ! i;
          let s = s\<lparr>ps_Paths := map_put PathInfo_less (Upstream p, RXID p) p' (ps_Paths s)\<rparr>;
          Some (ok, ctx\<lparr>pc_PathBuilders := (pc_PathBuilders ctx)[i := s]\<rparr>, evs)
        })"

definition RelayUpstreamMessage_HandleMessage ::
  "path_env \<Rightarrow> RelayMessage \<Rightarrow> PathContext \<Rightarrow> (bool \<times> path_event list) option" where
  "RelayUpstreamMessage_HandleMessage E msg ctx =
     (case GetByDownstream (rm_remote msg) (rm_pathid msg) ctx of
        None \<Rightarrow> Some (False, [])
      | Some hop \<Rightarrow> TransitHop_HandleUpstream E hop (rm_X msg) (rm_Y msg))"

definition RelayDownstreamMessage_HandleMessage ::
  "path_env \<Rightarrow> RelayMessage \<Rightarrow> PathContext \<Rightarrow> (bool \<times> PathContext \<times> path_event list) option" where
  "RelayDownstreamMessage_HandleMessage E msg ctx =
     (case GetByUpstream (rm_remote msg) (rm_pathid msg) ctx of
        None \<Rightarrow> Some (False, ctx, [])
      | Some h \<Rightarrow> HandleDownstream E h (rm_X msg) (rm_Y msg) ctx)"

text \<open>A path transfer: the payload goes down the path whose lower end is this router.\<close>

definition TransitHop_HandlePathTransferMessage ::
  "path_env \<Rightarrow> byte list \<Rightarrow> byte list \<Rightarrow> byte list \<Rightarrow> PathContext \<Rightarrow> bool \<times> path_event list" where
  "TransitHop_HandlePathTransferMessage E P T Y ctx =
     (case GetByDownstream (pv_pubkey E) P ctx of
        None \<Rightarrow> (False, [])
      | Some hop \<Rightarrow> TransitHop_HandleDownstream E hop T Y)"

section \<open>Comparison of identities\<close>

lemma AlignedBuffer_eq_iff: "length a = length b \<Longrightarrow> AlignedBuffer_eq a b \<longleftrightarrow> a = b"
  by (simp add: AlignedBuffer_eq_def memcmp_eq_0_iff)

lemma AlignedBuffer_eq_refl [simp]: "AlignedBuffer_eq a a"
  by (simp add: AlignedBuffer_eq_iff)

end
