(* ===== verification/Onion.thy ===== *)
theory Onion
  imports Path
begin

text \<open>
  Traffic on a built path. A path is \<open>wired\<close> when every router on it has the transit hop that belongs
  to the builder's entry for it; then what the builder sends reaches the last router as it was
  before the layers were put on, and what the last router sends reaches the builder. The
  network hands a message to the router it is addressed to and adds the sender.
\<close>

section \<open>Layers\<close>

text \<open>
  libsodium documents \<open>crypto_stream_xchacha20_xor\<close> as the exclusive or of the message and a key
  stream that depends on nonce and key.
\<close>

definition xor_stream :: "sodium \<Rightarrow> bool" where
  "xor_stream S \<longleftrightarrow> (\<forall>n k. length n = 24 \<longrightarrow> length k = 32 \<longrightarrow>
     (\<exists>ks :: nat \<Rightarrow> byte. \<forall>m. stream_xchacha20_xor S m n k =
        (0, map (\<lambda>i. xor (m ! i) (ks i)) [0..<length m])))"

lemma enc_stream:
  assumes "xor_stream S" "24 \<le> length Y" "length k = 32"
  obtains ks :: "nat \<Rightarrow> byte" where "\<And>m. enc S k Y m = map (\<lambda>i. xor (m ! i) (ks i)) [0..<length m]"
proof -
  have "length (take 24 Y) = 24" "length (take 32 k) = 32" using assms by simp_all
  with assms(1) obtain ks :: "nat \<Rightarrow> byte" where
    "\<forall>m. stream_xchacha20_xor S m (take 24 Y) (take 32 k) = (0, map (\<lambda>i. xor (m ! i) (ks i)) [0..<length m])"
    unfolding xor_stream_def by blast
  then have "enc S k Y m = map (\<lambda>i. xor (m ! i) (ks i)) [0..<length m]" for m
    by (simp add: enc_def sodium_xchacha20_def)
  with that show ?thesis .
qed

lemma length_enc_stream:
  "xor_stream S \<Longrightarrow> 24 \<le> length Y \<Longrightarrow> length k = 32 \<Longrightarrow> length (enc S k Y m) = length m"
  by (rule enc_stream [of S Y k]) simp_all

lemma enc_self:
  assumes "xor_stream S" "24 \<le> length Y" "length k = 32"
  shows "enc S k Y (enc S k Y m) = m"
  using assms by (rule enc_stream) (auto simp: xor.assoc intro: nth_equalityI)

lemma enc_commute:
  assumes "xor_stream S" "24 \<le> length Y" "length k = 32" "length k' = 32"
  shows "enc S k Y (enc S k' Y m) = enc S k' Y (enc S k Y m)"
proof (rule enc_stream [OF assms(1-3)])
  fix ks :: "nat \<Rightarrow> byte" assume ks: "\<And>m. enc S k Y m = map (\<lambda>i. xor (m ! i) (ks i)) [0..<length m]"
  show ?thesis
    using assms(1,2,4) by (rule enc_stream) (simp add: ks xor.assoc xor.commute [of "ks _"])
qed

text \<open>What onion routing needs of its cipher, for the keys \<open>good k\<close>.\<close>

locale layer_cipher =
  fixes crypt :: "'k \<Rightarrow> 'm \<Rightarrow> 'm" and good :: "'k \<Rightarrow> bool"
  assumes self: "good k \<Longrightarrow> crypt k (crypt k m) = m"
    and commute: "good k \<Longrightarrow> good k' \<Longrightarrow> crypt k (crypt k' m) = crypt k' (crypt k m)"
begin

lemma fold_commute:
  "list_all good ks \<Longrightarrow> good k \<Longrightarrow> fold crypt ks (crypt k m) = crypt k (fold crypt ks m)"
proof (induction ks arbitrary: m)
  case (Cons a ks)
  then have "crypt a (crypt k m) = crypt k (crypt a m)" by (intro commute) simp_all
  with Cons show ?case by simp
qed simp

lemma peel: "list_all good (k # ks) \<Longrightarrow> crypt k (fold crypt (k # ks) m) = fold crypt ks m"
  by (simp add: fold_commute self)

lemma unwrap: "list_all good ks \<Longrightarrow> fold crypt ks (fold crypt (rev ks) m) = m"
  by (induction ks) (simp_all add: self)

end

interpretation layer: layer_cipher "\<lambda>k. enc S k Y" "\<lambda>k. xor_stream S \<and> 24 \<le> length Y \<and> length k = 32" for S Y
  by unfold_locales (auto intro: enc_self enc_commute)

abbreviation layers :: "sodium \<Rightarrow> byte list \<Rightarrow> byte list list \<Rightarrow> byte list \<Rightarrow> byte list" where
  "layers S Y ks \<equiv> fold (\<lambda>k. enc S k Y) ks"

definition keys_ok :: "PathHopConfig list \<Rightarrow> bool" where
  "keys_ok hs \<longleftrightarrow> list_all (\<lambda>h. length (hc_shared h) = 32) hs"

lemma keys_ok_Cons [simp]: "keys_ok (h # hs) \<longleftrightarrow> length (hc_shared h) = 32 \<and> keys_ok hs"
  by (simp add: keys_ok_def)

lemma crypt_hops_layers: "crypt_hops S hs Y m = layers S Y (map hc_shared hs) m"
  by (simp add: crypt_hops_def enc_def [abs_def] fold_map comp_def)

lemma keys_ok_good:
  "xor_stream S \<Longrightarrow> 24 \<le> length Y \<Longrightarrow> keys_ok hs \<Longrightarrow>
    list_all (\<lambda>k. xor_stream S \<and> 24 \<le> length Y \<and> length k = 32) (map hc_shared hs)"
  by (simp add: keys_ok_def list_all_iff)

section \<open>Wired paths\<close>

text \<open>The router behind a hop: the next one, or the last one itself.\<close>

definition next_id :: "PathHopConfig \<Rightarrow> PathHopConfig list \<Rightarrow> byte list" where
  "next_id hc hs = rc_pubkey (hc_router (case hs of [] \<Rightarrow> hc | h # _ \<Rightarrow> h))"

definition hop_for :: "byte list \<Rightarrow> PathHopConfig \<Rightarrow> PathHopConfig list \<Rightarrow> TransitHop \<Rightarrow> bool" where
  "hop_for prev hc hs hop \<longleftrightarrow> th_pathKey hop = hc_shared hc \<and> th_info hop =
     \<lparr>ti_txID = hc_txID hc, ti_rxID = hc_rxID hc, ti_upstream = next_id hc hs, ti_downstream = prev\<rparr>"

text \<open>
  \<open>prev\<close> is the router before the first hop and \<open>pid\<close> the path id it sends with. A router other than
  the last has a neighbour with another identity.
\<close>

fun wired :: "sodium \<Rightarrow> byte list \<Rightarrow> byte list \<Rightarrow> PathHopConfig list \<Rightarrow> (path_env \<times> PathContext) list \<Rightarrow> bool" where
  "wired S prev pid [] ns \<longleftrightarrow> ns = []"
| "wired S prev pid (hc # hs) ns \<longleftrightarrow>
     (\<exists>E ctx ns' hop. ns = (E, ctx) # ns' \<and> pv_sodium E = S \<and> length (pv_pubkey E) = 32 \<and>
        pv_pubkey E = rc_pubkey (hc_router hc) \<and> (hs \<noteq> [] \<longrightarrow> next_id hc hs \<noteq> pv_pubkey E) \<and>
        hop_for prev hc hs hop \<and> GetByDownstream prev pid ctx = Some hop \<and>
        (hs \<noteq> [] \<longrightarrow> hc_txID hc = hc_rxID (hd hs) \<and>
           GetByUpstream (next_id hc hs) (hc_txID hc) ctx = Some (Transit hop)) \<and>
        wired S (pv_pubkey E) (hc_txID hc) hs ns')"

text \<open>A message on its way up: every router it is addressed to handles it and sends on.\<close>

fun carry_up ::
  "(path_env \<times> PathContext) list \<Rightarrow> byte list \<Rightarrow> path_event list \<Rightarrow> (bool \<times> path_event list) option" where
  "carry_up [] sender evs = Some (True, evs)"
| "carry_up ((E, ctx) # ns) sender evs =
     (case evs of
        [RouterSend to (RelayUpstream m)] \<Rightarrow>
          if to = pv_pubkey E then do {
            (ok, evs) \<leftarrow> RelayUpstreamMessage_HandleMessage E (m\<lparr>rm_remote := sender\<rparr>) ctx;
            if ok then carry_up ns (pv_pubkey E) evs else Some (False, evs)
          }
          else None
      | _ \<Rightarrow> None)"

text \<open>And down: the routers in the order the message meets them.\<close>

fun carry_down ::
  "(path_env \<times> PathContext) list \<Rightarrow> byte list \<Rightarrow> path_event list \<Rightarrow> path_event list option" where
  "carry_down [] sender evs = Some evs"
| "carry_down ((E, ctx) # ns) sender evs =
     (case evs of
        [RouterSend to (RelayDownstream m)] \<Rightarrow>
          if to = pv_pubkey E then do {
            (ok, ctx', evs) \<leftarrow> RelayDownstreamMessage_HandleMessage E (m\<lparr>rm_remote := sender\<rparr>) ctx;
            if ok then carry_down ns (pv_pubkey E) evs else None
          }
          else None
      | _ \<Rightarrow> None)"

definition ids_ok :: "PathHopConfig list \<Rightarrow> bool" where
  "ids_ok hs \<longleftrightarrow> list_all (\<lambda>h. length (rc_pubkey (hc_router h)) = 32) hs"

lemma up_relayed:
  assumes "hop_for prev hc hs hop" "GetByDownstream prev pid ctx = Some hop" "hs \<noteq> []"
    and "length (next_id hc hs) = length (pv_pubkey E)" "next_id hc hs \<noteq> pv_pubkey E"
  shows "RelayUpstreamMessage_HandleMessage E \<lparr>rm_remote = prev, rm_version = 0, rm_pathid = pid, rm_X = X,
      rm_Y = Y\<rparr> ctx = Some (True, [RouterSend (next_id hc hs)
        (RelayUpstream (new_relay_message (hc_txID hc) (enc (pv_sodium E) (hc_shared hc) Y X) Y))])"
  using assms by (simp add: RelayUpstreamMessage_HandleMessage_def TransitHop_HandleUpstream_def hop_for_def
      AlignedBuffer_eq_iff enc_def Let_def)

lemma up_arrives:
  assumes "hop_for prev hc [] hop" "GetByDownstream prev pid ctx = Some hop" "rc_pubkey (hc_router hc) = pv_pubkey E"
    and "enc (pv_sodium E) (hc_shared hc) Y X = routing_bytes msg" "routing_valid msg"
  shows "RelayUpstreamMessage_HandleMessage E \<lparr>rm_remote = prev, rm_version = 0, rm_pathid = pid, rm_X = X,
      rm_Y = Y\<rparr> ctx = TransitHop_handler E hop msg []"
  using assms by (simp add: RelayUpstreamMessage_HandleMessage_def TransitHop_HandleUpstream_def hop_for_def
      next_id_def enc_def parse_routing)

text \<open>The router before the last one.\<close>

definition before_last :: "byte list \<Rightarrow> PathHopConfig list \<Rightarrow> byte list" where
  "before_last prev hs = last (prev # map (\<lambda>h. rc_pubkey (hc_router h)) (butlast hs))"

lemma before_last_simps [simp]:
  "before_last prev [h] = prev"
  "hs \<noteq> [] \<Longrightarrow> before_last prev (h # hs) = before_last (rc_pubkey (hc_router h)) hs"
  by (auto simp: before_last_def)

lemma carry_up_wired:
  assumes S: "xor_stream S" "24 \<le> length Y" and msg: "routing_valid msg"
    and "wired S prev pid hs ns" "hs \<noteq> []" "keys_ok hs"
  shows "\<exists>hop. hop_for (before_last prev hs) (last hs) [] hop \<and>
    carry_up ns prev [RouterSend (rc_pubkey (hc_router (hd hs))) (RelayUpstream (new_relay_message pid
      (crypt_hops S hs Y (routing_bytes msg)) Y))] = TransitHop_handler (fst (last ns)) hop msg []"
  using assms(4-)
proof (induction hs arbitrary: prev pid ns)
  case (Cons hc hs)
  from Cons.prems(1) obtain E ctx ns' hop where n: "ns = (E, ctx) # ns'" "pv_sodium E = S"
      "length (pv_pubkey E) = 32" "pv_pubkey E = rc_pubkey (hc_router hc)"
      "hs \<noteq> [] \<longrightarrow> next_id hc hs \<noteq> pv_pubkey E" "hop_for prev hc hs hop"
      "GetByDownstream prev pid ctx = Some hop" "wired S (pv_pubkey E) (hc_txID hc) hs ns'"
    unfolding wired.simps by blast
  have k: "enc S (hc_shared hc) Y (crypt_hops S (hc # hs) Y (routing_bytes msg)) = crypt_hops S hs Y (routing_bytes msg)"
    using layer.peel [OF keys_ok_good [OF S Cons.prems(3), unfolded list.map]]
    by (simp add: crypt_hops_layers)
  show ?case
  proof (cases "hs = []")
    case True
    have "RelayUpstreamMessage_HandleMessage E \<lparr>rm_remote = prev, rm_version = 0, rm_pathid = pid,
        rm_X = crypt_hops S [hc] Y (routing_bytes msg), rm_Y = Y\<rparr> ctx = TransitHop_handler E hop msg []"
      using n True k msg by (intro up_arrives) (simp_all add: crypt_hops_def)
    moreover have "ns' = []" using n(8) True by simp
    moreover have "(r \<bind> (\<lambda>(ok, evs). if ok then carry_up [] x evs else Some (False, evs))) = r"
      for r x by (cases r) auto
    ultimately show ?thesis
      using n True by (intro exI [of _ hop]) (simp add: new_relay_message_def)
  next
    case False
    then obtain h' hs' where hs: "hs = h' # hs'" by (cases hs) auto
    have id': "next_id hc hs = rc_pubkey (hc_router h')" by (simp add: next_id_def hs)
    have "length (next_id hc hs) = 32" using n(8) by (auto simp: hs next_id_def)
    then have "RelayUpstreamMessage_HandleMessage E \<lparr>rm_remote = prev, rm_version = 0, rm_pathid = pid,
        rm_X = crypt_hops S (hc # hs) Y (routing_bytes msg), rm_Y = Y\<rparr> ctx =
      Some (True, [RouterSend (rc_pubkey (hc_router h')) (RelayUpstream (new_relay_message (hc_txID hc)
        (crypt_hops S hs Y (routing_bytes msg)) Y))])"
      using up_relayed [OF n(6,7) False, of E "crypt_hops S (hc # hs) Y (routing_bytes msg)" Y] n(2,3,5) False k
      by (simp add: id')
    moreover have "ns' \<noteq> []" using n(8) hs by auto
    moreover obtain hop' where "hop_for (before_last (pv_pubkey E) hs) (last hs) [] hop'"
      "carry_up ns' (pv_pubkey E) [RouterSend (rc_pubkey (hc_router h')) (RelayUpstream (new_relay_message
        (hc_txID hc) (crypt_hops S hs Y (routing_bytes msg)) Y))] = TransitHop_handler (fst (last ns')) hop' msg []"
      using Cons.IH [OF n(8) False] Cons.prems(3) by (auto simp: hs)
    ultimately show ?thesis
      using n False by (intro exI [of _ hop']) (simp add: new_relay_message_def)
  qed
qed simp

lemma carry_down_append:
  "carry_down (xs @ ys) sender evs = do {
     evs \<leftarrow> carry_down xs sender evs;
     carry_down ys (last (sender # map (\<lambda>n. pv_pubkey (fst n)) xs)) evs
   }"
proof (induction xs arbitrary: sender evs)
  case (Cons x xs)
  show ?case
    by (cases x; cases "xs = []")
      (auto simp: Cons split: list.split path_event.split link_message.split bind_split)
qed simp

lemma last_first:
  assumes "ns \<noteq> []" shows "last (f (last ns) # map f (tl (rev ns))) = f (hd ns)"
proof -
  have "f (last ns) # map f (tl (rev ns)) = map f (rev ns)"
    using assms by (cases ns rule: rev_cases) auto
  then show ?thesis using assms by (simp add: last_map last_rev)
qed

lemma carry_down_wired:
  assumes "wired S prev pid hs ns" "hs \<noteq> []" "hop_for (before_last prev hs) (last hs) [] hop"
  shows "carry_down (tl (rev ns)) (pv_pubkey (fst (last ns)))
      (snd (TransitHop_HandleDownstream (fst (last ns)) hop m Y)) =
    Some [RouterSend prev (RelayDownstream (new_relay_message (hc_rxID (hd hs))
      (layers S Y (rev (map hc_shared hs)) m) Y))]"
  using assms
proof (induction hs arbitrary: prev pid ns)
  case (Cons hc hs)
  from Cons.prems(1) obtain E ctx ns' hop1 where n: "ns = (E, ctx) # ns'" "pv_sodium E = S"
      "length (pv_pubkey E) = 32" "pv_pubkey E = rc_pubkey (hc_router hc)" "hop_for prev hc hs hop1"
      "hs \<noteq> [] \<longrightarrow> hc_txID hc = hc_rxID (hd hs) \<and> GetByUpstream (next_id hc hs) (hc_txID hc) ctx = Some (Transit hop1)"
      "wired S (pv_pubkey E) (hc_txID hc) hs ns'"
    unfolding wired.simps by blast
  show ?case
  proof (cases "hs = []")
    case True
    then show ?thesis
      using n Cons.prems(3) by (simp add: TransitHop_HandleDownstream_def hop_for_def enc_def)
  next
    case False
    have ns': "ns' \<noteq> []" using n(7) False by (cases hs) auto
    have first: "pv_pubkey (fst (hd ns')) = next_id hc hs"
      using n(7) False by (cases hs) (auto simp: next_id_def)
    have up: "GetByUpstream (next_id hc hs) (hc_rxID (hd hs)) ctx = Some (Transit hop1)"
      using n(6) False by metis
    have "tl (rev ns) = tl (rev ns') @ [(E, ctx)]" using n(1) ns' by simp
    moreover have "last ns = last ns'" using n(1) ns' by simp
    moreover have "carry_down (tl (rev ns')) (pv_pubkey (fst (last ns')))
        (snd (TransitHop_HandleDownstream (fst (last ns')) hop m Y)) =
      Some [RouterSend (pv_pubkey E) (RelayDownstream (new_relay_message (hc_rxID (hd hs))
        (layers S Y (rev (map hc_shared hs)) m) Y))]"
      using Cons.IH [OF n(7) False] Cons.prems(3) False n(4) by simp
    moreover have "last (pv_pubkey (fst (last ns')) # map (\<lambda>n. pv_pubkey (fst n)) (tl (rev ns'))) = next_id hc hs"
      using last_first [OF ns', of "\<lambda>n. pv_pubkey (fst n)"] first by simp
    moreover have "carry_down [(E, ctx)] (next_id hc hs) [RouterSend (pv_pubkey E) (RelayDownstream
        (new_relay_message (hc_rxID (hd hs)) X Y))] =
      Some [RouterSend prev (RelayDownstream (new_relay_message (hc_rxID hc) (enc S (hc_shared hc) Y X) Y))]" for X
      using up n(2,4,5) by (simp add: RelayDownstreamMessage_HandleMessage_def HandleDownstream_def
          new_relay_message_def TransitHop_HandleDownstream_def hop_for_def enc_def)
    ultimately show ?thesis by (simp only: carry_down_append Option.bind.bind_lunit) simp
  qed
qed simp

section \<open>From one end of the path to the other\<close>

definition env_ok :: "sodium \<Rightarrow> path_env \<Rightarrow> bool" where
  "env_ok S E \<longleftrightarrow> pv_sodium E = S \<and> length (pv_nonce E) = TUNNONCESIZE \<and>
     length (pv_stack E (MAX_LINK_MSG_SIZE div 2)) = MAX_LINK_MSG_SIZE div 2"

lemma encode_routing:
  assumes "env_ok S E"
  shows "\<exists>b. routing_BEncode msg (StackBuffer (pv_stack E (MAX_LINK_MSG_SIZE div 2))) = Some (True, b) \<and>
    encoded b = routing_bytes msg"
proof -
  have "length (routing_bytes msg) < length (pv_stack E (MAX_LINK_MSG_SIZE div 2))"
    using length_routing_bytes [of msg] assms by (simp add: env_ok_def MAX_LINK_MSG_SIZE_def)
  then show ?thesis by (rule emits_stack [OF exact_emits [OF exact_routing]])
qed

lemma up_handled:
  assumes S: "xor_stream S" "env_ok S E" and msg: "routing_valid msg"
    and w: "wired S us (TXID p) (pa_hops p) ns" "pa_hops p \<noteq> []" "keys_ok (pa_hops p)"
  shows "\<exists>evs hop. Path_SendRoutingMessage E p msg = Some (True, evs) \<and>
    hop_for (before_last us (pa_hops p)) (last (pa_hops p)) [] hop \<and>
    carry_up ns us evs = TransitHop_handler (fst (last ns)) hop msg []"
proof -
  have Y: "24 \<le> length (pv_nonce E)" using S(2) by (simp add: env_ok_def size_defs)
  obtain b where b: "routing_BEncode msg (StackBuffer (pv_stack E (MAX_LINK_MSG_SIZE div 2))) = Some (True, b)"
    "encoded b = routing_bytes msg" using encode_routing [OF S(2)] by blast
  have "Path_SendRoutingMessage E p msg = Some (True, [RouterSend (rc_pubkey (hc_router (hd (pa_hops p))))
      (RelayUpstream (new_relay_message (TXID p) (crypt_hops S (pa_hops p) (pv_nonce E) (routing_bytes msg))
        (pv_nonce E)))])"
    using b S(2) by (simp add: Path_SendRoutingMessage_def Path_HandleUpstream_def Upstream_def env_ok_def)
  with carry_up_wired [OF S(1) Y msg w] show ?thesis by blast
qed

text \<open>What the builder does with a message that came down its path.\<close>

definition path_handles ::
  "path_env \<Rightarrow> nat \<Rightarrow> Path \<Rightarrow> routing_message \<Rightarrow> PathContext \<Rightarrow> (bool \<times> PathContext \<times> path_event list) option" where
  "path_handles E i p msg ctx = do {
     (ok, p', evs) \<leftarrow> Path_handler E msg (p, []);
     let s = pc_PathBuilders ctx ! i;
     let s = s\<lparr>ps_Paths := map_put PathInfo_less (Upstream p, RXID p) p' (ps_Paths s)\<rparr>;
     Some (ok, ctx\<lparr>pc_PathBuilders := (pc_PathBuilders ctx)[i := s]\<rparr>, evs)
   }"

lemma down_handled:
  assumes S: "xor_stream S" "env_ok S (fst (last ns))" "pv_sodium E = S" and msg: "routing_valid msg"
    and w: "wired S us (TXID p) (pa_hops p) ns" "pa_hops p \<noteq> []" "keys_ok (pa_hops p)"
    and own: "GetByUpstream (Upstream p) (RXID p) ctx = Some (OwnPath i p)"
    and hop: "hop_for (before_last us (pa_hops p)) (last (pa_hops p)) [] hop"
  shows "\<exists>evs m. TransitHop_SendRoutingMessage (fst (last ns)) hop msg = Some (True, evs) \<and>
    carry_down (tl (rev ns)) (pv_pubkey (fst (last ns))) evs = Some [RouterSend us (RelayDownstream m)] \<and>
    RelayDownstreamMessage_HandleMessage E (m\<lparr>rm_remote := Upstream p\<rparr>) ctx = path_handles E i p msg ctx"
proof -
  let ?Y = "pv_nonce (fst (last ns))"
  have Y: "24 \<le> length ?Y" using S(2) by (simp add: env_ok_def size_defs)
  obtain b where b: "routing_BEncode msg (StackBuffer (pv_stack (fst (last ns)) (MAX_LINK_MSG_SIZE div 2))) =
      Some (True, b)" "encoded b = routing_bytes msg" using encode_routing [OF S(2)] by blast
  let ?m = "new_relay_message (RXID p) (layers S ?Y (rev (map hc_shared (pa_hops p))) (routing_bytes msg)) ?Y"
  have "TransitHop_SendRoutingMessage (fst (last ns)) hop msg =
      Some (TransitHop_HandleDownstream (fst (last ns)) hop (routing_bytes msg) ?Y)"
    using b by (simp add: TransitHop_SendRoutingMessage_def)
  moreover have "fst (TransitHop_HandleDownstream E h m Y)" for E h m Y
    by (simp add: TransitHop_HandleDownstream_def)
  moreover have "carry_down (tl (rev ns)) (pv_pubkey (fst (last ns)))
      (snd (TransitHop_HandleDownstream (fst (last ns)) hop (routing_bytes msg) ?Y)) =
    Some [RouterSend us (RelayDownstream ?m)]"
    using carry_down_wired [OF w(1,2) hop] by (simp add: RXID_def)
  moreover have "crypt_hops S (pa_hops p) ?Y (rm_X ?m) = routing_bytes msg"
    using layer.unwrap [OF keys_ok_good [OF S(1) Y w(3)]] by (simp add: crypt_hops_layers new_relay_message_def)
  then have "RelayDownstreamMessage_HandleMessage E (?m\<lparr>rm_remote := Upstream p\<rparr>) ctx = path_handles E i p msg ctx"
    using own S(3) parse_routing [OF msg, of "Path_handler E" "(p, [])"]
    by (simp add: RelayDownstreamMessage_HandleMessage_def new_relay_message_def HandleDownstream_def
        Path_HandleDownstream_def Path_HandleRoutingMessage_def path_handles_def)
  ultimately show ?thesis
    by - (rule exI [of _ "snd (TransitHop_HandleDownstream (fst (last ns)) hop (routing_bytes msg) ?Y)"],
        rule exI [of _ ?m], simp add: prod_eq_iff)
qed

section \<open>Properties\<close>

text \<open>
  C2. A routing message that the builder of a path sends reaches the far end: every router on the way
  finds its transit hop, takes off one layer and passes the message on, and the last router gets
  exactly the message the builder sent. What comes out is what its handler does with that message.
\<close>

theorem onion_upstream:
  assumes "xor_stream S" "env_ok S E" "routing_valid msg"
    and "wired S us (TXID p) (pa_hops p) ns" "pa_hops p \<noteq> []" "keys_ok (pa_hops p)"
  shows "\<exists>evs hop. Path_SendRoutingMessage E p msg = Some (True, evs) \<and>
    hop_for (before_last us (pa_hops p)) (last (pa_hops p)) [] hop \<and>
    carry_up ns us evs = TransitHop_handler (fst (last ns)) hop msg []"
  by (rule up_handled [OF assms])

text \<open>A path over two routers.\<close>

definition example_hop_config :: "byte \<Rightarrow> byte \<Rightarrow> byte \<Rightarrow> PathHopConfig" where
  "example_hop_config i tx rx = (PathHopConfig_new (\<lambda>n. replicate n 0))\<lparr>
     hc_router := rc_zero\<lparr>rc_pubkey := replicate 32 i\<rparr>, hc_txID := replicate PATHIDSIZE tx,
     hc_rxID := replicate PATHIDSIZE rx, hc_shared := replicate 32 (3 * i)\<rparr>"

definition example_path :: Path where
  "example_path = \<lparr>pa_hops = [example_hop_config 1 5 4, example_hop_config 2 6 5], pa_buildStarted = 0,
     pa_status = ePathEstablished, pa_Latency = 0, pa_BuiltHook = False,
     pa_LastLatencyTestTime = 20, pa_LastLatencyTestID = 77\<rparr>"

definition example_env :: "byte \<Rightarrow> path_env" where
  "example_env i = \<lparr>pv_sodium = example_sodium, pv_pubkey = replicate 32 i, pv_stack = (\<lambda>n. replicate n 0),
     pv_nonce = replicate 32 7, pv_rand = 9, pv_now = 1000\<rparr>"

definition example_transit :: "byte \<Rightarrow> byte \<Rightarrow> byte \<Rightarrow> byte \<Rightarrow> byte \<Rightarrow> TransitHop" where
  "example_transit i tx rx up down = \<lparr>th_info = \<lparr>ti_txID = replicate PATHIDSIZE tx, ti_rxID = replicate PATHIDSIZE rx,
     ti_upstream = replicate 32 up, ti_downstream = replicate 32 down\<rparr>, th_pathKey = replicate 32 (3 * i),
     th_started = 0, th_lifetime = DEFAULT_PATH_LIFETIME\<rparr>"

definition example_routers :: "(path_env \<times> PathContext) list" where
  "example_routers =
     [(example_env 1, PutTransitHop (example_transit 1 5 4 2 9) PathContext_new),
      (example_env 2, PutTransitHop (example_transit 2 6 5 2 1) PathContext_new)]"

lemma example_xor: "xor_stream example_sodium"
  by (auto simp: xor_stream_def example_sodium_def xor.commute intro!: exI nth_equalityI)

lemma example_env_ok: "env_ok example_sodium (example_env i)"
  by (simp add: env_ok_def example_env_def size_defs)

lemma example_keys_ok: "keys_ok (pa_hops example_path)"
  by (simp add: keys_ok_def example_path_def example_hop_config_def)

lemma example_lookups:
  "GetByDownstream (replicate 32 9) (replicate PATHIDSIZE 5)
     (PutTransitHop (example_transit 1 5 4 2 9) PathContext_new) = Some (example_transit 1 5 4 2 9)"
  "GetByUpstream (replicate 32 2) (replicate PATHIDSIZE 5)
     (PutTransitHop (example_transit 1 5 4 2 9) PathContext_new) = Some (Transit (example_transit 1 5 4 2 9))"
  "GetByDownstream (replicate 32 1) (replicate PATHIDSIZE 5)
     (PutTransitHop (example_transit 2 6 5 2 1) PathContext_new) = Some (example_transit 2 6 5 2 1)"
  by code_simp+

lemma example_wired:
  "wired example_sodium (replicate 32 9) (TXID example_path) (pa_hops example_path) example_routers"
proof -
  have "hop_for (replicate 32 9) (example_hop_config 1 5 4) [example_hop_config 2 6 5] (example_transit 1 5 4 2 9)"
    "hop_for (replicate 32 1) (example_hop_config 2 6 5) [] (example_transit 2 6 5 2 1)"
    by (simp_all add: hop_for_def example_transit_def example_hop_config_def next_id_def)
  then show ?thesis
    using example_lookups
    by (auto simp: example_path_def example_routers_def example_env_def example_hop_config_def TXID_def next_id_def
        replicate_eq_replicate)
qed

theorem onion_upstream_witness:
  "\<exists>evs hop. Path_SendRoutingMessage (example_env 9) example_path (PathLatency \<lparr>pl_T = 77, pl_L = 0\<rparr>) = Some (True, evs) \<and>
    th_pathKey hop = replicate 32 6 \<and>
    carry_up example_routers (replicate 32 9) evs =
      TransitHop_handler (example_env 2) hop (PathLatency \<lparr>pl_T = 77, pl_L = 0\<rparr>) []"
proof -
  have "routing_valid (PathLatency \<lparr>pl_T = 77, pl_L = 0\<rparr>)" "pa_hops example_path \<noteq> []"
    "fst (last example_routers) = example_env 2"
    by (simp_all add: example_path_def example_routers_def)
  then show ?thesis
    using onion_upstream [OF example_xor example_env_ok _ example_wired _ example_keys_ok, of _ 9]
    by (force simp: hop_for_def example_path_def example_hop_config_def)
qed

text \<open>
  C9. What the last router of a path sends comes down to the builder: every router on the way adds
  its layer, and the builder, who finds its own path by the neighbour and the path id, takes all of
  them off and handles exactly the message that was sent.
\<close>

theorem onion_downstream:
  assumes "xor_stream S" "env_ok S (fst (last ns))" "pv_sodium E = S" "routing_valid msg"
    and "wired S us (TXID p) (pa_hops p) ns" "pa_hops p \<noteq> []" "keys_ok (pa_hops p)"
    and "GetByUpstream (Upstream p) (RXID p) ctx = Some (OwnPath i p)"
    and "hop_for (before_last us (pa_hops p)) (last (pa_hops p)) [] hop"
  shows "\<exists>evs m. TransitHop_SendRoutingMessage (fst (last ns)) hop msg = Some (True, evs) \<and>
    carry_down (tl (rev ns)) (pv_pubkey (fst (last ns))) evs = Some [RouterSend us (RelayDownstream m)] \<and>
    RelayDownstreamMessage_HandleMessage E (m\<lparr>rm_remote := Upstream p\<rparr>) ctx = path_handles E i p msg ctx"
  by (rule down_handled [OF assms])

definition example_builder :: PathContext where
  "example_builder = AddOwnPath 0 example_path (AddPathBuilder (PathSet_new 1) PathContext_new)"

lemma example_own: "GetByUpstream (Upstream example_path) (RXID example_path) example_builder = Some (OwnPath 0 example_path)"
  by code_simp

theorem onion_downstream_witness:
  "\<exists>evs m. TransitHop_SendRoutingMessage (example_env 2) (example_transit 2 6 5 2 1)
      (PathLatency \<lparr>pl_T = 0, pl_L = 77\<rparr>) = Some (True, evs) \<and>
    carry_down [hd example_routers] (replicate 32 2) evs = Some [RouterSend (replicate 32 9) (RelayDownstream m)] \<and>
    RelayDownstreamMessage_HandleMessage (example_env 9) (m\<lparr>rm_remote := replicate 32 1\<rparr>) example_builder =
      path_handles (example_env 9) 0 example_path (PathLatency \<lparr>pl_T = 0, pl_L = 77\<rparr>) example_builder"
proof -
  have last: "last example_routers = (example_env 2, PutTransitHop (example_transit 2 6 5 2 1) PathContext_new)"
    "tl (rev example_routers) = [hd example_routers]" "Upstream example_path = replicate 32 1"
    by (simp_all add: example_routers_def example_path_def Upstream_def example_hop_config_def)
  have "hop_for (before_last (replicate 32 9) (pa_hops example_path)) (last (pa_hops example_path)) []
      (example_transit 2 6 5 2 1)" "pa_hops example_path \<noteq> []"
    by (simp_all add: hop_for_def example_path_def example_hop_config_def example_transit_def next_id_def)
  then show ?thesis
    using onion_downstream [OF example_xor _ _ _ example_wired _ example_keys_ok example_own, of "example_env 9"
        "PathLatency \<lparr>pl_T = 0, pl_L = 77\<rparr>" "example_transit 2 6 5 2 1"] example_env_ok [of 2]
    unfolding last fst_conv by (simp add: example_env_def)
qed

text \<open>
  C10. A latency test on a built path: the message with the test's number goes up, the last router
  answers with the number, and the builder accepts the answer and records the time that has passed.
\<close>

theorem latency_measured:
  assumes S: "xor_stream S" "env_ok S E" "env_ok S (fst (last ns))" "pv_sodium E' = S"
    and w: "wired S us (TXID p) (pa_hops p) ns" "pa_hops p \<noteq> []" "keys_ok (pa_hops p)"
    and own: "GetByUpstream (Upstream p) (RXID p) ctx = Some (OwnPath i p)"
    and T: "pa_LastLatencyTestID p \<noteq> -1"
  shows "\<exists>up down m. Path_SendRoutingMessage E p (PathLatency (PathLatencyMessage_new\<lparr>pl_T := pa_LastLatencyTestID p\<rparr>)) =
      Some (True, up) \<and>
    carry_up ns us up = Some (True, down) \<and>
    carry_down (tl (rev ns)) (pv_pubkey (fst (last ns))) down = Some [RouterSend us (RelayDownstream m)] \<and>
    RelayDownstreamMessage_HandleMessage E' (m\<lparr>rm_remote := Upstream p\<rparr>) ctx =
      Some (True, ctx\<lparr>pc_PathBuilders := (pc_PathBuilders ctx)[i := (pc_PathBuilders ctx ! i)\<lparr>ps_Paths :=
        map_put PathInfo_less (Upstream p, RXID p) (p\<lparr>pa_Latency := pv_now E' - pa_LastLatencyTestTime p\<rparr>)
          (ps_Paths (pc_PathBuilders ctx ! i))\<rparr>]\<rparr>, [])"
proof -
  let ?up = "PathLatency (PathLatencyMessage_new\<lparr>pl_T := pa_LastLatencyTestID p\<rparr>)"
  let ?down = "PathLatency (PathLatencyMessage_new\<lparr>pl_L := pa_LastLatencyTestID p\<rparr>)"
  have v: "routing_valid ?up" "routing_valid ?down" using T by (simp_all add: PathLatencyMessage_new_def)
  from up_handled [OF S(1,2) v(1) w] obtain up hop where up: "Path_SendRoutingMessage E p ?up = Some (True, up)"
    "hop_for (before_last us (pa_hops p)) (last (pa_hops p)) [] hop"
    "carry_up ns us up = TransitHop_handler (fst (last ns)) hop ?up []" by blast
  from down_handled [OF S(1,3,4) v(2) w own up(2)] obtain down m where
    down: "TransitHop_SendRoutingMessage (fst (last ns)) hop ?down = Some (True, down)"
    "carry_down (tl (rev ns)) (pv_pubkey (fst (last ns))) down = Some [RouterSend us (RelayDownstream m)]"
    "RelayDownstreamMessage_HandleMessage E' (m\<lparr>rm_remote := Upstream p\<rparr>) ctx = path_handles E' i p ?down ctx"
    by blast
  have "TransitHop_handler (fst (last ns)) hop ?up [] = Some (True, down)"
    using down(1) by (simp add: TransitHop_handler_def TransitHop_HandlePathLatencyMessage_def)
  moreover have "path_handles E' i p ?down ctx =
      Some (True, ctx\<lparr>pc_PathBuilders := (pc_PathBuilders ctx)[i := (pc_PathBuilders ctx ! i)\<lparr>ps_Paths :=
        map_put PathInfo_less (Upstream p, RXID p) (p\<lparr>pa_Latency := pv_now E' - pa_LastLatencyTestTime p\<rparr>)
          (ps_Paths (pc_PathBuilders ctx ! i))\<rparr>]\<rparr>, [])"
    by (simp add: path_handles_def Path_handler_def Path_HandlePathLatencyMessage_def PathLatencyMessage_new_def Let_def)
  ultimately show ?thesis using up down by auto
qed

theorem latency_measured_witness:
  "\<exists>up down m ctx. Path_SendRoutingMessage (example_env 9) example_path
      (PathLatency (PathLatencyMessage_new\<lparr>pl_T := 77\<rparr>)) = Some (True, up) \<and>
    carry_up example_routers (replicate 32 9) up = Some (True, down) \<and>
    carry_down [hd example_routers] (replicate 32 2) down = Some [RouterSend (replicate 32 9) (RelayDownstream m)] \<and>
    RelayDownstreamMessage_HandleMessage (example_env 9) (m\<lparr>rm_remote := replicate 32 1\<rparr>) example_builder =
      Some (True, ctx, []) \<and>
    map (\<lambda>x. pa_Latency (snd x)) (ps_Paths (pc_PathBuilders ctx ! 0)) = [980]"
proof -
  have last: "last example_routers = (example_env 2, PutTransitHop (example_transit 2 6 5 2 1) PathContext_new)"
    "tl (rev example_routers) = [hd example_routers]" "Upstream example_path = replicate 32 1"
    "pv_pubkey (example_env 2) = replicate 32 2" "pa_LastLatencyTestID example_path = 77"
    "pv_now (example_env 9) - pa_LastLatencyTestTime example_path = 980"
    by (simp_all add: example_routers_def example_path_def Upstream_def example_hop_config_def example_env_def)
  have c: "map (\<lambda>x. pa_Latency (snd x)) (map_put PathInfo_less (replicate 32 1, RXID example_path)
      (example_path\<lparr>pa_Latency := 980\<rparr>) (ps_Paths (pc_PathBuilders example_builder ! 0))) = [980]"
    "length (pc_PathBuilders example_builder) = 1" "pa_hops example_path \<noteq> []"
    by code_simp+
  have "pv_sodium (example_env 9) = example_sodium" by (simp add: example_env_def)
  note c = c this
  show ?thesis
    using latency_measured [OF example_xor example_env_ok _ _ example_wired _ example_keys_ok example_own,
        of "example_env 9" 9] example_env_ok [of 2] c
    unfolding last fst_conv by fastforce
qed

end
