(* ===== verification/Path_Build.thy ===== *)
theory Path_Build
  imports Path
begin

text \<open>
  Building paths. The builder makes a key for every hop and seals a record for it in a frame of
  one relay commit message (\<open>udap/pathbuilder.cpp\<close>); a router that gets the message opens the first
  frame, keeps a transit hop and passes the rotated frames on (\<open>udap/relay_commit.cpp\<close>). Jobs on the
  worker threads are functions from the state they see to the job they queue next.
\<close>

section \<open>A router gets a commit message\<close>

definition MAXHOPS :: nat where "MAXHOPS = 8"

text \<open>
  Beyond \<open>path_env\<close>: the secret encryption key of the router, the bytes a randomised frame gets, the
  members the record and a proof of work have before they are decoded, and \<open>floor(log(x))\<close>.
\<close>

record lrcm_env =
  le_env :: path_env
  le_seckey :: "byte list"
  le_junk :: "nat \<Rightarrow> byte list"
  le_record :: LR_CommitRecord
  le_pow :: PoW
  le_log :: "u32 \<Rightarrow> nat"

record LRCMFrameDecrypt =
  fd_frames :: "byte list list"
  fd_downstream :: "byte list"

datatype lrcm_job = LRCM_Deleted | SendPathConfirm TransitHop | SendLRCM "byte list" "byte list list"

definition LR_CommitMessage_HandleMessage ::
  "LR_CommitMessage \<Rightarrow> PathContext \<Rightarrow> bool \<times> LRCMFrameDecrypt option" where
  "LR_CommitMessage_HandleMessage msg ctx =
     (if length (lrcm_frames msg) \<noteq> MAXHOPS then (False, None)
      else if \<not> pc_AllowTransit ctx then (False, None)
      else (True, Some \<lparr>fd_frames = lrcm_frames msg, fd_downstream = lrcm_remote msg\<rparr>))"

text \<open>\<open>lifetime += 1000 * extendedLifetime\<close>, where the product has 32 bits\<close>

definition hop_lifetime :: "lrcm_env \<Rightarrow> LR_CommitRecord \<Rightarrow> u64 option" where
  "hop_lifetime E record =
     (case cr_work record of
        None \<Rightarrow> Some DEFAULT_PATH_LIFETIME
      | Some w \<Rightarrow> do {
          valid \<leftarrow> PoW_IsValid (\<lambda>m. let (ok, h) = sodium_shorthash (pv_sodium (le_env E)) m in if ok then Some h else None)
            (le_log E) (pv_stack (le_env E) 128) (pv_pubkey (le_env E)) w;
          Some (if valid then DEFAULT_PATH_LIFETIME + ucast (1000 * pow_extendedLifetime w)
                else DEFAULT_PATH_LIFETIME)
        })"

definition LRCM_HandleDecrypted ::
  "lrcm_env \<Rightarrow> byte list \<Rightarrow> LRCMFrameDecrypt \<Rightarrow> PathContext \<Rightarrow> (lrcm_job \<times> PathContext) option" where
  "LRCM_HandleDecrypted E frame self ctx = do {
     (ok, record, buf) \<leftarrow> LR_CommitRecord_BDecode (le_pow E) (le_record E)
       ((Encrypted_Buffer frame)\<lparr>b_cur := OverheadSize\<rparr>);
     if \<not> ok then Some (LRCM_Deleted, ctx)
     else do {
       let info = \<lparr>ti_txID = cr_txid record, ti_rxID = cr_rxid record, ti_upstream = cr_nextHop record,
         ti_downstream = fd_downstream self\<rparr>;
       if HasTransitHop info ctx then Some (LRCM_Deleted, ctx)
       else do {
         let (ok, pathKey) = sodium_dh_server (pv_sodium (le_env E)) (pv_stack (le_env E) 32) (cr_commkey record)
           (le_seckey E) (cr_tunnelNonce record);
         if \<not> ok then Some (LRCM_Deleted, ctx)
         else do {
           lifetime \<leftarrow> hop_lifetime E record;
           let hop = \<lparr>th_info = info, th_pathKey = pathKey, th_started = pv_now (le_env E), th_lifetime = lifetime\<rparr>;
           let ctx = PutTransitHop hop ctx;
           let frames = tl (fd_frames self) @ [le_junk E (length frame)];
           Some (if HopIsUs (le_env E) (ti_upstream info) then SendPathConfirm hop
                 else SendLRCM (ti_upstream info) frames, ctx)
         }
       }
     }
   }"

text \<open>The worker opens the first frame in place.\<close>

definition LRCM_Decrypt ::
  "lrcm_env \<Rightarrow> LRCMFrameDecrypt \<Rightarrow> PathContext \<Rightarrow> (lrcm_job \<times> PathContext) option" where
  "LRCM_Decrypt E self ctx = do {
     (ok, frame) \<leftarrow> DecryptInPlace (pv_sodium (le_env E)) (pv_stack (le_env E) 32) (le_seckey E) (hd (fd_frames self));
     if ok then LRCM_HandleDecrypted E frame self ctx else Some (LRCM_Deleted, ctx)
   }"

text \<open>The last step, on the logic thread.\<close>

definition LRCM_finish :: "lrcm_env \<Rightarrow> lrcm_job \<Rightarrow> path_event list option" where
  "LRCM_finish E job =
     (case job of
        LRCM_Deleted \<Rightarrow> Some []
      | SendPathConfirm hop \<Rightarrow> do {
          (ok, evs) \<leftarrow> TransitHop_SendRoutingMessage (le_env E) hop
            (PathConfirm (PathConfirmMessage_of (pv_now (le_env E)) (th_lifetime hop)));
          Some evs
        }
      | SendLRCM nextHop frames \<Rightarrow> Some (snd (ForwardLRCM nextHop frames)))"

section \<open>The builder\<close>

text \<open>The random material of one hop: two key pairs and the two nonces.\<close>

record hop_keys =
  hk_commkey :: "byte list"
  hk_nonce :: "byte list"
  hk_framekey :: "byte list"
  hk_framenonce :: "byte list"

text \<open>How the generation of a key ends: it calls \<open>abort\<close>, gives up, goes on, or is done.\<close>

datatype keygen_step = KeyAbort | KeyFailed | KeyNext | KeyDone

definition GenerateNextKey ::
  "path_env \<Rightarrow> hop_keys \<Rightarrow> nat \<Rightarrow> Path \<Rightarrow> byte list list \<Rightarrow> (keygen_step \<times> Path \<times> byte list list) option" where
  "GenerateNextKey E km idx path frames =
     (if idx \<ge> length (pa_hops path) \<or> idx \<ge> length frames then None
      else do {
        let hop = (pa_hops path ! idx)\<lparr>hc_commkey := hk_commkey km, hc_nonce := hk_nonce km\<rparr>;
        let (ok, shared) = sodium_dh_client (pv_sodium E) (hc_shared hop) (rc_enckey (hc_router hop))
          (hc_commkey hop) (hc_nonce hop);
        if \<not> ok then Some (KeyAbort, path, frames)
        else do {
          let isFarthestHop = (Suc idx = length (pa_hops path));
          let hop = hop\<lparr>hc_shared := shared, hc_upstream :=
            (if isFarthestHop then rc_pubkey (hc_router hop)
             else rc_pubkey (hc_router (pa_hops path ! Suc idx)))\<rparr>;
          let path = path\<lparr>pa_hops := (pa_hops path)[idx := hop]\<rparr>;
          (ok, buf) \<leftarrow> LR_CommitRecord_BEncode \<lparr>cr_commkey = seckey_topublic (hc_commkey hop),
            cr_nextHop = hc_upstream hop, cr_tunnelNonce = hc_nonce hop, cr_txid = hc_txID hop,
            cr_rxid = hc_rxID hop, cr_work = None, cr_version = UDAP_PROTO_VERSION\<rparr>
            ((Encrypted_Buffer (frames ! idx))\<lparr>b_cur := OverheadSize\<rparr>);
          if \<not> ok then Some (KeyFailed, path, frames[idx := b_mem buf])
          else do {
            (ok, frame) \<leftarrow> EncryptInPlace (pv_sodium E) (hk_framenonce km) (pv_stack E 32)
              (hk_framekey km) (rc_enckey (hc_router hop)) (b_mem buf);
            Some (if \<not> ok then KeyFailed else if isFarthestHop then KeyDone else KeyNext,
              path, frames[idx := frame])
          }
        }
      })"

text \<open>The jobs of all hops, one after the other.\<close>

fun GenerateKeys ::
  "path_env \<Rightarrow> hop_keys list \<Rightarrow> nat \<Rightarrow> Path \<Rightarrow> byte list list \<Rightarrow> (keygen_step \<times> Path \<times> byte list list) option" where
  "GenerateKeys E [] idx path frames = Some (KeyNext, path, frames)"
| "GenerateKeys E (km # rest) idx path frames = do {
     (step, path, frames) \<leftarrow> GenerateNextKey E km idx path frames;
     if step = KeyNext then GenerateKeys E rest (Suc idx) path frames else Some (step, path, frames)
   }"

text \<open>\<open>MAXHOPS\<close> frames of random bytes, of the dflt size\<close>

definition AsyncGenerateKeys ::
  "path_env \<Rightarrow> (nat \<Rightarrow> byte list) \<Rightarrow> hop_keys list \<Rightarrow> Path \<Rightarrow> (keygen_step \<times> Path \<times> byte list list) option" where
  "AsyncGenerateKeys E junk km path =
     GenerateKeys E km 0 path (map (\<lambda>i. take (length (EncryptedFrame_new 256)) (junk i)) [0..<MAXHOPS])"

definition pathbuilder_generated_keys ::
  "path_env \<Rightarrow> nat \<Rightarrow> Path \<Rightarrow> byte list list \<Rightarrow> PathContext \<Rightarrow> PathContext \<times> path_event list" where
  "pathbuilder_generated_keys E pathset path frames ctx =
     (let path' = path\<lparr>pa_status := ePathBuilding, pa_buildStarted := pv_now E\<rparr>
      in (AddOwnPath pathset path' ctx,
          [RouterSend (Upstream path) (LR_Commit \<lparr>lrcm_remote = replicate 32 0, lrcm_version = 0,
             lrcm_frames = frames\<rparr>)]))"

text \<open>\<open>selectHop\<close> of the job chooses a router, given the one before it.\<close>

record udap_pathbuild_job =
  bj_context :: "nat option"
  bj_selectHop :: "(udap_rc option \<Rightarrow> nat \<Rightarrow> udap_rc) option"
  bj_numHops :: nat

fun select_hops :: "(udap_rc option \<Rightarrow> nat \<Rightarrow> udap_rc) \<Rightarrow> udap_rc option \<Rightarrow> nat \<Rightarrow> nat \<Rightarrow> udap_rc list" where
  "select_hops select prev idx 0 = []"
| "select_hops select prev idx (Suc n) =
     (let rc = select prev idx in rc # select_hops select (Some rc) (Suc idx) n)"

definition pathbuilder_start_build ::
  "(nat \<Rightarrow> byte list) \<Rightarrow> u64 \<Rightarrow> PathStatus \<Rightarrow> (nat \<Rightarrow> byte list) \<Rightarrow> (nat \<Rightarrow> byte list) \<Rightarrow>
    (udap_rc option \<Rightarrow> nat \<Rightarrow> udap_rc) \<Rightarrow> udap_pathbuild_job \<Rightarrow> Path option" where
  "pathbuilder_start_build mem t st tx rx select job = do {
     path \<leftarrow> Path_new mem t st tx rx (select_hops select None 0 (bj_numHops job));
     Some (path\<lparr>pa_BuiltHook := True\<rparr>)
   }"

definition BuildOne :: "nat \<Rightarrow> udap_pathbuild_job" where
  "BuildOne self = \<lparr>bj_context = Some self, bj_selectHop = None, bj_numHops = 4\<rparr>"

text \<open>\<open>dflt\<close> is \<open>udap_nodedb_select_random_hop\<close>; the result is the selection the queued job uses.\<close>

definition udap_pathbuilder_build_path ::
  "(udap_rc option \<Rightarrow> nat \<Rightarrow> udap_rc) \<Rightarrow> udap_pathbuild_job \<Rightarrow> (udap_rc option \<Rightarrow> nat \<Rightarrow> udap_rc) option" where
  "udap_pathbuilder_build_path dflt job =
     (case bj_context job of
        None \<Rightarrow> None
      | Some _ \<Rightarrow> Some (case bj_selectHop job of None \<Rightarrow> dflt | Some f \<Rightarrow> f))"

end
