(* ===== verification/Path_Tables.thy ===== *)
theory Path_Tables
  imports Path
begin

text \<open>
  The laws of the tables of paths: what a lookup of a transit hop or of an own path finds after an
  insertion or after the expired entries were removed.
\<close>

section \<open>Keys\<close>

abbreviation info_key :: "byte list \<times> byte list \<Rightarrow> bool" where
  "info_key k \<equiv> length (fst k) = 32 \<and> length (snd k) = PATHIDSIZE"

lemma PathInfo_less_iff:
  assumes "info_key x" "info_key y"
  shows "PathInfo_less x y \<longleftrightarrow> AlignedBuffer_less (fst x) (fst y) \<or>
    fst x = fst y \<and> AlignedBuffer_less (snd x) (snd y)"
  using assms bytes.total [of "fst x" 32 "fst y"] bytes.irrefl [of "fst x" 32] by (auto simp: PathInfo_less_def)

interpretation path_info: key_order PathInfo_less info_key
proof
  fix x y z :: "byte list \<times> byte list"
  show "\<not> PathInfo_less x x" if "info_key x"
    using that bytes.irrefl [of "fst x" 32] bytes.irrefl [of "snd x" PATHIDSIZE] by (simp add: PathInfo_less_iff)
  show "PathInfo_less x z" if "info_key x" "info_key y" "info_key z" "PathInfo_less x y" "PathInfo_less y z"
    using that bytes.trans [of "fst x" 32 "fst y" "fst z"] bytes.trans [of "snd x" PATHIDSIZE "snd y" "snd z"]
    by (auto simp: PathInfo_less_iff)
  show "x = y" if "info_key x" "info_key y" "\<not> PathInfo_less x y" "\<not> PathInfo_less y x"
    using that bytes.total [of "fst x" 32 "fst y"] bytes.total [of "snd x" PATHIDSIZE "snd y"]
    by (auto simp: PathInfo_less_iff prod_eq_iff)
qed

section \<open>Transit hops\<close>

definition hop_sizes :: "TransitHop \<Rightarrow> bool" where
  "hop_sizes h \<longleftrightarrow> length (ti_txID (th_info h)) = PATHIDSIZE \<and> length (ti_rxID (th_info h)) = PATHIDSIZE \<and>
     length (ti_upstream (th_info h)) = 32 \<and> length (ti_downstream (th_info h)) = 32"

definition hop_ids :: "TransitHop \<Rightarrow> byte list set" where
  "hop_ids h = {ti_txID (th_info h), ti_rxID (th_info h)}"

text \<open>The invariant: a multimap in which every hop has ids of the right size and is under one of them.\<close>

definition transit_inv :: "PathContext \<Rightarrow> bool" where
  "transit_inv ctx \<longleftrightarrow> bytes.multi PATHIDSIZE (pc_TransitPaths ctx) \<and>
     (\<forall>(k, h) \<in> set (pc_TransitPaths ctx). hop_sizes h \<and> k \<in> hop_ids h)"

lemma transit_inv_new: "transit_inv PathContext_new"
  using bytes.multi_Nil by (auto simp: transit_inv_def PathContext_new_def)

lemma transit_inv_put: "transit_inv ctx \<Longrightarrow> hop_sizes h \<Longrightarrow> transit_inv (PutTransitHop h ctx)"
  unfolding transit_inv_def PutTransitHop_def
  by (auto simp: bytes.emplace_set hop_sizes_def hop_ids_def intro!: bytes.multi_emplace)

text \<open>A lookup takes the first entry of an id that satisfies the check.\<close>

lemma MapGet_first:
  assumes "length k = PATHIDSIZE" "bytes.multi PATHIDSIZE m"
  shows "MapGet check get k m =
    (case List.find (\<lambda>x. fst x = k \<and> check (snd x)) m of None \<Rightarrow> None | Some x \<Rightarrow> get (snd x))"
proof -
  have "filter (\<lambda>x. check (snd x)) (filter (\<lambda>x. fst x = k) m) = filter (\<lambda>x. fst x = k \<and> check (snd x)) m"
    by (simp add: conj_commute)
  moreover have "(case filter P xs of [] \<Rightarrow> None | x # _ \<Rightarrow> f x) = (case List.find P xs of None \<Rightarrow> None | Some x \<Rightarrow> f x)"
    for P and f :: "byte list \<times> 'a \<Rightarrow> 'b option" and xs by (induction xs) auto
  ultimately show ?thesis
    using bytes.range_iff [OF assms] by (simp add: MapGet_def)
qed

lemma MapGet_put:
  assumes "length k = PATHIDSIZE" "length k2 = PATHIDSIZE" "bytes.multi PATHIDSIZE m"
  shows "MapGet check (\<lambda>v. Some (g v)) k2 (multimap_emplace AlignedBuffer_less k v m) =
    (case MapGet check (\<lambda>v. Some (g v)) k2 m of Some r \<Rightarrow> Some r
     | None \<Rightarrow> if k2 = k \<and> check v then Some (g v) else None)"
  using bytes.range_emplace [OF assms] by (auto simp: MapGet_def split: list.split)

lemma get_put_hop:
  assumes "transit_inv ctx" "hop_sizes h" "length k = PATHIDSIZE"
  shows "MapGet check (\<lambda>v. Some (g v)) k (pc_TransitPaths (PutTransitHop h ctx)) =
    (case MapGet check (\<lambda>v. Some (g v)) k (pc_TransitPaths ctx) of Some r \<Rightarrow> Some r
     | None \<Rightarrow> if k \<in> hop_ids h \<and> check h then Some (g h) else None)"
proof -
  let ?m = "multimap_emplace AlignedBuffer_less (ti_txID (th_info h)) h (pc_TransitPaths ctx)"
  have l: "length (ti_txID (th_info h)) = PATHIDSIZE" "length (ti_rxID (th_info h)) = PATHIDSIZE"
    "bytes.multi PATHIDSIZE (pc_TransitPaths ctx)"
    using assms by (simp_all add: hop_sizes_def transit_inv_def)
  note m = bytes.multi_emplace [OF l(1,3), of h]
  show ?thesis
    using MapGet_put [OF l(2) assms(3) m, of check g h] MapGet_put [OF l(1) assms(3) l(3), of check g h]
    by (auto simp: PutTransitHop_def hop_ids_def split: option.split)
qed

lemma get_down_put:
  assumes "transit_inv ctx" "hop_sizes h" "length k = PATHIDSIZE" "length d = 32"
  shows "GetByDownstream d k (PutTransitHop h ctx) =
    (case GetByDownstream d k ctx of Some h' \<Rightarrow> Some h'
     | None \<Rightarrow> if k \<in> hop_ids h \<and> ti_downstream (th_info h) = d then Some h else None)"
  using get_put_hop [OF assms(1-3), of "\<lambda>hop. AlignedBuffer_eq (ti_downstream (th_info hop)) d" "\<lambda>h. h"] assms(2,4)
  by (auto simp: GetByDownstream_def hop_sizes_def AlignedBuffer_eq_iff)

lemma get_up_put:
  assumes "transit_inv ctx" "hop_sizes h" "length k = PATHIDSIZE" "length d = 32"
  shows "GetByUpstream d k (PutTransitHop h ctx) =
    (case GetByUpstream d k ctx of Some r \<Rightarrow> Some r
     | None \<Rightarrow> if k \<in> hop_ids h \<and> ti_upstream (th_info h) = d then Some (Transit h) else None)"
  using get_put_hop [OF assms(1-3), of "\<lambda>hop. AlignedBuffer_eq (ti_upstream (th_info hop)) d" Transit] assms(2,4)
  by (auto simp: GetByUpstream_def hop_sizes_def AlignedBuffer_eq_iff PutTransitHop_def split: option.split)

lemma get_down_in:
  assumes "transit_inv ctx" "length k = PATHIDSIZE" "length d = 32" "GetByDownstream d k ctx = Some h"
  shows "(k, h) \<in> set (pc_TransitPaths ctx)" "k \<in> hop_ids h" "ti_downstream (th_info h) = d"
proof -
  have "List.find (\<lambda>x. fst x = k \<and> AlignedBuffer_eq (ti_downstream (th_info (snd x))) d) (pc_TransitPaths ctx) =
      Some (k, h)"
    using assms unfolding GetByDownstream_def transit_inv_def
    by (auto simp: MapGet_first find_Some_iff split: option.splits)
  then obtain i where "i < length (pc_TransitPaths ctx)" "(k, h) = pc_TransitPaths ctx ! i"
    "AlignedBuffer_eq (ti_downstream (th_info (snd (pc_TransitPaths ctx ! i)))) d"
    unfolding find_Some_iff by blast
  then have f: "(k, h) \<in> set (pc_TransitPaths ctx)" "AlignedBuffer_eq (ti_downstream (th_info h)) d"
    by (metis nth_mem, metis snd_conv)
  moreover have "hop_sizes h \<and> k \<in> hop_ids h" using assms(1) f(1) by (auto simp: transit_inv_def)
  ultimately show "(k, h) \<in> set (pc_TransitPaths ctx)" "k \<in> hop_ids h" "ti_downstream (th_info h) = d"
    using assms(3) by (auto simp: hop_sizes_def AlignedBuffer_eq_iff)
qed

section \<open>Expiry\<close>

lemma erase_all:
  assumes "bytes.multi PATHIDSIZE m" "list_all hop_sizes ps"
  shows "fold (\<lambda>p m. multimap_erase AlignedBuffer_less (ti_rxID (th_info p))
      (multimap_erase AlignedBuffer_less (ti_txID (th_info p)) m)) ps m =
    filter (\<lambda>x. \<forall>p \<in> set ps. fst x \<notin> hop_ids p) m"
  using assms
proof (induction ps arbitrary: m)
  case (Cons p ps)
  let ?m = "multimap_erase AlignedBuffer_less (ti_rxID (th_info p)) (multimap_erase AlignedBuffer_less (ti_txID (th_info p)) m)"
  have m: "bytes.multi PATHIDSIZE ?m" using Cons.prems(1) by (intro bytes.multi_erase)
  have "?m = filter (\<lambda>x. fst x \<notin> hop_ids p) m"
    using Cons.prems bytes.multi_erase [OF Cons.prems(1), of "ti_txID (th_info p)"]
    by (auto simp: bytes.erase_iff [of _ PATHIDSIZE] hop_sizes_def hop_ids_def intro!: filter_cong)
  then show ?case using Cons.IH [OF m] Cons.prems(2) by (auto intro!: filter_cong)
qed simp

lemma expire_eq:
  assumes "transit_inv ctx"
  shows "pc_TransitPaths (ExpirePaths now ctx) = filter (\<lambda>x. \<forall>p \<in> snd ` set (pc_TransitPaths ctx).
    TransitHop_Expired now p \<longrightarrow> fst x \<notin> hop_ids p) (pc_TransitPaths ctx)"
proof -
  have "list_all hop_sizes (filter (TransitHop_Expired now) (map snd (pc_TransitPaths ctx)))"
    using assms by (auto simp: transit_inv_def list_all_iff)
  with assms show ?thesis
    by (auto simp: ExpirePaths_def transit_inv_def erase_all intro!: filter_cong)
qed

lemma transit_inv_expire: "transit_inv ctx \<Longrightarrow> transit_inv (ExpirePaths now ctx)"
proof -
  assume inv: "transit_inv ctx"
  have "bytes.multi PATHIDSIZE (filter P m)" if "bytes.multi PATHIDSIZE m" for P and m :: "(byte list \<times> TransitHop) list"
    using that by (auto simp: bytes.multi_def list_all_iff sorted_wrt_map sorted_wrt_filter)
  then show "transit_inv (ExpirePaths now ctx)"
    using inv expire_eq [OF inv, of now] by (auto simp: transit_inv_def)
qed

section \<open>Properties\<close>

text \<open>
  C18. A transit hop that was put is found under both of its path ids by its neighbour, and nothing else
  changes: a lookup that found a hop before still finds that hop, and a lookup with another id or
  for another neighbour finds what it found before. The invariant of the table is kept.
\<close>

theorem transit_lookup_after_put:
  assumes "transit_inv ctx" "hop_sizes h" "length k = PATHIDSIZE" "length d = 32"
  shows "transit_inv (PutTransitHop h ctx) \<and>
    GetByDownstream d k (PutTransitHop h ctx) =
      (case GetByDownstream d k ctx of Some h' \<Rightarrow> Some h'
       | None \<Rightarrow> if k \<in> hop_ids h \<and> ti_downstream (th_info h) = d then Some h else None) \<and>
    GetByUpstream d k (PutTransitHop h ctx) =
      (case GetByUpstream d k ctx of Some r \<Rightarrow> Some r
       | None \<Rightarrow> if k \<in> hop_ids h \<and> ti_upstream (th_info h) = d then Some (Transit h) else None)"
  using transit_inv_put [OF assms(1,2)] get_down_put [OF assms] get_up_put [OF assms] by blast

definition example_hop :: "byte \<Rightarrow> byte \<Rightarrow> byte \<Rightarrow> byte \<Rightarrow> u64 \<Rightarrow> TransitHop" where
  "example_hop tx rx up down t = \<lparr>th_info = \<lparr>ti_txID = replicate PATHIDSIZE tx, ti_rxID = replicate PATHIDSIZE rx,
     ti_upstream = replicate 32 up, ti_downstream = replicate 32 down\<rparr>, th_pathKey = replicate 32 up,
     th_started = t, th_lifetime = DEFAULT_PATH_LIFETIME\<rparr>"

lemma example_hop_sizes: "hop_sizes (example_hop tx rx up down t)"
  by (simp add: hop_sizes_def example_hop_def)

theorem transit_lookup_after_put_witness:
  "GetByDownstream (replicate 32 3) (replicate PATHIDSIZE 1) (PutTransitHop (example_hop 1 2 4 3 0) PathContext_new) =
    Some (example_hop 1 2 4 3 0)"
  using transit_lookup_after_put [OF transit_inv_new example_hop_sizes, of "replicate PATHIDSIZE 1" "replicate 32 3"
      1 2 4 3 0]
  by (simp add: GetByDownstream_def PathContext_new_def MapGet_def equal_range_def hop_ids_def example_hop_def)

text \<open>
  C19. \<open>ExpirePaths\<close> keeps exactly the entries whose path id is no id of an expired hop, in their order. In
  particular no expired hop is left, and the invariant is kept.
\<close>

theorem expire_exact:
  assumes "transit_inv ctx"
  shows "transit_inv (ExpirePaths now ctx) \<and>
    pc_TransitPaths (ExpirePaths now ctx) = filter (\<lambda>x. \<forall>p \<in> snd ` set (pc_TransitPaths ctx).
      TransitHop_Expired now p \<longrightarrow> fst x \<notin> hop_ids p) (pc_TransitPaths ctx) \<and>
    (\<forall>(k, h) \<in> set (pc_TransitPaths (ExpirePaths now ctx)). \<not> TransitHop_Expired now h)"
  using assms transit_inv_expire [OF assms] by (fastforce simp: expire_eq transit_inv_def)

theorem expire_exact_witness:
  "pc_TransitPaths (ExpirePaths 700000 (PutTransitHop (example_hop 1 2 4 3 0) PathContext_new)) = []"
  using expire_exact [OF transit_inv_put [OF transit_inv_new example_hop_sizes], of 700000 1 2 4 3 0]
  by (simp add: PutTransitHop_def PathContext_new_def example_hop_def hop_ids_def TransitHop_Expired_def
      DEFAULT_PATH_LIFETIME_def)

text \<open>
  Path ids are chosen by the builders of the paths, and two builders may choose the same one: the
  table is a multimap for that reason. But when one of two hops with a common id expires,
  \<open>erase\<close> with the id as key also removes the other: a path that has not expired is not found any more.
\<close>

theorem expire_takes_others:
  assumes "transit_inv ctx" "(k, old) \<in> set (pc_TransitPaths ctx)" "TransitHop_Expired now old"
    and "k \<in> hop_ids old" "length d = 32"
  shows "GetByDownstream d k (ExpirePaths now ctx) = None"
proof (rule ccontr)
  assume "GetByDownstream d k (ExpirePaths now ctx) \<noteq> None"
  then obtain h where h: "GetByDownstream d k (ExpirePaths now ctx) = Some h" by auto
  have "length k = PATHIDSIZE" using assms(1,2,4) by (fastforce simp: transit_inv_def hop_sizes_def hop_ids_def)
  from get_down_in(1) [OF transit_inv_expire [OF assms(1)] this assms(5) h]
  show False using assms by (force simp: expire_eq)
qed

theorem expire_takes_others_witness:
  "let ctx = PutTransitHop (example_hop 1 5 4 6 700000) (PutTransitHop (example_hop 1 2 4 3 0) PathContext_new) in
   \<not> TransitHop_Expired 700000 (example_hop 1 5 4 6 700000) \<and>
   GetByDownstream (replicate 32 6) (replicate PATHIDSIZE 1) (ExpirePaths 700000 ctx) = None"
proof -
  let ?c = "PutTransitHop (example_hop 1 5 4 6 700000) (PutTransitHop (example_hop 1 2 4 3 0) PathContext_new)"
  have "transit_inv ?c" by (intro transit_inv_put transit_inv_new example_hop_sizes)
  moreover have "(replicate PATHIDSIZE 1, example_hop 1 2 4 3 0) \<in> set (pc_TransitPaths ?c)"
    by (simp add: PutTransitHop_def bytes.emplace_set, simp add: example_hop_def)
  moreover have "TransitHop_Expired 700000 (example_hop 1 2 4 3 0)"
    by (simp add: TransitHop_Expired_def example_hop_def DEFAULT_PATH_LIFETIME_def)
  ultimately have "GetByDownstream (replicate 32 6) (replicate PATHIDSIZE 1) (ExpirePaths 700000 ?c) = None"
    by (rule expire_takes_others) (simp_all add: hop_ids_def example_hop_def)
  then show ?thesis by (simp add: TransitHop_Expired_def example_hop_def DEFAULT_PATH_LIFETIME_def)
qed

text \<open>
  C20. A relayed message is accepted only from the neighbour the path was built through: if an upstream
  message has any effect, its path id is an id of a transit hop whose downstream neighbour is the
  sender, and it is opened with the key of that hop and goes to that hop's upstream neighbour.
\<close>

theorem relay_only_from_neighbour:
  assumes "transit_inv ctx" "length (rm_pathid msg) = PATHIDSIZE" "length (rm_remote msg) = 32"
    and "RelayUpstreamMessage_HandleMessage E msg ctx \<noteq> Some (False, [])"
  shows "\<exists>h. (rm_pathid msg, h) \<in> set (pc_TransitPaths ctx) \<and> rm_pathid msg \<in> hop_ids h \<and>
    ti_downstream (th_info h) = rm_remote msg \<and>
    RelayUpstreamMessage_HandleMessage E msg ctx = TransitHop_HandleUpstream E h (rm_X msg) (rm_Y msg)"
proof -
  obtain h where h: "GetByDownstream (rm_remote msg) (rm_pathid msg) ctx = Some h"
    using assms(4) by (auto simp: RelayUpstreamMessage_HandleMessage_def split: option.splits)
  with get_down_in [OF assms(1-3) h] show ?thesis
    by (auto simp: RelayUpstreamMessage_HandleMessage_def)
qed

definition example_path_env :: "byte \<Rightarrow> path_env" where
  "example_path_env i = \<lparr>pv_sodium = example_sodium, pv_pubkey = replicate 32 i, pv_stack = (\<lambda>n. replicate n 0),
     pv_nonce = replicate 32 7, pv_rand = 9, pv_now = 1000\<rparr>"

theorem relay_only_from_neighbour_witness:
  "\<exists>h. (replicate PATHIDSIZE 1, h) \<in> set (pc_TransitPaths (PutTransitHop (example_hop 1 2 4 3 0) PathContext_new)) \<and>
    ti_downstream (th_info h) = replicate 32 3"
proof -
  let ?ctx = "PutTransitHop (example_hop 1 2 4 3 0) PathContext_new"
  let ?m = "\<lparr>rm_remote = replicate 32 3, rm_version = 0, rm_pathid = replicate PATHIDSIZE 1, rm_X = [1, 2], rm_Y = replicate 32 0\<rparr>"
  have "RelayUpstreamMessage_HandleMessage (example_path_env 8) ?m ?ctx \<noteq> Some (False, [])" by code_simp
  from relay_only_from_neighbour [OF transit_inv_put [OF transit_inv_new example_hop_sizes] _ _ this]
  show ?thesis by auto
qed

section \<open>Order and hash of hops\<close>

definition TransitHopInfo_less :: "TransitHopInfo \<Rightarrow> TransitHopInfo \<Rightarrow> bool" where
  "TransitHopInfo_less a b \<longleftrightarrow> AlignedBuffer_less (ti_txID a) (ti_txID b) \<or> AlignedBuffer_less (ti_rxID a) (ti_rxID b) \<or>
     AlignedBuffer_less (ti_upstream a) (ti_upstream b) \<or> AlignedBuffer_less (ti_downstream a) (ti_downstream b)"

text \<open>A \<open>size_t\<close> of the first eight bytes\<close>

definition first_word :: "byte list \<Rightarrow> u64" where
  "first_word bs = of_nat (horner_sum unat 256 (take 8 bs))"

definition TransitHopInfo_Hash :: "TransitHopInfo \<Rightarrow> u64" where
  "TransitHopInfo_Hash a =
     (let idx0 = first_word (ti_upstream a); idx1 = first_word (ti_downstream a); idx2 = first_word (ti_txID a)
      in xor (xor idx0 idx1) idx2)"

definition PathIDHash :: "byte list \<Rightarrow> u64" where
  "PathIDHash a = first_word a"

lemma aligned_eqD: "length a = length b \<Longrightarrow> AlignedBuffer_eq a b \<Longrightarrow> a = b"
  by (simp add: AlignedBuffer_eq_def memcmp_eq_0_iff)

text \<open>
  The hash agrees with the equality of hops. The order does not: of two hops each can be less than the other, so a table ordered by it would be
  undefined (the program has none).
\<close>

theorem hop_hash_respects_equality:
  assumes "TransitHopInfo_eq a b" "length (ti_txID a) = length (ti_txID b)" "length (ti_upstream a) = length (ti_upstream b)"
    "length (ti_downstream a) = length (ti_downstream b)"
  shows "TransitHopInfo_Hash a = TransitHopInfo_Hash b"
  using assms aligned_eqD [of "ti_txID a" "ti_txID b"] aligned_eqD [of "ti_upstream a" "ti_upstream b"] aligned_eqD [of "ti_downstream a" "ti_downstream b"]
  by (simp add: TransitHopInfo_eq_def TransitHopInfo_Hash_def)

theorem hop_hash_respects_equality_witness:
  "TransitHopInfo_Hash \<lparr>ti_txID = [1], ti_rxID = [2], ti_upstream = [3], ti_downstream = [4]\<rparr> =
   TransitHopInfo_Hash \<lparr>ti_txID = [1], ti_rxID = [2], ti_upstream = [3], ti_downstream = [4]\<rparr>"
  by (rule hop_hash_respects_equality) code_simp+

theorem hop_order_not_asymmetric: "\<exists>a b. TransitHopInfo_less a b \<and> TransitHopInfo_less b a"
proof -
  let ?a = "\<lparr>ti_txID = [0], ti_rxID = [1], ti_upstream = [0], ti_downstream = [0]\<rparr>" and ?b = "\<lparr>ti_txID = [1], ti_rxID = [0], ti_upstream = [0], ti_downstream = [0]\<rparr>"
  have "TransitHopInfo_less ?a ?b \<and> TransitHopInfo_less ?b ?a" by code_simp
  then show ?thesis by blast
qed

end
