(* ===== verification/Path_Establish.thy ===== *)
theory Path_Establish
  imports Onion Path_Build Path_Tables
begin

text \<open>
  How a path comes to be: the builder's commit message passes over the routers of the path, each of
  them opens its frame and keeps a transit hop, the confirmation of the last one comes back down,
  and the path is established. The routers are left \<open>wired\<close>, which is what traffic on the path
  relies on.
\<close>

section \<open>The frame of a hop\<close>

definition frame_size :: nat where "frame_size = 352"

definition record_for :: "PathHopConfig \<Rightarrow> LR_CommitRecord" where
  "record_for h = \<lparr>cr_commkey = seckey_topublic (hc_commkey h), cr_nextHop = hc_upstream h,
     cr_tunnelNonce = hc_nonce h, cr_txid = hc_txID h, cr_rxid = hc_rxID h, cr_work = None,
     cr_version = UDAP_PROTO_VERSION\<rparr>"

text \<open>The owner of the secret key \<open>b\<close> opens the frame and finds the record.\<close>

definition sealed_for :: "sodium \<Rightarrow> byte list \<Rightarrow> LR_CommitRecord \<Rightarrow> byte list \<Rightarrow> bool" where
  "sealed_for S b r frame \<longleftrightarrow> length frame = frame_size \<and>
     (\<forall>stack. \<exists>opened. DecryptInPlace S stack b frame = Some (True, opened) \<and> length opened = frame_size \<and>
        ahead (cr_bytes r) ((Encrypted_Buffer opened)\<lparr>b_cur := OverheadSize\<rparr>))"

lemma length_record:
  assumes "cr_valid r" shows "length (cr_bytes r) < frame_size - OverheadSize"
proof -
  have "length (bstr bs) = 3 + length bs" if "length bs \<in> {16, 32}" for bs
    using that by (auto simp: bstr_def dec_nat.simps)
  moreover have "length (bstr (lit [c])) = 3" for c by (simp add: bstr_def dec_nat.simps)
  moreover have "length (bint 0) = 3" by (simp add: bint_def dec_int_def dec_nat.simps)
  ultimately show ?thesis
    using assms by (simp add: cr_bytes_def cr_valid_def size_defs OverheadSize_eq frame_size_def del: lit_Cons)
qed

text \<open>A hop once its key is made; \<open>b\<close> is the secret key of its router.\<close>

definition keyed :: "sodium \<Rightarrow> hop_keys \<Rightarrow> byte list \<Rightarrow> byte list \<Rightarrow> PathHopConfig \<Rightarrow> PathHopConfig" where
  "keyed S km b up h = h\<lparr>hc_commkey := hk_commkey km, hc_nonce := hk_nonce km,
     hc_shared := dh.shared S (hk_commkey km) b (hk_nonce km), hc_upstream := up\<rparr>"

definition keys_agree :: "sodium \<Rightarrow> hop_keys \<Rightarrow> byte list \<Rightarrow> bool" where
  "keys_agree S km b \<longleftrightarrow> dh_agree S (hk_commkey km) b \<and> dh_agree S (hk_framekey km) b \<and>
     length (hk_nonce km) = TUNNONCESIZE \<and> length (hk_framenonce km) = TUNNONCESIZE"

definition hop_sized :: "PathHopConfig \<Rightarrow> bool" where
  "hop_sized h \<longleftrightarrow> length (hc_txID h) = PATHIDSIZE \<and> length (hc_rxID h) = PATHIDSIZE \<and>
     length (rc_pubkey (hc_router h)) = 32"

lemma record_sealed:
  assumes S: "sodium_ok S" "keys_agree S km b" and r: "cr_valid r" and f: "length frame = frame_size"
  shows "\<exists>buf frame'. LR_CommitRecord_BEncode r ((Encrypted_Buffer frame)\<lparr>b_cur := OverheadSize\<rparr>) = Some (True, buf) \<and>
    EncryptInPlace S (hk_framenonce km) stack (hk_framekey km) (seckey_topublic b) (b_mem buf) = Some (True, frame') \<and>
    sealed_for S b r frame'"
proof -
  let ?b = "(Encrypted_Buffer frame)\<lparr>b_cur := OverheadSize\<rparr>"
  have "buf_wf ?b" "length (cr_bytes r) < room ?b"
    using f length_record [OF r] by (simp_all add: buf_wf_def room_def Encrypted_Buffer_def OverheadSize_eq frame_size_def)
  with exact_emits [OF exact_cr [OF r]] obtain buf where buf: "LR_CommitRecord_BEncode r ?b = Some (True, buf)"
    "wframe ?b buf" "appended (cr_bytes r) ?b buf" by (rule emitsE)
  then have mem: "length (b_mem buf) = frame_size" by (simp add: wframe_def Encrypted_Buffer_def f)
  have "take (OverheadSize + length (cr_bytes r)) (b_mem buf) = take OverheadSize frame @ cr_bytes r"
    using buf(3) by (auto simp: appended_def Encrypted_Buffer_def)
  from arg_cong [OF this, of "drop OverheadSize"]
  have rec: "take (length (cr_bytes r)) (drop OverheadSize (b_mem buf)) = cr_bytes r"
    using f by (simp add: drop_take OverheadSize_eq frame_size_def)
  have l: "OverheadSize < length (b_mem buf)" "length (b_mem buf) < 2 ^ 63"
    using mem by (simp_all add: OverheadSize_eq frame_size_def)
  have ab: "dh_agree S (hk_framekey km) b" "length (hk_framenonce km) = TUNNONCESIZE"
    using S(2) by (simp_all add: keys_agree_def)
  note o = sealed_opens [OF S(1) ab l, of stack]
  then obtain frame' where e: "EncryptInPlace S (hk_framenonce km) stack (hk_framekey km) (seckey_topublic b) (b_mem buf) =
      Some (True, frame')" by blast
  have op: "\<exists>opened. DecryptInPlace S stack' b frame' = Some (True, opened) \<and> length frame' = frame_size \<and>
      drop OverheadSize opened = drop OverheadSize (b_mem buf)" for stack'
    using o [of stack'] e mem by auto
  have "sealed_for S b r frame'"
    unfolding sealed_for_def
  proof (intro conjI allI)
    show "length frame' = frame_size" using op by blast
    fix stack'
    obtain opened where d: "DecryptInPlace S stack' b frame' = Some (True, opened)"
      "drop OverheadSize opened = drop OverheadSize (b_mem buf)" using op by blast
    from arg_cong [OF d(2), of length] have "length opened = frame_size"
      using mem by (simp add: OverheadSize_eq frame_size_def)
    with d rec length_record [OF r] show "\<exists>opened. DecryptInPlace S stack' b frame' = Some (True, opened) \<and>
        length opened = frame_size \<and> ahead (cr_bytes r) ((Encrypted_Buffer opened)\<lparr>b_cur := OverheadSize\<rparr>)"
      by (intro exI [of _ opened]) (simp add: ahead_def Encrypted_Buffer_def)
  qed
  with buf(1) e show ?thesis by blast
qed

lemma next_key:
  fixes S E km b h hs hs' path
  defines "up \<equiv> next_id h hs"
  assumes S: "sodium_ok S" "pv_sodium E = S" "keys_agree S km b" "rc_enckey (hc_router h) = seckey_topublic b"
    and h: "hop_sized h" "list_all hop_sized hs" and p: "pa_hops path = hs' @ h # hs"
    and f: "length fs' = length hs'" "length frame = frame_size"
  shows "\<exists>frame'. GenerateNextKey E km (length hs') path (fs' @ frame # fs) =
      Some (if hs = [] then KeyDone else KeyNext, path\<lparr>pa_hops := hs' @ keyed S km b up h # hs\<rparr>,
        fs' @ frame' # fs) \<and> sealed_for S b (record_for (keyed S km b up h)) frame'"
proof -
  let ?h = "keyed S km b up h"
  have a: "dh_agree S (hk_commkey km) b" "length (hk_nonce km) = TUNNONCESIZE"
    using S(3) by (simp_all add: keys_agree_def)
  have "length up = 32" using h by (auto simp: up_def next_id_def hop_sized_def split: list.split)
  then have v: "cr_valid (record_for ?h)"
    using a h dh.pair_sizes [of S "hk_commkey km" b] S(1)
    by (simp add: cr_valid_def record_for_def keyed_def hop_sized_def UDAP_PROTO_VERSION_def length_public size_defs)
  from record_sealed [OF S(1,3) v f(2), of "pv_stack E 32"] obtain buf frame' where
    e: "LR_CommitRecord_BEncode (record_for ?h) ((Encrypted_Buffer frame)\<lparr>b_cur := OverheadSize\<rparr>) = Some (True, buf)"
    "EncryptInPlace S (hk_framenonce km) (pv_stack E 32) (hk_framekey km) (seckey_topublic b) (b_mem buf) = Some (True, frame')"
    "sealed_for S b (record_for ?h) frame'" by blast
  have dh: "sodium_dh_client S s (seckey_topublic b) (hk_commkey km) (hk_nonce km) =
      (True, dh.shared S (hk_commkey km) b (hk_nonce km))" for s
    using dh.shared_props(2) [of S "hk_commkey km" b "hk_nonce km"] S(1) a by (simp add: size_defs)
  have up: "hs = [] \<Longrightarrow> rc_pubkey (hc_router h) = up" "hs \<noteq> [] \<Longrightarrow> rc_pubkey (hc_router (hs ! 0)) = up"
    by (cases hs; simp add: up_def next_id_def)+
  have "GenerateNextKey E km (length hs') path (fs' @ frame # fs) =
      Some (if hs = [] then KeyDone else KeyNext, path\<lparr>pa_hops := hs' @ ?h # hs\<rparr>, fs' @ frame' # fs)"
    using e(1,2) dh S f(1) p up
    by (cases "hs = []") (simp_all add: GenerateNextKey_def nth_append list_update_append record_for_def keyed_def Let_def)
  with e(3) show ?thesis by blast
qed

section \<open>All frames\<close>

text \<open>The hops with their keys, for the secret keys \<open>bs\<close> of the routers.\<close>

fun keyed_all :: "sodium \<Rightarrow> hop_keys list \<Rightarrow> byte list list \<Rightarrow> PathHopConfig list \<Rightarrow> PathHopConfig list" where
  "keyed_all S (km # kms) (b # bs) (h # hs) = keyed S km b (next_id h hs) h # keyed_all S kms bs hs"
| "keyed_all S _ _ _ = []"

fun all_sealed :: "sodium \<Rightarrow> byte list list \<Rightarrow> PathHopConfig list \<Rightarrow> byte list list \<Rightarrow> bool" where
  "all_sealed S (b # bs) (h # hs) (f # fs) \<longleftrightarrow> sealed_for S b (record_for h) f \<and> all_sealed S bs hs fs"
| "all_sealed S bs hs fs \<longleftrightarrow> bs = [] \<and> hs = [] \<and> fs = []"

lemma all_keys:
  assumes "sodium_ok S" "pv_sodium E = S" "list_all2 (keys_agree S) kms bs"
    and "list_all2 (\<lambda>b h. rc_enckey (hc_router h) = seckey_topublic b) bs hs" "list_all hop_sized hs"
    and "list_all (\<lambda>f. length f = frame_size) fs" "length fs = length hs" "hs \<noteq> []"
    and "pa_hops path = hs' @ hs" "length fs' = length hs'"
  shows "\<exists>fs2. GenerateKeys E kms (length hs') path (fs' @ fs @ tail) =
      Some (KeyDone, path\<lparr>pa_hops := hs' @ keyed_all S kms bs hs\<rparr>, fs' @ fs2 @ tail) \<and>
    all_sealed S bs (keyed_all S kms bs hs) fs2"
  using assms(3-)
proof (induction kms arbitrary: bs hs fs path hs' fs')
  case (Cons km kms)
  from Cons.prems(1,2,5) obtain b bs2 h hs2 f fs2 where eq: "bs = b # bs2" "hs = h # hs2" "fs = f # fs2"
    by (cases bs; cases hs; cases fs) auto
  let ?h = "keyed S km b (next_id h hs2) h"
  from next_key [OF assms(1,2), of km b h hs2 path hs' fs' f "fs2 @ tail"] Cons.prems obtain frame where
    k: "GenerateNextKey E km (length hs') path (fs' @ f # fs2 @ tail) =
      Some (if hs2 = [] then KeyDone else KeyNext, path\<lparr>pa_hops := hs' @ ?h # hs2\<rparr>, fs' @ frame # fs2 @ tail)"
    "sealed_for S b (record_for ?h) frame" by (auto simp: eq)
  show ?case
  proof (cases "hs2 = []")
    case True
    then show ?thesis using k Cons.prems by (intro exI [of _ "[frame]"]) (auto simp: eq list_all2_Cons2)
  next
    case False
    have "\<exists>fs3. GenerateKeys E kms (length (hs' @ [?h])) (path\<lparr>pa_hops := hs' @ ?h # hs2\<rparr>)
        ((fs' @ [frame]) @ fs2 @ tail) = Some (KeyDone, path\<lparr>pa_hops := hs' @ ?h # hs2\<rparr>\<lparr>pa_hops :=
          (hs' @ [?h]) @ keyed_all S kms bs2 hs2\<rparr>, (fs' @ [frame]) @ fs3 @ tail) \<and>
      all_sealed S bs2 (keyed_all S kms bs2 hs2) fs3"
      by (rule Cons.IH) (use Cons.prems False in \<open>simp_all add: eq\<close>)
    then obtain fs3 where "GenerateKeys E kms (Suc (length hs')) (path\<lparr>pa_hops := hs' @ ?h # hs2\<rparr>)
        (fs' @ frame # fs2 @ tail) = Some (KeyDone, path\<lparr>pa_hops := hs' @ ?h # keyed_all S kms bs2 hs2\<rparr>,
          fs' @ frame # fs3 @ tail)" "all_sealed S bs2 (keyed_all S kms bs2 hs2) fs3" by auto
    then show ?thesis using k False by (intro exI [of _ "frame # fs3"]) (simp add: eq)
  qed
qed auto

section \<open>A router accepts its frame\<close>

text \<open>The router knows no path through these neighbours with these ids.\<close>

definition vacant :: "byte list \<Rightarrow> PathHopConfig \<Rightarrow> PathHopConfig list \<Rightarrow> PathContext \<Rightarrow> bool" where
  "vacant prev hc hs ctx \<longleftrightarrow> transit_inv ctx \<and> pc_AllowTransit ctx \<and>
     GetByDownstream prev (hc_txID hc) ctx = None \<and> GetByDownstream prev (hc_rxID hc) ctx = None \<and>
     GetByUpstream (next_id hc hs) (hc_txID hc) ctx = None"

lemma vacant_new:
  assumes "vacant prev hc hs ctx" "length prev = 32"
  shows "\<not> HasTransitHop \<lparr>ti_txID = hc_txID hc, ti_rxID = rx, ti_upstream = up, ti_downstream = prev\<rparr> ctx"
proof
  assume "HasTransitHop \<lparr>ti_txID = hc_txID hc, ti_rxID = rx, ti_upstream = up, ti_downstream = prev\<rparr> ctx"
  then obtain x where x: "x \<in> set (equal_range AlignedBuffer_less (hc_txID hc) (pc_TransitPaths ctx))"
    "AlignedBuffer_eq prev (ti_downstream (th_info (snd x)))"
    by (auto simp: HasTransitHop_def MapHas_def list_ex_iff TransitHopInfo_eq_def)
  then have "hop_sizes (snd x)"
    using assms(1) by (auto simp: vacant_def transit_inv_def equal_range_def)
  with x assms(2) have "AlignedBuffer_eq (ti_downstream (th_info (snd x))) prev"
    by (simp add: hop_sizes_def AlignedBuffer_eq_iff)
  with x(1) have "GetByDownstream prev (hc_txID hc) ctx \<noteq> None"
    by (auto simp: GetByDownstream_def MapGet_def filter_empty_conv split: list.split)
  with assms(1) show False by (simp add: vacant_def)
qed

text \<open>The transit hop a router keeps for the record of \<open>hc\<close>.\<close>

definition new_hop :: "byte list \<Rightarrow> PathHopConfig \<Rightarrow> u64 \<Rightarrow> TransitHop" where
  "new_hop prev hc now = \<lparr>th_info = \<lparr>ti_txID = hc_txID hc, ti_rxID = hc_rxID hc, ti_upstream = hc_upstream hc,
     ti_downstream = prev\<rparr>, th_pathKey = hc_shared hc, th_started = now, th_lifetime = DEFAULT_PATH_LIFETIME\<rparr>"

lemma hop_accepts:
  assumes S: "sodium_ok S" "pv_sodium (le_env L) = S" "cr_work (le_record L) = None" "keys_agree S km (le_seckey L)"
    and hc: "hc = keyed S km (le_seckey L) up h" "hop_sized h" "length up = 32" "length prev = 32"
    and f: "sealed_for S (le_seckey L) (record_for hc) frame" and v: "vacant prev hc hs ctx"
  shows "LRCM_Decrypt L \<lparr>fd_frames = frame # fs, fd_downstream = prev\<rparr> ctx =
    Some (if HopIsUs (le_env L) up then SendPathConfirm (new_hop prev hc (pv_now (le_env L)))
          else SendLRCM up (fs @ [le_junk L frame_size]),
      PutTransitHop (new_hop prev hc (pv_now (le_env L))) ctx)"
proof -
  have a: "dh_agree S (hk_commkey km) (le_seckey L)" "length (hk_nonce km) = TUNNONCESIZE"
    using S(4) by (simp_all add: keys_agree_def)
  have "cr_valid (record_for hc)"
    using a hc dh.pair_sizes [of S "hk_commkey km" "le_seckey L"] S(1)
    by (simp add: cr_valid_def record_for_def keyed_def hop_sized_def UDAP_PROTO_VERSION_def length_public size_defs)
  note r = readsD [OF reads_cr [OF this S(3)]]
  obtain opened where o: "DecryptInPlace S (pv_stack (le_env L) 32) (le_seckey L) frame = Some (True, opened)"
    "length opened = frame_size" "ahead (cr_bytes (record_for hc)) ((Encrypted_Buffer opened)\<lparr>b_cur := OverheadSize\<rparr>)"
    using f by (auto simp: sealed_for_def)
  have "sodium_dh_server S s (seckey_topublic (hk_commkey km)) (le_seckey L) (hk_nonce km) =
      (True, dh.shared S (hk_commkey km) (le_seckey L) (hk_nonce km))" for s
    using dh.shared_props(3) [of S "hk_commkey km" "le_seckey L" "hk_nonce km"] S(1) a by (simp add: size_defs)
  then show ?thesis
    using o r [OF o(3), of "le_pow L"] S(2) vacant_new [OF v hc(4)]
    by (simp add: LRCM_Decrypt_def LRCM_HandleDecrypted_def record_for_def hop_lifetime_def new_hop_def hc(1) keyed_def Let_def)
qed

section \<open>The commit message passes over the path\<close>

text \<open>One router gets the message: the handler, the worker's job and the last step.\<close>

definition handle_lrcm ::
  "lrcm_env \<Rightarrow> LR_CommitMessage \<Rightarrow> PathContext \<Rightarrow> (PathContext \<times> path_event list) option" where
  "handle_lrcm L msg ctx =
     (case LR_CommitMessage_HandleMessage msg ctx of
        (_, None) \<Rightarrow> Some (ctx, [])
      | (_, Some self) \<Rightarrow> do {
          (job, ctx) \<leftarrow> LRCM_Decrypt L self ctx;
          evs \<leftarrow> LRCM_finish L job;
          Some (ctx, evs)
        })"

fun carry_lrcm ::
  "(lrcm_env \<times> PathContext) list \<Rightarrow> byte list \<Rightarrow> path_event list \<Rightarrow> (PathContext list \<times> path_event list) option" where
  "carry_lrcm [] sender evs = Some ([], evs)"
| "carry_lrcm ((L, ctx) # ns) sender evs =
     (case evs of
        [RouterSend to (LR_Commit m)] \<Rightarrow>
          if to = pv_pubkey (le_env L) then do {
            (ctx', evs) \<leftarrow> handle_lrcm L (m\<lparr>lrcm_remote := sender\<rparr>) ctx;
            (ctxs, evs) \<leftarrow> carry_lrcm ns (pv_pubkey (le_env L)) evs;
            Some (ctx' # ctxs, evs)
          }
          else None
      | _ \<Rightarrow> None)"

text \<open>The routers the hops name: their keys are the ones in the contacts, and two neighbours differ.\<close>

fun ready :: "sodium \<Rightarrow> byte list \<Rightarrow> PathHopConfig list \<Rightarrow> (lrcm_env \<times> PathContext) list \<Rightarrow> bool" where
  "ready S prev (hc # hs) ((L, ctx) # ns) \<longleftrightarrow> pv_sodium (le_env L) = S \<and> length (pv_pubkey (le_env L)) = 32 \<and>
     pv_pubkey (le_env L) = rc_pubkey (hc_router hc) \<and> rc_enckey (hc_router hc) = seckey_topublic (le_seckey L) \<and>
     cr_work (le_record L) = None \<and> (hs \<noteq> [] \<longrightarrow> next_id hc hs \<noteq> pv_pubkey (le_env L)) \<and> vacant prev hc hs ctx \<and>
     ready S (pv_pubkey (le_env L)) hs ns"
| "ready S prev hs ns \<longleftrightarrow> hs = [] \<and> ns = []"

text \<open>Every hop sends with the id the next one receives with.\<close>

fun linked :: "PathHopConfig list \<Rightarrow> bool" where
  "linked (a # b # hs) \<longleftrightarrow> hc_txID a = hc_rxID b \<and> linked (b # hs)"
| "linked hs \<longleftrightarrow> True"

lemma linked_link: "linked (link_ids hs)"
proof (induction hs rule: link_ids.induct)
  case (1 a b hs)
  moreover have "\<exists>x xs. link_ids (b # hs) = x # xs \<and> hc_rxID x = hc_rxID b" by (cases hs) auto
  ultimately show ?case by auto
qed simp_all

lemma ready_length: "ready S prev hs ns \<Longrightarrow> length ns = length hs"
  by (induction S prev hs ns rule: ready.induct) auto

lemma keyed_simps [simp]:
  "hc_txID (keyed S km b up h) = hc_txID h" "hc_rxID (keyed S km b up h) = hc_rxID h"
  "hc_router (keyed S km b up h) = hc_router h" "hc_upstream (keyed S km b up h) = up"
  by (simp_all add: keyed_def)

lemma keyed_all_next:
  assumes "length kms = length hs" "length bs = length hs"
  shows "next_id (keyed S km b up h) (keyed_all S kms bs hs) = next_id h hs"
  using assms by (cases kms; cases bs; cases hs) (simp_all add: next_id_def)

lemma handle_commit:
  assumes "sodium_ok S" "pv_sodium (le_env L) = S" "cr_work (le_record L) = None" "keys_agree S km (le_seckey L)"
    and hc: "hc = keyed S km (le_seckey L) up h" "hop_sized h" "length up = 32" "length prev = 32"
    and "sealed_for S (le_seckey L) (record_for hc) frame" and v: "vacant prev hc hs ctx"
    and "length fs = 7"
  shows "handle_lrcm L \<lparr>lrcm_remote = prev, lrcm_version = 0, lrcm_frames = frame # fs\<rparr> ctx = do {
      evs \<leftarrow> LRCM_finish L (if HopIsUs (le_env L) up then SendPathConfirm (new_hop prev hc (pv_now (le_env L)))
          else SendLRCM up (fs @ [le_junk L frame_size]));
      Some (PutTransitHop (new_hop prev hc (pv_now (le_env L))) ctx, evs)
    }"
  using hop_accepts [OF assms(1-10)] assms(10,11)
  by (simp add: handle_lrcm_def LR_CommitMessage_HandleMessage_def MAXHOPS_def vacant_def)

lemma new_hop_found:
  assumes v: "vacant prev hc hs ctx" and h: "hop_sized hc" "length prev = 32" "length (next_id hc hs) = 32"
    and hc: "hc_upstream hc = next_id hc hs"
  shows "hop_for prev hc hs (new_hop prev hc now)"
    "pid \<in> {hc_txID hc, hc_rxID hc} \<Longrightarrow>
      GetByDownstream prev pid (PutTransitHop (new_hop prev hc now) ctx) = Some (new_hop prev hc now)"
    "GetByUpstream (next_id hc hs) (hc_txID hc) (PutTransitHop (new_hop prev hc now) ctx) =
      Some (Transit (new_hop prev hc now))"
proof -
  have s: "hop_sizes (new_hop prev hc now)" and inv: "transit_inv ctx"
    using h hc v by (simp_all add: hop_sizes_def new_hop_def hop_sized_def vacant_def)
  show "hop_for prev hc hs (new_hop prev hc now)" using hc by (simp add: hop_for_def new_hop_def)
  show "GetByUpstream (next_id hc hs) (hc_txID hc) (PutTransitHop (new_hop prev hc now) ctx) =
      Some (Transit (new_hop prev hc now))"
    using get_up_put [OF inv s, of "hc_txID hc" "next_id hc hs"] h v hc
    by (simp add: hop_sized_def vacant_def hop_ids_def new_hop_def)
  show "GetByDownstream prev pid (PutTransitHop (new_hop prev hc now) ctx) = Some (new_hop prev hc now)"
    if "pid \<in> {hc_txID hc, hc_rxID hc}"
    using get_down_put [OF inv s, of pid prev] h v that
    by (auto simp: hop_sized_def vacant_def hop_ids_def new_hop_def)
qed

lemma vacant_keyed:
  assumes "length kms = length hs" "length bs = length hs"
  shows "vacant prev (keyed S km b up h) (keyed_all S kms bs hs) ctx \<longleftrightarrow> vacant prev h hs ctx"
  by (simp add: vacant_def keyed_all_next [OF assms])

lemma keyed_all_Nil: "length kms = length hs \<Longrightarrow> length bs = length hs \<Longrightarrow> keyed_all S kms bs hs = [] \<longleftrightarrow> hs = []"
  by (cases kms; cases bs; cases hs) simp_all

lemma keyed_all_hd:
  "length kms = length hs \<Longrightarrow> length bs = length hs \<Longrightarrow> hs \<noteq> [] \<Longrightarrow> hc_rxID (hd (keyed_all S kms bs hs)) = hc_rxID (hd hs)"
  by (cases kms; cases bs; cases hs) simp_all

text \<open>What one router does to the message and what it leaves behind.\<close>

lemma commit_step:
  fixes S km kms bs h hs L ctx
  defines "up \<equiv> next_id h hs"
  defines "hc \<equiv> keyed S km (le_seckey L) up h" and "hs2 \<equiv> keyed_all S kms bs hs"
  defines "hop prev \<equiv> new_hop prev hc (pv_now (le_env L))"
  assumes S: "sodium_ok S" "keys_agree S km (le_seckey L)" "ready S prev (h # hs) ((L, ctx) # ns)"
    and hs: "linked (h # hs)" "list_all hop_sized (h # hs)" "length prev = 32"
    and f: "sealed_for S (le_seckey L) (record_for hc) frame" "length fs = 7"
    and l: "length kms = length hs" "length bs = length hs"
  shows "hop_for prev hc hs2 (hop prev)"
    "handle_lrcm L \<lparr>lrcm_remote = prev, lrcm_version = 0, lrcm_frames = frame # fs\<rparr> ctx = do {
      evs \<leftarrow> LRCM_finish L (if hs = [] then SendPathConfirm (hop prev) else SendLRCM up (fs @ [le_junk L frame_size]));
      Some (PutTransitHop (hop prev) ctx, evs)
    }"
    "pid \<in> {hc_txID h, hc_rxID h} \<Longrightarrow> wired S (pv_pubkey (le_env L)) (hc_txID h) hs2 ns2 \<Longrightarrow>
      wired S prev pid (hc # hs2) ((le_env L, PutTransitHop (hop prev) ctx) # ns2)"
proof -
  have up: "length up = 32" "next_id hc hs2 = up" "hop_sized hc" "hc_upstream hc = up"
    using hs(2) keyed_all_next [OF l]
    by (auto simp: up_def hc_def hs2_def next_id_def hop_sized_def split: list.split)
  have v: "vacant prev hc hs2 ctx" using S(3) vacant_keyed [OF l] by (simp add: hc_def hs2_def)
  note n = new_hop_found [OF v up(3) hs(3), unfolded up(2), OF up(1,4)]
  show "hop_for prev hc hs2 (hop prev)" unfolding hop_def by (rule n(1))
  have us: "HopIsUs (le_env L) up \<longleftrightarrow> hs = []"
    using S(3) up(1) by (auto simp: HopIsUs_def memcmp_eq_0_iff up_def next_id_def)
  have "handle_lrcm L \<lparr>lrcm_remote = prev, lrcm_version = 0, lrcm_frames = frame # fs\<rparr> ctx = do {
      evs \<leftarrow> LRCM_finish L (if HopIsUs (le_env L) up then SendPathConfirm (hop prev) else SendLRCM up (fs @ [le_junk L frame_size]));
      Some (PutTransitHop (hop prev) ctx, evs)
    }" unfolding hop_def
    by (rule handle_commit [OF S(1) _ _ S(2) _ _ up(1) hs(3) f(1) v f(2)]) (use S(3) hs(2) in \<open>auto simp: hc_def\<close>)
  then show "handle_lrcm L \<lparr>lrcm_remote = prev, lrcm_version = 0, lrcm_frames = frame # fs\<rparr> ctx = do {
      evs \<leftarrow> LRCM_finish L (if hs = [] then SendPathConfirm (hop prev) else SendLRCM up (fs @ [le_junk L frame_size]));
      Some (PutTransitHop (hop prev) ctx, evs)
    }" by (simp add: us)
  have link: "hs \<noteq> [] \<longrightarrow> hc_txID h = hc_rxID (hd hs2)"
    using hs(1) keyed_all_hd [OF l] by (cases hs) (auto simp: hs2_def)
  show "wired S prev pid (hc # hs2) ((le_env L, PutTransitHop (hop prev) ctx) # ns2)"
    if "pid \<in> {hc_txID h, hc_rxID h}" "wired S (pv_pubkey (le_env L)) (hc_txID h) hs2 ns2"
  proof -
    have r: "pv_sodium (le_env L) = S" "length (rc_pubkey (hc_router h)) = 32"
      "pv_pubkey (le_env L) = rc_pubkey (hc_router h)" "hs \<noteq> [] \<longrightarrow> up \<noteq> rc_pubkey (hc_router h)"
      using S(3) by (auto simp: up_def)
    have "GetByUpstream up (hc_txID hc) (PutTransitHop (hop prev) ctx) = Some (Transit (hop prev))"
      unfolding hop_def by (rule n(3))
    moreover have "GetByDownstream prev pid (PutTransitHop (hop prev) ctx) = Some (hop prev)"
      unfolding hop_def by (rule n(2)) (use that in \<open>simp add: hc_def\<close>)
    moreover have "hs2 = [] \<longleftrightarrow> hs = []" using keyed_all_Nil [OF l] by (simp add: hs2_def)
    moreover have "hc_txID hc = hc_txID h" "hc_router hc = hc_router h" by (simp_all add: hc_def)
    ultimately show ?thesis
      using n(1) r that link up(2) unfolding wired.simps hop_def by metis
  qed
qed

lemma confirm_sent:
  assumes "env_ok S (le_env L)" shows "\<exists>evs. LRCM_finish L (SendPathConfirm hop) = Some evs"
proof -
  obtain b where "routing_BEncode (PathConfirm (PathConfirmMessage_of (pv_now (le_env L)) (th_lifetime hop)))
      (StackBuffer (pv_stack (le_env L) (MAX_LINK_MSG_SIZE div 2))) = Some (True, b)"
    using encode_routing [OF assms] by blast
  then show ?thesis by (simp add: LRCM_finish_def TransitHop_SendRoutingMessage_def split: prod.split)
qed

lemma commit_passes:
  assumes S: "sodium_ok S" and "ready S prev hs ns" "hs \<noteq> []" "linked hs" "list_all hop_sized hs" "length prev = 32"
    and "list_all2 (\<lambda>km n. keys_agree S km (le_seckey (fst n))) kms ns"
    and "all_sealed S (map (\<lambda>n. le_seckey (fst n)) ns) (keyed_all S kms (map (\<lambda>n. le_seckey (fst n)) ns) hs) fs"
    and "length fs + length tail = 8" "pid \<in> {hc_txID (hd hs), hc_rxID (hd hs)}"
    and "env_ok S (le_env (fst (last ns)))"
  shows "\<exists>ctxs evs hop. carry_lrcm ns prev [RouterSend (rc_pubkey (hc_router (hd hs)))
      (LR_Commit \<lparr>lrcm_remote = replicate 32 0, lrcm_version = 0, lrcm_frames = fs @ tail\<rparr>)] = Some (ctxs, evs) \<and>
    length ctxs = length ns \<and>
    wired S prev pid (keyed_all S kms (map (\<lambda>n. le_seckey (fst n)) ns) hs) (zip (map (\<lambda>n. le_env (fst n)) ns) ctxs) \<and>
    hop_for (before_last prev (keyed_all S kms (map (\<lambda>n. le_seckey (fst n)) ns) hs))
      (last (keyed_all S kms (map (\<lambda>n. le_seckey (fst n)) ns) hs)) [] hop \<and>
    LRCM_finish (fst (last ns)) (SendPathConfirm hop) = Some evs \<and> th_lifetime hop = DEFAULT_PATH_LIFETIME"
  using assms(2-)
proof (induction hs arbitrary: prev ns kms fs tail pid)
  case (Cons h hs)
  from Cons.prems(1) obtain L ctx ns' where ns: "ns = (L, ctx) # ns'" by (cases ns) auto
  from Cons.prems(6) ns obtain km kms' where kms: "kms = km # kms'" "keys_agree S km (le_seckey L)"
      "list_all2 (\<lambda>km n. keys_agree S km (le_seckey (fst n))) kms' ns'" by (auto simp: list_all2_Cons2)
  let ?bs = "map (\<lambda>n. le_seckey (fst n)) ns'" and ?up = "next_id h hs"
  let ?hc = "keyed S km (le_seckey L) ?up h" and ?hs = "keyed_all S kms' ?bs hs"
  from Cons.prems(7) obtain f fs' where fs: "fs = f # fs'" "sealed_for S (le_seckey L) (record_for ?hc) f"
      "all_sealed S ?bs ?hs fs'" by (cases fs) (auto simp: kms ns)
  have rd: "ready S prev (h # hs) ((L, ctx) # ns')" using Cons.prems(1) by (simp only: ns)
  have len: "length kms' = length hs" "length ?bs = length hs"
    using ready_length [OF rd] list_all2_lengthD [OF kms(3)] by simp_all
  have seven: "length (fs' @ tail) = 7" using Cons.prems(8) by (simp add: fs(1))
  note st = commit_step [OF S kms(2) rd Cons.prems(3,4,5) fs(2) seven len]
  let ?hop = "new_hop prev ?hc (pv_now (le_env L))"
  have send: "carry_lrcm ns prev [RouterSend (rc_pubkey (hc_router (hd (h # hs))))
      (LR_Commit \<lparr>lrcm_remote = replicate 32 0, lrcm_version = 0, lrcm_frames = fs @ tail\<rparr>)] = do {
      (ctx', evs) \<leftarrow> handle_lrcm L \<lparr>lrcm_remote = prev, lrcm_version = 0, lrcm_frames = f # fs' @ tail\<rparr> ctx;
      (ctxs, evs) \<leftarrow> carry_lrcm ns' (pv_pubkey (le_env L)) evs;
      Some (ctx' # ctxs, evs)
    }" using rd by (simp add: ns fs(1))
  show ?case
  proof (cases "hs = []")
    case True
    then have ns': "ns' = []" using len by simp
    then obtain evs where "LRCM_finish L (SendPathConfirm ?hop) = Some evs"
      using confirm_sent [of S L ?hop] Cons.prems(10) by (auto simp: ns)
    moreover have "carry_lrcm ns prev [RouterSend (rc_pubkey (hc_router (hd (h # hs))))
      (LR_Commit \<lparr>lrcm_remote = replicate 32 0, lrcm_version = 0, lrcm_frames = fs @ tail\<rparr>)] =
        Some ([PutTransitHop ?hop ctx], evs)" using calculation st(2) send True by (simp add: ns')
    moreover have "wired S prev pid (?hc # ?hs) [(le_env L, PutTransitHop ?hop ctx)]"
      using st(3) [of pid "[]"] Cons.prems(9) True by (simp del: wired.simps(2))
    moreover have "th_lifetime ?hop = DEFAULT_PATH_LIFETIME" by (simp add: new_hop_def)
    ultimately show ?thesis
      using st(1) True by (intro exI [of _ "[PutTransitHop ?hop ctx]"] exI [of _ evs] exI [of _ ?hop])
        (simp add: ns ns' kms(1) del: wired.simps)
  next
    case False
    have ne: "ns' \<noteq> []" using False len by auto
    then have env: "env_ok S (le_env (fst (last ns')))" "last ns = last ns'" "ns' \<noteq> []"
      using Cons.prems(10) by (simp_all add: ns)
    from rd Cons.prems(3,4,8) False kms(3) fs env(1) obtain ctxs evs hop where
      IH: "carry_lrcm ns' (pv_pubkey (le_env L)) [RouterSend (rc_pubkey (hc_router (hd hs)))
        (LR_Commit \<lparr>lrcm_remote = replicate 32 0, lrcm_version = 0, lrcm_frames = fs' @ (tail @ [le_junk L frame_size])\<rparr>)] =
          Some (ctxs, evs)" "length ctxs = length ns'"
      "wired S (pv_pubkey (le_env L)) (hc_txID h) ?hs (zip (map (\<lambda>n. le_env (fst n)) ns') ctxs)"
      "hop_for (before_last (pv_pubkey (le_env L)) ?hs) (last ?hs) [] hop"
      "LRCM_finish (fst (last ns')) (SendPathConfirm hop) = Some evs" "th_lifetime hop = DEFAULT_PATH_LIFETIME"
      using Cons.IH [of "pv_pubkey (le_env L)" ns' kms' fs' "tail @ [le_junk L frame_size]" "hc_txID h"]
      by (fastforce simp: neq_Nil_conv)
    have up: "?up = rc_pubkey (hc_router (hd hs))" using False by (cases hs) (simp_all add: next_id_def)
    have "?hs \<noteq> []" using False keyed_all_Nil [OF len] by simp
    moreover have "pv_pubkey (le_env L) = rc_pubkey (hc_router h)" using rd by simp
    moreover have "carry_lrcm ns prev [RouterSend (rc_pubkey (hc_router (hd (h # hs))))
      (LR_Commit \<lparr>lrcm_remote = replicate 32 0, lrcm_version = 0, lrcm_frames = fs @ tail\<rparr>)] =
        Some (PutTransitHop ?hop ctx # ctxs, evs)"
      using st(2) send False IH(1) by (simp add: up LRCM_finish_def ForwardLRCM_def)
    ultimately show ?thesis
      using IH st(3) [OF _ IH(3)] Cons.prems(9) env
      by (intro exI [of _ "PutTransitHop ?hop ctx # ctxs"] exI [of _ evs] exI [of _ hop])
        (simp add: ns kms(1) del: wired.simps)
  qed
qed simp

section \<open>The builder\<close>

text \<open>The builder has no other path with the id, and its tables are in order.\<close>

definition own_vacant :: "nat \<Rightarrow> Path \<Rightarrow> PathContext \<Rightarrow> bool" where
  "own_vacant i p ctx \<longleftrightarrow> i < length (pc_PathBuilders ctx) \<and> bytes.ordered PATHIDSIZE (pc_OurPaths ctx) \<and>
     path_info.ordered (ps_Paths (pc_PathBuilders ctx ! i)) \<and> map_find AlignedBuffer_less (RXID p) (pc_OurPaths ctx) = None \<and>
     PathSet_GetByUpstream (Upstream p) (RXID p) (pc_PathBuilders ctx ! i) = None"

lemma own_found:
  assumes v: "own_vacant i p ctx" and h: "hop_sized (hd (pa_hops p))"
  defines "s \<equiv> pc_PathBuilders (AddOwnPath i p ctx) ! i"
  shows "GetByUpstream (Upstream p) (RXID p) (AddOwnPath i p ctx) = Some (OwnPath i p)"
    "PathSet_GetByUpstream (Upstream p) (RXID p)
      (s\<lparr>ps_Paths := map_put PathInfo_less (Upstream p, RXID p) p' (ps_Paths s)\<rparr>) = Some p'"
proof -
  have k: "length (TXID p) = PATHIDSIZE" "length (RXID p) = PATHIDSIZE" "length (Upstream p) = 32"
    using h by (simp_all add: hop_sized_def TXID_def RXID_def Upstream_def)
  have v': "i < length (pc_PathBuilders ctx)" "bytes.ordered PATHIDSIZE (pc_OurPaths ctx)"
    "path_info.ordered (ps_Paths (pc_PathBuilders ctx ! i))"
    "map_find AlignedBuffer_less (RXID p) (pc_OurPaths ctx) = None"
    "map_find PathInfo_less (Upstream p, RXID p) (ps_Paths (pc_PathBuilders ctx ! i)) = None"
    using v by (simp_all add: own_vacant_def PathSet_GetByUpstream_def)
  have s: "ps_Paths s = map_emplace PathInfo_less (Upstream p, RXID p) p (ps_Paths (pc_PathBuilders ctx ! i))"
    using v'(1) by (simp add: s_def AddOwnPath_def AddPath_def)
  note o = bytes.ordered_emplace [OF k(1) v'(2), of i]
  have "map_find AlignedBuffer_less (RXID p) (pc_OurPaths (AddOwnPath i p ctx)) = Some i"
    using bytes.emplace_find [OF k(2) k(2) o, of i] bytes.emplace_find [OF k(1) k(2) v'(2), of i] v'(4)
    by (auto simp: AddOwnPath_def)
  moreover have "bytes.ordered PATHIDSIZE (pc_OurPaths (AddOwnPath i p ctx))"
    using bytes.ordered_emplace [OF k(2) o, of i] by (simp add: AddOwnPath_def)
  moreover have "PathSet_GetByUpstream (Upstream p) (RXID p) s = Some p"
    using path_info.emplace_find [OF _ _ v'(3), of "(Upstream p, RXID p)" "(Upstream p, RXID p)" p] k v'(5)
    by (simp add: PathSet_GetByUpstream_def s)
  ultimately show "GetByUpstream (Upstream p) (RXID p) (AddOwnPath i p ctx) = Some (OwnPath i p)"
    using bytes.range_find [OF k(2), of "pc_OurPaths (AddOwnPath i p ctx)"] by (simp add: GetByUpstream_def MapGet_def s_def)
  have "path_info.ordered (ps_Paths s)"
    using path_info.ordered_emplace [OF _ v'(3)] k by (simp add: s)
  then show "PathSet_GetByUpstream (Upstream p) (RXID p)
      (s\<lparr>ps_Paths := map_put PathInfo_less (Upstream p, RXID p) p' (ps_Paths s)\<rparr>) = Some p'"
    using path_info.find_put [of "(Upstream p, RXID p)" "(Upstream p, RXID p)" "ps_Paths s" p'] k
    by (simp add: PathSet_GetByUpstream_def)
qed

lemma confirm_handled:
  assumes "env_ok S E" "pa_status p = ePathBuilding" "pa_BuiltHook p"
  shows "\<exists>q evs. Path_handler E (PathConfirm m) (p, []) = Some (True, q, PathBuilt (RXID p) # evs) \<and>
    pa_status q = ePathEstablished \<and> pa_hops q = pa_hops p"
proof -
  obtain b where "routing_BEncode (PathLatency (PathLatencyMessage_new\<lparr>pl_T := pv_rand E\<rparr>))
      (StackBuffer (pv_stack E (MAX_LINK_MSG_SIZE div 2))) = Some (True, b)"
    using encode_routing [OF assms(1)] by blast
  then show ?thesis
    using assms(2,3) by (simp add: Path_handler_def Path_HandlePathConfirmMessage_def Path_SendRoutingMessage_def
        Path_HandleUpstream_def RXID_def Let_def)
qed

lemma started_path:
  assumes "pathbuilder_start_build mem t st tx rx select job = Some p"
    and "\<And>i. length (tx i) = PATHIDSIZE \<and> length (rx i) = PATHIDSIZE"
  shows "pa_hops p \<noteq> []" "length (pa_hops p) = bj_numHops job" "linked (pa_hops p)" "pa_BuiltHook p"
    "list_all (\<lambda>h. length (hc_txID h) = PATHIDSIZE \<and> length (hc_rxID h) = PATHIDSIZE) (pa_hops p)"
proof -
  have len: "length (link_ids hs) = length hs" for hs by (induction hs rule: link_ids.induct) simp_all
  have sel: "length (select_hops select prev j n) = n" for prev j n
    by (induction n arbitrary: prev j) (simp_all add: Let_def)
  let ?P = "\<lambda>h. length (hc_txID h) = PATHIDSIZE \<and> length (hc_rxID h) = PATHIDSIZE"
  have sz: "list_all ?P hs \<Longrightarrow> list_all ?P (link_ids hs)" for hs by (induction hs rule: link_ids.induct) auto
  let ?rcs = "select_hops select None 0 (bj_numHops job)"
  obtain hs where hs: "pa_hops p = link_ids hs" "length hs = length ?rcs" "list_all ?P hs" "?rcs \<noteq> []" "pa_BuiltHook p"
  proof
    show "pa_hops p = link_ids (map (\<lambda>i. (PathHopConfig_new mem)\<lparr>hc_router := udap_rc_copy rc_zero (?rcs ! i),
        hc_txID := tx i, hc_rxID := rx i\<rparr>) [0..<length ?rcs])" "?rcs \<noteq> []" "pa_BuiltHook p"
      using assms(1) by (auto simp: pathbuilder_start_build_def Path_new_def split: if_splits)
  qed (use assms(2) in \<open>auto simp: list_all_iff\<close>)
  then show "linked (pa_hops p)" "length (pa_hops p) = bj_numHops job" "pa_BuiltHook p" "list_all ?P (pa_hops p)"
    using sz by (simp_all add: linked_link len sel)
  show "pa_hops p \<noteq> []" using hs len [of hs] by (metis length_0_conv)
qed

lemma ready_enckeys: "ready S us hs ns \<Longrightarrow>
    list_all2 (\<lambda>b h. rc_enckey (hc_router h) = seckey_topublic b) (map (\<lambda>n. le_seckey (fst n)) ns) hs"
  by (induction S us hs ns rule: ready.induct) auto

lemma keys_generated:
  assumes S: "sodium_ok S" "pv_sodium E = S" and hs: "ready S us (pa_hops p) ns" "list_all hop_sized (pa_hops p)"
      "pa_hops p \<noteq> []" "length (pa_hops p) \<le> MAXHOPS"
    and km: "list_all2 (\<lambda>km n. keys_agree S km (le_seckey (fst n))) kms ns"
    and junk: "\<And>i. frame_size \<le> length (junk i)"
  shows "\<exists>fs tail. AsyncGenerateKeys E junk kms p =
      Some (KeyDone, p\<lparr>pa_hops := keyed_all S kms (map (\<lambda>n. le_seckey (fst n)) ns) (pa_hops p)\<rparr>, fs @ tail) \<and>
    length fs + length tail = 8 \<and>
    all_sealed S (map (\<lambda>n. le_seckey (fst n)) ns) (keyed_all S kms (map (\<lambda>n. le_seckey (fst n)) ns) (pa_hops p)) fs"
proof -
  let ?bs = "map (\<lambda>n. le_seckey (fst n)) ns" and ?n = "length (pa_hops p)"
  let ?f = "\<lambda>i. take (length (EncryptedFrame_new 256)) (junk i)"
  have fs: "map ?f [0..<MAXHOPS] = [] @ map ?f [0..<?n] @ map ?f [?n..<MAXHOPS]"
    using hs(4) upt_add_eq_append [of 0 ?n "MAXHOPS - ?n"] by (simp flip: map_append)
  have "list_all2 (\<lambda>b h. rc_enckey (hc_router h) = seckey_topublic b) ?bs (pa_hops p)"
    by (rule ready_enckeys [OF hs(1)])
  moreover have "list_all2 (keys_agree S) kms ?bs" using km by (simp add: list_all2_map2)
  moreover have "list_all (\<lambda>f. length f = frame_size) (map ?f [0..<?n])"
    using junk by (simp add: list_all_iff EncryptedFrame_new_def size_defs frame_size_def)
  ultimately obtain fs2 where g: "GenerateKeys E kms (length []) p ([] @ map ?f [0..<?n] @ map ?f [?n..<MAXHOPS]) =
      Some (KeyDone, p\<lparr>pa_hops := [] @ keyed_all S kms ?bs (pa_hops p)\<rparr>, [] @ fs2 @ map ?f [?n..<MAXHOPS])"
    "all_sealed S ?bs (keyed_all S kms ?bs (pa_hops p)) fs2"
    using all_keys [OF S, of kms ?bs "pa_hops p" "map ?f [0..<?n]" p "[]" "[]" "map ?f [?n..<MAXHOPS]"] hs(2,3) by auto
  have "length fs = length bs" if "all_sealed S bs hs fs" for bs hs fs
    using that by (induction S bs hs fs rule: all_sealed.induct) auto
  then have "length fs2 = ?n" using g(2) ready_length [OF hs(1)] by fastforce
  then have "length fs2 + length (map ?f [?n..<MAXHOPS]) = 8" using hs(4) by (simp add: MAXHOPS_def)
  moreover have "AsyncGenerateKeys E junk kms p =
      Some (KeyDone, p\<lparr>pa_hops := keyed_all S kms ?bs (pa_hops p)\<rparr>, fs2 @ map ?f [?n..<MAXHOPS])"
    unfolding AsyncGenerateKeys_def fs using g(1) by simp
  ultimately show ?thesis using g(2) by blast
qed

lemma keyed_all_ok:
  assumes "sodium_ok S" "list_all2 (keys_agree S) kms bs" "length hs = length bs"
  shows "keys_ok (keyed_all S kms bs hs)"
  using assms(2,3)
proof (induction kms bs arbitrary: hs rule: list_all2_induct)
  case (Cons km kms b bs)
  have "length (dh.shared S (hk_commkey km) b (hk_nonce km)) = 32"
    using dh.shared_props(1) [of S "hk_commkey km" b "hk_nonce km"] assms(1) Cons.hyps(1)
    by (simp add: keys_agree_def size_defs)
  with Cons show ?case by (cases hs) (simp_all add: keyed_def)
qed (simp add: keys_ok_def)

lemma ready_sized: "ready S us hs ns \<Longrightarrow>
    list_all (\<lambda>h. length (hc_txID h) = PATHIDSIZE \<and> length (hc_rxID h) = PATHIDSIZE) hs \<Longrightarrow> list_all hop_sized hs"
  by (induction S us hs ns rule: ready.induct) (auto simp: hop_sized_def)

text \<open>The confirmation comes down a wired path.\<close>

lemma confirmed:
  assumes S: "xor_stream S" "env_ok S (fst (last ns))" "env_ok S E" and c: "routing_valid (PathConfirm c)"
    and w: "wired S us (TXID p) (pa_hops p) ns" "pa_hops p \<noteq> []" "keys_ok (pa_hops p)"
    and hop: "hop_for (before_last us (pa_hops p)) (last (pa_hops p)) [] hop"
    and p: "own_vacant i p ctx" "hop_sized (hd (pa_hops p))" "pa_status p = ePathBuilding" "pa_BuiltHook p"
  shows "\<exists>evs m ctx' q evs'. TransitHop_SendRoutingMessage (fst (last ns)) hop (PathConfirm c) = Some (True, evs) \<and>
    carry_down (tl (rev ns)) (pv_pubkey (fst (last ns))) evs = Some [RouterSend us (RelayDownstream m)] \<and>
    RelayDownstreamMessage_HandleMessage E (m\<lparr>rm_remote := Upstream p\<rparr>) (AddOwnPath i p ctx) =
      Some (True, ctx', PathBuilt (RXID p) # evs') \<and>
    PathSet_GetByUpstream (Upstream p) (RXID p) (pc_PathBuilders ctx' ! i) = Some q \<and>
    pa_status q = ePathEstablished \<and> pa_hops q = pa_hops p"
proof -
  note found = own_found [OF p(1,2)]
  have E: "pv_sodium E = S" using S(3) by (simp add: env_ok_def)
  from down_handled [OF S(1,2) E c w found(1) hop] obtain evs m where
    d: "TransitHop_SendRoutingMessage (fst (last ns)) hop (PathConfirm c) = Some (True, evs)"
    "carry_down (tl (rev ns)) (pv_pubkey (fst (last ns))) evs = Some [RouterSend us (RelayDownstream m)]"
    "RelayDownstreamMessage_HandleMessage E (m\<lparr>rm_remote := Upstream p\<rparr>) (AddOwnPath i p ctx) =
      path_handles E i p (PathConfirm c) (AddOwnPath i p ctx)" by blast
  from confirm_handled [OF S(3) p(3,4)] obtain q evs' where
    q: "Path_handler E (PathConfirm c) (p, []) = Some (True, q, PathBuilt (RXID p) # evs')"
      "pa_status q = ePathEstablished" "pa_hops q = pa_hops p" by blast
  let ?s = "pc_PathBuilders (AddOwnPath i p ctx) ! i"
  let ?ctx = "(AddOwnPath i p ctx)\<lparr>pc_PathBuilders := (pc_PathBuilders (AddOwnPath i p ctx))[i :=
      ?s\<lparr>ps_Paths := map_put PathInfo_less (Upstream p, RXID p) q (ps_Paths ?s)\<rparr>]\<rparr>"
  have "path_handles E i p (PathConfirm c) (AddOwnPath i p ctx) = Some (True, ?ctx, PathBuilt (RXID p) # evs')"
    using q(1) by (simp add: path_handles_def Let_def)
  moreover have "i < length (pc_PathBuilders (AddOwnPath i p ctx))"
    using p(1) by (simp add: own_vacant_def AddOwnPath_def)
  then have "PathSet_GetByUpstream (Upstream p) (RXID p) (pc_PathBuilders ?ctx ! i) = Some q"
    using found(2) [of q] by simp
  ultimately show ?thesis using d q(2,3) by metis
qed

text \<open>The last router's job sends the confirmation.\<close>

lemma confirmation_returns:
  assumes S: "xor_stream S" "env_ok S (le_env L)" "env_ok S E" and L: "fst (last ns) = le_env L" "pv_now (le_env L) \<noteq> -1"
    and w: "wired S us (TXID p) (pa_hops p) ns" "pa_hops p \<noteq> []" "keys_ok (pa_hops p)"
    and hop: "hop_for (before_last us (pa_hops p)) (last (pa_hops p)) [] hop" "th_lifetime hop = DEFAULT_PATH_LIFETIME"
      "LRCM_finish L (SendPathConfirm hop) = Some evs"
    and p: "own_vacant i p ctx" "hop_sized (hd (pa_hops p))" "pa_status p = ePathBuilding" "pa_BuiltHook p"
  shows "\<exists>m ctx' q evs'. carry_down (tl (rev ns)) (pv_pubkey (le_env L)) evs = Some [RouterSend us (RelayDownstream m)] \<and>
    RelayDownstreamMessage_HandleMessage E (m\<lparr>rm_remote := Upstream p\<rparr>) (AddOwnPath i p ctx) =
      Some (True, ctx', PathBuilt (RXID p) # evs') \<and>
    PathSet_GetByUpstream (Upstream p) (RXID p) (pc_PathBuilders ctx' ! i) = Some q \<and>
    pa_status q = ePathEstablished \<and> pa_hops q = pa_hops p"
proof -
  let ?c = "PathConfirmMessage_of (pv_now (le_env L)) DEFAULT_PATH_LIFETIME"
  have "routing_valid (PathConfirm ?c)" using L(2) by (simp add: PathConfirmMessage_of_def DEFAULT_PATH_LIFETIME_def)
  from confirmed [OF S(1) _ S(3) this w hop(1) p] S(2) hop(2,3) show ?thesis by (auto simp: L(1) LRCM_finish_def)
qed

section \<open>Properties\<close>

text \<open>
  C1. Building a path works. The builder chooses up to eight routers, makes their keys and sends one
  commit message to the first. If the routers are the ones the contacts name, allow transit and do
  not use the path ids already, then each opens its frame, agrees on its key and passes the message
  on; the confirmation of the last comes down through all of them; the builder finds the path,
  takes it as established and reports it. The routers are wired, so traffic can flow.
\<close>

theorem path_established:
  assumes S: "sodium_ok S" "xor_stream S" "pv_sodium E = S"
    and start: "pathbuilder_start_build mem t st tx rx select job = Some p"
      "\<And>i. length (tx i) = PATHIDSIZE \<and> length (rx i) = PATHIDSIZE" "bj_numHops job \<le> MAXHOPS"
    and routers: "ready S us (pa_hops p) ns" "length us = 32"
      "env_ok S (le_env (fst (last ns)))" "pv_now (le_env (fst (last ns))) \<noteq> -1"
    and keygen: "list_all2 (\<lambda>km n. keys_agree S km (le_seckey (fst n))) kms ns" "\<And>i. frame_size \<le> length (junk i)"
    and own: "own_vacant i p ctx" and E': "env_ok S E'"
  shows "\<exists>p2 frames ctx2 sent ctxs evs m ctx3 q evs2.
    AsyncGenerateKeys E junk kms p = Some (KeyDone, p2, frames) \<and>
    pathbuilder_generated_keys E i p2 frames ctx = (ctx2, sent) \<and>
    carry_lrcm ns us sent = Some (ctxs, evs) \<and>
    wired S us (TXID p2) (pa_hops p2) (zip (map (\<lambda>n. le_env (fst n)) ns) ctxs) \<and>
    carry_down (tl (rev (zip (map (\<lambda>n. le_env (fst n)) ns) ctxs))) (pv_pubkey (le_env (fst (last ns)))) evs =
      Some [RouterSend us (RelayDownstream m)] \<and>
    RelayDownstreamMessage_HandleMessage E' (m\<lparr>rm_remote := Upstream p2\<rparr>) ctx2 =
      Some (True, ctx3, PathBuilt (RXID p2) # evs2) \<and>
    PathSet_GetByUpstream (Upstream p2) (RXID p2) (pc_PathBuilders ctx3 ! i) = Some q \<and>
    pa_status q = ePathEstablished \<and> pa_hops q = pa_hops p2"
proof -
  note st = started_path [OF start(1,2)]
  have sized: "list_all hop_sized (pa_hops p)" by (rule ready_sized [OF routers(1) st(5)])
  let ?bs = "map (\<lambda>n. le_seckey (fst n)) ns"
  let ?hs = "keyed_all S kms ?bs (pa_hops p)"
  let ?p2 = "p\<lparr>pa_hops := ?hs\<rparr>" and ?p3 = "p\<lparr>pa_hops := ?hs, pa_status := ePathBuilding, pa_buildStarted := pv_now E\<rparr>"
  have len: "length ns = length (pa_hops p)" "length kms = length (pa_hops p)" "length ?bs = length (pa_hops p)"
    using ready_length [OF routers(1)] list_all2_lengthD [OF keygen(1)] by simp_all
  obtain h hs where p: "pa_hops p = h # hs" using st(1) by (cases "pa_hops p") auto
  have hd: "hc_txID (hd ?hs) = hc_txID h" "hc_rxID (hd ?hs) = hc_rxID h" "hc_router (hd ?hs) = hc_router h" "?hs \<noteq> []"
    using len by (cases kms; cases ?bs; simp add: p)+
  from keys_generated [OF S(1,3) routers(1) sized st(1) _ keygen(1), where junk = junk] keygen(2) start(3) st(2) obtain fs tail where
    k: "AsyncGenerateKeys E junk kms p = Some (KeyDone, ?p2, fs @ tail)" "length fs + length tail = 8"
      "all_sealed S ?bs ?hs fs" by auto
  from commit_passes [OF S(1) routers(1) st(1,3) sized routers(2) keygen(1) k(3,2), of "hc_txID h"] routers(3)
  obtain ctxs evs hop where c: "carry_lrcm ns us [RouterSend (rc_pubkey (hc_router h))
      (LR_Commit \<lparr>lrcm_remote = replicate 32 0, lrcm_version = 0, lrcm_frames = fs @ tail\<rparr>)] = Some (ctxs, evs)"
    "length ctxs = length ns" "wired S us (hc_txID h) ?hs (zip (map (\<lambda>n. le_env (fst n)) ns) ctxs)"
    "hop_for (before_last us ?hs) (last ?hs) [] hop"
    "LRCM_finish (fst (last ns)) (SendPathConfirm hop) = Some evs" "th_lifetime hop = DEFAULT_PATH_LIFETIME"
    by (auto simp: p)
  let ?ns = "zip (map (\<lambda>n. le_env (fst n)) ns) ctxs"
  have "ns \<noteq> []" "ctxs \<noteq> []" using len c(2) by (auto simp: p)
  then have last: "fst (last ?ns) = le_env (fst (last ns))" using c(2) by (simp add: last_zip last_map)
  have ids: "Upstream ?p3 = Upstream ?p2" "RXID ?p3 = RXID ?p2" "TXID ?p2 = hc_txID h" "TXID ?p3 = hc_txID h"
      "Upstream ?p2 = rc_pubkey (hc_router h)" "RXID ?p3 = RXID p" "Upstream ?p3 = Upstream p"
    using hd by (simp_all add: Upstream_def RXID_def TXID_def p)
  have own': "own_vacant i ?p3 ctx" using own unfolding own_vacant_def ids(6,7) .
  have p3: "wired S us (TXID ?p3) (pa_hops ?p3) ?ns" "pa_hops ?p3 \<noteq> []" "keys_ok (pa_hops ?p3)"
      "hop_for (before_last us (pa_hops ?p3)) (last (pa_hops ?p3)) [] hop" "own_vacant i ?p3 ctx" "hop_sized (hd (pa_hops ?p3))"
      "pa_status ?p3 = ePathBuilding" "pa_BuiltHook ?p3"
    using c(3,4) hd ids(4) keyed_all_ok [OF S(1), of kms ?bs] keygen(1) len sized st(4) own'
    by (simp_all add: list_all2_map2 hop_sized_def p)
  from confirmation_returns [OF S(2) routers(3) E' last routers(4) p3(1-4) c(6,5) p3(5-8)] obtain m ctx' q evs' where
    d: "carry_down (tl (rev ?ns)) (pv_pubkey (le_env (fst (last ns)))) evs = Some [RouterSend us (RelayDownstream m)]"
    "RelayDownstreamMessage_HandleMessage E' (m\<lparr>rm_remote := Upstream ?p2\<rparr>) (AddOwnPath i ?p3 ctx) =
      Some (True, ctx', PathBuilt (RXID ?p2) # evs')"
    "PathSet_GetByUpstream (Upstream ?p2) (RXID ?p2) (pc_PathBuilders ctx' ! i) = Some q"
    "pa_status q = ePathEstablished" "pa_hops q = pa_hops ?p2" unfolding ids(1,2) by auto
  have "pathbuilder_generated_keys E i ?p2 (fs @ tail) ctx = (AddOwnPath i ?p3 ctx, [RouterSend (rc_pubkey (hc_router h))
      (LR_Commit \<lparr>lrcm_remote = replicate 32 0, lrcm_version = 0, lrcm_frames = fs @ tail\<rparr>)])"
    using ids(5) by (simp add: pathbuilder_generated_keys_def Let_def)
  moreover have "wired S us (TXID ?p2) (pa_hops ?p2) ?ns" using c(3) ids(3) by simp
  ultimately show ?thesis using k(1) c(1) d by blast
qed

text \<open>A path over two routers, built from scratch.\<close>

definition example_node :: "byte \<Rightarrow> lrcm_env \<times> PathContext" where
  "example_node i = (\<lparr>le_env = example_env i, le_seckey = example_key (10 + i), le_junk = (\<lambda>n. replicate n 0),
     le_record = \<lparr>cr_commkey = [], cr_nextHop = [], cr_tunnelNonce = [], cr_txid = [], cr_rxid = [], cr_work = None,
       cr_version = 0\<rparr>, le_pow = \<lparr>pow_router = [], pow_version = 0, pow_extendedLifetime = 0, pow_nonce = []\<rparr>, le_log = (\<lambda>_. 0)\<rparr>, AllowTransit PathContext_new)"

definition example_select :: "udap_rc option \<Rightarrow> nat \<Rightarrow> udap_rc" where
  "example_select prev idx = rc_zero\<lparr>rc_pubkey := replicate 32 (of_nat idx + 1),
     rc_enckey := seckey_topublic (example_key (of_nat idx + 11))\<rparr>"

definition example_keys :: "byte \<Rightarrow> hop_keys" where
  "example_keys i = \<lparr>hk_commkey = example_key (20 + i), hk_nonce = replicate 32 i, hk_framekey = example_key (30 + i),
     hk_framenonce = replicate 32 (40 + i)\<rparr>"

definition example_start :: "Path option" where
  "example_start = pathbuilder_start_build (\<lambda>n. replicate n 0) 0 ePathBuilding (\<lambda>i. replicate PATHIDSIZE (of_nat i + 50))
     (\<lambda>i. replicate PATHIDSIZE (of_nat i + 60)) example_select \<lparr>bj_context = Some 0, bj_selectHop = None, bj_numHops = 2\<rparr>"

lemma example_start_hops:
  "\<exists>p a b. example_start = Some p \<and> pa_hops p = [a, b] \<and> hop_sized a \<and> hop_sized b \<and>
    rc_pubkey (hc_router a) = replicate 32 1 \<and> rc_pubkey (hc_router b) = replicate 32 2 \<and>
    rc_enckey (hc_router a) = seckey_topublic (example_key 11) \<and> rc_enckey (hc_router b) = seckey_topublic (example_key 12)"
  by (simp add: example_start_def pathbuilder_start_build_def Path_new_def numeral_2_eq_2 example_select_def hop_sized_def
      udap_rc_copy_def Let_def rc_zero_def)

lemma example_ready:
  assumes "pa_hops p = [a, b]" "rc_pubkey (hc_router a) = replicate 32 1" "rc_pubkey (hc_router b) = replicate 32 2"
    "rc_enckey (hc_router a) = seckey_topublic (example_key 11)" "rc_enckey (hc_router b) = seckey_topublic (example_key 12)"
  shows "ready example_sodium (replicate 32 9) (pa_hops p) [example_node 1, example_node 2]"
proof -
  have "vacant prev hc hs (AllowTransit PathContext_new)" for prev hc hs
    using transit_inv_new by (simp add: vacant_def GetByDownstream_def GetByUpstream_def MapGet_def equal_range_def
        AllowTransit_def PathContext_new_def transit_inv_def)
  then show ?thesis
    using assms by (simp add: example_node_def example_env_def next_id_def)
qed

theorem path_established_witness:
  "\<exists>p p2 frames ctx2 sent ctxs evs m ctx3 q evs2. example_start = Some p \<and>
    AsyncGenerateKeys (example_env 9) (\<lambda>_. replicate frame_size 0) [example_keys 1, example_keys 2] p = Some (KeyDone, p2, frames) \<and>
    pathbuilder_generated_keys (example_env 9) 0 p2 frames (AddPathBuilder (PathSet_new 1) PathContext_new) = (ctx2, sent) \<and>
    carry_lrcm [example_node 1, example_node 2] (replicate 32 9) sent = Some (ctxs, evs) \<and>
    RelayDownstreamMessage_HandleMessage (example_env 9) (m\<lparr>rm_remote := Upstream p2\<rparr>) ctx2 =
      Some (True, ctx3, PathBuilt (RXID p2) # evs2) \<and>
    PathSet_GetByUpstream (Upstream p2) (RXID p2) (pc_PathBuilders ctx3 ! 0) = Some q \<and> pa_status q = ePathEstablished"
proof -
  from example_start_hops obtain p a b where p: "example_start = Some p" "pa_hops p = [a, b]"
      "rc_pubkey (hc_router a) = replicate 32 1" "rc_pubkey (hc_router b) = replicate 32 2"
      "rc_enckey (hc_router a) = seckey_topublic (example_key 11)" "rc_enckey (hc_router b) = seckey_topublic (example_key 12)"
    by blast
  have own: "own_vacant 0 p (AddPathBuilder (PathSet_new 1) PathContext_new)"
    by (simp add: own_vacant_def AddPathBuilder_def PathSet_new_def PathContext_new_def PathSet_GetByUpstream_def)
  have keys: "list_all2 (\<lambda>km n. keys_agree example_sodium km (le_seckey (fst n))) [example_keys 1, example_keys 2]
      [example_node 1, example_node 2]"
    by (simp add: keys_agree_def example_keys_def example_node_def example_agree size_defs)
  show ?thesis
    using path_established [OF example_sodium_ok example_xor _ p(1) [unfolded example_start_def] _ _
        example_ready [OF p(2-)] _ _ _ keys _ own example_env_ok, of "example_env 9" "\<lambda>_. replicate frame_size 0" 9] p(1)
    by (simp add: example_node_def example_env_ok, simp add: example_env_def MAXHOPS_def) blast
qed

end
