(* ===== verification/Nodedb.thy ===== *)
theory Nodedb
  imports Router_Contact "HOL-Library.AList"
begin

text \<open>
  The database of router contacts (\<open>udap/nodedb.cpp\<close>): the contacts in memory, one file for each
  of them on disk, the jobs that verify, store and load a contact, and the choice of a random hop.
  \<open>std::unordered_map\<close> is an association list with one entry for a key; its order is the order of
  iteration, about which nothing is assumed. \<open>None\<close> is undefined behaviour.
\<close>

section \<open>Surroundings\<close>

text \<open>
  What the operations take from their surroundings: the text of addresses, the check of
  signatures, uninitialised stack arrays and objects, which files can be opened for writing, and
  the directory listings (name and whether it is a regular file; \<open>None\<close> when there is no such
  directory, for which the iterator throws).
\<close>

record nodedb_env =
  ne_ntop :: ntop
  ne_pton :: pton
  ne_verify :: verifier
  ne_stack :: "byte list"
  ne_ai :: udap_ai
  ne_rc :: udap_rc
  ne_writable :: "byte list \<Rightarrow> bool"
  ne_ls :: "byte list \<Rightarrow> (byte list \<times> bool) list option"

type_synonym disk = "byte list \<rightharpoonup> byte list"

record udap_nodedb =
  nd_entries :: "(byte list \<times> udap_rc) list"
  nd_nodePath :: "byte list"

definition udap_nodedb_new :: udap_nodedb where
  "udap_nodedb_new = \<lparr>nd_entries = [], nd_nodePath = []\<rparr>"

section \<open>Entries\<close>

definition Clear :: "udap_nodedb \<Rightarrow> udap_nodedb" where
  "Clear db = db\<lparr>nd_entries := []\<rparr>"

text \<open>\<open>entries[pk]\<close>: a key that is not there gets a contact of zeros.\<close>

definition getRC :: "byte list \<Rightarrow> udap_nodedb \<Rightarrow> udap_rc \<times> udap_nodedb" where
  "getRC pk db =
     (case map_of (nd_entries db) pk of
        Some rc \<Rightarrow> (rc, db)
      | None \<Rightarrow> (rc_zero, db\<lparr>nd_entries := AList.update pk rc_zero (nd_entries db)\<rparr>))"

definition Has :: "byte list \<Rightarrow> udap_nodedb \<Rightarrow> bool" where
  "Has pk db \<longleftrightarrow> map_of (nd_entries db) pk \<noteq> None"

definition pubKeyExists :: "udap_rc \<Rightarrow> udap_nodedb \<Rightarrow> bool" where
  "pubKeyExists rc db \<longleftrightarrow> map_of (nd_entries db) (rc_pubkey rc) \<noteq> None"

text \<open>
  When both contacts are encoded, \<open>memcmp\<close> gets the addresses of the buffer objects, three words
  each, and the size of the arrays: it reads past the objects.
\<close>

definition nodedb_check :: "nodedb_env \<Rightarrow> udap_rc \<Rightarrow> udap_nodedb \<Rightarrow> bool option" where
  "nodedb_check E rc db =
     (case map_of (nd_entries db) (rc_pubkey rc) of
        None \<Rightarrow> Some False
      | Some entry \<Rightarrow> do {
          (ok, nodebuf) \<leftarrow> udap_rc_bencode (ne_ntop E) entry (StackBuffer (ne_stack E));
          if \<not> ok then Some False
          else do {
            (ok, parambuf) \<leftarrow> udap_rc_bencode (ne_ntop E) rc (StackBuffer (ne_stack E));
            if ok \<and> b_sz nodebuf = b_sz parambuf then None else Some False
          }
        })"

text \<open>\<open>filepath.append(&hexString[hexString.length() - 1])\<close> appends the last digit.\<close>

definition getRCFilePath :: "byte list \<Rightarrow> udap_nodedb \<Rightarrow> byte list" where
  "getRCFilePath pubkey db =
     (let hexname = HexEncode pubkey
      in nd_nodePath db @ lit ''/'' @ [last hexname] @ lit ''/'' @ hexname @ lit ''.signed'')"

definition setRC ::
  "nodedb_env \<Rightarrow> udap_rc \<Rightarrow> udap_nodedb \<Rightarrow> disk \<Rightarrow> (bool \<times> udap_nodedb \<times> disk) option" where
  "setRC E rc db d = do {
     let pk = rc_pubkey rc;
     let entry = udap_rc_copy rc_zero rc;
     let db = db\<lparr>nd_entries := AList.update pk entry (nd_entries db)\<rparr>;
     (ok, buf) \<leftarrow> udap_rc_bencode (ne_ntop E) entry (StackBuffer (ne_stack E));
     Some (if \<not> ok then (False, db, d)
           else let filepath = getRCFilePath pk db
                in if ne_writable E filepath then (True, db, d(filepath \<mapsto> encoded buf)) else (False, db, d))
   }"

definition loadfile :: "nodedb_env \<Rightarrow> byte list \<Rightarrow> disk \<Rightarrow> udap_nodedb \<Rightarrow> (bool \<times> udap_nodedb) option" where
  "loadfile E fpath d db = do {
     rc \<leftarrow> udap_rc_read (ne_pton E) (ne_ai E) (ne_stack E) (ne_rc E) (d fpath);
     (case rc of
        None \<Rightarrow> Some (False, db)
      | Some rc \<Rightarrow> do {
          (valid, rc) \<leftarrow> udap_rc_verify_sig (ne_ntop E) (ne_verify E) (ne_stack E) rc;
          Some (if \<not> valid then (False, db)
                else (True, db\<lparr>nd_entries := AList.update (rc_pubkey rc) rc (nd_entries db)\<rparr>))
        })
   }"

section \<open>Loading the directory\<close>

datatype load_error = Undefined | NoDirectory

fun load_files ::
  "nodedb_env \<Rightarrow> byte list \<Rightarrow> disk \<Rightarrow> (byte list \<times> bool) list \<Rightarrow> int \<Rightarrow> udap_nodedb \<Rightarrow> load_error + int \<times> udap_nodedb" where
  "load_files E dir d [] sz db = Inr (sz, db)"
| "load_files E dir d ((name, regular) # rest) sz db =
     (if \<not> regular then load_files E dir d rest sz db
      else (case loadfile E (dir @ lit ''/'' @ name) d db of
              None \<Rightarrow> Inl Undefined
            | Some (ok, db) \<Rightarrow> load_files E dir d rest (if ok then sz + 1 else sz) db))"

definition loadSubdir ::
  "nodedb_env \<Rightarrow> byte list \<Rightarrow> disk \<Rightarrow> udap_nodedb \<Rightarrow> load_error + int \<times> udap_nodedb" where
  "loadSubdir E dir d db =
     (case ne_ls E dir of None \<Rightarrow> Inl NoDirectory | Some files \<Rightarrow> load_files E dir d files 0 db)"

text \<open>The loop over the array of subdirectory names also takes its terminating zero.\<close>

definition skiplist_subdirs :: "byte list" where
  "skiplist_subdirs = lit ''0123456789abcdef'' @ [0]"

fun load_subdirs ::
  "nodedb_env \<Rightarrow> byte list \<Rightarrow> disk \<Rightarrow> byte list \<Rightarrow> int \<Rightarrow> udap_nodedb \<Rightarrow> load_error + int \<times> udap_nodedb" where
  "load_subdirs E path d [] loaded db = Inr (loaded, db)"
| "load_subdirs E path d (ch # chs) loaded db =
     (case loadSubdir E (path @ lit ''/'' @ [ch]) d db of
        Inl e \<Rightarrow> Inl e
      | Inr (l, db) \<Rightarrow> load_subdirs E path d chs (if l > 0 then loaded + l else loaded) db)"

text \<open>\<open>fs::exists\<close>: a path that exists is taken to be a directory that can be listed.\<close>

definition udap_nodedb_load_dir ::
  "nodedb_env \<Rightarrow> byte list \<Rightarrow> disk \<Rightarrow> udap_nodedb \<Rightarrow> load_error + int \<times> udap_nodedb" where
  "udap_nodedb_load_dir E dir d db =
     (if ne_ls E dir = None then Inr (-1, db)
      else load_subdirs E dir d skiplist_subdirs 0 (db\<lparr>nd_nodePath := dir\<rparr>))"

definition udap_nodedb_iterate_all :: "(nat \<Rightarrow> udap_rc \<Rightarrow> 's \<Rightarrow> 's) \<Rightarrow> udap_nodedb \<Rightarrow> 's \<Rightarrow> nat \<times> 's" where
  "udap_nodedb_iterate_all visit db s =
     (length (nd_entries db), fold (\<lambda>(i, x). visit i (snd x)) (List.enumerate 0 (nd_entries db)) s)"

section \<open>Jobs\<close>

text \<open>
  A verification job passes from the crypto workers to the disk worker, when the signature is good,
  and ends in the hook on the logic thread.
\<close>

record udap_async_verify_rc =
  vj_rc :: udap_rc
  vj_valid :: bool

datatype verify_stage = CryptoVerify udap_async_verify_rc | DiskSetRC udap_async_verify_rc | LogicHook udap_async_verify_rc

definition crypto_threadworker_verifyrc :: "nodedb_env \<Rightarrow> udap_async_verify_rc \<Rightarrow> verify_stage option" where
  "crypto_threadworker_verifyrc E job = do {
     (valid, rc) \<leftarrow> udap_rc_verify_sig (ne_ntop E) (ne_verify E) (ne_stack E) (vj_rc job);
     let job = job\<lparr>vj_rc := rc, vj_valid := valid\<rparr>;
     Some (if valid then DiskSetRC job else LogicHook job)
   }"

definition disk_threadworker_setRC ::
  "nodedb_env \<Rightarrow> udap_async_verify_rc \<Rightarrow> udap_nodedb \<Rightarrow> disk \<Rightarrow> (verify_stage \<times> udap_nodedb \<times> disk) option" where
  "disk_threadworker_setRC E job db d = do {
     (ok, db, d) \<leftarrow> setRC E (vj_rc job) db d;
     Some (LogicHook (job\<lparr>vj_valid := ok\<rparr>), db, d)
   }"

text \<open>All stages of one job, up to the call of the hook.\<close>

definition udap_nodedb_async_verify ::
  "nodedb_env \<Rightarrow> udap_async_verify_rc \<Rightarrow> udap_nodedb \<Rightarrow> disk \<Rightarrow> (udap_async_verify_rc \<times> udap_nodedb \<times> disk) option" where
  "udap_nodedb_async_verify E job db d = do {
     st \<leftarrow> crypto_threadworker_verifyrc E job;
     (case st of
        DiskSetRC job \<Rightarrow> do {
          (st, db, d) \<leftarrow> disk_threadworker_setRC E job db d;
          (case st of LogicHook job \<Rightarrow> Some (job, db, d) | _ \<Rightarrow> None)
        }
      | LogicHook job \<Rightarrow> Some (job, db, d)
      | CryptoVerify _ \<Rightarrow> None)
   }"

record udap_async_load_rc =
  lj_rc :: udap_rc
  lj_pubkey :: "byte list"
  lj_loaded :: bool

definition nodedb_async_load_rc ::
  "nodedb_env \<Rightarrow> udap_async_load_rc \<Rightarrow> udap_nodedb \<Rightarrow> disk \<Rightarrow> (udap_async_load_rc \<times> udap_nodedb) option" where
  "nodedb_async_load_rc E job db d = do {
     (loaded, db) \<leftarrow> loadfile E (getRCFilePath (lj_pubkey job) db) d db;
     Some (if loaded
           then let (rc, db) = getRC (lj_pubkey job) db
                in (job\<lparr>lj_loaded := True, lj_rc := udap_rc_copy (udap_rc_clear (lj_rc job)) rc\<rparr>, db)
           else (job\<lparr>lj_loaded := False\<rparr>, db))
   }"

definition udap_nodedb_get_rc :: "byte list \<Rightarrow> udap_nodedb \<Rightarrow> udap_rc option" where
  "udap_nodedb_get_rc pk db = (if Has pk db then Some (fst (getRC pk db)) else None)"

definition udap_nodedb_num_loaded :: "udap_nodedb \<Rightarrow> nat" where
  "udap_nodedb_num_loaded db = length (nd_entries db)"

section \<open>Random hops\<close>

text \<open>
  The rounds of the loop are a list of the results of \<open>rand()\<close>, which a round draws when there is more
  than one entry. \<open>Spins\<close>: the loop has not ended in these rounds. \<open>NoEntry\<close>: \<open>begin()\<close> of an empty map
  is dereferenced.
\<close>

datatype hop_choice = Hop udap_rc | Spins | NoEntry

definition pick :: "nat \<Rightarrow> (byte list \<times> udap_rc) list \<Rightarrow> udap_rc" where
  "pick r es = snd (es ! (if length es > 1 then r mod length es else 0))"

fun select_loop :: "nat list \<Rightarrow> udap_rc \<Rightarrow> (byte list \<times> udap_rc) list \<Rightarrow> hop_choice" where
  "select_loop [] prev es = Spins"
| "select_loop (r # rs) prev es =
     (if memcmp (rc_pubkey prev) (rc_pubkey (pick r es)) = 0 then select_loop rs prev es
      else Hop (udap_rc_copy rc_zero (pick r es)))"

definition udap_nodedb_select_random_hop :: "nat list \<Rightarrow> udap_rc option \<Rightarrow> udap_nodedb \<Rightarrow> hop_choice" where
  "udap_nodedb_select_random_hop rands prev db =
     (if nd_entries db = [] then NoEntry
      else (case prev of
              Some prev \<Rightarrow> select_loop rands prev (nd_entries db)
            | None \<Rightarrow> (case rands of [] \<Rightarrow> Spins
                       | r # _ \<Rightarrow> Hop (udap_rc_copy rc_zero (pick r (nd_entries db))))))"

section \<open>Lemmas\<close>

definition nodedb_inv :: "udap_nodedb \<Rightarrow> bool" where
  "nodedb_inv db \<longleftrightarrow> distinct (map fst (nd_entries db)) \<and>
     (\<forall>(k, rc) \<in> set (nd_entries db). rc_pubkey rc = k \<and> length k = PUBKEYSIZE)"

lemma inv_update:
  assumes "nodedb_inv db" "length (rc_pubkey rc) = PUBKEYSIZE"
  shows "nodedb_inv (db\<lparr>nd_entries := AList.update (rc_pubkey rc) rc (nd_entries db)\<rparr>)"
proof -
  have "set (AList.update k v es) \<subseteq> insert (k, v) (set es)" for k v and es :: "(byte list \<times> udap_rc) list"
    by (induction es) auto
  then show ?thesis
    using assms distinct_update [of "nd_entries db" "rc_pubkey rc" rc] by (fastforce simp: nodedb_inv_def)
qed

lemma get_rc_eq: "udap_nodedb_get_rc pk db = map_of (nd_entries db) pk"
  by (simp add: udap_nodedb_get_rc_def Has_def getRC_def split: option.split)

lemma setRC_stores:
  assumes "inet_ok (ne_ntop E) (ne_pton E)" "rc_valid uninit rc"
    and "length (rc_bytes (ne_ntop E) rc) < MAX_RC_SIZE" "length (ne_stack E) = MAX_RC_SIZE"
    and "ne_writable E (getRCFilePath (rc_pubkey rc) db)"
  shows "setRC E rc db d = Some (True, db\<lparr>nd_entries := AList.update (rc_pubkey rc) rc (nd_entries db)\<rparr>,
      d(getRCFilePath (rc_pubkey rc) db \<mapsto> rc_bytes (ne_ntop E) rc))"
proof -
  obtain b where "udap_rc_bencode (ne_ntop E) rc (StackBuffer (ne_stack E)) = Some (True, b)"
    "encoded b = rc_bytes (ne_ntop E) rc"
    using emits_stack [OF emits_rc [OF assms(1,2)]] assms(3,4) by metis
  then show ?thesis
    using assms(5) by (simp add: setRC_def copy_is_source getRCFilePath_def Let_def)
qed

lemma verify_keeps:
  assumes "udap_rc_verify_sig ntop verify stack rc = Some (ok, rc')" shows "rc' = rc"
  using assms by (cases rc) (auto simp: udap_rc_verify_sig_def Let_def split: bind_splits prod.splits)

lemma verify_result:
  assumes "udap_nodedb_async_verify E job db d = Some (job', db', d')"
  shows "vj_rc job' = vj_rc job \<and>
    (\<exists>valid. udap_rc_verify_sig (ne_ntop E) (ne_verify E) (ne_stack E) (vj_rc job) = Some (valid, vj_rc job) \<and>
      (if valid then db' = db\<lparr>nd_entries := AList.update (rc_pubkey (vj_rc job)) (vj_rc job) (nd_entries db)\<rparr>
       else \<not> vj_valid job' \<and> db' = db \<and> d' = d))"
proof -
  obtain valid where v: "udap_rc_verify_sig (ne_ntop E) (ne_verify E) (ne_stack E) (vj_rc job) = Some (valid, vj_rc job)"
    using assms verify_keeps
    by (auto simp: udap_nodedb_async_verify_def crypto_threadworker_verifyrc_def split: bind_splits)
  show ?thesis
  proof (cases valid)
    case True
    then have "vj_rc job' = vj_rc job" "db' = db\<lparr>nd_entries := AList.update (rc_pubkey (vj_rc job)) (vj_rc job) (nd_entries db)\<rparr>"
      using assms v
      by (auto simp: udap_nodedb_async_verify_def crypto_threadworker_verifyrc_def disk_threadworker_setRC_def
          setRC_def copy_is_source Let_def split: bind_splits if_splits)
    with v True show ?thesis by simp
  next
    case False
    then have "job' = job\<lparr>vj_rc := vj_rc job, vj_valid := False\<rparr> \<and> db' = db \<and> d' = d"
      using assms v by (simp add: udap_nodedb_async_verify_def crypto_threadworker_verifyrc_def)
    with v False show ?thesis by simp
  qed
qed

section \<open>Properties\<close>

text \<open>
  C8. A contact that was stored is found again, now and after a restart: it is in the memory of the
  database, and another database on the same directory loads it from its file, signature
  checked, and gets the same contact.
\<close>

theorem stored_contact_loads:
  assumes "inet_ok (ne_ntop E) (ne_pton E)" "rc_valid (ne_ai E) rc"
    and "length (rc_bytes (ne_ntop E) rc) < MAX_RC_SIZE" "length (ne_stack E) = MAX_RC_SIZE"
    and "ne_writable E (getRCFilePath (rc_pubkey rc) db)"
    and "udap_rc_verify_sig (ne_ntop E) (ne_verify E) (ne_stack E) rc = Some (True, rc)"
    and "nd_nodePath db2 = nd_nodePath db" "lj_pubkey job = rc_pubkey rc"
  shows "\<exists>db' d'. setRC E rc db d = Some (True, db', d') \<and> udap_nodedb_get_rc (rc_pubkey rc) db' = Some rc \<and>
    (\<exists>db2'. nodedb_async_load_rc E job db2 d' = Some (job\<lparr>lj_loaded := True, lj_rc := rc\<rparr>, db2') \<and>
      udap_nodedb_get_rc (rc_pubkey rc) db2' = Some rc)"
proof -
  let ?f = "getRCFilePath (rc_pubkey rc) db"
  have "getRCFilePath (lj_pubkey job) db2 = ?f" using assms(7,8) by (simp add: getRCFilePath_def)
  moreover have "udap_rc_read (ne_pton E) (ne_ai E) (ne_stack E) (ne_rc E) (Some (rc_bytes (ne_ntop E) rc)) = Some (Some rc)"
    by (rule rc_file_read [OF assms(1-4)])
  ultimately have "nodedb_async_load_rc E job db2 (d(?f \<mapsto> rc_bytes (ne_ntop E) rc)) =
      Some (job\<lparr>lj_loaded := True, lj_rc := rc\<rparr>, db2\<lparr>nd_entries := AList.update (rc_pubkey rc) rc (nd_entries db2)\<rparr>)"
    using assms(6,8) by (simp add: nodedb_async_load_rc_def loadfile_def getRC_def update_conv' copy_is_source)
  then show ?thesis
    using setRC_stores [OF assms(1-5), of d]
    by (simp add: get_rc_eq update_conv')
qed

definition example_nodedb_env :: nodedb_env where
  "example_nodedb_env = \<lparr>ne_ntop = hex_ntop, ne_pton = HexDecode, ne_verify = (\<lambda>pk m sig. sig = replicate 64 5),
     ne_stack = replicate 1024 0, ne_ai = uninit_ai, ne_rc = rc_zero, ne_writable = (\<lambda>_. True), ne_ls = (\<lambda>_. None)\<rparr>"

lemma example_verifies:
  "udap_rc_verify_sig hex_ntop (\<lambda>pk m sig. sig = s) (replicate 1024 0) example_rc =
    Some (s = replicate 64 5, example_rc)"
proof -
  let ?z = "example_rc\<lparr>rc_signature := replicate SIGSIZE 0\<rparr>"
  have "rc_valid uninit_ai ?z" using example_rc_valid by (simp add: rc_valid_def)
  moreover have "length (rc_bytes hex_ntop ?z) < MAX_RC_SIZE"
    using example_rc_fits by (simp add: rc_bytes_def example_rc_def size_defs bstr_def)
  ultimately obtain b where "udap_rc_bencode hex_ntop ?z (StackBuffer (replicate 1024 0)) = Some (True, b)"
    using emits_stack [OF emits_rc [OF inet_ok_hex], of uninit_ai ?z "replicate 1024 0"] by (auto simp: MAX_RC_SIZE_def)
  then show ?thesis by (auto simp: udap_rc_verify_sig_def Let_def) (simp_all add: example_rc_def)
qed

theorem stored_contact_loads_witness:
  "\<exists>db' d' db2'. setRC example_nodedb_env example_rc udap_nodedb_new (\<lambda>_. None) = Some (True, db', d') \<and>
    nodedb_async_load_rc example_nodedb_env \<lparr>lj_rc = rc_zero, lj_pubkey = replicate 32 4, lj_loaded = False\<rparr>
      udap_nodedb_new d' = Some (\<lparr>lj_rc = example_rc, lj_pubkey = replicate 32 4, lj_loaded = True\<rparr>, db2')"
  using stored_contact_loads [of example_nodedb_env example_rc udap_nodedb_new udap_nodedb_new
      "\<lparr>lj_rc = rc_zero, lj_pubkey = replicate 32 4, lj_loaded = False\<rparr>" "\<lambda>_. None"]
    inet_ok_hex example_rc_valid example_rc_fits example_verifies
  by (fastforce simp: example_nodedb_env_def MAX_RC_SIZE_def example_rc_def)

lemma example_verify_job:
  "\<exists>db' d'. udap_nodedb_async_verify example_nodedb_env \<lparr>vj_rc = example_rc, vj_valid = False\<rparr> db d =
    Some (\<lparr>vj_rc = example_rc, vj_valid = True\<rparr>, db', d')"
proof -
  obtain db' d' where "setRC example_nodedb_env example_rc db d = Some (True, db', d')"
    using setRC_stores [of example_nodedb_env uninit_ai example_rc db] inet_ok_hex example_rc_valid example_rc_fits
    by (auto simp: example_nodedb_env_def MAX_RC_SIZE_def)
  moreover have "udap_rc_verify_sig (ne_ntop example_nodedb_env) (ne_verify example_nodedb_env) (ne_stack example_nodedb_env)
      example_rc = Some (True, example_rc)" by (simp add: example_nodedb_env_def example_verifies)
  ultimately show ?thesis
    by (simp add: udap_nodedb_async_verify_def crypto_threadworker_verifyrc_def disk_threadworker_setRC_def)
qed

text \<open>
  C32. Only contacts with a good signature enter the database by a verification job: with a bad one
  nothing changes and the hook is told so; with a good one the contact is in the database. The
  invariant (every contact is filed once, under its own key) is kept.
\<close>

theorem verify_job_effect:
  assumes "nodedb_inv db" "length (rc_pubkey (vj_rc job)) = PUBKEYSIZE"
    and "udap_nodedb_async_verify E job db d = Some (job', db', d')"
  shows "nodedb_inv db' \<and> vj_rc job' = vj_rc job \<and>
    (case udap_rc_verify_sig (ne_ntop E) (ne_verify E) (ne_stack E) (vj_rc job) of
       Some (True, _) \<Rightarrow> udap_nodedb_get_rc (rc_pubkey (vj_rc job)) db' = Some (vj_rc job) \<and>
         (\<forall>k. k \<noteq> rc_pubkey (vj_rc job) \<longrightarrow> udap_nodedb_get_rc k db' = udap_nodedb_get_rc k db)
     | _ \<Rightarrow> \<not> vj_valid job' \<and> db' = db \<and> d' = d)"
proof -
  obtain valid where v: "udap_rc_verify_sig (ne_ntop E) (ne_verify E) (ne_stack E) (vj_rc job) = Some (valid, vj_rc job)"
    and "vj_rc job' = vj_rc job"
    and "if valid then db' = db\<lparr>nd_entries := AList.update (rc_pubkey (vj_rc job)) (vj_rc job) (nd_entries db)\<rparr>
      else \<not> vj_valid job' \<and> db' = db \<and> d' = d"
    using verify_result [OF assms(3)] by blast
  then show ?thesis using inv_update [OF assms(1,2)] assms(1) by (cases valid) (simp_all add: get_rc_eq update_conv')
qed

theorem verify_job_effect_witness:
  "\<exists>job' db' d'. udap_nodedb_async_verify example_nodedb_env \<lparr>vj_rc = example_rc, vj_valid = False\<rparr> udap_nodedb_new
      (\<lambda>_. None) = Some (job', db', d') \<and> udap_nodedb_get_rc (replicate 32 4) db' = Some example_rc"
proof -
  let ?job = "\<lparr>vj_rc = example_rc, vj_valid = False\<rparr>"
  have inv: "nodedb_inv udap_nodedb_new" "length (rc_pubkey (vj_rc ?job)) = PUBKEYSIZE"
    by (simp_all add: nodedb_inv_def udap_nodedb_new_def example_rc_def size_defs)
  obtain db' d' where "udap_nodedb_async_verify example_nodedb_env ?job udap_nodedb_new (\<lambda>_. None) =
      Some (\<lparr>vj_rc = example_rc, vj_valid = True\<rparr>, db', d')" using example_verify_job by blast
  from verify_job_effect [OF inv this] this show ?thesis
    by (auto simp: example_rc_def [symmetric] example_nodedb_env_def example_verifies) (simp add: example_rc_def)
qed

text \<open>
  The random hop after \<open>prev\<close>: what is chosen is an entry of the database and not \<open>prev\<close>, and the
  choice ends as soon as a draw hits such an entry.
\<close>

theorem random_hop_chosen:
  assumes "nodedb_inv db" "length (rc_pubkey prev) = PUBKEYSIZE" "r \<in> set rands"
    and "rc_pubkey (pick r (nd_entries db)) \<noteq> rc_pubkey prev" "nd_entries db \<noteq> []"
  shows "\<exists>rc. udap_nodedb_select_random_hop rands (Some prev) db = Hop rc \<and>
    rc \<in> snd ` set (nd_entries db) \<and> rc_pubkey rc \<noteq> rc_pubkey prev"
proof -
  have in_db: "pick r (nd_entries db) \<in> snd ` set (nd_entries db)" for r
    using assms(5) by (auto simp: pick_def)
  then have len: "length (rc_pubkey (pick r (nd_entries db))) = length (rc_pubkey prev)" for r
    using assms(1,2) by (fastforce simp: nodedb_inv_def)
  have "\<exists>rc. select_loop rands prev (nd_entries db) = Hop rc \<and> rc \<in> snd ` set (nd_entries db) \<and> rc_pubkey rc \<noteq> rc_pubkey prev"
    using assms(3,4) by (induction rands) (auto simp: memcmp_eq_0_iff len in_db copy_is_source)
  then show ?thesis using assms(5) by (simp add: udap_nodedb_select_random_hop_def)
qed

definition example_two :: udap_nodedb where
  "example_two = \<lparr>nd_entries = [(replicate 32 4, example_rc), (replicate 32 8, example_rc\<lparr>rc_pubkey := replicate 32 8\<rparr>)],
     nd_nodePath = []\<rparr>"

theorem random_hop_chosen_witness:
  "\<exists>rc. udap_nodedb_select_random_hop [4, 5, 7] (Some example_rc) example_two = Hop rc \<and>
    rc_pubkey rc \<noteq> rc_pubkey example_rc"
proof -
  have "nodedb_inv example_two" by code_simp
  moreover have "rc_pubkey (pick 5 (nd_entries example_two)) \<noteq> rc_pubkey example_rc" by code_simp
  ultimately show ?thesis
    using random_hop_chosen [of example_two example_rc 5 "[4, 5, 7]"]
    by (force simp: example_two_def example_rc_def size_defs)
qed

text \<open>
  With one contact in the database, the one before the hop, the choice never ends, whatever is
  drawn; with none it is undefined.
\<close>

theorem random_hop_spins:
  assumes "map fst (nd_entries db) = [rc_pubkey prev]" "nodedb_inv db"
  shows "udap_nodedb_select_random_hop rands (Some prev) db = Spins \<and>
    udap_nodedb_select_random_hop rands (Some prev) udap_nodedb_new = NoEntry"
proof -
  obtain rc where e: "nd_entries db = [(rc_pubkey prev, rc)]" "rc_pubkey rc = rc_pubkey prev"
    using assms by (cases "nd_entries db") (auto simp: nodedb_inv_def)
  have "select_loop rands prev (nd_entries db) = Spins"
    by (induction rands) (simp_all add: e pick_def memcmp_eq_0_iff)
  then show ?thesis using e(1) by (simp add: udap_nodedb_select_random_hop_def udap_nodedb_new_def)
qed

theorem random_hop_spins_witness:
  "udap_nodedb_select_random_hop [0, 3, 5] (Some example_rc) \<lparr>nd_entries = [(replicate 32 4, example_rc)], nd_nodePath = []\<rparr> = Spins"
  using random_hop_spins [of "\<lparr>nd_entries = [(replicate 32 4, example_rc)], nd_nodePath = []\<rparr>" example_rc]
  by (simp add: nodedb_inv_def example_rc_def size_defs)

text \<open>
  A file is taken for the contact of the key in its name, but filed under the key in the
  contact. When the two differ, the load of the contact is reported as a success, with a
  contact of zeros as its result, which also enters the database under the wanted key.
\<close>

theorem misnamed_file_loads_zeros:
  assumes "inet_ok (ne_ntop E) (ne_pton E)" "rc_valid (ne_ai E) rc"
    and "length (rc_bytes (ne_ntop E) rc) < MAX_RC_SIZE" "length (ne_stack E) = MAX_RC_SIZE"
    and "udap_rc_verify_sig (ne_ntop E) (ne_verify E) (ne_stack E) rc = Some (True, rc)"
    and "d (getRCFilePath (lj_pubkey job) db) = Some (rc_bytes (ne_ntop E) rc)"
    and "rc_pubkey rc \<noteq> lj_pubkey job" "\<not> Has (lj_pubkey job) db"
  shows "\<exists>db'. nodedb_async_load_rc E job db d = Some (job\<lparr>lj_loaded := True, lj_rc := rc_zero\<rparr>, db') \<and>
    udap_nodedb_get_rc (lj_pubkey job) db' = Some rc_zero"
  using assms(5-) rc_file_read [OF assms(1-4), of "ne_rc E"]
  by (simp add: nodedb_async_load_rc_def loadfile_def getRC_def update_conv' copy_is_source get_rc_eq Has_def)

theorem misnamed_file_loads_zeros_witness:
  "\<exists>db'. nodedb_async_load_rc example_nodedb_env \<lparr>lj_rc = example_rc, lj_pubkey = replicate 32 9, lj_loaded = False\<rparr>
      udap_nodedb_new (\<lambda>_. Some (rc_bytes hex_ntop example_rc)) =
    Some (\<lparr>lj_rc = rc_zero, lj_pubkey = replicate 32 9, lj_loaded = True\<rparr>, db')"
  using misnamed_file_loads_zeros [of example_nodedb_env example_rc "\<lambda>_. Some (rc_bytes hex_ntop example_rc)"
      "\<lparr>lj_rc = example_rc, lj_pubkey = replicate 32 9, lj_loaded = False\<rparr>" udap_nodedb_new]
    inet_ok_hex example_rc_valid example_rc_fits example_verifies
  by (simp add: example_nodedb_env_def MAX_RC_SIZE_def Has_def udap_nodedb_new_def)
    (simp add: example_rc_def replicate_eq_replicate, blast)

section \<open>The directory\<close>

text \<open>
  What a file gives: its contact when it can be read and the signature is good. \<open>listed\<close> are the regular
  files below the directory in the order in which they are visited.
\<close>

definition file_contact :: "nodedb_env \<Rightarrow> disk \<Rightarrow> byte list \<Rightarrow> udap_rc option option" where
  "file_contact E d f = do {
     rc \<leftarrow> udap_rc_read (ne_pton E) (ne_ai E) (ne_stack E) (ne_rc E) (d f);
     (case rc of
        None \<Rightarrow> Some None
      | Some rc \<Rightarrow> do {
          (valid, rc) \<leftarrow> udap_rc_verify_sig (ne_ntop E) (ne_verify E) (ne_stack E) rc;
          Some (if valid then Some rc else None)
        })
   }"

definition files_in :: "byte list \<Rightarrow> (byte list \<times> bool) list \<Rightarrow> byte list list" where
  "files_in dir files = map (\<lambda>x. dir @ lit ''/'' @ fst x) (filter snd files)"

definition listed :: "nodedb_env \<Rightarrow> byte list \<Rightarrow> byte list \<Rightarrow> byte list list" where
  "listed E dir chs = concat (map (\<lambda>ch. files_in (dir @ lit ''/'' @ [ch]) (the (ne_ls E (dir @ lit ''/'' @ [ch])))) chs)"

definition contacts :: "nodedb_env \<Rightarrow> disk \<Rightarrow> byte list list \<Rightarrow> (byte list \<times> udap_rc) list" where
  "contacts E d fs = List.map_filter (\<lambda>f. case file_contact E d f of Some (Some rc) \<Rightarrow> Some (rc_pubkey rc, rc) | _ \<Rightarrow> None) fs"

lemma contacts_Nil [simp]: "contacts E d [] = []"
  by (simp add: contacts_def map_filter_simps)

lemma contacts_Cons:
  "contacts E d (f # fs) = (case file_contact E d f of Some (Some rc) \<Rightarrow> [(rc_pubkey rc, rc)] | _ \<Rightarrow> []) @ contacts E d fs"
  by (auto simp: contacts_def map_filter_simps split: option.split)

lemma contacts_append [simp]: "contacts E d (fs @ gs) = contacts E d fs @ contacts E d gs"
  by (induction fs) (auto simp: contacts_Cons)

lemma loadfile_contact:
  "loadfile E f d db = map_option (\<lambda>c. case c of None \<Rightarrow> (False, db)
     | Some rc \<Rightarrow> (True, db\<lparr>nd_entries := AList.update (rc_pubkey rc) rc (nd_entries db)\<rparr>)) (file_contact E d f)"
  by (auto simp: loadfile_def file_contact_def split: bind_splits option.split)

lemma load_files_contacts:
  assumes "\<forall>f \<in> set (files_in dir files). file_contact E d f \<noteq> None"
  shows "\<exists>db'. load_files E dir d files sz db = Inr (sz + int (length (contacts E d (files_in dir files))), db') \<and>
    nd_nodePath db' = nd_nodePath db \<and> map_of (nd_entries db') = map_of (nd_entries db) ++ map_of (rev (contacts E d (files_in dir files)))"
  using assms
proof (induction files arbitrary: sz db)
  case (Cons x files)
  obtain name regular where x: "x = (name, regular)" by fastforce
  show ?case
  proof (cases regular)
    case True
    let ?f = "dir @ lit ''/'' @ name"
    have fs: "files_in dir (x # files) = ?f # files_in dir files" using True by (simp add: files_in_def x)
    from Cons.prems obtain c where c: "file_contact E d ?f = Some c" unfolding fs by auto
    let ?db = "case c of None \<Rightarrow> db | Some rc \<Rightarrow> db\<lparr>nd_entries := AList.update (rc_pubkey rc) rc (nd_entries db)\<rparr>"
    from Cons.prems have "\<forall>f \<in> set (files_in dir files). file_contact E d f \<noteq> None" unfolding fs by simp
    from Cons.IH [OF this, of "if c = None then sz else sz + 1" ?db] show ?thesis
      unfolding fs using c True
      by (cases c) (auto simp: x loadfile_contact contacts_Cons update_conv', simp add: fun_eq_iff map_add_def split: option.split)
  qed (use Cons in \<open>simp add: x files_in_def\<close>)
qed (simp add: files_in_def)

lemma load_subdirs_contacts:
  assumes "\<forall>ch \<in> set chs. ne_ls E (dir @ lit ''/'' @ [ch]) \<noteq> None" "\<forall>f \<in> set (listed E dir chs). file_contact E d f \<noteq> None"
  shows "\<exists>db'. load_subdirs E dir d chs n db = Inr (n + int (length (contacts E d (listed E dir chs))), db') \<and>
    nd_nodePath db' = nd_nodePath db \<and> map_of (nd_entries db') = map_of (nd_entries db) ++ map_of (rev (contacts E d (listed E dir chs)))"
  using assms
proof (induction chs arbitrary: n db)
  case (Cons ch chs)
  let ?dir = "dir @ lit ''/'' @ [ch]"
  obtain files where files: "ne_ls E ?dir = Some files" using Cons.prems(1) by auto
  have l: "listed E dir (ch # chs) = files_in ?dir files @ listed E dir chs" by (simp add: listed_def files del: lit_Cons)
  from load_files_contacts [of ?dir files E d 0 db] Cons.prems(2) obtain db1 where
    db1: "load_files E ?dir d files 0 db = Inr (int (length (contacts E d (files_in ?dir files))), db1)" "nd_nodePath db1 = nd_nodePath db"
      "map_of (nd_entries db1) = map_of (nd_entries db) ++ map_of (rev (contacts E d (files_in ?dir files)))"
    unfolding l by auto
  from Cons.IH [of "n + int (length (contacts E d (files_in ?dir files)))" db1] Cons.prems show ?case
    unfolding l using db1 files by (cases "contacts E d (files_in ?dir files)") (auto simp: loadSubdir_def simp del: lit_Cons)
qed (simp add: listed_def)

text \<open>The directory and all its subdirectories can be listed.\<close>

definition dirs_listed :: "nodedb_env \<Rightarrow> byte list \<Rightarrow> bool" where
  "dirs_listed E dir \<longleftrightarrow> ne_ls E dir \<noteq> None \<and> (\<forall>ch \<in> set skiplist_subdirs. ne_ls E (dir @ lit ''/'' @ [ch]) \<noteq> None)"

lemma load_dir_contacts:
  assumes "dirs_listed E dir" "\<forall>f \<in> set (listed E dir skiplist_subdirs). file_contact E d f \<noteq> None"
  obtains db where "udap_nodedb_load_dir E dir d udap_nodedb_new = Inr (int (length (contacts E d (listed E dir skiplist_subdirs))), db)"
    "nd_nodePath db = dir" "\<forall>pk. udap_nodedb_get_rc pk db = map_of (rev (contacts E d (listed E dir skiplist_subdirs))) pk"
  using load_subdirs_contacts [OF _ assms(2), of 0 "udap_nodedb_new\<lparr>nd_nodePath := dir\<rparr>"] assms(1)
  by (auto simp: dirs_listed_def udap_nodedb_load_dir_def get_rc_eq udap_nodedb_new_def simp del: lit_Cons)

text \<open>
  C35. Loading the directory gives exactly the contacts of its files: every regular file that can be read and whose
  signature is good is loaded under the key in it, the last one for a key wins, all others are passed over, and
  the result is the number of files that were loaded.
\<close>

theorem database_loaded:
  assumes "dirs_listed E dir" "\<forall>f \<in> set (listed E dir skiplist_subdirs). file_contact E d f \<noteq> None"
  shows "\<exists>db. udap_nodedb_load_dir E dir d udap_nodedb_new = Inr (int (length (contacts E d (listed E dir skiplist_subdirs))), db) \<and>
    nd_nodePath db = dir \<and> (\<forall>pk. udap_nodedb_get_rc pk db = map_of (rev (contacts E d (listed E dir skiplist_subdirs))) pk)"
  using load_dir_contacts [OF assms] by blast

definition example_dir_env :: nodedb_env where
  "example_dir_env = example_nodedb_env\<lparr>ne_ls := (\<lambda>p. Some (if last p = 52 then [(lit ''a'', True), (lit ''b'', False)] else []))\<rparr>"

lemma example_file: "file_contact example_dir_env (\<lambda>_. Some (rc_bytes hex_ntop example_rc)) f = Some (Some example_rc)"
  using rc_file_read [OF inet_ok_hex example_rc_valid example_rc_fits, of "replicate 1024 0" rc_zero] example_verifies [of "replicate 64 5"]
  by (simp add: file_contact_def example_dir_env_def example_nodedb_env_def MAX_RC_SIZE_def)

lemma example_listed: "listed example_dir_env (lit ''db'') skiplist_subdirs = [lit ''db/4/a'']"
  by (simp add: listed_def example_dir_env_def skiplist_subdirs_def files_in_def)

theorem database_loaded_witness:
  "\<exists>db. udap_nodedb_load_dir example_dir_env (lit ''db'') (\<lambda>_. Some (rc_bytes hex_ntop example_rc)) udap_nodedb_new = Inr (1, db) \<and>
    udap_nodedb_get_rc (replicate 32 4) db = Some example_rc"
proof -
  have "contacts example_dir_env (\<lambda>_. Some (rc_bytes hex_ntop example_rc)) [lit ''db/4/a''] = [(replicate 32 4, example_rc)]"
    by (simp add: contacts_Cons example_file, simp add: example_rc_def)
  with database_loaded [of example_dir_env "lit ''db''" "\<lambda>_. Some (rc_bytes hex_ntop example_rc)"] show ?thesis
    unfolding example_listed by (simp add: example_file, auto simp: example_dir_env_def dirs_listed_def)
qed

end
