(* ===== verification/Dht.thy ===== *)
theory Dht
  imports Dht_Messages Std_Map "HOL-Library.AList"
begin

text \<open>
  The routing table and the lookups of the distributed hash table (\<open>udap/dht.cpp\<close>,
  \<open>include/udap/dht.hpp\<close>): the bucket of known nodes ordered by XOR distance, the table of
  pending transactions, and the handlers of the two messages. What the code hands to the
  router or to the user of a lookup is a list of events.
\<close>

section \<open>Keys and nodes\<close>

definition Key_xor :: "byte list \<Rightarrow> byte list \<Rightarrow> byte list" where
  "Key_xor a b = map2 (\<lambda>x y. xor x y) a b"

definition Key_less :: "byte list \<Rightarrow> byte list \<Rightarrow> bool" where
  "Key_less a b \<longleftrightarrow> memcmp a b < 0"

definition XorMetric :: "byte list \<Rightarrow> byte list \<Rightarrow> byte list \<Rightarrow> bool" where
  "XorMetric us left right \<longleftrightarrow> Key_less (Key_xor us left) (Key_xor us right)"

record Node =
  node_rc :: "udap_rc option"
  node_ID :: "byte list"

definition Node_of :: "udap_rc \<Rightarrow> Node" where
  "Node_of other = \<lparr>node_rc = Some other, node_ID = rc_pubkey other\<rparr>"

text \<open>The bucket: \<open>us\<close> and the map \<open>nodes\<close>, ordered by the distance to \<open>us\<close>.\<close>

record Bucket =
  bk_us :: "byte list"
  bk_nodes :: "(byte list \<times> Node) list"

definition Bucket_new :: "byte list \<Rightarrow> Bucket" where
  "Bucket_new us = \<lparr>bk_us = us, bk_nodes = []\<rparr>"

definition PutNode :: "Bucket \<Rightarrow> Node \<Rightarrow> Bucket" where
  "PutNode b v = b\<lparr>bk_nodes := map_put (XorMetric (bk_us b)) (node_ID v) v (bk_nodes b)\<rparr>"

definition DelNode :: "Bucket \<Rightarrow> byte list \<Rightarrow> Bucket" where
  "DelNode b k = b\<lparr>bk_nodes := map_del (XorMetric (bk_us b)) k (bk_nodes b)\<rparr>"

text \<open>The scan keeps the least distance seen and the node at that distance.\<close>

definition scan_step :: "byte list \<Rightarrow> byte list \<Rightarrow> byte list \<times> byte list \<Rightarrow> byte list \<times> byte list" where
  "scan_step target k acc =
     (let (mindist, result) = acc; curDist = Key_xor k target in
      if Key_less curDist mindist then (curDist, k) else (mindist, result))"

definition FindClosest :: "Bucket \<Rightarrow> byte list \<Rightarrow> byte list \<Rightarrow> bool \<times> byte list" where
  "FindClosest b target result =
     (let (mindist, result) =
            fold (\<lambda>item. scan_step target (fst item)) (bk_nodes b) (AlignedBuffer_Fill 32 0xff, result)
      in (length (bk_nodes b) > 0, result))"

definition FindCloseExcluding ::
  "Bucket \<Rightarrow> byte list \<Rightarrow> byte list \<Rightarrow> byte list set \<Rightarrow> bool \<times> byte list" where
  "FindCloseExcluding b target result exclude =
     (let maxdist = AlignedBuffer_Fill 32 0xff;
          (mindist, result) =
            fold (\<lambda>item acc. if fst item \<in> exclude then acc else scan_step target (fst item) acc)
              (bk_nodes b) (AlignedBuffer_Fill 32 0xff, result)
      in (Key_less mindist maxdist, result))"

section \<open>Lookups\<close>

text \<open>A lookup job of the user: whether it has a hook, and the key it looks for.\<close>

record lookup_job =
  lj_id :: nat
  lj_hook :: bool
  lj_target :: "byte list"

record SearchJob =
  sj_job :: "lookup_job option"
  sj_started :: u64
  sj_requester :: "byte list"
  sj_requesterTX :: u64
  sj_target :: "byte list"
  sj_exclude :: "byte list set"

definition JobTimeout :: u64 where
  "JobTimeout = 30000"

text \<open>
  \<open>SendToOrQueue\<close>: a message handed to the router for a peer. \<open>JobHook\<close>: the hook of a lookup job is
  called, with the contact that was found.
\<close>

datatype dht_event = SendToOrQueue "byte list" DHTImmeidateMessage | JobHook nat "udap_rc option"

record dht_context =
  dc_ourKey :: "byte list"
  dc_nodes :: Bucket
  dc_allowTransit :: bool
  dc_ids :: u64
  dc_pendingTX :: "((byte list \<times> u64) \<times> SearchJob) list"
  dc_events :: "dht_event list"

definition SearchJob_Completed :: "SearchJob \<Rightarrow> udap_rc option \<Rightarrow> dht_event list" where
  "SearchJob_Completed j router =
     (case sj_job j of
        None \<Rightarrow> []
      | Some job \<Rightarrow>
          if lj_hook job
          then [JobHook (lj_id job) (map_option (udap_rc_copy rc_zero) router)] else [])"

definition SearchJob_IsExpired :: "SearchJob \<Rightarrow> u64 \<Rightarrow> bool" where
  "SearchJob_IsExpired j now \<longleftrightarrow> now - sj_started j \<ge> JobTimeout"

definition emit :: "dht_event list \<Rightarrow> dht_context \<Rightarrow> dht_context" where
  "emit es ctx = ctx\<lparr>dc_events := dc_events ctx @ es\<rparr>"

definition FindPendingTX :: "dht_context \<Rightarrow> byte list \<Rightarrow> u64 \<Rightarrow> SearchJob option" where
  "FindPendingTX ctx owner txid = map_of (dc_pendingTX ctx) (owner, txid)"

definition RemovePendingLookup :: "dht_context \<Rightarrow> byte list \<Rightarrow> u64 \<Rightarrow> dht_context" where
  "RemovePendingLookup ctx owner txid =
     ctx\<lparr>dc_pendingTX := AList.delete (owner, txid) (dc_pendingTX ctx)\<rparr>"

definition LookupRouter ::
  "u64 \<Rightarrow> byte list \<Rightarrow> byte list \<Rightarrow> u64 \<Rightarrow> byte list \<Rightarrow> lookup_job option \<Rightarrow> bool \<Rightarrow> byte list set \<Rightarrow>
     dht_context \<Rightarrow> dht_context" where
  "LookupRouter now target whoasked txid askpeer job iterative excludes ctx =
     (if AlignedBuffer_IsZero target \<or> AlignedBuffer_IsZero whoasked \<or> AlignedBuffer_IsZero askpeer
      then ctx
      else
        (let i = dc_ids ctx + 1;
             txid = (if txid = 0 then i else txid);
             j = \<lparr>sj_job = job, sj_started = now, sj_requester = whoasked, sj_requesterTX = txid,
                  sj_target = target, sj_exclude = excludes\<rparr>;
             dhtmsg = (FindRouterMessage_ask askpeer target i)\<lparr>fr_iterative := iterative\<rparr>;
             msg = \<lparr>im_remote = askpeer, im_version = 0, im_msgs = [FindRouter dhtmsg]\<rparr>
         in emit [SendToOrQueue askpeer msg]
              (ctx\<lparr>dc_ids := i, dc_pendingTX := AList.update (askpeer, i) j (dc_pendingTX ctx)\<rparr>)))"

text \<open>\<open>junk\<close>: the uninitialised key that the search may leave as it is.\<close>

definition LookupRouterViaJob :: "u64 \<Rightarrow> byte list \<Rightarrow> lookup_job \<Rightarrow> dht_context \<Rightarrow> dht_context" where
  "LookupRouterViaJob now junk job ctx =
     (let (found, peer) = FindClosest (dc_nodes ctx) (lj_target job) junk in
      if found then LookupRouter now (lj_target job) (dc_ourKey ctx) 0 peer (Some job) False {} ctx
      else if lj_hook job then emit [JobHook (lj_id job) None] ctx else ctx)"

text \<open>The messages returned are the replies to put into the answer.\<close>

definition LookupRouterRelayed ::
  "u64 \<Rightarrow> byte list \<Rightarrow> udap_rc \<Rightarrow> byte list \<Rightarrow> u64 \<Rightarrow> byte list \<Rightarrow> bool \<Rightarrow> dht_context \<Rightarrow>
     dht_message list \<times> dht_context" where
  "LookupRouterRelayed now junk our_rc requester txid target recursive ctx =
     (if AlignedBuffer_eq target (dc_ourKey ctx)
      then ([GotRouter (GotRouterMessage_reply requester txid (Some our_rc))], ctx)
      else
        (let (found, nxt) = FindCloseExcluding (dc_nodes ctx) target junk {requester, dc_ourKey ctx} in
         if found then
           (if AlignedBuffer_eq nxt target then
              ([GotRouter (GotRouterMessage_reply requester txid
                  (case map_find (XorMetric (bk_us (dc_nodes ctx))) target (bk_nodes (dc_nodes ctx)) of
                     Some n \<Rightarrow> node_rc n | None \<Rightarrow> None))], ctx)
            else if recursive then
              (if Key_less (Key_xor requester target) (Key_xor (dc_ourKey ctx) target)
               then ([GotRouter (GotRouterMessage_reply requester txid None)], ctx)
               else ([], LookupRouter now target requester txid nxt None False {} ctx))
            else ([GotRouter (GotRouterMessage_reply requester txid None)], ctx))
         else ([GotRouter (GotRouterMessage_reply requester txid None)], ctx)))"

definition CleanupTX :: "u64 \<Rightarrow> dht_context \<Rightarrow> dht_context" where
  "CleanupTX now ctx =
     (let expired = filter (\<lambda>e. SearchJob_IsExpired (snd e) now) (dc_pendingTX ctx)
      in emit (concat (map (\<lambda>e. SearchJob_Completed (snd e) None) expired))
           (ctx\<lparr>dc_pendingTX := filter (\<lambda>e. \<not> SearchJob_IsExpired (snd e) now) (dc_pendingTX ctx)\<rparr>))"

definition Context_Init :: "byte list \<Rightarrow> dht_context \<Rightarrow> dht_context" where
  "Context_Init us ctx = ctx\<lparr>dc_ourKey := us, dc_nodes := Bucket_new us\<rparr>"

definition udap_dht_put_peer :: "dht_context \<Rightarrow> udap_rc \<Rightarrow> dht_context" where
  "udap_dht_put_peer ctx rc = ctx\<lparr>dc_nodes := PutNode (dc_nodes ctx) (Node_of rc)\<rparr>"

definition udap_dht_remove_peer :: "dht_context \<Rightarrow> byte list \<Rightarrow> dht_context" where
  "udap_dht_remove_peer ctx k = ctx\<lparr>dc_nodes := DelNode (dc_nodes ctx) k\<rparr>"

definition udap_dht_allow_transit :: "dht_context \<Rightarrow> dht_context" where
  "udap_dht_allow_transit ctx = ctx\<lparr>dc_allowTransit := True\<rparr>"

section \<open>Handlers\<close>

definition GotRouterMessage_HandleMessage ::
  "u64 \<Rightarrow> byte list \<Rightarrow> GotRouterMessage \<Rightarrow> dht_context \<Rightarrow> bool \<times> dht_message list \<times> dht_context" where
  "GotRouterMessage_HandleMessage now junk m ctx =
     (case FindPendingTX ctx (gr_From m) (gr_txid m) of
        None \<Rightarrow> (False, [], ctx)
      | Some pending \<Rightarrow>
          (let (replies, ctx) =
             (case gr_R m of
                r # _ \<Rightarrow>
                  (if \<not> AlignedBuffer_eq (sj_requester pending) (dc_ourKey ctx)
                   then [GotRouter (GotRouterMessage_reply (sj_target pending) (sj_requesterTX pending) (Some r))]
                   else [],
                   emit (SearchJob_Completed pending (Some r)) ctx)
              | [] \<Rightarrow>
                  (let exclude = insert (gr_From m) (sj_exclude pending);
                       (found, nextPeer) = FindCloseExcluding (dc_nodes ctx) (sj_target pending) junk exclude
                   in if card exclude < 3 \<and> found
                      then ([], LookupRouter now (sj_target pending) (sj_requester pending)
                                  (sj_requesterTX pending) nextPeer None True exclude ctx)
                      else
                        (if \<not> AlignedBuffer_eq (sj_requester pending) (dc_ourKey ctx)
                         then [GotRouter (GotRouterMessage_reply (sj_target pending) (sj_requesterTX pending) None)]
                         else [],
                         emit (SearchJob_Completed pending None) ctx)))
           in (True, replies, RemovePendingLookup ctx (gr_From m) (gr_txid m))))"

definition FindRouterMessage_HandleMessage ::
  "u64 \<Rightarrow> byte list \<Rightarrow> udap_rc \<Rightarrow> FindRouterMessage \<Rightarrow> dht_context \<Rightarrow>
     bool \<times> dht_message list \<times> dht_context" where
  "FindRouterMessage_HandleMessage now junk our_rc m ctx =
     (if \<not> dc_allowTransit ctx then (False, [], ctx)
      else
        (case FindPendingTX ctx (fr_From m) (fr_txid m) of
           Some _ \<Rightarrow> (False, [], ctx)
         | None \<Rightarrow>
             (let (replies, ctx) = LookupRouterRelayed now junk our_rc (fr_From m) (fr_txid m) (fr_K m)
                                     (\<not> fr_iterative m) ctx
              in (True, replies, ctx))))"

definition dht_HandleMessage ::
  "u64 \<Rightarrow> byte list \<Rightarrow> udap_rc \<Rightarrow> dht_message \<Rightarrow> dht_context \<Rightarrow>
     bool \<times> dht_message list \<times> dht_context" where
  "dht_HandleMessage now junk our_rc msg ctx =
     (case msg of
        FindRouter m \<Rightarrow> FindRouterMessage_HandleMessage now junk our_rc m ctx
      | GotRouter m \<Rightarrow> GotRouterMessage_HandleMessage now junk m ctx)"

text \<open>\<open>sent\<close>: what \<open>SendToOrQueue\<close> returns.\<close>

definition DHTImmeidateMessage_HandleMessage ::
  "u64 \<Rightarrow> byte list \<Rightarrow> udap_rc \<Rightarrow> bool \<Rightarrow> DHTImmeidateMessage \<Rightarrow> dht_context \<Rightarrow> bool \<times> dht_context" where
  "DHTImmeidateMessage_HandleMessage now junk our_rc sent im ctx =
     (let (result, replies, ctx) =
            fold (\<lambda>msg (result, replies, ctx).
                    let (ok, rs, ctx) = dht_HandleMessage now junk our_rc msg ctx
                    in (result \<and> ok, replies @ rs, ctx)) (im_msgs im) (True, [], ctx)
      in if result
         then (sent, emit [SendToOrQueue (im_remote im)
                             \<lparr>im_remote = im_remote im, im_version = 0, im_msgs = replies\<rparr>] ctx)
         else (False, ctx))"

section \<open>The bucket is a map that finds nearest keys\<close>

lemma length_Key_xor [simp]: "length (Key_xor a b) = min (length a) (length b)"
  by (simp add: Key_xor_def)

lemma Key_xor_self: "length a = length b \<Longrightarrow> Key_xor a (Key_xor a b) = b"
  by (induction a b rule: list_induct2) (auto simp: Key_xor_def simp flip: xor.assoc)

lemma Key_xor_inj:
  "length b = length a \<Longrightarrow> length c = length a \<Longrightarrow> Key_xor a b = Key_xor a c \<Longrightarrow> b = c"
  by (metis Key_xor_self)

interpretation xor_order: key_order "XorMetric us" "\<lambda>k. length k = length us" for us
proof
  show "\<not> XorMetric us x x" for x by (simp add: XorMetric_def Key_less_def memcmp_irrefl)
  show "XorMetric us x z" if "length x = length us" "length y = length us" "length z = length us"
    "XorMetric us x y" "XorMetric us y z" for x y z
    using that memcmp_trans [of "Key_xor us x" "Key_xor us y" "Key_xor us z"]
    by (simp add: XorMetric_def Key_less_def)
  show "x = y" if "length x = length us" "length y = length us" "\<not> XorMetric us x y" "\<not> XorMetric us y x"
    for x y
    using that memcmp_antisym [of "Key_xor us x" "Key_xor us y"] Key_xor_inj [of x us y]
    by (auto simp: XorMetric_def Key_less_def)
qed

text \<open>The invariant of the bucket: keys of 32 bytes, in the order of the map.\<close>

definition bucket_inv :: "Bucket \<Rightarrow> bool" where
  "bucket_inv b \<longleftrightarrow> length (bk_us b) = 32 \<and> xor_order.ordered (bk_us b) (bk_nodes b)"

definition bucket_map :: "Bucket \<Rightarrow> byte list \<rightharpoonup> Node" where
  "bucket_map b k = (if length k = 32 then map_find (XorMetric (bk_us b)) k (bk_nodes b) else None)"

lemma bucket_inv_new: "length us = 32 \<Longrightarrow> bucket_inv (Bucket_new us)"
  using xor_order.ordered_Nil [of us] by (simp add: bucket_inv_def Bucket_new_def)

lemma bucket_keys: "bucket_inv b \<Longrightarrow> (k, v) \<in> set (bk_nodes b) \<Longrightarrow> length k = 32"
  using xor_order.ordered_key by (fastforce simp: bucket_inv_def)

lemma bucket_map_in: "bucket_inv b \<Longrightarrow> bucket_map b k = Some v \<longleftrightarrow> (k, v) \<in> set (bk_nodes b)"
  using xor_order.find_in [of k "bk_us b" "bk_nodes b" v] bucket_keys [of b k v]
  by (auto simp: bucket_map_def bucket_inv_def)

text \<open>The scan finds the least distance.\<close>

lemma less_trans_or:
  assumes "length a = n" "length b = n" "length c = n" "Key_less a b" "\<not> Key_less c b"
  shows "\<not> Key_less c a"
  using assms memcmp_trans [of c a b] by (auto simp: Key_less_def)

lemma scan_step_simp:
  "scan_step target k (d, r) =
     (if Key_less (Key_xor k target) d then (Key_xor k target, k) else (d, r))"
  by (simp add: scan_step_def Let_def)

lemma scan_least:
  assumes "length target = 32" "\<forall>k \<in> set ks. length k = 32" "length d0 = 32"
    and "fold (scan_step target) ks (d0, r0) = (d, r)"
  shows "length d = 32 \<and> (\<forall>k \<in> set ks. \<not> Key_less (Key_xor k target) d) \<and> \<not> Key_less d0 d \<and>
    (d = d0 \<and> r = r0 \<or> r \<in> set ks \<and> d = Key_xor r target \<and> Key_less d d0)"
  using assms
proof (induction ks arbitrary: d0 r0)
  case Nil
  then show ?case by (simp add: Key_less_def memcmp_irrefl)
next
  case (Cons k ks)
  let ?d = "Key_xor k target"
  have len: "length ?d = 32" using Cons.prems by simp
  show ?case
  proof (cases "Key_less ?d d0")
    case True
    have "fold (scan_step target) ks (?d, k) = (d, r)"
      using Cons.prems True by (simp add: scan_step_simp)
    note IH = Cons.IH [OF Cons.prems(1) _ len this]
    have "length d = 32" "\<not> Key_less ?d d" "\<forall>k \<in> set ks. \<not> Key_less (Key_xor k target) d"
      "d = ?d \<and> r = k \<or> r \<in> set ks \<and> d = Key_xor r target \<and> Key_less d ?d"
      using IH Cons.prems by auto
    moreover from this have "\<not> Key_less d0 d \<and> Key_less d d0"
      using True len Cons.prems memcmp_trans [of d ?d d0] memcmp_trans [of d0 d ?d]
        memcmp_trans [of d0 ?d d0] memcmp_irrefl [of d0] memcmp_trans [of d0 d d0]
      by (auto simp: Key_less_def)
    ultimately show ?thesis by auto
  next
    case False
    have f: "fold (scan_step target) ks (d0, r0) = (d, r)"
      using Cons.prems False by (simp add: scan_step_simp)
    have "length d = 32" "\<not> Key_less d0 d" "\<forall>k \<in> set ks. \<not> Key_less (Key_xor k target) d"
      "d = d0 \<and> r = r0 \<or> r \<in> set ks \<and> d = Key_xor r target \<and> Key_less d d0"
      using Cons.IH [OF Cons.prems(1) _ Cons.prems(3) f] Cons.prems by auto
    moreover have "\<not> Key_less ?d d"
      using False calculation len Cons.prems memcmp_trans [of ?d d d0] by (auto simp: Key_less_def)
    ultimately show ?thesis by auto
  qed
qed

lemma max_dist: "length d = 32 \<Longrightarrow> Key_less d (AlignedBuffer_Fill 32 0xff) \<longleftrightarrow> d \<noteq> AlignedBuffer_Fill 32 0xff"
proof -
  have "memcmp d (replicate n 0xff) < 0 \<longleftrightarrow> d \<noteq> replicate n 0xff" if "length d = n" for d :: "byte list" and n
    using that
  proof (induction d arbitrary: n)
    case (Cons x d)
    have "x \<le> 0xff" using unsigned_less [of x, where 'a = nat] by (simp add: word_le_nat_alt)
    with Cons show ?case by (cases n) (auto simp: order.strict_iff_order)
  qed simp
  from this [of d 32] show "length d = 32 \<Longrightarrow> ?thesis"
    by (simp add: Key_less_def AlignedBuffer_Fill_def)
qed

lemma fold_excluding:
  "fold (\<lambda>item acc. if fst item \<in> ex then acc else f (fst item) acc) xs acc =
   fold f (filter (\<lambda>k. k \<notin> ex) (map fst xs)) acc"
  by (induction xs arbitrary: acc) auto

text \<open>The distance at which a node counts as unreachable: all bits differ from the target's.\<close>

definition opposite :: "byte list \<Rightarrow> byte list \<Rightarrow> bool" where
  "opposite k target \<longleftrightarrow> Key_xor k target = AlignedBuffer_Fill 32 0xff"

section \<open>Properties of the bucket\<close>

lemma bucket_ops:
  assumes "bucket_inv b" "length (node_ID v) = 32" "length k = 32"
  shows "bucket_inv (PutNode b v) \<and> bucket_map (PutNode b v) = (bucket_map b)(node_ID v \<mapsto> v) \<and>
    bucket_inv (DelNode b k) \<and> bucket_map (DelNode b k) = (bucket_map b)(k := None)"
proof -
  have us: "length (node_ID v) = length (bk_us b)" "length k = length (bk_us b)"
    using assms by (simp_all add: bucket_inv_def)
  have ord: "xor_order.ordered (bk_us b) (bk_nodes b)"
    using assms(1) unfolding bucket_inv_def by blast
  have "bucket_map (PutNode b v) x = ((bucket_map b)(node_ID v \<mapsto> v)) x"
    "bucket_map (DelNode b k) x = ((bucket_map b)(k := None)) x" for x
    using xor_order.find_put [OF us(1) _ ord, of x v] xor_order.find_del [OF us(2) _ ord, of x] assms
    by (auto simp: bucket_map_def PutNode_def DelNode_def bucket_inv_def)
  moreover have "bucket_inv (PutNode b v)" "bucket_inv (DelNode b k)"
    using xor_order.ordered_put [OF us(1) ord, of v] xor_order.ordered_del [OF ord, of k] assms
    by (simp_all add: bucket_inv_def PutNode_def DelNode_def)
  ultimately show ?thesis by blast
qed

text \<open>
  C33. The bucket is a map: after \<open>PutNode\<close> a lookup finds the node put and otherwise what it found
  before, after \<open>DelNode\<close> the key is gone and nothing else, and both keep the order of the map
  in which the lookups search.
\<close>

theorem bucket_refines_map:
  assumes "bucket_inv b" "length (node_ID v) = 32" "length k = 32"
  shows "bucket_inv (PutNode b v) \<and> bucket_map (PutNode b v) = (bucket_map b)(node_ID v \<mapsto> v) \<and>
    bucket_inv (DelNode b k) \<and> bucket_map (DelNode b k) = (bucket_map b)(k := None)"
  by (rule bucket_ops [OF assms])

theorem bucket_refines_map_witness:
  "bucket_inv (PutNode (Bucket_new (replicate 32 1)) \<lparr>node_rc = None, node_ID = replicate 32 2\<rparr>) \<and>
   bucket_map (PutNode (Bucket_new (replicate 32 1)) \<lparr>node_rc = None, node_ID = replicate 32 2\<rparr>) =
     (bucket_map (Bucket_new (replicate 32 1)))
       (replicate 32 2 \<mapsto> \<lparr>node_rc = None, node_ID = replicate 32 2\<rparr>)"
  using bucket_refines_map [OF bucket_inv_new, of "replicate 32 1"
      "\<lparr>node_rc = None, node_ID = replicate 32 2\<rparr>" "replicate 32 2"] by simp

lemma close_excluding:
  assumes inv: "bucket_inv b" and t: "length target = 32"
    and r: "FindCloseExcluding b target result exclude = (found, nxt)"
  shows "(found \<longleftrightarrow> (\<exists>k. bucket_map b k \<noteq> None \<and> k \<notin> exclude \<and> \<not> opposite k target)) \<and>
    (found \<longrightarrow> bucket_map b nxt \<noteq> None \<and> nxt \<notin> exclude \<and>
       (\<forall>k. bucket_map b k \<noteq> None \<and> k \<notin> exclude \<longrightarrow>
          \<not> Key_less (Key_xor k target) (Key_xor nxt target)))"
proof -
  let ?ks = "filter (\<lambda>k. k \<notin> exclude) (map fst (bk_nodes b))" and ?max = "AlignedBuffer_Fill 32 0xff"
  obtain d where f: "fold (scan_step target) ?ks (?max, result) = (d, nxt)"
    and found: "found = Key_less d ?max"
    using r fold_excluding [of exclude "scan_step target" "bk_nodes b" "(?max, result)"]
    by (auto simp: FindCloseExcluding_def split: prod.splits)
  have in_ks: "k \<in> set ?ks \<longleftrightarrow> bucket_map b k \<noteq> None \<and> k \<notin> exclude" for k
    using bucket_map_in [OF inv, of k] by force
  have len: "\<forall>k \<in> set ?ks. length k = 32" using bucket_keys [OF inv] by auto
  have "length ?max = 32" by (simp add: AlignedBuffer_Fill_def)
  from scan_least [OF t len this f]
  have l: "length d = 32" "\<And>k. k \<in> set ?ks \<Longrightarrow> \<not> Key_less (Key_xor k target) d"
    "d = ?max \<or> nxt \<in> set ?ks \<and> d = Key_xor nxt target" by auto
  have reach: "opposite k target" if "d = ?max" "k \<in> set ?ks" for k
    using l(2) [OF that(2)] that len t max_dist [of "Key_xor k target"] by (auto simp: opposite_def)
  show ?thesis
  proof (cases found)
    case True
    then have "d \<noteq> ?max" using found max_dist [OF l(1)] by simp
    with l have "nxt \<in> set ?ks" "d = Key_xor nxt target" by auto
    with True \<open>d \<noteq> ?max\<close> l(2) in_ks show ?thesis by (auto simp: opposite_def)
  next
    case False
    then have "d = ?max" using found max_dist [OF l(1)] by simp
    with False reach in_ks show ?thesis by blast
  qed
qed

text \<open>
  C28. \<open>FindCloseExcluding\<close> answers exactly when there is a node that is not excluded and not
  opposite to the target, and then with the one of least XOR distance to the target.
\<close>

theorem find_close_excluding:
  assumes inv: "bucket_inv b" and t: "length target = 32"
    and r: "FindCloseExcluding b target result exclude = (found, nxt)"
  shows "(found \<longleftrightarrow> (\<exists>k. bucket_map b k \<noteq> None \<and> k \<notin> exclude \<and> \<not> opposite k target)) \<and>
    (found \<longrightarrow> bucket_map b nxt \<noteq> None \<and> nxt \<notin> exclude \<and>
       (\<forall>k. bucket_map b k \<noteq> None \<and> k \<notin> exclude \<longrightarrow>
          \<not> Key_less (Key_xor k target) (Key_xor nxt target)))"
  using assms by (rule close_excluding)

theorem find_close_excluding_witness:
  "bucket_map (PutNode (Bucket_new (replicate 32 1)) \<lparr>node_rc = None, node_ID = replicate 32 2\<rparr>)
     (snd (FindCloseExcluding (PutNode (Bucket_new (replicate 32 1))
        \<lparr>node_rc = None, node_ID = replicate 32 2\<rparr>) (replicate 32 3) [] {})) \<noteq> None"
proof -
  let ?b = "PutNode (Bucket_new (replicate 32 1)) \<lparr>node_rc = None, node_ID = replicate 32 2\<rparr>"
  have "bucket_inv ?b" using xor_order.ordered_put [of "replicate 32 2" "replicate 32 1" "[]"]
    xor_order.ordered_Nil [of "replicate 32 1"]
    by (simp add: bucket_inv_def PutNode_def Bucket_new_def)
  moreover have "FindCloseExcluding ?b (replicate 32 3) [] {} = (True, replicate 32 2)" by code_simp
  ultimately show ?thesis
    using find_close_excluding [of ?b "replicate 32 3" "[]" "{}" True "replicate 32 2"] by simp
qed

text \<open>
  \<open>FindClosest\<close> returns the node of least XOR distance, when some node is not opposite to the
  target; it reports success on every non-empty bucket.
\<close>

theorem find_closest:
  assumes inv: "bucket_inv b" and t: "length target = 32"
    and k: "bucket_map b k \<noteq> None" "\<not> opposite k target"
    and r: "FindClosest b target result = (found, nxt)"
  shows "found \<and> bucket_map b nxt \<noteq> None \<and>
    (\<forall>k. bucket_map b k \<noteq> None \<longrightarrow> \<not> Key_less (Key_xor k target) (Key_xor nxt target))"
proof -
  have "FindClosest b target result =
      (bk_nodes b \<noteq> [], snd (FindCloseExcluding b target result {}))"
    by (simp add: FindClosest_def FindCloseExcluding_def split: prod.split)
  moreover obtain f n where fn: "FindCloseExcluding b target result {} = (f, n)" by fastforce
  moreover have "bk_nodes b \<noteq> []" using k(1) by (auto simp: bucket_map_def split: if_splits)
  moreover note close_excluding [OF inv t fn]
  ultimately show ?thesis using k r by auto
qed

theorem find_closest_witness:
  "fst (FindClosest (PutNode (Bucket_new (replicate 32 1)) \<lparr>node_rc = None, node_ID = replicate 32 2\<rparr>)
     (replicate 32 3) [])"
proof -
  let ?b = "PutNode (Bucket_new (replicate 32 1)) \<lparr>node_rc = None, node_ID = replicate 32 2\<rparr>"
  have "bucket_inv ?b" using xor_order.ordered_put [of "replicate 32 2" "replicate 32 1" "[]"]
    xor_order.ordered_Nil [of "replicate 32 1"]
    by (simp add: bucket_inv_def PutNode_def Bucket_new_def)
  moreover have "bucket_map ?b (replicate 32 2) \<noteq> None" "\<not> opposite (replicate 32 2) (replicate 32 3)"
    by code_simp+
  ultimately show ?thesis
    using find_closest [of ?b "replicate 32 3" "replicate 32 2" "[]"] by (metis length_replicate prod.collapse)
qed

section \<open>Properties of lookups\<close>

text \<open>No message and no lookup changes the peers.\<close>

lemma nodes_LookupRouter [simp]:
  "dc_nodes (LookupRouter now target whoasked txid askpeer job iterative ex ctx) = dc_nodes ctx"
  by (simp add: LookupRouter_def emit_def Let_def)

lemma nodes_ViaJob [simp]: "dc_nodes (LookupRouterViaJob now junk job ctx) = dc_nodes ctx"
  by (simp add: LookupRouterViaJob_def emit_def split: prod.split)

lemma nodes_dht_Handle: "dc_nodes (snd (snd (dht_HandleMessage now junk our_rc msg ctx))) = dc_nodes ctx"
  by (cases msg) (auto simp: dht_HandleMessage_def FindRouterMessage_HandleMessage_def LookupRouterRelayed_def
      GotRouterMessage_HandleMessage_def RemovePendingLookup_def emit_def Let_def
      split: option.splits prod.splits list.splits)

definition example_ctx :: dht_context where
  "example_ctx = \<lparr>dc_ourKey = replicate 32 1, dc_nodes = Bucket_new (replicate 32 1),
     dc_allowTransit = True, dc_ids = 41, dc_pendingTX = [], dc_events = []\<rparr>"

text \<open>
  An answer is handled at most once. An answer to a transaction that is not pending changes
  nothing and is refused; one to a pending transaction is accepted and ends the transaction.
\<close>

theorem got_router_once:
  "case FindPendingTX ctx (gr_From m) (gr_txid m) of
     None \<Rightarrow> GotRouterMessage_HandleMessage now junk m ctx = (False, [], ctx)
   | Some _ \<Rightarrow> (\<exists>replies ctx'. GotRouterMessage_HandleMessage now junk m ctx = (True, replies, ctx') \<and>
       FindPendingTX ctx' (gr_From m) (gr_txid m) = None)"
proof -
  have gone: "FindPendingTX (RemovePendingLookup c o' t) o' t = None" for c o' t
    by (simp add: FindPendingTX_def RemovePendingLookup_def delete_conv')
  show ?thesis
    by (auto simp: GotRouterMessage_HandleMessage_def gone Let_def split: option.split prod.split list.split)
qed

text \<open>
  A contact that is found reaches the one who asked: when the transaction was started for a
  lookup job of this router, its hook is called exactly once, with that contact.
\<close>

theorem got_router_completes_job:
  assumes "FindPendingTX ctx (gr_From m) (gr_txid m) = Some pending"
    and "gr_R m = r # rs" "sj_job pending = Some job" "lj_hook job" "sj_requester pending = dc_ourKey ctx"
  shows "\<exists>ctx'. GotRouterMessage_HandleMessage now junk m ctx = (True, [], ctx') \<and>
    dc_events ctx' = dc_events ctx @ [JobHook (lj_id job) (Some r)]"
proof -
  have "AlignedBuffer_eq k k" for k
    by (simp add: AlignedBuffer_eq_def memcmp_eq_0_iff)
  then show ?thesis
    using assms by (auto simp: GotRouterMessage_HandleMessage_def SearchJob_Completed_def emit_def
        RemovePendingLookup_def copy_is_source)
qed

definition example_job :: lookup_job where
  "example_job = \<lparr>lj_id = 5, lj_hook = True, lj_target = replicate 32 4\<rparr>"

definition example_search :: SearchJob where
  "example_search = \<lparr>sj_job = Some example_job, sj_started = 0, sj_requester = replicate 32 1,
     sj_requesterTX = 7, sj_target = replicate 32 4, sj_exclude = {}\<rparr>"

definition searching_ctx :: dht_context where
  "searching_ctx = example_ctx\<lparr>dc_nodes := PutNode (Bucket_new (replicate 32 1))
       \<lparr>node_rc = None, node_ID = replicate 32 3\<rparr>,
     dc_pendingTX := [((replicate 32 2, 7), example_search)]\<rparr>"

definition example_answer :: "udap_rc list \<Rightarrow> GotRouterMessage" where
  "example_answer R = \<lparr>gr_From = replicate 32 2, gr_R = R, gr_txid = 7, gr_version = 0\<rparr>"

lemma example_pending: "FindPendingTX searching_ctx (replicate 32 2) 7 = Some example_search"
  by (simp add: FindPendingTX_def searching_ctx_def)

theorem got_router_completes_job_witness:
  "\<exists>ctx'. GotRouterMessage_HandleMessage 0 [] (example_answer [example_rc]) searching_ctx = (True, [], ctx') \<and>
    dc_events ctx' = [] @ [JobHook 5 (Some example_rc)]"
  using got_router_completes_job [of searching_ctx "example_answer [example_rc]" example_search example_rc
      "[]" example_job 0 "[]"] example_pending
  by (simp add: example_search_def example_job_def example_answer_def searching_ctx_def example_ctx_def)

text \<open>
  When a peer does not know the contact and the lookup goes on to a further peer, the new
  transaction is not tied to the lookup job the old one had: no hook is called now, and the
  entry that remains for the lookup has no job. The user of the lookup is never told.
\<close>

theorem iterating_drops_job:
  assumes "FindPendingTX ctx (gr_From m) (gr_txid m) = Some pending" "gr_R m = []"
    and "card (insert (gr_From m) (sj_exclude pending)) < 3"
    and "FindCloseExcluding (dc_nodes ctx) (sj_target pending) junk
           (insert (gr_From m) (sj_exclude pending)) = (True, nxt)"
    and "nxt \<noteq> gr_From m"
    and "\<not> AlignedBuffer_IsZero (sj_target pending)" "\<not> AlignedBuffer_IsZero (sj_requester pending)"
    and "\<not> AlignedBuffer_IsZero nxt"
  shows "\<exists>ctx' j msg. GotRouterMessage_HandleMessage now junk m ctx = (True, [], ctx') \<and>
    dc_events ctx' = dc_events ctx @ [SendToOrQueue nxt msg] \<and>
    FindPendingTX ctx' nxt (dc_ids ctx + 1) = Some j \<and> sj_target j = sj_target pending \<and> sj_job j = None"
  using assms
  by (simp add: GotRouterMessage_HandleMessage_def LookupRouter_def Let_def emit_def
      RemovePendingLookup_def FindPendingTX_def delete_conv' update_conv')

theorem iterating_drops_job_witness:
  "\<exists>ctx' j msg. GotRouterMessage_HandleMessage 0 [] (example_answer []) searching_ctx = (True, [], ctx') \<and>
    dc_events ctx' = [] @ [SendToOrQueue (replicate 32 3) msg] \<and>
    FindPendingTX ctx' (replicate 32 3) (41 + 1) = Some j \<and> sj_target j = replicate 32 4 \<and> sj_job j = None"
proof -
  have "FindCloseExcluding (dc_nodes searching_ctx) (replicate 32 4) [] {replicate 32 2} = (True, replicate 32 3)"
    "\<not> AlignedBuffer_IsZero (replicate 32 4)" "\<not> AlignedBuffer_IsZero (replicate 32 1)"
    "\<not> AlignedBuffer_IsZero (replicate 32 3)" "replicate 32 3 \<noteq> (replicate 32 2 :: byte list)"
    by code_simp+
  then show ?thesis
    using iterating_drops_job [of searching_ctx "example_answer []" example_search "[]" "replicate 32 3" 0]
      example_pending
    by (simp add: example_search_def example_answer_def searching_ctx_def example_ctx_def)
qed

text \<open>
  The periodic cleanup drops exactly the transactions older than 30 seconds, in the unsigned
  arithmetic of the clock, and calls the hook of each dropped lookup job once, with no contact.
\<close>

theorem cleanup_expires:
  "dc_pendingTX (CleanupTX now ctx) = filter (\<lambda>e. now - sj_started (snd e) < 30000) (dc_pendingTX ctx) \<and>
   dc_events (CleanupTX now ctx) = dc_events ctx @
     [JobHook (lj_id job) None. (_, j) \<leftarrow> dc_pendingTX ctx, now - sj_started j \<ge> 30000,
        job \<leftarrow> (case sj_job j of None \<Rightarrow> [] | Some job \<Rightarrow> [job]), lj_hook job]"
proof -
  have "concat (map (\<lambda>e. SearchJob_Completed (snd e) None) (filter (\<lambda>e. SearchJob_IsExpired (snd e) now) tx)) =
      [JobHook (lj_id job) None. (_, j) \<leftarrow> tx, now - sj_started j \<ge> 30000,
        job \<leftarrow> (case sj_job j of None \<Rightarrow> [] | Some job \<Rightarrow> [job]), lj_hook job]" for tx :: "((byte list \<times> u64) \<times> SearchJob) list"
    by (induction tx) (auto simp: SearchJob_Completed_def SearchJob_IsExpired_def JobTimeout_def split: option.split)
  then show ?thesis
    by (simp add: CleanupTX_def emit_def SearchJob_IsExpired_def JobTimeout_def Let_def not_le)
qed

text \<open>
  A message list without entries is answered by a message list without entries, sent back to
  the peer it came from: two routers that follow the code answer each other without end.
\<close>

theorem empty_list_echoed:
  assumes "im_msgs im = []"
  shows "DHTImmeidateMessage_HandleMessage now junk our_rc sent im ctx =
    (sent, emit [SendToOrQueue (im_remote im) \<lparr>im_remote = im_remote im, im_version = 0, im_msgs = []\<rparr>] ctx)"
  using assms by (simp add: DHTImmeidateMessage_HandleMessage_def)

theorem empty_list_echoed_witness:
  "DHTImmeidateMessage_HandleMessage 0 [] rc_zero True
     \<lparr>im_remote = replicate 32 2, im_version = 0, im_msgs = []\<rparr> example_ctx =
   (True, emit [SendToOrQueue (replicate 32 2)
      \<lparr>im_remote = replicate 32 2, im_version = 0, im_msgs = []\<rparr>] example_ctx)"
  using empty_list_echoed [of "\<lparr>im_remote = replicate 32 2, im_version = 0, im_msgs = []\<rparr>"] by simp

text \<open>
  The contact found for a lookup that was passed on for another router is not sent to that
  router: it goes back to the peer that gave the answer.
\<close>

theorem relayed_answer_misdirected:
  assumes "FindPendingTX ctx (gr_From m) (gr_txid m) = Some pending" "gr_R m = r # rs"
    and "sj_job pending = None" "\<not> AlignedBuffer_eq (sj_requester pending) (dc_ourKey ctx)"
    and "im_msgs im = [GotRouter m]" "gr_From m = im_remote im"
  shows "\<exists>ctx'. DHTImmeidateMessage_HandleMessage now junk our_rc sent im ctx = (sent, ctx') \<and>
    dc_events ctx' = dc_events ctx @ [SendToOrQueue (im_remote im)
      \<lparr>im_remote = im_remote im, im_version = 0,
        im_msgs = [GotRouter (GotRouterMessage_reply (sj_target pending) (sj_requesterTX pending) (Some r))]\<rparr>]"
  using assms
  by (simp add: DHTImmeidateMessage_HandleMessage_def dht_HandleMessage_def
      GotRouterMessage_HandleMessage_def SearchJob_Completed_def emit_def RemovePendingLookup_def)

theorem relayed_answer_misdirected_witness:
  "\<exists>ctx'. DHTImmeidateMessage_HandleMessage 0 [] rc_zero True
      \<lparr>im_remote = replicate 32 2, im_version = 0, im_msgs = [GotRouter (example_answer [example_rc])]\<rparr>
      (searching_ctx\<lparr>dc_pendingTX := [((replicate 32 2, 7),
         example_search\<lparr>sj_job := None, sj_requester := replicate 32 8\<rparr>)]\<rparr>) = (True, ctx') \<and>
    dc_events ctx' = [] @ [SendToOrQueue (replicate 32 2)
      \<lparr>im_remote = replicate 32 2, im_version = 0,
        im_msgs = [GotRouter (GotRouterMessage_reply (replicate 32 4) 7 (Some example_rc))]\<rparr>]"
proof -
  have "\<not> AlignedBuffer_eq (replicate 32 8) (replicate 32 1)" by code_simp
  then show ?thesis
    using relayed_answer_misdirected [of "searching_ctx\<lparr>dc_pendingTX := [((replicate 32 2, 7),
         example_search\<lparr>sj_job := None, sj_requester := replicate 32 8\<rparr>)]\<rparr>"
        "example_answer [example_rc]" "example_search\<lparr>sj_job := None, sj_requester := replicate 32 8\<rparr>"
        example_rc "[]"
        "\<lparr>im_remote = replicate 32 2, im_version = 0, im_msgs = [GotRouter (example_answer [example_rc])]\<rparr>"
        0 "[]" rc_zero True]
    by (simp add: FindPendingTX_def example_answer_def example_search_def searching_ctx_def example_ctx_def)
qed

end
