(* ===== verification/Router.thy ===== *)
theory Router
  imports Nodedb Dht Path
begin

text \<open>
  The router (\<open>udap/router.cpp\<close>): it sends messages over a link that has a session with the remote
  router, or queues them and has a session established; it verifies the contact of the other end,
  flushes or discards the queue, and keeps the verified routers. What it asks of its links, of
  the worker threads and of the timers is a list of events. A pointer to a member of the map of
  pending jobs is the key of the job; using it after the member was erased is undefined
  behaviour, which is \<open>None\<close>.
\<close>

section \<open>State\<close>

text \<open>A session as the router sees it: the contact its other end sent, and the link it belongs to.\<close>

record link_session =
  ls_rc :: udap_rc
  ls_link :: nat

record udap_link_establish_job =
  ej_ai :: udap_ai
  ej_timeout :: u64
  ej_retries :: u16
  ej_pubkey :: "byte list"
  ej_link :: "nat option"
  ej_session :: "link_session option"

text \<open>
  Events: bytes queued on a link for a router, a job given to the outbound link, a retry after some
  milliseconds, a contact wanted from disk or from the hash table, a contact to be verified (of a
  server, with the job it came from, or of a client), a session to be closed, one more path of a
  builder, and the router's timer.
\<close>

datatype router_event =
    LinkSend nat "byte list" "byte list"
  | TryEstablish "byte list"
  | ConnectRetry u64 "byte list"
  | AsyncLoadRC "byte list"
  | DhtLookup "byte list"
  | VerifyServer udap_rc "byte list"
  | VerifyClient udap_rc
  | CloseSession link_session
  | BuildOnePath nat
  | ConnectAllLater u64
  | ScheduleTicker u64

record udap_router =
  r_inboundLinks :: "nat list"
  r_outboundMesssageQueue :: "(byte list \<times> link_message list) list"
  r_validRouters :: "(byte list \<times> udap_rc) list"
  r_pendingEstablishJobs :: "(byte list \<times> udap_link_establish_job) list"
  r_nodedb :: udap_nodedb
  r_dht :: dht_context
  r_paths :: PathContext
  r_rc :: udap_rc
  r_sendPadding :: bool
  r_events :: "router_event list"

text \<open>
  From the surroundings: the text of addresses, the message buffer before it is written, and the links:
  which routers they have a session with, and whether they take a message. The outbound link is
  number 0.
\<close>

record router_env =
  re_ntop :: ntop
  re_buffer :: "byte list"
  re_has_session_to :: "nat \<Rightarrow> byte list \<Rightarrow> bool"
  re_sendto :: "nat \<Rightarrow> byte list \<Rightarrow> bool"
  re_now :: u64

definition outboundLink :: nat where "outboundLink = 0"

definition router_emit :: "router_event list \<Rightarrow> udap_router \<Rightarrow> udap_router" where
  "router_emit es r = r\<lparr>r_events := r_events r @ es\<rparr>"

section \<open>Sending\<close>

text \<open>
  \<open>SendTo\<close> with a link uses it; without one it tries the outbound link and then the inbound ones, until
  one takes the message.
\<close>

fun send_first :: "router_env \<Rightarrow> byte list \<Rightarrow> byte list \<Rightarrow> nat list \<Rightarrow> router_event list" where
  "send_first E remote bs [] = []"
| "send_first E remote bs (l # ls) =
     (if re_sendto E l remote then [LinkSend l remote bs] else send_first E remote bs ls)"

definition SendTo :: "router_env \<Rightarrow> byte list \<Rightarrow> link_message \<Rightarrow> nat option \<Rightarrow> udap_router \<Rightarrow> udap_router option" where
  "SendTo E remote msg link r = do {
     (ok, buf) \<leftarrow> link_BEncode (re_ntop E) msg (StackBuffer (re_buffer E));
     Some (if \<not> ok then r
           else (case link of
                   Some l \<Rightarrow> router_emit (send_first E remote (encoded buf) [l]) r
                 | None \<Rightarrow> router_emit (send_first E remote (encoded buf) (outboundLink # r_inboundLinks r)) r))
   }"

definition HasPendingConnectJob :: "byte list \<Rightarrow> udap_router \<Rightarrow> bool" where
  "HasPendingConnectJob remote r \<longleftrightarrow> map_find AlignedBuffer_less remote (r_pendingEstablishJobs r) \<noteq> None"

definition udap_router_try_connect :: "udap_rc \<Rightarrow> u16 \<Rightarrow> udap_router \<Rightarrow> (bool \<times> udap_router) option" where
  "udap_router_try_connect remote numretries r =
     (if HasPendingConnectJob (rc_pubkey remote) r then Some (False, r)
      else do {
        addrs \<leftarrow> rc_addrs remote;
        Some (case udap_ai_list_index addrs 0 of
            None \<Rightarrow> (False, r)
          | Some addr \<Rightarrow>
              (let job = \<lparr>ej_ai = addr, ej_timeout = 10000, ej_retries = numretries, ej_pubkey = rc_pubkey remote,
                     ej_link = None, ej_session = None\<rparr>
               in (True, router_emit [TryEstablish (rc_pubkey remote)] (r\<lparr>r_pendingEstablishJobs :=
                     map_emplace AlignedBuffer_less (rc_pubkey remote) job (r_pendingEstablishJobs r)\<rparr>))))
      })"

definition chosen_link :: "router_env \<Rightarrow> byte list \<Rightarrow> udap_router \<Rightarrow> nat option" where
  "chosen_link E remote r =
     (if re_has_session_to E outboundLink remote then Some outboundLink
      else List.find (\<lambda>l. re_has_session_to E l remote) (r_inboundLinks r))"

definition queue_for :: "byte list \<Rightarrow> udap_router \<Rightarrow> link_message list" where
  "queue_for remote r =
     (case map_find AlignedBuffer_less remote (r_outboundMesssageQueue r) of None \<Rightarrow> [] | Some q \<Rightarrow> q)"

definition router_SendToOrQueue ::
  "router_env \<Rightarrow> byte list \<Rightarrow> link_message \<Rightarrow> udap_router \<Rightarrow> (bool \<times> udap_router) option" where
  "router_SendToOrQueue E remote msg r =
     (case chosen_link E remote r of
        Some l \<Rightarrow> do { r \<leftarrow> SendTo E remote msg (Some l) r; Some (True, r) }
      | None \<Rightarrow> do {
          let r = r\<lparr>r_outboundMesssageQueue :=
            map_put AlignedBuffer_less remote (queue_for remote r @ [msg]) (r_outboundMesssageQueue r)\<rparr>;
          (case udap_nodedb_get_rc remote (r_nodedb r) of
             Some rc \<Rightarrow> do { (_, r) \<leftarrow> udap_router_try_connect rc 10 r; Some (True, r) }
           | None \<Rightarrow> Some (True, router_emit [AsyncLoadRC remote] r))
        })"

definition DiscardOutboundFor :: "byte list \<Rightarrow> udap_router \<Rightarrow> udap_router" where
  "DiscardOutboundFor remote r =
     r\<lparr>r_outboundMesssageQueue := map_del AlignedBuffer_less remote (r_outboundMesssageQueue r)\<rparr>"

text \<open>A message that cannot be encoded is dropped.\<close>

fun flush_loop ::
  "router_env \<Rightarrow> nat \<Rightarrow> byte list \<Rightarrow> link_message list \<Rightarrow> router_event list option" where
  "flush_loop E chosen remote [] = Some []"
| "flush_loop E chosen remote (msg # msgs) = do {
     (ok, buf) \<leftarrow> link_BEncode (re_ntop E) msg (StackBuffer (re_buffer E));
     rest \<leftarrow> flush_loop E chosen remote msgs;
     Some ((if ok then send_first E remote (encoded buf) [chosen] else []) @ rest)
   }"

definition FlushOutboundFor :: "router_env \<Rightarrow> byte list \<Rightarrow> nat \<Rightarrow> udap_router \<Rightarrow> udap_router option" where
  "FlushOutboundFor E remote chosen r =
     (case map_find AlignedBuffer_less remote (r_outboundMesssageQueue r) of
        None \<Rightarrow> Some r
      | Some q \<Rightarrow> do {
          evs \<leftarrow> flush_loop E chosen remote q;
          Some (router_emit evs (r\<lparr>r_outboundMesssageQueue :=
            map_put AlignedBuffer_less remote [] (r_outboundMesssageQueue r)\<rparr>))
        })"

section \<open>Finding the contact of a router\<close>

definition HandleAsyncLoadRCForSendTo :: "udap_async_load_rc \<Rightarrow> udap_router \<Rightarrow> udap_router option" where
  "HandleAsyncLoadRCForSendTo job r =
     (if lj_loaded job then map_option snd (udap_router_try_connect (lj_rc job) 10 r)
      else Some (router_emit [DhtLookup (lj_pubkey job)] r))"

text \<open>\<open>result\<close>: the contact the lookup found\<close>

definition HandleDHTLookupForSendTo :: "byte list \<Rightarrow> udap_rc option \<Rightarrow> udap_router \<Rightarrow> udap_router option" where
  "HandleDHTLookupForSendTo target result r =
     (case result of
        Some rc \<Rightarrow> map_option snd (udap_router_try_connect rc 10 r)
      | None \<Rightarrow> Some (DiscardOutboundFor target r))"

section \<open>Establishing sessions\<close>

definition async_verify_RC :: "link_session \<Rightarrow> bool \<Rightarrow> byte list \<Rightarrow> udap_router \<Rightarrow> udap_router" where
  "async_verify_RC session isExpectingClient establish_job r =
     (let rc = udap_rc_copy rc_zero (ls_rc session)
      in router_emit [if isExpectingClient then VerifyClient rc else VerifyServer rc establish_job] r)"

definition erase_job :: "byte list \<Rightarrow> udap_router \<Rightarrow> udap_router" where
  "erase_job pk r = r\<lparr>r_pendingEstablishJobs := map_del AlignedBuffer_less pk (r_pendingEstablishJobs r)\<rparr>"

definition put_job :: "byte list \<Rightarrow> udap_link_establish_job \<Rightarrow> udap_router \<Rightarrow> udap_router" where
  "put_job k job r = r\<lparr>r_pendingEstablishJobs := map_put AlignedBuffer_less k job (r_pendingEstablishJobs r)\<rparr>"

definition on_try_connect_result :: "byte list \<Rightarrow> udap_router \<Rightarrow> udap_router option" where
  "on_try_connect_result k r = do {
     job \<leftarrow> map_find AlignedBuffer_less k (r_pendingEstablishJobs r);
     (case ej_session job of
        Some session \<Rightarrow> Some (async_verify_RC session False k r)
      | None \<Rightarrow>
          if ej_retries job > 0
          then do {
            let job = job\<lparr>ej_retries := ej_retries job - 1, ej_timeout := ej_timeout job * 3 div 2\<rparr>;
            Some (router_emit [ConnectRetry (ej_timeout job) k] (put_job k job r))
          }
          else Some (erase_job (ej_pubkey job) (DiscardOutboundFor (ej_pubkey job) r)))
   }"

text \<open>The link reports the end of an attempt; a call with \<open>orig = 0\<close> comes from a session being removed.\<close>

definition handle_establish_timeout :: "u64 \<Rightarrow> link_session option \<Rightarrow> byte list \<Rightarrow> udap_router \<Rightarrow> udap_router option" where
  "handle_establish_timeout orig established k r =
     (if orig = 0 then Some r
      else do {
        job \<leftarrow> map_find AlignedBuffer_less k (r_pendingEstablishJobs r);
        on_try_connect_result k (put_job k (job\<lparr>ej_link := Some outboundLink, ej_session := established\<rparr>) r)
      })"

definition connect_job_retry :: "u64 \<Rightarrow> byte list \<Rightarrow> udap_router \<Rightarrow> udap_router option" where
  "connect_job_retry left k r =
     (if left \<noteq> 0 then Some r
      else do {
        job \<leftarrow> map_find AlignedBuffer_less k (r_pendingEstablishJobs r);
        Some (if ej_link job \<noteq> None then router_emit [TryEstablish k] r else r)
      })"

definition on_verify_client_rc :: "udap_async_verify_rc \<Rightarrow> udap_router \<Rightarrow> udap_router" where
  "on_verify_client_rc job r = erase_job (rc_pubkey (vj_rc job)) r"

text \<open>\<open>k\<close> is the establish job of the context.\<close>

definition on_verify_server_rc ::
  "router_env \<Rightarrow> udap_async_verify_rc \<Rightarrow> byte list \<Rightarrow> udap_router \<Rightarrow> udap_router option" where
  "on_verify_server_rc E job k r = do {
     let pk = rc_pubkey (vj_rc job);
     establish_job \<leftarrow> map_find AlignedBuffer_less k (r_pendingEstablishJobs r);
     if \<not> vj_valid job
     then do {
       let r = router_emit (case ej_session establish_job of Some s \<Rightarrow> [CloseSession s] | None \<Rightarrow> []) r;
       Some (DiscardOutboundFor pk (erase_job pk r))
     }
     else do {
       let r = r\<lparr>r_validRouters := map_put AlignedBuffer_less pk (vj_rc job) (r_validRouters r),
         r_dht := udap_dht_put_peer (r_dht r) (vj_rc job)\<rparr>;
       (case ej_session establish_job of
          None \<Rightarrow> Some r
        | Some session \<Rightarrow> do {
            r \<leftarrow> FlushOutboundFor E pk (ls_link session) r;
            Some (erase_job pk r)
          })
     }
   }"

definition SessionClosed :: "byte list \<Rightarrow> udap_router \<Rightarrow> udap_router" where
  "SessionClosed remote r =
     (if map_find AlignedBuffer_less remote (r_validRouters r) = None then r
      else r\<lparr>r_dht := udap_dht_remove_peer (r_dht r) remote,
             r_validRouters := map_del AlignedBuffer_less remote (r_validRouters r)\<rparr>)"

section \<open>The ticker\<close>

definition send_padded_message :: "router_env \<Rightarrow> byte list \<Rightarrow> udap_router \<Rightarrow> (bool \<times> udap_router) option" where
  "send_padded_message E peer r = do {
     (ok, buf) \<leftarrow> DiscardMessage_BEncode \<lparr>dm_remote = replicate 32 0, dm_version = 0, dm_pad = replicate 2000 122\<rparr>
       (StackBuffer (re_buffer E));
     Some (if \<not> ok then (False, r)
           else (True, router_emit (concat (replicate 5 (send_first E peer (encoded buf) [outboundLink]))) r))
   }"

text \<open>The iteration over the sessions of the outbound link stops when a visit returns false.\<close>

fun iter_sessions :: "router_env \<Rightarrow> byte list list \<Rightarrow> udap_router \<Rightarrow> udap_router option" where
  "iter_sessions E [] r = Some r"
| "iter_sessions E (peer # peers) r = do {
     (ok, r) \<leftarrow> send_padded_message E peer r;
     if ok then iter_sessions E peers r else Some r
   }"

definition router_Tick :: "router_env \<Rightarrow> byte list list \<Rightarrow> udap_router \<Rightarrow> udap_router option" where
  "router_Tick E peers r = do {
     let r = r\<lparr>r_paths := ExpirePaths (re_now E) (r_paths r)\<rparr>;
     let r = (if r_inboundLinks r = [] \<and> udap_nodedb_num_loaded (r_nodedb r) > 2
              then router_emit (map BuildOnePath (BuildPaths (r_paths r))) r else r);
     if r_sendPadding r then iter_sessions E peers r else Some r
   }"

definition handle_router_ticker :: "router_env \<Rightarrow> byte list list \<Rightarrow> u64 \<Rightarrow> u64 \<Rightarrow> udap_router \<Rightarrow> udap_router option" where
  "handle_router_ticker E peers orig left r =
     (if left \<noteq> 0 then Some r
      else do {
        r \<leftarrow> router_Tick E peers r;
        Some (router_emit [ScheduleTicker orig] r)
      })"

section \<open>Starting\<close>

definition InitServiceNode :: "udap_router \<Rightarrow> udap_router" where
  "InitServiceNode r = r\<lparr>r_paths := AllowTransit (r_paths r), r_dht := udap_dht_allow_transit (r_dht r)\<rparr>"

text \<open>
  \<open>addr\<close> and \<open>starts\<close> are the own address of a link and whether it starts, \<open>file\<close> whether the file for the
  contact can be opened and \<open>rand\<close> the random number; the result has the contents of the file.
\<close>

definition SaveRC ::
  "ntop \<Rightarrow> verifier \<Rightarrow> byte list \<Rightarrow> bool \<Rightarrow> udap_router \<Rightarrow> (bool \<times> byte list option) option" where
  "SaveRC ntop verify stack file r = do {
     (ok, rc) \<leftarrow> udap_rc_verify_sig ntop verify stack (r_rc r);
     if \<not> ok then Some (False, None)
     else do {
       (ok, buf) \<leftarrow> udap_rc_bencode ntop rc (StackBuffer stack);
       Some (if ok \<and> file then (True, Some (encoded buf)) else (False, None))
     }
   }"

definition own_rc :: "ntop \<Rightarrow> signer \<Rightarrow> byte list \<Rightarrow> (nat \<Rightarrow> udap_ai) \<Rightarrow> byte list \<Rightarrow> byte list \<Rightarrow> nat list \<Rightarrow> udap_rc option" where
  "own_rc ntop sign stack addr encryption identity links = do {
     let rc = rc_zero\<lparr>rc_addrs := Some (fold (\<lambda>l as. udap_ai_list_pushback as (addr l)) links udap_ai_list_new)\<rparr>;
     let rc = udap_rc_set_pubenckey rc (drop 32 encryption);
     let rc = udap_rc_set_pubsigkey rc (drop 32 identity);
     udap_rc_sign ntop sign stack identity rc
   }"

definition Run ::
  "ntop \<Rightarrow> signer \<Rightarrow> verifier \<Rightarrow> byte list \<Rightarrow> bool \<Rightarrow> (nat \<Rightarrow> udap_ai) \<Rightarrow> (nat \<Rightarrow> bool) \<Rightarrow> nat \<Rightarrow> byte list \<Rightarrow> byte list \<Rightarrow>
    udap_router \<Rightarrow> (udap_router \<times> byte list option) option" where
  "Run ntop sign verify stack file addr starts rand encryption identity r = do {
     rc \<leftarrow> own_rc ntop sign stack addr encryption identity (r_inboundLinks r);
     let r = r\<lparr>r_rc := rc\<rparr>;
     (saved, contents) \<leftarrow> SaveRC ntop verify stack file r;
     Some (if \<not> saved then (r, contents)
       else (let r = (if list_ex starts (r_inboundLinks r)
                 then router_emit [ConnectAllLater (of_nat (rand mod 100))] (InitServiceNode r)
                 else router_emit [ConnectAllLater (of_nat ((rand mod 10) * 500 + 1000))] r);
               r = r\<lparr>r_dht := Context_Init (drop 32 identity) (r_dht r)\<rparr>
             in (router_emit [ScheduleTicker 1000] r, contents)))
   }"

end
