(* ===== verification/Router_Sessions.thy ===== *)
theory Router_Sessions
  imports Router
begin

text \<open>
  The laws of the router: its maps stay in order and agree with the hash table, a queued message
  is sent once a session is there, an attempt to connect ends, and what happens when a router
  answers with the contact of another one.
\<close>

section \<open>The invariant\<close>

text \<open>Every key in the database is an array of 32 bytes, also the one of a contact that was stored zeroed.\<close>

definition nodedb_typed :: "udap_nodedb \<Rightarrow> bool" where
  "nodedb_typed db \<longleftrightarrow> (\<forall>(k, rc) \<in> set (nd_entries db). length (rc_pubkey rc) = 32)"

definition router_inv :: "udap_router \<Rightarrow> bool" where
  "router_inv r \<longleftrightarrow> bytes.ordered 32 (r_outboundMesssageQueue r) \<and> bytes.ordered 32 (r_validRouters r) \<and>
     bytes.ordered 32 (r_pendingEstablishJobs r) \<and>
     (\<forall>(k, job) \<in> set (r_pendingEstablishJobs r). ej_pubkey job = k) \<and>
     nodedb_typed (r_nodedb r) \<and> bucket_inv (dc_nodes (r_dht r)) \<and>
     (\<forall>k. length k = 32 \<longrightarrow> bucket_map (dc_nodes (r_dht r)) k =
        map_option Node_of (map_find AlignedBuffer_less k (r_validRouters r))) \<and>
     (\<forall>(k, rc) \<in> set (r_validRouters r). rc_pubkey rc = k)"

text \<open>Parts of the state that an operation does not touch.\<close>

lemma emit_simps [simp]:
  "r_outboundMesssageQueue (router_emit es r) = r_outboundMesssageQueue r"
  "r_validRouters (router_emit es r) = r_validRouters r"
  "r_pendingEstablishJobs (router_emit es r) = r_pendingEstablishJobs r"
  "r_nodedb (router_emit es r) = r_nodedb r" "r_dht (router_emit es r) = r_dht r"
  "r_inboundLinks (router_emit es r) = r_inboundLinks r" "r_paths (router_emit es r) = r_paths r"
  "r_sendPadding (router_emit es r) = r_sendPadding r" "r_events (router_emit es r) = r_events r @ es"
  by (simp_all add: router_emit_def)

lemma inv_emit [simp]: "router_inv (router_emit es r) \<longleftrightarrow> router_inv r"
  by (simp add: router_inv_def)

lemma inv_paths [simp]: "router_inv (r\<lparr>r_paths := p\<rparr>) \<longleftrightarrow> router_inv r"
  by (simp add: router_inv_def)

lemma inv_SendTo: "SendTo E remote msg link r = Some r' \<Longrightarrow> router_inv r' \<longleftrightarrow> router_inv r"
  by (auto simp: SendTo_def simp del: send_first.simps split: bind_splits option.splits if_splits)

lemma inv_queue:
  "router_inv r \<Longrightarrow> length k = 32 \<Longrightarrow>
    router_inv (r\<lparr>r_outboundMesssageQueue := map_put AlignedBuffer_less k q (r_outboundMesssageQueue r)\<rparr>)"
  by (simp add: router_inv_def bytes.ordered_put)

lemma inv_discard: "router_inv r \<Longrightarrow> router_inv (DiscardOutboundFor k r)"
  by (simp add: router_inv_def DiscardOutboundFor_def bytes.ordered_del)

lemma inv_erase: "router_inv r \<Longrightarrow> router_inv (erase_job k r)"
  unfolding router_inv_def erase_job_def using bytes.del_sub by (fastforce simp: bytes.ordered_del)

lemma put_set: "x \<in> set (map_put lt k v m) \<Longrightarrow> snd x = v \<or> x \<in> set m"
  by (induction m) (auto split: if_splits)

lemma put_in:
  assumes "bytes.ordered n m" "length k = n" "(k', v') \<in> set (map_put AlignedBuffer_less k v m)"
  shows "k' = k \<and> v' = v \<or> k' \<noteq> k \<and> (k', v') \<in> set m"
proof -
  have k': "length k' = n"
    using bytes.ordered_key [OF bytes.ordered_put [OF assms(2,1)] assms(3)] .
  have "map_find AlignedBuffer_less k' (map_put AlignedBuffer_less k v m) = Some v'"
    using bytes.find_in [OF k' bytes.ordered_put [OF assms(2,1)]] assms(3) by simp
  then show ?thesis
    using bytes.find_put [OF assms(2) k' assms(1), of v] bytes.find_in [OF k' assms(1)] by (auto split: if_splits)
qed

lemma inv_put_job:
  assumes "router_inv r" "length k = 32" "ej_pubkey job = k" shows "router_inv (put_job k job r)"
  using assms put_in [of 32 "r_pendingEstablishJobs r" k] unfolding router_inv_def put_job_def
  by (fastforce simp: bytes.ordered_put)

lemma inv_emplace_job:
  assumes "router_inv r" "length k = 32" "ej_pubkey job = k"
  shows "router_inv (r\<lparr>r_pendingEstablishJobs := map_emplace AlignedBuffer_less k job (r_pendingEstablishJobs r)\<rparr>)"
  using inv_put_job [OF assms] assms(1) by (auto simp: map_emplace_def put_job_def split: option.split)

lemma inv_try_connect:
  assumes "router_inv r" "length (rc_pubkey rc) = 32" "udap_router_try_connect rc n r = Some (ok, r')"
  shows "router_inv r'"
  using assms(3) inv_emplace_job [OF assms(1,2)] assms(1)
  by (auto simp: udap_router_try_connect_def Let_def split: if_splits bind_splits option.splits)

lemma job_in:
  assumes "router_inv r" "map_find AlignedBuffer_less k (r_pendingEstablishJobs r) = Some job" "length k = 32"
  shows "ej_pubkey job = k"
  using assms bytes.find_in [of k 32 "r_pendingEstablishJobs r" job] by (fastforce simp: router_inv_def)

lemma inv_flush:
  assumes "router_inv r" "length k = 32" "FlushOutboundFor E k l r = Some r'" shows "router_inv r'"
  using assms inv_queue [OF assms(1,2), of "[]"]
  by (auto simp: FlushOutboundFor_def split: option.splits bind_splits)

lemma inv_valid:
  assumes "router_inv r" "length (rc_pubkey rc) = 32"
  shows "router_inv (r\<lparr>r_validRouters := map_put AlignedBuffer_less (rc_pubkey rc) rc (r_validRouters r),
    r_dht := udap_dht_put_peer (r_dht r) rc\<rparr>)"
proof -
  have v: "bytes.ordered 32 (r_validRouters r)" and b: "bucket_inv (dc_nodes (r_dht r))"
    using assms(1) by (simp_all add: router_inv_def)
  have "bucket_inv (PutNode (dc_nodes (r_dht r)) (Node_of rc))"
    "bucket_map (PutNode (dc_nodes (r_dht r)) (Node_of rc)) = (bucket_map (dc_nodes (r_dht r)))(rc_pubkey rc \<mapsto> Node_of rc)"
    using bucket_ops [OF b, of "Node_of rc" "rc_pubkey rc"] assms(2) by (simp_all add: Node_of_def)
  moreover have "rc_pubkey x = k" if "(k, x) \<in> set (map_put AlignedBuffer_less (rc_pubkey rc) rc (r_validRouters r))" for k x
    using put_in [OF v assms(2) that] assms(1) by (auto simp: router_inv_def)
  ultimately show ?thesis
    using assms bytes.find_put [OF assms(2) _ v] bytes.ordered_put [OF assms(2) v]
    by (auto simp: router_inv_def udap_dht_put_peer_def)
qed

lemma inv_closed:
  assumes "router_inv r" "length k = 32" shows "router_inv (SessionClosed k r)"
proof -
  have v: "bytes.ordered 32 (r_validRouters r)" and b: "bucket_inv (dc_nodes (r_dht r))"
    using assms(1) by (simp_all add: router_inv_def)
  have "length (node_ID \<lparr>node_rc = None, node_ID = k\<rparr>) = 32" using assms(2) by simp
  note d = bucket_ops [OF b this assms(2)]
  show ?thesis
    using assms d bytes.find_del [OF assms(2) _ v] bytes.ordered_del [OF v, of k] bytes.del_sub [of _ k "r_validRouters r"]
    by (fastforce simp: router_inv_def SessionClosed_def udap_dht_remove_peer_def)
qed


section \<open>The steps of the router\<close>

text \<open>
  What happens to a router and its disk: a message to send; a contact loaded from disk, or found
  in the hash table; the end of an attempt to connect, a retry; a contact verified, of a server or of a
  client; a session closed; a message of the hash table; the ticker. The lengths are those of
  the arrays that hold the keys.
\<close>

inductive router_step :: "udap_router \<times> disk \<Rightarrow> udap_router \<times> disk \<Rightarrow> bool" where
  send: "length remote = 32 \<Longrightarrow> router_SendToOrQueue E remote msg r = Some (ok, r') \<Longrightarrow> router_step (r, d) (r', d)"
| loaded: "nodedb_async_load_rc NE job (r_nodedb r) d = Some (job', db) \<Longrightarrow> nodedb_typed db \<Longrightarrow>
    length (rc_pubkey (lj_rc job')) = 32 \<Longrightarrow> HandleAsyncLoadRCForSendTo job' (r\<lparr>r_nodedb := db\<rparr>) = Some r' \<Longrightarrow>
    router_step (r, d) (r', d)"
| looked_up: "pred_option (\<lambda>rc. length (rc_pubkey rc) = 32) result \<Longrightarrow>
    HandleDHTLookupForSendTo target result r = Some r' \<Longrightarrow> router_step (r, d) (r', d)"
| attempt_ended: "length k = 32 \<Longrightarrow> handle_establish_timeout orig established k r = Some r' \<Longrightarrow> router_step (r, d) (r', d)"
| retry: "connect_job_retry left k r = Some r' \<Longrightarrow> router_step (r, d) (r', d)"
| verified_server: "length (rc_pubkey (vj_rc job)) = 32 \<Longrightarrow>
    udap_nodedb_async_verify NE job (r_nodedb r) d = Some (job', db, d') \<Longrightarrow>
    on_verify_server_rc E job' k (r\<lparr>r_nodedb := db\<rparr>) = Some r' \<Longrightarrow> router_step (r, d) (r', d')"
| verified_client: "length (rc_pubkey (vj_rc job)) = 32 \<Longrightarrow>
    udap_nodedb_async_verify NE job (r_nodedb r) d = Some (job', db, d') \<Longrightarrow>
    router_step (r, d) (on_verify_client_rc job' (r\<lparr>r_nodedb := db\<rparr>), d')"
| closed: "length remote = 32 \<Longrightarrow> router_step (r, d) (SessionClosed remote r, d)"
| lookup: "router_step (r, d) (r\<lparr>r_dht := LookupRouterViaJob now junk job (r_dht r)\<rparr>, d)"
| dht_message: "dht_HandleMessage now junk (r_rc r) msg (r_dht r) = (ok, replies, ctx) \<Longrightarrow>
    router_step (r, d) (r\<lparr>r_dht := ctx\<rparr>, d)"
| ticked: "handle_router_ticker E peers orig left r = Some r' \<Longrightarrow> router_step (r, d) (r', d)"

inductive_cases router_stepE: "router_step (r, d) (r', d')"

lemma inv_nodedb: "router_inv r \<Longrightarrow> nodedb_typed db \<Longrightarrow> router_inv (r\<lparr>r_nodedb := db\<rparr>)"
  by (simp add: router_inv_def)

lemma inv_dht: "router_inv r \<Longrightarrow> dc_nodes ctx = dc_nodes (r_dht r) \<Longrightarrow> router_inv (r\<lparr>r_dht := ctx\<rparr>)"
  by (simp add: router_inv_def)

lemma typed_get: "nodedb_typed db \<Longrightarrow> udap_nodedb_get_rc k db = Some rc \<Longrightarrow> length (rc_pubkey rc) = 32"
  by (auto simp: nodedb_typed_def get_rc_eq dest!: map_of_SomeD)

lemma inv_send:
  assumes "router_inv r" "length remote = 32" "router_SendToOrQueue E remote msg r = Some (ok, r')"
  shows "router_inv r'"
proof (cases "chosen_link E remote r")
  case (Some l)
  then show ?thesis using assms inv_SendTo by (auto simp: router_SendToOrQueue_def split: bind_splits)
next
  case None
  let ?r = "r\<lparr>r_outboundMesssageQueue := map_put AlignedBuffer_less remote (queue_for remote r @ [msg]) (r_outboundMesssageQueue r)\<rparr>"
  have inv: "router_inv ?r" by (rule inv_queue [OF assms(1,2)])
  show ?thesis
  proof (cases "udap_nodedb_get_rc remote (r_nodedb r)")
    case (Some rc)
    have "length (rc_pubkey rc) = 32" using typed_get [OF _ Some] assms(1) by (simp add: router_inv_def)
    with Some None assms(3) inv_try_connect [OF inv] show ?thesis
      by (auto simp: router_SendToOrQueue_def split: bind_splits)
  next
    case no: None
    with None assms(3) inv show ?thesis by (auto simp: router_SendToOrQueue_def)
  qed
qed

lemma inv_attempt:
  assumes "router_inv r" "length k = 32" "handle_establish_timeout orig established k r = Some r'"
  shows "router_inv r'"
proof -
  have "router_inv r2" if "router_inv r1" "on_try_connect_result k r1 = Some r2" for r1 r2
    using that assms(2) inv_put_job job_in inv_erase inv_discard
    by (auto simp: on_try_connect_result_def async_verify_RC_def Let_def split: bind_splits option.splits if_splits)
  moreover have "router_inv (put_job k (job\<lparr>ej_link := l, ej_session := established\<rparr>) r)"
    if "map_find AlignedBuffer_less k (r_pendingEstablishJobs r) = Some job" for l job
    using inv_put_job [OF assms(1,2)] job_in [OF assms(1) that assms(2)] by simp
  ultimately show ?thesis
    using assms(1,3) by (auto simp: handle_establish_timeout_def split: if_splits bind_splits)
qed

lemma inv_verified:
  assumes "router_inv r" "length (rc_pubkey (vj_rc job)) = 32" "on_verify_server_rc E job k r = Some r'"
  shows "router_inv r'"
proof (cases "vj_valid job")
  case True
  have "router_inv (r\<lparr>r_validRouters := map_put AlignedBuffer_less (rc_pubkey (vj_rc job)) (vj_rc job) (r_validRouters r),
    r_dht := udap_dht_put_peer (r_dht r) (vj_rc job)\<rparr>)" by (rule inv_valid [OF assms(1,2)])
  with True assms show ?thesis
    by (auto simp: on_verify_server_rc_def Let_def split: bind_splits option.splits dest: inv_flush inv_erase)
next
  case False
  with assms show ?thesis
    by (auto simp: on_verify_server_rc_def Let_def intro!: inv_discard inv_erase split: bind_splits)
qed

lemma typed_verify:
  assumes "nodedb_typed db" "length (rc_pubkey (vj_rc job)) = 32"
    and "udap_nodedb_async_verify E job db d = Some (job', db', d')"
  shows "nodedb_typed db' \<and> vj_rc job' = vj_rc job"
proof -
  have "set (AList.update k v es) \<subseteq> insert (k, v) (set es)" for k v and es :: "(byte list \<times> udap_rc) list"
    by (induction es) auto
  then have "nodedb_typed (db\<lparr>nd_entries := AList.update (rc_pubkey (vj_rc job)) (vj_rc job) (nd_entries db)\<rparr>)"
    using assms(1,2) by (fastforce simp: nodedb_typed_def)
  with assms(1) verify_result [OF assms(3)] show ?thesis by (auto split: if_splits)
qed

lemma inv_ticker:
  assumes "router_inv r" "handle_router_ticker E peers orig left r = Some r'" shows "router_inv r'"
proof -
  have iter: "iter_sessions E ps r1 = Some r2 \<Longrightarrow> router_inv r1 \<Longrightarrow> router_inv r2" for ps r1 r2
  proof (induction ps arbitrary: r1)
    case (Cons p ps)
    then obtain ok r where *: "send_padded_message E p r1 = Some (ok, r)" by (auto split: bind_splits)
    then have "router_inv r" using Cons.prems(2) by (auto simp: send_padded_message_def split: bind_splits if_splits)
    with * Cons show ?case by (cases ok) auto
  qed simp
  show ?thesis
    using assms by (auto simp: handle_router_ticker_def router_Tick_def Let_def split: if_splits bind_splits dest!: iter)
qed

lemma router_step_inv: "router_step s s' \<Longrightarrow> router_inv (fst s) \<Longrightarrow> router_inv (fst s')"
proof (induction rule: router_step.induct)
  case (send remote E msg r ok r' d)
  then show ?case using inv_send by auto
next
  case (loaded NE job r d job' db r')
  then have "router_inv (r\<lparr>r_nodedb := db\<rparr>)" using inv_nodedb by simp
  with loaded inv_try_connect show ?case
    by (auto simp: HandleAsyncLoadRCForSendTo_def split: if_splits)
next
  case (looked_up result target r r' d)
  then show ?case using inv_try_connect inv_discard
    by (auto simp: HandleDHTLookupForSendTo_def split: option.splits)
next
  case (attempt_ended k orig established r r' d)
  then show ?case using inv_attempt by auto
next
  case (retry left k r r' d)
  then show ?case by (auto simp: connect_job_retry_def split: if_splits bind_splits)
next
  case (verified_server job NE r d job' db d' E k r')
  then have "nodedb_typed (r_nodedb r)" "router_inv r" by (simp_all add: router_inv_def)
  with typed_verify [OF _ verified_server(1,2)] have "router_inv (r\<lparr>r_nodedb := db\<rparr>)" "vj_rc job' = vj_rc job"
    by (simp_all add: inv_nodedb)
  with inv_verified [of "r\<lparr>r_nodedb := db\<rparr>" job' E k r'] verified_server(1,3) show ?case by simp
next
  case (verified_client job NE r d job' db d')
  then have "nodedb_typed (r_nodedb r)" by (simp add: router_inv_def)
  with typed_verify [OF _ verified_client(1,2)] have "nodedb_typed db" by simp
  with verified_client show ?case using inv_erase [OF inv_nodedb] by (simp add: on_verify_client_rc_def)
next
  case (dht_message now junk r msg ok replies ctx d)
  then show ?case using nodes_dht_Handle [of now junk "r_rc r" msg "r_dht r"] inv_dht by simp
next
  case (ticked E peers orig left r r' d)
  then show ?case using inv_ticker by auto
qed (simp_all add: inv_closed inv_dht)


section \<open>Failed attempts\<close>

text \<open>
  An attempt that fails and the retry that follows; \<open>failed_attempts n\<close> is \<open>n\<close> of them in a row. \<open>backoff\<close>
  lists the timeouts in the order in which they are set.
\<close>

fun failed_attempts :: "nat \<Rightarrow> byte list \<Rightarrow> udap_router \<Rightarrow> udap_router option" where
  "failed_attempts 0 k r = Some r"
| "failed_attempts (Suc n) k r = do {
     r \<leftarrow> handle_establish_timeout 1 None k r;
     r \<leftarrow> connect_job_retry 0 k r;
     failed_attempts n k r
   }"

fun backoff :: "nat \<Rightarrow> u64 \<Rightarrow> u64 list" where
  "backoff 0 t = []"
| "backoff (Suc n) t = t * 3 div 2 # backoff n (t * 3 div 2)"

lemma find_put_job:
  "router_inv r \<Longrightarrow> length k = 32 \<Longrightarrow>
    map_find AlignedBuffer_less k (r_pendingEstablishJobs (put_job k job r)) = Some job"
  by (simp add: put_job_def router_inv_def bytes.find_put)

lemma put_job_simps [simp]:
  "r_outboundMesssageQueue (put_job k job r) = r_outboundMesssageQueue r"
  "r_events (put_job k job r) = r_events r" "r_nodedb (put_job k job r) = r_nodedb r"
  by (simp_all add: put_job_def)

text \<open>One failed attempt with retries left, and its retry\<close>

lemma attempt_failed:
  assumes inv: "router_inv r" and k: "length k = 32"
    and job: "map_find AlignedBuffer_less k (r_pendingEstablishJobs r) = Some job" "ej_retries job > 0"
  obtains r1 r2 job' where
    "handle_establish_timeout 1 None k r = Some r1" "connect_job_retry 0 k r1 = Some r2" "router_inv r2"
    "map_find AlignedBuffer_less k (r_pendingEstablishJobs r2) = Some job'"
    "ej_retries job' = ej_retries job - 1" "ej_timeout job' = ej_timeout job * 3 div 2"
    "r_events r2 = r_events r @ [ConnectRetry (ej_timeout job * 3 div 2) k, TryEstablish k]"
    "r_outboundMesssageQueue r2 = r_outboundMesssageQueue r"
proof -
  let ?j1 = "job\<lparr>ej_link := Some outboundLink, ej_session := None\<rparr>"
  let ?j2 = "?j1\<lparr>ej_retries := ej_retries job - 1, ej_timeout := ej_timeout job * 3 div 2\<rparr>"
  let ?r = "put_job k ?j2 (put_job k ?j1 r)"
  let ?r1 = "router_emit [ConnectRetry (ej_timeout job * 3 div 2) k] ?r"
  have inv1: "router_inv (put_job k ?j1 r)" using inv_put_job [OF inv k] job_in [OF inv job(1) k] by simp
  then have inv2: "router_inv ?r" using inv_put_job [OF inv1 k] job_in [OF inv job(1) k] by simp
  have f: "map_find AlignedBuffer_less k (r_pendingEstablishJobs ?r) = Some ?j2" by (rule find_put_job [OF inv1 k])
  have "handle_establish_timeout 1 None k r = Some ?r1"
    using job find_put_job [OF inv k]
    by (simp add: handle_establish_timeout_def on_try_connect_result_def Let_def)
  moreover have "connect_job_retry 0 k ?r1 = Some (router_emit [TryEstablish k] ?r1)"
    using f by (simp add: connect_job_retry_def)
  ultimately show thesis using that [of ?r1 "router_emit [TryEstablish k] ?r1" ?j2] inv2 f by simp
qed

lemma attempts_run:
  assumes "router_inv r" "length k = 32"
    and "map_find AlignedBuffer_less k (r_pendingEstablishJobs r) = Some job" "unat (ej_retries job) = n"
  shows "\<exists>r' job'. failed_attempts n k r = Some r' \<and> router_inv r' \<and>
    map_find AlignedBuffer_less k (r_pendingEstablishJobs r') = Some job' \<and> ej_retries job' = 0 \<and>
    r_events r' = r_events r @ concat (map (\<lambda>t. [ConnectRetry t k, TryEstablish k]) (backoff n (ej_timeout job))) \<and>
    r_outboundMesssageQueue r' = r_outboundMesssageQueue r"
  using assms
proof (induction n arbitrary: r job)
  case 0
  then show ?case by (auto simp: unat_eq_0)
next
  case (Suc n)
  have pos: "ej_retries job > 0" using Suc.prems(4) by (metis unat_0 nat.distinct(1) word_greater_zero_iff)
  from attempt_failed [OF Suc.prems(1-3) this] obtain r1 r2 job' where
    step: "handle_establish_timeout 1 None k r = Some r1" "connect_job_retry 0 k r1 = Some r2"
    and r2: "router_inv r2" "map_find AlignedBuffer_less k (r_pendingEstablishJobs r2) = Some job'"
    and job': "ej_retries job' = ej_retries job - 1" "ej_timeout job' = ej_timeout job * 3 div 2"
    and obs: "r_events r2 = r_events r @ [ConnectRetry (ej_timeout job * 3 div 2) k, TryEstablish k]"
      "r_outboundMesssageQueue r2 = r_outboundMesssageQueue r" .
  have "unat (ej_retries job') = n" using Suc.prems(4) job'(1) pos by (simp add: unat_minus_one)
  from Suc.IH [OF r2(1) Suc.prems(2) r2(2) this] step job'(2) obs show ?case by simp
qed


section \<open>Properties\<close>

text \<open>
  C7. In every state that a router reaches its maps are in the order in which they are searched, every
  pending job and every verified router stands under its own key, and the hash table knows as
  peers exactly the verified routers, with the contacts that were verified.
\<close>

theorem router_reaches_inv:
  assumes "router_step\<^sup>*\<^sup>* (r, d) (r', d')" "router_inv r"
  shows "router_inv r'"
proof -
  have "router_inv (fst s')" if "router_step\<^sup>*\<^sup>* s s'" "router_inv (fst s)" for s s'
    using that by (induction rule: rtranclp_induct) (auto dest: router_step_inv)
  from this [OF assms(1)] assms(2) show ?thesis by simp
qed

definition example_router :: udap_router where
  "example_router = \<lparr>r_inboundLinks = [1], r_outboundMesssageQueue = [], r_validRouters = [], r_pendingEstablishJobs = [],
     r_nodedb = \<lparr>nd_entries = [(replicate 32 4, example_rc)], nd_nodePath = lit ''netdb''\<rparr>, r_dht = example_ctx,
     r_paths = PathContext_new, r_rc = rc_zero, r_sendPadding = False, r_events = []\<rparr>"

definition example_router_env :: router_env where
  "example_router_env = \<lparr>re_ntop = hex_ntop, re_buffer = replicate 1024 0, re_has_session_to = (\<lambda>l k. False),
     re_sendto = (\<lambda>l k. True), re_now = 1000\<rparr>"

definition example_discard :: link_message where
  "example_discard = Discard \<lparr>dm_remote = replicate 32 0, dm_version = 0, dm_pad = [1, 2, 3]\<rparr>"

lemma example_router_inv: "router_inv example_router"
  using bucket_inv_new [of "replicate 32 1"]
  by (simp add: router_inv_def example_router_def nodedb_typed_def example_rc_def example_ctx_def
      bucket_map_def Bucket_new_def)

theorem router_reaches_inv_witness:
  "router_inv (SessionClosed (replicate 32 9) (example_router\<lparr>r_dht := LookupRouterViaJob 5 [] example_job example_ctx\<rparr>))"
proof -
  have "router_step (example_router, \<lambda>_. None) (example_router\<lparr>r_dht := LookupRouterViaJob 5 [] example_job example_ctx\<rparr>, \<lambda>_. None)"
    using router_step.lookup [of example_router "\<lambda>_. None" 5 "[]" example_job] by (simp add: example_router_def)
  moreover note router_step.closed [of "replicate 32 9" "example_router\<lparr>r_dht := LookupRouterViaJob 5 [] example_job example_ctx\<rparr>" "\<lambda>_. None"]
  ultimately have "router_step\<^sup>*\<^sup>* (example_router, \<lambda>_. None)
      (SessionClosed (replicate 32 9) (example_router\<lparr>r_dht := LookupRouterViaJob 5 [] example_job example_ctx\<rparr>), \<lambda>_. None)"
    by (simp add: rtranclp.rtrancl_into_rtrancl)
  from router_reaches_inv [OF this example_router_inv] show ?thesis .
qed


text \<open>What a flush sends, when every message can be encoded and the link takes them.\<close>

lemma flush_all:
  assumes "inet_ok (re_ntop E) pton" "re_sendto E l remote"
    and "list_all (\<lambda>m. link_valid u src m \<and> length (link_bytes (re_ntop E) m) < length (re_buffer E)) q"
  shows "flush_loop E l remote q = Some (map (\<lambda>m. LinkSend l remote (link_bytes (re_ntop E) m)) q)"
  using assms(3)
proof (induction q)
  case (Cons m q)
  then obtain b where "link_BEncode (re_ntop E) m (StackBuffer (re_buffer E)) = Some (True, b)"
    "encoded b = link_bytes (re_ntop E) m"
    using emits_stack [OF emits_link [OF assms(1)]] by (metis list.pred_inject(2))
  with Cons assms(2) show ?case by simp
qed simp

lemma queue_for_put:
  "router_inv r \<Longrightarrow> length k = 32 \<Longrightarrow>
    queue_for k (r\<lparr>r_outboundMesssageQueue := map_put AlignedBuffer_less k q (r_outboundMesssageQueue r)\<rparr>) = q"
  by (simp add: queue_for_def router_inv_def bytes.find_put)

lemma find_erased:
  "router_inv r \<Longrightarrow> length k = 32 \<Longrightarrow> \<not> HasPendingConnectJob k (erase_job k r)"
  by (simp add: HasPendingConnectJob_def erase_job_def router_inv_def bytes.find_del)

text \<open>The stages of a message to a router without a session: queued with a job for a session ...\<close>

lemma queued_with_job:
  assumes inv: "router_inv r" and k: "length remote = 32"
    and "chosen_link E remote r = None" "\<not> HasPendingConnectJob remote r"
    and "udap_nodedb_get_rc remote (r_nodedb r) = Some rc" "rc_pubkey rc = remote" "rc_addrs rc = Some (a # as)"
  obtains r1 where "router_SendToOrQueue E remote msg r = Some (True, r1)" "router_inv r1"
    "map_find AlignedBuffer_less remote (r_pendingEstablishJobs r1) = Some \<lparr>ej_ai = a, ej_timeout = 10000, ej_retries = 10,
       ej_pubkey = remote, ej_link = None, ej_session = None\<rparr>"
    "map_find AlignedBuffer_less remote (r_outboundMesssageQueue r1) = Some (queue_for remote r @ [msg])"
    "r_events r1 = r_events r @ [TryEstablish remote]"
proof -
  let ?q = "r\<lparr>r_outboundMesssageQueue := map_put AlignedBuffer_less remote (queue_for remote r @ [msg]) (r_outboundMesssageQueue r)\<rparr>"
  let ?job = "\<lparr>ej_ai = a, ej_timeout = 10000, ej_retries = 10, ej_pubkey = remote, ej_link = None, ej_session = None\<rparr>"
  let ?r = "router_emit [TryEstablish remote] (put_job remote ?job ?q)"
  have inv2: "router_inv ?q" by (rule inv_queue [OF inv k])
  have "router_SendToOrQueue E remote msg r = Some (True, ?r)"
    using assms(3-7) by (simp add: router_SendToOrQueue_def udap_router_try_connect_def HasPendingConnectJob_def Let_def
        udap_ai_list_index_def map_emplace_def put_job_def split: option.splits)
  moreover have "map_find AlignedBuffer_less remote (r_outboundMesssageQueue ?r) = Some (queue_for remote r @ [msg])"
    using inv k by (simp add: router_inv_def bytes.find_put)
  ultimately show thesis
    using that [of ?r] inv_put_job [OF inv2 k, of ?job] find_put_job [OF inv2 k] by simp
qed


text \<open>... and sent with all that was queued, once the other end's contact is verified.\<close>

lemma verified_flush:
  assumes inv: "router_inv r" and k: "length pk = 32" "rc_pubkey (vj_rc job) = pk" and "vj_valid job"
    and "map_find AlignedBuffer_less pk (r_pendingEstablishJobs r) = Some ej" "ej_session ej = Some s"
    and q: "map_find AlignedBuffer_less pk (r_outboundMesssageQueue r) = Some q"
    and "flush_loop E (ls_link s) pk q = Some evs"
  obtains r' where "on_verify_server_rc E job pk r = Some r'" "r_events r' = r_events r @ evs"
    "\<not> HasPendingConnectJob pk r'" "queue_for pk r' = []"
    "map_find AlignedBuffer_less pk (r_validRouters r') = Some (vj_rc job)" "r_pendingEstablishJobs r' = map_del AlignedBuffer_less pk (r_pendingEstablishJobs r)"
proof -
  let ?v = "r\<lparr>r_validRouters := map_put AlignedBuffer_less pk (vj_rc job) (r_validRouters r),
    r_dht := udap_dht_put_peer (r_dht r) (vj_rc job)\<rparr>"
  let ?f = "router_emit evs (?v\<lparr>r_outboundMesssageQueue := map_put AlignedBuffer_less pk [] (r_outboundMesssageQueue r)\<rparr>)"
  have "on_verify_server_rc E job pk r = Some (erase_job pk ?f)"
    using assms by (simp add: on_verify_server_rc_def FlushOutboundFor_def Let_def)
  moreover have "map_find AlignedBuffer_less pk (r_validRouters (erase_job pk ?f)) = Some (vj_rc job)"
    "queue_for pk (erase_job pk ?f) = []" "\<not> HasPendingConnectJob pk (erase_job pk ?f)"
    using inv k(1) by (simp_all add: erase_job_def router_inv_def bytes.find_put bytes.find_del queue_for_def HasPendingConnectJob_def)
  ultimately show thesis using that [of "erase_job pk ?f"] by (simp add: erase_job_def)
qed

text \<open>
  C6. A message for a router with whom there is no session is not lost. When the database knows the
  router, the message is queued and one job asks the outbound link for a session; when the link
  reports it, the contact of the other end goes to the verification; when that succeeds, the
  queued messages are given to the link of the session, each once, in the order in which they
  were queued, the queue is empty, the job is gone and the router is one of the verified.
\<close>

theorem queued_message_sent:
  assumes inv: "router_inv r" and k: "length remote = 32"
    and "chosen_link E remote r = None" "\<not> HasPendingConnectJob remote r"
    and "udap_nodedb_get_rc remote (r_nodedb r) = Some rc" "rc_pubkey rc = remote" "rc_addrs rc = Some (a # as)"
    and s: "rc_pubkey (ls_rc s) = remote" "orig \<noteq> 0"
    and E2: "inet_ok (re_ntop E2) pton" "re_sendto E2 (ls_link s) remote"
    and q: "list_all (\<lambda>m. link_valid u src m \<and> length (link_bytes (re_ntop E2) m) < length (re_buffer E2))
      (queue_for remote r @ [msg])"
  shows "\<exists>r1 r2. router_SendToOrQueue E remote msg r = Some (True, r1) \<and>
    r_events r1 = r_events r @ [TryEstablish remote] \<and>
    handle_establish_timeout orig (Some s) remote r1 = Some r2 \<and>
    r_events r2 = r_events r1 @ [VerifyServer (ls_rc s) remote] \<and>
    (\<forall>NE d job' db' d'. udap_nodedb_async_verify NE \<lparr>vj_rc = ls_rc s, vj_valid = False\<rparr> (r_nodedb r2) d = Some (job', db', d') \<longrightarrow>
      vj_valid job' \<longrightarrow>
      (\<exists>r3. on_verify_server_rc E2 job' remote (r2\<lparr>r_nodedb := db'\<rparr>) = Some r3 \<and>
         r_events r3 = r_events r2 @
           map (\<lambda>m. LinkSend (ls_link s) remote (link_bytes (re_ntop E2) m)) (queue_for remote r @ [msg]) \<and>
         queue_for remote r3 = [] \<and> \<not> HasPendingConnectJob remote r3 \<and>
         map_find AlignedBuffer_less remote (r_validRouters r3) = Some (ls_rc s)))"
proof -
  obtain r1 where r1: "router_SendToOrQueue E remote msg r = Some (True, r1)" "router_inv r1"
    "map_find AlignedBuffer_less remote (r_pendingEstablishJobs r1) = Some \<lparr>ej_ai = a, ej_timeout = 10000, ej_retries = 10,
       ej_pubkey = remote, ej_link = None, ej_session = None\<rparr>"
    "map_find AlignedBuffer_less remote (r_outboundMesssageQueue r1) = Some (queue_for remote r @ [msg])"
    "r_events r1 = r_events r @ [TryEstablish remote]"
    using queued_with_job [OF inv k assms(3-7), of msg] by blast
  let ?job = "\<lparr>ej_ai = a, ej_timeout = 10000, ej_retries = 10, ej_pubkey = remote, ej_link = Some outboundLink, ej_session = Some s\<rparr>"
  let ?r2 = "router_emit [VerifyServer (ls_rc s) remote] (put_job remote ?job r1)"
  have r2: "handle_establish_timeout orig (Some s) remote r1 = Some ?r2"
    using r1(3) s(2) find_put_job [OF r1(2) k, of ?job]
    by (simp add: handle_establish_timeout_def on_try_connect_result_def async_verify_RC_def copy_is_source)
  have inv2: "router_inv ?r2" using inv_put_job [OF r1(2) k, of ?job] by simp
  have fin: "\<exists>r3. on_verify_server_rc E2 job' remote (?r2\<lparr>r_nodedb := db'\<rparr>) = Some r3 \<and>
       r_events r3 = r_events ?r2 @ map (\<lambda>m. LinkSend (ls_link s) remote (link_bytes (re_ntop E2) m)) (queue_for remote r @ [msg]) \<and>
       queue_for remote r3 = [] \<and> \<not> HasPendingConnectJob remote r3 \<and>
       map_find AlignedBuffer_less remote (r_validRouters r3) = Some (ls_rc s)"
    if v: "udap_nodedb_async_verify NE \<lparr>vj_rc = ls_rc s, vj_valid = False\<rparr> (r_nodedb ?r2) d = Some (job', db', d')" "vj_valid job'"
    for NE d job' db' d'
  proof -
    have job': "vj_rc job' = ls_rc s" using verify_result [OF v(1)] by simp
    have "nodedb_typed (r_nodedb ?r2)" using inv2 by (simp add: router_inv_def)
    from typed_verify [OF this _ v(1)] have "router_inv (?r2\<lparr>r_nodedb := db'\<rparr>)"
      using inv_nodedb [OF inv2] s(1) k by simp
    note flushed = verified_flush [OF this k _ v(2) _ _ _ flush_all [OF E2 q], where ej = ?job]
    show ?thesis
      by (rule flushed) (use find_put_job [OF r1(2) k, of ?job] r1(4) job' s(1) in \<open>auto simp: put_job_def\<close>)
  qed
  from r1 r2 fin show ?thesis by (intro exI [of _ r1] exI [of _ ?r2]) simp
qed


lemma example_queue_ok:
  "list_all (\<lambda>m. link_valid \<lparr>u_ai = uninit_ai, u_bytes = (\<lambda>n. replicate n 0), u_u64 = 0\<rparr> rc_zero m \<and>
      length (link_bytes (re_ntop example_router_env) m) < length (re_buffer example_router_env)) [example_discard]"
proof -
  have "length (link_bytes hex_ntop example_discard) < 1024" by code_simp
  then show ?thesis
    by (simp add: example_discard_def example_router_env_def rc_zero_def MAX_DISCARD_SIZE_def PUBKEYSIZE_def)
qed

theorem queued_message_sent_witness:
  "\<exists>r1 r2 r3 job' db'. router_SendToOrQueue example_router_env (replicate 32 4) example_discard example_router = Some (True, r1) \<and>
    handle_establish_timeout 5000 (Some \<lparr>ls_rc = example_rc, ls_link = 0\<rparr>) (replicate 32 4) r1 = Some r2 \<and>
    on_verify_server_rc example_router_env job' (replicate 32 4) (r2\<lparr>r_nodedb := db'\<rparr>) = Some r3 \<and>
    r_events r3 = [TryEstablish (replicate 32 4), VerifyServer example_rc (replicate 32 4),
      LinkSend 0 (replicate 32 4) (link_bytes hex_ntop example_discard)]"
proof -
  let ?s = "\<lparr>ls_rc = example_rc, ls_link = 0\<rparr>"
  have c: "chosen_link example_router_env (replicate 32 4) example_router = None"
    "\<not> HasPendingConnectJob (replicate 32 4) example_router"
    "udap_nodedb_get_rc (replicate 32 4) (r_nodedb example_router) = Some example_rc"
    "rc_pubkey example_rc = replicate 32 4" "rc_addrs example_rc = Some [example_ai]"
    by (simp_all add: chosen_link_def example_router_env_def example_router_def HasPendingConnectJob_def get_rc_eq example_rc_def)
  have e: "inet_ok (re_ntop example_router_env) HexDecode" "re_sendto example_router_env (ls_link ?s) (replicate 32 4)"
    by (simp_all add: example_router_env_def inet_ok_hex)
  have q: "queue_for (replicate 32 4) example_router @ [example_discard] = [example_discard]"
    by (simp add: queue_for_def example_router_def)
  have p: "length (replicate 32 (4::byte)) = 32" "rc_pubkey (ls_rc ?s) = replicate 32 4" "(5000::u64) \<noteq> 0"
    using c(4) by simp_all
  from queued_message_sent [where msg = example_discard, OF example_router_inv p(1) c p(2,3) e, unfolded q, OF example_queue_ok]
  obtain r1 r2 where r: "router_SendToOrQueue example_router_env (replicate 32 4) example_discard example_router = Some (True, r1)"
    "r_events r1 = r_events example_router @ [TryEstablish (replicate 32 4)]"
    "handle_establish_timeout 5000 (Some ?s) (replicate 32 4) r1 = Some r2"
    "r_events r2 = r_events r1 @ [VerifyServer (ls_rc ?s) (replicate 32 4)]"
    and v: "\<forall>NE d job' db' d'. udap_nodedb_async_verify NE \<lparr>vj_rc = ls_rc ?s, vj_valid = False\<rparr> (r_nodedb r2) d = Some (job', db', d') \<longrightarrow>
      vj_valid job' \<longrightarrow> (\<exists>r3. on_verify_server_rc example_router_env job' (replicate 32 4) (r2\<lparr>r_nodedb := db'\<rparr>) = Some r3 \<and>
         r_events r3 = r_events r2 @ map (\<lambda>m. LinkSend (ls_link ?s) (replicate 32 4) (link_bytes (re_ntop example_router_env) m)) [example_discard] \<and>
         queue_for (replicate 32 4) r3 = [] \<and> \<not> HasPendingConnectJob (replicate 32 4) r3 \<and>
         map_find AlignedBuffer_less (replicate 32 4) (r_validRouters r3) = Some (ls_rc ?s))"
    by (elim exE conjE)
  obtain db' d' where "udap_nodedb_async_verify example_nodedb_env \<lparr>vj_rc = ls_rc ?s, vj_valid = False\<rparr> (r_nodedb r2) (\<lambda>_. None) =
      Some (\<lparr>vj_rc = example_rc, vj_valid = True\<rparr>, db', d')" using example_verify_job [of "r_nodedb r2" "\<lambda>_. None"] by auto
  with v obtain r3 where
    "on_verify_server_rc example_router_env \<lparr>vj_rc = example_rc, vj_valid = True\<rparr> (replicate 32 4) (r2\<lparr>r_nodedb := db'\<rparr>) = Some r3"
    "r_events r3 = r_events r2 @ [LinkSend 0 (replicate 32 4) (link_bytes hex_ntop example_discard)]"
    by (fastforce simp: example_router_env_def)
  moreover have "r_events example_router = []" by (simp add: example_router_def)
  ultimately show ?thesis using r by (metis append_Cons append_Nil link_session.select_convs(1))
qed

lemma backoff_ten:
  "backoff 10 10000 = [15000, 22500, 33750, 50625, 75937, 113905, 170857, 256285, 384427, 576640]"
  by code_simp

text \<open>
  C31. Attempts to connect come to an end. A new job is retried ten times, each time with a timeout half as
  long again, from fifteen seconds to under ten minutes; then the job is gone and what was
  queued for the router is discarded, so that a later message starts a new job.
\<close>

theorem connect_attempts_end:
  assumes inv: "router_inv r" and k: "length k = 32"
    and job: "map_find AlignedBuffer_less k (r_pendingEstablishJobs r) = Some job" "ej_retries job = 10" "ej_timeout job = 10000"
  shows "\<exists>r1 r2. failed_attempts 10 k r = Some r1 \<and>
    r_events r1 = r_events r @ concat (map (\<lambda>t. [ConnectRetry t k, TryEstablish k])
      [15000, 22500, 33750, 50625, 75937, 113905, 170857, 256285, 384427, 576640]) \<and>
    handle_establish_timeout 1 None k r1 = Some r2 \<and> r_events r2 = r_events r1 \<and>
    \<not> HasPendingConnectJob k r2 \<and> queue_for k r2 = []"
proof -
  have n: "unat (ej_retries job) = 10" by (simp add: job(2))
  have "backoff 10 (ej_timeout job) = [15000, 22500, 33750, 50625, 75937, 113905, 170857, 256285, 384427, 576640]"
    by (simp only: job(3) backoff_ten)
  with attempts_run [OF inv k job(1) n] obtain r1 job' where r1: "failed_attempts 10 k r = Some r1" "router_inv r1"
    "map_find AlignedBuffer_less k (r_pendingEstablishJobs r1) = Some job'" "ej_retries job' = 0"
    "r_events r1 = r_events r @ concat (map (\<lambda>t. [ConnectRetry t k, TryEstablish k])
      [15000, 22500, 33750, 50625, 75937, 113905, 170857, 256285, 384427, 576640])" by auto
  let ?r = "put_job k (job'\<lparr>ej_link := Some outboundLink, ej_session := None\<rparr>) r1"
  have pk: "ej_pubkey job' = k" by (rule job_in [OF r1(2,3) k])
  have inv2: "router_inv ?r" using inv_put_job [OF r1(2) k] pk by simp
  have "handle_establish_timeout 1 None k r1 = Some (erase_job k (DiscardOutboundFor k ?r))"
    using r1(3,4) find_put_job [OF r1(2) k] pk by (simp add: handle_establish_timeout_def on_try_connect_result_def)
  moreover have "\<not> HasPendingConnectJob k (erase_job k (DiscardOutboundFor k ?r))"
    by (rule find_erased [OF inv_discard [OF inv2] k])
  moreover have "queue_for k (erase_job k (DiscardOutboundFor k ?r)) = []"
    using inv2 k by (simp add: queue_for_def erase_job_def DiscardOutboundFor_def router_inv_def bytes.find_del)
  ultimately show ?thesis using r1(1,5) by (auto simp: erase_job_def DiscardOutboundFor_def)
qed


definition example_pending_job :: udap_link_establish_job where
  "example_pending_job = \<lparr>ej_ai = example_ai, ej_timeout = 10000, ej_retries = 10, ej_pubkey = replicate 32 4,
     ej_link = None, ej_session = None\<rparr>"

lemma pending_inv: "router_inv (put_job (replicate 32 4) example_pending_job example_router)"
  by (rule inv_put_job [OF example_router_inv]) (simp_all add: example_pending_job_def)

theorem connect_attempts_end_witness:
  "\<exists>r1 r2. failed_attempts 10 (replicate 32 4) (put_job (replicate 32 4) example_pending_job example_router) = Some r1 \<and>
    handle_establish_timeout 1 None (replicate 32 4) r1 = Some r2 \<and> \<not> HasPendingConnectJob (replicate 32 4) r2"
  using connect_attempts_end [OF pending_inv, of "replicate 32 4" example_pending_job]
    find_put_job [OF example_router_inv, of "replicate 32 4" example_pending_job]
  by (auto simp: example_pending_job_def)

text \<open>
  A router that answers with the valid contact of another one blocks the way to itself: its messages
  stay in the queue, its job stays pending though no session and no timer will come back to it,
  and so every later attempt to connect to it is refused.
\<close>

theorem wrong_key_blocks:
  assumes inv: "router_inv r" and k: "length k = 32" "length (rc_pubkey (vj_rc job)) = 32"
    and "rc_pubkey (vj_rc job) \<noteq> k" "vj_valid job"
    and pending: "map_find AlignedBuffer_less k (r_pendingEstablishJobs r) = Some ej"
    and r': "on_verify_server_rc E job k r = Some r'" and rc: "rc_pubkey rc = k"
  shows "HasPendingConnectJob k r' \<and> queue_for k r' = queue_for k r \<and> udap_router_try_connect rc n r' = Some (False, r')"
proof -
  have "map_find AlignedBuffer_less k (r_pendingEstablishJobs r') = Some ej \<and> queue_for k r' = queue_for k r"
    using assms bytes.find_put [OF k(2,1), of "r_outboundMesssageQueue r"] bytes.find_del [OF k(2,1), of "r_pendingEstablishJobs r"]
    by (auto simp: on_verify_server_rc_def FlushOutboundFor_def erase_job_def queue_for_def router_inv_def Let_def
        split: bind_splits option.splits)
  then show ?thesis using rc by (simp add: HasPendingConnectJob_def udap_router_try_connect_def)
qed

theorem wrong_key_blocks_witness:
  "\<exists>r'. on_verify_server_rc example_router_env \<lparr>vj_rc = example_rc\<lparr>rc_pubkey := replicate 32 6\<rparr>, vj_valid = True\<rparr> (replicate 32 4)
      (put_job (replicate 32 4) example_pending_job example_router) = Some r' \<and>
    udap_router_try_connect example_rc 10 r' = Some (False, r')"
proof -
  let ?r = "put_job (replicate 32 4) example_pending_job example_router"
  let ?job = "\<lparr>vj_rc = example_rc\<lparr>rc_pubkey := replicate 32 6\<rparr>, vj_valid = True\<rparr>"
  have p: "map_find AlignedBuffer_less (replicate 32 4) (r_pendingEstablishJobs ?r) = Some example_pending_job"
    by (rule find_put_job [OF example_router_inv]) simp
  then obtain r' where r': "on_verify_server_rc example_router_env ?job (replicate 32 4) ?r = Some r'"
    by (simp add: on_verify_server_rc_def example_pending_job_def Let_def)
  have "(replicate 32 6 :: byte list) \<noteq> replicate 32 4" by (simp add: replicate_eq_replicate)
  with wrong_key_blocks [OF pending_inv _ _ _ _ p r', of example_rc 10] r' show ?thesis by (simp add: example_rc_def)
qed

end
