(* ===== verification/Config.thy ===== *)
theory Config
  imports CLib "HOL-Library.AList"
begin

text \<open>
  The configuration: the parser of ini files (\<open>udap/ini.hpp\<close>), what is taken from them
  (\<open>udap/config.cpp\<close>), and in which order the settings are visited. A level of the file is an object
  in the map of its parent, known by the names of the sections that lead to it; a pointer to a level is
  such a path. The parser's call for a section returns only at the end of the file, so that the
  parser is one loop over the lines with a current level. Exceptions are values of an error type.
\<close>

section \<open>Lines and strings\<close>

text \<open>\<open>std::getline\<close> until it fails\<close>

function getlines :: "byte list \<Rightarrow> byte list list" where
  "getlines [] = []"
| "getlines (c # cs) = takeWhile (\<lambda>x. x \<noteq> 10) (c # cs) # getlines (tl (dropWhile (\<lambda>x. x \<noteq> 10) (c # cs)))"
  by pat_completeness auto
termination
proof (relation "measure length", goal_cases)
  case (2 c cs)
  show ?case using length_dropWhile_le [of "\<lambda>x. x \<noteq> 10" "c # cs"] by (auto simp: less_Suc_eq_le)
qed simp

text \<open>\<open>strchr\<close> in the blanks of \<open>trim\<close> also finds the terminating zero.\<close>

definition blank :: "byte \<Rightarrow> bool" where
  "blank c \<longleftrightarrow> c = 32 \<or> c = 9 \<or> c = 13 \<or> c = 10 \<or> c = 0"

text \<open>\<open>substr\<close>, where a negative count has become a large one\<close>

definition substr :: "byte list \<Rightarrow> nat \<Rightarrow> int \<Rightarrow> byte list" where
  "substr s pos n = (if n < 0 then drop pos s else take (nat n) (drop pos s))"

function trim_front :: "byte list \<Rightarrow> int \<Rightarrow> int \<Rightarrow> int" where
  "trim_front s sp ep = (if sp \<le> ep \<and> blank (s ! nat sp) then trim_front s (sp + 1) ep else sp)"
  by auto
termination by (relation "measure (\<lambda>(s, sp, ep). nat (ep + 1 - sp))") auto

function trim_back :: "byte list \<Rightarrow> int \<Rightarrow> int" where
  "trim_back s ep = (if ep \<ge> 0 \<and> blank (s ! nat ep) then trim_back s (ep - 1) else ep)"
  by auto
termination by (relation "measure (\<lambda>(s, ep). nat (ep + 1))") auto

definition trim :: "byte list \<Rightarrow> byte list" where
  "trim s = (let ep = int (length s) - 1; sp = trim_front s 0 ep; ep = trim_back s ep in substr s (nat sp) (ep - sp + 1))"

section \<open>The parser\<close>

type_synonym path = "byte list list"

record Level =
  lv_values :: "(byte list \<times> byte list) list"
  lv_ordered :: "byte list list"
  lv_parent :: "path option"
  lv_depth :: nat

definition Level_new :: Level where
  "Level_new = \<lparr>lv_values = [], lv_ordered = [], lv_parent = None, lv_depth = 0\<rparr>"

text \<open>\<open>NullLevel\<close>: a level without parent is dereferenced.\<close>

datatype ini_error = WrongDepth nat | DuplicateSection nat | NoEquals nat | NullLevel

record Parser =
  pa_levels :: "(path \<times> Level) list"
  pa_current :: path
  pa_ln :: nat

definition Parser_new :: Parser where
  "Parser_new = \<lparr>pa_levels = [([], Level_new)], pa_current = [], pa_ln = 0\<rparr>"

definition parseSLine :: "byte list \<Rightarrow> byte list \<times> nat" where
  "parseSLine line =
     (let depth = length (takeWhile (\<lambda>c. c = 0x5B) line)
      in (substr line depth (int (length line) - 2 * int depth), depth))"

text \<open>\<open>n\<close> times from a level to its parent\<close>

fun ascend :: "nat \<Rightarrow> (path \<times> Level) list \<Rightarrow> path \<Rightarrow> path option" where
  "ascend 0 ls p = Some p"
| "ascend (Suc n) ls p = do { l \<leftarrow> map_of ls p; q \<leftarrow> lv_parent l; ascend n ls q }"

definition enter_section :: "byte list \<Rightarrow> Parser \<Rightarrow> ini_error + Parser" where
  "enter_section line p =
     (let (sname, depth) = parseSLine line in
      case map_of (pa_levels p) (pa_current p) of
        None \<Rightarrow> Inl NullLevel
      | Some l \<Rightarrow>
          if depth > lv_depth l + 1 then Inl (WrongDepth (pa_ln p))
          else (case ascend (if lv_depth l = depth - 1 then 0 else lv_depth l - depth + 1) (pa_levels p) (pa_current p) of
                  None \<Rightarrow> Inl NullLevel
                | Some parent \<Rightarrow>
                    (let lp = (case map_of (pa_levels p) (parent @ [sname]) of None \<Rightarrow> Level_new | Some lp \<Rightarrow> lp)
                     in if lv_depth lp \<noteq> 0 then Inl (DuplicateSection (pa_ln p))
                        else (let lp = (if lv_parent lp = None then lp\<lparr>lv_depth := depth, lv_parent := Some parent\<rparr> else lp);
                                  ls = AList.update (parent @ [sname]) lp (pa_levels p)
                              in case map_of ls parent of
                                   None \<Rightarrow> Inl NullLevel
                                 | Some up \<Rightarrow> Inr (p\<lparr>pa_levels := AList.update parent (up\<lparr>lv_ordered := lv_ordered up @ [sname]\<rparr>) ls,
                                     pa_current := parent @ [sname]\<rparr>)))))"

definition add_value :: "byte list \<Rightarrow> Parser \<Rightarrow> ini_error + Parser" where
  "add_value line p =
     (let n = length (takeWhile (\<lambda>c. c \<noteq> 0x3D) line) in
      if n = length line then Inl (NoEquals (pa_ln p))
      else (case map_of (pa_levels p) (pa_current p) of
              None \<Rightarrow> Inl NullLevel
            | Some l \<Rightarrow> Inr (p\<lparr>pa_levels := AList.update (pa_current p)
                (l\<lparr>lv_values := lv_values l @ [(trim (substr line 0 (int n)), trim (substr line (n + 1) (int (length line) - int n - 1)))]\<rparr>)
                (pa_levels p)\<rparr>)))"

definition parse_line :: "byte list \<Rightarrow> Parser \<Rightarrow> ini_error + Parser" where
  "parse_line line p =
     (let p = p\<lparr>pa_ln := pa_ln p + 1\<rparr> in
      if line \<noteq> [] \<and> (hd line = 0x23 \<or> hd line = 0x3B) then Inr p
      else (let line = trim line in
            if line = [] then Inr p
            else if hd line = 0x5B then enter_section line p
            else add_value line p))"

fun parse :: "byte list list \<Rightarrow> Parser \<Rightarrow> ini_error + Parser" where
  "parse [] p = Inr p"
| "parse (line # lines) p = (case parse_line line p of Inl e \<Rightarrow> Inl e | Inr p \<Rightarrow> parse lines p)"

section \<open>What is taken from a file\<close>

type_synonym section_t = "(byte list \<times> byte list) list"

record Config =
  cf_router :: section_t
  cf_network :: section_t
  cf_netdb :: section_t
  cf_iwp_links :: section_t
  cf_connect :: section_t

definition Config_new :: Config where
  "Config_new = \<lparr>cf_router = [], cf_network = [], cf_netdb = [], cf_iwp_links = [], cf_connect = []\<rparr>"

definition find_section :: "Parser \<Rightarrow> byte list \<Rightarrow> section_t" where
  "find_section p name = (case map_of (pa_levels p) [name] of None \<Rightarrow> [] | Some l \<Rightarrow> lv_values l)"

text \<open>\<open>file\<close>: the contents, when it can be opened\<close>

definition Config_Load :: "byte list option \<Rightarrow> Config \<Rightarrow> ini_error + bool \<times> Config" where
  "Config_Load file conf =
     (case file of
        None \<Rightarrow> Inr (False, conf)
      | Some bs \<Rightarrow>
          (case parse (getlines bs) Parser_new of
             Inl e \<Rightarrow> Inl e
           | Inr p \<Rightarrow> Inr (True, \<lparr>cf_router = find_section p (lit ''router''), cf_network = find_section p (lit ''network''),
               cf_netdb = find_section p (lit ''netdb''), cf_iwp_links = find_section p (lit ''bind''),
               cf_connect = find_section p (lit ''connect'')\<rparr>)))"

text \<open>The visits: sections, keys and values as C strings. The router's come first, then the other sections in the order of a \<open>std::map\<close>.\<close>

definition c_str :: "byte list \<Rightarrow> byte list" where
  "c_str s = takeWhile (\<lambda>c. c \<noteq> 0) s"

definition visits :: "string \<Rightarrow> section_t \<Rightarrow> (byte list \<times> byte list \<times> byte list) list" where
  "visits name kvs = map (\<lambda>(k, v). (lit name, c_str k, c_str v)) kvs"

definition udap_config_iter :: "Config \<Rightarrow> (byte list \<times> byte list \<times> byte list) list" where
  "udap_config_iter conf = visits ''router'' (cf_router conf) @ visits ''bind'' (cf_iwp_links conf) @
     visits ''connect'' (cf_connect conf) @ visits ''netdb'' (cf_netdb conf) @ visits ''network'' (cf_network conf)"


declare trim_front.simps [simp del] trim_back.simps [simp del]

section \<open>Trimming\<close>

lemma trim_front_eq:
  "k \<le> length s \<Longrightarrow> trim_front s (int k) (int (length s) - 1) = int (k + length (takeWhile blank (drop k s)))"
proof (induction "length s - k" arbitrary: k)
  case 0
  then show ?case by (simp add: trim_front.simps)
next
  case (Suc n)
  then have k: "k < length s" "drop k s = s ! k # drop (Suc k) s" by (simp_all add: Cons_nth_drop_Suc)
  have "trim_front s (int k + 1) (int (length s) - 1) = int (Suc k + length (takeWhile blank (drop (Suc k) s)))"
    using Suc.hyps(1) [of "Suc k"] Suc.hyps(2) k by (simp add: add.commute)
  with k show ?case by (subst trim_front.simps) auto
qed

lemma trim_back_eq:
  "k \<le> length s \<Longrightarrow> trim_back s (int k - 1) = int (length (dropWhile blank (rev (take k s)))) - 1"
proof (induction k)
  case 0
  then show ?case by (simp add: trim_back.simps)
next
  case (Suc k)
  then have "take (Suc k) s = take k s @ [s ! k]" by (simp add: take_Suc_conv_app_nth)
  with Suc show ?case by (subst trim_back.simps) (auto simp: nat_add_distrib)
qed

lemma trim_eq: "trim s = rev (dropWhile blank (rev (dropWhile blank s)))"
proof -
  let ?a = "takeWhile blank s" and ?m = "dropWhile blank s"
  have t: "trim s = substr s (length ?a) (int (length (dropWhile blank (rev s))) - int (length ?a))"
    using trim_front_eq [of 0 s] trim_back_eq [of "length s" s] by (simp add: trim_def Let_def)
  show ?thesis
  proof (cases "?m = []")
    case True
    then have "\<forall>x \<in> set s. blank x" by (simp add: dropWhile_eq_Nil_conv)
    then have "?a = s" "dropWhile blank (rev s) = []" by (simp_all add: takeWhile_eq_all_conv dropWhile_eq_Nil_conv)
    with t have "trim s = []" by (simp add: substr_def)
    then show ?thesis unfolding True by simp
  next
    case False
    let ?d = "dropWhile blank (rev ?m)"
    obtain x where "x \<in> set (rev ?m)" "\<not> blank x" using False hd_dropWhile [of blank s] by (metis hd_in_set set_rev)
    then have "dropWhile blank (rev ?m @ rev ?a) = ?d @ rev ?a" by (rule dropWhile_append1)
    moreover have "rev ?m @ rev ?a = rev s" by (simp flip: rev_append)
    ultimately have "length (dropWhile blank (rev s)) = length ?d + length ?a" by (metis length_append length_rev)
    with t have "trim s = take (length ?d) (drop (length ?a) s)" by (simp add: substr_def)
    then have "trim s = take (length ?d) ?m" by (simp add: dropWhile_eq_drop)
    moreover have "?m = rev ?d @ rev (takeWhile blank (rev ?m))"
      by (simp flip: rev_append)
    ultimately show ?thesis by (metis append_eq_conv_conj length_rev)
  qed
qed

text \<open>
  \<open>trim\<close>, which moves two indices over the string, removes exactly the blanks at both ends, for every
  string, also one of blanks only.
\<close>

theorem trim_is_strip: "trim s = rev (dropWhile blank (rev (dropWhile blank s)))"
  by (rule trim_eq)

section \<open>Every file can be parsed without a null pointer\<close>

text \<open>
  Every level has the depth and the parent that its path says, its parent is there, and the current
  level is one of them.
\<close>

definition levels_ok :: "(path \<times> Level) list \<Rightarrow> bool" where
  "levels_ok ls \<longleftrightarrow> map_of ls [] \<noteq> None \<and>
     (\<forall>q. map_of ls q \<noteq> None \<longrightarrow> map_of ls (butlast q) \<noteq> None) \<and>
     (\<forall>q l. map_of ls q = Some l \<longrightarrow> lv_depth l = length q \<and> lv_parent l = (if q = [] then None else Some (butlast q)))"

definition parser_ok :: "Parser \<Rightarrow> bool" where
  "parser_ok p \<longleftrightarrow> levels_ok (pa_levels p) \<and> map_of (pa_levels p) (pa_current p) \<noteq> None"

lemma ascend_ok:
  assumes "levels_ok ls" "map_of ls q \<noteq> None" "n \<le> length q"
  shows "ascend n ls q = Some (take (length q - n) q) \<and> map_of ls (take (length q - n) q) \<noteq> None"
  using assms(2,3)
proof (induction n arbitrary: q)
  case (Suc n)
  then obtain l where l: "map_of ls q = Some l" by auto
  have "q \<noteq> []" using Suc.prems by auto
  with l assms(1) have "lv_parent l = Some (butlast q)" "map_of ls (butlast q) \<noteq> None" unfolding levels_ok_def by auto
  moreover have "take (length (butlast q) - n) (butlast q) = take (length q - Suc n) q" by (simp add: butlast_conv_take)
  ultimately show ?case using Suc.IH [of "butlast q"] Suc.prems l by simp
qed simp

lemma levels_ok_put:
  assumes "levels_ok ls" "map_of ls q = Some l" "lv_depth l' = lv_depth l" "lv_parent l' = lv_parent l"
  shows "levels_ok (AList.update q l' ls)"
proof -
  have u: "map_of (AList.update q l' ls) = (map_of ls)(q \<mapsto> l')" by (simp add: update_conv')
  show ?thesis using assms unfolding levels_ok_def u by simp
qed

lemma levels_ok_new:
  assumes "levels_ok ls" "map_of ls q \<noteq> None" "map_of ls (q @ [n]) = None" "lv_depth l = length q + 1" "lv_parent l = Some q"
  shows "levels_ok (AList.update (q @ [n]) l ls)"
proof -
  have u: "map_of (AList.update (q @ [n]) l ls) = (map_of ls)(q @ [n] \<mapsto> l)" by (simp add: update_conv')
  show ?thesis using assms unfolding levels_ok_def u by simp
qed


lemma depth_pos: "line \<noteq> [] \<Longrightarrow> hd line = 0x5B \<Longrightarrow> 0 < snd (parseSLine line)"
  by (cases line) (auto simp: parseSLine_def)

lemma enter_ok:
  assumes "parser_ok p" "line \<noteq> []" "hd line = 0x5B"
  shows "case enter_section line p of Inl e \<Rightarrow> e \<noteq> NullLevel | Inr p' \<Rightarrow> parser_ok p'"
proof -
  obtain sname depth where sd: "parseSLine line = (sname, depth)" by fastforce
  with depth_pos [OF assms(2,3)] have pos: "0 < depth" by simp
  obtain l where l: "map_of (pa_levels p) (pa_current p) = Some l" and ok: "levels_ok (pa_levels p)"
    using assms(1) by (auto simp: parser_ok_def)
  then have len: "lv_depth l = length (pa_current p)" by (auto simp: levels_ok_def)
  show ?thesis
  proof (cases "depth > lv_depth l + 1")
    case True
    with sd l show ?thesis by (simp add: enter_section_def)
  next
    case False
    let ?n = "if lv_depth l = depth - 1 then 0 else lv_depth l - depth + 1"
    let ?q = "take (length (pa_current p) - ?n) (pa_current p)"
    have "?n \<le> length (pa_current p)" using False pos len by auto
    from ascend_ok [OF ok _ this] l have q: "ascend ?n (pa_levels p) (pa_current p) = Some ?q" "map_of (pa_levels p) ?q \<noteq> None" by auto
    have qlen: "length ?q + 1 = depth" using False pos len by (auto simp: min_def)
    show ?thesis
    proof (cases "map_of (pa_levels p) (?q @ [sname])")
      case None
      let ?lp = "Level_new\<lparr>lv_depth := depth, lv_parent := Some ?q\<rparr>"
      let ?ls = "AList.update (?q @ [sname]) ?lp (pa_levels p)"
      have ls: "levels_ok ?ls" using levels_ok_new [OF ok q(2) None] qlen by simp
      obtain up where up: "map_of ?ls ?q = Some up" using q(2) by (auto simp: update_conv')
      have "levels_ok (AList.update ?q (up\<lparr>lv_ordered := lv_ordered up @ [sname]\<rparr>) ?ls)"
        by (rule levels_ok_put [OF ls up]) simp_all
      with sd l False q(1) None up show ?thesis
        by (simp add: enter_section_def Let_def Level_new_def parser_ok_def update_conv' del: take_append)
    next
      case (Some lp)
      with ok have "lv_depth lp \<noteq> 0" by (auto simp: levels_ok_def)
      with sd l False q(1) Some show ?thesis by (simp add: enter_section_def Let_def)
    qed
  qed
qed

lemma add_value_ok:
  assumes "parser_ok p" shows "case add_value line p of Inl e \<Rightarrow> e \<noteq> NullLevel | Inr p' \<Rightarrow> parser_ok p'"
proof -
  obtain l where l: "map_of (pa_levels p) (pa_current p) = Some l" using assms by (auto simp: parser_ok_def)
  with assms levels_ok_put [OF _ l] show ?thesis
    by (simp add: add_value_def Let_def parser_ok_def update_conv')
qed

lemma parse_ok: "parser_ok p \<Longrightarrow> (case parse lines p of Inl e \<Rightarrow> e \<noteq> NullLevel | Inr p' \<Rightarrow> parser_ok p')"
proof (induction lines arbitrary: p)
  case (Cons line lines)
  have "parser_ok (p\<lparr>pa_ln := pa_ln p + 1\<rparr>)" using Cons.prems by (simp add: parser_ok_def)
  then have "case parse_line line p of Inl e \<Rightarrow> e \<noteq> NullLevel | Inr p' \<Rightarrow> parser_ok p'"
    using enter_ok add_value_ok by (simp add: parse_line_def Let_def)
  then show ?case using Cons.IH by (cases "parse_line line p") simp_all
qed simp

lemma new_ok: "parser_ok Parser_new"
  by (simp add: parser_ok_def Parser_new_def levels_ok_def Level_new_def)

text \<open>
  C25. Whatever is in a configuration file, the parser follows no null pointer: it ends with one of its own
  three errors, or with a tree of levels in which every section is one deeper than its parent.
\<close>

theorem parser_never_null:
  "case parse (getlines bs) Parser_new of
     Inl e \<Rightarrow> e \<noteq> NullLevel
   | Inr p \<Rightarrow> (\<forall>q l. map_of (pa_levels p) q = Some l \<longrightarrow> lv_depth l = length q \<and>
       (q \<noteq> [] \<longrightarrow> lv_parent l = Some (butlast q) \<and> map_of (pa_levels p) (butlast q) \<noteq> None))"
  using parse_ok [OF new_ok, of "getlines bs"]
  by (auto simp: parser_ok_def levels_ok_def split: sum.splits)

lemma example_parse:
  "case parse (getlines (lit ''[a]'' @ [10] @ lit ''b=c'')) Parser_new of Inl e \<Rightarrow> False | Inr p \<Rightarrow> map_of (pa_levels p) [lit ''a''] \<noteq> None"
  by code_simp

theorem parser_never_null_witness:
  "\<exists>p l. parse (getlines (lit ''[a]'' @ [10] @ lit ''b=c'')) Parser_new = Inr p \<and> map_of (pa_levels p) [lit ''a''] = Some l \<and>
    lv_depth l = 1 \<and> lv_parent l = Some []"
proof -
  from example_parse obtain p l where
    p: "parse (getlines (lit ''[a]'' @ [10] @ lit ''b=c'')) Parser_new = Inr p" "map_of (pa_levels p) [lit ''a''] = Some l"
    by (auto simp del: lit_Cons split: sum.splits)
  with parser_never_null [of "lit ''[a]'' @ [10] @ lit ''b=c''"] have "lv_depth l = 1 \<and> lv_parent l = Some []"
    by (simp del: lit_Cons)
  with p show ?thesis by blast
qed

section \<open>Reading back what was written\<close>

text \<open>
  A configuration as a list of sections and its text, one setting in a line: this is what
  \<open>Parser::dump\<close> prints of a file with one level of sections, but for the empty lines. Names and
  settings must be free of line feeds and blanks at their ends, a name must not start with a bracket,
  and a key must not look like a comment or a section or contain the separator.
\<close>

type_synonym settings = "(byte list \<times> section_t) list"

definition setting_line :: "byte list \<times> byte list \<Rightarrow> byte list" where
  "setting_line kv = fst kv @ [0x3D] @ snd kv"

definition section_lines :: "byte list \<times> section_t \<Rightarrow> byte list list" where
  "section_lines s = ([0x5B] @ fst s @ [0x5D]) # map setting_line (snd s)"

definition config_text :: "settings \<Rightarrow> byte list" where
  "config_text ss = concat (map (\<lambda>l. l @ [10]) (concat (map section_lines ss)))"

definition setting_ok :: "byte list \<times> byte list \<Rightarrow> bool" where
  "setting_ok kv \<longleftrightarrow> trim (fst kv) = fst kv \<and> trim (snd kv) = snd kv \<and> 10 \<notin> set (fst kv @ snd kv) \<and>
     0x3D \<notin> set (fst kv) \<and> (fst kv = [] \<or> hd (fst kv) \<notin> {0x23, 0x3B, 0x5B})"

definition section_ok :: "byte list \<times> section_t \<Rightarrow> bool" where
  "section_ok s \<longleftrightarrow> 10 \<notin> set (fst s) \<and> (fst s = [] \<or> hd (fst s) \<noteq> 0x5B) \<and> list_all setting_ok (snd s)"

lemma upto_char:
  "c \<notin> set l \<Longrightarrow> takeWhile (\<lambda>x. x \<noteq> c) (l @ c # r) = l" "c \<notin> set l \<Longrightarrow> dropWhile (\<lambda>x. x \<noteq> c) (l @ c # r) = c # r"
  by (induction l) auto

lemma getlines_lines:
  "list_all (\<lambda>l. 10 \<notin> set l) ls \<Longrightarrow> getlines (concat (map (\<lambda>l. l @ [10]) ls)) = ls"
proof (induction ls)
  case (Cons l ls)
  let ?rest = "concat (map (\<lambda>l. l @ [10]) ls)"
  have "takeWhile (\<lambda>x. x \<noteq> 10) (l @ 10 # ?rest) = l" "dropWhile (\<lambda>x. x \<noteq> 10) (l @ 10 # ?rest) = 10 # ?rest"
    using Cons.prems by (simp_all add: upto_char)
  moreover obtain c cs where "l @ 10 # ?rest = c # cs" by (cases "l @ 10 # ?rest") auto
  ultimately have "getlines (l @ 10 # ?rest) = l # getlines ?rest" by (metis getlines.simps(2) list.sel(3))
  with Cons show ?case by simp
qed simp

lemma trim_ends: "s \<noteq> [] \<Longrightarrow> \<not> blank (hd s) \<Longrightarrow> \<not> blank (last s) \<Longrightarrow> trim s = s"
proof -
  assume "s \<noteq> []" "\<not> blank (hd s)" "\<not> blank (last s)"
  then have "dropWhile blank s = s" "dropWhile blank (rev s) = rev s"
    by (cases s, auto) (cases s rule: rev_cases, auto)
  then show "trim s = s" by (simp add: trim_eq)
qed

lemma no_blank_ends:
  assumes "trim s = s" "s \<noteq> []" shows "\<not> blank (hd s) \<and> \<not> blank (last s)"
proof -
  let ?m = "dropWhile blank s"
  have s: "rev (dropWhile blank (rev ?m)) = s" using assms(1) by (simp add: trim_eq)
  then have "length s \<le> length ?m" by (metis length_dropWhile_le length_rev)
  then have m: "?m = s" by (metis length_takeWhile_le append_Nil length_0_conv length_append takeWhile_dropWhile_id add_le_same_cancel2 le_zero_eq)
  then have "\<not> blank (hd s)" using assms(2) hd_dropWhile [of blank s] by simp
  moreover have "dropWhile blank (rev s) = rev s" using s m by (metis rev_rev_ident)
  then have "\<not> blank (last s)" using assms(2) hd_dropWhile [of blank "rev s"] by (simp add: hd_rev)
  ultimately show ?thesis by simp
qed

text \<open>The state of the parser after some sections: those are known, at depth one, and the last is current.\<close>

definition read_so_far :: "settings \<Rightarrow> Parser \<Rightarrow> bool" where
  "read_so_far ss p \<longleftrightarrow>
     (\<exists>top. map_of (pa_levels p) [] = Some top \<and> lv_depth top = 0 \<and> lv_parent top = None) \<and>
     (\<forall>n. map_of (pa_levels p) [n] = map_option (\<lambda>kvs. \<lparr>lv_values = kvs, lv_ordered = [], lv_parent = Some [], lv_depth = 1\<rparr>) (map_of ss n)) \<and>
     pa_current p = (if ss = [] then [] else [fst (hd ss)])"

lemma section_line:
  assumes "read_so_far ss p" "map_of ss n = None" "n = [] \<or> hd n \<noteq> 0x5B"
  obtains p' where "parse_line ([0x5B] @ n @ [0x5D]) p = Inr p'" "read_so_far ((n, []) # ss) p'"
proof -
  let ?line = "[0x5B] @ n @ [0x5D]"
  have t: "trim ?line = ?line" by (rule trim_ends) (simp_all add: blank_def)
  have "takeWhile (\<lambda>c. c = 0x5B) ?line = [0x5B]" using assms(3) by (cases n) auto
  then have s: "parseSLine ?line = (n, 1)" by (simp add: parseSLine_def substr_def)
  obtain top where top: "map_of (pa_levels p) [] = Some top" "lv_depth top = 0" "lv_parent top = None"
    using assms(1) by (auto simp: read_so_far_def)
  let ?lp = "\<lparr>lv_values = [], lv_ordered = [], lv_parent = Some [], lv_depth = 1\<rparr>"
  let ?p = "p\<lparr>pa_ln := pa_ln p + 1, pa_levels := AList.update [] (top\<lparr>lv_ordered := lv_ordered top @ [n]\<rparr>) (AList.update [n] ?lp (pa_levels p)),
    pa_current := [n]\<rparr>"
  have "map_of (pa_levels p) [n] = None" using assms(1,2) by (auto simp: read_so_far_def)
  then have "parse_line ?line p = Inr ?p"
  proof (cases ss)
    case Nil
    with \<open>map_of (pa_levels p) [n] = None\<close> assms(1) t s top show ?thesis
      by (simp add: read_so_far_def parse_line_def enter_section_def Let_def Level_new_def update_conv')
  next
    case (Cons x xs)
    then have "map_of (pa_levels p) (pa_current p) = Some \<lparr>lv_values = snd x, lv_ordered = [], lv_parent = Some [], lv_depth = 1\<rparr>"
      using assms(1) by (cases x) (simp add: read_so_far_def)
    with \<open>map_of (pa_levels p) [n] = None\<close> t s top show ?thesis
      by (simp add: parse_line_def enter_section_def Let_def Level_new_def update_conv')
  qed
  moreover have "read_so_far ((n, []) # ss) ?p"
    using assms(1) top by (simp add: read_so_far_def update_conv')
  ultimately show thesis using that by blast
qed


lemma setting_line_parts:
  assumes "setting_ok kv"
  shows "trim (setting_line kv) = setting_line kv" "setting_line kv \<noteq> []" "hd (setting_line kv) \<notin> {0x23, 0x3B, 0x5B}"
    "takeWhile (\<lambda>c. c \<noteq> 0x3D) (setting_line kv) = fst kv" "trim (fst kv) = fst kv" "trim (snd kv) = snd kv"
proof -
  obtain k v where kv: "kv = (k, v)" by fastforce
  let ?line = "k @ [0x3D] @ v"
  have k: "trim k = k" "trim v = v" "0x3D \<notin> set k" "k = [] \<or> hd k \<notin> {0x23, 0x3B, 0x5B}"
    using assms by (auto simp: setting_ok_def kv)
  have "\<not> blank (hd ?line)" using k(1) no_blank_ends [of k] by (cases k) (auto simp: blank_def)
  moreover have "\<not> blank (last ?line)" using k(2) no_blank_ends [of v] by (cases v) (auto simp: blank_def)
  ultimately have "trim ?line = ?line" by (intro trim_ends) auto
  moreover have "hd ?line \<notin> {0x23, 0x3B, 0x5B}" using k(4) by (cases k) auto
  moreover have "takeWhile (\<lambda>c. c \<noteq> 0x3D) ?line = k" using upto_char(1) [OF k(3), of v] by simp
  ultimately show "trim (setting_line kv) = setting_line kv" "setting_line kv \<noteq> []" "hd (setting_line kv) \<notin> {0x23, 0x3B, 0x5B}"
    "takeWhile (\<lambda>c. c \<noteq> 0x3D) (setting_line kv) = fst kv" "trim (fst kv) = fst kv" "trim (snd kv) = snd kv"
    using k(1,2) by (simp_all add: setting_line_def kv)
qed

lemma setting_parsed:
  assumes "read_so_far ((n, kvs) # ss) p" "setting_ok kv"
  obtains p' where "parse_line (setting_line kv) p = Inr p'" "read_so_far ((n, kvs @ [kv]) # ss) p'"
proof -
  obtain k v where kv: "kv = (k, v)" by fastforce
  note s = setting_line_parts [OF assms(2)]
  let ?l = "\<lparr>lv_values = kvs, lv_ordered = [], lv_parent = Some [], lv_depth = 1\<rparr>"
  let ?p = "p\<lparr>pa_ln := pa_ln p + 1, pa_levels := AList.update [n] (?l\<lparr>lv_values := kvs @ [(k, v)]\<rparr>) (pa_levels p)\<rparr>"
  have c: "pa_current p = [n]" "map_of (pa_levels p) [n] = Some ?l" using assms(1) by (auto simp: read_so_far_def)
  then have "add_value (setting_line kv) (p\<lparr>pa_ln := pa_ln p + 1\<rparr>) = Inr ?p"
    using s by (simp add: add_value_def Let_def setting_line_def substr_def kv)
  with s have "parse_line (setting_line kv) p = Inr ?p" by (simp add: parse_line_def Let_def)
  moreover have "read_so_far ((n, kvs @ [kv]) # ss) ?p"
    using assms(1) by (auto simp: read_so_far_def update_conv' kv)
  ultimately show thesis using that by blast
qed

lemma settings_parsed:
  assumes "read_so_far ((n, kvs) # ss) p" "list_all setting_ok kvs'"
  shows "\<exists>p'. parse (map setting_line kvs' @ rest) p = parse rest p' \<and> read_so_far ((n, kvs @ kvs') # ss) p'"
  using assms
proof (induction kvs' arbitrary: kvs p)
  case (Cons kv kvs')
  have "setting_ok kv" using Cons.prems(2) by simp
  from setting_parsed [OF Cons.prems(1) this] obtain p' where
    "parse_line (setting_line kv) p = Inr p'" "read_so_far ((n, kvs @ [kv]) # ss) p'" .
  with Cons.IH [OF this(2)] Cons.prems(2) show ?case by simp
qed auto

lemma sections_parsed:
  assumes "read_so_far ss p" "list_all section_ok ss'" "distinct (map fst ss')" "fst ` set ss' \<inter> fst ` set ss = {}"
  shows "\<exists>p'. parse (concat (map section_lines ss')) p = Inr p' \<and> read_so_far (rev ss' @ ss) p'"
  using assms
proof (induction ss' arbitrary: ss p)
  case (Cons s ss')
  obtain n kvs where s: "s = (n, kvs)" by fastforce
  have "map_of ss n = None" using Cons.prems(4) s by (auto simp: map_of_eq_None_iff)
  from section_line [OF Cons.prems(1) this] Cons.prems(2) s obtain p1 where
    p1: "parse_line ([0x5B] @ n @ [0x5D]) p = Inr p1" "read_so_far ((n, []) # ss) p1" by (auto simp: section_ok_def)
  from settings_parsed [OF p1(2), of kvs "concat (map section_lines ss')"] Cons.prems(2) s obtain p2 where
    "parse (map setting_line kvs @ concat (map section_lines ss')) p1 = parse (concat (map section_lines ss')) p2"
    "read_so_far ((n, kvs) # ss) p2" by (auto simp: section_ok_def)
  moreover have "section_lines s = ([0x5B] @ n @ [0x5D]) # map setting_line kvs" by (simp add: section_lines_def s)
  ultimately show ?case using Cons.IH [of "(n, kvs) # ss" p2] Cons.prems p1(1) s by auto
qed auto

text \<open>
  C24. A configuration that was written out is read back: the text of any list of sections with different
  names parses, and every section the program takes from the file has exactly the settings written,
  in their order; a section that is not in the file is empty.
\<close>

definition settings_of :: "string \<Rightarrow> settings \<Rightarrow> section_t" where
  "settings_of name ss = (case map_of ss (lit name) of None \<Rightarrow> [] | Some kvs \<Rightarrow> kvs)"

theorem config_roundtrip:
  assumes "list_all section_ok ss" "distinct (map fst ss)"
  shows "Config_Load (Some (config_text ss)) conf =
    Inr (True, \<lparr>cf_router = settings_of ''router'' ss, cf_network = settings_of ''network'' ss, cf_netdb = settings_of ''netdb'' ss,
      cf_iwp_links = settings_of ''bind'' ss, cf_connect = settings_of ''connect'' ss\<rparr>)"
proof -
  have "list_all (\<lambda>l. 10 \<notin> set l) (concat (map section_lines ss))"
    using assms(1) by (auto simp: list_all_iff section_lines_def section_ok_def setting_line_def setting_ok_def)
  then have "getlines (config_text ss) = concat (map section_lines ss)" by (simp add: config_text_def getlines_lines)
  moreover have "read_so_far [] Parser_new" by (simp add: read_so_far_def Parser_new_def Level_new_def)
  from sections_parsed [OF this assms] obtain p where
    p: "parse (concat (map section_lines ss)) Parser_new = Inr p" "read_so_far (rev ss) p" by auto
  moreover have "map_of (rev ss) = map_of ss" using assms(2) by (simp add: map_of_inject_set rev_map [symmetric])
  then have "find_section p (lit name) = settings_of name ss" for name
    using p(2) by (auto simp: find_section_def settings_of_def read_so_far_def split: option.split)
  ultimately show ?thesis by (simp add: Config_Load_def del: lit_Cons)
qed


definition example_settings :: settings where
  "example_settings = [(lit ''router'', [(lit ''worker-threads'', lit ''4''), (lit ''contact-file'', lit ''self.signed'')]),
     (lit ''bind'', [(lit ''eth0'', lit ''1090'')])]"

theorem config_roundtrip_witness:
  "Config_Load (Some (config_text example_settings)) Config_new =
    Inr (True, Config_new\<lparr>cf_router := [(lit ''worker-threads'', lit ''4''), (lit ''contact-file'', lit ''self.signed'')],
      cf_iwp_links := [(lit ''eth0'', lit ''1090'')]\<rparr>)"
proof -
  have "list_all section_ok example_settings" "distinct (map fst example_settings)" by code_simp+
  from config_roundtrip [OF this, of Config_new] show ?thesis
    by (simp add: settings_of_def example_settings_def Config_new_def)
qed

end
