(* ===== verification/Net.thy ===== *)
theory Net
  imports Address_Info
begin

text \<open>
  Network addresses (\<open>udap/net.hpp\<close>, \<open>udap/net.cpp\<close>) and the configuration of a link's socket
  (\<open>link_configure\<close> and \<open>link_get_addr\<close> of \<open>udap/iwp_link.cpp\<close>). A \<open>sockaddr\<close> is the bytes of
  its object, laid out as on Linux: the family in the byte order of the machine (little endian), the port
  in network order, then for IPv4 the address, for IPv6 the flow label, the address and the scope.
  \<open>getifaddrs\<close>, \<open>if_nametoindex\<close>, \<open>inet_ntop\<close> and the binding of a socket are parameters.
\<close>

unbundle bit_operations_syntax

section \<open>Strings and families\<close>

definition StrEq :: "byte list \<Rightarrow> byte list \<Rightarrow> bool" where
  "StrEq s1 s2 \<longleftrightarrow> length s1 = length s2 \<and> memcmp s1 s2 = 0"

lemma StrEq_iff [simp]: "StrEq s1 s2 \<longleftrightarrow> s1 = s2"
  using memcmp_eq_0_iff by (auto simp: StrEq_def)

text \<open>The values of the address families are those of Linux.\<close>

definition AF_INET :: int where "AF_INET = 2"
definition AF_INET6 :: int where "AF_INET6 = 10"
definition AF_PACKET :: int where "AF_PACKET = 17"

lemmas AF_defs = AF_INET_def AF_INET6_def AF_PACKET_def

section \<open>Members of an object\<close>

definition bytes_at :: "nat \<Rightarrow> nat \<Rightarrow> byte list \<Rightarrow> byte list" where
  "bytes_at off n m = take n (drop off m)"

definition put_bytes :: "nat \<Rightarrow> byte list \<Rightarrow> byte list \<Rightarrow> byte list" where
  "put_bytes off bs m = take off m @ bs @ drop (off + length bs) m"

lemma length_put_bytes [simp]: "off + length bs \<le> length m \<Longrightarrow> length (put_bytes off bs m) = length m"
  by (simp add: put_bytes_def)

lemma length_bytes_at [simp]: "off + n \<le> length m \<Longrightarrow> length (bytes_at off n m) = n"
  by (simp add: bytes_at_def)

lemma at_put_same: "off + length bs \<le> length m \<Longrightarrow> n = length bs \<Longrightarrow> bytes_at off n (put_bytes off bs m) = bs"
  by (simp add: bytes_at_def put_bytes_def)

lemma at_put_other:
  assumes "off' + length bs \<le> length m" "off + n \<le> off' \<or> off' + length bs \<le> off"
  shows "bytes_at off n (put_bytes off' bs m) = bytes_at off n m"
  using assms(2)
proof
  assume "off + n \<le> off'"
  with assms(1) show ?thesis by (simp add: bytes_at_def put_bytes_def drop_take min_absorb1)
next
  assume "off' + length bs \<le> off"
  then obtain k where "off = off' + length bs + k" using le_Suc_ex by blast
  with assms(1) show ?thesis by (simp add: bytes_at_def put_bytes_def add.commute add.left_commute)
qed

lemma at_put_within:
  assumes "off' + length bs \<le> length m" "off' \<le> off" "off + n \<le> off' + length bs"
  shows "bytes_at off n (put_bytes off' bs m) = bytes_at (off - off') n bs"
  using assms by (simp add: bytes_at_def put_bytes_def)

lemma at_zero [simp]: "off + n \<le> k \<Longrightarrow> bytes_at off n (replicate k x) = replicate n x"
  by (simp add: bytes_at_def)

lemma at_all [simp]: "n = length m \<Longrightarrow> bytes_at 0 n m = m"
  by (simp add: bytes_at_def)

lemma load_at: "off + n \<le> length m \<Longrightarrow> mem_load m off n = Some (bytes_at off n m)"
  by (simp add: mem_load_def bytes_at_def)

text \<open>\<open>sa_family_t\<close> in the order of the machine, ports in network order\<close>

definition machine16 :: "u16 \<Rightarrow> byte list" where
  "machine16 w = [ucast w, ucast (drop_bit 8 w)]"

definition htons :: "u16 \<Rightarrow> byte list" where
  "htons w = [ucast (drop_bit 8 w), ucast w]"

definition ntohs :: "byte list \<Rightarrow> u16" where
  "ntohs bs = push_bit 8 (ucast (bs ! 0)) OR ucast (bs ! 1)"

definition family_of :: "byte list \<Rightarrow> int" where
  "family_of bs = uint (push_bit 8 (ucast (bs ! 1)) OR ucast (bs ! 0) :: u16)"

lemma length_machine16 [simp]: "length (machine16 w) = 2" "length (htons w) = 2"
  by (simp_all add: machine16_def htons_def)

lemma swap16: "push_bit 8 (ucast (ucast (drop_bit 8 w) :: byte)) OR ucast (ucast w :: byte) = (w :: u16)"
  by (rule bit_word_eqI) (auto simp: bit_simps)

lemma ntohs_htons [simp]: "ntohs (htons w) = w"
  by (simp add: ntohs_def htons_def swap16)

lemma family_machine16 [simp]: "family_of (machine16 w) = uint w"
  by (simp add: family_of_def machine16_def swap16)

lemma htons_ntohs: "length bs = 2 \<Longrightarrow> htons (ntohs bs) = bs"
proof -
  assume "length bs = 2"
  then obtain a b where bs: "bs = [a, b]" by (auto simp: numeral_2_eq_2 length_Suc_conv)
  have "(ucast (drop_bit 8 (push_bit 8 (ucast a) OR ucast b :: u16)) :: byte) = a"
    "(ucast (push_bit 8 (ucast a) OR ucast b :: u16) :: byte) = b"
    by (rule bit_word_eqI; auto simp: bit_simps dest: bit_imp_le_length)+
  then show ?thesis by (simp add: bs htons_def ntohs_def)
qed

section \<open>Addresses\<close>

text \<open>\<open>_addr\<close> is a \<open>sockaddr_in6\<close> of 28 bytes, \<open>_addr4\<close> a \<open>sockaddr_in\<close> of 16.\<close>

record Addr =
  ad_addr :: "byte list"
  ad_addr4 :: "byte list"

definition addr6 :: "Addr \<Rightarrow> byte list" where
  "addr6 a = bytes_at 8 16 (ad_addr a)"

definition addr4 :: "Addr \<Rightarrow> byte list" where
  "addr4 a = bytes_at 20 4 (ad_addr a)"

definition Addr_af :: "Addr \<Rightarrow> int" where
  "Addr_af a = family_of (bytes_at 0 2 (ad_addr a))"

definition Addr_port :: "Addr \<Rightarrow> u16" where
  "Addr_port a = ntohs (bytes_at 2 2 (ad_addr a))"

definition siit :: "byte list \<Rightarrow> bool" where
  "siit ip \<longleftrightarrow> take 12 ip = replicate 10 0 @ [0xFF, 0xFF]"

text \<open>\<open>Addr(const udap_ai&)\<close>; the members are not initialised before.\<close>

definition Addr_of_ai :: "byte list \<Rightarrow> byte list \<Rightarrow> udap_ai \<Rightarrow> Addr" where
  "Addr_of_ai u6 u4 ai =
     (let a6 = put_bytes 2 (htons (ai_port ai)) (put_bytes 8 (ai_ip ai) u6)
      in if siit (bytes_at 8 16 a6)
         then \<lparr>ad_addr = put_bytes 0 (machine16 (of_int AF_INET)) a6,
               ad_addr4 = put_bytes 4 (bytes_at 20 4 a6) (put_bytes 2 (htons (ai_port ai)) (put_bytes 0 (machine16 (of_int AF_INET)) u4))\<rparr>
         else \<lparr>ad_addr = put_bytes 0 (machine16 (of_int AF_INET6)) a6, ad_addr4 = u4\<rparr>)"

text \<open>\<open>Addr(const sockaddr&)\<close>; \<open>_addr\<close> is cleared first, \<open>_addr4\<close> is not.\<close>

definition Addr_of_sockaddr :: "byte list \<Rightarrow> byte list \<Rightarrow> Addr option" where
  "Addr_of_sockaddr u4 other = do {
     fam \<leftarrow> mem_load other 0 2;
     let a6 = put_bytes 0 fam (replicate 28 0);
     if family_of fam = AF_INET then do {
       ip \<leftarrow> mem_load other 4 4;
       p \<leftarrow> mem_load other 2 2;
       let a6 = put_bytes 2 p (put_bytes 18 [0xFF, 0xFF] (put_bytes 20 ip a6));
       Some \<lparr>ad_addr = a6, ad_addr4 = put_bytes 4 (bytes_at 20 4 a6) (put_bytes 2 p (put_bytes 0 (machine16 (of_int AF_INET)) u4))\<rparr>
     }
     else if family_of fam = AF_INET6 then do {
       ip \<leftarrow> mem_load other 8 16;
       p \<leftarrow> mem_load other 2 2;
       Some \<lparr>ad_addr = put_bytes 2 p (put_bytes 8 ip a6), ad_addr4 = u4\<rparr>
     }
     else Some \<lparr>ad_addr = a6, ad_addr4 = u4\<rparr>
   }"

text \<open>\<open>operator const sockaddr*\<close>: the object that the pointer points to\<close>

definition to_sockaddr :: "Addr \<Rightarrow> byte list" where
  "to_sockaddr a = (if Addr_af a = AF_INET then ad_addr4 a else ad_addr a)"

definition CopyInto :: "Addr \<Rightarrow> byte list \<Rightarrow> byte list option" where
  "CopyInto a other =
     (if Addr_af a = AF_INET then do {
        other \<leftarrow> mem_store other 4 (addr4 a);
        other \<leftarrow> mem_store other 2 (htons (Addr_port a));
        mem_store other 0 (machine16 (of_int (Addr_af a)))
      }
      else if Addr_af a = AF_INET6 then do {
        other \<leftarrow> mem_store other 8 (addr6 a);
        other \<leftarrow> mem_store other 2 (htons (Addr_port a));
        mem_store other 0 (machine16 (of_int (Addr_af a)))
      }
      else Some other)"

definition Addr_less :: "Addr \<Rightarrow> Addr \<Rightarrow> bool" where
  "Addr_less a b \<longleftrightarrow> Addr_port a < Addr_port b \<or> memcmp (addr6 a) (addr6 b) < 0 \<or> Addr_af a < Addr_af b"

definition Addr_eq :: "Addr \<Rightarrow> Addr \<Rightarrow> bool" where
  "Addr_eq a b \<longleftrightarrow> Addr_af a = Addr_af b \<and> memcmp (addr6 a) (addr6 b) = 0 \<and> Addr_port a = Addr_port b"

text \<open>\<open>s_addr\<close> is read in the order of the machine; the sums are of \<open>int\<close> and \<open>uint32_t\<close>.\<close>

definition s_addr :: "byte list \<Rightarrow> u32" where
  "s_addr bs = ucast (bs ! 0) OR push_bit 8 (ucast (bs ! 1)) OR push_bit 16 (ucast (bs ! 2)) OR push_bit 24 (ucast (bs ! 3))"

definition addrhash :: "Addr \<Rightarrow> u64" where
  "addrhash a =
     (if Addr_af a = AF_INET then ucast (ucast (Addr_port a) + s_addr (addr4 a))
      else of_int (Addr_af a + memcmp (addr6 a) (replicate 16 0)) XOR ucast (Addr_port a))"

text \<open>\<open>operator==(const sockaddr&, const sockaddr&)\<close>: \<open>sa_data\<close> begins behind the family.\<close>

definition sockaddr_eq :: "byte list \<Rightarrow> byte list \<Rightarrow> bool option" where
  "sockaddr_eq a b = do {
     fa \<leftarrow> mem_load a 0 2;
     fb \<leftarrow> mem_load b 0 2;
     let sz = (if family_of fa = AF_INET then 16 else if family_of fa = AF_INET6 then 28 else 14);
     if family_of fa \<noteq> family_of fb then Some False
     else do {
       da \<leftarrow> mem_load a 2 sz;
       db \<leftarrow> mem_load b 2 sz;
       Some (memcmp da db = 0)
     }
   }"

text \<open>\<open>operator<<\<close>; \<open>ntop f ip\<close> is the text of an address, which \<open>inet_ntop\<close> gives only when it fits the size.\<close>

definition Addr_print :: "(int \<Rightarrow> byte list \<Rightarrow> byte list) \<Rightarrow> Addr \<Rightarrow> byte list" where
  "Addr_print ntop a =
     (let sz = (if Addr_af a = AF_INET6 then 28 else 16 :: nat);
          ptr = (if Addr_af a = AF_INET6 then addr6 a else addr4 a);
          text = ntop (Addr_af a) ptr
      in (if Addr_af a = AF_INET6 then lit ''['' else []) @
         (if length text < sz then text @ (if Addr_af a = AF_INET6 then lit '']'' else []) else []) @
         lit '':'' @ dec_nat (unat (Addr_port a)))"

section \<open>The socket of a link\<close>

text \<open>An interface is its name and its address, if it has one.\<close>

type_synonym ifaddrs = "(byte list \<times> byte list option) list"

definition wanted :: "byte list \<Rightarrow> int \<Rightarrow> byte list \<times> byte list option \<Rightarrow> bool" where
  "wanted ifname af i \<longleftrightarrow> (case snd i of None \<Rightarrow> False | Some a \<Rightarrow> StrEq (fst i) ifname \<and> family_of (bytes_at 0 2 a) = af)"

definition udap_getifaddr ::
  "ifaddrs option \<Rightarrow> (byte list \<Rightarrow> byte list) \<Rightarrow> byte list \<Rightarrow> int \<Rightarrow> byte list \<Rightarrow> (bool \<times> byte list) option" where
  "udap_getifaddr ifs nametoindex ifname af addr =
     (case ifs of
        None \<Rightarrow> Some (False, addr)
      | Some ifs \<Rightarrow>
          (case List.find (wanted ifname af) ifs of
             None \<Rightarrow> Some (False, addr)
           | Some i \<Rightarrow> do {
               a \<leftarrow> snd i;
               bs \<leftarrow> mem_load a 0 (if af = AF_INET then 16 else 28);
               addr \<leftarrow> mem_store addr 0 bs;
               addr \<leftarrow> (if af = AF_INET6 then do {
                         addr \<leftarrow> mem_store addr 24 (nametoindex ifname);
                         mem_store addr 4 [0, 0, 0, 0]
                       }
                       else Some addr);
               Some (True, addr)
             }))"

text \<open>
  \<open>have_key\<close>: whether the transport key is there (\<open>ensure_privkey\<close>); \<open>listen\<close>: whether a socket can be bound to
  an address. The result has the name that the link goes by and its address, when it was set.
\<close>

definition link_name :: "byte list" where "link_name = lit ''IWP''"
definition outboundLink_name :: "byte list" where "outboundLink_name = lit ''OWP''"

definition link_configure ::
  "bool \<Rightarrow> ifaddrs option \<Rightarrow> (byte list \<Rightarrow> byte list) \<Rightarrow> (byte list \<Rightarrow> bool) \<Rightarrow> byte list \<Rightarrow> byte list \<Rightarrow> byte list \<Rightarrow> int \<Rightarrow> u16 \<Rightarrow>
    (bool \<times> byte list \<times> Addr option) option" where
  "link_configure have_key ifs nametoindex listen u4 name ifname af p =
     (if \<not> have_key \<or> af \<noteq> AF_INET \<and> af \<noteq> AF_INET6 then Some (False, name, None)
      else do {
        let addr = put_bytes 0 (machine16 (of_int af)) (replicate (if af = AF_INET then 16 else 28) 0);
        (found, addr) \<leftarrow> (if \<not> StrEq ifname (lit ''*'') then udap_getifaddr ifs nametoindex ifname af addr else Some (True, addr));
        if \<not> found then Some (False, name, None)
        else do {
          let name = (if \<not> StrEq ifname (lit ''*'') then name else outboundLink_name);
          addr \<leftarrow> mem_store addr 2 (htons p);
          a \<leftarrow> Addr_of_sockaddr u4 addr;
          Some (listen (to_sockaddr a), name, Some a)
        }
      })"

definition link_get_addr :: "byte list \<Rightarrow> Addr \<Rightarrow> udap_ai" where
  "link_get_addr pubkey a = \<lparr>ai_rank = 1, ai_dialect = link_name @ [0, 0, 0], ai_enc_key = take 32 pubkey, ai_ip = addr6 a, ai_port = Addr_port a\<rparr>"

section \<open>Lemmas\<close>

lemmas at_simps = at_put_same at_put_other at_put_within

lemma machine16_family: "length bs = 2 \<Longrightarrow> machine16 (of_int (family_of bs)) = bs"
proof -
  assume "length bs = 2"
  then obtain a b where bs: "bs = [a, b]" by (auto simp: numeral_2_eq_2 length_Suc_conv)
  have "(ucast (drop_bit 8 (push_bit 8 (ucast b) OR ucast a :: u16)) :: byte) = b"
    "(ucast (push_bit 8 (ucast b) OR ucast a :: u16) :: byte) = a"
    by (rule bit_word_eqI; auto simp: bit_simps dest: bit_imp_le_length)+
  then show ?thesis by (simp add: bs machine16_def family_of_def)
qed

lemma family_of_AF [simp]:
  "uint (of_int AF_INET :: u16) = AF_INET" "uint (of_int AF_INET6 :: u16) = AF_INET6"
  "family_of (machine16 (of_int AF_INET)) = AF_INET" "family_of (machine16 (of_int AF_INET6)) = AF_INET6"
  "AF_INET \<noteq> AF_INET6" "AF_INET6 \<noteq> AF_INET"
  by (simp_all add: AF_defs)

lemma family_bytes:
  "length bs = 2 \<Longrightarrow> family_of bs = AF_INET \<Longrightarrow> bs = machine16 (of_int AF_INET)"
  "length bs = 2 \<Longrightarrow> family_of bs = AF_INET6 \<Longrightarrow> bs = machine16 (of_int AF_INET6)"
  using machine16_family [of bs] by simp_all

lemma at_at: "i + n \<le> m \<Longrightarrow> bytes_at i n (bytes_at j m bs) = bytes_at (j + i) n bs"
  by (simp add: bytes_at_def drop_take add.commute)

lemma at_add: "bytes_at i (n + m) bs = bytes_at i n bs @ bytes_at (i + n) m bs"
  by (simp add: bytes_at_def take_add drop_drop add.commute [of n i])

lemma at_parts:
  "bytes_at 0 4 m = bytes_at 0 2 m @ bytes_at 2 2 m" "bytes_at 0 8 m = bytes_at 0 2 m @ bytes_at 2 2 m @ bytes_at 4 4 m"
  "bytes_at 8 16 m = bytes_at 8 10 m @ bytes_at 18 2 m @ bytes_at 20 4 m"
  using at_add [of 0 2 2 m] at_add [of 0 2 6 m] at_add [of 2 2 4 m] at_add [of 8 10 6 m] at_add [of 18 2 4 m]
  by (simp_all flip: numeral_2_eq_2)

text \<open>Both constructors, for the two families\<close>

lemma from_sockaddr4:
  assumes "length u4 = 16" "length sa \<ge> 8" "family_of (bytes_at 0 2 sa) = AF_INET"
  obtains a where "Addr_of_sockaddr u4 sa = Some a" "Addr_af a = AF_INET" "addr6 a = replicate 10 0 @ [0xFF, 0xFF] @ bytes_at 4 4 sa"
    "addr4 a = bytes_at 4 4 sa" "bytes_at 2 2 (ad_addr a) = bytes_at 2 2 sa" "bytes_at 0 8 (to_sockaddr a) = bytes_at 0 8 sa" "length (to_sockaddr a) = 16"
proof -
  let ?a6 = "put_bytes 2 (bytes_at 2 2 sa) (put_bytes 18 [0xFF, 0xFF] (put_bytes 20 (bytes_at 4 4 sa) (put_bytes 0 (bytes_at 0 2 sa) (replicate 28 0))))"
  let ?a4 = "put_bytes 4 (bytes_at 20 4 ?a6) (put_bytes 2 (bytes_at 2 2 sa) (put_bytes 0 (machine16 (of_int AF_INET)) u4))"
  let ?a = "\<lparr>ad_addr = ?a6, ad_addr4 = ?a4\<rparr>"
  have c: "Addr_of_sockaddr u4 sa = Some ?a" using assms by (simp add: Addr_of_sockaddr_def load_at Let_def)
  have f: "Addr_af ?a = AF_INET" using assms by (simp add: Addr_af_def at_simps)
  have i4: "addr4 ?a = bytes_at 4 4 sa" using assms by (simp add: addr4_def at_simps)
  have pt: "bytes_at 2 2 (ad_addr ?a) = bytes_at 2 2 sa" using assms by (simp add: at_simps)
  have "bytes_at 8 10 ?a6 = replicate 10 0" "bytes_at 18 2 ?a6 = [0xFF, 0xFF]" "bytes_at 20 4 ?a6 = bytes_at 4 4 sa"
    using assms by (simp_all add: at_simps)
  then have i6: "addr6 ?a = replicate 10 0 @ [0xFF, 0xFF] @ bytes_at 4 4 sa"
    by (simp add: addr6_def at_parts)
  have fam: "bytes_at 0 2 sa = machine16 (of_int AF_INET)" using family_bytes(1) [of "bytes_at 0 2 sa"] assms by simp
  have "bytes_at 0 2 ?a4 = machine16 (of_int AF_INET)" "bytes_at 2 2 ?a4 = bytes_at 2 2 sa" "bytes_at 4 4 ?a4 = bytes_at 4 4 sa" "length ?a4 = 16"
    using assms by (simp_all add: at_simps)
  then have "bytes_at 0 8 ?a4 = bytes_at 0 8 sa" "length ?a4 = 16"
    using fam by (simp_all only: at_parts)
  then have "bytes_at 0 8 (to_sockaddr ?a) = bytes_at 0 8 sa" "length (to_sockaddr ?a) = 16" using f by (simp_all add: to_sockaddr_def)
  with that [OF c f i6 i4 pt] show thesis by simp
qed

lemma from_sockaddr6:
  assumes "length sa \<ge> 24" "family_of (bytes_at 0 2 sa) = AF_INET6"
  obtains a where "Addr_of_sockaddr u4 sa = Some a" "Addr_af a = AF_INET6" "addr6 a = bytes_at 8 16 sa" "bytes_at 2 2 (ad_addr a) = bytes_at 2 2 sa"
    "bytes_at 0 4 (to_sockaddr a) = bytes_at 0 4 sa" "bytes_at 4 4 (to_sockaddr a) = replicate 4 0" "bytes_at 24 4 (to_sockaddr a) = replicate 4 0"
    "bytes_at 8 16 (to_sockaddr a) = bytes_at 8 16 sa"
proof -
  let ?a6 = "put_bytes 2 (bytes_at 2 2 sa) (put_bytes 8 (bytes_at 8 16 sa) (put_bytes 0 (bytes_at 0 2 sa) (replicate 28 0)))"
  let ?a = "\<lparr>ad_addr = ?a6, ad_addr4 = u4\<rparr>"
  have c: "Addr_of_sockaddr u4 sa = Some ?a" using assms by (simp add: Addr_of_sockaddr_def load_at Let_def)
  have f: "Addr_af ?a = AF_INET6" using assms by (simp add: Addr_af_def at_simps)
  have x: "addr6 ?a = bytes_at 8 16 sa" "bytes_at 2 2 (ad_addr ?a) = bytes_at 2 2 sa" using assms by (simp_all add: addr6_def at_simps)
  have y: "bytes_at 0 2 ?a6 = bytes_at 0 2 sa" "bytes_at 2 2 ?a6 = bytes_at 2 2 sa" "bytes_at 4 4 ?a6 = replicate 4 0" "bytes_at 24 4 ?a6 = replicate 4 0"
    using assms by (simp_all add: at_simps)
  then have "bytes_at 0 4 ?a6 = bytes_at 0 4 sa" by (simp only: at_parts)
  with that [OF c f x] y x f show thesis by (simp add: to_sockaddr_def addr6_def)
qed

lemma from_ai:
  assumes "length u6 = 28" "length (ai_ip ai) = 16"
  shows "Addr_af (Addr_of_ai u6 u4 ai) = (if siit (ai_ip ai) then AF_INET else AF_INET6)"
    "addr6 (Addr_of_ai u6 u4 ai) = ai_ip ai" "Addr_port (Addr_of_ai u6 u4 ai) = ai_port ai"
  using assms by (simp_all add: Addr_of_ai_def Addr_af_def addr6_def Addr_port_def at_simps Let_def)

lemma length_Addr: "Addr_of_sockaddr u4 sa = Some a \<Longrightarrow> length (ad_addr a) = 28"
  by (auto simp: Addr_of_sockaddr_def mem_load_Some_iff Let_def split: bind_splits if_splits)

section \<open>Theorems\<close>

text \<open>\<open>sa\<close> is the source of a datagram from the router whose contact has the address \<open>ai\<close>.\<close>

definition comes_from :: "udap_ai \<Rightarrow> byte list \<Rightarrow> bool" where
  "comes_from ai sa \<longleftrightarrow> length sa = 28 \<and> bytes_at 2 2 sa = htons (ai_port ai) \<and>
     (if siit (ai_ip ai) then family_of (bytes_at 0 2 sa) = AF_INET \<and> bytes_at 4 4 sa = drop 12 (ai_ip ai)
      else family_of (bytes_at 0 2 sa) = AF_INET6 \<and> bytes_at 8 16 sa = ai_ip ai)"

lemma eq_same_hash:
  assumes "Addr_eq a b" "length (ad_addr a) = 28" "length (ad_addr b) = 28" shows "addrhash a = addrhash b"
proof -
  have "addr6 a = addr6 b" using assms memcmp_eq_0_iff [of "addr6 a" "addr6 b"] by (simp add: Addr_eq_def addr6_def)
  moreover have "addr4 c = bytes_at 12 4 (addr6 c)" for c by (simp add: addr4_def addr6_def at_at)
  ultimately show ?thesis using assms(1) by (simp add: addrhash_def Addr_eq_def)
qed

lemma memcmp_same [simp]: "memcmp xs xs = 0"
  by (simp add: memcmp_eq_0_iff)

text \<open>
  C38. A router is recognised by its datagrams: the address made of the source of a datagram equals the one
  made of its contact, for both families and whatever was in memory, and has the same hash. So the link finds the
  session it made for the contact when the answer comes.
\<close>

theorem same_peer_found:
  assumes "comes_from ai sa" "length (ai_ip ai) = 16" "length u6 = 28" "length v4 = 16"
  shows "\<exists>a. Addr_of_sockaddr v4 sa = Some a \<and> Addr_eq a (Addr_of_ai u6 u4 ai) \<and> addrhash a = addrhash (Addr_of_ai u6 u4 ai)"
proof -
  let ?b = "Addr_of_ai u6 u4 ai"
  have len: "length (ad_addr ?b) = 28" using assms(2,3) by (simp add: Addr_of_ai_def Let_def)
  have "\<exists>a. Addr_of_sockaddr v4 sa = Some a \<and> Addr_af a = Addr_af ?b \<and> addr6 a = ai_ip ai \<and> bytes_at 2 2 (ad_addr a) = htons (ai_port ai) \<and>
    length (ad_addr a) = 28"
  proof (cases "siit (ai_ip ai)")
    case True
    then have sa: "length sa \<ge> 8" "family_of (bytes_at 0 2 sa) = AF_INET" "bytes_at 4 4 sa = drop 12 (ai_ip ai)" "bytes_at 2 2 sa = htons (ai_port ai)"
      "length sa = 28" using assms(1) by (simp_all add: comes_from_def)
    from from_sockaddr4 [OF assms(4) sa(1,2)] obtain a where a: "Addr_of_sockaddr v4 sa = Some a" "Addr_af a = AF_INET"
      "addr6 a = replicate 10 0 @ [0xFF, 0xFF] @ bytes_at 4 4 sa" "addr4 a = bytes_at 4 4 sa" "bytes_at 2 2 (ad_addr a) = bytes_at 2 2 sa"
      "bytes_at 0 8 (to_sockaddr a) = bytes_at 0 8 sa" "length (to_sockaddr a) = 16" .
    have "addr6 a = ai_ip ai" using True a(3) sa(3) append_take_drop_id [of 12 "ai_ip ai"] by (simp add: siit_def)
    moreover have "length (ad_addr a) = 28" by (rule length_Addr [OF a(1)])
    ultimately show ?thesis using a sa(4) from_ai(1) [OF assms(3,2)] True by simp
  next
    case False
    then have sa: "length sa \<ge> 24" "family_of (bytes_at 0 2 sa) = AF_INET6" "bytes_at 8 16 sa = ai_ip ai" "bytes_at 2 2 sa = htons (ai_port ai)"
      "length sa = 28" using assms(1) by (simp_all add: comes_from_def)
    from from_sockaddr6 [OF sa(1,2), of v4] obtain a where a: "Addr_of_sockaddr v4 sa = Some a" "Addr_af a = AF_INET6" "addr6 a = bytes_at 8 16 sa"
      "bytes_at 2 2 (ad_addr a) = bytes_at 2 2 sa" "bytes_at 0 4 (to_sockaddr a) = bytes_at 0 4 sa" "bytes_at 4 4 (to_sockaddr a) = replicate 4 0"
      "bytes_at 24 4 (to_sockaddr a) = replicate 4 0" "bytes_at 8 16 (to_sockaddr a) = bytes_at 8 16 sa" .
    moreover have "length (ad_addr a) = 28" by (rule length_Addr [OF a(1)])
    ultimately show ?thesis using sa(3,4) from_ai(1) [OF assms(3,2)] False by simp
  qed
  then obtain a where a: "Addr_of_sockaddr v4 sa = Some a" "Addr_af a = Addr_af ?b" "addr6 a = ai_ip ai"
    "bytes_at 2 2 (ad_addr a) = htons (ai_port ai)" "length (ad_addr a) = 28" by blast
  then have "Addr_eq a ?b" using from_ai(2,3) [OF assms(3,2)] by (simp add: Addr_eq_def Addr_port_def)
  with a(1) eq_same_hash [OF this a(5) len] show ?thesis by blast
qed

theorem same_peer_found_witness:
  "\<exists>a. Addr_of_sockaddr (replicate 16 7) (machine16 2 @ htons 1090 @ [10, 0, 0, 1] @ replicate 20 0) = Some a \<and>
    Addr_eq a (Addr_of_ai (replicate 28 9) (replicate 16 8)
      \<lparr>ai_rank = 1, ai_dialect = [], ai_enc_key = [], ai_ip = replicate 10 0 @ [0xFF, 0xFF, 10, 0, 0, 1], ai_port = 1090\<rparr>)"
  (is "\<exists>a. Addr_of_sockaddr _ ?sa = _ \<and> Addr_eq a (Addr_of_ai _ _ ?ai)")
proof -
  have "comes_from ?ai ?sa" by code_simp
  from same_peer_found [OF this, of "replicate 28 9" "replicate 16 7" "replicate 16 8"] show ?thesis by auto
qed

text \<open>
  C37. What a link says about itself leads to it: a link that is configured for an interface has the address of the
  interface and the configured port, its socket is bound to them, and whoever makes an address of the entry
  that the link puts into our contact sends to exactly these.
\<close>

theorem advertised_address:
  assumes "List.find (wanted ifname AF_INET) ifs = Some (n, Some sa)" "length sa = 16" "ifname \<noteq> lit ''*''"
    and "length u4 = 16" "length v4 = 16" "length v6 = 28"
  shows "\<exists>a. link_configure True (Some ifs) idx listen u4 name ifname AF_INET p = Some (listen (to_sockaddr a), name, Some a) \<and>
    bytes_at 0 8 (to_sockaddr a) = machine16 (of_int AF_INET) @ htons p @ bytes_at 4 4 sa \<and>
    Addr_eq (Addr_of_ai v6 v4 (link_get_addr pk a)) a \<and>
    bytes_at 0 8 (to_sockaddr (Addr_of_ai v6 v4 (link_get_addr pk a))) = bytes_at 0 8 (to_sockaddr a)"
proof -
  let ?sa = "put_bytes 2 (htons p) sa"
  have fam: "family_of (bytes_at 0 2 sa) = AF_INET"
  proof -
    have "wanted ifname AF_INET (n, Some sa)" using assms(1) by (metis find_Some_iff)
    then show ?thesis by (simp add: wanted_def)
  qed
  then have fam': "bytes_at 0 2 sa = machine16 (of_int AF_INET)" using family_bytes(1) [of "bytes_at 0 2 sa"] assms(2) by simp
  have "mem_store (put_bytes 0 (machine16 (of_int AF_INET)) (replicate 16 0)) 0 sa = Some sa" "mem_store sa 2 (htons p) = Some ?sa"
    using assms(2) by (simp_all add: mem_store_def put_bytes_def)
  then have c: "link_configure True (Some ifs) idx listen u4 name ifname AF_INET p = map_option (\<lambda>a. (listen (to_sockaddr a), name, Some a)) (Addr_of_sockaddr u4 ?sa)"
    using assms(1-3) by (simp add: link_configure_def udap_getifaddr_def load_at map_conv_bind_option comp_def)
  have at: "bytes_at 0 2 ?sa = machine16 (of_int AF_INET)" "bytes_at 2 2 ?sa = htons p" "bytes_at 4 4 ?sa = bytes_at 4 4 sa" "length ?sa \<ge> 8"
    using assms(2) fam' by (simp_all add: at_simps)
  have "family_of (bytes_at 0 2 ?sa) = AF_INET" using at(1) by simp
  from from_sockaddr4 [OF assms(4) at(4) this] obtain a where a: "Addr_of_sockaddr u4 ?sa = Some a" "Addr_af a = AF_INET"
    "addr6 a = replicate 10 0 @ [0xFF, 0xFF] @ bytes_at 4 4 ?sa" "addr4 a = bytes_at 4 4 ?sa" "bytes_at 2 2 (ad_addr a) = bytes_at 2 2 ?sa"
    "bytes_at 0 8 (to_sockaddr a) = bytes_at 0 8 ?sa" "length (to_sockaddr a) = 16" .
  let ?ai = "link_get_addr pk a" and ?b = "Addr_of_ai v6 v4 (link_get_addr pk a)"
  have len: "length (ai_ip ?ai) = 16" using length_Addr [OF a(1)] by (simp add: link_get_addr_def addr6_def)
  have siit: "siit (ai_ip ?ai)" using a(3) by (simp add: link_get_addr_def siit_def)
  have port: "Addr_port a = p" using a(5) at(2) by (simp add: Addr_port_def)
  have eq: "Addr_eq ?b a" using from_ai [OF assms(6) len] siit a(2) by (simp add: Addr_eq_def link_get_addr_def)
  have "bytes_at 0 2 (ad_addr4 ?b) = machine16 (of_int AF_INET)" "bytes_at 2 2 (ad_addr4 ?b) = htons p"
    "bytes_at 4 4 (ad_addr4 ?b) = bytes_at 12 4 (ai_ip ?ai)"
    using siit assms(5,6) len port by (simp_all add: Addr_of_ai_def Let_def at_simps, simp_all add: link_get_addr_def at_simps)
  moreover have "bytes_at 12 4 (ai_ip ?ai) = bytes_at 4 4 sa" using a(3) at(3) assms(2) by (simp add: link_get_addr_def bytes_at_def)
  ultimately have "bytes_at 0 8 (to_sockaddr ?b) = machine16 (of_int AF_INET) @ htons p @ bytes_at 4 4 sa"
    using from_ai(1) [OF assms(6) len] siit by (simp add: to_sockaddr_def at_parts)
  moreover have "bytes_at 0 8 (to_sockaddr a) = machine16 (of_int AF_INET) @ htons p @ bytes_at 4 4 sa"
    using a(6) at by (simp only: at_parts)
  ultimately show ?thesis using c a(1) eq by simp
qed

theorem advertised_address_witness:
  "\<exists>a. link_configure True (Some [(lit ''eth0'', Some (machine16 2 @ [0, 0, 10, 0, 0, 1] @ replicate 8 0))]) (\<lambda>_. [1, 0, 0, 0]) (\<lambda>_. True)
      (replicate 16 5) link_name (lit ''eth0'') AF_INET 1090 = Some (True, link_name, Some a) \<and>
    Addr_eq (Addr_of_ai (replicate 28 3) (replicate 16 4) (link_get_addr (replicate 32 1) a)) a"
proof -
  let ?sa = "machine16 2 @ [0, 0, 10, 0, 0, 1] @ replicate 8 0"
  have "List.find (wanted (lit ''eth0'') AF_INET) [(lit ''eth0'', Some ?sa)] = Some (lit ''eth0'', Some ?sa)" by code_simp
  from advertised_address [OF this, of "replicate 16 5" "replicate 16 4" "replicate 28 3" "\<lambda>_. [1, 0, 0, 0]" "\<lambda>_. True" link_name 1090 "replicate 32 1"]
  show ?thesis by auto
qed

text \<open>
  The order of addresses is none: an address with the smaller port and the greater address is less and
  greater than the other at once, and a \<open>std::set\<close> of addresses, as the one of the sessions to remove, has
  undefined behaviour.
\<close>

theorem less_not_asymmetric:
  assumes "Addr_port a < Addr_port b" "memcmp (addr6 b) (addr6 a) < 0" shows "Addr_less a b \<and> Addr_less b a"
  using assms by (simp add: Addr_less_def)

theorem less_not_asymmetric_witness:
  "\<exists>a b. Addr_less a b \<and> Addr_less b a"
proof -
  let ?a = "\<lparr>ad_addr = put_bytes 8 (replicate 16 2) (put_bytes 2 (htons 1) (replicate 28 0)), ad_addr4 = []\<rparr>"
  let ?b = "\<lparr>ad_addr = put_bytes 8 (replicate 16 1) (put_bytes 2 (htons 2) (replicate 28 0)), ad_addr4 = []\<rparr>"
  have "Addr_port ?a < Addr_port ?b" "memcmp (addr6 ?b) (addr6 ?a) < 0" by code_simp+
  from less_not_asymmetric [OF this] show ?thesis by blast
qed

text \<open>The scope of an IPv6 address, which \<open>udap_getifaddr\<close> sets, is lost before the socket is bound.\<close>

theorem scope_lost:
  assumes "length sa = 28" "family_of (bytes_at 0 2 sa) = AF_INET6" "Addr_of_sockaddr u4 sa = Some a"
  shows "bytes_at 24 4 (to_sockaddr a) = replicate 4 0"
proof -
  have "length sa \<ge> 24" using assms(1) by simp
  from from_sockaddr6 [OF this assms(2), of u4] assms(3) show ?thesis by auto
qed

text \<open>An IPv6 address whose text has 28 characters or more is printed as an opening bracket only.\<close>

theorem long_address_not_printed:
  assumes "Addr_af a = AF_INET6" "length (ntop AF_INET6 (addr6 a)) \<ge> 28"
  shows "Addr_print ntop a = lit ''[:'' @ dec_nat (unat (Addr_port a))"
  using assms by (simp add: Addr_print_def)

text \<open>The comparison of two IPv4 \<open>sockaddr_in\<close> reads two bytes behind the objects.\<close>

theorem sockaddr_eq_overread:
  assumes "length a = 16" "length b = 16" "family_of (bytes_at 0 2 a) = AF_INET" "family_of (bytes_at 0 2 b) = AF_INET"
  shows "sockaddr_eq a b = None"
  using assms by (simp add: sockaddr_eq_def load_at, simp add: mem_load_def)

end
