(* ===== verification/Startup.thy ===== *)
theory Startup
  imports Router_Sessions Config Net
begin

text \<open>
  The start of the program: the settings of the router (\<open>router_iter_config\<close>), its key files and the contacts
  it connects to (\<open>udap/router.cpp\<close>), and the context around it (\<open>udap/context.cpp\<close>) with its
  configuration, its thread pools and the end of all this in \<open>Close\<close>.
\<close>

section \<open>Strings\<close>

text \<open>The order of \<open>std::string\<close>\<close>

fun string_less :: "byte list \<Rightarrow> byte list \<Rightarrow> bool" where
  "string_less xs [] \<longleftrightarrow> False"
| "string_less [] (y # ys) \<longleftrightarrow> True"
| "string_less (x # xs) (y # ys) \<longleftrightarrow> x < y \<or> x = y \<and> string_less xs ys"

interpretation strings: key_order string_less "\<lambda>_. True"
proof
  show "\<not> string_less x x" for x by (induction x) auto
  show "string_less x y \<Longrightarrow> string_less y z \<Longrightarrow> string_less x z" for x y z
  proof (induction x y arbitrary: z rule: string_less.induct)
    case (3 x xs y ys)
    then show ?case by (cases z) (auto dest: order.strict_trans)
  next
    case (2 y ys)
    then show ?case by (cases z) auto
  qed simp
  show "\<not> string_less x y \<Longrightarrow> \<not> string_less y x \<Longrightarrow> x = y" for x y
  proof (induction x y rule: string_less.induct)
    case (1 xs)
    then show ?case by (cases xs) auto
  qed auto
qed

section \<open>The settings of the router\<close>

definition UDAP_ETH_PROTO :: u16 where "UDAP_ETH_PROTO = 0xD1CE"

record router_config =
  rf_transport_keyfile :: "byte list"
  rf_connect :: "(byte list \<times> byte list) list"
  rf_ident_keyfile :: "byte list"
  rf_encryption_keyfile :: "byte list"
  rf_our_rc_file :: "byte list"
  rf_inboundLinks :: "(byte list \<times> int \<times> u16) list"

definition router_config_new :: router_config where
  "router_config_new = \<lparr>rf_transport_keyfile = lit ''transport.key'', rf_connect = [], rf_ident_keyfile = lit ''identity.key'',
     rf_encryption_keyfile = lit ''encryption.key'', rf_our_rc_file = lit ''rc.signed'', rf_inboundLinks = []\<rparr>"

text \<open>\<open>init\<close> and \<open>configure\<close>: whether a link can be initialised, and configured for an interface\<close>

definition bind_link ::
  "bool \<Rightarrow> (byte list \<Rightarrow> int \<Rightarrow> u16 \<Rightarrow> bool) \<Rightarrow> byte list \<Rightarrow> int \<Rightarrow> u16 \<Rightarrow> router_config \<Rightarrow> router_config" where
  "bind_link init configure key af proto c =
     (if StrEq key (lit ''*'') \<or> \<not> init then c
      else if configure key af proto then c\<lparr>rf_inboundLinks := rf_inboundLinks c @ [(key, af, proto)]\<rparr>
      else if af = AF_INET6 \<and> configure key AF_INET proto
      then c\<lparr>rf_inboundLinks := rf_inboundLinks c @ [(key, AF_INET, proto)]\<rparr>
      else c)"

definition router_iter_config ::
  "bool \<Rightarrow> (byte list \<Rightarrow> int \<Rightarrow> u16 \<Rightarrow> bool) \<Rightarrow> byte list \<times> byte list \<times> byte list \<Rightarrow> router_config \<Rightarrow> router_config" where
  "router_iter_config init configure visit c =
     (case visit of (sec, key, val) \<Rightarrow>
       (let (af, proto) = (if StrEq val (lit ''eth'') then (AF_PACKET, UDAP_ETH_PROTO) else (AF_INET, word_of_int (atoi val)))
        in if StrEq sec (lit ''bind'') then bind_link init configure key af proto c
           else if StrEq sec (lit ''connect'') then c\<lparr>rf_connect := map_put string_less key val (rf_connect c)\<rparr>
           else if StrEq sec (lit ''router'')
           then (let c = (if StrEq key (lit ''encryption-privkey'') then c\<lparr>rf_encryption_keyfile := val\<rparr> else c);
                     c = (if StrEq key (lit ''contact-file'') then c\<lparr>rf_our_rc_file := val\<rparr> else c);
                     c = (if StrEq key (lit ''transport-privkey'') then c\<lparr>rf_transport_keyfile := val\<rparr> else c)
                 in if StrEq key (lit ''ident-privkey'') then c\<lparr>rf_ident_keyfile := val\<rparr> else c)
           else c))"

section \<open>Key files\<close>

text \<open>
  A key file is made when there is none, and then read; \<open>fresh\<close> is the key that is generated, \<open>key\<close> what
  the memory of the key holds. A file that is too short leaves the rest of that memory as it was.
\<close>

definition find_or_create ::
  "byte list \<Rightarrow> (byte list \<Rightarrow> bool) \<Rightarrow> (byte list \<Rightarrow> bool) \<Rightarrow> byte list \<Rightarrow> byte list \<Rightarrow> disk \<Rightarrow> bool \<times> byte list \<times> disk" where
  "find_or_create fresh writable readable fpath key d =
     (let (key, d) = (if d fpath = None then (fresh, if writable fpath then d(fpath \<mapsto> fresh) else d) else (key, d))
      in case d fpath of
           Some contents \<Rightarrow> if readable fpath then (True, take SECKEYSIZE contents @ drop (length contents) key, d) else (False, key, d)
         | None \<Rightarrow> (False, key, d))"

definition udap_findOrCreateIdentity ::
  "byte list \<Rightarrow> (byte list \<Rightarrow> bool) \<Rightarrow> (byte list \<Rightarrow> bool) \<Rightarrow> byte list \<Rightarrow> byte list \<Rightarrow> disk \<Rightarrow> bool \<times> byte list \<times> disk" where
  "udap_findOrCreateIdentity identity_keygen writable readable fpath secretkey d =
     find_or_create identity_keygen writable readable fpath secretkey d"

definition udap_findOrCreateEncryption ::
  "byte list \<Rightarrow> (byte list \<Rightarrow> bool) \<Rightarrow> (byte list \<Rightarrow> bool) \<Rightarrow> byte list \<Rightarrow> byte list \<Rightarrow> disk \<Rightarrow> bool \<times> byte list \<times> disk" where
  "udap_findOrCreateEncryption encryption_keygen writable readable fpath encryption d =
     find_or_create encryption_keygen writable readable fpath encryption d"

text \<open>
  The transport key of a link (\<open>server::ensure_privkey\<close> of \<open>udap/iwp_link.cpp\<close>): here a file that cannot be
  written is a failure of its own.
\<close>

definition keygen :: "byte list \<Rightarrow> (byte list \<Rightarrow> bool) \<Rightarrow> byte list \<Rightarrow> disk \<Rightarrow> bool \<times> byte list \<times> disk" where
  "keygen encryption_keygen writable fname d =
     (if writable fname then (True, encryption_keygen, d(fname \<mapsto> encryption_keygen)) else (False, encryption_keygen, d))"

definition ensure_privkey ::
  "byte list \<Rightarrow> (byte list \<Rightarrow> bool) \<Rightarrow> (byte list \<Rightarrow> bool) \<Rightarrow> byte list \<Rightarrow> byte list \<Rightarrow> disk \<Rightarrow> bool \<times> byte list \<times> disk" where
  "ensure_privkey encryption_keygen writable readable keyfile seckey d =
     (let (ok, seckey, d) = (if d keyfile = None then keygen encryption_keygen writable keyfile d else (True, seckey, d))
      in if \<not> ok then (False, seckey, d)
         else case d keyfile of
           Some contents \<Rightarrow>
             if readable keyfile then (True, take SECKEYSIZE contents @ drop (length contents) seckey, d) else (False, seckey, d)
         | None \<Rightarrow> (False, seckey, d))"

definition EnsureIdentity ::
  "byte list \<Rightarrow> byte list \<Rightarrow> (byte list \<Rightarrow> bool) \<Rightarrow> (byte list \<Rightarrow> bool) \<Rightarrow> router_config \<Rightarrow> byte list \<Rightarrow> byte list \<Rightarrow> disk \<Rightarrow>
    bool \<times> byte list \<times> byte list \<times> disk" where
  "EnsureIdentity encryption_keygen identity_keygen writable readable c encryption identity d =
     (let (ok, encryption, d) = udap_findOrCreateEncryption encryption_keygen writable readable (rf_encryption_keyfile c) encryption d
      in if \<not> ok then (False, encryption, identity, d)
         else (let (ok, identity, d) = udap_findOrCreateIdentity identity_keygen writable readable (rf_ident_keyfile c) identity d
               in (ok, encryption, identity, d)))"

section \<open>Configuring and closing the router\<close>

text \<open>The outbound link, known by the family it was configured for\<close>

definition InitOutboundLink :: "bool \<Rightarrow> (byte list \<Rightarrow> int \<Rightarrow> u16 \<Rightarrow> bool) \<Rightarrow> int option \<Rightarrow> bool \<times> int option" where
  "InitOutboundLink init configure outbound =
     (if outbound \<noteq> None then (True, outbound)
      else if \<not> init then (False, None)
      else case List.find (\<lambda>af. configure (lit ''*'') af 0) [AF_INET, AF_INET6] of
             Some af \<Rightarrow> (True, Some af)
           | None \<Rightarrow> (False, None))"

definition udap_configure_router ::
  "bool \<Rightarrow> (byte list \<Rightarrow> int \<Rightarrow> u16 \<Rightarrow> bool) \<Rightarrow> byte list \<Rightarrow> byte list \<Rightarrow> (byte list \<Rightarrow> bool) \<Rightarrow> (byte list \<Rightarrow> bool) \<Rightarrow> Config \<Rightarrow>
    byte list \<Rightarrow> byte list \<Rightarrow> disk \<Rightarrow> bool \<times> router_config \<times> int option \<times> byte list \<times> byte list \<times> disk" where
  "udap_configure_router init configure encryption_keygen identity_keygen writable readable conf encryption identity d =
     (let c = fold (router_iter_config init configure) (udap_config_iter conf) router_config_new;
          (ok, outbound) = InitOutboundLink init configure None
      in if \<not> ok \<or> outbound = None then (False, c, outbound, encryption, identity, d)
         else (let (ok, encryption, identity, d) = EnsureIdentity encryption_keygen identity_keygen writable readable c encryption identity d
               in (ok, c, outbound, encryption, identity, d)))"

text \<open>The outbound link must be there.\<close>

definition router_Close :: "router_config \<Rightarrow> int option \<Rightarrow> (router_config \<times> int option) option" where
  "router_Close c outbound = do {
     _ \<leftarrow> outbound;
     Some (c\<lparr>rf_inboundLinks := []\<rparr>, None)
   }"

section \<open>Connecting to the configured routers\<close>

text \<open>A file that is too large is reported, and then the uninitialised array is decoded. \<open>stack\<close> is the array in which the signature is checked.\<close>

definition router_try_connect ::
  "ntop \<Rightarrow> pton \<Rightarrow> verifier \<Rightarrow> udap_ai \<Rightarrow> byte list \<Rightarrow> byte list \<Rightarrow> byte list option \<Rightarrow> udap_router \<Rightarrow> udap_router option" where
  "router_try_connect ntop pton verify uninit tmp stack rcfile r =
     (case rcfile of
        None \<Rightarrow> Some r
      | Some contents \<Rightarrow> do {
          tmp \<leftarrow> (if length contents \<le> length tmp then mem_store tmp 0 contents else Some tmp);
          (ok, remote, _) \<leftarrow> udap_rc_bdecode pton uninit rc_zero (StackBuffer tmp);
          if \<not> ok then Some r
          else do {
            (ok, remote) \<leftarrow> udap_rc_verify_sig ntop verify stack remote;
            if \<not> ok then Some r
            else map_option snd (udap_router_try_connect remote 10 r)
          }
        })"

fun connect_files ::
  "ntop \<Rightarrow> pton \<Rightarrow> verifier \<Rightarrow> udap_ai \<Rightarrow> byte list \<Rightarrow> byte list \<Rightarrow> disk \<Rightarrow> (byte list \<times> byte list) list \<Rightarrow> udap_router \<Rightarrow> udap_router option" where
  "connect_files ntop pton verify uninit tmp stack d [] r = Some r"
| "connect_files ntop pton verify uninit tmp stack d (x # xs) r = do {
     r \<leftarrow> router_try_connect ntop pton verify uninit tmp stack (d (snd x)) r;
     connect_files ntop pton verify uninit tmp stack d xs r
   }"

definition ConnectAll ::
  "ntop \<Rightarrow> pton \<Rightarrow> verifier \<Rightarrow> udap_ai \<Rightarrow> byte list \<Rightarrow> byte list \<Rightarrow> disk \<Rightarrow> router_config \<Rightarrow> u64 \<Rightarrow> udap_router \<Rightarrow> udap_router option" where
  "ConnectAll ntop pton verify uninit tmp stack d c left r =
     (if left \<noteq> 0 then Some r else connect_files ntop pton verify uninit tmp stack d (rf_connect c) r)"

section \<open>The context\<close>

text \<open>
  Thread pools are addresses, of which those in \<open>cx_pools\<close> are alive. The errors are an exception of the
  parser that nobody catches, a null pointer, and the use or the freeing of a pool that was freed.
\<close>

datatype context_error = Uncaught ini_error | NullPointer | UseAfterFree | DoubleFree

record Context =
  cx_num_nethreads :: int
  cx_singleThreaded :: bool
  cx_worker :: "nat option"
  cx_logic :: "nat option"
  cx_config :: "Config option"
  cx_nodedb_dir :: "byte list"
  cx_pools :: "nat list"
  cx_next :: nat

definition Context_new :: "bool \<Rightarrow> Context" where
  "Context_new singleThread = \<lparr>cx_num_nethreads = 1, cx_singleThreaded = singleThread, cx_worker = None, cx_logic = None,
     cx_config = None, cx_nodedb_dir = replicate 256 0, cx_pools = [], cx_next = 0\<rparr>"

definition new_pool :: "Context \<Rightarrow> nat \<times> Context" where
  "new_pool ctx = (cx_next ctx, ctx\<lparr>cx_pools := cx_next ctx # cx_pools ctx, cx_next := cx_next ctx + 1\<rparr>)"

definition strncpy :: "nat \<Rightarrow> byte list \<Rightarrow> byte list" where
  "strncpy n s = take n s @ replicate (n - length s) 0"

definition iter_config :: "byte list \<times> byte list \<times> byte list \<Rightarrow> Context \<Rightarrow> Context" where
  "iter_config visit ctx =
     (case visit of (sec, key, val) \<Rightarrow>
       (let ctx = (if sec = lit ''router'' \<and> key = lit ''worker-threads'' \<and> \<not> cx_singleThreaded ctx \<and> atoi val > 0 \<and> cx_worker ctx = None
                   then (let (w, ctx) = new_pool ctx in ctx\<lparr>cx_worker := Some w\<rparr>) else ctx);
            ctx = (if sec = lit ''router'' \<and> key = lit ''net-threads''
                   then ctx\<lparr>cx_num_nethreads := (if cx_singleThreaded ctx then 0 else if atoi val \<le> 0 then 1 else atoi val)\<rparr> else ctx)
        in if sec = lit ''netdb'' \<and> key = lit ''dir'' then ctx\<lparr>cx_nodedb_dir := strncpy 256 val\<rparr> else ctx))"

definition ReloadConfig :: "byte list option \<Rightarrow> Context \<Rightarrow> context_error + bool \<times> Context" where
  "ReloadConfig file ctx =
     (case cx_config ctx of
        None \<Rightarrow> Inl NullPointer
      | Some conf \<Rightarrow>
          (case Config_Load file conf of
             Inl e \<Rightarrow> Inl (Uncaught e)
           | Inr (ok, conf) \<Rightarrow>
               if ok then Inr (True, fold iter_config (udap_config_iter conf) (ctx\<lparr>cx_config := Some conf\<rparr>))
               else Inr (False, ctx\<lparr>cx_config := None\<rparr>)))"

definition LoadConfig :: "byte list option \<Rightarrow> Context \<Rightarrow> context_error + bool \<times> Context" where
  "LoadConfig file ctx = ReloadConfig file (ctx\<lparr>cx_config := Some Config_new\<rparr>)"

text \<open>What \<open>LoadDatabase\<close> takes as the directory\<close>

definition nodedb_path :: "Context \<Rightarrow> byte list option" where
  "nodedb_path ctx = (if cx_nodedb_dir ctx ! 0 = 0 then None else Some (c_str ((cx_nodedb_dir ctx)[255 := 0])))"

text \<open>The pools that \<open>Run\<close> makes before the router is configured\<close>

definition Context_Run :: "Context \<Rightarrow> Context" where
  "Context_Run ctx =
     (let ctx = (if cx_worker ctx = None \<and> \<not> cx_singleThreaded ctx \<or> cx_singleThreaded ctx
                 then (let (w, ctx) = new_pool ctx in ctx\<lparr>cx_worker := Some w\<rparr>) else ctx)
      in if cx_singleThreaded ctx then ctx\<lparr>cx_logic := cx_worker ctx\<rparr>
         else (let (t, ctx) = new_pool ctx in ctx\<lparr>cx_logic := Some t\<rparr>))"

definition use_pool :: "nat option \<Rightarrow> Context \<Rightarrow> context_error + Context" where
  "use_pool p ctx = (case p of None \<Rightarrow> Inr ctx | Some a \<Rightarrow> if a \<in> set (cx_pools ctx) then Inr ctx else Inl UseAfterFree)"

definition free_pool :: "nat option \<Rightarrow> Context \<Rightarrow> context_error + Context" where
  "free_pool p ctx = (case p of None \<Rightarrow> Inr ctx
     | Some a \<Rightarrow> if a \<in> set (cx_pools ctx) then Inr (ctx\<lparr>cx_pools := removeAll a (cx_pools ctx)\<rparr>) else Inl DoubleFree)"

fun in_turn :: "(Context \<Rightarrow> context_error + Context) list \<Rightarrow> Context \<Rightarrow> context_error + Context" where
  "in_turn [] ctx = Inr ctx"
| "in_turn (f # fs) ctx = (case f ctx of Inl e \<Rightarrow> Inl e | Inr ctx \<Rightarrow> in_turn fs ctx)"

text \<open>
  \<open>Close\<close>: the workers are stopped and joined, then \<open>udap_logic_stop\<close> stops, joins and frees the pool
  of the logic, then the configuration, the workers and the logic are freed.
\<close>

definition Context_Close :: "Context \<Rightarrow> context_error + Context" where
  "Context_Close ctx = in_turn [use_pool (cx_worker ctx), use_pool (cx_worker ctx), use_pool (cx_logic ctx), use_pool (cx_logic ctx),
     free_pool (cx_logic ctx), \<lambda>ctx. Inr (ctx\<lparr>cx_config := None\<rparr>), free_pool (cx_worker ctx),
     \<lambda>ctx. Inr (ctx\<lparr>cx_worker := None, cx_logic := None\<rparr>)] ctx"

definition udap_main_init :: "byte list option \<Rightarrow> bool \<Rightarrow> context_error + Context option" where
  "udap_main_init file multiProcess =
     (case LoadConfig file (Context_new (\<not> multiProcess)) of
        Inl e \<Rightarrow> Inl e
      | Inr (ok, ctx) \<Rightarrow> if ok then Inr (Some ctx) else (case Context_Close ctx of Inl e \<Rightarrow> Inl e | Inr _ \<Rightarrow> Inr None))"


section \<open>Keys\<close>

lemma create_then_find:
  assumes "d f = None" "writable f" "readable f" "length fresh = SECKEYSIZE"
  shows "find_or_create fresh writable readable f key d = (True, fresh, d(f \<mapsto> fresh))"
  using assms by (simp add: find_or_create_def)

lemma find_again:
  assumes "d f = Some contents" "readable f" "length contents = SECKEYSIZE" "length key = SECKEYSIZE"
  shows "find_or_create fresh writable readable f key d = (True, contents, d)"
  using assms by (simp add: find_or_create_def)

text \<open>
  A router keeps its keys: the first start makes both key files, and every later start, whatever its
  key generation would give and whatever was in memory, has the same keys.
\<close>

theorem keys_persist:
  assumes "d (rf_encryption_keyfile c) = None" "d (rf_ident_keyfile c) = None" "rf_encryption_keyfile c \<noteq> rf_ident_keyfile c"
    and "list_all (\<lambda>f. writable f \<and> readable f) [rf_encryption_keyfile c, rf_ident_keyfile c]"
    and "list_all (\<lambda>k. length k = SECKEYSIZE) [ek, ik, em, im]"
  shows "\<exists>d'. EnsureIdentity ek ik writable readable c e0 i0 d = (True, ek, ik, d') \<and>
    EnsureIdentity ek' ik' writable readable c em im d' = (True, ek, ik, d')"
  using assms by (simp add: EnsureIdentity_def udap_findOrCreateEncryption_def udap_findOrCreateIdentity_def create_then_find find_again)

theorem keys_persist_witness:
  "\<exists>d'. EnsureIdentity (replicate 64 1) (replicate 64 2) (\<lambda>_. True) (\<lambda>_. True) router_config_new [] [] Map.empty =
      (True, replicate 64 1, replicate 64 2, d') \<and>
    EnsureIdentity [7] [8] (\<lambda>_. True) (\<lambda>_. True) router_config_new (replicate 64 0) (replicate 64 0) d' =
      (True, replicate 64 1, replicate 64 2, d')"
  by (rule keys_persist) (simp_all add: router_config_new_def size_defs)

text \<open>
  A key file that is too short is accepted: the key is the bytes of the file, followed by what the memory
  held before.
\<close>

theorem short_key_accepted:
  assumes "d fpath = Some contents" "readable fpath" "length contents < SECKEYSIZE" "length key = SECKEYSIZE"
  shows "udap_findOrCreateIdentity fresh writable readable fpath key d = (True, contents @ drop (length contents) key, d)"
  using assms by (simp add: udap_findOrCreateIdentity_def find_or_create_def)

theorem short_key_accepted_witness:
  "udap_findOrCreateIdentity [] (\<lambda>_. True) (\<lambda>_. True) [1] (replicate 64 0) [[1] \<mapsto> []] = (True, replicate 64 0, [[1] \<mapsto> []])"
  using short_key_accepted [of "[[1] \<mapsto> []]" "[1]" "[]" "\<lambda>_. True" "replicate 64 0" "[]" "\<lambda>_. True"] by (simp add: size_defs)

text \<open>
  A value of a section is the last that is given for its key, here for the section of the router.
\<close>

definition setting :: "Config \<Rightarrow> string \<Rightarrow> string \<Rightarrow> byte list" where
  "setting conf key default_value =
     (case map_of (rev (map (\<lambda>(k, v). (c_str k, c_str v)) (cf_router conf))) (lit key) of Some v \<Rightarrow> v | None \<Rightarrow> lit default_value)"

lemma bind_keeps_keys:
  "rf_ident_keyfile (bind_link init configure key af proto c) = rf_ident_keyfile c"
  "rf_encryption_keyfile (bind_link init configure key af proto c) = rf_encryption_keyfile c"
  by (simp_all add: bind_link_def)

lemma iter_keeps_keys:
  assumes "sec \<noteq> lit ''router''"
  shows "rf_ident_keyfile (router_iter_config init configure (sec, key, val) c) = rf_ident_keyfile c"
    "rf_encryption_keyfile (router_iter_config init configure (sec, key, val) c) = rf_encryption_keyfile c"
  using assms by (cases "val = lit ''eth''"; simp add: router_iter_config_def bind_keeps_keys Let_def del: lit_Cons)+

lemma fold_keeps_keys:
  assumes "lit name \<noteq> lit ''router''"
  shows "rf_ident_keyfile (fold (router_iter_config init configure) (visits name kvs) c) = rf_ident_keyfile c \<and>
    rf_encryption_keyfile (fold (router_iter_config init configure) (visits name kvs) c) = rf_encryption_keyfile c"
  using assms by (induction kvs arbitrary: c) (auto simp: visits_def iter_keeps_keys simp del: lit_Cons)

lemma iter_keys:
  "rf_ident_keyfile (router_iter_config init configure (lit ''router'', key, val) c) = (if key = lit ''ident-privkey'' then val else rf_ident_keyfile c)"
  "rf_encryption_keyfile (router_iter_config init configure (lit ''router'', key, val) c) =
    (if key = lit ''encryption-privkey'' then val else rf_encryption_keyfile c)"
  by (cases "val = lit ''eth''"; simp add: router_iter_config_def Let_def)+

lemma fold_keys:
  "rf_ident_keyfile (fold (router_iter_config init configure) (visits ''router'' kvs) c) =
    (case map_of (rev (map (\<lambda>(k, v). (c_str k, c_str v)) kvs)) (lit ''ident-privkey'') of Some v \<Rightarrow> v | None \<Rightarrow> rf_ident_keyfile c) \<and>
   rf_encryption_keyfile (fold (router_iter_config init configure) (visits ''router'' kvs) c) =
    (case map_of (rev (map (\<lambda>(k, v). (c_str k, c_str v)) kvs)) (lit ''encryption-privkey'') of Some v \<Rightarrow> v | None \<Rightarrow> rf_encryption_keyfile c)"
proof (induction kvs arbitrary: c)
  case (Cons kv kvs)
  obtain k v where kv: "kv = (k, v)" by fastforce
  have "visits ''router'' (kv # kvs) = (lit ''router'', c_str k, c_str v) # visits ''router'' kvs" by (simp add: visits_def kv)
  then show ?case using Cons.IH [of "router_iter_config init configure (lit ''router'', c_str k, c_str v) c"]
    by (simp add: kv iter_keys map_add_def del: lit_Cons split: option.split)
qed (simp add: visits_def)

lemma keyfiles_configured:
  fixes conf init configure
  defines "c \<equiv> fold (router_iter_config init configure) (udap_config_iter conf) router_config_new"
  shows "rf_ident_keyfile c = setting conf ''ident-privkey'' ''identity.key''"
    "rf_encryption_keyfile c = setting conf ''encryption-privkey'' ''encryption.key''"
proof -
  have ne: "lit ''bind'' \<noteq> lit ''router''" "lit ''connect'' \<noteq> lit ''router''" "lit ''netdb'' \<noteq> lit ''router''" "lit ''network'' \<noteq> lit ''router''" by simp_all
  show "rf_ident_keyfile c = setting conf ''ident-privkey'' ''identity.key''" "rf_encryption_keyfile c = setting conf ''encryption-privkey'' ''encryption.key''"
    by (simp_all add: c_def udap_config_iter_def fold_keys setting_def router_config_new_def ne [THEN fold_keeps_keys] del: lit_Cons cong: option.case_cong)
qed

text \<open>
  A configured router has the keys in the files that its configuration names, or in the default files, and then it can be
  closed. A router whose outbound link could not be configured cannot: closing it follows a null pointer.
\<close>

theorem router_configured:
  assumes "d (setting conf ''encryption-privkey'' ''encryption.key'') = Some ek" "d (setting conf ''ident-privkey'' ''identity.key'') = Some ik"
    and "readable (setting conf ''encryption-privkey'' ''encryption.key'')" "readable (setting conf ''ident-privkey'' ''identity.key'')"
    and "list_all (\<lambda>k. length k = SECKEYSIZE) [ek, ik, em, im]"
  shows "\<exists>ok c out e i. udap_configure_router init configure ek' ik' writable readable conf em im d = (ok, c, out, e, i, d) \<and>
    (ok \<longleftrightarrow> init \<and> (configure (lit ''*'') AF_INET 0 \<or> configure (lit ''*'') AF_INET6 0)) \<and>
    (if ok then e = ek \<and> i = ik \<and> router_Close c out \<noteq> None else router_Close c out = None)"
proof -
  let ?c = "fold (router_iter_config init configure) (udap_config_iter conf) router_config_new"
  have "EnsureIdentity ek' ik' writable readable ?c em im d = (True, ek, ik, d)"
    using assms by (simp add: EnsureIdentity_def keyfiles_configured udap_findOrCreateEncryption_def udap_findOrCreateIdentity_def find_again)
  then show ?thesis
    by (cases "init"; cases "configure (lit ''*'') AF_INET 0"; cases "configure (lit ''*'') AF_INET6 0")
      (auto simp: udap_configure_router_def InitOutboundLink_def router_Close_def Let_def)
qed

theorem router_configured_witness:
  "\<exists>c. udap_configure_router True (\<lambda>_ af _. af = AF_INET) [] [] (\<lambda>_. False) (\<lambda>_. True) Config_new (replicate 64 0) (replicate 64 0)
      [lit ''encryption.key'' \<mapsto> replicate 64 1, lit ''identity.key'' \<mapsto> replicate 64 2] =
    (True, c, Some AF_INET, replicate 64 1, replicate 64 2, [lit ''encryption.key'' \<mapsto> replicate 64 1, lit ''identity.key'' \<mapsto> replicate 64 2])"
proof -
  define d :: disk where "d = [lit ''encryption.key'' \<mapsto> replicate 64 1, lit ''identity.key'' \<mapsto> replicate 64 2]"
  have "setting Config_new ''encryption-privkey'' ''encryption.key'' = lit ''encryption.key''"
    "setting Config_new ''ident-privkey'' ''identity.key'' = lit ''identity.key''" by (simp_all add: setting_def Config_new_def)
  then have "d (setting Config_new ''encryption-privkey'' ''encryption.key'') = Some (replicate 64 1)"
    "d (setting Config_new ''ident-privkey'' ''identity.key'') = Some (replicate 64 2)" by (simp_all add: d_def)
  from router_configured [OF this, of "\<lambda>_. True" "replicate 64 0" "replicate 64 0" True "\<lambda>_ af _. af = AF_INET" "[]" "[]" "\<lambda>_. False"]
  obtain c out where "udap_configure_router True (\<lambda>_ af _. af = AF_INET) [] [] (\<lambda>_. False) (\<lambda>_. True) Config_new (replicate 64 0) (replicate 64 0) d =
    (True, c, out, replicate 64 1, replicate 64 2, d)" by (auto simp: size_defs simp del: lit_Cons)
  moreover from this have "out = Some AF_INET"
    by (auto simp: udap_configure_router_def InitOutboundLink_def Let_def simp del: lit_Cons split: prod.splits)
  ultimately show ?thesis unfolding d_def [symmetric] by blast
qed

section \<open>The configured routers\<close>

lemma bind_keeps_connect: "rf_connect (bind_link init configure key af proto c) = rf_connect c"
  by (simp add: bind_link_def)

lemma iter_keeps_connect:
  "sec \<noteq> lit ''connect'' \<Longrightarrow> rf_connect (router_iter_config init configure (sec, key, val) c) = rf_connect c"
  by (cases "val = lit ''eth''") (simp_all add: router_iter_config_def bind_keeps_connect Let_def if_distrib [of rf_connect] del: lit_Cons cong: if_cong)

lemma fold_keeps_connect:
  "lit name \<noteq> lit ''connect'' \<Longrightarrow> rf_connect (fold (router_iter_config init configure) (visits name kvs) c) = rf_connect c"
  by (induction kvs arbitrary: c) (auto simp: visits_def iter_keeps_connect simp del: lit_Cons)

lemma iter_connect:
  "rf_connect (router_iter_config init configure (lit ''connect'', key, val) c) = map_put string_less key val (rf_connect c)"
  by (cases "val = lit ''eth''") (simp_all add: router_iter_config_def Let_def)

lemma fold_connect:
  assumes "strings.ordered (rf_connect c)"
  shows "strings.ordered (rf_connect (fold (router_iter_config init configure) (visits ''connect'' kvs) c)) \<and>
    map_find string_less k (rf_connect (fold (router_iter_config init configure) (visits ''connect'' kvs) c)) =
      (case map_of (rev (map (\<lambda>(k, v). (c_str k, c_str v)) kvs)) k of Some v \<Rightarrow> Some v | None \<Rightarrow> map_find string_less k (rf_connect c))"
  using assms
proof (induction kvs arbitrary: c)
  case (Cons kv kvs)
  obtain k' v' where kv: "kv = (k', v')" by fastforce
  let ?c = "router_iter_config init configure (lit ''connect'', c_str k', c_str v') c"
  have v: "visits ''connect'' (kv # kvs) = (lit ''connect'', c_str k', c_str v') # visits ''connect'' kvs"
    by (simp add: visits_def kv)
  have "strings.ordered (rf_connect ?c)" by (simp only: iter_connect strings.ordered_put [OF _ Cons.prems])
  from Cons.IH [OF this] strings.find_put [OF _ _ Cons.prems, of k "c_str k'" "c_str v'"] show ?case
    unfolding v by (simp add: kv iter_connect map_add_def del: lit_Cons split: option.split)
qed (simp add: visits_def)


text \<open>
  The routers to connect to are those of the configuration: after all settings were visited, the file for
  a name is the last one that the section gives for it, and no other name has a file.
\<close>

theorem connect_as_configured:
  "map_find string_less k (rf_connect (fold (router_iter_config init configure) (udap_config_iter conf) router_config_new)) =
    map_of (rev (map (\<lambda>(k, v). (c_str k, c_str v)) (cf_connect conf))) k"
proof -
  let ?f = "fold (router_iter_config init configure)"
  let ?c = "?f (visits ''bind'' (cf_iwp_links conf)) (?f (visits ''router'' (cf_router conf)) router_config_new)"
  have ne: "lit ''bind'' \<noteq> lit ''connect''" "lit ''router'' \<noteq> lit ''connect''" "lit ''netdb'' \<noteq> lit ''connect''"
    "lit ''network'' \<noteq> lit ''connect''" by simp_all
  have c: "rf_connect ?c = []" using fold_keeps_connect [OF ne(1)] fold_keeps_connect [OF ne(2)] by (simp add: router_config_new_def)
  then have "strings.ordered (rf_connect ?c)" by simp
  from fold_connect [OF this, of init configure "cf_connect conf" k] c show ?thesis
    using fold_keeps_connect [OF ne(3)] fold_keeps_connect [OF ne(4)] by (simp add: udap_config_iter_def split: option.splits)
qed

text \<open>
  A router starts from the contacts it is configured with: a file with the signed contact of a router
  that has an address, with which no session is being made, makes it ask the outbound link for one.
\<close>

theorem bootstrap_connects:
  assumes "inet_ok ntop pton" "rc_valid uninit rc" "length (rc_bytes ntop rc) < MAX_RC_SIZE" "length tmp = MAX_RC_SIZE"
    and sig: "udap_rc_verify_sig ntop verify stack rc = Some (True, rc)"
    and rc: "rc_addrs rc = Some (a # as)" "length (rc_pubkey rc) = 32"
    and r: "\<not> HasPendingConnectJob (rc_pubkey rc) r" "router_inv r"
  shows "\<exists>r'. router_try_connect ntop pton verify uninit tmp stack (Some (rc_bytes ntop rc)) r = Some r' \<and>
    r_events r' = r_events r @ [TryEstablish (rc_pubkey rc)] \<and> HasPendingConnectJob (rc_pubkey rc) r'"
proof -
  let ?bs = "rc_bytes ntop rc"
  have len: "length ?bs \<le> length tmp" using assms(3,4) by simp
  have "udap_rc_read pton uninit tmp rc_zero (Some ?bs) = Some (Some rc)" by (rule rc_file_read [OF assms(1-4)])
  then obtain m buf where m: "mem_store tmp 0 ?bs = Some m" "udap_rc_bdecode pton uninit (udap_rc_clear rc_zero) (StackBuffer m) = Some (True, rc, buf)"
    using len by (auto simp: udap_rc_read_def split: bind_splits if_splits)
  have z: "udap_rc_clear rc_zero = rc_zero" by (simp add: udap_rc_clear_def rc_zero_def)
  have "bytes.ordered 32 (r_pendingEstablishJobs r)" using r(2) by (simp add: router_inv_def)
  with sig m z len rc r show ?thesis
    by (simp add: router_try_connect_def udap_router_try_connect_def HasPendingConnectJob_def udap_ai_list_index_def Let_def
        router_emit_def bytes.emplace_find)
qed

theorem bootstrap_connects_witness:
  "\<exists>r'. router_try_connect hex_ntop HexDecode (\<lambda>pk m sig. sig = replicate 64 5) uninit_ai (replicate 1024 9) (replicate 1024 0)
      (Some (rc_bytes hex_ntop example_rc)) example_router = Some r' \<and>
    r_events r' = r_events example_router @ [TryEstablish (rc_pubkey example_rc)] \<and> HasPendingConnectJob (rc_pubkey example_rc) r'"
  by (rule bootstrap_connects [OF inet_ok_hex example_rc_valid example_rc_fits])
    (simp_all add: example_verifies MAX_RC_SIZE_def example_router_inv, simp_all add: example_rc_def example_router_def HasPendingConnectJob_def)

section \<open>The context\<close>

text \<open>
  A configuration file that cannot be opened at a hang-up costs the program its configuration, and the
  next hang-up follows the null pointer, whether the file is there again or not.
\<close>

theorem second_hangup_crashes:
  assumes "cx_config ctx = Some conf"
  shows "\<exists>ctx'. ReloadConfig None ctx = Inr (False, ctx') \<and> ReloadConfig file ctx' = Inl NullPointer"
  using assms by (simp add: ReloadConfig_def Config_Load_def)

theorem second_hangup_crashes_witness:
  "\<exists>ctx'. ReloadConfig None ((Context_new False)\<lparr>cx_config := Some Config_new\<rparr>) = Inr (False, ctx') \<and>
    ReloadConfig (Some []) ctx' = Inl NullPointer"
  by (rule second_hangup_crashes) simp

definition pools_ok :: "bool \<Rightarrow> Context \<Rightarrow> bool" where
  "pools_ok single ctx \<longleftrightarrow> cx_singleThreaded ctx = single \<and> cx_logic ctx = None \<and>
     (case cx_worker ctx of None \<Rightarrow> cx_pools ctx = [] | Some w \<Rightarrow> \<not> single \<and> cx_pools ctx = [w] \<and> w < cx_next ctx)"

lemma iter_pools: "pools_ok single ctx \<Longrightarrow> pools_ok single (iter_config v ctx)"
  by (cases v) (auto simp: iter_config_def pools_ok_def new_pool_def Let_def simp del: lit_Cons split: option.splits)

lemma fold_pools: "pools_ok single ctx \<Longrightarrow> pools_ok single (fold iter_config vs ctx)"
  by (induction vs arbitrary: ctx) (auto simp: iter_pools)

lemma load_pools: "LoadConfig file (Context_new single) = Inr (ok, ctx) \<Longrightarrow> pools_ok single ctx"
proof -
  assume l: "LoadConfig file (Context_new single) = Inr (ok, ctx)"
  have new: "pools_ok single ((Context_new single)\<lparr>cx_config := c\<rparr>)" for c by (simp add: pools_ok_def Context_new_def)
  show "pools_ok single ctx"
    using l fold_pools [OF new] new by (auto simp: LoadConfig_def ReloadConfig_def split: sum.splits if_splits)
qed

text \<open>
  Closing a program that has run frees every thread pool once when it has several threads. With one
  thread the pool of the workers is also the pool of the logic, and it is freed twice.
\<close>

theorem close_frees_pools:
  assumes "LoadConfig file (Context_new single) = Inr (True, ctx)"
  shows "if single then Context_Close (Context_Run ctx) = Inl DoubleFree
    else \<exists>ctx'. Context_Close (Context_Run ctx) = Inr ctx' \<and> cx_pools ctx' = []"
  using load_pools [OF assms]
  by (auto simp: Context_Run_def Context_Close_def pools_ok_def new_pool_def use_pool_def free_pool_def Let_def split: option.splits)

theorem close_frees_pools_witness:
  "\<exists>ctx. LoadConfig (Some []) (Context_new True) = Inr (True, ctx) \<and> Context_Close (Context_Run ctx) = Inl DoubleFree"
proof -
  obtain ctx where c: "LoadConfig (Some []) (Context_new True) = Inr (True, ctx)"
    by (simp add: LoadConfig_def ReloadConfig_def Config_Load_def)
  from close_frees_pools [OF this] c show ?thesis by simp
qed

text \<open>
  The name of the database directory stays in its array: of a longer setting the first 255 bytes are
  taken, terminated in the last.
\<close>

theorem nodedb_dir_bounded:
  assumes "val \<noteq> []" "0 \<notin> set val"
  shows "\<exists>ctx'. iter_config (lit ''netdb'', lit ''dir'', val) ctx = ctx' \<and> length (cx_nodedb_dir ctx') = 256 \<and>
    nodedb_path ctx' = Some (take 255 val)"
proof -
  let ?d = "strncpy 256 val"
  have len: "length ?d = 256" by (simp add: strncpy_def)
  have first: "?d ! 0 = val ! 0" "val ! 0 \<noteq> 0" using assms by (cases val, auto simp: strncpy_def nth_append)+
  have "?d[255 := 0] = take 255 val @ 0 # replicate (255 - length val) 0"
  proof (cases "length val > 255")
    case True
    then have "?d = take 255 val @ [val ! 255]" using take_Suc_conv_app_nth [of 255 val] by (simp add: strncpy_def)
    with True show ?thesis by (simp add: list_update_append)
  next
    case False
    then have d: "?d = val @ 0 # replicate (255 - length val) 0" by (simp add: strncpy_def Suc_diff_le flip: replicate_Suc)
    with False len have "?d ! 255 = 0" by (simp add: nth_append flip: replicate_Suc)
    with len have "?d[255 := 0] = ?d" by (simp add: list_update_same_conv)
    with d False show ?thesis by simp
  qed
  moreover have "0 \<notin> set (take 255 val)" using assms(2) by (meson in_set_takeD)
  ultimately have "c_str (?d[255 := 0]) = take 255 val" by (simp only: c_str_def upto_char(1) simp_thms)
  with first len show ?thesis by (simp add: iter_config_def nodedb_path_def Let_def)
qed

theorem nodedb_dir_bounded_witness:
  "\<exists>ctx'. iter_config (lit ''netdb'', lit ''dir'', replicate 300 97) (Context_new True) = ctx' \<and> length (cx_nodedb_dir ctx') = 256 \<and>
    nodedb_path ctx' = Some (take 255 (replicate 300 97))"
  by (rule nodedb_dir_bounded) simp_all

end
