(* ===== verification/Rcutil.thy ===== *)
theory Rcutil
  imports Startup
begin

text \<open>
  The tool for contacts (\<open>daemon/rcutil.cpp\<close>) and the operations of the context on the database that it
  uses (\<open>LoadDatabase\<close> and the others of \<open>udap/context.cpp\<close>). What \<open>getopt_long\<close> returns is a list of
  options with their arguments; options in their short form have none, as the short options are declared without.
  The file system, the crypto library and uninitialised memory are parameters.
\<close>

section \<open>The database of the context\<close>

text \<open>\<open>dirs_ok\<close>: whether the directories are there or could be made (\<open>udap_nodedb_ensure_dir\<close>).\<close>

definition LoadDatabase :: "nodedb_env \<Rightarrow> (byte list \<Rightarrow> bool) \<Rightarrow> disk \<Rightarrow> Context \<Rightarrow> load_error + int \<times> udap_nodedb" where
  "LoadDatabase E dirs_ok d ctx =
     (case nodedb_path ctx of
        None \<Rightarrow> Inr (0, udap_nodedb_new)
      | Some dir \<Rightarrow>
          if \<not> dirs_ok dir then Inr (0, udap_nodedb_new)
          else (case udap_nodedb_load_dir E dir d udap_nodedb_new of
                  Inl e \<Rightarrow> Inl e
                | Inr (loaded, db) \<Rightarrow> Inr (if loaded < 0 then 0 else 1, db)))"

definition PutDatabase :: "nodedb_env \<Rightarrow> udap_rc \<Rightarrow> udap_nodedb \<Rightarrow> disk \<Rightarrow> (bool \<times> udap_nodedb \<times> disk) option" where
  "PutDatabase E rc db d = setRC E rc db d"

definition GetDatabase :: "byte list \<Rightarrow> udap_nodedb \<Rightarrow> udap_rc option" where
  "GetDatabase pk db = udap_nodedb_get_rc pk db"

section \<open>Options\<close>

record rcutil_options =
  ro_genMode :: bool
  ro_updMode :: bool
  ro_listMode :: bool
  ro_importMode :: bool
  ro_exportMode :: bool
  ro_conffname :: "byte list option"
  ro_rcfname :: "byte list option"
  ro_haveRequiredOptions :: bool

definition rcutil_options_new :: rcutil_options where
  "rcutil_options_new = \<lparr>ro_genMode = False, ro_updMode = False, ro_listMode = False, ro_importMode = False, ro_exportMode = False,
     ro_conffname = Some (lit ''daemon.ini''), ro_rcfname = Some (lit ''other.signed''), ro_haveRequiredOptions = False\<rparr>"

datatype rcutil_error = Aborted | ContextError context_error | LoadError load_error | InvalidHex | UndefinedBehaviour

definition parse_option :: "char \<times> byte list option \<Rightarrow> rcutil_options \<Rightarrow> rcutil_error + rcutil_options" where
  "parse_option opt q =
     (case opt of (c, optarg) \<Rightarrow>
        if c = CHR ''c'' then Inr (q\<lparr>ro_conffname := optarg\<rparr>)
        else if c = CHR ''l'' then Inr (q\<lparr>ro_haveRequiredOptions := True, ro_listMode := True\<rparr>)
        else if c = CHR ''i'' then Inr (q\<lparr>ro_rcfname := optarg, ro_haveRequiredOptions := True, ro_importMode := True\<rparr>)
        else if c = CHR ''e'' then Inr (q\<lparr>ro_rcfname := optarg, ro_haveRequiredOptions := True, ro_exportMode := True\<rparr>)
        else if c = CHR ''g'' then Inr (q\<lparr>ro_rcfname := optarg, ro_haveRequiredOptions := True, ro_genMode := True\<rparr>)
        else if c = CHR ''u'' then Inr (q\<lparr>ro_rcfname := optarg, ro_haveRequiredOptions := True, ro_updMode := True\<rparr>)
        else Inl Aborted)"

fun parse_options :: "(char \<times> byte list option) list \<Rightarrow> rcutil_options \<Rightarrow> rcutil_error + rcutil_options" where
  "parse_options [] q = Inr q"
| "parse_options (x # xs) q = (case parse_option x q of Inl e \<Rightarrow> Inl e | Inr q \<Rightarrow> parse_options xs q)"

section \<open>Modes\<close>

text \<open>
  What a run takes from its surroundings. \<open>ru_keymem\<close> is what the memory of a key holds before, \<open>ru_pkmem\<close>
  that of a public key.
\<close>

record rcutil_env =
  ru_env :: nodedb_env
  ru_sign :: signer
  ru_now :: u64
  ru_encryption_keygen :: "byte list"
  ru_identity_keygen :: "byte list"
  ru_readable :: "byte list \<Rightarrow> bool"
  ru_dirs_ok :: "byte list \<Rightarrow> bool"
  ru_keymem :: "byte list"
  ru_pkmem :: "byte list"

text \<open>The disk, what was printed, and the contact on the stack, which is not initialised at first\<close>

record rcutil_state =
  rs_disk :: disk
  rs_out :: "(nat \<times> byte list) list"
  rs_tmp :: "udap_rc option"

definition write_rc :: "rcutil_env \<Rightarrow> udap_rc \<Rightarrow> byte list \<Rightarrow> disk \<Rightarrow> disk option" where
  "write_rc R rc f d = do {
     (ok, file) \<leftarrow> udap_rc_write (ne_ntop (ru_env R)) (ne_stack (ru_env R)) (ne_writable (ru_env R) f) rc;
     Some (case file of Some bytes \<Rightarrow> d(f \<mapsto> bytes) | None \<Rightarrow> d)
   }"

definition read_rc :: "rcutil_env \<Rightarrow> byte list \<Rightarrow> disk \<Rightarrow> udap_rc option option" where
  "read_rc R f d = udap_rc_read (ne_pton (ru_env R)) (ne_ai (ru_env R)) (ne_stack (ru_env R)) (ne_rc (ru_env R))
     (if ru_readable R f then d f else None)"

text \<open>Whether a key could be read is not looked at.\<close>

definition generate :: "rcutil_env \<Rightarrow> byte list \<Rightarrow> rcutil_state \<Rightarrow> rcutil_state option" where
  "generate R rcfname s = do {
     let tmp = rc_zero\<lparr>rc_addrs := Some udap_ai_list_new, rc_exits := Some udap_xi_list_new, rc_last_updated := ru_now R\<rparr>;
     let (_, encryption, d) = udap_findOrCreateEncryption (ru_encryption_keygen R) (ne_writable (ru_env R)) (ru_readable R)
       (lit ''encryption.key'') (ru_keymem R) (rs_disk s);
     let tmp = udap_rc_set_pubenckey tmp (seckey_topublic encryption);
     let (_, identity, d) = udap_findOrCreateIdentity (ru_identity_keygen R) (ne_writable (ru_env R)) (ru_readable R)
       (lit ''identity.key'') (ru_keymem R) d;
     let tmp = udap_rc_set_pubsigkey tmp (seckey_topublic identity);
     tmp \<leftarrow> udap_rc_sign (ne_ntop (ru_env R)) (ru_sign R) (ne_stack (ru_env R)) identity tmp;
     d \<leftarrow> write_rc R tmp rcfname d;
     Some (s\<lparr>rs_disk := d, rs_tmp := Some (udap_rc_free tmp)\<rparr>)
   }"

text \<open>
  The contact that was read must be there; it is signed anew, and then the one on the stack is written,
  which must be initialised.
\<close>

definition update_mode :: "rcutil_env \<Rightarrow> byte list \<Rightarrow> rcutil_state \<Rightarrow> rcutil_state option" where
  "update_mode R rcfname s = do {
     rc \<leftarrow> read_rc R rcfname (rs_disk s);
     rc \<leftarrow> rc;
     let rc = rc\<lparr>rc_last_updated := ru_now R\<rparr>;
     let (_, identity, d) = udap_findOrCreateIdentity (ru_identity_keygen R) (ne_writable (ru_env R)) (ru_readable R)
       (lit ''identity.key'') (ru_keymem R) (rs_disk s);
     let rc = udap_rc_set_pubsigkey rc (seckey_topublic identity);
     rc \<leftarrow> udap_rc_sign (ne_ntop (ru_env R)) (ru_sign R) (ne_stack (ru_env R)) identity rc;
     tmp \<leftarrow> rs_tmp s;
     d \<leftarrow> write_rc R tmp (lit ''update_debug.rc'') d;
     Some (s\<lparr>rs_disk := d\<rparr>)
   }"

definition printNode :: "nat \<Rightarrow> udap_rc \<Rightarrow> (nat \<times> byte list) list \<Rightarrow> (nat \<times> byte list) list" where
  "printNode index rc out = out @ [(index, HexEncode (rc_pubkey rc))]"

definition list_mode :: "rcutil_env \<Rightarrow> Context \<Rightarrow> rcutil_state \<Rightarrow> rcutil_error + rcutil_state" where
  "list_mode R ctx s =
     (case LoadDatabase (ru_env R) (ru_dirs_ok R) (rs_disk s) ctx of
        Inl e \<Rightarrow> Inl (LoadError e)
      | Inr (_, db) \<Rightarrow> Inr (s\<lparr>rs_out := snd (udap_nodedb_iterate_all printNode db (rs_out s))\<rparr>))"

text \<open>The result also says whether the program goes on.\<close>

definition import_mode :: "rcutil_env \<Rightarrow> Context \<Rightarrow> byte list \<Rightarrow> rcutil_state \<Rightarrow> rcutil_error + bool \<times> rcutil_state" where
  "import_mode R ctx rcfname s =
     (case LoadDatabase (ru_env R) (ru_dirs_ok R) (rs_disk s) ctx of
        Inl e \<Rightarrow> Inl (LoadError e)
      | Inr (_, db) \<Rightarrow>
          (case read_rc R rcfname (rs_disk s) of
             None \<Rightarrow> Inl UndefinedBehaviour
           | Some None \<Rightarrow> Inr (False, s)
           | Some (Some rc) \<Rightarrow>
               (case PutDatabase (ru_env R) rc db (rs_disk s) of
                  None \<Rightarrow> Inl UndefinedBehaviour
                | Some (_, _, d) \<Rightarrow> Inr (True, s\<lparr>rs_disk := d\<rparr>))))"

text \<open>The digits are decoded into the 32 bytes of a key; a contact that is not found is the null pointer.\<close>

definition export_mode :: "rcutil_env \<Rightarrow> Context \<Rightarrow> byte list \<Rightarrow> rcutil_state \<Rightarrow> rcutil_error + rcutil_state" where
  "export_mode R ctx rcfname s =
     (case LoadDatabase (ru_env R) (ru_dirs_ok R) (rs_disk s) ctx of
        Inl e \<Rightarrow> Inl (LoadError e)
      | Inr (_, db) \<Rightarrow>
          (case HexDecode rcfname of
             None \<Rightarrow> Inl InvalidHex
           | Some pk \<Rightarrow>
               (case do {
                  binaryPK \<leftarrow> mem_store (ru_pkmem R) 0 pk;
                  rc \<leftarrow> GetDatabase binaryPK db;
                  write_rc R rc (rcfname @ lit ''.signed'') (rs_disk s)
                } of
                  None \<Rightarrow> Inl UndefinedBehaviour
                | Some d \<Rightarrow> Inr (s\<lparr>rs_disk := d\<rparr>))))"

section \<open>The program\<close>

definition defined :: "'a option \<Rightarrow> rcutil_error + 'a" where
  "defined x = (case x of None \<Rightarrow> Inl UndefinedBehaviour | Some y \<Rightarrow> Inr y)"

text \<open>A null pointer as the name of the contact is followed in every mode that uses it.\<close>

definition rcutil_modes :: "rcutil_env \<Rightarrow> rcutil_options \<Rightarrow> Context \<Rightarrow> rcutil_state \<Rightarrow> rcutil_error + int \<times> rcutil_state" where
  "rcutil_modes R q ctx s =
     (case (if ro_genMode q then defined (do { f \<leftarrow> ro_rcfname q; generate R f s }) else Inr s) of
        Inl e \<Rightarrow> Inl e
      | Inr s \<Rightarrow>
      (case (if ro_updMode q then defined (do { f \<leftarrow> ro_rcfname q; update_mode R f s }) else Inr s) of
        Inl e \<Rightarrow> Inl e
      | Inr s \<Rightarrow>
      (case (if ro_listMode q then list_mode R ctx s else Inr s) of
        Inl e \<Rightarrow> Inl e
      | Inr s \<Rightarrow>
      (case (if ro_importMode q then (case ro_rcfname q of None \<Rightarrow> Inl UndefinedBehaviour | Some f \<Rightarrow> import_mode R ctx f s)
             else Inr (True, s)) of
        Inl e \<Rightarrow> Inl e
      | Inr (go_on, s) \<Rightarrow>
          if \<not> go_on then Inr (0, s)
          else (case (if ro_exportMode q then (case ro_rcfname q of None \<Rightarrow> Inl UndefinedBehaviour | Some f \<Rightarrow> export_mode R ctx f s)
                      else Inr s) of
                  Inl e \<Rightarrow> Inl e
                | Inr s \<Rightarrow> Inr (1, s))))))"

definition rcutil_main :: "rcutil_env \<Rightarrow> (char \<times> byte list option) list \<Rightarrow> disk \<Rightarrow> rcutil_error + int \<times> rcutil_state" where
  "rcutil_main R opts d =
     (let s = \<lparr>rs_disk = d, rs_out = [], rs_tmp = None\<rparr>
      in if opts = [] then Inr (0, s)
         else (case parse_options opts rcutil_options_new of
                 Inl e \<Rightarrow> Inl e
               | Inr q \<Rightarrow>
                   if \<not> ro_haveRequiredOptions q then Inr (0, s)
                   else (let conf = (case ro_conffname q of Some f \<Rightarrow> f | None \<Rightarrow> lit ''daemon.ini'')
                         in case udap_main_init (if ru_readable R conf then d conf else None) True of
                              Inl e \<Rightarrow> Inl (ContextError e)
                            | Inr None \<Rightarrow> Inr (0, s)
                            | Inr (Some ctx) \<Rightarrow> rcutil_modes R q ctx s)))"

section \<open>Lemmas\<close>

text \<open>A key file that is there or can be made, and the key in it\<close>

definition key_file :: "rcutil_env \<Rightarrow> disk \<Rightarrow> byte list \<Rightarrow> byte list \<Rightarrow> byte list \<Rightarrow> bool" where
  "key_file R d f fresh k \<longleftrightarrow> length k = SECKEYSIZE \<and> ru_readable R f \<and>
     (case d f of Some c \<Rightarrow> c = k | None \<Rightarrow> fresh = k \<and> ne_writable (ru_env R) f)"

lemma key_found:
  assumes "key_file R d f fresh k" "length mem = SECKEYSIZE"
  shows "find_or_create fresh (ne_writable (ru_env R)) (ru_readable R) f mem d = (True, k, d(f \<mapsto> k))"
  using assms by (auto simp: key_file_def create_then_find find_again map_upd_triv split: option.splits)

text \<open>The contact before it is signed\<close>

definition blank_rc :: "rcutil_env \<Rightarrow> byte list \<Rightarrow> byte list \<Rightarrow> udap_rc" where
  "blank_rc R ek ik = \<lparr>rc_addrs = Some [], rc_enckey = seckey_topublic ek, rc_pubkey = seckey_topublic ik, rc_exits = Some [],
     rc_signature = replicate SIGSIZE 0, rc_last_updated = ru_now R\<rparr>"

lemma blank_valid:
  assumes "length ek = SECKEYSIZE" "length ik = SECKEYSIZE" "ru_now R \<noteq> -1" "length sig = SIGSIZE"
  shows "rc_valid uninit ((blank_rc R ek ik)\<lparr>rc_signature := sig\<rparr>)" "length (rc_bytes ntop ((blank_rc R ek ik)\<lparr>rc_signature := sig\<rparr>)) < MAX_RC_SIZE"
proof -
  show "rc_valid uninit ((blank_rc R ek ik)\<lparr>rc_signature := sig\<rparr>)"
    using assms by (simp add: rc_valid_def blank_rc_def seckey_topublic_def size_defs)
  show "length (rc_bytes ntop ((blank_rc R ek ik)\<lparr>rc_signature := sig\<rparr>)) < MAX_RC_SIZE"
    using assms length_bint [of "ru_now R"] length_bint [of 0]
    by (simp add: rc_bytes_def blank_rc_def seckey_topublic_def size_defs bstr_def MAX_RC_SIZE_def dec_nat.simps ai_list_bytes_def xi_list_bytes_def)
qed

lemma generated:
  assumes S: "inet_ok (ne_ntop (ru_env R)) (ne_pton (ru_env R))" "length (ne_stack (ru_env R)) = MAX_RC_SIZE" "length (ru_keymem R) = SECKEYSIZE"
      "ru_now R \<noteq> -1" "signs (ru_sign R) (ne_verify (ru_env R)) ik (seckey_topublic ik)"
    and keys: "key_file R (rs_disk s) (lit ''encryption.key'') (ru_encryption_keygen R) ek"
      "key_file R (rs_disk s) (lit ''identity.key'') (ru_identity_keygen R) ik"
    and f: "ne_writable (ru_env R) f"
  obtains sig where "rc_valid (ne_ai (ru_env R)) ((blank_rc R ek ik)\<lparr>rc_signature := sig\<rparr>)"
    "length (rc_bytes (ne_ntop (ru_env R)) ((blank_rc R ek ik)\<lparr>rc_signature := sig\<rparr>)) < MAX_RC_SIZE"
    "udap_rc_verify_sig (ne_ntop (ru_env R)) (ne_verify (ru_env R)) (ne_stack (ru_env R)) ((blank_rc R ek ik)\<lparr>rc_signature := sig\<rparr>) =
      Some (True, (blank_rc R ek ik)\<lparr>rc_signature := sig\<rparr>)"
    "generate R f s = Some (s\<lparr>rs_disk := (rs_disk s)(lit ''encryption.key'' \<mapsto> ek, lit ''identity.key'' \<mapsto> ik,
        f \<mapsto> rc_bytes (ne_ntop (ru_env R)) ((blank_rc R ek ik)\<lparr>rc_signature := sig\<rparr>)),
      rs_tmp := Some (udap_rc_free ((blank_rc R ek ik)\<lparr>rc_signature := sig\<rparr>))\<rparr>)"
proof -
  let ?b = "blank_rc R ek ik"
  have len: "length ek = SECKEYSIZE" "length ik = SECKEYSIZE" using keys by (simp_all add: key_file_def)
  have b: "?b\<lparr>rc_signature := replicate SIGSIZE 0\<rparr> = ?b" by (simp add: blank_rc_def)
  have v: "rc_valid (ne_ai (ru_env R)) ?b" "length (rc_bytes (ne_ntop (ru_env R)) ?b) < MAX_RC_SIZE"
    using blank_valid [OF len S(4), of "replicate SIGSIZE 0"] by (simp_all add: b)
  have "signs (ru_sign R) (ne_verify (ru_env R)) ik (rc_pubkey ?b)" using S(5) by (simp add: blank_rc_def)
  from signed_verifies [OF S(1) v(1) this v(2) S(2,2)] obtain sig where
    sig: "udap_rc_sign (ne_ntop (ru_env R)) (ru_sign R) (ne_stack (ru_env R)) ik ?b = Some (?b\<lparr>rc_signature := sig\<rparr>)"
      "rc_valid (ne_ai (ru_env R)) (?b\<lparr>rc_signature := sig\<rparr>)"
      "udap_rc_verify_sig (ne_ntop (ru_env R)) (ne_verify (ru_env R)) (ne_stack (ru_env R)) (?b\<lparr>rc_signature := sig\<rparr>) = Some (True, ?b\<lparr>rc_signature := sig\<rparr>)" .
  let ?rc = "?b\<lparr>rc_signature := sig\<rparr>"
  have fits: "length (rc_bytes (ne_ntop (ru_env R)) ?rc) < MAX_RC_SIZE"
    using blank_valid(2) [OF len S(4)] sig(2) by (simp add: rc_valid_def)
  obtain buf where "udap_rc_bencode (ne_ntop (ru_env R)) ?rc (StackBuffer (ne_stack (ru_env R))) = Some (True, buf)"
    "encoded buf = rc_bytes (ne_ntop (ru_env R)) ?rc"
    using emits_stack [OF emits_rc [OF S(1) sig(2)]] fits S(2) by metis
  then have w: "write_rc R ?rc f d = Some (d(f \<mapsto> rc_bytes (ne_ntop (ru_env R)) ?rc))" for d
    using f by (simp add: write_rc_def udap_rc_write_def)
  have e: "find_or_create (ru_encryption_keygen R) (ne_writable (ru_env R)) (ru_readable R) (lit ''encryption.key'') (ru_keymem R) (rs_disk s) =
      (True, ek, (rs_disk s)(lit ''encryption.key'' \<mapsto> ek))" by (rule key_found [OF keys(1) S(3)])
  have "lit ''identity.key'' \<noteq> lit ''encryption.key''" by simp
  then have "key_file R ((rs_disk s)(lit ''encryption.key'' \<mapsto> ek)) (lit ''identity.key'') (ru_identity_keygen R) ik"
    using keys(2) unfolding key_file_def by (simp del: lit_Cons)
  note i = key_found [OF this S(3)]
  have set: "udap_rc_set_pubsigkey (udap_rc_set_pubenckey (rc_zero\<lparr>rc_addrs := Some udap_ai_list_new, rc_exits := Some udap_xi_list_new,
      rc_last_updated := ru_now R\<rparr>) (seckey_topublic ek)) (seckey_topublic ik) = ?b"
    by (simp add: udap_rc_set_pubsigkey_def udap_rc_set_pubenckey_def rc_zero_def blank_rc_def udap_ai_list_new_def udap_xi_list_new_def)
  have "generate R f s = Some (s\<lparr>rs_disk := (rs_disk s)(lit ''encryption.key'' \<mapsto> ek, lit ''identity.key'' \<mapsto> ik,
        f \<mapsto> rc_bytes (ne_ntop (ru_env R)) ?rc), rs_tmp := Some (udap_rc_free ?rc)\<rparr>)"
    unfolding generate_def udap_findOrCreateEncryption_def udap_findOrCreateIdentity_def e i
    by (simp add: e i set sig(1) w del: lit_Cons)
  with that [OF sig(2) fits sig(3)] show thesis by blast
qed

lemma database_of:
  assumes "nodedb_path ctx = Some dir" "ru_dirs_ok R dir" "dirs_listed (ru_env R) dir"
    and "\<forall>f \<in> set (listed (ru_env R) dir skiplist_subdirs). file_contact (ru_env R) d f \<noteq> None"
  shows "\<exists>db. LoadDatabase (ru_env R) (ru_dirs_ok R) d ctx = Inr (1, db) \<and> nd_nodePath db = dir \<and>
    (\<forall>pk. udap_nodedb_get_rc pk db = map_of (rev (contacts (ru_env R) d (listed (ru_env R) dir skiplist_subdirs))) pk)"
  by (rule load_dir_contacts [OF assms(3,4)]) (use assms(1,2) in \<open>simp add: LoadDatabase_def\<close>)

text \<open>Where the database of a directory keeps a contact\<close>

definition rc_path :: "byte list \<Rightarrow> byte list \<Rightarrow> byte list" where
  "rc_path dir pk = getRCFilePath pk (udap_nodedb_new\<lparr>nd_nodePath := dir\<rparr>)"

lemma rc_path_eq: "nd_nodePath db = dir \<Longrightarrow> getRCFilePath pk db = rc_path dir pk"
  by (simp add: rc_path_def getRCFilePath_def)

lemma imported:
  assumes E: "inet_ok (ne_ntop (ru_env R)) (ne_pton (ru_env R))" "length (ne_stack (ru_env R)) = MAX_RC_SIZE"
    and rc: "rc_valid (ne_ai (ru_env R)) rc" "length (rc_bytes (ne_ntop (ru_env R)) rc) < MAX_RC_SIZE"
    and db: "LoadDatabase (ru_env R) (ru_dirs_ok R) (rs_disk s) ctx = Inr (1, db)" "nd_nodePath db = dir"
    and f: "ru_readable R f" "rs_disk s f = Some (rc_bytes (ne_ntop (ru_env R)) rc)" "ne_writable (ru_env R) (rc_path dir (rc_pubkey rc))"
  shows "import_mode R ctx f s = Inr (True, s\<lparr>rs_disk := (rs_disk s)(rc_path dir (rc_pubkey rc) \<mapsto> rc_bytes (ne_ntop (ru_env R)) rc)\<rparr>)"
proof -
  have "read_rc R f (rs_disk s) = Some (Some rc)" using f(1,2) rc_file_read [OF E(1) rc E(2)] by (simp add: read_rc_def)
  moreover have "ne_writable (ru_env R) (getRCFilePath (rc_pubkey rc) db)" using f(3) by (simp add: rc_path_eq [OF db(2)])
  from setRC_stores [OF E(1) rc E(2) this] have "PutDatabase (ru_env R) rc db (rs_disk s) =
      Some (True, db\<lparr>nd_entries := AList.update (rc_pubkey rc) rc (nd_entries db)\<rparr>, (rs_disk s)(rc_path dir (rc_pubkey rc) \<mapsto> rc_bytes (ne_ntop (ru_env R)) rc))"
    by (simp add: PutDatabase_def rc_path_eq [OF db(2)])
  ultimately show ?thesis using db(1) by (simp add: import_mode_def)
qed

lemma exported:
  assumes E: "inet_ok (ne_ntop (ru_env R)) (ne_pton (ru_env R))" "length (ne_stack (ru_env R)) = MAX_RC_SIZE" "length (ru_pkmem R) = PUBKEYSIZE"
    and rc: "rc_valid (ne_ai (ru_env R)) rc" "length (rc_bytes (ne_ntop (ru_env R)) rc) < MAX_RC_SIZE"
    and db: "LoadDatabase (ru_env R) (ru_dirs_ok R) (rs_disk s) ctx = Inr (1, db)" "udap_nodedb_get_rc (rc_pubkey rc) db = Some rc"
    and f: "ne_writable (ru_env R) (HexEncode (rc_pubkey rc) @ lit ''.signed'')"
  shows "export_mode R ctx (HexEncode (rc_pubkey rc)) s =
    Inr (s\<lparr>rs_disk := (rs_disk s)(HexEncode (rc_pubkey rc) @ lit ''.signed'' \<mapsto> rc_bytes (ne_ntop (ru_env R)) rc)\<rparr>)"
proof -
  have "mem_store (ru_pkmem R) 0 (rc_pubkey rc) = Some (rc_pubkey rc)"
    using E(3) rc(1) by (simp add: mem_store_def rc_valid_def)
  moreover obtain buf where "udap_rc_bencode (ne_ntop (ru_env R)) rc (StackBuffer (ne_stack (ru_env R))) = Some (True, buf)"
    "encoded buf = rc_bytes (ne_ntop (ru_env R)) rc"
    using emits_stack [OF emits_rc [OF E(1) rc(1)]] rc(2) E(2) by metis
  ultimately show ?thesis
    using db f by (simp add: export_mode_def HexDecode_HexEncode GetDatabase_def write_rc_def udap_rc_write_def del: lit_Cons)
qed

text \<open>The configuration can be loaded.\<close>

definition configured :: "rcutil_env \<Rightarrow> disk \<Rightarrow> Context \<Rightarrow> bool" where
  "configured R d ctx \<longleftrightarrow> udap_main_init (if ru_readable R (lit ''daemon.ini'') then d (lit ''daemon.ini'') else None) True = Inr (Some ctx)"

lemma configured_cong:
  "configured R d ctx \<Longrightarrow> d' (lit ''daemon.ini'') = d (lit ''daemon.ini'') \<Longrightarrow> ru_readable R' = ru_readable R \<Longrightarrow> configured R' d' ctx"
  by (cases "ru_readable R (lit ''daemon.ini'')") (simp_all add: configured_def del: lit_Cons)

lemma path_not_config: "rc_path dir pk \<noteq> lit ''daemon.ini''"
proof
  assume "rc_path dir pk = lit ''daemon.ini''"
  then have "last (rc_path dir pk) = last (lit ''daemon.ini'')" by simp
  then show False by (simp add: rc_path_def getRCFilePath_def Let_def)
qed

text \<open>A run with one option that has an argument\<close>

definition one_option :: "char \<Rightarrow> byte list \<Rightarrow> rcutil_options" where
  "one_option c f = rcutil_options_new\<lparr>ro_genMode := c = CHR ''g'', ro_updMode := c = CHR ''u'', ro_importMode := c = CHR ''i'',
     ro_exportMode := c = CHR ''e'', ro_rcfname := Some f, ro_haveRequiredOptions := True\<rparr>"

lemma main_one_option:
  assumes "c \<in> {CHR ''g'', CHR ''u'', CHR ''i'', CHR ''e''}"
    "configured R d ctx"
  shows "rcutil_main R [(c, Some f)] d = rcutil_modes R (one_option c f) ctx \<lparr>rs_disk = d, rs_out = [], rs_tmp = None\<rparr>"
  using assms by (auto simp: configured_def rcutil_main_def parse_option_def one_option_def rcutil_options_new_def Let_def simp del: lit_Cons)

lemma modes_one_option:
  "rcutil_modes R (one_option CHR ''g'' f) ctx s = (case generate R f s of None \<Rightarrow> Inl UndefinedBehaviour | Some s \<Rightarrow> Inr (1, s))"
  "rcutil_modes R (one_option CHR ''u'' f) ctx s = (case update_mode R f s of None \<Rightarrow> Inl UndefinedBehaviour | Some s \<Rightarrow> Inr (1, s))"
  "rcutil_modes R (one_option CHR ''i'' f) ctx s = (case import_mode R ctx f s of Inl e \<Rightarrow> Inl e | Inr (b, s) \<Rightarrow> Inr (if b then 1 else 0, s))"
  "rcutil_modes R (one_option CHR ''e'' f) ctx s = (case export_mode R ctx f s of Inl e \<Rightarrow> Inl e | Inr s \<Rightarrow> Inr (1, s))"
  by (auto simp: rcutil_modes_def one_option_def rcutil_options_new_def defined_def split: option.splits sum.splits)

section \<open>Theorems\<close>

text \<open>
  C26. A contact that was generated can be passed on: the tool makes the keys if there are none and writes a
  contact with them; importing the file puts the contact into the database; and exporting it from the
  database, in a later run that finds the new file, gives the same bytes again, those of a contact whose signature is good.
\<close>

theorem contact_published:
  fixes R :: rcutil_env
  defines "E \<equiv> ru_env R"
  assumes S: "inet_ok (ne_ntop E) (ne_pton E)" "length (ne_stack E) = MAX_RC_SIZE" "length (ru_keymem R) = SECKEYSIZE"
      "ru_now R \<noteq> -1" "signs (ru_sign R) (ne_verify E) ik pk" "length (ru_pkmem R) = PUBKEYSIZE" "pk = seckey_topublic ik"
    and keys: "key_file R d (lit ''encryption.key'') (ru_encryption_keygen R) ek"
      "key_file R d (lit ''identity.key'') (ru_identity_keygen R) ik"
    and f: "ru_readable R f" "f \<noteq> lit ''daemon.ini''"
      "list_all (ne_writable E) [f, rc_path dir pk, HexEncode pk @ lit ''.signed'']"
    and conf: "configured R d ctx"
      "nodedb_path ctx = Some dir" "ru_dirs_ok R dir"
    and dirs: "dirs_listed E dir" "listed E dir skiplist_subdirs = []"
      "dirs_listed (E\<lparr>ne_ls := ls\<rparr>) dir" "listed (E\<lparr>ne_ls := ls\<rparr>) dir skiplist_subdirs = [rc_path dir pk]"
  shows "\<exists>rc s1 s2 s3. rcutil_main R [(CHR ''g'', Some f)] d = Inr (1, s1) \<and>
    rcutil_main R [(CHR ''i'', Some f)] (rs_disk s1) = Inr (1, s2) \<and>
    rcutil_main (R\<lparr>ru_env := E\<lparr>ne_ls := ls\<rparr>\<rparr>) [(CHR ''e'', Some (HexEncode pk))] (rs_disk s2) = Inr (1, s3) \<and>
    rs_disk s3 (HexEncode pk @ lit ''.signed'') = rs_disk s1 f \<and> rs_disk s1 f = Some (rc_bytes (ne_ntop E) rc) \<and> rc_pubkey rc = pk \<and>
    udap_rc_verify_sig (ne_ntop E) (ne_verify E) (ne_stack E) rc = Some (True, rc)"
proof -
  let ?s = "\<lambda>d. \<lparr>rs_disk = d, rs_out = [], rs_tmp = None\<rparr>" and ?R = "R\<lparr>ru_env := E\<lparr>ne_ls := ls\<rparr>\<rparr>"
  from generated [of R ik "?s d" ek f] S keys f(3) obtain sig where
    g: "rc_valid (ne_ai E) ((blank_rc R ek ik)\<lparr>rc_signature := sig\<rparr>)"
      "length (rc_bytes (ne_ntop E) ((blank_rc R ek ik)\<lparr>rc_signature := sig\<rparr>)) < MAX_RC_SIZE"
      "udap_rc_verify_sig (ne_ntop E) (ne_verify E) (ne_stack E) ((blank_rc R ek ik)\<lparr>rc_signature := sig\<rparr>) = Some (True, (blank_rc R ek ik)\<lparr>rc_signature := sig\<rparr>)"
      "generate R f (?s d) = Some (?s d\<lparr>rs_disk := d(lit ''encryption.key'' \<mapsto> ek, lit ''identity.key'' \<mapsto> ik,
          f \<mapsto> rc_bytes (ne_ntop E) ((blank_rc R ek ik)\<lparr>rc_signature := sig\<rparr>)), rs_tmp := Some (udap_rc_free ((blank_rc R ek ik)\<lparr>rc_signature := sig\<rparr>))\<rparr>)"
    by (auto simp: E_def simp del: lit_Cons)
  define rc where "rc = (blank_rc R ek ik)\<lparr>rc_signature := sig\<rparr>"
  note g = g [folded rc_def]
  have pk: "rc_pubkey rc = pk" by (simp add: rc_def blank_rc_def S(7))
  let ?b = "rc_bytes (ne_ntop E) rc"
  let ?d1 = "d(lit ''encryption.key'' \<mapsto> ek, lit ''identity.key'' \<mapsto> ik, f \<mapsto> ?b)" and ?d2 = "d(lit ''encryption.key'' \<mapsto> ek, lit ''identity.key'' \<mapsto> ik, f \<mapsto> ?b, rc_path dir pk \<mapsto> ?b)"
  have "lit ''daemon.ini'' \<noteq> lit ''encryption.key''" "lit ''daemon.ini'' \<noteq> lit ''identity.key''" by simp_all
  then have "?d1 (lit ''daemon.ini'') = d (lit ''daemon.ini'')" "?d2 (lit ''daemon.ini'') = d (lit ''daemon.ini'')"
    using f(2) path_not_config [of dir pk] by (simp_all del: lit_Cons)
  then have conf1: "configured R ?d1 ctx" and conf2: "configured ?R ?d2 ctx"
    by (auto intro!: configured_cong [OF conf(1)] simp del: lit_Cons)
  have m1: "rcutil_main R [(CHR ''g'', Some f)] d = Inr (1, ?s ?d1\<lparr>rs_tmp := Some (udap_rc_free rc)\<rparr>)"
    using main_one_option [OF _ conf(1), of "CHR ''g''" f] g(4) by (simp add: modes_one_option del: lit_Cons)
  obtain db1 where db1: "LoadDatabase E (ru_dirs_ok R) ?d1 ctx = Inr (1, db1)" "nd_nodePath db1 = dir"
    using database_of [OF conf(2,3), of ?d1] dirs(1,2) by (auto simp: E_def simp del: lit_Cons)
  have "import_mode R ctx f (?s ?d1) = Inr (True, ?s ?d2)"
    using imported [of R rc "?s ?d1" ctx db1 dir f] S(1,2) g(1,2) db1 f(1,3) pk by (simp add: E_def del: lit_Cons)
  then have m2: "rcutil_main R [(CHR ''i'', Some f)] ?d1 = Inr (1, ?s ?d2)"
    using main_one_option [OF _ conf1, of "CHR ''i''" f] by (simp add: modes_one_option del: lit_Cons)
  have fc: "file_contact (E\<lparr>ne_ls := ls\<rparr>) ?d2 (rc_path dir pk) = Some (Some rc)"
    using rc_file_read [OF S(1) g(1,2) S(2)] g(3) by (simp add: file_contact_def)
  obtain db2 where db2: "LoadDatabase (E\<lparr>ne_ls := ls\<rparr>) (ru_dirs_ok R) ?d2 ctx = Inr (1, db2)" "udap_nodedb_get_rc pk db2 = Some rc"
    using database_of [of ctx dir ?R ?d2] conf(2,3) dirs(3,4) fc pk by (auto simp: contacts_Cons simp del: lit_Cons)
  let ?d3 = "?d2(HexEncode pk @ lit ''.signed'' \<mapsto> ?b)"
  have "export_mode ?R ctx (HexEncode pk) (?s ?d2) = Inr (?s ?d3)"
    using exported [of ?R rc "?s ?d2" ctx db2] S(1,2,6) g(1,2) db2 f(3) pk by (simp del: lit_Cons)
  then have m3: "rcutil_main ?R [(CHR ''e'', Some (HexEncode pk))] ?d2 = Inr (1, ?s ?d3)"
    using main_one_option [OF _ conf2, of "CHR ''e''" "HexEncode pk"] by (simp add: modes_one_option del: lit_Cons)
  have eq: "rs_disk (?s ?d3) (HexEncode pk @ lit ''.signed'') = rs_disk (?s ?d1\<lparr>rs_tmp := Some (udap_rc_free rc)\<rparr>) f"
    "rs_disk (?s ?d1\<lparr>rs_tmp := Some (udap_rc_free rc)\<rparr>) f = Some ?b" by simp_all
  have m2': "rcutil_main R [(CHR ''i'', Some f)] (rs_disk (?s ?d1\<lparr>rs_tmp := Some (udap_rc_free rc)\<rparr>)) = Inr (1, ?s ?d2)" using m2 by (simp del: lit_Cons)
  have m3': "rcutil_main ?R [(CHR ''e'', Some (HexEncode pk))] (rs_disk (?s ?d2)) = Inr (1, ?s ?d3)" using m3 by (simp del: lit_Cons)
  from m1 m2' m3' eq pk g(3) show ?thesis by blast
qed

definition example_rcutil :: rcutil_env where
  "example_rcutil = \<lparr>ru_env = example_nodedb_env\<lparr>ne_ls := (\<lambda>_. Some [])\<rparr>, ru_sign = (\<lambda>_ _. replicate 64 5), ru_now = 1530000000000,
     ru_encryption_keygen = replicate 64 2, ru_identity_keygen = replicate 64 1, ru_readable = (\<lambda>_. True), ru_dirs_ok = (\<lambda>_. True),
     ru_keymem = replicate 64 0, ru_pkmem = replicate 32 0\<rparr>"

definition example_config :: "byte list" where
  "example_config = lit ''[netdb]'' @ [10] @ lit ''dir=db'' @ [10]"

definition example_ls :: "byte list \<Rightarrow> (byte list \<times> bool) list option" where
  "example_ls p = Some (if last p = 49 then [(HexEncode (replicate 32 1) @ lit ''.signed'', True)] else [])"

lemma example_context:
  "case udap_main_init (Some example_config) True of Inr (Some ctx) \<Rightarrow> nodedb_path ctx = Some (lit ''db'') | _ \<Rightarrow> False"
  by code_simp

theorem contact_published_witness:
  "\<exists>rc s1 s2 s3. rcutil_main example_rcutil [(CHR ''g'', Some (lit ''a.signed''))] [lit ''daemon.ini'' \<mapsto> example_config] = Inr (1, s1) \<and>
    rcutil_main example_rcutil [(CHR ''i'', Some (lit ''a.signed''))] (rs_disk s1) = Inr (1, s2) \<and>
    rcutil_main (example_rcutil\<lparr>ru_env := example_nodedb_env\<lparr>ne_ls := example_ls\<rparr>\<rparr>) [(CHR ''e'', Some (HexEncode (replicate 32 1)))] (rs_disk s2) =
      Inr (1, s3) \<and>
    rs_disk s3 (HexEncode (replicate 32 1) @ lit ''.signed'') = rs_disk s1 (lit ''a.signed'') \<and>
    rs_disk s1 (lit ''a.signed'') = Some (rc_bytes hex_ntop rc) \<and> rc_pubkey rc = replicate 32 1"
proof -
  obtain ctx where ctx: "configured example_rcutil [lit ''daemon.ini'' \<mapsto> example_config] ctx" "nodedb_path ctx = Some (lit ''db'')"
    using example_context by (auto simp: configured_def example_rcutil_def simp del: lit_Cons split: sum.splits option.splits)
  have pk: "seckey_topublic (replicate 64 1) = replicate 32 1" by (simp add: seckey_topublic_def)
  have keys: "key_file example_rcutil [lit ''daemon.ini'' \<mapsto> example_config] (lit ''encryption.key'') (ru_encryption_keygen example_rcutil) (replicate 64 2)"
    "key_file example_rcutil [lit ''daemon.ini'' \<mapsto> example_config] (lit ''identity.key'') (ru_identity_keygen example_rcutil) (replicate 64 1)"
    by (simp_all add: key_file_def example_rcutil_def example_nodedb_env_def size_defs)
  have path: "rc_path (lit ''db'') (replicate 32 1) = lit ''db/1/'' @ HexEncode (replicate 32 1) @ lit ''.signed''" by code_simp
  have dirs: "dirs_listed (ru_env example_rcutil) (lit ''db'')" "listed (ru_env example_rcutil) (lit ''db'') skiplist_subdirs = []"
    by (simp_all add: dirs_listed_def listed_def example_rcutil_def skiplist_subdirs_def files_in_def)
  have ls: "dirs_listed ((ru_env example_rcutil)\<lparr>ne_ls := example_ls\<rparr>) (lit ''db'')"
    "listed ((ru_env example_rcutil)\<lparr>ne_ls := example_ls\<rparr>) (lit ''db'') skiplist_subdirs = [rc_path (lit ''db'') (replicate 32 1)]"
    unfolding path by (simp_all add: dirs_listed_def listed_def example_ls_def skiplist_subdirs_def files_in_def)
  have other: "inet_ok (ne_ntop (ru_env example_rcutil)) (ne_pton (ru_env example_rcutil))" "length (ne_stack (ru_env example_rcutil)) = MAX_RC_SIZE"
    "length (ru_keymem example_rcutil) = SECKEYSIZE" "ru_now example_rcutil \<noteq> -1" "length (ru_pkmem example_rcutil) = PUBKEYSIZE"
    "signs (ru_sign example_rcutil) (ne_verify (ru_env example_rcutil)) (replicate 64 1) (replicate 32 1)"
    "ru_readable example_rcutil (lit ''a.signed'')" "lit ''a.signed'' \<noteq> lit ''daemon.ini''" "ru_dirs_ok example_rcutil (lit ''db'')"
    "list_all (ne_writable (ru_env example_rcutil)) [lit ''a.signed'', rc_path (lit ''db'') (replicate 32 1), HexEncode (replicate 32 1) @ lit ''.signed'']"
    by (simp_all add: example_rcutil_def example_nodedb_env_def size_defs MAX_RC_SIZE_def inet_ok_hex signs_def)
  have "(ru_env example_rcutil)\<lparr>ne_ls := example_ls\<rparr> = example_nodedb_env\<lparr>ne_ls := example_ls\<rparr>" "ne_ntop (ru_env example_rcutil) = hex_ntop"
    by (simp_all add: example_rcutil_def example_nodedb_env_def)
  with contact_published [OF other(1-4,6,5) pk [symmetric] keys other(7,8,10) ctx(1,2) other(9) dirs ls] show ?thesis by (simp del: lit_Cons) blast
qed

text \<open>
  Updating a contact never works: whatever the files hold, the program reads the contact on its stack, which nobody
  has initialised, or follows a null pointer before. The contact that was signed anew is not written.
\<close>

theorem update_undefined:
  assumes "configured R d ctx"
  shows "rcutil_main R [(CHR ''u'', Some f)] d = Inl UndefinedBehaviour"
  using main_one_option [OF _ assms, of "CHR ''u''" f]
  by (simp add: modes_one_option update_mode_def Let_def split: bind_splits option.splits prod.splits)

text \<open>The short options have no argument: with any of them the name of the file is the null pointer.\<close>

theorem short_option_undefined:
  assumes "configured R d ctx"
  shows "rcutil_main R [(CHR ''g'', None)] d = Inl UndefinedBehaviour"
  using assms by (simp add: configured_def rcutil_main_def parse_option_def rcutil_options_new_def rcutil_modes_def defined_def Let_def del: lit_Cons)

end
