(* ===== verification/Timers.thy ===== *)
theory Timers
  imports Prelude "HOL-Library.AList"
begin

text \<open>
  The logic of the program (\<open>udap/logic.cpp\<close>): its timers (\<open>udap/timer.cpp\<close>) and the thread pool that
  runs their handlers (\<open>udap/threadpool.cpp\<close>), with worker threads or in the thread that calls
  \<open>udap_threadpool_tick\<close>. Timers are objects on the heap, under addresses that are never used again;
  a job of the pool is the address of a timer. \<open>None\<close> is the use of a timer that was freed. What
  happens under a mutex is one step; a worker that runs a job takes it, calls the handler and
  finishes in three steps, between which others may happen.
\<close>

section \<open>State\<close>

text \<open>A handler and the user pointer it gets are numbers.\<close>

record timer =
  tm_user :: nat
  tm_called_at :: u64
  tm_started :: u64
  tm_timeout :: u64
  tm_func :: "nat option"
  tm_done :: bool
  tm_canceled :: bool

record udap_timeout_job =
  tj_timeout :: u64
  tj_user :: nat
  tj_handler :: "nat option"

record udap_timer_context =
  tc_timers :: "(u32 \<times> nat) list"
  tc_ids :: u32
  tc_run :: bool

text \<open>
  A pool with workers (\<open>impl\<close>) or without. \<open>tp_running\<close> are the jobs taken by workers, with whether
  the handler was called; without workers it is the job that the tick runs, which is still the first
  of the queue.
\<close>

record udap_threadpool =
  tp_impl :: bool
  tp_jobs :: "nat list"
  tp_stop :: bool
  tp_running :: "(nat \<times> bool) list"

text \<open>A call of a handler: the timer, the handler and its arguments.\<close>

record timer_call =
  c_timer :: nat
  c_func :: nat
  c_user :: nat
  c_orig :: u64
  c_left :: u64

record udap_logic =
  lg_thread :: udap_threadpool
  lg_timer :: udap_timer_context
  lg_heap :: "nat \<rightharpoonup> timer"
  lg_next :: nat
  lg_now :: u64
  lg_calls :: "timer_call list"

definition timer_new :: "u64 \<Rightarrow> udap_timeout_job \<Rightarrow> timer" where
  "timer_new now job = \<lparr>tm_user = tj_user job, tm_called_at = 0, tm_started = now, tm_timeout = tj_timeout job,
     tm_func = tj_handler job, tm_done = False, tm_canceled = False\<rparr>"

definition udap_init_timer :: udap_timer_context where
  "udap_init_timer = \<lparr>tc_timers = [], tc_ids = 0, tc_run = True\<rparr>"

definition udap_init_threadpool :: "int \<Rightarrow> udap_threadpool option" where
  "udap_init_threadpool workers =
     (if workers > 0 then Some \<lparr>tp_impl = True, tp_jobs = [], tp_stop = False, tp_running = []\<rparr> else None)"

definition udap_init_same_process_threadpool :: udap_threadpool where
  "udap_init_same_process_threadpool = \<lparr>tp_impl = False, tp_jobs = [], tp_stop = False, tp_running = []\<rparr>"

definition udap_init_single_process_logic :: "udap_threadpool \<Rightarrow> u64 \<Rightarrow> udap_logic" where
  "udap_init_single_process_logic tp now =
     \<lparr>lg_thread = tp, lg_timer = udap_init_timer, lg_heap = Map.empty, lg_next = 0, lg_now = now, lg_calls = []\<rparr>"

section \<open>The pool\<close>

definition udap_threadpool_queue_job :: "nat \<Rightarrow> udap_threadpool \<Rightarrow> udap_threadpool" where
  "udap_threadpool_queue_job job pool =
     (if tp_impl pool \<and> tp_stop pool then pool else pool\<lparr>tp_jobs := tp_jobs pool @ [job]\<rparr>)"

definition udap_threadpool_stop :: "udap_threadpool \<Rightarrow> udap_threadpool" where
  "udap_threadpool_stop pool = (if tp_impl pool then pool\<lparr>tp_stop := True\<rparr> else pool)"

section \<open>The timers\<close>

definition set_timer :: "nat \<Rightarrow> timer \<Rightarrow> udap_logic \<Rightarrow> udap_logic" where
  "set_timer a t l = l\<lparr>lg_heap := (lg_heap l)(a \<mapsto> t)\<rparr>"

definition cancel :: "u32 \<Rightarrow> udap_logic \<Rightarrow> udap_logic option" where
  "cancel i l =
     (case map_of (tc_timers (lg_timer l)) i of
        None \<Rightarrow> Some l
      | Some a \<Rightarrow> do {
          t \<leftarrow> lg_heap l a;
          Some (set_timer a (t\<lparr>tm_canceled := True\<rparr>) l)
        })"

definition timer_remove :: "u32 \<Rightarrow> udap_logic \<Rightarrow> udap_logic option" where
  "timer_remove i l =
     (case map_of (tc_timers (lg_timer l)) i of
        None \<Rightarrow> Some l
      | Some a \<Rightarrow> do {
          t \<leftarrow> lg_heap l a;
          Some (set_timer a (t\<lparr>tm_func := None, tm_canceled := True\<rparr>) l)
        })"

definition call_later :: "udap_timeout_job \<Rightarrow> udap_logic \<Rightarrow> u32 \<times> udap_logic" where
  "call_later job l =
     (let i = tc_ids (lg_timer l) + 1; a = lg_next l
      in (i, l\<lparr>lg_timer := (lg_timer l)\<lparr>tc_ids := i, tc_timers := AList.update i a (tc_timers (lg_timer l))\<rparr>,
               lg_heap := (lg_heap l)(a \<mapsto> timer_new (lg_now l) job), lg_next := a + 1\<rparr>))"

fun cancel_ids :: "u32 list \<Rightarrow> udap_logic \<Rightarrow> udap_logic option" where
  "cancel_ids [] l = Some l"
| "cancel_ids (i # ids) l = do { l \<leftarrow> cancel i l; cancel_ids ids l }"

definition cancel_all :: "udap_logic \<Rightarrow> udap_logic option" where
  "cancel_all l = cancel_ids (map fst (tc_timers (lg_timer l))) l"

text \<open>The objects of the timers are not freed.\<close>

definition udap_timer_stop :: "udap_logic \<Rightarrow> udap_logic" where
  "udap_timer_stop l = l\<lparr>lg_timer := (lg_timer l)\<lparr>tc_timers := [], tc_run := False\<rparr>\<rparr>"

definition send_job :: "nat \<Rightarrow> udap_logic \<Rightarrow> udap_logic" where
  "send_job a l = l\<lparr>lg_thread := udap_threadpool_queue_job a (lg_thread l)\<rparr>"

definition timer_erase :: "u32 \<Rightarrow> nat \<Rightarrow> udap_logic \<Rightarrow> udap_logic" where
  "timer_erase i a l = l\<lparr>lg_timer := (lg_timer l)\<lparr>tc_timers := AList.delete i (tc_timers (lg_timer l))\<rparr>,
     lg_heap := (lg_heap l)(a := None)\<rparr>"

fun tick_loop :: "(u32 \<times> nat) list \<Rightarrow> udap_logic \<Rightarrow> udap_logic option" where
  "tick_loop [] l = Some l"
| "tick_loop ((i, a) # rest) l = do {
     t \<leftarrow> lg_heap l a;
     if lg_now l - tm_started t \<ge> tm_timeout t \<or> tm_canceled t
     then if tm_func t \<noteq> None \<and> tm_called_at t = 0
          then tick_loop rest (send_job a (set_timer a (t\<lparr>tm_called_at := lg_now l\<rparr>) l))
          else if tm_done t then tick_loop rest (timer_erase i a l)
          else tick_loop rest l
     else tick_loop rest l
   }"

definition udap_timer_tick_all :: "udap_logic \<Rightarrow> udap_logic option" where
  "udap_timer_tick_all l = (if tc_run (lg_timer l) then tick_loop (tc_timers (lg_timer l)) l else Some l)"

text \<open>
  \<open>timer::exec\<close>, up to the end of the call of the handler, and the rest of it. The handler's own effects are
  steps that come after. It takes no mutex: that it reads \<open>func\<close> twice, and what a removal between does, is in \<open>remove_races_with_exec\<close>.
\<close>

definition exec_call :: "nat \<Rightarrow> udap_logic \<Rightarrow> udap_logic option" where
  "exec_call a l = do {
     t \<leftarrow> lg_heap l a;
     Some (case tm_func t of
         None \<Rightarrow> l
       | Some f \<Rightarrow>
           (let diff = tm_called_at t - tm_started t;
                call = \<lparr>c_timer = a, c_func = f, c_user = tm_user t, c_orig = tm_timeout t,
                  c_left = (if diff \<ge> tm_timeout t then 0 else diff)\<rparr>
            in (set_timer a (t\<lparr>tm_func := None\<rparr>) l)\<lparr>lg_calls := lg_calls l @ [call]\<rparr>))
   }"

definition exec_done :: "nat \<Rightarrow> udap_logic \<Rightarrow> udap_logic option" where
  "exec_done a l = do { t \<leftarrow> lg_heap l a; Some (set_timer a (t\<lparr>tm_done := True\<rparr>) l) }"

section \<open>The workers\<close>

definition worker_take :: "udap_logic \<Rightarrow> udap_logic option" where
  "worker_take l =
     (case tp_jobs (lg_thread l) of
        [] \<Rightarrow> None
      | a # js \<Rightarrow> Some (l\<lparr>lg_thread := (lg_thread l)\<lparr>tp_jobs := js, tp_running := (a, False) # tp_running (lg_thread l)\<rparr>\<rparr>))"

text \<open>
  A pass of \<open>udap_threadpool_tick\<close>, when the handlers queue no jobs themselves: every job of the queue
  runs, in order.
\<close>

fun run_jobs :: "nat list \<Rightarrow> udap_logic \<Rightarrow> udap_logic option" where
  "run_jobs [] l = Some l"
| "run_jobs (a # js) l = do {
     l \<leftarrow> exec_call a l;
     l \<leftarrow> exec_done a l;
     run_jobs js (l\<lparr>lg_thread := (lg_thread l)\<lparr>tp_jobs := js\<rparr>\<rparr>)
   }"

definition udap_threadpool_tick :: "udap_logic \<Rightarrow> udap_logic option" where
  "udap_threadpool_tick l = run_jobs (tp_jobs (lg_thread l)) l"

text \<open>
  The steps: the calls of the interface of the logic, a tick of the timers, the workers, the clock, and
  the ends of the timers and of the pool. The pool without workers runs its jobs like one worker.
\<close>

inductive logic_step :: "udap_logic \<Rightarrow> udap_logic \<Rightarrow> bool" where
  later: "logic_step l (snd (call_later job l))"
| cancelled: "cancel i l = Some l' \<Longrightarrow> logic_step l l'"
| removed: "timer_remove i l = Some l' \<Longrightarrow> logic_step l l'"
| ticked: "udap_timer_tick_all l = Some l' \<Longrightarrow> logic_step l l'"
| taken: "worker_take l = Some l' \<Longrightarrow> logic_step l l'"
| called: "tp_running (lg_thread l) = xs @ (a, False) # ys \<Longrightarrow> exec_call a l = Some l' \<Longrightarrow>
    logic_step l (l'\<lparr>lg_thread := (lg_thread l)\<lparr>tp_running := xs @ (a, True) # ys\<rparr>\<rparr>)"
| finished: "tp_running (lg_thread l) = xs @ (a, True) # ys \<Longrightarrow> exec_done a l = Some l' \<Longrightarrow>
    logic_step l (l'\<lparr>lg_thread := (lg_thread l)\<lparr>tp_running := xs @ ys\<rparr>\<rparr>)"
| clock: "lg_now l \<le> now \<Longrightarrow> logic_step l (l\<lparr>lg_now := now\<rparr>)"
| stop_timers: "logic_step l (udap_timer_stop l)"
| stop_pool: "logic_step l (l\<lparr>lg_thread := udap_threadpool_stop (lg_thread l)\<rparr>)"

inductive_cases logic_stepE: "logic_step l l'"

section \<open>The invariant\<close>

text \<open>
  The jobs that are queued or taken, the timers that were called, and what holds of them: a timer with
  a job in the pool is on the heap, was hit and is not done, and has only that job; a timer that
  was called has no handler any more; a timer was hit only after its timeout, or cancelled.
\<close>

definition in_pool :: "udap_logic \<Rightarrow> nat list" where
  "in_pool l = tp_jobs (lg_thread l) @ map fst (tp_running (lg_thread l))"

definition table_ok :: "udap_logic \<Rightarrow> bool" where
  "table_ok l \<longleftrightarrow> distinct (map fst (tc_timers (lg_timer l))) \<and> distinct (map snd (tc_timers (lg_timer l))) \<and>
     (\<forall>(i, a) \<in> set (tc_timers (lg_timer l)). lg_heap l a \<noteq> None)"

definition pool_ok :: "udap_logic \<Rightarrow> bool" where
  "pool_ok l \<longleftrightarrow> distinct (in_pool l) \<and>
     (\<forall>a \<in> set (in_pool l). \<exists>t. lg_heap l a = Some t \<and> tm_called_at t \<noteq> 0 \<and> \<not> tm_done t)"

definition calls_ok :: "udap_logic \<Rightarrow> bool" where
  "calls_ok l \<longleftrightarrow> distinct (map c_timer (lg_calls l)) \<and>
     (\<forall>c \<in> set (lg_calls l). c_timer c < lg_next l \<and> (\<forall>t. lg_heap l (c_timer c) = Some t \<longrightarrow> tm_func t = None))"

definition hit_ok :: "timer \<Rightarrow> bool" where
  "hit_ok t \<longleftrightarrow> (tm_called_at t \<noteq> 0 \<longrightarrow> tm_called_at t - tm_started t \<ge> tm_timeout t \<or> tm_canceled t) \<and>
     (tm_done t \<longrightarrow> tm_called_at t \<noteq> 0)"

definition heap_ok :: "udap_logic \<Rightarrow> bool" where
  "heap_ok l \<longleftrightarrow> (\<forall>a t. lg_heap l a = Some t \<longrightarrow> a < lg_next l \<and> hit_ok t) \<and> lg_now l \<noteq> 0"

definition logic_inv :: "udap_logic \<Rightarrow> bool" where
  "logic_inv l \<longleftrightarrow> table_ok l \<and> pool_ok l \<and> calls_ok l \<and> heap_ok l"

lemmas logic_inv_defs = logic_inv_def table_ok_def pool_ok_def calls_ok_def heap_ok_def in_pool_def

lemma inv_init: "now \<noteq> 0 \<Longrightarrow> tp_jobs tp = [] \<Longrightarrow> tp_running tp = [] \<Longrightarrow> logic_inv (udap_init_single_process_logic tp now)"
  by (simp add: logic_inv_defs udap_init_single_process_logic_def udap_init_timer_def)

text \<open>Changing a timer that is there, so that none of this is lost\<close>

lemma inv_set_timer:
  assumes "logic_inv l" "lg_heap l a = Some t" "hit_ok t'"
    and "tm_func t = None \<Longrightarrow> tm_func t' = None"
    and "a \<in> set (in_pool l) \<Longrightarrow> tm_called_at t' \<noteq> 0 \<and> \<not> tm_done t'"
  shows "logic_inv (set_timer a t' l)"
  using assms by (auto simp: logic_inv_defs set_timer_def)

lemma set_alist_update: "set (AList.update k v m) \<subseteq> insert (k, v) (set m)"
  by (induction m) auto

lemma distinct_snd_update:
  "v \<notin> snd ` set m \<Longrightarrow> distinct (map snd m) \<Longrightarrow> distinct (map snd (AList.update k v m))"
proof (induction m)
  case (Cons x m)
  then show ?case using set_alist_update [of k v m] by (cases x) (auto simp: image_iff)
qed simp

lemma set_delete: "set (AList.delete k m) = {x \<in> set m. fst x \<noteq> k}"
  by (auto simp: AList.delete_eq)

lemma distinct_map_delete: "distinct (map f m) \<Longrightarrow> distinct (map f (AList.delete k m))"
  by (simp add: AList.delete_eq distinct_map_filter)

lemma heap_hit: "logic_inv l \<Longrightarrow> lg_heap l a = Some t \<Longrightarrow> hit_ok t \<and> a < lg_next l"
  by (auto simp: logic_inv_def heap_ok_def)

lemma table_heap:
  assumes "logic_inv l" "(i, a) \<in> set (tc_timers (lg_timer l))" obtains t where "lg_heap l a = Some t" "hit_ok t"
proof -
  have "lg_heap l a \<noteq> None" using assms unfolding logic_inv_def table_ok_def by blast
  with that heap_hit [OF assms(1)] show thesis by blast
qed

lemma pool_heap:
  assumes "logic_inv l" "a \<in> set (in_pool l)"
  obtains t where "lg_heap l a = Some t" "tm_called_at t \<noteq> 0" "\<not> tm_done t" "hit_ok t"
  using assms heap_hit [OF assms(1)] unfolding logic_inv_def pool_ok_def by blast

lemma inv_later:
  assumes "logic_inv l" shows "logic_inv (snd (call_later job l))"
proof -
  let ?t = "tc_timers (lg_timer l)" and ?l = "snd (call_later job l)"
  have fresh: "lg_heap l (lg_next l) = None"
    using heap_hit [OF assms, of "lg_next l"] by (cases "lg_heap l (lg_next l)") auto
  then have "lg_next l \<notin> snd ` set ?t" using table_heap [OF assms] by force
  then have "distinct (map snd (AList.update (tc_ids (lg_timer l) + 1) (lg_next l) ?t))"
    using assms by (auto simp: logic_inv_def table_ok_def intro: distinct_snd_update)
  then have "table_ok ?l"
    using assms set_alist_update [of "tc_ids (lg_timer l) + 1" "lg_next l" ?t]
    by (auto simp: logic_inv_def table_ok_def call_later_def Let_def distinct_update)
  moreover have "pool_ok ?l"
  proof -
    have "in_pool ?l = in_pool l" by (simp add: in_pool_def call_later_def Let_def)
    moreover have "lg_heap ?l a = lg_heap l a" if "a \<in> set (in_pool l)" for a
    proof -
      from pool_heap [OF assms that] obtain t where "lg_heap l a = Some t" .
      with fresh have "a \<noteq> lg_next l" by auto
      then show ?thesis by (simp add: call_later_def Let_def)
    qed
    ultimately show ?thesis using assms by (simp add: logic_inv_def pool_ok_def)
  qed
  moreover have "calls_ok ?l"
    using assms by (fastforce simp: logic_inv_def calls_ok_def call_later_def Let_def)
  moreover have "heap_ok ?l"
    using assms by (auto simp: logic_inv_def heap_ok_def call_later_def Let_def timer_new_def hit_ok_def less_Suc_eq)
  ultimately show ?thesis by (simp add: logic_inv_def)
qed

lemma inv_cancel:
  assumes "logic_inv l" shows "\<exists>l'. cancel i l = Some l' \<and> logic_inv l'"
proof (cases "map_of (tc_timers (lg_timer l)) i")
  case (Some a)
  from table_heap [OF assms map_of_SomeD [OF this]] obtain t where t: "lg_heap l a = Some t" "hit_ok t" .
  moreover have "tm_called_at t \<noteq> 0 \<and> \<not> tm_done t" if "a \<in> set (in_pool l)" using pool_heap [OF assms that] t(1) by auto
  ultimately show ?thesis
    using Some inv_set_timer [OF assms t(1), of "t\<lparr>tm_canceled := True\<rparr>"] by (auto simp: cancel_def hit_ok_def)
qed (simp add: cancel_def assms)

lemma inv_remove:
  assumes "logic_inv l" shows "\<exists>l'. timer_remove i l = Some l' \<and> logic_inv l'"
proof (cases "map_of (tc_timers (lg_timer l)) i")
  case (Some a)
  from table_heap [OF assms map_of_SomeD [OF this]] obtain t where t: "lg_heap l a = Some t" "hit_ok t" .
  moreover have "tm_called_at t \<noteq> 0 \<and> \<not> tm_done t" if "a \<in> set (in_pool l)" using pool_heap [OF assms that] t(1) by auto
  ultimately show ?thesis
    using Some inv_set_timer [OF assms t(1), of "t\<lparr>tm_func := None, tm_canceled := True\<rparr>"]
    by (auto simp: timer_remove_def hit_ok_def)
qed (simp add: timer_remove_def assms)

text \<open>A timer that is hit gets its job; a timer that is done has none and goes.\<close>

lemma inv_hit:
  assumes "logic_inv l" "lg_heap l a = Some t" "tm_called_at t = 0"
    and "lg_now l - tm_started t \<ge> tm_timeout t \<or> tm_canceled t"
  shows "logic_inv (send_job a (set_timer a (t\<lparr>tm_called_at := lg_now l\<rparr>) l))"
proof -
  have a: "a \<notin> set (in_pool l)" using assms(1-3) by (auto simp: logic_inv_def pool_ok_def)
  have "logic_inv (set_timer a (t\<lparr>tm_called_at := lg_now l\<rparr>) l)"
    using inv_set_timer [OF assms(1,2), of "t\<lparr>tm_called_at := lg_now l\<rparr>"] a assms by (auto simp: hit_ok_def logic_inv_def heap_ok_def)
  moreover have "lg_now l \<noteq> 0" "\<not> tm_done t" using assms by (auto simp: logic_inv_defs hit_ok_def)
  ultimately show ?thesis
    using a by (auto simp: logic_inv_defs set_timer_def send_job_def udap_threadpool_queue_job_def)
qed

lemma inv_erase_timer:
  assumes "logic_inv l" "(i, a) \<in> set (tc_timers (lg_timer l))" "lg_heap l a = Some t" "tm_done t"
  shows "logic_inv (timer_erase i a l)"
proof -
  have "a \<notin> set (in_pool l)" using assms by (auto simp: logic_inv_def pool_ok_def)
  moreover have "a' \<noteq> a" if "(i', a') \<in> set (tc_timers (lg_timer l))" "i' \<noteq> i" for i' a'
  proof
    assume "a' = a"
    moreover have "inj_on snd (set (tc_timers (lg_timer l)))" using assms(1) by (simp add: logic_inv_def table_ok_def distinct_map)
    ultimately show False using assms(2) that inj_onD [of snd _ "(i, a)" "(i', a)"] by auto
  qed
  ultimately show ?thesis
    using assms(1) by (auto simp: logic_inv_defs timer_erase_def set_delete distinct_map_delete)
qed


lemma tick_timers: "tc_timers (lg_timer (send_job a l)) = tc_timers (lg_timer l)"
  "tc_timers (lg_timer (set_timer a t l)) = tc_timers (lg_timer l)"
  by (simp_all add: send_job_def set_timer_def)

lemma inv_tick_loop:
  assumes "logic_inv l" "set xs \<subseteq> set (tc_timers (lg_timer l))" "distinct (map fst xs)"
  shows "\<exists>l'. tick_loop xs l = Some l' \<and> logic_inv l'"
  using assms
proof (induction xs arbitrary: l)
  case (Cons x xs)
  obtain i a where x: "x = (i, a)" by fastforce
  with Cons.prems have ia: "(i, a) \<in> set (tc_timers (lg_timer l))" by simp
  from table_heap [OF Cons.prems(1) this] obtain t where t: "lg_heap l a = Some t" .
  have "set xs \<subseteq> set (tc_timers (lg_timer (timer_erase i a l)))"
    using Cons.prems(2,3) x by (auto simp: timer_erase_def set_delete image_iff)
  with Cons.IH [of l] Cons.IH [OF inv_hit [OF Cons.prems(1) t]] Cons.IH [OF inv_erase_timer [OF Cons.prems(1) ia t]]
    Cons.prems t x show ?case by (auto simp: tick_timers)
qed simp

lemma inv_tick:
  assumes "logic_inv l" shows "\<exists>l'. udap_timer_tick_all l = Some l' \<and> logic_inv l'"
  using inv_tick_loop [OF assms order_refl] assms by (simp add: udap_timer_tick_all_def logic_inv_def table_ok_def)

lemma inv_thread:
  assumes "logic_inv l" "distinct (tp_jobs p @ map fst (tp_running p))"
    and "set (tp_jobs p @ map fst (tp_running p)) \<subseteq> set (in_pool l)"
  shows "logic_inv (l\<lparr>lg_thread := p\<rparr>)"
proof -
  have "in_pool (l\<lparr>lg_thread := p\<rparr>) = tp_jobs p @ map fst (tp_running p)" by (simp add: in_pool_def)
  moreover have "\<forall>a \<in> set (tp_jobs p @ map fst (tp_running p)). \<exists>t. lg_heap l a = Some t \<and> tm_called_at t \<noteq> 0 \<and> \<not> tm_done t"
    using assms(1,3) unfolding logic_inv_def pool_ok_def by blast
  ultimately have "pool_ok (l\<lparr>lg_thread := p\<rparr>)"
    using assms(2) by (simp add: pool_ok_def)
  with assms(1) show ?thesis by (simp add: logic_inv_def table_ok_def calls_ok_def heap_ok_def)
qed

lemma pool_distinct: "logic_inv l \<Longrightarrow> distinct (in_pool l)"
  by (simp add: logic_inv_def pool_ok_def)

lemma inv_exec_call:
  assumes "logic_inv l" "a \<in> set (in_pool l)"
  shows "\<exists>l'. exec_call a l = Some l' \<and> logic_inv l' \<and> lg_thread l' = lg_thread l"
proof -
  from pool_heap [OF assms] obtain t where t: "lg_heap l a = Some t" "tm_called_at t \<noteq> 0" "\<not> tm_done t" "hit_ok t" .
  show ?thesis
  proof (cases "tm_func t")
    case None
    then show ?thesis using t assms(1) by (simp add: exec_call_def)
  next
    case (Some f)
    let ?l = "set_timer a (t\<lparr>tm_func := None\<rparr>) l"
    have "logic_inv ?l" using inv_set_timer [OF assms(1) t(1), of "t\<lparr>tm_func := None\<rparr>"] t by (simp add: hit_ok_def)
    moreover have "\<forall>c \<in> set (lg_calls l). c_timer c \<noteq> a" using assms(1) t(1) Some by (auto simp: logic_inv_def calls_ok_def)
    ultimately have "logic_inv (?l\<lparr>lg_calls := lg_calls l @ [c]\<rparr>)" if "c_timer c = a" for c
      using that heap_hit [OF assms(1) t(1)]
      by (auto simp: logic_inv_def table_ok_def pool_ok_def heap_ok_def calls_ok_def in_pool_def set_timer_def)
    then show ?thesis using t(1) Some by (auto simp: exec_call_def Let_def set_timer_def)
  qed
qed

lemma inv_exec_done:
  assumes "logic_inv l" "tp_running (lg_thread l) = xs @ (a, c) # ys"
  shows "\<exists>l'. exec_done a l = Some l' \<and> logic_inv (l'\<lparr>lg_thread := (lg_thread l)\<lparr>tp_running := xs @ ys\<rparr>\<rparr>)"
proof -
  have "a \<in> set (in_pool l)" using assms(2) by (simp add: in_pool_def)
  from pool_heap [OF assms(1) this] obtain t where t: "lg_heap l a = Some t" "tm_called_at t \<noteq> 0" "hit_ok t" .
  let ?p = "(lg_thread l)\<lparr>tp_running := xs @ ys\<rparr>"
  have pool: "distinct (tp_jobs ?p @ map fst (tp_running ?p))" "a \<notin> set (tp_jobs ?p @ map fst (tp_running ?p))"
    "set (tp_jobs ?p @ map fst (tp_running ?p)) \<subseteq> set (in_pool l)"
    using assms by (auto simp: logic_inv_def pool_ok_def in_pool_def)
  then have "logic_inv (l\<lparr>lg_thread := ?p\<rparr>)" using inv_thread [OF assms(1)] by blast
  from inv_set_timer [OF this, of a t "t\<lparr>tm_done := True\<rparr>"] t pool(2)
  have "logic_inv (set_timer a (t\<lparr>tm_done := True\<rparr>) (l\<lparr>lg_thread := ?p\<rparr>))" by (simp add: hit_ok_def in_pool_def)
  moreover have "set_timer a (t\<lparr>tm_done := True\<rparr>) (l\<lparr>lg_thread := ?p\<rparr>) = (set_timer a (t\<lparr>tm_done := True\<rparr>) l)\<lparr>lg_thread := ?p\<rparr>"
    by (cases l) (simp add: set_timer_def)
  ultimately show ?thesis using t(1) by (simp add: exec_done_def)
qed

lemma logic_step_inv: "logic_step l l' \<Longrightarrow> logic_inv l \<Longrightarrow> logic_inv l'"
proof (induction rule: logic_step.induct)
  case (cancelled i l l')
  then show ?case using inv_cancel [of l i] by auto
next
  case (removed i l l')
  then show ?case using inv_remove [of l i] by auto
next
  case (ticked l l')
  then show ?case using inv_tick [of l] by auto
next
  case (taken l l')
  then show ?case using pool_distinct [OF taken(2)]
    by (auto simp: worker_take_def in_pool_def split: list.splits intro!: inv_thread)
next
  case (called l xs a ys l')
  then have "a \<in> set (in_pool l)" by (simp add: in_pool_def)
  with inv_exec_call [OF called(3) this] called pool_distinct [OF called(3)] show ?case
    by (auto simp: in_pool_def intro!: inv_thread)
next
  case (finished l xs a ys l')
  then show ?case using inv_exec_done by fastforce
next
  case (clock l now)
  then show ?case by (auto simp: logic_inv_def table_ok_def pool_ok_def heap_ok_def calls_ok_def in_pool_def)
next
  case (stop_timers l)
  then show ?case by (simp add: udap_timer_stop_def logic_inv_def table_ok_def pool_ok_def heap_ok_def calls_ok_def in_pool_def)
next
  case (stop_pool l)
  then show ?case using pool_distinct [OF stop_pool] by (auto simp: udap_threadpool_stop_def in_pool_def intro!: inv_thread)
qed (simp add: inv_later)

lemma logic_reach_inv: "logic_step\<^sup>*\<^sup>* l l' \<Longrightarrow> logic_inv l \<Longrightarrow> logic_inv l'"
  by (induction rule: rtranclp_induct) (auto dest: logic_step_inv)


section \<open>Properties\<close>

text \<open>
  C11. No timer is used after it was freed, however the calls, the ticks and the workers interleave, and
  each handler is called at most once: in every state that is reached the operations are defined,
  for every job that is queued or taken, and no two calls are of the same timer.
\<close>

theorem timers_safe:
  assumes "logic_step\<^sup>*\<^sup>* (udap_init_single_process_logic tp now) l" "now \<noteq> 0" "tp_jobs tp = []" "tp_running tp = []"
  shows "distinct (map c_timer (lg_calls l)) \<and> udap_timer_tick_all l \<noteq> None \<and> cancel i l \<noteq> None \<and> timer_remove i l \<noteq> None \<and>
    (\<forall>a \<in> set (tp_jobs (lg_thread l) @ map fst (tp_running (lg_thread l))). exec_call a l \<noteq> None \<and> exec_done a l \<noteq> None)"
proof -
  have inv: "logic_inv l" using logic_reach_inv [OF assms(1)] inv_init [OF assms(2-4)] by simp
  have "exec_done a l \<noteq> None" "exec_call a l \<noteq> None" if "a \<in> set (in_pool l)" for a
  proof -
    from pool_heap [OF inv that] obtain t where "lg_heap l a = Some t" .
    then show "exec_done a l \<noteq> None" "exec_call a l \<noteq> None" by (simp_all add: exec_done_def exec_call_def)
  qed
  with inv_tick [OF inv] inv_cancel [OF inv, of i] inv_remove [OF inv, of i] inv show ?thesis
    by (auto simp: logic_inv_def calls_ok_def in_pool_def)
qed

lemma tick_parts [simp]:
  "lg_heap (send_job a l) = lg_heap l" "lg_now (send_job a l) = lg_now l" "lg_now (set_timer a t l) = lg_now l"
  "lg_heap (set_timer a t l) = (lg_heap l)(a \<mapsto> t)" "lg_thread (set_timer a t l) = lg_thread l"
  "lg_thread (send_job a l) = udap_threadpool_queue_job a (lg_thread l)"
  "lg_heap (timer_erase i a l) = (lg_heap l)(a := None)" "lg_now (timer_erase i a l) = lg_now l"
  "lg_thread (timer_erase i a l) = lg_thread l" "tp_impl (udap_threadpool_queue_job a p) = tp_impl p"
  "tp_stop (udap_threadpool_queue_job a p) = tp_stop p"
  by (simp_all add: send_job_def set_timer_def timer_erase_def udap_threadpool_queue_job_def)

lemma tick_loop_frame:
  assumes "tick_loop xs l = Some l'"
  shows "(a \<notin> snd ` set xs \<longrightarrow> lg_heap l' a = lg_heap l a) \<and> set (tp_jobs (lg_thread l)) \<subseteq> set (tp_jobs (lg_thread l'))"
  using assms
proof (induction xs arbitrary: l)
  case (Cons x xs)
  obtain i b where x: "x = (i, b)" by fastforce
  with Cons.prems obtain t where "lg_heap l b = Some t" by (auto split: bind_splits)
  with Cons x show ?case
    by (fastforce simp: udap_threadpool_queue_job_def split: if_splits)
qed simp

lemma tick_loop_hit:
  assumes "distinct (map snd xs)" "lg_heap l a = Some t" "tm_func t \<noteq> None" "tm_called_at t = 0"
    and "tm_timeout t \<le> lg_now l - tm_started t \<or> tm_canceled t" "\<not> (tp_impl (lg_thread l) \<and> tp_stop (lg_thread l))"
    and "tick_loop xs l = Some l'" "a \<in> snd ` set xs"
  shows "a \<in> set (tp_jobs (lg_thread l')) \<and> lg_heap l' a = Some (t\<lparr>tm_called_at := lg_now l\<rparr>)"
  using assms
proof (induction xs arbitrary: l)
  case (Cons x xs)
  obtain i b where x: "x = (i, b)" by fastforce
  show ?case
  proof (cases "b = a")
    case True
    let ?l = "send_job a (set_timer a (t\<lparr>tm_called_at := lg_now l\<rparr>) l)"
    have "tick_loop xs ?l = Some l'" using Cons.prems x True by simp
    from tick_loop_frame [OF this, of a] Cons.prems x True show ?thesis
      by (auto simp: udap_threadpool_queue_job_def)
  next
    case False
    with Cons.prems x obtain s where s: "lg_heap l b = Some s" by (auto split: bind_splits)
    let ?P = "\<lambda>l2. lg_heap l2 a = lg_heap l a \<and> lg_now l2 = lg_now l \<and> tp_impl (lg_thread l2) = tp_impl (lg_thread l) \<and>
      tp_stop (lg_thread l2) = tp_stop (lg_thread l)"
    obtain l2 where "tick_loop xs l2 = Some l'" "?P l2"
      using Cons.prems(7) x s False by (auto split: if_splits)
    with Cons.IH [of l2] Cons.prems x False show ?thesis by auto
  qed
qed simp

lemma tick_hit:
  assumes inv: "logic_inv l" and "tc_run (lg_timer l)" "(i, a) \<in> set (tc_timers (lg_timer l))" "lg_heap l a = Some t"
    and "tm_func t \<noteq> None" "tm_called_at t = 0" "tm_timeout t \<le> lg_now l - tm_started t \<or> tm_canceled t"
    and "\<not> (tp_impl (lg_thread l) \<and> tp_stop (lg_thread l))"
  obtains l' where "udap_timer_tick_all l = Some l'" "a \<in> set (tp_jobs (lg_thread l'))"
    "lg_heap l' a = Some (t\<lparr>tm_called_at := lg_now l\<rparr>)"
proof -
  obtain l' where l': "udap_timer_tick_all l = Some l'" using inv_tick [OF inv] by blast
  have "distinct (map snd (tc_timers (lg_timer l)))" using inv by (simp add: logic_inv_def table_ok_def)
  moreover have "tick_loop (tc_timers (lg_timer l)) l = Some l'" using l' assms(2) by (simp add: udap_timer_tick_all_def)
  moreover have "a \<in> snd ` set (tc_timers (lg_timer l))" using assms(3) by force
  ultimately show thesis
    using that [OF l'] tick_loop_hit [of "tc_timers (lg_timer l)" l a t l'] assms(4-8) by blast
qed

text \<open>
  C22. A timer whose time has come is called: the next tick gives its job to the pool (unless the pool has
  stopped), and the worker that runs the job calls the handler with the timeout it was set with and
  nothing left.
\<close>

theorem due_timer_called:
  assumes inv: "logic_inv l" and "tc_run (lg_timer l)" "(i, a) \<in> set (tc_timers (lg_timer l))" "lg_heap l a = Some t"
    and f: "tm_func t = Some f" and "tm_called_at t = 0" "tm_timeout t \<le> lg_now l - tm_started t"
    and "\<not> (tp_impl (lg_thread l) \<and> tp_stop (lg_thread l))"
  shows "\<exists>l' l''. udap_timer_tick_all l = Some l' \<and> a \<in> set (tp_jobs (lg_thread l')) \<and> exec_call a l' = Some l'' \<and>
    lg_calls l'' = lg_calls l' @ [\<lparr>c_timer = a, c_func = f, c_user = tm_user t, c_orig = tm_timeout t, c_left = 0\<rparr>]"
proof -
  obtain l' where l': "udap_timer_tick_all l = Some l'" "a \<in> set (tp_jobs (lg_thread l'))"
      "lg_heap l' a = Some (t\<lparr>tm_called_at := lg_now l\<rparr>)"
    using tick_hit [OF inv assms(2-4) _ assms(6)] f assms(7,8) by auto
  with l' f assms(7) show ?thesis by (simp add: exec_call_def Let_def)
qed


definition example_timeout :: udap_timeout_job where
  "example_timeout = \<lparr>tj_timeout = 50, tj_user = 7, tj_handler = Some 3\<rparr>"

definition example_waiting :: udap_logic where
  "example_waiting = (snd (call_later example_timeout (udap_init_single_process_logic udap_init_same_process_threadpool 100)))"

lemma example_waiting_inv: "logic_inv (example_waiting\<lparr>lg_now := 160\<rparr>)"
proof -
  have "logic_inv (udap_init_single_process_logic udap_init_same_process_threadpool 100)"
    by (rule inv_init) (simp_all add: udap_init_same_process_threadpool_def)
  then have "logic_inv example_waiting" unfolding example_waiting_def by (rule inv_later)
  moreover have "logic_step example_waiting (example_waiting\<lparr>lg_now := 160\<rparr>)"
    by (rule clock) (simp add: example_waiting_def call_later_def udap_init_single_process_logic_def Let_def)
  ultimately show ?thesis using logic_step_inv by blast
qed

lemmas example_timer_simps = example_waiting_def call_later_def Let_def udap_init_single_process_logic_def udap_init_timer_def
  timer_new_def example_timeout_def udap_init_same_process_threadpool_def

theorem timers_safe_witness:
  "exec_call 0 (the (udap_timer_tick_all (example_waiting\<lparr>lg_now := 160\<rparr>))) \<noteq> None"
proof -
  let ?init = "udap_init_single_process_logic udap_init_same_process_threadpool 100" and ?l = "example_waiting\<lparr>lg_now := 160\<rparr>"
  obtain l where l: "udap_timer_tick_all ?l = Some l" "tp_jobs (lg_thread l) = [0]"
    by (simp add: udap_timer_tick_all_def example_timer_simps send_job_def set_timer_def udap_threadpool_queue_job_def)
  have "logic_step ?init example_waiting" unfolding example_waiting_def by (rule later)
  moreover have "logic_step example_waiting ?l" by (rule clock) (simp add: example_timer_simps)
  moreover have "logic_step ?l l" by (rule ticked [OF l(1)])
  ultimately have "logic_step\<^sup>*\<^sup>* ?init l" by (meson converse_rtranclp_into_rtranclp rtranclp.rtrancl_refl)
  from timers_safe [OF this] l show ?thesis by (simp add: udap_init_same_process_threadpool_def)
qed

theorem due_timer_called_witness:
  "\<exists>l' l''. udap_timer_tick_all (example_waiting\<lparr>lg_now := 160\<rparr>) = Some l' \<and> exec_call 0 l' = Some l'' \<and>
    lg_calls l'' = lg_calls l' @ [\<lparr>c_timer = 0, c_func = 3, c_user = 7, c_orig = 50, c_left = 0\<rparr>]"
  using due_timer_called [OF example_waiting_inv, of 1 0 "timer_new 100 example_timeout" 3]
  by (auto simp: example_timer_simps)

text \<open>
  A handler whose timer is cancelled early is not told how much time was left but how much had passed:
  after \<open>d\<close> milliseconds the last argument is \<open>d\<close>. A timer cancelled in the millisecond in which it was
  set is thus reported as one whose time has come.
\<close>

theorem cancel_reports_elapsed:
  assumes inv: "logic_inv l" and run: "tc_run (lg_timer l)" "\<not> (tp_impl (lg_thread l) \<and> tp_stop (lg_thread l))"
    and job: "tj_handler job = Some f" "d < tj_timeout job" and now: "lg_now l \<le> lg_now l + d"
  shows "\<exists>i l1 l2 l3 l4. call_later job l = (i, l1) \<and> cancel i (l1\<lparr>lg_now := lg_now l + d\<rparr>) = Some l2 \<and>
    udap_timer_tick_all l2 = Some l3 \<and> exec_call (lg_next l) l3 = Some l4 \<and>
    lg_calls l4 = lg_calls l3 @ [\<lparr>c_timer = lg_next l, c_func = f, c_user = tj_user job, c_orig = tj_timeout job, c_left = d\<rparr>]"
proof -
  obtain i l1 where l1: "call_later job l = (i, l1)" by fastforce
  then have l1_simps: "lg_heap l1 (lg_next l) = Some (timer_new (lg_now l) job)" "lg_now l1 = lg_now l"
    "map_of (tc_timers (lg_timer l1)) i = Some (lg_next l)" "tc_run (lg_timer l1)" "lg_thread l1 = lg_thread l"
    using run by (auto simp: call_later_def Let_def update_conv')
  let ?l = "l1\<lparr>lg_now := lg_now l + d\<rparr>" and ?t = "(timer_new (lg_now l) job)\<lparr>tm_canceled := True\<rparr>"
  have "logic_inv l1" using inv_later [OF inv, of job] l1 by simp
  then have "logic_inv ?l" using logic_step_inv [OF clock [of l1 "lg_now l + d"]] l1_simps(2) now by simp
  moreover have "cancel i ?l = Some (set_timer (lg_next l) ?t ?l)"
    using l1_simps by (simp add: cancel_def)
  ultimately have inv2: "logic_inv (set_timer (lg_next l) ?t ?l)" using inv_cancel [of ?l i] by auto
  obtain l3 where l3: "udap_timer_tick_all (set_timer (lg_next l) ?t ?l) = Some l3"
    "lg_heap l3 (lg_next l) = Some (?t\<lparr>tm_called_at := lg_now l + d\<rparr>)"
    using tick_hit [OF inv2, of i "lg_next l" ?t] l1_simps job(1) run(2)
    by (auto simp: tick_timers timer_new_def set_timer_def dest: map_of_SomeD)
  have "\<not> tj_timeout job \<le> d" using job(2) by simp
  with l3(2) job(1) obtain l4 where "exec_call (lg_next l) l3 = Some l4"
    "lg_calls l4 = lg_calls l3 @ [\<lparr>c_timer = lg_next l, c_func = f, c_user = tj_user job, c_orig = tj_timeout job, c_left = d\<rparr>]"
    by (simp add: exec_call_def timer_new_def Let_def)
  with l1 l3(1) \<open>cancel i ?l = _\<close> show ?thesis by blast
qed

theorem cancel_reports_elapsed_witness:
  "\<exists>i l1 l2 l3 l4. call_later example_timeout (example_waiting\<lparr>lg_now := 160\<rparr>) = (i, l1) \<and>
    cancel i (l1\<lparr>lg_now := 160\<rparr>) = Some l2 \<and> udap_timer_tick_all l2 = Some l3 \<and> exec_call 1 l3 = Some l4 \<and>
    lg_calls l4 = lg_calls l3 @ [\<lparr>c_timer = 1, c_func = 3, c_user = 7, c_orig = 50, c_left = 0\<rparr>]"
  using cancel_reports_elapsed [OF example_waiting_inv, of example_timeout 3 0]
  by (simp add: example_timer_simps)


text \<open>
  A timer that was removed before it was hit is never freed: whatever happens later, its object stays on
  the heap without a handler, and no tick deletes it.
\<close>

lemma tick_loop_removed:
  assumes "lg_heap l a = Some t" "tm_func t = None" "\<not> tm_done t" "tick_loop xs l = Some l'"
  shows "lg_heap l' a = Some t"
  using assms
proof (induction xs arbitrary: l)
  case (Cons x xs)
  obtain i b where x: "x = (i, b)" by fastforce
  with Cons.prems obtain s where s: "lg_heap l b = Some s" by (auto split: bind_splits)
  note IH = Cons.IH [of l] Cons.IH [of "send_job b (set_timer b (s\<lparr>tm_called_at := lg_now l\<rparr>) l)"] Cons.IH [of "timer_erase i b l"]
  show ?case using IH Cons.prems x s by (cases "b = a") (auto split: if_splits)
qed simp

definition abandoned :: "nat \<Rightarrow> udap_logic \<Rightarrow> bool" where
  "abandoned a l \<longleftrightarrow> (\<exists>t. lg_heap l a = Some t \<and> tm_func t = None \<and> tm_called_at t = 0)"

lemma abandoned_step:
  assumes "logic_step l l'" "logic_inv l" "abandoned a l" shows "abandoned a l'"
proof -
  obtain t where t: "lg_heap l a = Some t" "tm_func t = None" "tm_called_at t = 0" using assms(3) by (auto simp: abandoned_def)
  then have nd: "\<not> tm_done t" using heap_hit [OF assms(2) t(1)] by (auto simp: hit_ok_def)
  from assms(1) t nd show ?thesis
  proof cases
    case (later job)
    have "a \<noteq> lg_next l" using heap_hit [OF assms(2) t(1)] by simp
    with later t show ?thesis by (auto simp: abandoned_def call_later_def Let_def)
  next
    case (ticked)
    with t nd tick_loop_removed [of l a t] show ?thesis
      by (auto simp: abandoned_def udap_timer_tick_all_def split: if_splits)
  qed (auto simp: abandoned_def cancel_def timer_remove_def worker_take_def exec_call_def exec_done_def Let_def
      udap_timer_stop_def split: option.splits bind_splits list.splits if_splits)
qed

theorem removed_never_freed:
  assumes "logic_inv l" "abandoned a l" "logic_step\<^sup>*\<^sup>* l l'"
  shows "abandoned a l'"
proof -
  have "abandoned a l' \<and> logic_inv l'"
    using assms(3,1,2) by (induction rule: rtranclp_induct) (auto dest: abandoned_step logic_step_inv)
  then show ?thesis by simp
qed

theorem removed_never_freed_witness:
  "\<exists>l l'. timer_remove 1 (example_waiting\<lparr>lg_now := 160\<rparr>) = Some l \<and> udap_timer_tick_all l = Some l' \<and> abandoned 0 l'"
proof -
  obtain l where l: "timer_remove 1 (example_waiting\<lparr>lg_now := 160\<rparr>) = Some l" "logic_inv l"
    using inv_remove [OF example_waiting_inv] by blast
  then have "abandoned 0 l" by (auto simp: abandoned_def timer_remove_def example_timer_simps set_timer_def)
  moreover obtain l' where l': "udap_timer_tick_all l = Some l'" using inv_tick [OF l(2)] by blast
  moreover have "logic_step\<^sup>*\<^sup>* l l'" using ticked [OF l'] by blast
  ultimately show ?thesis using removed_never_freed [of l 0 l'] l by blast
qed

section \<open>A removal while a worker executes\<close>

text \<open>
  The two reads of \<open>func\<close> in \<open>timer::exec\<close>: the test, and the pointer that is called; \<open>None\<close> is the call of a null pointer. Together, with nothing between, they are
  \<open>exec_call\<close>.
\<close>

definition exec_test :: "nat \<Rightarrow> udap_logic \<Rightarrow> bool option" where
  "exec_test a l = do { t \<leftarrow> lg_heap l a; Some (tm_func t \<noteq> None) }"

definition exec_tested :: "nat \<Rightarrow> udap_logic \<Rightarrow> udap_logic option" where
  "exec_tested a l = do {
     t \<leftarrow> lg_heap l a;
     f \<leftarrow> tm_func t;
     let diff = tm_called_at t - tm_started t;
     Some ((set_timer a (t\<lparr>tm_func := None\<rparr>) l)\<lparr>lg_calls := lg_calls l @ [\<lparr>c_timer = a, c_func = f, c_user = tm_user t, c_orig = tm_timeout t,
       c_left = (if diff \<ge> tm_timeout t then 0 else diff)\<rparr>]\<rparr>)
   }"

lemma exec_call_parts: "exec_call a l = do { found \<leftarrow> exec_test a l; if found then exec_tested a l else Some l }"
  by (cases "lg_heap l a") (auto simp: exec_call_def exec_test_def exec_tested_def Let_def split: option.split)

text \<open>
  \<open>timersMutex\<close> does not protect \<open>exec\<close>: when a timer is removed after a worker has found its handler and before it reads it again, the worker calls a null pointer.
\<close>

theorem remove_races_with_exec:
  assumes "map_of (tc_timers (lg_timer l)) i = Some a" "lg_heap l a = Some t" "tm_func t = Some f"
  shows "exec_test a l = Some True \<and> (\<exists>l'. timer_remove i l = Some l' \<and> exec_tested a l' = None)"
  using assms by (simp add: exec_test_def exec_tested_def timer_remove_def set_timer_def)

theorem remove_races_with_exec_witness:
  "exec_test 0 example_waiting = Some True \<and> (\<exists>l'. timer_remove 1 example_waiting = Some l' \<and> exec_tested 0 l' = None)"
  using remove_races_with_exec [of example_waiting 1 0 "timer_new 100 example_timeout" 3] by (simp add: example_timer_simps)

end
