(* ===== verification/Iwp_Server.thy ===== *)
theory Iwp_Server
  imports Iwp_Handshake
begin

text \<open>
  The link over its sessions (\<open>struct server\<close> and the \<open>link_\<close> functions of \<open>udap/iwp_link.cpp\<close>): which
  sessions there are under which address, which router is behind an address, the ticks that remove
  sessions, and the datagrams that make them. A session is an object on the heap, known by a number
  that is not used again; deleting it leaves the jobs that are queued for it behind, and running
  one of them is undefined, as every use of a deleted session. An address is the bytes of its socket
  address. The operations are those of one thread at a time; the two mutexes are not modelled.
\<close>

section \<open>State\<close>

record iwp_server =
  sv_sessions :: "(byte list \<times> nat) list"
  sv_Connected :: "(byte list \<times> byte list) list"
  sv_objects :: "nat \<Rightarrow> (byte list \<times> session) option"
  sv_next :: nat
  sv_orphans :: "(nat \<times> job) list"
  sv_closed :: "byte list list"
  sv_seckey :: "byte list"
  sv_rc :: udap_rc
  sv_timer :: "u64 option"

definition server_new :: "byte list \<Rightarrow> udap_rc \<Rightarrow> iwp_server" where
  "server_new seckey rc = \<lparr>sv_sessions = [], sv_Connected = [], sv_objects = (\<lambda>_. None), sv_next = 0, sv_orphans = [],
     sv_closed = [], sv_seckey = seckey, sv_rc = rc, sv_timer = None\<rparr>"

definition put_object :: "nat \<Rightarrow> byte list \<Rightarrow> session \<Rightarrow> iwp_server \<Rightarrow> iwp_server" where
  "put_object i a s sv = sv\<lparr>sv_objects := (sv_objects sv)(i \<mapsto> (a, s))\<rparr>"

text \<open>\<open>delete s\<close>: the queued jobs keep their pointer.\<close>

definition delete_object :: "nat \<Rightarrow> iwp_server \<Rightarrow> iwp_server option" where
  "delete_object i sv = do {
     (a, s) \<leftarrow> sv_objects sv i;
     Some (sv\<lparr>sv_objects := (sv_objects sv)(i := None), sv_orphans := sv_orphans sv @ map (Pair i) (s_jobs s)\<rparr>)
   }"

section \<open>Tables\<close>

definition MapAddr :: "byte list \<Rightarrow> byte list \<Rightarrow> iwp_server \<Rightarrow> iwp_server" where
  "MapAddr src identity sv = sv\<lparr>sv_Connected := AList.update identity src (sv_Connected sv)\<rparr>"

definition HasSessionToRouter :: "byte list \<Rightarrow> iwp_server \<Rightarrow> bool" where
  "HasSessionToRouter pk sv \<longleftrightarrow> map_of (sv_Connected sv) pk \<noteq> None"

text \<open>The first entry with the address goes, and the router is told.\<close>

definition UnmapAddr :: "byte list \<Rightarrow> iwp_server \<Rightarrow> iwp_server" where
  "UnmapAddr src sv =
     (case List.find (\<lambda>x. src = snd x) (sv_Connected sv) of
        None \<Rightarrow> sv
      | Some x \<Rightarrow> sv\<lparr>sv_closed := sv_closed sv @ [fst x], sv_Connected := AList.delete (fst x) (sv_Connected sv)\<rparr>)"

text \<open>\<open>mem\<close> and \<open>rng\<close>: the uninitialised members and the random bytes of the new session\<close>

definition create_session :: "(nat \<Rightarrow> byte list) \<Rightarrow> (nat \<Rightarrow> byte) \<Rightarrow> byte list \<Rightarrow> iwp_server \<Rightarrow> nat \<times> iwp_server" where
  "create_session mem rng src sv =
     (sv_next sv, put_object (sv_next sv) src (session_new (sv_seckey sv) (sv_rc sv) mem rng) (sv\<lparr>sv_next := sv_next sv + 1\<rparr>))"

definition server_has_session_to :: "byte list \<Rightarrow> iwp_server \<Rightarrow> bool" where
  "server_has_session_to dst sv \<longleftrightarrow> map_of (sv_sessions sv) dst \<noteq> None"

definition find_session :: "byte list \<Rightarrow> iwp_server \<Rightarrow> nat option" where
  "find_session addr sv = map_of (sv_sessions sv) addr"

text \<open>An address that is in the table keeps its session.\<close>

definition put_session :: "byte list \<Rightarrow> nat \<Rightarrow> iwp_server \<Rightarrow> iwp_server option" where
  "put_session src i sv = do {
     (a, s) \<leftarrow> sv_objects sv i;
     let sv = (if map_of (sv_sessions sv) src = None then sv\<lparr>sv_sessions := sv_sessions sv @ [(src, i)]\<rparr> else sv);
     Some (put_object i a (s\<lparr>s_tracked := True, s_our_router := sv_rc sv\<rparr>) sv)
   }"

fun delete_all :: "nat list \<Rightarrow> iwp_server \<Rightarrow> iwp_server option" where
  "delete_all [] sv = Some sv"
| "delete_all (i # is) sv = do { sv \<leftarrow> delete_object i sv; delete_all is sv }"

definition clear_sessions :: "iwp_server \<Rightarrow> iwp_server option" where
  "clear_sessions sv = do {
     sv \<leftarrow> delete_all (map snd (sv_sessions sv)) sv;
     Some (sv\<lparr>sv_sessions := []\<rparr>)
   }"

text \<open>\<open>session::done\<close> takes back the timers of the session; it reports no job, see \<open>handle_establish_timeout\<close>.\<close>

definition RemoveSessionByAddr :: "byte list \<Rightarrow> iwp_server \<Rightarrow> iwp_server option" where
  "RemoveSessionByAddr addr sv =
     (case map_of (sv_sessions sv) addr of
        None \<Rightarrow> Some sv
      | Some i \<Rightarrow> do {
          let sv = UnmapAddr addr sv;
          sv \<leftarrow> delete_object i sv;
          Some (sv\<lparr>sv_sessions := AList.delete addr (sv_sessions sv)\<rparr>)
        })"

section \<open>Ticks, datagrams and jobs\<close>

text \<open>
  \<open>remove\<close> is a \<open>std::set\<close> ordered by \<open>Addr::operator<\<close>, which is no strict weak order (\<open>less_not_asymmetric\<close> of \<open>Net\<close>). Of two different
  addresses one is always less than the other, so none replaces another; the order in which they are removed does not matter. It is a list here.
\<close>

fun tick_objects :: "iwp_env \<Rightarrow> (byte list \<times> nat) list \<Rightarrow> iwp_server \<Rightarrow> (byte list list \<times> iwp_server) option" where
  "tick_objects E [] sv = Some ([], sv)"
| "tick_objects E ((addr, i) # rest) sv = do {
     (a, s) \<leftarrow> sv_objects sv i;
     (done, s) \<leftarrow> Tick E s;
     (remove, sv) \<leftarrow> tick_objects E rest (put_object i a s sv);
     Some ((if done then addr # remove else remove), sv)
   }"

fun remove_all :: "byte list list \<Rightarrow> iwp_server \<Rightarrow> iwp_server option" where
  "remove_all [] sv = Some sv"
| "remove_all (a # as) sv = do { sv \<leftarrow> RemoveSessionByAddr a sv; remove_all as sv }"

definition TickSessions :: "iwp_env \<Rightarrow> iwp_server \<Rightarrow> iwp_server option" where
  "TickSessions E sv = do {
     (remove, sv) \<leftarrow> tick_objects E (sv_sessions sv) sv;
     remove_all remove sv
   }"

definition handle_cleanup_timer :: "iwp_env \<Rightarrow> u64 \<Rightarrow> u64 \<Rightarrow> iwp_server \<Rightarrow> iwp_server option" where
  "handle_cleanup_timer E orig left sv =
     (if left \<noteq> 0 then Some sv
      else do { sv \<leftarrow> TickSessions E sv; Some (sv\<lparr>sv_timer := Some orig\<rparr>) })"

definition SendToSession :: "iwp_env \<Rightarrow> byte list \<Rightarrow> byte list \<Rightarrow> iwp_server \<Rightarrow> (bool \<times> iwp_server) option" where
  "SendToSession E pk buf sv =
     (case map_of (sv_Connected sv) pk of
        None \<Rightarrow> Some (False, sv)
      | Some addr \<Rightarrow>
          (case map_of (sv_sessions sv) addr of
             None \<Rightarrow> Some (False, sv)
           | Some i \<Rightarrow> do {
               (a, s) \<leftarrow> sv_objects sv i;
               s \<leftarrow> sendto E buf s;
               Some (True, put_object i a s sv)
             }))"

text \<open>
  What a step of a session asked of the server: to be put into the table, to be removed from it, to
  have its router's key mapped to its address (\<open>s_mapped\<close>, which is cleared before every step), to be deleted.
\<close>

definition sync :: "nat \<Rightarrow> byte list \<Rightarrow> session \<Rightarrow> session \<Rightarrow> iwp_server \<Rightarrow> iwp_server option" where
  "sync i a before after sv = do {
     let sv = put_object i a after sv;
     sv \<leftarrow> (if \<not> s_tracked before \<and> s_tracked after then put_session a i sv else Some sv);
     let sv = (case s_mapped after of Some pk \<Rightarrow> MapAddr a pk sv | None \<Rightarrow> sv);
     if s_tracked before \<and> \<not> s_tracked after then RemoveSessionByAddr a sv
     else if s_deleted after then delete_object i sv
     else Some sv
   }"

definition handle_recvfrom ::
  "iwp_env \<Rightarrow> (nat \<Rightarrow> byte list) \<Rightarrow> (nat \<Rightarrow> byte) \<Rightarrow> byte list \<Rightarrow> byte list \<Rightarrow> iwp_server \<Rightarrow> iwp_server option" where
  "handle_recvfrom E mem rng saddr buf sv =
     (let (i, sv) = (case find_session saddr sv of Some i \<Rightarrow> (i, sv) | None \<Rightarrow> create_session mem rng saddr sv)
      in do {
        (a, s) \<leftarrow> sv_objects sv i;
        s' \<leftarrow> session_recv E buf (s\<lparr>s_mapped := None\<rparr>);
        sync i a s s' sv
      })"

text \<open>The oldest job of a session, or one that a deleted session left\<close>

definition server_run_job :: "iwp_env \<Rightarrow> unit recv_handler \<Rightarrow> nat \<Rightarrow> job \<Rightarrow> iwp_server \<Rightarrow> iwp_server option" where
  "server_run_job E recv i j sv = do {
     (a, s) \<leftarrow> sv_objects sv i;
     s' \<leftarrow> run_job E recv (server_has_session_to a sv) j (s\<lparr>s_jobs := remove1 j (s_jobs s), s_mapped := None\<rparr>);
     sync i a s s' sv
   }"

definition link_try_establish ::
  "iwp_env \<Rightarrow> (nat \<Rightarrow> byte list) \<Rightarrow> (nat \<Rightarrow> byte) \<Rightarrow> byte list \<Rightarrow> byte list \<Rightarrow> nat \<Rightarrow> iwp_server \<Rightarrow> iwp_server option" where
  "link_try_establish E mem rng dst enc_key job_id sv = do {
     (i, sv) \<leftarrow> (case find_session dst sv of
                   Some i \<Rightarrow> Some (i, sv)
                 | None \<Rightarrow> (let (i, sv) = create_session mem rng dst sv in map_option (Pair i) (put_session dst i sv)));
     (a, s) \<leftarrow> sv_objects sv i;
     s \<leftarrow> introduce enc_key job_id (alive E s);
     Some (put_object i a s sv)
   }"

text \<open>The session is the one behind a \<open>udap_link_session\<close>.\<close>

definition link_mark_session_active :: "iwp_env \<Rightarrow> nat \<Rightarrow> iwp_server \<Rightarrow> iwp_server option" where
  "link_mark_session_active E i sv = do { (a, s) \<leftarrow> sv_objects sv i; Some (put_object i a (alive E s) sv) }"

text \<open>The sessions that the visitor is called with, up to the first that it refuses\<close>

definition link_iter_sessions :: "(nat \<Rightarrow> bool) \<Rightarrow> iwp_server \<Rightarrow> nat list" where
  "link_iter_sessions visit sv =
     (let is = map snd (sv_sessions sv); seen = takeWhile visit is
      in take (length seen + 1) is)"

definition link_start :: "iwp_server \<Rightarrow> iwp_server" where
  "link_start sv = sv\<lparr>sv_timer := Some 100\<rparr>"

definition link_stop :: "iwp_server \<Rightarrow> iwp_server option" where
  "link_stop sv = clear_sessions (sv\<lparr>sv_timer := None\<rparr>)"


section \<open>The invariant of the tables\<close>

text \<open>Every address of the table has one session, its own, and every session of the table is alive.\<close>

definition server_inv :: "iwp_server \<Rightarrow> bool" where
  "server_inv sv \<longleftrightarrow> distinct (map fst (sv_sessions sv)) \<and> distinct (map fst (sv_Connected sv)) \<and>
     (\<forall>(a, i) \<in> set (sv_sessions sv). \<exists>s. sv_objects sv i = Some (a, s)) \<and> (\<forall>i \<ge> sv_next sv. sv_objects sv i = None)"

lemma inv_session:
  assumes "server_inv sv" "map_of (sv_sessions sv) a = Some i" obtains s where "sv_objects sv i = Some (a, s)"
  using assms map_of_SomeD [OF assms(2)] unfolding server_inv_def by blast

lemma inv_one_address:
  assumes "server_inv sv" "(a, i) \<in> set (sv_sessions sv)" "(a', i) \<in> set (sv_sessions sv)" shows "a' = a"
proof -
  have "\<exists>s. sv_objects sv i = Some (a, s)" "\<exists>s. sv_objects sv i = Some (a', s)"
    using assms unfolding server_inv_def by blast+
  then show ?thesis by auto
qed

lemma set_delete_entry: "set (AList.delete k m) = {x \<in> set m. fst x \<noteq> k}"
  by (auto simp: AList.delete_eq)

lemma distinct_delete_entry: "distinct (map f m) \<Longrightarrow> distinct (map f (AList.delete k m))"
  by (simp add: AList.delete_eq distinct_map_filter)

lemma unmap_simps [simp]:
  "sv_sessions (UnmapAddr a sv) = sv_sessions sv" "sv_objects (UnmapAddr a sv) = sv_objects sv"
  "sv_next (UnmapAddr a sv) = sv_next sv" "sv_orphans (UnmapAddr a sv) = sv_orphans sv"
  by (simp_all add: UnmapAddr_def split: option.split)

lemma inv_unmap: "server_inv sv \<Longrightarrow> server_inv (UnmapAddr a sv)"
  by (auto simp: server_inv_def UnmapAddr_def distinct_delete_entry split: option.split)

lemma remove_defined:
  assumes "server_inv sv"
  obtains sv' where "RemoveSessionByAddr a sv = Some sv'" "server_inv sv'" "sv_sessions sv' = AList.delete a (sv_sessions sv)"
    "sv_Connected sv' = (if map_of (sv_sessions sv) a = None then sv_Connected sv else sv_Connected (UnmapAddr a sv))"
    "sv_closed sv' = (if map_of (sv_sessions sv) a = None then sv_closed sv else sv_closed (UnmapAddr a sv))"
    "set (sv_orphans sv) \<subseteq> set (sv_orphans sv')"
    "\<forall>i s. map_of (sv_sessions sv) a = Some i \<longrightarrow> sv_objects sv i = Some (a, s) \<longrightarrow>
      sv_objects sv' i = None \<and> (\<forall>j \<in> set (s_jobs s). (i, j) \<in> set (sv_orphans sv'))"
    "\<forall>i. map_of (sv_sessions sv) a \<noteq> Some i \<longrightarrow> sv_objects sv' i = sv_objects sv i"
proof (cases "map_of (sv_sessions sv) a")
  case None
  then have "AList.delete a (sv_sessions sv) = sv_sessions sv" by (simp add: map_of_eq_None_iff)
  with None assms that [of sv] show thesis by (simp add: RemoveSessionByAddr_def)
next
  case (Some i)
  from inv_session [OF assms this] obtain s where s: "sv_objects sv i = Some (a, s)" .
  let ?sv = "(UnmapAddr a sv)\<lparr>sv_objects := (sv_objects sv)(i := None), sv_orphans := sv_orphans sv @ map (Pair i) (s_jobs s),
    sv_sessions := AList.delete a (sv_sessions sv)\<rparr>"
  have "RemoveSessionByAddr a sv = Some ?sv" using Some s by (simp add: RemoveSessionByAddr_def delete_object_def)
  moreover have "i' \<noteq> i" if "(a', i') \<in> set (sv_sessions sv)" "a' \<noteq> a" for a' i'
    using inv_one_address [OF assms map_of_SomeD [OF Some]] that by blast
  then have "server_inv ?sv"
    using inv_unmap [OF assms, of a] by (auto simp: server_inv_def set_delete_entry distinct_delete_entry)
  moreover have "sv_objects ?sv i' = None \<and> (\<forall>j \<in> set (s_jobs s'). (i', j) \<in> set (sv_orphans ?sv))"
    if "map_of (sv_sessions sv) a = Some i'" "sv_objects sv i' = Some (a, s')" for i' s'
    using that Some s by auto
  ultimately show thesis using that [of ?sv] Some by auto
qed

text \<open>The tick of all sessions: which of them say that they are done\<close>

definition tick_done :: "iwp_env \<Rightarrow> iwp_server \<Rightarrow> nat \<Rightarrow> bool" where
  "tick_done E sv i \<longleftrightarrow> (\<exists>a s s'. sv_objects sv i = Some (a, s) \<and> Tick E s = Some (True, s'))"

lemma Tick_done: "Tick E s = Some (True, s') \<Longrightarrow> s' = s"
  by (auto simp: Tick_def split: if_splits bind_splits)

lemma tick_objects_eq:
  assumes "tick_objects E xs sv = Some (rs, sv')" "distinct (map snd xs)"
  shows "rs = map fst (filter (\<lambda>x. tick_done E sv (snd x)) xs) \<and>
    (\<exists>objs. sv' = sv\<lparr>sv_objects := objs\<rparr> \<and> (\<forall>i. i \<notin> snd ` set xs \<longrightarrow> objs i = sv_objects sv i) \<and>
      (\<forall>i. map_option fst (objs i) = map_option fst (sv_objects sv i)) \<and>
      (\<forall>i. tick_done E sv i \<longrightarrow> objs i = sv_objects sv i))"
  using assms
proof (induction xs arbitrary: sv rs)
  case Nil
  then show ?case by (intro conjI exI [of _ "sv_objects sv"]) auto
next
  case (Cons x xs)
  obtain addr i where x: "x = (addr, i)" by fastforce
  with Cons.prems obtain a s d s1 rs1 where o: "sv_objects sv i = Some (a, s)" and t: "Tick E s = Some (d, s1)"
    and r: "tick_objects E xs (put_object i a s1 sv) = Some (rs1, sv')" "rs = (if d then addr # rs1 else rs1)"
    by (auto split: bind_splits)
  let ?sv = "put_object i a s1 sv"
  have i: "i \<notin> snd ` set xs" "distinct (map snd xs)" using Cons.prems(2) x by auto
  have same: "tick_done E ?sv j = tick_done E sv j" if "j \<noteq> i" for j using that by (simp add: tick_done_def put_object_def)
  have d: "tick_done E sv i = d" using o t by (auto simp: tick_done_def)
  obtain objs where objs: "rs1 = map fst (filter (\<lambda>x. tick_done E ?sv (snd x)) xs)" "sv' = ?sv\<lparr>sv_objects := objs\<rparr>"
    "\<And>j. j \<notin> snd ` set xs \<Longrightarrow> objs j = sv_objects ?sv j" "\<And>j. map_option fst (objs j) = map_option fst (sv_objects ?sv j)"
    "\<And>j. tick_done E ?sv j \<Longrightarrow> objs j = sv_objects ?sv j"
    using Cons.IH [OF r(1) i(2)] by auto
  have "filter (\<lambda>x. tick_done E ?sv (snd x)) xs = filter (\<lambda>x. tick_done E sv (snd x)) xs"
    by (rule filter_cong) (use i(1) same in \<open>auto simp: image_iff\<close>)
  then have "rs = map fst (filter (\<lambda>x. tick_done E sv (snd x)) (x # xs))" using objs(1) r(2) d x by simp
  moreover have "sv' = sv\<lparr>sv_objects := objs\<rparr>" using objs(2) by (simp add: put_object_def)
  moreover have "objs j = sv_objects sv j" if "j \<notin> snd ` set (x # xs)" for j
    using that objs(3) [of j] x by (auto simp: put_object_def)
  moreover have "map_option fst (objs j) = map_option fst (sv_objects sv j)" for j
    using objs(4) [of j] o by (auto simp: put_object_def)
  moreover have "objs j = sv_objects sv j" if "tick_done E sv j" for j
  proof (cases "j = i")
    case True
    then have "s1 = s" using that d t Tick_done by auto
    with True objs(3) [OF i(1)] o show ?thesis by (simp add: put_object_def)
  next
    case False
    then show ?thesis using objs(5) [of j] same that by (simp add: put_object_def)
  qed
  ultimately show ?case by blast
qed

lemma remove_all_eq:
  assumes "server_inv sv"
  shows "\<exists>sv'. remove_all as sv = Some sv' \<and> server_inv sv' \<and> sv_sessions sv' = filter (\<lambda>x. fst x \<notin> set as) (sv_sessions sv) \<and>
    set (sv_orphans sv) \<subseteq> set (sv_orphans sv') \<and>
    (\<forall>a i s. a \<in> set as \<longrightarrow> map_of (sv_sessions sv) a = Some i \<longrightarrow> sv_objects sv i = Some (a, s) \<longrightarrow>
      sv_objects sv' i = None \<and> (\<forall>j \<in> set (s_jobs s). (i, j) \<in> set (sv_orphans sv'))) \<and>
    (\<forall>i. i \<notin> snd ` set (filter (\<lambda>x. fst x \<in> set as) (sv_sessions sv)) \<longrightarrow> sv_objects sv' i = sv_objects sv i)"
  using assms
proof (induction as arbitrary: sv)
  case Nil
  then show ?case by simp
next
  case (Cons b as)
  from remove_defined [OF Cons.prems, of b] obtain sv1 where r: "RemoveSessionByAddr b sv = Some sv1" "server_inv sv1"
    "sv_sessions sv1 = AList.delete b (sv_sessions sv)"
    "sv_Connected sv1 = (if map_of (sv_sessions sv) b = None then sv_Connected sv else sv_Connected (UnmapAddr b sv))"
    "sv_closed sv1 = (if map_of (sv_sessions sv) b = None then sv_closed sv else sv_closed (UnmapAddr b sv))"
    "set (sv_orphans sv) \<subseteq> set (sv_orphans sv1)"
    "\<forall>i s. map_of (sv_sessions sv) b = Some i \<longrightarrow> sv_objects sv i = Some (b, s) \<longrightarrow>
      sv_objects sv1 i = None \<and> (\<forall>j \<in> set (s_jobs s). (i, j) \<in> set (sv_orphans sv1))"
    "\<forall>i. map_of (sv_sessions sv) b \<noteq> Some i \<longrightarrow> sv_objects sv1 i = sv_objects sv i" .
  from Cons.IH [OF r(2)] obtain sv' where n: "remove_all as sv1 = Some sv'" "server_inv sv'"
    "sv_sessions sv' = filter (\<lambda>x. fst x \<notin> set as) (sv_sessions sv1)" "set (sv_orphans sv1) \<subseteq> set (sv_orphans sv')"
    "\<And>a i s. a \<in> set as \<Longrightarrow> map_of (sv_sessions sv1) a = Some i \<Longrightarrow> sv_objects sv1 i = Some (a, s) \<Longrightarrow>
      sv_objects sv' i = None \<and> (\<forall>j \<in> set (s_jobs s). (i, j) \<in> set (sv_orphans sv'))"
    "\<And>i. i \<notin> snd ` set (filter (\<lambda>x. fst x \<in> set as) (sv_sessions sv1)) \<Longrightarrow> sv_objects sv' i = sv_objects sv1 i" by blast
  have look: "map_of (sv_sessions sv1) a = map_of (sv_sessions sv) a" if "a \<noteq> b" for a
    using that r(3) by (simp add: AList.delete_conv')
  have other: "i' \<noteq> i" if "map_of (sv_sessions sv) b = Some i" "(a, i') \<in> set (sv_sessions sv)" "a \<noteq> b" for a i i'
    using inv_one_address [OF Cons.prems map_of_SomeD [OF that(1)]] that(2,3) by blast
  have gone: "sv_objects sv' i = None \<and> (\<forall>j \<in> set (s_jobs s). (i, j) \<in> set (sv_orphans sv'))"
    if "a \<in> set (b # as)" "map_of (sv_sessions sv) a = Some i" "sv_objects sv i = Some (a, s)" for a i s
  proof (cases "a = b")
    case True
    have "i \<notin> snd ` set (filter (\<lambda>x. fst x \<in> set as) (sv_sessions sv1))"
      using other [of i _ i] that(2) True by (auto simp: r(3) set_delete_entry)
    then have "sv_objects sv' i = sv_objects sv1 i" by (rule n(6))
    then show ?thesis using r(7) that True n(4) by auto
  next
    case False
    then have "sv_objects sv1 i = Some (a, s)"
      using r(8) [rule_format, of i] other [of i a i] that map_of_SomeD [OF that(2)] by auto
    then show ?thesis using n(5) [of a i s] look [OF False] that False by auto
  qed
  have kept: "sv_objects sv' i = sv_objects sv i" if "i \<notin> snd ` set (filter (\<lambda>x. fst x \<in> set (b # as)) (sv_sessions sv))" for i
  proof -
    have "map_of (sv_sessions sv) b \<noteq> Some i" using that map_of_SomeD by force
    moreover have "i \<notin> snd ` set (filter (\<lambda>x. fst x \<in> set as) (sv_sessions sv1))"
      using that by (auto simp: r(3) set_delete_entry)
    ultimately show ?thesis using r(8) n(6) by simp
  qed
  have sess: "sv_sessions sv' = filter (\<lambda>x. fst x \<notin> set (b # as)) (sv_sessions sv)"
    using n(3) r(3) by (auto simp: AList.delete_eq conj_commute intro: filter_cong)
  have res: "remove_all (b # as) sv = Some sv'" using r(1) n(1) by simp
  have orph: "set (sv_orphans sv) \<subseteq> set (sv_orphans sv')" using r(6) n(4) by blast
  show ?case using res n(2) sess orph gone kept by blast
qed

text \<open>A session that is over: the server may remove it.\<close>

definition session_over :: "iwp_env \<Rightarrow> session \<Rightarrow> bool" where
  "session_over E s \<longleftrightarrow> (timedout (e_now E) s \<or> is_invalidated s) \<and> \<not> s_working s"

lemma Tick_over: "session_over E s \<Longrightarrow> Tick E s = Some (True, s)"
  by (auto simp: session_over_def Tick_def)

lemma tick_done_over:
  assumes "sv_objects sv i = Some (a, s)" shows "tick_done E sv i = session_over E s"
  using assms by (auto simp: tick_done_def session_over_def Tick_def split: bind_splits)

lemma tick_objects_defined:
  assumes "\<And>a i. (a, i) \<in> set xs \<Longrightarrow> \<exists>s r. sv_objects sv i = Some (a, s) \<and> Tick E s = Some r" "distinct (map snd xs)"
  shows "\<exists>r. tick_objects E xs sv = Some r"
  using assms
proof (induction xs arbitrary: sv)
  case Nil
  then show ?case by simp
next
  case (Cons x xs)
  obtain a i where x: "x = (a, i)" by fastforce
  with Cons.prems(1) [of a i] obtain s d s' where s: "sv_objects sv i = Some (a, s)" "Tick E s = Some (d, s')" by auto
  have "\<exists>r. tick_objects E xs (put_object i a s' sv) = Some r"
  proof (rule Cons.IH)
    fix a' i' assume "(a', i') \<in> set xs"
    with Cons.prems x have "i' \<noteq> i" "\<exists>s r. sv_objects sv i' = Some (a', s) \<and> Tick E s = Some r" by force+
    then show "\<exists>s r. sv_objects (put_object i a s' sv) i' = Some (a', s) \<and> Tick E s = Some r" by (simp add: put_object_def)
  qed (use Cons.prems in simp)
  then show ?case using x s by auto
qed

lemma inv_distinct_objects: "server_inv sv \<Longrightarrow> distinct (map snd (sv_sessions sv))"
proof -
  assume inv: "server_inv sv"
  then have "distinct (map fst (sv_sessions sv))" "inj_on snd (set (sv_sessions sv))"
    using inv_one_address [OF inv] by (auto simp: server_inv_def inj_on_def)
  then show ?thesis by (simp add: distinct_map)
qed

text \<open>The two loops of \<open>TickSessions\<close> together\<close>

lemma tick_sessions_eq:
  assumes "server_inv sv"
    and "\<And>a i s. (a, i) \<in> set (sv_sessions sv) \<Longrightarrow> sv_objects sv i = Some (a, s) \<Longrightarrow> Tick E s \<noteq> None"
  obtains sv' where "TickSessions E sv = Some sv'" "server_inv sv'"
    "sv_sessions sv' = filter (\<lambda>(a, i). \<not> tick_done E sv i) (sv_sessions sv)"
    "\<forall>a i s. (a, i) \<in> set (sv_sessions sv) \<longrightarrow> sv_objects sv i = Some (a, s) \<longrightarrow> session_over E s \<longrightarrow>
      sv_objects sv' i = None \<and> (\<forall>j \<in> set (s_jobs s). (i, j) \<in> set (sv_orphans sv'))"
proof -
  have "\<exists>r. tick_objects E (sv_sessions sv) sv = Some r"
    by (rule tick_objects_defined [OF _ inv_distinct_objects [OF assms(1)]])
      (use assms in \<open>fastforce simp: server_inv_def\<close>)
  then obtain rs sv1 where t: "tick_objects E (sv_sessions sv) sv = Some (rs, sv1)" by auto
  from tick_objects_eq [OF t inv_distinct_objects [OF assms(1)]] obtain objs where
    rs: "rs = map fst (filter (\<lambda>x. tick_done E sv (snd x)) (sv_sessions sv))" and sv1: "sv1 = sv\<lparr>sv_objects := objs\<rparr>"
    and objs: "\<And>i. i \<notin> snd ` set (sv_sessions sv) \<Longrightarrow> objs i = sv_objects sv i"
      "\<And>i. map_option fst (objs i) = map_option fst (sv_objects sv i)" "\<And>i. tick_done E sv i \<Longrightarrow> objs i = sv_objects sv i"
    by blast
  have none: "objs i = None \<longleftrightarrow> sv_objects sv i = None" for i using objs(2) [of i] by (cases "objs i"; cases "sv_objects sv i") auto
  have same: "\<exists>s. objs i = Some (a, s)" if "sv_objects sv i = Some (a, s)" for a i s using objs(2) [of i] that by auto
  have inv1: "server_inv sv1" using assms(1) none same unfolding sv1 server_inv_def by fastforce
  have mem: "a \<in> set rs \<longleftrightarrow> tick_done E sv i" if "(a, i) \<in> set (sv_sessions sv)" for a i
    using that assms(1) unfolding rs server_inv_def by (force dest: eq_key_imp_eq_value)
  from remove_all_eq [OF inv1, of rs] obtain sv' where r: "remove_all rs sv1 = Some sv'" "server_inv sv'"
    "sv_sessions sv' = filter (\<lambda>x. fst x \<notin> set rs) (sv_sessions sv1)"
    "\<And>a i s. a \<in> set rs \<Longrightarrow> map_of (sv_sessions sv1) a = Some i \<Longrightarrow> sv_objects sv1 i = Some (a, s) \<Longrightarrow>
      sv_objects sv' i = None \<and> (\<forall>j \<in> set (s_jobs s). (i, j) \<in> set (sv_orphans sv'))" by blast
  have "sv_sessions sv' = filter (\<lambda>(a, i). \<not> tick_done E sv i) (sv_sessions sv)"
    unfolding r(3) sv1 by (simp, rule filter_cong) (auto simp: mem)
  moreover have "sv_objects sv' i = None \<and> (\<forall>j \<in> set (s_jobs s). (i, j) \<in> set (sv_orphans sv'))"
    if "(a, i) \<in> set (sv_sessions sv)" "sv_objects sv i = Some (a, s)" "session_over E s" for a i s
  proof (rule r(4))
    have "tick_done E sv i" using tick_done_over [OF that(2)] that(3) by simp
    then show "a \<in> set rs" "sv_objects sv1 i = Some (a, s)" using mem [OF that(1)] objs(3) [of i] that(2) by (simp_all add: sv1)
    show "map_of (sv_sessions sv1) a = Some i" using that(1) assms(1) by (simp add: sv1 server_inv_def)
  qed
  moreover have "TickSessions E sv = Some sv'" using t r(1) by (simp add: TickSessions_def)
  ultimately show thesis using that r(2) by blast
qed

section \<open>Theorems\<close>

text \<open>
  C13. A tick of the link: it returns when the tick of each session does, keeps the invariant, and removes
  exactly the sessions that are over (silent for ten seconds or invalidated by both sides, and with
  no handshake step under way).
\<close>

theorem tick_removes_over:
  assumes "server_inv sv"
    and "\<And>a i s. (a, i) \<in> set (sv_sessions sv) \<Longrightarrow> sv_objects sv i = Some (a, s) \<Longrightarrow> Tick E s \<noteq> None"
  shows "\<exists>sv'. TickSessions E sv = Some sv' \<and> server_inv sv' \<and>
    (\<forall>a i s. map_of (sv_sessions sv) a = Some i \<longrightarrow> sv_objects sv i = Some (a, s) \<longrightarrow>
      find_session a sv' = (if session_over E s then None else Some i))"
proof -
  from tick_sessions_eq [OF assms] obtain sv' where t: "TickSessions E sv = Some sv'" "server_inv sv'"
    "sv_sessions sv' = filter (\<lambda>(a, i). \<not> tick_done E sv i) (sv_sessions sv)"
    "\<forall>a i s. (a, i) \<in> set (sv_sessions sv) \<longrightarrow> sv_objects sv i = Some (a, s) \<longrightarrow> session_over E s \<longrightarrow>
      sv_objects sv' i = None \<and> (\<forall>j \<in> set (s_jobs s). (i, j) \<in> set (sv_orphans sv'))" .
  have d: "distinct (map fst (sv_sessions sv))" "distinct (map fst (sv_sessions sv'))"
    using assms(1) t(2) by (simp_all add: server_inv_def)
  have "find_session a sv' = (if session_over E s then None else Some i)"
    if "map_of (sv_sessions sv) a = Some i" "sv_objects sv i = Some (a, s)" for a i s
  proof -
    have o: "tick_done E sv i = session_over E s" by (rule tick_done_over [OF that(2)])
    have u: "i' = i" if "(a, i') \<in> set (sv_sessions sv)" for i'
      using that \<open>map_of (sv_sessions sv) a = Some i\<close> d(1) by simp
    show ?thesis
    proof (cases "session_over E s")
      case True
      then have "a \<notin> fst ` set (sv_sessions sv')" using o u by (auto simp: t(3))
      with True show ?thesis by (simp add: find_session_def map_of_eq_None_iff)
    next
      case False
      then have "(a, i) \<in> set (sv_sessions sv')" using o map_of_SomeD [OF that(1)] by (simp add: t(3))
      with False d(2) show ?thesis by (simp add: find_session_def)
    qed
  qed
  with t show ?thesis by blast
qed

text \<open>
  The removal of a session whose router is known: the session is gone, the router is told of the one key
  mapped to its address and of no other, and every other key and address keeps what it had.
\<close>

theorem session_removed:
  assumes "server_inv sv" "find_session a sv = Some i" "map_of (sv_Connected sv) pk = Some a"
    and "\<And>pk'. map_of (sv_Connected sv) pk' = Some a \<Longrightarrow> pk' = pk"
  shows "\<exists>sv'. RemoveSessionByAddr a sv = Some sv' \<and> server_inv sv' \<and> find_session a sv' = None \<and>
    \<not> HasSessionToRouter pk sv' \<and> sv_closed sv' = sv_closed sv @ [pk] \<and>
    (\<forall>b. b \<noteq> a \<longrightarrow> find_session b sv' = find_session b sv) \<and>
    (\<forall>k. k \<noteq> pk \<longrightarrow> HasSessionToRouter k sv' = HasSessionToRouter k sv)"
proof -
  from remove_defined [OF assms(1), of a] obtain sv' where r: "RemoveSessionByAddr a sv = Some sv'" "server_inv sv'"
    "sv_sessions sv' = AList.delete a (sv_sessions sv)"
    "sv_Connected sv' = (if map_of (sv_sessions sv) a = None then sv_Connected sv else sv_Connected (UnmapAddr a sv))"
    "sv_closed sv' = (if map_of (sv_sessions sv) a = None then sv_closed sv else sv_closed (UnmapAddr a sv))"
    "set (sv_orphans sv) \<subseteq> set (sv_orphans sv')"
    "\<forall>i s. map_of (sv_sessions sv) a = Some i \<longrightarrow> sv_objects sv i = Some (a, s) \<longrightarrow>
      sv_objects sv' i = None \<and> (\<forall>j \<in> set (s_jobs s). (i, j) \<in> set (sv_orphans sv'))"
    "\<forall>i. map_of (sv_sessions sv) a \<noteq> Some i \<longrightarrow> sv_objects sv' i = sv_objects sv i" .
  have d: "distinct (map fst (sv_Connected sv))" using assms(1) by (simp add: server_inv_def)
  have "(pk, a) \<in> set (sv_Connected sv)" using map_of_SomeD [OF assms(3)] .
  then obtain x where x: "List.find (\<lambda>x. a = snd x) (sv_Connected sv) = Some x"
    by (cases "List.find (\<lambda>x. a = snd x) (sv_Connected sv)") (auto simp: find_None_iff)
  then have "x \<in> set (sv_Connected sv)" "snd x = a" by (auto simp: find_Some_iff)
  then have "map_of (sv_Connected sv) (fst x) = Some a" using d by (metis map_of_eq_Some_iff prod.collapse)
  then have "fst x = pk" by (rule assms(4))
  then have "sv_Connected sv' = AList.delete pk (sv_Connected sv)" "sv_closed sv' = sv_closed sv @ [pk]"
    using r(4,5) x assms(2) by (simp_all add: UnmapAddr_def find_session_def)
  then show ?thesis using r(1,2,3)
    by (intro exI [of _ sv']) (simp add: find_session_def HasSessionToRouter_def AList.delete_conv' del: not_None_eq)
qed

text \<open>
  A session that is over while a job for it is queued, as the job that encrypts its frames (only the
  handshake steps set \<open>working\<close>): the tick deletes the session, and the job runs on freed memory.
\<close>

theorem removed_with_jobs:
  assumes "server_inv sv"
    and "\<And>a i s. (a, i) \<in> set (sv_sessions sv) \<Longrightarrow> sv_objects sv i = Some (a, s) \<Longrightarrow> Tick E s \<noteq> None"
    and "(a, i) \<in> set (sv_sessions sv)" "sv_objects sv i = Some (a, s)" "session_over E s" "j \<in> set (s_jobs s)"
  shows "\<exists>sv'. TickSessions E sv = Some sv' \<and> (i, j) \<in> set (sv_orphans sv') \<and> server_run_job E recv i j sv' = None"
proof -
  from tick_sessions_eq [OF assms(1,2)] obtain sv' where t: "TickSessions E sv = Some sv'" "server_inv sv'"
    "sv_sessions sv' = filter (\<lambda>(a, i). \<not> tick_done E sv i) (sv_sessions sv)"
    "\<forall>a i s. (a, i) \<in> set (sv_sessions sv) \<longrightarrow> sv_objects sv i = Some (a, s) \<longrightarrow> session_over E s \<longrightarrow>
      sv_objects sv' i = None \<and> (\<forall>j \<in> set (s_jobs s). (i, j) \<in> set (sv_orphans sv'))" .
  then have "sv_objects sv' i = None" "(i, j) \<in> set (sv_orphans sv')" using assms(3-6) by blast+
  then show ?thesis using t(1) by (simp add: server_run_job_def)
qed

text \<open>
  A link that is stopped: its sessions are deleted, but the keys stay mapped. The link still says
  that it has sessions to the routers it was connected to, and every send to them fails.
\<close>

theorem stop_keeps_keys:
  assumes "link_stop sv = Some sv'"
  shows "sv_sessions sv' = [] \<and> HasSessionToRouter pk sv' = HasSessionToRouter pk sv \<and>
    SendToSession E pk buf sv' = Some (False, sv')"
proof -
  have "sv_Connected sv2 = sv_Connected sv1" if "delete_all is sv1 = Some sv2" for "is" sv1 sv2
    using that by (induction "is" arbitrary: sv1) (auto simp: delete_object_def split: bind_splits)
  from this [of "map snd (sv_sessions sv)" "sv\<lparr>sv_timer := None\<rparr>"]
  have "sv_sessions sv' = []" "sv_Connected sv' = sv_Connected sv"
    using assms by (auto simp: link_stop_def clear_sessions_def split: bind_splits)
  then show ?thesis by (simp add: HasSessionToRouter_def SendToSession_def split: option.split)
qed

lemma tick_dangling:
  assumes "(a, i) \<in> set xs" "sv_objects sv i = None" shows "tick_objects E xs sv = None"
  using assms
proof (induction xs arbitrary: sv)
  case (Cons x xs)
  obtain a' i' where x: "x = (a', i')" by fastforce
  show ?case
  proof (cases "i' = i")
    case True
    with x Cons.prems(2) show ?thesis by simp
  next
    case False
    then have "tick_objects E xs (put_object i' b s sv) = None" for b s
      using Cons x by (auto simp: put_object_def)
    with x show ?thesis by (auto split: bind_splits)
  qed
qed simp

lemma session_new_sizes:
  "length (s_workbuf (session_new k rc mem rng)) = length (mem 256)" "s_state (session_new k rc mem rng) = eInitial"
  "s_tracked (session_new k rc mem rng) = False" "s_mapped (session_new k rc mem rng) = None"
  "s_jobs (session_new k rc mem rng) = []" "s_deleted (session_new k rc mem rng) = False"
  by (simp_all add: session_new_def randbytes_def MAX_PAD_def)

lemma unmapped: "s_mapped s = None \<Longrightarrow> s\<lparr>s_mapped := None\<rparr> = s"
  by (cases s) simp

text \<open>
  C36. A connection attempt that the other side, or anyone who writes its address on a datagram, answers
  too early: until the introduction is sent the session is in \<open>eInitial\<close>, where a datagram of 256
  bytes or more deletes it and leaves it in the table. The next tick uses freed memory.
\<close>

theorem early_datagram_frees:
  assumes "find_session dst sv = None" "\<And>n. length (mem n) = n" "length k = 32" "length buf \<ge> 256"
  shows "\<exists>sv1 sv2. link_try_establish E mem rng dst k j sv = Some sv1 \<and>
    handle_recvfrom E mem' rng' dst buf sv1 = Some sv2 \<and> find_session dst sv2 = Some (sv_next sv) \<and>
    TickSessions E' sv2 = None"
proof -
  let ?i = "sv_next sv" and ?n = "session_new (sv_seckey sv) (sv_rc sv) mem rng"
  let ?s = "alive E (?n\<lparr>s_tracked := True, s_our_router := sv_rc sv\<rparr>)"
  have w: "length (s_workbuf ?s) = 256" using assms(2) by (simp add: alive_def session_new_sizes)
  from introduce_fills [OF this assms(3)] obtain w n g where
    i: "introduce k j ?s = Some (?s\<lparr>s_remote := k, s_workbuf := w, s_intro_sz := n, s_working := True,
      s_establish_job_id := j, s_jobs := s_jobs ?s @ [GenIntro], s_rng := g\<rparr>)" "length w = 256" by fastforce
  let ?t = "?s\<lparr>s_remote := k, s_workbuf := w, s_intro_sz := n, s_working := True,
      s_establish_job_id := j, s_jobs := s_jobs ?s @ [GenIntro], s_rng := g\<rparr>"
  let ?sv = "sv\<lparr>sv_next := ?i + 1, sv_sessions := sv_sessions sv @ [(dst, ?i)], sv_objects := (sv_objects sv)(?i \<mapsto> (dst, ?t))\<rparr>"
  have l: "map_of (sv_sessions sv) dst = None" using assms(1) by (simp add: find_session_def)
  have e: "link_try_establish E mem rng dst k j sv = Some ?sv"
    using l i(1) by (simp add: link_try_establish_def find_session_def create_session_def put_session_def put_object_def)
  have f: "find_session dst ?sv = Some ?i" using l by (simp add: find_session_def map_add_def split: option.split)
  have r: "session_recv E buf ?t = Some (?t\<lparr>s_deleted := True\<rparr>)"
    using assms(4) i(2) by (simp add: session_recv_def on_intro_def alive_def session_new_sizes)
  let ?sv2 = "?sv\<lparr>sv_objects := (sv_objects ?sv)(?i := None), sv_orphans := sv_orphans sv @ [(?i, GenIntro)]\<rparr>"
  have h: "handle_recvfrom E mem' rng' dst buf ?sv = Some ?sv2"
    using r f by (simp add: handle_recvfrom_def sync_def put_object_def delete_object_def alive_def session_new_sizes unmapped)
  have f2: "find_session dst ?sv2 = Some ?i" using f by (simp add: find_session_def)
  have "TickSessions E' ?sv2 = None" by (simp add: TickSessions_def tick_dangling [of dst ?i])
  with e h f2 show ?thesis by blast
qed

text \<open>
  A first datagram that is no valid introduction: the session made for it is in no table, no job is left for it,
  and no later operation deletes it. Every such datagram costs the link a session.
\<close>

theorem bad_intro_leaks:
  assumes "find_session a sv = None" "\<And>n. length (mem n) = n" "length buf < 256"
    and "handle_recvfrom E mem rng a buf sv = Some sv1" "server_run_job E recv (sv_next sv) VerifyIntro sv1 = Some sv2"
    and "verify_intro (e_sodium E) (job_stack E) \<lparr>i_buf = Some (buf @ drop (length buf) (mem 256)), i_sz = length buf,
      i_remote_pubkey = mem 32, i_secretkey = sv_seckey sv\<rparr> = Some v" "i_buf v = None"
  shows "\<exists>s. sv_objects sv2 (sv_next sv) = Some (a, s) \<and> s_jobs s = [] \<and> sv_sessions sv2 = sv_sessions sv \<and>
    sv_next sv2 = sv_next sv + 1"
proof -
  let ?i = "sv_next sv" and ?n = "session_new (sv_seckey sv) (sv_rc sv) mem rng"
  let ?s = "queue_job VerifyIntro ((EnterState E eIntroRecv (?n\<lparr>s_workbuf := buf @ drop (length buf) (mem 256), s_intro_sz := length buf\<rparr>))
    \<lparr>s_working := True\<rparr>)"
  have n: "s_workbuf ?n = mem 256" "s_remote ?n = mem 32" "s_eph_seckey ?n = sv_seckey sv"
    by (simp_all add: session_new_def randbytes_def MAX_PAD_def)
  have "session_recv E buf ?n = Some ?s"
    using receive_workbuf [of ?n buf] assms(2,3) n by (simp add: session_recv_def session_new_sizes on_intro_def)
  then have sv1: "sv1 = sv\<lparr>sv_next := ?i + 1, sv_objects := (sv_objects sv)(?i \<mapsto> (a, ?s))\<rparr>"
    using assms(1,4) by (simp add: handle_recvfrom_def create_session_def put_object_def sync_def handshake_defs session_new_sizes unmapped Let_def)
  let ?t = "?s\<lparr>s_jobs := [], s_remote := i_remote_pubkey v, s_working := False\<rparr>"
  have "run_job E recv d VerifyIntro (?s\<lparr>s_jobs := []\<rparr>) = Some ?t" for d
    using assms(6,7) n by (simp add: run_job_def run_verify_intro_def handshake_defs)
  then have "sv2 = sv1\<lparr>sv_objects := (sv_objects sv1)(?i \<mapsto> (a, ?t))\<rparr>"
    using assms(5) unfolding sv1 by (simp add: server_run_job_def sync_def put_object_def handshake_defs session_new_sizes unmapped Let_def)
  then show ?thesis using sv1 by simp
qed

text \<open>
  C12. A session that becomes established: the link has a session to its router from then on, and what is
  sent to the router's key is sent on that session.
\<close>

theorem established_session_sends:
  assumes "find_session a sv = Some i" "sv_objects sv i = Some (a, s)" "s_tracked s" "\<not> s_deleted s"
    and "pk = rc_pubkey (s_remote_router s)" "s' = session_established E (s\<lparr>s_jobs := remove1 SessionEstablished (s_jobs s)\<rparr>)"
  shows "\<exists>sv1. server_run_job E recv i SessionEstablished sv = Some sv1 \<and> sv_objects sv1 i = Some (a, s') \<and>
    HasSessionToRouter pk sv1 \<and> SendToSession E pk buf sv1 = map_option (\<lambda>s2. (True, put_object i a s2 sv1)) (sendto E buf s') \<and>
    (\<forall>k. k \<noteq> pk \<longrightarrow> HasSessionToRouter k sv1 = HasSessionToRouter k sv)"
proof -
  let ?sv = "MapAddr a pk (put_object i a s' sv)"
  have s': "s_tracked s'" "s_mapped s' = Some pk" "\<not> s_deleted s'"
    using assms(3-6) by (simp_all add: session_established_def handshake_defs)
  have "session_established E (s\<lparr>s_jobs := remove1 SessionEstablished (s_jobs s), s_mapped := None\<rparr>) = s'"
    using assms(6) by (simp add: session_established_def handshake_defs)
  then have "server_run_job E recv i SessionEstablished sv = Some ?sv"
    using assms(2-4) s' by (simp add: server_run_job_def run_job_def sync_def Let_def)
  moreover have "SendToSession E pk buf ?sv = map_option (\<lambda>s2. (True, put_object i a s2 ?sv)) (sendto E buf s')"
    using assms(1) by (cases "sendto E buf s'") (simp_all add: SendToSession_def MapAddr_def put_object_def find_session_def update_conv')
  moreover have "sv_objects ?sv i = Some (a, s')" by (simp add: MapAddr_def put_object_def)
  moreover have "HasSessionToRouter k ?sv \<longleftrightarrow> k = pk \<or> HasSessionToRouter k sv" for k
    by (simp add: HasSessionToRouter_def MapAddr_def put_object_def update_conv')
  ultimately show ?thesis by blast
qed

section \<open>Witnesses\<close>

definition example_server :: iwp_server where
  "example_server = (server_new (example_key 1) example_rc)
     \<lparr>sv_sessions := [([1], 0), ([2], 1)], sv_Connected := [([9], [1]), ([8], [2])], sv_next := 2,
      sv_objects := [0 \<mapsto> ([1], (example_session 1)\<lparr>s_tracked := True, s_jobs := [CryptoOutbound]\<rparr>),
        1 \<mapsto> ([2], (example_session 2)\<lparr>s_tracked := True, s_working := True\<rparr>)]\<rparr>"

abbreviation "later \<equiv> example_env\<lparr>e_now := 20000\<rparr>"

lemma example_server_inv: "server_inv example_server"
  by (simp add: server_inv_def example_server_def server_new_def)

lemma example_over:
  "session_over later ((example_session x)\<lparr>s_tracked := t, s_jobs := js\<rparr>)"
  "\<not> session_over later ((example_session x)\<lparr>s_tracked := t, s_working := True\<rparr>)"
  by (simp_all add: session_over_def timedout_def example_session_def session_new_def randbytes_def frame_state_new_def
      SESSION_TIMEOUT_def)

lemma example_tick:
  "Tick later ((example_session x)\<lparr>s_tracked := t, s_jobs := js\<rparr>) \<noteq> None"
  "Tick later ((example_session x)\<lparr>s_tracked := t, s_working := True\<rparr>) \<noteq> None"
  by (simp_all add: Tick_def timedout_def example_session_def session_new_def randbytes_def frame_state_new_def
      SESSION_TIMEOUT_def)

lemma example_ticks:
  "(a, i) \<in> set (sv_sessions example_server) \<Longrightarrow> sv_objects example_server i = Some (a, s) \<Longrightarrow> Tick later s \<noteq> None"
  using example_tick by (auto simp: example_server_def server_new_def)

theorem tick_removes_over_witness:
  "\<exists>sv'. TickSessions later example_server = Some sv' \<and> find_session [1] sv' = None \<and> find_session [2] sv' = Some 1"
proof -
  let ?t = "(example_session 2)\<lparr>s_tracked := True, s_working := True\<rparr>"
  let ?s = "(example_session 1)\<lparr>s_tracked := True, s_jobs := [CryptoOutbound]\<rparr>"
  have "\<exists>sv'. TickSessions later example_server = Some sv' \<and> server_inv sv' \<and>
    (\<forall>a i s. map_of (sv_sessions example_server) a = Some i \<longrightarrow> sv_objects example_server i = Some (a, s) \<longrightarrow>
      find_session a sv' = (if session_over later s then None else Some i))"
    by (rule tick_removes_over [OF example_server_inv]) (rule example_ticks)
  then obtain sv' where t: "TickSessions later example_server = Some sv'"
    "\<And>a i s. map_of (sv_sessions example_server) a = Some i \<Longrightarrow> sv_objects example_server i = Some (a, s) \<Longrightarrow>
      find_session a sv' = (if session_over later s then None else Some i)" by blast
  show ?thesis using t(1) t(2) [of "[1]" 0 ?s] t(2) [of "[2]" 1 ?t] example_over
    by (simp add: example_server_def server_new_def)
qed

theorem session_removed_witness:
  "\<exists>sv'. RemoveSessionByAddr [1] example_server = Some sv' \<and> find_session [1] sv' = None \<and>
    \<not> HasSessionToRouter [9] sv' \<and> HasSessionToRouter [8] sv' \<and> sv_closed sv' = [[9]]"
proof -
  have f: "find_session [1] example_server = Some 0" "map_of (sv_Connected example_server) [9] = Some [1]"
    "HasSessionToRouter [8] example_server" "sv_closed example_server = []"
    by (simp_all add: find_session_def HasSessionToRouter_def example_server_def server_new_def)
  have "pk = [9]" if "map_of (sv_Connected example_server) pk = Some [1]" for pk
    using that by (simp add: example_server_def server_new_def split: if_splits)
  from session_removed [OF example_server_inv f(1,2) this] show ?thesis using f(3,4) by auto
qed

theorem removed_with_jobs_witness:
  "\<exists>sv'. TickSessions later example_server = Some sv' \<and> (0, CryptoOutbound) \<in> set (sv_orphans sv') \<and>
    server_run_job later (\<lambda>m s. None) 0 CryptoOutbound sv' = None"
proof (rule removed_with_jobs [OF example_server_inv])
  show "session_over later ((example_session 1)\<lparr>s_tracked := True, s_jobs := [CryptoOutbound]\<rparr>)" by (rule example_over)
qed (auto simp: example_server_def server_new_def example_tick [simplified])

theorem stop_keeps_keys_witness:
  "\<exists>sv'. link_stop example_server = Some sv' \<and> HasSessionToRouter [9] sv' \<and> SendToSession example_env [9] [7] sv' = Some (False, sv')"
proof -
  have "\<exists>sv'. link_stop example_server = Some sv'"
    by (simp add: link_stop_def clear_sessions_def example_server_def server_new_def delete_object_def)
  then obtain sv' where "link_stop example_server = Some sv'" by blast
  with stop_keeps_keys [OF this, of "[9]" example_env "[7]"] show ?thesis
    by (simp add: HasSessionToRouter_def example_server_def server_new_def)
qed

theorem early_datagram_frees_witness:
  "\<exists>sv1 sv2. link_try_establish example_env (\<lambda>n. replicate n 0) (\<lambda>_. 0) [3] (replicate 32 4) 1 example_server = Some sv1 \<and>
    handle_recvfrom example_env (\<lambda>n. replicate n 0) (\<lambda>_. 0) [3] (replicate 256 0) sv1 = Some sv2 \<and>
    find_session [3] sv2 = Some 2 \<and> TickSessions example_env sv2 = None"
proof -
  have "find_session [3] example_server = None" "sv_next example_server = 2"
    by (simp_all add: find_session_def example_server_def server_new_def)
  then show ?thesis
    using early_datagram_frees [of "[3]" example_server "\<lambda>n. replicate n 0" "replicate 32 4" "replicate 256 0" example_env "\<lambda>_. 0" 1
      "\<lambda>n. replicate n 0" "\<lambda>_. 0" example_env] by simp
qed

theorem established_session_sends_witness:
  "\<exists>sv1. server_run_job example_env (\<lambda>m s. None) 0 SessionEstablished example_server = Some sv1 \<and>
    HasSessionToRouter (rc_pubkey rc_zero) sv1 \<and> HasSessionToRouter [8] sv1"
proof -
  let ?s = "(example_session 1)\<lparr>s_tracked := True, s_jobs := [CryptoOutbound]\<rparr>"
  have s: "find_session [1] example_server = Some 0" "sv_objects example_server 0 = Some ([1], ?s)" "HasSessionToRouter [8] example_server"
    by (simp_all add: find_session_def HasSessionToRouter_def example_server_def server_new_def)
  have t: "s_tracked ?s" "\<not> s_deleted ?s" "rc_pubkey rc_zero = rc_pubkey (s_remote_router ?s)"
    by (simp_all add: example_session_def session_new_def randbytes_def)
  from established_session_sends [OF s(1,2) t refl] s(3) show ?thesis by metis
qed

end
