(* ===== verification/Api.thy ===== *)
theory Api
  imports Routing Crypto Net
begin

text \<open>
  The client interface (\<open>udap/api/message.cpp\<close>, \<open>create_session.cpp\<close>, \<open>parser.cpp\<close>, \<open>client.cpp\<close>): its messages, their
  authentication by a password, the parser and the client. The parser keeps a pointer to the message it made,
  which its user deletes; a pointer to a deleted message is a value of its own, and following it or
  deleting it again is undefined. The socket, \<open>inet_pton\<close> and what the stack holds are parameters.
\<close>

section \<open>Messages\<close>

text \<open>\<open>CreateSessionMessage\<close>, the only message that can be made; it has no parameters. \<open>version\<close> is not used.\<close>

record api_message =
  am_sessionID :: u64
  am_msgID :: u64
  am_hash :: "byte list"

definition CreateSessionMessage_new :: "byte list \<Rightarrow> api_message" where
  "CreateSessionMessage_new uninit = \<lparr>am_sessionID = 0, am_msgID = 0, am_hash = uninit\<rparr>"

definition FunctionName :: "byte list" where
  "FunctionName = lit ''CreateSession''"

definition api_BEncode :: "api_message \<Rightarrow> writer" where
  "api_BEncode msg =
     wseq [bencode_start_dict,
       BEncodeWriteDictString ''F'' FunctionName,
       BEncodeWriteDictInt ''I'' (am_sessionID msg),
       BEncodeWriteDictInt ''M'' (am_msgID msg),
       BEncodeWriteDictBEncodeList ''P'' [],
       BEncodeWriteDictEntry ''Z'' (AlignedBuffer_BEncode (am_hash msg)),
       bencode_end]"

text \<open>The parameters are decoded into a local list.\<close>

definition DecodeParams :: "api_message act" where
  "DecodeParams msg buf = do {
     (ok, params, buf) \<leftarrow> BEncodeReadList [] Encrypted_BDecode [] buf;
     Some (ok, msg, buf)
   }"

definition api_DecodeKey :: "udap_buffer_t \<Rightarrow> api_message act" where
  "api_DecodeKey key msg buf =
     if_key key ''P'' (DecodeParams msg buf)
       (decode_fields
         [field am_sessionID (\<lambda>x. am_sessionID_update (\<lambda>_. x)) (BEncodeMaybeReadDictInt ''I'' key),
          field am_msgID (\<lambda>x. am_msgID_update (\<lambda>_. x)) (BEncodeMaybeReadDictInt ''M'' key),
          field am_hash (\<lambda>x. am_hash_update (\<lambda>_. x)) (BEncodeMaybeReadDictEntry ''Z'' (AlignedBuffer_BDecode 32) key)] msg buf)"

definition IsWellFormed :: "sodium \<Rightarrow> byte list \<Rightarrow> byte list \<Rightarrow> api_message \<Rightarrow> (bool \<times> api_message) option" where
  "IsWellFormed S tmp password msg = do {
     let secret = snd (sodium_shorthash S password);
     let tmpHash = am_hash msg;
     let msg = msg\<lparr>am_hash := replicate 32 0\<rparr>;
     (ok, buf) \<leftarrow> api_BEncode msg (StackBuffer tmp);
     if \<not> ok then Some (False, msg)
     else do {
       let digest = snd (sodium_hmac S (encoded buf) secret);
       Some (AlignedBuffer_eq tmpHash digest, msg\<lparr>am_hash := tmpHash\<rparr>)
     }
   }"

definition CalculateHash :: "sodium \<Rightarrow> byte list \<Rightarrow> byte list \<Rightarrow> api_message \<Rightarrow> api_message option" where
  "CalculateHash S tmp password msg = do {
     let secret = snd (sodium_shorthash S password);
     let msg = msg\<lparr>am_hash := replicate 32 0\<rparr>;
     (ok, buf) \<leftarrow> api_BEncode msg (StackBuffer tmp);
     Some (if ok then msg\<lparr>am_hash := snd (sodium_hmac S (encoded buf) secret)\<rparr> else msg)
   }"

section \<open>Parser\<close>

datatype message_ptr = NullMessage | Live api_message | Freed

text \<open>\<open>udap_buffer_t\<close> as a string: \<open>sz\<close> bytes from the position\<close>

definition buffer_string :: "udap_buffer_t \<Rightarrow> byte list option" where
  "buffer_string b = mem_load (b_mem b) (b_cur b) (b_sz b)"

definition api_OnKey :: "byte list \<Rightarrow> udap_buffer_t option \<Rightarrow> message_ptr act" where
  "api_OnKey uninit key msg buf =
     (case (msg, key) of
        (NullMessage, None) \<Rightarrow> Some (False, msg, buf)
      | (NullMessage, Some key) \<Rightarrow>
          if_key key ''f''
            (if_string (\<lambda>strbuf msg buf. do {
               funcname \<leftarrow> buffer_string strbuf;
               if funcname = lit ''CreateSession'' then Some (True, Live (CreateSessionMessage_new uninit), buf)
               else Some (False, msg, buf)
             }) msg buf)
            (Some (False, msg, buf))
      | (Live m, Some key) \<Rightarrow> do { (ok, m, buf) \<leftarrow> api_DecodeKey key m buf; Some (ok, Live m, buf) }
      | (Freed, Some key) \<Rightarrow> None
      | (_, None) \<Rightarrow> Some (True, msg, buf))"

text \<open>The result is \<open>nullptr\<close> or the parser's message.\<close>

definition ParseMessage :: "byte list \<Rightarrow> udap_buffer_t \<Rightarrow> message_ptr \<Rightarrow> (message_ptr \<times> message_ptr) option" where
  "ParseMessage uninit buf msg = do {
     (ok, msg, buf) \<leftarrow> bencode_read_dict (api_OnKey uninit) msg buf;
     Some (if ok then msg else NullMessage, msg)
   }"

section \<open>Client\<close>

record api_client =
  cl_apiAddr :: "byte list"
  cl_parser :: message_ptr
  cl_sent :: "byte list list"

definition delete_message :: "message_ptr \<Rightarrow> message_ptr option" where
  "delete_message m = (case m of Freed \<Rightarrow> None | _ \<Rightarrow> Some Freed)"

text \<open>\<open>n\<close> bytes were received into the array \<open>readbuf\<close> of the event loop.\<close>

definition RecvFrom :: "byte list \<Rightarrow> byte list \<Rightarrow> byte list \<Rightarrow> nat \<Rightarrow> api_client \<Rightarrow> api_client option" where
  "RecvFrom uninit src readbuf n c =
     (if family_of (bytes_at 0 2 src) \<noteq> AF_INET \<or> bytes_at 4 4 src \<noteq> bytes_at 4 4 (cl_apiAddr c) \<or>
         bytes_at 2 2 src \<noteq> bytes_at 2 2 (cl_apiAddr c) then Some c
      else do {
        (msg, p) \<leftarrow> ParseMessage uninit \<lparr>b_mem = readbuf, b_base = 0, b_cur = 0, b_sz = n\<rparr> (cl_parser c);
        (case msg of
           NullMessage \<Rightarrow> Some (c\<lparr>cl_parser := p\<rparr>)
         | _ \<Rightarrow> do { p \<leftarrow> delete_message msg; Some (c\<lparr>cl_parser := p\<rparr>) })
      })"

text \<open>All of the array goes to the socket, not the bytes that were written.\<close>

definition SendMessage :: "(byte list \<Rightarrow> bool) \<Rightarrow> byte list \<Rightarrow> api_message \<Rightarrow> api_client \<Rightarrow> (bool \<times> api_client) option" where
  "SendMessage send tmp msg c = do {
     (ok, buf) \<leftarrow> api_BEncode msg (StackBuffer tmp);
     if ok then do {
       pkt \<leftarrow> mem_load (b_mem buf) (b_base buf) (b_sz buf);
       Some (send pkt, c\<lparr>cl_sent := cl_sent c @ [pkt]\<rparr>)
     }
     else Some (False, c)
   }"

text \<open>For a text that is no address \<open>inet_pton\<close> returns 0, not -1, and the address stays as it was.\<close>

definition StartSession ::
  "(byte list \<Rightarrow> byte list option) \<Rightarrow> (byte list \<Rightarrow> bool) \<Rightarrow> byte list \<Rightarrow> byte list \<Rightarrow> byte list \<Rightarrow> u16 \<Rightarrow> api_client \<Rightarrow>
    (bool \<times> api_client) option" where
  "StartSession pton send uninit tmp addr port c = do {
     let a = put_bytes 0 (machine16 (of_int AF_INET)) (cl_apiAddr c);
     let a = (case pton (takeWhile (\<lambda>x. x \<noteq> 0) addr) of Some ip \<Rightarrow> put_bytes 4 ip a | None \<Rightarrow> a);
     let a = put_bytes 2 (htons port) a;
     SendMessage send tmp (CreateSessionMessage_new uninit) (c\<lparr>cl_apiAddr := a\<rparr>)
   }"

datatype api_error = InvalidArgument | OutOfRange | Undefined

definition stoi :: "byte list \<Rightarrow> api_error + int" where
  "stoi s =
     (let t = dropWhile isspace s; t = (if t \<noteq> [] \<and> hd t \<in> {43, 45} then tl t else t)
      in if t = [] \<or> \<not> isdigit (hd t) then Inl InvalidArgument
         else if strtol10 s < - (2 ^ 31) \<or> strtol10 s \<ge> 2 ^ 31 then Inl OutOfRange
         else Inr (strtol10 s))"

definition Client_Start ::
  "(byte list \<Rightarrow> byte list option) \<Rightarrow> bool \<Rightarrow> (byte list \<Rightarrow> bool) \<Rightarrow> byte list \<Rightarrow> byte list \<Rightarrow> byte list \<Rightarrow> api_client \<Rightarrow>
    api_error + bool \<times> api_client" where
  "Client_Start pton bound send uninit tmp url c =
     (if 58 \<notin> set url \<or> \<not> bound then Inr (False, c)
      else (let addr = takeWhile (\<lambda>x. x \<noteq> 58) url; strport = tl (dropWhile (\<lambda>x. x \<noteq> 58) url)
            in case stoi strport of
                 Inl e \<Rightarrow> Inl e
               | Inr port \<Rightarrow>
                   if port = -1 then Inr (False, c)
                   else (case StartSession pton send uninit tmp addr (of_int port) c of
                           None \<Rightarrow> Inl Undefined
                         | Some r \<Rightarrow> Inr r)))"

section \<open>Wire format\<close>

definition api_fields :: "api_message \<Rightarrow> byte list" where
  "api_fields m = bstr (lit ''I'') @ bint (sint (am_sessionID m)) @ bstr (lit ''M'') @ bint (sint (am_msgID m)) @
     bstr (lit ''P'') @ (108 # [101]) @ bstr (lit ''Z'') @ bstr (am_hash m)"

definition api_bytes :: "char \<Rightarrow> api_message \<Rightarrow> byte list" where
  "api_bytes f m = 100 # (bstr (lit [f]) @ bstr FunctionName @ api_fields m) @ [101]"

definition api_valid :: "api_message \<Rightarrow> bool" where
  "api_valid m \<longleftrightarrow> am_sessionID m \<noteq> -1 \<and> am_msgID m \<noteq> -1 \<and> length (am_hash m) = 32"

lemma exact_api:
  assumes "length (am_hash m) = 32" shows "exact (api_BEncode m) (api_bytes CHR ''F'' m)"
proof -
  have f: "exact (BEncodeWriteDictString ''F'' FunctionName) (bstr (lit ''F'') @ bstr FunctionName)"
    unfolding BEncodeWriteDictString_def by (intro exact_wthen exact_key exact_bytestring) (simp add: FunctionName_def)
  have "exact (wseq [bencode_write_bytestring (take 1 (lit ''P'')), bencode_start_list, wseq [], bencode_end])
    (concat [bstr (lit ''P''), lit ''l'', concat [], lit ''e''])"
    by (intro wseq_exact list.rel_intros exact_key exact_start_list exact_end)
  then have p: "exact (BEncodeWriteDictBEncodeList ''P'' []) (bstr (lit ''P'') @ [108, 101])"
    by (simp add: BEncodeWriteDictBEncodeList_def)
  have "exact (api_BEncode m) (concat [lit ''d'', bstr (lit ''F'') @ bstr FunctionName, bstr (lit ''I'') @ bint (sint (am_sessionID m)),
      bstr (lit ''M'') @ bint (sint (am_msgID m)), bstr (lit ''P'') @ [108, 101], bstr (lit ''Z'') @ bstr (am_hash m), lit ''e''])"
    unfolding api_BEncode_def using assms by (intro wseq_exact list.rel_intros f p write_rules) simp
  then show ?thesis by (simp add: api_bytes_def api_fields_def)
qed

lemma length_api_bytes: "length (am_hash m) = 32 \<Longrightarrow> length (api_bytes f m) < 130"
proof -
  assume h: "length (am_hash m) = 32"
  have "length (bstr (lit [c])) = 3" for c by (simp add: bstr_def dec_nat.simps)
  moreover have "length (bstr FunctionName) = 16" "length (bstr (am_hash m)) = 35" using h by (simp_all add: bstr_def FunctionName_def dec_nat.simps)
  ultimately show ?thesis
    using length_bint [of "am_sessionID m"] length_bint [of "am_msgID m"] by (simp add: api_bytes_def api_fields_def del: lit_Cons)
qed

lemma api_encoded:
  assumes "length (am_hash m) = 32" "130 \<le> length tmp"
  obtains b where "api_BEncode m (StackBuffer tmp) = Some (True, b)" "encoded b = api_bytes CHR ''F'' m"
  using emits_stack [OF exact_emits [OF exact_api [OF assms(1)]], of tmp] length_api_bytes [OF assms(1), of "CHR ''F''"] assms(2) by auto

section \<open>Authentication\<close>

text \<open>
  A message whose hash is calculated with a password is well-formed for it, and checking leaves it as it was.
\<close>

theorem api_hash_verifies:
  assumes "130 \<le> length tmp" "130 \<le> length tmp'"
  shows "\<exists>m'. CalculateHash S tmp password m = Some m' \<and> am_sessionID m' = am_sessionID m \<and> am_msgID m' = am_msgID m \<and>
    IsWellFormed S tmp' password m' = Some (True, m')"
proof -
  let ?z = "m\<lparr>am_hash := replicate 32 0\<rparr>" and ?k = "snd (sodium_shorthash S password)"
  have z: "length (am_hash ?z) = 32" by simp
  from api_encoded [OF z assms(1)] obtain b where b: "api_BEncode ?z (StackBuffer tmp) = Some (True, b)" "encoded b = api_bytes CHR ''F'' ?z" .
  from api_encoded [OF z assms(2)] obtain b' where b': "api_BEncode ?z (StackBuffer tmp') = Some (True, b')" "encoded b' = api_bytes CHR ''F'' ?z" .
  have c: "CalculateHash S tmp password m = Some (?z\<lparr>am_hash := snd (sodium_hmac S (api_bytes CHR ''F'' ?z) ?k)\<rparr>)"
    using b by (simp add: CalculateHash_def)
  have "IsWellFormed S tmp' password (?z\<lparr>am_hash := h\<rparr>) = Some (AlignedBuffer_eq h (snd (sodium_hmac S (api_bytes CHR ''F'' ?z) ?k)), ?z\<lparr>am_hash := h\<rparr>)" for h
    using b' by (simp add: IsWellFormed_def)
  with c show ?thesis by (simp add: AlignedBuffer_eq_def memcmp_eq_0_iff)
qed

theorem api_hash_verifies_witness:
  "\<exists>m'. CalculateHash example_sodium (replicate 1500 0) (lit ''secret'') (CreateSessionMessage_new []) = Some m' \<and>
    IsWellFormed example_sodium (replicate 1500 1) (lit ''secret'') m' = Some (True, m')"
  using api_hash_verifies [of "replicate 1500 0" "replicate 1500 1" example_sodium "lit ''secret''" "CreateSessionMessage_new []"] by auto

section \<open>Parsing\<close>

text \<open>
  No message of the client is understood by the parser of the same library: the encoder writes the function
  under the key \<open>F\<close>, and the parser expects \<open>f\<close>.
\<close>

theorem own_message_rejected:
  assumes "length (am_hash m) = 32" "ahead (api_bytes CHR ''F'' m) b"
  shows "ParseMessage uninit b NullMessage = Some (NullMessage, NullMessage)"
proof -
  let ?rest = "bstr FunctionName @ api_fields m @ [101]"
  have a: "ahead (100 # bstr (lit ''F'') @ ?rest) b" using assms(2) by (simp add: api_bytes_def)
  then have a1: "ahead (bstr (lit ''F'') @ ?rest) (skip 1 b)" by (metis ahead_Cons)
  then have "ahead (bstr (lit ''F'')) (skip 1 b)" by (simp add: ahead_append)
  from read_string_ahead [OF this] obtain k where
    k: "bencode_read_string (skip 1 b) = Some (Some k, skip (length (bstr (lit ''F''))) (skip 1 b))" "holds k (lit ''F'')" by auto
  have k2: "if_key k ''f'' A B = B" for A B :: "(bool \<times> message_ptr \<times> udap_buffer_t) option"
    using k(2) by (simp add: if_key_holds)
  obtain c cs where c: "bstr (lit ''F'') = c # cs" "c \<noteq> 101" using bstr_head by blast
  then have d: "deref (skip 1 b) = Some c" "udap_buffer_size_left (skip 1 b) \<noteq> 0" using a1 ahead_deref ahead_size_left by (metis append_Cons)+
  have "read_dict_loop (api_OnKey uninit) NullMessage (skip 1 b) = Some (False, NullMessage, skip (length (bstr (lit ''F''))) (skip 1 b))"
    using d c(2) k(1) k2 by (simp add: read_dict_loop.simps api_OnKey_def)
  then show ?thesis using ahead_deref [OF a] by (simp add: ParseMessage_def bencode_read_dict_def advance_skip)
qed

text \<open>Messages as the parser wants them\<close>

lemma api_keys:
  "holds k (lit ''I'') \<Longrightarrow> i \<noteq> -1 \<Longrightarrow> reads (api_DecodeKey k) m (bint (sint i)) (m\<lparr>am_sessionID := i\<rparr>)"
  "holds k (lit ''M'') \<Longrightarrow> i \<noteq> -1 \<Longrightarrow> reads (api_DecodeKey k) m (bint (sint i)) (m\<lparr>am_msgID := i\<rparr>)"
  using reads_integer [of i] by (auto simp: reads_def api_DecodeKey_def if_key_holds maybe_int_is_entry fields_simps)

lemma api_key_Z: "holds k (lit ''Z'') \<Longrightarrow> length h = 32 \<Longrightarrow> reads (api_DecodeKey k) m (bstr h) (m\<lparr>am_hash := h\<rparr>)"
  using reads_aligned [of h 32 "am_hash m"] by (auto simp: reads_def api_DecodeKey_def if_key_holds maybe_int_is_entry fields_simps)

lemma api_key_P: "holds k (lit ''P'') \<Longrightarrow> reads (api_DecodeKey k) m (108 # [101]) m"
  using reads_items [of "[]" Encrypted_BDecode "[]" bstr "[]"] by (auto simp: reads_def api_DecodeKey_def if_key_holds DecodeParams_def)

lemma api_fields_run:
  assumes "api_valid m" shows "dict_run (keys api_DecodeKey) (CreateSessionMessage_new u) (api_fields m) m"
proof -
  have "dict_run (keys api_DecodeKey) (CreateSessionMessage_new u) (api_fields m)
    ((CreateSessionMessage_new u)\<lparr>am_sessionID := am_sessionID m, am_msgID := am_msgID m, am_hash := am_hash m\<rparr>)"
    unfolding api_fields_def using assms api_keys api_key_P api_key_Z
    by (intro dict_cons dict_run_single allI impI) (auto simp: api_valid_def simp del: lit_Cons lit_Nil)
  moreover have "(CreateSessionMessage_new u)\<lparr>am_sessionID := am_sessionID m, am_msgID := am_msgID m, am_hash := am_hash m\<rparr> = m"
    by (cases m) (simp add: CreateSessionMessage_new_def)
  ultimately show ?thesis by simp
qed

lemma api_first_key:
  assumes "holds k (lit ''f'')"
  shows "reads (api_OnKey u (Some k)) NullMessage (bstr FunctionName) (Live (CreateSessionMessage_new u))"
proof -
  have "holds n (lit ''CreateSession'') \<Longrightarrow> buffer_string n = Some (lit ''CreateSession'')" for n
    using holds_load [of n "lit ''CreateSession''"] by (simp add: buffer_string_def holds_def del: lit_Cons)
  then show ?thesis
    using assms
    by (auto simp: reads_def api_OnKey_def if_key_holds FunctionName_def simp del: lit_Cons
        intro!: reads_if_string [unfolded reads_def, rule_format])
qed

lemma api_run:
  assumes "api_valid m" shows "dict_run (api_OnKey u) NullMessage (bstr (lit ''f'') @ bstr FunctionName @ api_fields m) (Live m)"
proof -
  have "dict_run (api_OnKey u) (Live (CreateSessionMessage_new u)) (api_fields m) (Live m)"
    by (rule dict_run_wrap [where wrap = Live, OF api_fields_run [OF assms]]) (auto simp: reads_def api_OnKey_def)
  then show ?thesis by (rule dict_cons [rotated 2]) (simp_all add: api_first_key del: lit_Cons lit_Nil)
qed

lemma api_parsed:
  assumes "api_valid m" "ahead (api_bytes CHR ''f'' m) b" shows "ParseMessage u b NullMessage = Some (Live m, Live m)"
  using read_dict_run [OF api_run [OF assms(1), of u]] assms(2) by (simp add: ParseMessage_def api_bytes_def api_OnKey_def)

text \<open>
  A message with the function under the key that the parser expects is parsed with its members as they were
  written, once: the client deletes it, the parser keeps the pointer, and the next datagram with a key,
  whatever it is, makes the parser use the deleted message.
\<close>

theorem second_message_undefined:
  assumes "api_valid m" "length (api_bytes CHR ''f'' m) \<le> length readbuf" "take (length (api_bytes CHR ''f'' m)) readbuf = api_bytes CHR ''f'' m"
    and "cl_parser c = NullMessage" "family_of (bytes_at 0 2 src) = AF_INET" "bytes_at 2 6 src = bytes_at 2 6 (cl_apiAddr c)"
  shows "ParseMessage u (StackBuffer readbuf) NullMessage = Some (Live m, Live m) \<and>
    (\<exists>c'. RecvFrom u src readbuf (length (api_bytes CHR ''f'' m)) c = Some c' \<and>
      RecvFrom u src readbuf (length (api_bytes CHR ''f'' m)) c' = None)"
proof -
  let ?n = "length (api_bytes CHR ''f'' m)"
  let ?b = "\<lparr>b_mem = readbuf, b_base = 0, b_cur = 0, b_sz = ?n\<rparr>"
  have a: "ahead (api_bytes CHR ''f'' m) (StackBuffer readbuf)" "ahead (api_bytes CHR ''f'' m) ?b"
    using assms(2,3) by (simp_all add: ahead_def StackBuffer_def)
  have same: "bytes_at 4 4 src = bytes_at 4 4 (cl_apiAddr c)" "bytes_at 2 2 src = bytes_at 2 2 (cl_apiAddr c)"
    using arg_cong [OF assms(6), of "bytes_at 2 4"] arg_cong [OF assms(6), of "bytes_at 0 2"] by (simp_all add: at_at)
  have first: "RecvFrom u src readbuf ?n c = Some (c\<lparr>cl_parser := Freed\<rparr>)"
    using assms(4,5) same api_parsed [OF assms(1) a(2), of u] by (simp add: RecvFrom_def delete_message_def)
  have a1: "ahead (100 # bstr (lit ''f'') @ bstr FunctionName @ api_fields m @ [101]) ?b" using a(2) by (simp add: api_bytes_def)
  then have a2: "ahead (bstr (lit ''f'') @ bstr FunctionName @ api_fields m @ [101]) (skip 1 ?b)" by (metis ahead_Cons)
  then have "ahead (bstr (lit ''f'')) (skip 1 ?b)" by (simp add: ahead_append)
  from read_string_ahead [OF this] obtain k where k: "bencode_read_string (skip 1 ?b) = Some (Some k, skip (length (bstr (lit ''f''))) (skip 1 ?b))" by auto
  obtain x xs where x: "bstr (lit ''f'') = x # xs" "x \<noteq> 101" using bstr_head by blast
  then have d: "deref (skip 1 ?b) = Some x" "udap_buffer_size_left (skip 1 ?b) \<noteq> 0" using a2 ahead_deref ahead_size_left by (metis append_Cons)+
  have "read_dict_loop (api_OnKey u) Freed (skip 1 ?b) = None"
    using d x(2) k by (simp add: read_dict_loop.simps api_OnKey_def)
  then have "ParseMessage u ?b Freed = None" using ahead_deref [OF a1] by (simp add: ParseMessage_def bencode_read_dict_def advance_skip)
  then have "RecvFrom u src readbuf ?n (c\<lparr>cl_parser := Freed\<rparr>) = None" using assms(5) same by (simp add: RecvFrom_def)
  with first api_parsed [OF assms(1) a(1), of u] show ?thesis by blast
qed

definition example_request :: api_message where
  "example_request = \<lparr>am_sessionID = 1, am_msgID = 2, am_hash = replicate 32 0\<rparr>"

theorem second_message_undefined_witness:
  "\<exists>c'. RecvFrom [] (machine16 2 @ replicate 14 0) (api_bytes CHR ''f'' example_request) (length (api_bytes CHR ''f'' example_request))
      \<lparr>cl_apiAddr = replicate 16 0, cl_parser = NullMessage, cl_sent = []\<rparr> = Some c' \<and>
    RecvFrom [] (machine16 2 @ replicate 14 0) (api_bytes CHR ''f'' example_request) (length (api_bytes CHR ''f'' example_request)) c' = None"
proof -
  have v: "api_valid example_request" by (simp add: api_valid_def example_request_def)
  have src: "family_of (bytes_at 0 2 (machine16 2 @ replicate 14 0)) = AF_INET"
    "bytes_at 2 6 (machine16 2 @ replicate 14 0) = bytes_at 2 6 (replicate 16 0)"
    by code_simp+
  show ?thesis
    using second_message_undefined [OF v, of "api_bytes CHR ''f'' example_request"
        "\<lparr>cl_apiAddr = replicate 16 0, cl_parser = NullMessage, cl_sent = []\<rparr>" "machine16 2 @ replicate 14 0" "[]"] src by simp
qed

text \<open>
  A request of the client is as long as the array it is written in, 1500 bytes, though the message has fewer than
  130: behind the message goes out what was on the stack.
\<close>

theorem whole_array_sent:
  assumes "length (am_hash m) = 32" "length tmp = 1500"
  shows "\<exists>pkt. SendMessage send tmp m c = Some (send pkt, c\<lparr>cl_sent := cl_sent c @ [pkt]\<rparr>) \<and> length pkt = 1500 \<and>
    take (length (api_bytes CHR ''F'' m)) pkt = api_bytes CHR ''F'' m \<and> length (api_bytes CHR ''F'' m) < 130"
proof -
  let ?bs = "api_bytes CHR ''F'' m"
  have l: "length ?bs < 130" by (rule length_api_bytes [OF assms(1)])
  have e: "emits (api_BEncode m) ?bs" by (rule exact_emits [OF exact_api [OF assms(1)]])
  moreover have "length ?bs < room (StackBuffer tmp)" using l assms(2) by (simp add: room_def StackBuffer_def)
  ultimately obtain b where b: "api_BEncode m (StackBuffer tmp) = Some (True, b)" "appended ?bs (StackBuffer tmp) b"
    using wf_StackBuffer by (auto simp: emits_def)
  moreover have "wframe (StackBuffer tmp) b" using e wf_StackBuffer [of tmp] b(1) by (fastforce simp: emits_def wsafe_def)
  ultimately have m: "b_base b = 0" "b_sz b = 1500" "length (b_mem b) = 1500" "take (length ?bs) (b_mem b) = ?bs"
    using assms(2) by (auto simp: wframe_def appended_def StackBuffer_def)
  then have "SendMessage send tmp m c = Some (send (b_mem b), c\<lparr>cl_sent := cl_sent c @ [b_mem b]\<rparr>)"
    using b(1) by (simp add: SendMessage_def mem_load_def)
  with m l show ?thesis by blast
qed

end
