(* ===== verification/Event_Loop.thy ===== *)
theory Event_Loop
  imports Net
begin

text \<open>
  The event loop on Linux (\<open>udap/ev_epoll.hpp\<close>, \<open>udap/ev.cpp\<close>): sockets and their listeners, a round of the loop, and the
  two ways to run it. The system calls are parameters: whether a socket can be made, set up and bound, what
  \<open>epoll_wait\<close> reports, and what \<open>recvfrom\<close> reads. A listener is an object on the heap, known by a number that
  is not used again. Datagrams that are given to their \<open>udap_udp_io\<close> are recorded in order.
\<close>

section \<open>State\<close>

record ev_loop =
  el_epoll :: "nat list"
  el_stopped :: bool
  el_listeners :: "nat list"
  el_impl :: "nat \<Rightarrow> nat option"
  el_heap :: "nat \<Rightarrow> nat option"
  el_next :: nat
  el_received :: "(nat \<times> byte list \<times> byte list) list"
  el_ticked :: "nat list"

definition ev_loop_new :: ev_loop where
  "ev_loop_new = \<lparr>el_epoll = [], el_stopped = False, el_listeners = [], el_impl = (\<lambda>_. None), el_heap = (\<lambda>_. None), el_next = 0,
     el_received = [], el_ticked = []\<rparr>"

record sockets =
  so_socket :: bool
  so_setsockopt :: bool
  so_bind :: "byte list \<Rightarrow> bool"
  so_epoll_add :: bool
  so_send :: "byte list \<Rightarrow> byte list \<Rightarrow> int"

section \<open>Sockets\<close>

definition ip_family :: "byte list \<Rightarrow> bool" where
  "ip_family sa \<longleftrightarrow> family_of (bytes_at 0 2 sa) = AF_INET \<or> family_of (bytes_at 0 2 sa) = AF_INET6"

text \<open>Whether there is a descriptor\<close>

definition udp_bind :: "sockets \<Rightarrow> byte list \<Rightarrow> bool" where
  "udp_bind so addr \<longleftrightarrow> ip_family addr \<and> so_socket so \<and>
     (family_of (bytes_at 0 2 addr) = AF_INET6 \<longrightarrow> so_setsockopt so) \<and> so_bind so addr"

definition close_ev :: "nat \<Rightarrow> ev_loop \<Rightarrow> bool \<times> ev_loop" where
  "close_ev ev l = (ev \<in> set (el_epoll l), l\<lparr>el_epoll := removeAll ev (el_epoll l)\<rparr>)"

definition udp_listen :: "sockets \<Rightarrow> nat \<Rightarrow> byte list \<Rightarrow> ev_loop \<Rightarrow> bool \<times> ev_loop" where
  "udp_listen so udp src l =
     (if \<not> udp_bind so src then (False, l)
      else (let listener = el_next l; l = l\<lparr>el_next := listener + 1\<rparr>
            in if \<not> so_epoll_add so then (False, l)
               else (True, l\<lparr>el_heap := (el_heap l)(listener \<mapsto> udp), el_epoll := el_epoll l @ [listener],
                       el_impl := (el_impl l)(udp \<mapsto> listener), el_listeners := el_listeners l @ [udp]\<rparr>)))"

text \<open>The result is never set.\<close>

definition udp_close :: "nat \<Rightarrow> ev_loop \<Rightarrow> bool \<times> ev_loop" where
  "udp_close udp l =
     (let ret = False
      in case el_impl l udp of
           None \<Rightarrow> (ret, l)
         | Some listener \<Rightarrow>
             (let l = snd (close_ev listener l)
              in (ret, l\<lparr>el_impl := (el_impl l)(udp := None), el_heap := (el_heap l)(listener := None),
                    el_listeners := removeAll udp (el_listeners l)\<rparr>)))"

definition udap_ev_add_udp :: "sockets \<Rightarrow> nat \<Rightarrow> byte list \<Rightarrow> ev_loop \<Rightarrow> int \<times> ev_loop" where
  "udap_ev_add_udp so udp src l = (let (ok, l) = udp_listen so udp src l in (if ok then 0 else -1, l))"

definition udap_ev_close_udp :: "nat \<Rightarrow> ev_loop \<Rightarrow> int \<times> ev_loop" where
  "udap_ev_close_udp udp l = (let (ok, l) = udp_close udp l in (if ok then 0 else -1, l))"

text \<open>\<open>impl\<close> must be there.\<close>

definition udap_ev_udp_sendto :: "sockets \<Rightarrow> nat \<Rightarrow> byte list \<Rightarrow> byte list \<Rightarrow> ev_loop \<Rightarrow> int option" where
  "udap_ev_udp_sendto so udp dst buf l = do {
     listener \<leftarrow> el_impl l udp;
     _ \<leftarrow> el_heap l listener;
     Some (if ip_family dst then so_send so dst buf else -1)
   }"

section \<open>The loop\<close>

text \<open>What \<open>epoll_wait\<close> reports: the pipe, or a listener, whether it is readable, and what \<open>recvfrom\<close> then gives\<close>

datatype epoll_event = Pipe | Ready nat bool "(byte list \<times> byte list) option"

text \<open>The events of a round; the result says whether the pipe was met. The array for a datagram has 2048 bytes.\<close>

fun handle_events :: "epoll_event list \<Rightarrow> ev_loop \<Rightarrow> (bool \<times> ev_loop) option" where
  "handle_events [] l = Some (False, l)"
| "handle_events (Pipe # evs) l = Some (True, l)"
| "handle_events (Ready ev epollin datagram # evs) l =
     (if epollin then do {
        udp \<leftarrow> el_heap l ev;
        handle_events evs
          (case datagram of
             None \<Rightarrow> snd (close_ev ev l)
           | Some (src, data) \<Rightarrow> l\<lparr>el_received := el_received l @ [(udp, src, take 2048 data)]\<rparr>)
      }
      else handle_events evs l)"

text \<open>A wait ends with an error or with the events that are ready. \<open>ticks\<close>: whether an \<open>udap_udp_io\<close> has a function for ticks\<close>

type_synonym epoll_wait = "epoll_event list option"

definition wait_result :: "epoll_wait \<Rightarrow> int" where
  "wait_result w = (case w of None \<Rightarrow> -1 | Some evs \<Rightarrow> int (length evs))"

definition tick_listeners :: "(nat \<Rightarrow> bool) \<Rightarrow> ev_loop \<Rightarrow> ev_loop" where
  "tick_listeners ticks l = l\<lparr>el_ticked := el_ticked l @ filter ticks (el_listeners l)\<rparr>"

text \<open>
  A round is one step: the listeners are opened and closed between rounds, by the thread of the loop or by others.
\<close>

definition ev_tick :: "(nat \<Rightarrow> bool) \<Rightarrow> epoll_wait \<Rightarrow> ev_loop \<Rightarrow> (int \<times> ev_loop) option" where
  "ev_tick ticks w l = do {
     (stop, l) \<leftarrow> handle_events (case w of None \<Rightarrow> [] | Some evs \<Rightarrow> evs) l;
     Some (if stop then (0, l) else (wait_result w, tick_listeners ticks l))
   }"

text \<open>
  \<open>run\<close> on the waits to come: its result, or nothing when it has not returned after all of them. An error of a wait
  does not end it, as the descriptor of the loop stays open.
\<close>

fun ev_run :: "(nat \<Rightarrow> bool) \<Rightarrow> epoll_wait list \<Rightarrow> ev_loop \<Rightarrow> (int option \<times> ev_loop) option" where
  "ev_run ticks [] l = Some (None, l)"
| "ev_run ticks (w # ws) l = do {
     (stop, l) \<leftarrow> handle_events (case w of None \<Rightarrow> [] | Some evs \<Rightarrow> evs) l;
     if stop then Some (Some 0, l) else ev_run ticks ws (tick_listeners ticks l)
   }"

text \<open>\<open>after\<close>: the ticks of the logic and of the thread pool after each round; whether the loop has returned\<close>

fun run_single_process :: "(nat \<Rightarrow> bool) \<Rightarrow> (ev_loop \<Rightarrow> ev_loop) \<Rightarrow> epoll_wait list \<Rightarrow> ev_loop \<Rightarrow> (bool \<times> ev_loop) option" where
  "run_single_process ticks after [] l = Some (False, l)"
| "run_single_process ticks after (w # ws) l = do {
     (r, l) \<leftarrow> ev_tick ticks w l;
     if r = -1 then Some (True, l) else run_single_process ticks after ws (after l)
   }"

definition ev_stop :: "ev_loop \<Rightarrow> ev_loop" where
  "ev_stop l = l\<lparr>el_stopped := True\<rparr>"

section \<open>Steps\<close>

text \<open>\<open>epoll_wait\<close> reports listeners that are in its set, and the pipe once something was written to it: it is never read.\<close>

fun event_in :: "(nat \<Rightarrow> bool) \<Rightarrow> epoll_event \<Rightarrow> bool" where
  "event_in P Pipe \<longleftrightarrow> True"
| "event_in P (Ready ev b d) \<longleftrightarrow> P ev"

definition reports :: "ev_loop \<Rightarrow> epoll_event list \<Rightarrow> bool" where
  "reports l evs \<longleftrightarrow> list_all (event_in (\<lambda>ev. ev \<in> set (el_epoll l))) evs \<and> (Pipe \<in> set evs \<longleftrightarrow> el_stopped l)"

definition live :: "ev_loop \<Rightarrow> epoll_event list \<Rightarrow> bool" where
  "live l evs \<longleftrightarrow> list_all (event_in (\<lambda>ev. el_heap l ev \<noteq> None)) evs"

inductive ev_step :: "ev_loop \<Rightarrow> ev_loop \<Rightarrow> bool" where
  listen: "ev_step l (snd (udap_ev_add_udp so udp src l))"
| closed: "ev_step l (snd (udap_ev_close_udp udp l))"
| stopping: "ev_step l (ev_stop l)"
| round: "reports l evs \<Longrightarrow> ev_tick ticks (Some evs) l = Some (r, l') \<Longrightarrow> ev_step l l'"
| failed: "ev_tick ticks None l = Some (r, l') \<Longrightarrow> ev_step l l'"

definition ev_inv :: "ev_loop \<Rightarrow> bool" where
  "ev_inv l \<longleftrightarrow> (\<forall>i \<in> set (el_epoll l). el_heap l i \<noteq> None) \<and> (\<forall>u i. el_impl l u = Some i \<longrightarrow> el_heap l i = Some u) \<and>
     (\<forall>i \<ge> el_next l. el_heap l i = None)"

lemma inv_new: "ev_inv ev_loop_new"
  by (simp add: ev_inv_def ev_loop_new_def)

lemma inv_listen: "ev_inv l \<Longrightarrow> ev_inv (snd (udap_ev_add_udp so udp src l))"
  by (auto simp: ev_inv_def udap_ev_add_udp_def udp_listen_def Let_def)

lemma inv_close: "ev_inv l \<Longrightarrow> ev_inv (snd (udap_ev_close_udp udp l))"
proof (cases "el_impl l udp")
  case (Some i)
  assume inv: "ev_inv l"
  then have "el_impl l u = Some i \<Longrightarrow> u = udp" for u using Some unfolding ev_inv_def by (metis option.inject)
  then have "\<forall>u. el_impl l u = Some i \<longrightarrow> u = udp" by blast
  moreover have "snd (udap_ev_close_udp udp l) = l\<lparr>el_epoll := removeAll i (el_epoll l), el_impl := (el_impl l)(udp := None),
    el_heap := (el_heap l)(i := None), el_listeners := removeAll udp (el_listeners l)\<rparr>"
    using Some by (simp add: udap_ev_close_udp_def udp_close_def close_ev_def Let_def)
  ultimately show ?thesis using inv by (auto simp: ev_inv_def)
qed (simp add: udap_ev_close_udp_def udp_close_def Let_def)

lemma inv_stop: "ev_inv l \<Longrightarrow> ev_inv (ev_stop l)"
  by (simp add: ev_inv_def ev_stop_def)

lemma inv_live: "ev_inv l \<Longrightarrow> reports l evs \<Longrightarrow> live l evs"
  unfolding ev_inv_def reports_def live_def by (auto simp: list_all_iff elim!: event_in.elims)

text \<open>A round changes only what was received and which listeners are watched.\<close>

lemma handle_events_keeps:
  assumes "handle_events evs l = Some (stop, l')"
  shows "el_heap l' = el_heap l \<and> el_impl l' = el_impl l \<and> el_next l' = el_next l \<and> set (el_epoll l') \<subseteq> set (el_epoll l) \<and>
    el_stopped l' = el_stopped l \<and> el_listeners l' = el_listeners l \<and> stop = (Pipe \<in> set evs)"
  using assms
  by (induction evs l rule: handle_events.induct)
    (fastforce simp: close_ev_def split: if_splits bind_splits option.splits prod.splits)+

lemma handle_events_defined:
  assumes "live l evs" shows "\<exists>stop l'. handle_events evs l = Some (stop, l')"
  using assms by (induction evs l rule: handle_events.induct) (auto simp: live_def close_ev_def split: option.split)

lemma tick_defined:
  assumes "ev_inv l" "reports l evs" shows "\<exists>r l'. ev_tick ticks (Some evs) l = Some (r, l')"
  using handle_events_defined [OF inv_live [OF assms]] by (auto simp: ev_tick_def)

lemma inv_round: "ev_inv l \<Longrightarrow> ev_tick ticks w l = Some (r, l') \<Longrightarrow> ev_inv l'"
proof -
  assume inv: "ev_inv l" and "ev_tick ticks w l = Some (r, l')"
  then obtain stop l1 where h: "handle_events (case w of None \<Rightarrow> [] | Some evs \<Rightarrow> evs) l = Some (stop, l1)"
    and l': "l' = (if stop then l1 else tick_listeners ticks l1)"
    by (auto simp: ev_tick_def split: bind_splits if_splits)
  from handle_events_keeps [OF h] inv have "ev_inv l1" by (auto simp: ev_inv_def)
  with l' show ?thesis by (simp add: ev_inv_def tick_listeners_def)
qed

lemma step_inv: "ev_step l l' \<Longrightarrow> ev_inv l \<Longrightarrow> ev_inv l'"
  by (induction rule: ev_step.induct) (auto simp: inv_listen inv_close inv_stop intro: inv_round)

lemma reach_inv: "ev_step\<^sup>*\<^sup>* l l' \<Longrightarrow> ev_inv l \<Longrightarrow> ev_inv l'"
  by (induction rule: rtranclp_induct) (auto dest: step_inv)

section \<open>Theorems\<close>

text \<open>
  C39. The loop never follows a pointer to a deleted listener: in every state that listening, closing, stopping and
  rounds lead to, a round with what \<open>epoll_wait\<close> may report is defined, and so is sending on a socket that is open.
\<close>

theorem event_loop_safe:
  assumes "ev_step\<^sup>*\<^sup>* ev_loop_new l" "reports l evs"
  shows "ev_tick ticks (Some evs) l \<noteq> None \<and> (\<forall>udp. el_impl l udp \<noteq> None \<longrightarrow> udap_ev_udp_sendto so udp dst buf l \<noteq> None)"
proof -
  have inv: "ev_inv l" using reach_inv [OF assms(1) inv_new] .
  then have "el_heap l i = Some udp" if "el_impl l udp = Some i" for udp i using that by (simp add: ev_inv_def)
  with tick_defined [OF inv assms(2), of ticks] show ?thesis by (auto simp: udap_ev_udp_sendto_def)
qed

text \<open>
  A round gives every datagram that was read to the owner of its socket, once and in order, cut at 2048 bytes, and
  ticks every listener that wants it.
\<close>

fun delivery :: "(nat \<Rightarrow> nat option) \<Rightarrow> epoll_event \<Rightarrow> (nat \<times> byte list \<times> byte list) list" where
  "delivery h (Ready ev True (Some (src, data))) = [(the (h ev), src, take 2048 data)]"
| "delivery h _ = []"

lemma handle_events_received:
  assumes "handle_events evs l = Some (False, l')" shows "el_received l' = el_received l @ concat (map (delivery (el_heap l)) evs) \<and> el_ticked l' = el_ticked l"
  using assms
proof (induction evs l rule: handle_events.induct)
  case (3 ev b d evs l)
  show ?case
  proof (cases b)
    case False
    with 3 show ?thesis by simp
  next
    case True
    with 3 obtain udp where u: "el_heap l ev = Some udp" by (auto split: bind_splits)
    show ?thesis using 3 True u by (cases d) (auto simp: close_ev_def)
  qed
qed simp_all

theorem round_delivers:
  assumes "ev_inv l" "reports l evs" "\<not> el_stopped l"
  shows "\<exists>l'. ev_tick ticks (Some evs) l = Some (int (length evs), l') \<and> el_received l' = el_received l @ concat (map (delivery (el_heap l)) evs) \<and>
    el_ticked l' = el_ticked l @ filter ticks (el_listeners l)"
proof -
  obtain r l' where t: "ev_tick ticks (Some evs) l = Some (r, l')" using tick_defined [OF assms(1,2)] by blast
  then obtain stop l1 where h: "handle_events evs l = Some (stop, l1)" and l': "(r, l') = (if stop then (0, l1) else (int (length evs), tick_listeners ticks l1))"
    by (auto simp: ev_tick_def wait_result_def split: bind_splits if_splits)
  have "stop = False" using handle_events_keeps [OF h] assms(2,3) by (simp add: reports_def)
  with h l' handle_events_received [of evs l l1] handle_events_keeps [OF h] t show ?thesis by (simp add: tick_listeners_def)
qed

text \<open>Stopping ends \<open>run\<close> in the next wait.\<close>

theorem stop_ends_run:
  assumes "ev_inv l" "reports (ev_stop l) evs" shows "\<exists>l'. ev_run ticks (Some evs # ws) (ev_stop l) = Some (Some 0, l')"
proof -
  have "ev_inv (ev_stop l)" by (rule inv_stop [OF assms(1)])
  from handle_events_defined [OF inv_live [OF this assms(2)]] obtain stop l' where h: "handle_events evs (ev_stop l) = Some (stop, l')" by blast
  then have "stop" using handle_events_keeps [OF h] assms(2) by (simp add: reports_def ev_stop_def)
  with h show ?thesis by simp
qed

text \<open>
  It does not end the loop of one process: a round that meets the pipe returns 0, which is not the error that the loop
  waits for, and as the pipe is never read all later rounds do the same. Events that are reported behind the pipe are lost.
\<close>

theorem stop_ignored_in_single_process:
  assumes "list_all (\<lambda>evs. Pipe \<in> set evs \<and> live l evs) evss"
    and "\<And>l. el_heap (after l) = el_heap l"
  shows "\<exists>l'. run_single_process ticks after (map Some evss) l = Some (False, l')"
  using assms(1)
proof (induction evss arbitrary: l)
  case Nil
  then show ?case by simp
next
  case (Cons evs evss)
  obtain stop l1 where h: "handle_events evs l = Some (stop, l1)" using handle_events_defined [of l evs] Cons.prems by auto
  then have k: "stop" "el_heap l1 = el_heap l" using handle_events_keeps [OF h] Cons.prems by auto
  then have "\<exists>l'. run_single_process ticks after (map Some evss) (after l1) = Some (False, l')"
    using Cons.IH [of "after l1"] Cons.prems assms(2) by (simp add: live_def)
  with h k show ?case by (simp add: ev_tick_def)
qed

text \<open>Closing a socket works and is always reported as a failure.\<close>

theorem close_reports_failure:
  assumes "el_impl l udp = Some i"
  shows "\<exists>l'. udap_ev_close_udp udp l = (-1, l') \<and> el_impl l' udp = None \<and> i \<notin> set (el_epoll l') \<and> udp \<notin> set (el_listeners l')"
  using assms by (simp add: udap_ev_close_udp_def udp_close_def close_ev_def Let_def)

section \<open>What the network code relies on\<close>

text \<open>
  The interface of an event loop, whatever the system it is built on: a socket that was opened is watched and belongs to
  its \<open>udap_udp_io\<close>; a round with the sockets that are ready, each at most once, gives every datagram that was read
  to its owner, in order, and stops to watch exactly the sockets that could not be read.
\<close>

type_synonym ready_event = "nat \<times> (byte list \<times> byte list) option"

definition given :: "(nat \<Rightarrow> nat option) \<Rightarrow> ready_event list \<Rightarrow> (nat \<times> byte list \<times> byte list) list" where
  "given owner evs = concat (map (\<lambda>(i, d). case d of None \<Rightarrow> [] | Some (src, data) \<Rightarrow> [(the (owner i), src, take 2048 data)]) evs)"

definition unread :: "ready_event list \<Rightarrow> nat set" where
  "unread evs = {i. (i, None) \<in> set evs}"

lemma given_Nil: "given h [] = []"
  by (simp add: given_def)

lemma given_Cons: "given h ((i, d) # evs) = (case d of None \<Rightarrow> [] | Some (src, data) \<Rightarrow> [(the (h i), src, take 2048 data)]) @ given h evs"
  by (simp add: given_def)

lemma unread_Cons: "unread ((i, d) # evs) = (if d = None then insert i (unread evs) else unread evs)"
  by (auto simp: unread_def)

locale event_source =
  fixes inv :: "'l \<Rightarrow> bool" and watched :: "'l \<Rightarrow> nat set" and owner :: "'l \<Rightarrow> nat \<Rightarrow> nat option"
    and received :: "'l \<Rightarrow> (nat \<times> byte list \<times> byte list) list"
    and listen :: "nat \<Rightarrow> byte list \<Rightarrow> 'l \<Rightarrow> bool \<times> 'l" and turn :: "ready_event list \<Rightarrow> 'l \<Rightarrow> 'l option"
  assumes watched_owned: "inv l \<Longrightarrow> i \<in> watched l \<Longrightarrow> owner l i \<noteq> None"
    and listen_inv: "inv l \<Longrightarrow> inv (snd (listen u a l))"
    and listen_watches: "inv l \<Longrightarrow> listen u a l = (True, l') \<Longrightarrow>
      \<exists>i. owner l i = None \<and> watched l' = insert i (watched l) \<and> owner l' = (owner l)(i \<mapsto> u) \<and> received l' = received l"
    and turn_ok: "inv l \<Longrightarrow> distinct (map fst evs) \<Longrightarrow> fst ` set evs \<subseteq> watched l \<Longrightarrow>
      \<exists>l'. turn evs l = Some l' \<and> inv l' \<and> received l' = received l @ given (owner l) evs \<and> watched l' = watched l - unread evs \<and>
        (\<forall>i \<in> watched l'. owner l' i = owner l i)"
begin

text \<open>Rounds one after the other, each with sockets that are watched then and could be read\<close>

primrec turns :: "ready_event list list \<Rightarrow> 'l \<Rightarrow> 'l option" where
  "turns [] l = Some l"
| "turns (evs # evss) l = (case turn evs l of None \<Rightarrow> None | Some l \<Rightarrow> turns evss l)"

lemma given_owner: "\<forall>i \<in> fst ` set evs. h i = h' i \<Longrightarrow> given h evs = given h' evs"
  by (induction evs) (auto simp: given_Nil given_Cons split: option.split)

lemma turns_deliver:
  assumes "inv l" "\<forall>evs \<in> set evss. distinct (map fst evs) \<and> fst ` set evs \<subseteq> watched l \<and> unread evs = {}"
  shows "\<exists>l'. turns evss l = Some l' \<and> inv l' \<and> received l' = received l @ concat (map (given (owner l)) evss) \<and> watched l' = watched l"
  using assms
proof (induction evss arbitrary: l)
  case (Cons evs evss)
  from turn_ok [OF Cons.prems(1), of evs] Cons.prems(2) obtain l1 where
    l1: "turn evs l = Some l1" "inv l1" "received l1 = received l @ given (owner l) evs" "watched l1 = watched l" "\<forall>i \<in> watched l. owner l1 i = owner l i"
    by auto
  have "given (owner l1) evs' = given (owner l) evs'" if "evs' \<in> set evss" for evs'
  proof (rule given_owner)
    have "fst ` set evs' \<subseteq> watched l" using that Cons.prems(2) by simp
    with l1(5) show "\<forall>i \<in> fst ` set evs'. owner l1 i = owner l i" by blast
  qed
  then have "map (given (owner l1)) evss = map (given (owner l)) evss" by simp
  with Cons.IH [OF l1(2)] Cons.prems(2) l1 show ?case by auto
qed simp

text \<open>A datagram for a socket that was just opened reaches the one who opened it.\<close>

lemma listened_delivers:
  assumes "inv l" "listen u a l = (True, l1)"
  shows "\<exists>i l'. i \<in> watched l1 \<and> turn [(i, Some (src, data))] l1 = Some l' \<and> received l' = received l @ [(u, src, take 2048 data)]"
proof -
  from listen_watches [OF assms] obtain i where
    i: "watched l1 = insert i (watched l)" "owner l1 = (owner l)(i \<mapsto> u)" "received l1 = received l" by blast
  have "inv l1" using listen_inv [OF assms(1), of u a] assms(2) by simp
  from turn_ok [OF this, of "[(i, Some (src, data))]"] i show ?thesis by (auto simp: given_def)
qed

end

definition epoll_turn :: "(nat \<Rightarrow> bool) \<Rightarrow> ready_event list \<Rightarrow> ev_loop \<Rightarrow> ev_loop option" where
  "epoll_turn ticks evs l = map_option snd (ev_tick ticks (Some (map (\<lambda>(i, d). Ready i True d) evs)) l)"

lemma handle_ready:
  assumes "fst ` set evs \<subseteq> dom (el_heap l)"
  shows "\<exists>l'. handle_events (map (\<lambda>(i, d). Ready i True d) evs) l = Some (False, l') \<and> el_received l' = el_received l @ given (el_heap l) evs \<and>
    set (el_epoll l') = set (el_epoll l) - unread evs"
  using assms
proof (induction evs arbitrary: l)
  case (Cons ev evs)
  obtain i d where ev: "ev = (i, d)" by fastforce
  from Cons.prems ev obtain u where u: "el_heap l i = Some u" by auto
  let ?l = "case d of None \<Rightarrow> snd (close_ev i l) | Some (src, data) \<Rightarrow> l\<lparr>el_received := el_received l @ [(u, src, take 2048 data)]\<rparr>"
  have "el_heap ?l = el_heap l" by (auto simp: close_ev_def split: option.split)
  with Cons.IH [of ?l] Cons.prems obtain l' where
    "handle_events (map (\<lambda>(i, d). Ready i True d) evs) ?l = Some (False, l')" "el_received l' = el_received ?l @ given (el_heap l) evs"
    "set (el_epoll l') = set (el_epoll ?l) - unread evs" by auto
  with u ev show ?case by (auto simp: given_Cons unread_Cons close_ev_def split: option.splits)
qed (simp add: given_Nil unread_def)

interpretation epoll: event_source ev_inv "\<lambda>l. set (el_epoll l)" el_heap el_received "udp_listen so" "epoll_turn ticks"
  for so ticks
proof (unfold_locales, goal_cases)
  case (1 l i)
  then show ?case by (simp add: ev_inv_def)
next
  case (2 l u a)
  then show ?case using inv_listen [of l so u a] by (simp add: udap_ev_add_udp_def split: prod.splits)
next
  case (3 l u a l')
  then have "el_heap l (el_next l) = None" by (simp add: ev_inv_def)
  with 3(2) show ?case by (auto simp: udp_listen_def Let_def split: if_splits)
next
  case (4 l evs)
  then have "fst ` set evs \<subseteq> dom (el_heap l)" by (auto simp: ev_inv_def)
  from handle_ready [OF this] obtain l1 where h: "handle_events (map (\<lambda>(i, d). Ready i True d) evs) l = Some (False, l1)"
    "el_received l1 = el_received l @ given (el_heap l) evs" "set (el_epoll l1) = set (el_epoll l) - unread evs" by blast
  then have t: "ev_tick ticks (Some (map (\<lambda>(i, d). Ready i True d) evs)) l = Some (int (length evs), tick_listeners ticks l1)"
    by (simp add: ev_tick_def wait_result_def)
  show ?case
    using h t inv_round [OF 4(1) t] handle_events_keeps [OF h(1)] by (simp add: epoll_turn_def tick_listeners_def)
qed

section \<open>Witnesses\<close>

definition example_sockets :: sockets where
  "example_sockets = \<lparr>so_socket = True, so_setsockopt = True, so_bind = (\<lambda>_. True), so_epoll_add = True, so_send = (\<lambda>_ b. int (length b))\<rparr>"

definition example_loop :: ev_loop where
  "example_loop = snd (udap_ev_add_udp example_sockets 7 (machine16 2 @ replicate 14 0) ev_loop_new)"

lemma example_loop_eq:
  "example_loop = ev_loop_new\<lparr>el_next := 1, el_heap := [0 \<mapsto> 7], el_epoll := [0], el_impl := [7 \<mapsto> 0], el_listeners := [7]\<rparr>"
proof -
  have "udp_bind example_sockets (machine16 2 @ replicate 14 0)" by code_simp
  then show ?thesis
    by (simp add: example_loop_def udap_ev_add_udp_def udp_listen_def example_sockets_def ev_loop_new_def Let_def)
qed

lemma example_loop_inv: "ev_inv example_loop"
  unfolding example_loop_def by (rule inv_listen [OF inv_new])

lemma example_reports: "reports example_loop [Ready 0 True (Some ([1], [2, 3]))]" "\<not> el_stopped example_loop"
  by (simp_all add: example_loop_eq reports_def ev_loop_new_def)

theorem event_loop_safe_witness:
  "ev_tick (\<lambda>_. False) (Some [Ready 0 True (Some ([1], [2, 3]))]) example_loop \<noteq> None \<and> udap_ev_udp_sendto example_sockets 7 [] [] example_loop \<noteq> None"
proof -
  have "ev_step\<^sup>*\<^sup>* ev_loop_new example_loop" unfolding example_loop_def by (rule r_into_rtranclp) (rule listen)
  from event_loop_safe [OF this example_reports(1)] show ?thesis by (simp add: example_loop_eq)
qed

theorem round_delivers_witness:
  "\<exists>l'. ev_tick (\<lambda>_. False) (Some [Ready 0 True (Some ([1], [2, 3]))]) example_loop = Some (1, l') \<and> el_received l' = [(7, [1], [2, 3])]"
  using round_delivers [OF example_loop_inv example_reports] by (auto simp: example_loop_eq ev_loop_new_def)

theorem stop_ends_run_witness: "\<exists>l'. ev_run (\<lambda>_. False) [Some [Pipe]] (ev_stop example_loop) = Some (Some 0, l')"
  by (rule stop_ends_run [OF example_loop_inv]) (simp add: reports_def ev_stop_def)

theorem stop_ignored_in_single_process_witness:
  "\<exists>l'. run_single_process (\<lambda>_. False) (\<lambda>l. l) (map Some (replicate 5 [Pipe])) (ev_stop example_loop) = Some (False, l')"
  by (rule stop_ignored_in_single_process) (simp_all add: live_def list_all_iff)

end
