(* ===== verification/Link_Transfer.thy ===== *)
theory Link_Transfer
  imports Iwp_Delivery Link_Parser
begin

text \<open>
  A message over a link, from one session to the other: it is cut, encrypted, sent in datagrams, received,
  decrypted, acknowledged and handed to the router of the other end. The sessions and their jobs are those of
  \<open>Iwp_Session\<close>; the network delivers what is sent.
\<close>

section \<open>Datagrams\<close>

text \<open>A datagram arrives and the job that it causes is run.\<close>

definition deliver :: "iwp_env \<Rightarrow> 'x recv_handler \<Rightarrow> byte list \<Rightarrow> 'x session_scheme \<Rightarrow> 'x session_scheme option" where
  "deliver E recv pkt s = do {
     s1 \<leftarrow> session_recv E pkt s;
     if s_jobs s1 = [] then Some s1
     else run_job E recv False (last (s_jobs s1)) (s1\<lparr>s_jobs := butlast (s_jobs s1)\<rparr>)
   }"

fun deliver_all :: "iwp_env \<Rightarrow> 'x recv_handler \<Rightarrow> byte list list \<Rightarrow> 'x session_scheme \<Rightarrow> 'x session_scheme option" where
  "deliver_all E recv [] s = Some s"
| "deliver_all E recv (p # ps) s = do { s \<leftarrow> deliver E recv p s; deliver_all E recv ps s }"

text \<open>The frames that wait are encrypted; the result has the datagrams that were sent.\<close>

definition flush :: "iwp_env \<Rightarrow> 'x session_scheme \<Rightarrow> (byte list list \<times> 'x session_scheme) option" where
  "flush E s = do {
     s' \<leftarrow> run_job E (\<lambda>_ _. None) False CryptoOutbound s;
     Some (drop (length (s_sent s)) (s_sent s'), s')
   }"

text \<open>What the receiver of \<open>pkt\<close> gets: the plaintext \<open>buf\<close> and padding.\<close>

definition datagram :: "sodium \<Rightarrow> byte list \<Rightarrow> byte list \<Rightarrow> byte list \<Rightarrow> bool" where
  "datagram S K pkt buf \<longleftrightarrow> 64 + length buf \<le> length pkt \<and> length pkt \<le> 1500 \<and>
     (\<forall>rx junk. f_sessionkey rx = K \<longrightarrow> f_sz rx = length pkt \<longrightarrow>
       (\<exists>rx'. iwp_decrypt_frame S (rx\<lparr>f_buf := pkt @ junk\<rparr>) = Some (True, rx') \<and> f_success rx' \<and> f_sz rx' = length pkt \<and>
         (\<exists>pad. drop 64 (f_buf rx') = buf @ pad)))"

lemma frame_sealed:
  assumes S: "sodium_ok S" "length K = 32" "length rand = 32" and f: "carries f buf"
  obtains f' where "iwp_encrypt_frame S rand (f\<lparr>f_sessionkey := K\<rparr>) = Some (True, f')" "datagram S K (take (f_sz f') (f_buf f')) buf"
proof -
  have "64 \<le> f_sz f" "f_sz f \<le> length (f_buf f)" using f by (simp_all add: carries_def)
  from packet_parts [OF this] obtain h n body rest where
    b: "f_buf f = h @ n @ body @ rest" and l: "length h = 32" "length n = 32" and sz: "f_sz f = 64 + length body" .
  have lb: "64 + length body \<le> 1500" "length buf \<le> length body" "take (length buf) body = buf"
    using f sz b l by (auto simp: carries_def)
  let ?x = "enc S K rand body" and ?m = "mac S K (rand @ enc S K rand body)"
  have x: "length ?x = length body" "enc S K rand ?x = body" using enc_props [OF S(1), of rand K body] S by simp_all
  have m: "length ?m = 32" by (simp add: mac_props S)
  let ?f = "f\<lparr>f_sessionkey := K, f_buf := ?m @ rand @ ?x @ rest\<rparr>"
  have eq: "f\<lparr>f_sessionkey := K\<rparr> = \<lparr>f_success = f_success f, f_created = f_created f, f_sessionkey = K, f_sz = 64 + length body,
      f_buf = h @ n @ body @ rest\<rparr>" using b sz by (cases f) simp
  have e: "iwp_encrypt_frame S rand (f\<lparr>f_sessionkey := K\<rparr>) = Some (True, ?f)"
    unfolding eq using iwp_encrypt_frame_eq [OF S l, of body "f_success f" "f_created f" rest] lb sz by (cases f) simp
  have "\<exists>rx'. iwp_decrypt_frame S (rx\<lparr>f_buf := (?m @ rand @ ?x) @ junk\<rparr>) = Some (True, rx') \<and> f_success rx' \<and>
      f_sz rx' = 64 + length body \<and> (\<exists>pad. drop 64 (f_buf rx') = buf @ pad)"
    if "f_sessionkey rx = K" "f_sz rx = 64 + length body" for rx junk
  proof -
    have rx: "rx\<lparr>f_buf := (?m @ rand @ ?x) @ junk\<rparr> = \<lparr>f_success = f_success rx, f_created = f_created rx, f_sessionkey = K,
        f_sz = 64 + length ?x, f_buf = ?m @ rand @ ?x @ junk\<rparr>" using that x by (cases rx) simp
    have "drop 64 (?m @ rand @ body @ junk) = buf @ drop (length buf) body @ junk"
      using m S(3) lb(3) append_take_drop_id [of "length buf" body] by simp
    then show ?thesis
      unfolding rx using iwp_decrypt_frame_eq [OF S(1,2) m S(3), of ?x] x lb by auto
  qed
  then have "datagram S K (take (f_sz ?f) (f_buf ?f)) buf" using x m S(3) sz lb by (simp add: datagram_def)
  with e that show thesis by blast
qed

text \<open>A session that exchanges frames\<close>

definition transporting :: "'x session_scheme \<Rightarrow> bool" where
  "transporting s \<longleftrightarrow> s_state s \<in> {eSessionStartSent, eLIMSent, eEstablished} \<and> length (s_sessionkey s) = 32"

definition handled :: "iwp_env \<Rightarrow> (bool \<times> 'x session_scheme) option \<Rightarrow> 'x session_scheme option" where
  "handled E r = do { (ok, s) \<leftarrow> r; if ok then pump E (alive E s) else Some s }"

lemma deliver_datagram:
  assumes "datagram (e_sodium E) (s_sessionkey s) pkt buf" "transporting s" "buf \<noteq> []"
  obtains pad k where "length buf + k \<le> 1436" "\<And>recv. deliver E recv pkt s = handled E (process E recv (buf @ pad) (length buf + k) s)"
proof -
  have len: "64 + length buf \<le> length pkt" "length pkt \<le> 1500" using assms(1) by (simp_all add: datagram_def)
  let ?f = "\<lparr>f_success = False, f_created = 0, f_sessionkey = s_sessionkey s, f_sz = length pkt, f_buf = pkt @ replicate (1500 - length pkt) 0\<rparr>"
  have "length pkt > 64" using len(1) assms(3) by (cases buf) auto
  then have r: "session_recv E pkt s = Some (queue_job (FrameDecrypt ?f) s)"
    using assms(2) len(2) by (auto simp: transporting_def session_recv_def decrypt_frame_def alloc_frame_def)
  have "f_sessionkey ?f = s_sessionkey s" "f_sz ?f = length pkt" by simp_all
  with assms(1) have "\<exists>rx'. iwp_decrypt_frame (e_sodium E) (?f\<lparr>f_buf := pkt @ replicate (1500 - length pkt) 0\<rparr>) = Some (True, rx') \<and> f_success rx' \<and>
      f_sz rx' = length pkt \<and> (\<exists>pad. drop 64 (f_buf rx') = buf @ pad)" unfolding datagram_def by blast
  then obtain rx' pad where d: "iwp_decrypt_frame (e_sodium E) ?f = Some (True, rx')" "f_success rx'" "f_sz rx' = length pkt" "drop 64 (f_buf rx') = buf @ pad"
    by auto
  have "size_sub (length pkt) 64 = length buf + (length pkt - 64 - length buf)" using len by (simp add: size_sub_le)
  then have "deliver E recv pkt s = handled E (process E recv (buf @ pad) (length buf + (length pkt - 64 - length buf)) s)" for recv
    using r d by (simp add: deliver_def queue_job_def run_job_def run_frame_decrypt_def handle_frame_decrypt_def handled_def)
  moreover have "length buf + (length pkt - 64 - length buf) \<le> 1436" using len by simp
  ultimately show thesis using that by blast
qed

section \<open>Sending what waits\<close>

definition idle :: "iwp_async_frame CoDelQueue \<Rightarrow> bool" where
  "idle q \<longleftrightarrow> codel_inv f_created q \<and> m_Queue q = []"

lemma encrypt_loop_sends:
  assumes S: "sodium_ok (e_sodium E)" "length (s_sessionkey s) = 32" "\<And>p. e_sendto E p" and fs: "list_all2 carries fs bufs"
  shows "\<exists>pkts rng. list_all2 (datagram (e_sodium E) (s_sessionkey s)) pkts bufs \<and>
    encrypt_loop E fs s = Some (s\<lparr>s_sent := s_sent s @ pkts, s_rng := rng\<rparr>)"
  using fs S(2)
proof (induction fs arbitrary: bufs s)
  case Nil
  then show ?case by - (rule exI [of _ "[]"], rule exI [of _ "s_rng s"], simp)
next
  case (Cons f fs)
  obtain b bs where bufs: "bufs = b # bs" "carries f b" "list_all2 carries fs bs" using Cons.prems(1) by (auto simp: list_all2_Cons1)
  obtain rand s1 where rand: "randbytes 32 s = (rand, s1)" by fastforce
  note rand' = randbytes_props [OF rand]
  from frame_sealed [OF S(1) Cons.prems(2) rand'(1) bufs(2)] obtain f' where
    f': "iwp_encrypt_frame (e_sodium E) rand (f\<lparr>f_sessionkey := s_sessionkey s\<rparr>) = Some (True, f')"
      "datagram (e_sodium E) (s_sessionkey s) (take (f_sz f') (f_buf f')) b" .
  let ?s = "s1\<lparr>s_sent := s_sent s1 @ [take (f_sz f') (f_buf f')]\<rparr>"
  from Cons.IH [OF bufs(3), of ?s] Cons.prems(2) rand'(2) obtain pkts rng where
    "list_all2 (datagram (e_sodium E) (s_sessionkey s)) pkts bs"
    "encrypt_loop E fs ?s = Some (?s\<lparr>s_sent := s_sent ?s @ pkts, s_rng := rng\<rparr>)" by auto
  then show ?case
    using rand rand' f' S(3) bufs(1)
    by - (rule exI [of _ "take (f_sz f') (f_buf f') # pkts"], rule exI [of _ rng], simp add: udp_sendto_def)
qed

lemma flush_sends:
  assumes S: "sodium_ok (e_sodium E)" "length (s_sessionkey s) = 32" "\<And>p. e_sendto E p"
    and q: "s_outbound s = put_frames t fs q" "idle q" "t \<noteq> 0" and fs: "list_all2 carries fs bufs"
  shows "\<exists>bufs' pkts q' rng. mset bufs' = mset bufs \<and> list_all2 (datagram (e_sodium E) (s_sessionkey s)) pkts bufs' \<and> idle q' \<and>
    flush E s = Some (pkts, s\<lparr>s_outbound := q', s_sent := s_sent s @ pkts, s_rng := rng\<rparr>)"
proof -
  let ?put = "\<lambda>now f. f\<lparr>f_created := now\<rparr>" and ?ps = "map (\<lambda>f. (t, f)) fs"
  have "firstPut q = 0" using q(2) by (simp add: idle_def codel_inv_def)
  then obtain q' r where r: "CoDel_Process f_created (s_outbound s) = (q', r)" "mset r = mset (map (?put t) fs)" "m_Queue q' = []" "codel_inv f_created q'"
    using codel_never_drops [of f_created q ?put ?ps] q by (auto simp: idle_def put_frames_def comp_def sorted_wrt_map)
  have "carries (?put t f) b = carries f b" for f b by (simp add: carries_def)
  then have "list_all2 carries (map (?put t) fs) bufs" using fs by (simp add: list_all2_map1)
  from list_all2_reorder_left_invariance [OF this r(2) [symmetric, THEN sym]] obtain bufs' where
    b: "list_all2 carries r bufs'" "mset bufs' = mset bufs" by blast
  from encrypt_loop_sends [OF S(1) _ S(3) b(1), of "s\<lparr>s_outbound := q'\<rparr>"] S(2) obtain pkts rng where
    "list_all2 (datagram (e_sodium E) (s_sessionkey s)) pkts bufs'"
    "encrypt_loop E r (s\<lparr>s_outbound := q'\<rparr>) = Some (s\<lparr>s_outbound := q', s_sent := s_sent s @ pkts, s_rng := rng\<rparr>)" by auto
  then show ?thesis
    using b r by - (rule exI [of _ bufs'], rule exI [of _ pkts], rule exI [of _ q'], rule exI [of _ rng],
      simp add: flush_def run_job_def EncryptOutboundFrames_def idle_def)
qed

section \<open>Frames at the other end\<close>

text \<open>A session without what receiving a frame may change of it\<close>

definition link_part :: "'x session_scheme \<Rightarrow> 'x session_scheme" where
  "link_part s = s\<lparr>s_frame := (s_frame s)\<lparr>rx := [], lastEvent := 0, sendqueue := []\<rparr>,
     s_outbound := CoDelQueue_new, s_rng := \<lambda>_. 0, s_sent := []\<rparr>"

definition link_same :: "'x session_scheme \<Rightarrow> 'x session_scheme \<Rightarrow> bool" where
  "link_same s s' \<longleftrightarrow> link_part s' = link_part s"

lemma link_same_fields:
  assumes "link_same s s'"
  shows "s_state s' = s_state s" "s_sessionkey s' = s_sessionkey s" "tx (s_frame s') = tx (s_frame s)"
    "txflags (s_frame s') = txflags (s_frame s)" "transporting s' = transporting s" "s_remote_router s' = s_remote_router s"
proof -
  have "f (link_part s') = f (link_part s)" for f :: "'a session_scheme \<Rightarrow> 'c" using assms by (simp add: link_same_def)
  from this [of s_state] this [of s_sessionkey] this [of "\<lambda>s. tx (s_frame s)"] this [of "\<lambda>s. txflags (s_frame s)"] this [of s_remote_router]
  show "s_state s' = s_state s" "s_sessionkey s' = s_sessionkey s" "tx (s_frame s') = tx (s_frame s)"
    "txflags (s_frame s') = txflags (s_frame s)" "transporting s' = transporting s" "s_remote_router s' = s_remote_router s"
    by (simp_all add: link_part_def transporting_def)
qed

lemma link_same_only_frame: "only_frame s s' \<Longrightarrow> link_same s s'"
  by (auto simp: only_frame_def link_same_def link_part_def)

lemma link_same_trans: "link_same s s1 \<Longrightarrow> link_same s1 s2 \<Longrightarrow> link_same s s2"
  by (simp add: link_same_def)

text \<open>The fragments in \<open>R\<close> of the message have arrived.\<close>

definition has_frags :: "iwp_env \<Rightarrow> byte list \<Rightarrow> u64 \<Rightarrow> nat set \<Rightarrow> 'x session_scheme \<Rightarrow> bool" where
  "has_frags E m i R s \<longleftrightarrow> (\<exists>t. map_of (rx (s_frame s)) i = Some t \<and> collecting m (msg_hash E m) i R t)"

lemma receiving_self: "has_frags E m i R s \<Longrightarrow> receiving m (msg_hash E m) i R s s"
  unfolding has_frags_def receiving_def only_frame_def
  by (intro conjI exI [of _ "rx (s_frame s)"] exI [of _ "sendqueue (s_frame s)"]) simp_all

lemma receiving_has: "receiving m (msg_hash E m) i R s s' \<Longrightarrow> has_frags E m i R s' \<and> link_same s s'"
  by (auto simp: receiving_def has_frags_def link_same_only_frame)

text \<open>After a frame that was good, what the frame caused is queued for encryption.\<close>

lemma handled_pump:
  assumes "list_all plain_ok (sendqueue (s_frame s))"
  shows "\<exists>fs s'. list_all2 carries fs (sendqueue (s_frame s)) \<and> handled E (Some (True, s)) = Some s' \<and> link_same s s' \<and>
    rx (s_frame s') = rx (s_frame s) \<and> sendqueue (s_frame s') = [] \<and> s_outbound s' = put_frames (e_now E) fs (s_outbound s)"
proof -
  from pump_ok [of "alive E s" E] assms obtain fs rng where
    "list_all2 carries fs (sendqueue (s_frame s))" "pump E (alive E s) = Some ((alive E s)\<lparr>s_frame := (s_frame (alive E s))\<lparr>sendqueue := []\<rparr>,
      s_outbound := put_frames (e_now E) fs (s_outbound (alive E s)), s_rng := rng\<rparr>)"
    by (auto simp: alive_def)
  then show ?thesis
    by - (rule exI [of _ fs], simp add: handled_def link_same_def link_part_def alive_def)
qed

text \<open>The acknowledgements that a fragment may cause are short.\<close>

lemma plain_18: "list_all (\<lambda>f. length f = 18) fs \<Longrightarrow> list_all plain_ok fs"
  by (auto simp: list_all_iff plain_ok_def MAX_PLAIN_def)

text \<open>The result of the message: the router is called with it and the session forgets it.\<close>

definition delivered :: "iwp_env \<Rightarrow> 'x recv_handler \<Rightarrow> byte list \<Rightarrow> u64 \<Rightarrow> 'x session_scheme \<Rightarrow> 'x session_scheme option" where
  "delivered E recv m i s = handled E (do {
     (ok, s') \<leftarrow> recv m s;
     Some (ok, s'\<lparr>s_frame := (s_frame s')\<lparr>rx := AList.delete i (rx (s_frame s'))\<rparr>\<rparr>)
   })"

lemma deliver_frag:
  assumes d: "datagram (e_sodium E) (s_sessionkey s) pkt (frag_frame flags i m j)" "transporting s"
    and j: "j < nfrags m" and fl: "flags AND eSessionInvalidated = 0" and i: "i \<noteq> 0"
    and h: "has_frags E m i R s" and q: "sendqueue (s_frame s) = []"
  shows "if insert j R = {..<nfrags m} then \<exists>s'. link_same s s' \<and> deliver E recv pkt s = delivered E recv m i s'
    else \<exists>s'. deliver E recv pkt s = Some s' \<and> link_same s s' \<and> has_frags E m i (insert j R) s' \<and> sendqueue (s_frame s') = []"
proof -
  have "frag_frame flags i m j \<noteq> []" by (simp add: frag_frame_def frame_bytes_def)
  from deliver_datagram [OF d this] obtain pad k where
    k: "length (frag_frame flags i m j) + k \<le> 1436"
      "deliver E recv pkt s = handled E (process E recv (frag_frame flags i m j @ pad) (length (frag_frame flags i m j) + k) s)" by metis
  have "length (frag_frame flags i m j) + k < 2 ^ 63" using k(1) by simp
  from process_frag [OF j fl receiving_self [OF h] this, of E recv pad] q obtain s1 where
    s1: "receiving m (msg_hash E m) i (insert j R) s s1" "list_all (\<lambda>f. length f = 18) (sendqueue (s_frame s1))"
      "process E recv (frag_frame flags i m j @ pad) (length (frag_frame flags i m j) + k) s =
        (if insert j R = {..<nfrags m} then inbound_frame_complete E recv i s1 else Some (True, s1))" by auto
  note r = receiving_has [OF s1(1)]
  show ?thesis
  proof (cases "insert j R = {..<nfrags m}")
    case True
    then have "deliver E recv pkt s = delivered E recv m i s1"
      using k(2) s1(3) complete_delivers [of m E i s s1] s1(1) i by (simp add: delivered_def)
    with r True show ?thesis by auto
  next
    case False
    from handled_pump [OF plain_18 [OF s1(2)], of E] obtain s2 where
      "handled E (Some (True, s1)) = Some s2" "link_same s1 s2" "rx (s_frame s2) = rx (s_frame s1)" "sendqueue (s_frame s2) = []" by blast
    then have "deliver E recv pkt s = Some s2 \<and> link_same s s2 \<and> has_frags E m i (insert j R) s2 \<and> sendqueue (s_frame s2) = []"
      using k(2) s1(3) r False by (auto simp: has_frags_def intro: link_same_trans)
    with False show ?thesis by auto
  qed
qed

lemma deliver_all_one: "deliver_all E recv [p] s = deliver E recv p s"
  by (cases "deliver E recv p s") simp_all

lemma deliver_frags:
  assumes "list_all2 (datagram (e_sodium E) (s_sessionkey s)) pkts (map (frag_frame flags i m) js)" "transporting s"
    "distinct js" "js \<noteq> []" "R \<inter> set js = {}" "R \<union> set js = {..<nfrags m}"
    "flags AND eSessionInvalidated = 0" "i \<noteq> 0" "has_frags E m i R s" "sendqueue (s_frame s) = []"
  shows "\<exists>s'. link_same s s' \<and> deliver_all E recv pkts s = delivered E recv m i s'"
  using assms
proof (induction js arbitrary: R s pkts)
  case (Cons j js)
  obtain p ps where p: "pkts = p # ps" "datagram (e_sodium E) (s_sessionkey s) p (frag_frame flags i m j)"
      "list_all2 (datagram (e_sodium E) (s_sessionkey s)) ps (map (frag_frame flags i m) js)"
    using Cons.prems(1) by (auto simp: list_all2_Cons2)
  have j: "j < nfrags m" using Cons.prems(6) by auto
  note d = deliver_frag [OF p(2) Cons.prems(2) j Cons.prems(7-10), of recv]
  show ?case
  proof (cases "js = []")
    case True
    then have "insert j R = {..<nfrags m}" "ps = []" using Cons.prems(6) p(3) by auto
    with d obtain s' where "link_same s s'" "deliver E recv p s = delivered E recv m i s'" by auto
    then show ?thesis using p(1) \<open>ps = []\<close> by (intro exI [of _ s']) (simp add: deliver_all_one del: deliver_all.simps)
  next
    case False
    then obtain j' where "j' \<in> set js" by (cases js) auto
    then have "j' \<in> {..<nfrags m}" "j' \<notin> insert j R" using Cons.prems(3,5,6) by auto
    then have "insert j R \<noteq> {..<nfrags m}" by blast
    with d obtain s1 where s1: "deliver E recv p s = Some s1" "link_same s s1" "has_frags E m i (insert j R) s1" "sendqueue (s_frame s1) = []" by auto
    note f = link_same_fields [OF s1(2)]
    have "\<exists>s'. link_same s1 s' \<and> deliver_all E recv ps s1 = delivered E recv m i s'"
      by (rule Cons.IH [OF _ _ _ False _ _ Cons.prems(7,8) s1(3,4)]) (use Cons.prems p(3) f in auto)
    then obtain s' where "link_same s1 s'" "deliver_all E recv ps s1 = delivered E recv m i s'" by blast
    then show ?thesis using p(1) s1(1) link_same_trans [OF s1(2)] by (intro exI [of _ s']) simp
  qed
qed simp

section \<open>The whole exchange\<close>

text \<open>A session with nothing of its own left to send\<close>

definition ready :: "'x session_scheme \<Rightarrow> bool" where
  "ready s \<longleftrightarrow> transporting s \<and> idle (s_outbound s) \<and> sendqueue (s_frame s) = []"

text \<open>What the two ends and their network are assumed to be.\<close>

definition endpoint :: "sodium \<Rightarrow> iwp_env \<Rightarrow> bool" where
  "endpoint S E \<longleftrightarrow> sodium_ok S \<and> e_sodium E = S \<and> e_now E \<noteq> 0 \<and> (\<forall>p. e_sendto E p)"

lemma flush_ready:
  assumes E: "endpoint S E" and s: "transporting s" "sendqueue (s_frame s) = []"
    and q: "s_outbound s = put_frames (e_now E) fs q" "idle q" and fs: "list_all2 carries fs bufs"
  shows "\<exists>bufs' pkts s'. mset bufs' = mset bufs \<and> list_all2 (datagram S (s_sessionkey s)) pkts bufs' \<and> flush E s = Some (pkts, s') \<and>
    link_same s s' \<and> rx (s_frame s') = rx (s_frame s) \<and> ready s'"
proof -
  have "sodium_ok (e_sodium E)" "length (s_sessionkey s) = 32" "\<And>p. e_sendto E p" "e_now E \<noteq> 0" and S: "e_sodium E = S"
    using E s by (auto simp: endpoint_def transporting_def)
  from flush_sends [OF this(1-3) q this(4) fs] obtain bufs' pkts q' rng where
    "mset bufs' = mset bufs" "list_all2 (datagram S (s_sessionkey s)) pkts bufs'" "idle q'"
    "flush E s = Some (pkts, s\<lparr>s_outbound := q', s_sent := s_sent s @ pkts, s_rng := rng\<rparr>)" unfolding S by blast
  with s show ?thesis
    by - (rule exI [of _ bufs'], rule exI [of _ pkts], simp add: link_same_def link_part_def ready_def transporting_def)
qed

text \<open>One frame waits: one datagram is sent.\<close>

lemma flush_one:
  assumes "endpoint S E" "transporting s" "sendqueue (s_frame s) = []" "s_outbound s = put_frames (e_now E) fs q" "idle q" "list_all2 carries fs [b]"
  shows "\<exists>pkt s'. datagram S (s_sessionkey s) pkt b \<and> flush E s = Some ([pkt], s') \<and> link_same s s' \<and> rx (s_frame s') = rx (s_frame s) \<and> ready s'"
proof -
  from flush_ready [OF assms] obtain bufs' pkts s' where
    *: "mset bufs' = mset [b]" "list_all2 (datagram S (s_sessionkey s)) pkts bufs'" "flush E s = Some (pkts, s')"
      "link_same s s' \<and> rx (s_frame s') = rx (s_frame s) \<and> ready s'" by blast
  have "bufs' = [b]" using *(1) mset_single_iff [of bufs' b] by simp
  with *(2) obtain pkt where "pkts = [pkt]" "datagram S (s_sessionkey s) pkt b" by (auto simp: list_all2_Cons2)
  with * show ?thesis by blast
qed

lemma xmit_sent:
  assumes E: "endpoint S E" and A: "ready A" "map_of (tx (s_frame A)) (txids (s_frame A)) = None" and m: "nfrags m \<le> 32"
  shows "\<exists>A0 pkt A1. sendto E m A = Some A0 \<and> flush E A0 = Some ([pkt], A1) \<and>
    datagram S (s_sessionkey A) pkt (xmit_frame S (txflags (s_frame A)) (txids (s_frame A)) m) \<and> ready A1 \<and>
    s_sessionkey A1 = s_sessionkey A \<and> txflags (s_frame A1) = txflags (s_frame A) \<and>
    map_of (tx (s_frame A1)) (txids (s_frame A)) = Some (sent_message E m (txids (s_frame A)) 0)"
proof -
  let ?i = "txids (s_frame A)"
  have S: "sodium_ok (e_sodium E)" "e_sodium E = S" using E by (simp_all add: endpoint_def)
  have "nfrags m < 256" "list_all plain_ok (sendqueue (s_frame A))" using m A(1) by (simp_all add: ready_def)
  from sendto_ok [OF S(1) this A(2)] A(1) obtain fs A0 where
    fs: "list_all2 carries fs [xmit_frame S (txflags (s_frame A)) ?i m]" and A0: "sendto E m A = Some A0"
      "transporting A0" "sendqueue (s_frame A0) = []" "s_outbound A0 = put_frames (e_now E) fs (s_outbound A)"
      "s_sessionkey A0 = s_sessionkey A" "txflags (s_frame A0) = txflags (s_frame A)"
      "map_of (tx (s_frame A0)) ?i = Some (transit_message_outbound m (msg_hash E m) ?i)"
    using A(2) unfolding S(2) ready_def transporting_def by (auto simp: map_add_def)
  have "idle (s_outbound A)" using A(1) by (simp add: ready_def)
  from flush_one [OF E A0(2-4) this fs] obtain pkt A1 where
    "datagram S (s_sessionkey A) pkt (xmit_frame S (txflags (s_frame A)) ?i m)" "flush E A0 = Some ([pkt], A1)" "link_same A0 A1" "ready A1"
    unfolding A0(5) by blast
  moreover have "sent_message E m ?i 0 = transit_message_outbound m (msg_hash E m) ?i"
    using m by (simp add: sent_message_def outbound_eq)
  ultimately show ?thesis using A0 link_same_fields [of A0 A1] by auto
qed

lemma deliver_xmit:
  assumes E: "endpoint S E" and B: "ready B" "map_of (rx (s_frame B)) i = None" "s_sessionkey B = K"
    and m: "nfrags m \<le> 32" and fl: "flags AND eSessionInvalidated = 0" and i: "i \<noteq> 0"
    and d: "datagram S K pkt (xmit_frame S flags i m)"
  shows "if nfrags m = 0 then \<exists>s'. link_same B s' \<and> deliver E recv pkt B = delivered E recv m i s'
    else \<exists>B1 ack B2. deliver E recv pkt B = Some B1 \<and> flush E B1 = Some ([ack], B2) \<and>
      datagram S K ack (ack_frame (txflags (s_frame B)) i 0) \<and> link_same B B2 \<and> has_frags E m i {} B2 \<and> ready B2"
proof -
  let ?x = "xmit_frame S flags i m" and ?a = "ack_frame (txflags (s_frame B)) i 0"
  have S: "sodium_ok (e_sodium E)" "e_sodium E = S" using E by (simp_all add: endpoint_def)
  have tr: "transporting B" "sendqueue (s_frame B) = []" "idle (s_outbound B)" using B(1) by (simp_all add: ready_def)
  have "?x \<noteq> []" by (simp add: xmit_frame_def frame_bytes_def Let_def)
  from deliver_datagram [OF _ tr(1) this, of E pkt] d B(3) S(2) obtain pad k where
    k: "length ?x + k \<le> 1436" "deliver E recv pkt B = handled E (process E recv (?x @ pad) (length ?x + k) B)" by metis
  have "length (xmit_frame (e_sodium E) flags i m) + k < 2 ^ 63" using k(1) S(2) by simp
  from process_xmit [OF S(1) m fl B(2) this, of recv pad] tr(2) obtain s1 where
    s1: "receiving m (msg_hash E m) i {} B s1" "sendqueue (s_frame s1) = [?a]"
      "process E recv (?x @ pad) (length ?x + k) B = (if nfrags m = 0 then inbound_frame_complete E recv i s1 else Some (True, s1))"
    unfolding S(2) by auto
  note r = receiving_has [OF s1(1)]
  show ?thesis
  proof (cases "nfrags m = 0")
    case True
    then have "deliver E recv pkt B = delivered E recv m i s1"
      using k(2) s1(3) complete_delivers [of m E i B s1] s1(1) i by (simp add: delivered_def)
    with r True show ?thesis by auto
  next
    case False
    have "s_outbound s1 = s_outbound B" using s1(1) by (auto simp: receiving_def only_frame_def)
    moreover have "list_all plain_ok (sendqueue (s_frame s1))"
      using s1(2) by (intro plain_18) (simp add: ack_frame_def length_frame_bytes)
    from handled_pump [OF this, of E] obtain fs B1 where
      B1: "list_all2 carries fs [?a]" "handled E (Some (True, s1)) = Some B1" "link_same s1 B1" "rx (s_frame B1) = rx (s_frame s1)"
        "sendqueue (s_frame B1) = []" "s_outbound B1 = put_frames (e_now E) fs (s_outbound s1)" unfolding s1(2) by blast
    have l: "link_same B B1" using r B1(3) by (blast intro: link_same_trans)
    note f = link_same_fields [OF l]
    ultimately obtain ack B2 where "datagram S K ack ?a" "flush E B1 = Some ([ack], B2)" "link_same B1 B2" "rx (s_frame B2) = rx (s_frame B1)" "ready B2"
      using flush_one [OF E _ B1(5) _ tr(3) B1(1)] B1(6) tr(1) f(2,5) B(3) by metis
    moreover have "deliver E recv pkt B = Some B1" using k(2) s1(3) B1(2) False by simp
    ultimately have "deliver E recv pkt B = Some B1 \<and> flush E B1 = Some ([ack], B2) \<and> datagram S K ack ?a \<and> link_same B B2 \<and>
        has_frags E m i {} B2 \<and> ready B2"
      using r B1(4) link_same_trans [OF l] by (simp add: has_frags_def)
    with False show ?thesis by auto
  qed
qed

lemma mset_map_perm:
  assumes "mset ys = mset (map f xs)" shows "\<exists>xs'. mset xs' = mset xs \<and> ys = map f xs'"
proof -
  have "list_all2 (\<lambda>y x. y = f x) (map f xs) xs" by (simp add: list_all2_map1 list.rel_refl)
  from list_all2_reorder_left_invariance [OF this assms [symmetric, THEN sym]] obtain xs' where
    "list_all2 (\<lambda>y x. y = f x) ys xs'" "mset xs' = mset xs" by blast
  moreover from this(1) have "ys = map f xs'" by (induction rule: list_all2_induct) simp_all
  ultimately show ?thesis by blast
qed

lemma deliver_ack:
  assumes E: "endpoint S E" and A: "ready A" "map_of (tx (s_frame A)) i = Some (sent_message E m i 0)" "s_sessionkey A = K"
    and m: "nfrags m \<le> 32" "nfrags m \<noteq> 0" and fl: "flags AND eSessionInvalidated = 0" and d: "datagram S K ack (ack_frame flags i 0)"
  shows "\<exists>A1 js pkts A2. deliver E recv ack A = Some A1 \<and> flush E A1 = Some (pkts, A2) \<and> mset js = mset [0..<nfrags m] \<and>
    list_all2 (datagram S K) pkts (map (frag_frame (txflags (s_frame A)) i m) js) \<and> ready A2"
proof -
  let ?a = "ack_frame flags i 0" and ?b = "le_bytes 8 (unat i) @ le_bytes 4 0" and ?frag = "frag_frame (txflags (s_frame A)) i m"
  have S: "sodium_ok (e_sodium E)" "e_sodium E = S" using E by (simp_all add: endpoint_def)
  have tr: "transporting A" "sendqueue (s_frame A) = []" "idle (s_outbound A)" using A(1) by (simp_all add: ready_def)
  have la: "length ?a = 18" by (simp add: ack_frame_def length_frame_bytes)
  then have "?a \<noteq> []" by auto
  from deliver_datagram [OF _ tr(1) this, of E ack] d A(3) S(2) obtain pad k where
    k: "length ?a + k \<le> 1436" "deliver E recv ack A = handled E (process E recv (?a @ pad) (length ?a + k) A)" by metis
  have hd: "hdr_msgtype (?a @ pad) = Some eACKS" "hdr_flags (?a @ pad) = Some flags"
    using frame_bytes_header [of ?b eACKS flags pad] by (simp_all add: ack_frame_def)
  have mis: "missing m 0 = [0..<nfrags m]" by (simp add: missing_def)
  let ?A = "A\<lparr>s_frame := (s_frame A)\<lparr>tx := AList.update i (sent_message E m i 0) (tx (s_frame A)), sendqueue := map ?frag [0..<nfrags m]\<rparr>\<rparr>"
  have "size_sub (length ?a + k) 6 = 12 + k" using k(1) la by (simp add: size_sub_le)
  then have p: "process E recv (?a @ pad) (length ?a + k) A = Some (True, ?A)"
    using got_acks_eq [OF S(1) m(1) A(2), of flags 0 pad k] hd fl m(2) mis tr(2) by (simp add: process_def frame_consts)
  have "list_all plain_ok (sendqueue (s_frame ?A))"
    by (auto simp: list_all_iff plain_ok_def MAX_PLAIN_def frag_frame_def length_frame_bytes frag_body_def length_chunk MTU_def)
  from handled_pump [OF this, of E] obtain fs A1 where
    A1: "list_all2 carries fs (map ?frag [0..<nfrags m])" "handled E (Some (True, ?A)) = Some A1" "link_same ?A A1"
      "sendqueue (s_frame A1) = []" "s_outbound A1 = put_frames (e_now E) fs (s_outbound A)" by auto
  have "transporting A1" "s_sessionkey A1 = K" using link_same_fields [OF A1(3)] tr(1) A(3) by (simp_all add: transporting_def)
  with flush_ready [OF E _ A1(4,5) tr(3) A1(1)] obtain bufs pkts A2 where
    f: "mset bufs = mset (map ?frag [0..<nfrags m])" "list_all2 (datagram S K) pkts bufs" "flush E A1 = Some (pkts, A2)" "ready A2" by blast
  from mset_map_perm [OF f(1)] obtain js where "mset js = mset [0..<nfrags m]" "bufs = map ?frag js" by blast
  then show ?thesis
    using f A1(2) k(2) p by (intro exI [of _ A1] exI [of _ js] exI [of _ pkts] exI [of _ A2]) simp
qed

text \<open>
  The datagrams of a message in both directions. A message of one fragment needs one datagram; a longer one is
  announced, acknowledged, and its fragments are sent in answer to the acknowledgement, in an order that the
  queue of the sender chooses.
\<close>

lemma message_crosses:
  assumes E: "endpoint S EA" "endpoint S EB" and r: "ready A" "ready B" "s_sessionkey A = s_sessionkey B"
    and fl: "txflags (s_frame A) AND eSessionInvalidated = 0" "txflags (s_frame B) AND eSessionInvalidated = 0"
    and i: "txids (s_frame A) = i" "i \<noteq> 0" "map_of (tx (s_frame A)) i = None" "map_of (rx (s_frame B)) i = None" and m: "nfrags m \<le> 32"
  shows "\<exists>A0 x A1. sendto EA m A = Some A0 \<and> flush EA A0 = Some ([x], A1) \<and>
    (if nfrags m = 0 then \<exists>s. link_same B s \<and> deliver EB recv x B = delivered EB recv m i s
     else \<exists>B1 ack B2 A2 fs A3 s. deliver EB recv x B = Some B1 \<and> flush EB B1 = Some ([ack], B2) \<and> deliver EA recvA ack A1 = Some A2 \<and>
       flush EA A2 = Some (fs, A3) \<and> length fs = nfrags m \<and> link_same B s \<and> deliver_all EB recv fs B2 = delivered EB recv m i s)"
proof -
  let ?fa = "txflags (s_frame A)" and ?K = "s_sessionkey B"
  from xmit_sent [OF E(1) r(1) _ m] i obtain A0 x A1 where
    A: "sendto EA m A = Some A0" "flush EA A0 = Some ([x], A1)" "datagram S ?K x (xmit_frame S ?fa i m)" "ready A1" "s_sessionkey A1 = ?K"
      "txflags (s_frame A1) = ?fa" "map_of (tx (s_frame A1)) i = Some (sent_message EA m i 0)" unfolding i(1) r(3) by blast
  note x = deliver_xmit [OF E(2) r(2) i(4) refl m fl(1) i(2) A(3), of recv]
  show ?thesis
  proof (cases "nfrags m = 0")
    case True
    with x A(1,2) show ?thesis by (intro exI [of _ A0] exI [of _ x] exI [of _ A1]) simp
  next
    case False
    with x obtain B1 ack B2 where
      B: "deliver EB recv x B = Some B1" "flush EB B1 = Some ([ack], B2)" "datagram S ?K ack (ack_frame (txflags (s_frame B)) i 0)"
        "link_same B B2" "has_frags EB m i {} B2" "ready B2" by auto
    from deliver_ack [OF E(1) A(4,7,5) m False fl(2) B(3), of recvA] obtain A2 js fs A3 where
      A': "deliver EA recvA ack A1 = Some A2" "flush EA A2 = Some (fs, A3)" "mset js = mset [0..<nfrags m]"
        "list_all2 (datagram S ?K) fs (map (frag_frame ?fa i m) js)" unfolding A(6) by blast
    have S: "e_sodium EB = S" "s_sessionkey B2 = ?K" using E(2) link_same_fields(2) [OF B(4)] by (simp_all add: endpoint_def)
    have js: "set js = {..<nfrags m}" using mset_eq_setD [OF A'(3)] by (simp add: atLeast0LessThan)
    have d: "distinct js" and l: "length js = nfrags m" using mset_eq_imp_distinct_iff [OF A'(3)] mset_eq_length [OF A'(3)] by simp_all
    have "transporting B2" "sendqueue (s_frame B2) = []" "js \<noteq> []" using B(6) l False by (auto simp: ready_def)
    from deliver_frags [of EB B2 fs ?fa i m js "{}" recv, OF _ this(1) d this(3) _ _ fl(1) i(2) B(5) this(2)] A'(4) S js obtain s where
      s: "link_same B2 s" "deliver_all EB recv fs B2 = delivered EB recv m i s" by auto
    have "length fs = nfrags m" using list_all2_lengthD [OF A'(4)] l by simp
    moreover have "link_same B s" by (rule link_same_trans [OF B(4) s(1)])
    ultimately have "\<exists>B1 ack B2 A2 fs A3 s. deliver EB recv x B = Some B1 \<and> flush EB B1 = Some ([ack], B2) \<and> deliver EA recvA ack A1 = Some A2 \<and>
       flush EA A2 = Some (fs, A3) \<and> length fs = nfrags m \<and> link_same B s \<and> deliver_all EB recv fs B2 = delivered EB recv m i s"
      using B(1,2) A'(1,2) s(2) by blast
    with False A(1,2) show ?thesis by (intro exI [of _ A0] exI [of _ x] exI [of _ A1]) simp
  qed
qed

section \<open>The router at the end of a link\<close>

text \<open>
  A session and the router that owns it: the members of its parser (\<open>inbound_link_msg_parser\<close>) and the rest of the router.
  The parser points at the session and at the router, so the handlers of the messages work on all of it.
\<close>

record 'r link_end = session +
  le_firstkey :: bool
  le_msg :: "link_message option"
  le_router :: 'r

text \<open>
  An introduction is decoded into the contact of the session (\<open>get_remote_router\<close>), which the handler then sees. The flag says
  that the handler was called: from then on the contact is what the handler leaves.
\<close>

definition call_handler :: "'r link_end handler \<Rightarrow> (bool \<times> 'r link_end) handler" where
  "call_handler handle msg = (\<lambda>(_, s).
     let (ok, s) = handle msg (s\<lparr>s_remote_router := aliased msg (s_remote_router s)\<rparr>) in (ok, True, s))"

definition HandleRecvLinkMessage ::
  "'r link_end handler \<Rightarrow> pton \<Rightarrow> uninit \<Rightarrow> byte list \<Rightarrow> 'r link_end \<Rightarrow> (bool \<times> 'r link_end) option" where
  "HandleRecvLinkMessage handle pton u buf s = do {
     (ok, h) \<leftarrow> ProcessFrom (call_handler handle) pton u (s_remote_router s) (StackBuffer buf)
       \<lparr>p_firstkey = le_firstkey s, p_router = (False, s), p_from = s_remote_router s, p_msg = le_msg s\<rparr>;
     let (called, s) = p_router h;
     Some (ok, s\<lparr>s_remote_router := if called then s_remote_router s else p_from h,
                 le_firstkey := p_firstkey h, le_msg := p_msg h\<rparr>)
   }"

text \<open>
  What becomes of the session \<open>s\<close> with the message: the handler is called with it, once the contact of an introduction is the contact of the
  session; then the session forgets the fragments, and what the handler and the acknowledgements have queued is given to the encryption.
\<close>

definition message_handled :: "iwp_env \<Rightarrow> 'r link_end handler \<Rightarrow> u64 \<Rightarrow> link_message \<Rightarrow> 'r link_end \<Rightarrow> 'r link_end option" where
  "message_handled E handle i msg s =
     (let (ok, s) = handle msg (s\<lparr>s_remote_router := aliased msg (s_remote_router s)\<rparr>)
      in handled E (Some (ok, s\<lparr>le_firstkey := False, le_msg := None, s_frame := (s_frame s)\<lparr>rx := AList.delete i (rx (s_frame s))\<rparr>\<rparr>)))"

lemma delivered_parsed:
  assumes "inet_ok ntop pton" "link_valid u (s_remote_router s) msg"
  shows "delivered E (HandleRecvLinkMessage handle pton u) (link_bytes ntop msg) i s = message_handled E handle i msg s"
proof -
  have "ahead (link_bytes ntop msg) (StackBuffer (link_bytes ntop msg))" by (simp add: ahead_def StackBuffer_def)
  from process_link_bytes [OF assms this, of "call_handler handle"] show ?thesis
    by (simp add: delivered_def HandleRecvLinkMessage_def call_handler_def message_handled_def split: prod.split)
qed

text \<open>
  C14. A link message over an established link: two sessions with the same key, and a network that delivers what
  is sent. The sender cuts the encoded message, encrypts and sends it; the receiver decrypts it, acknowledges
  the announcement, and the sender answers with all fragments. When the last of them has arrived, the handler of the receiving router is called
  once with exactly the message that was sent, on its router as it was and on the session \<open>s\<close>, which has changed only in its bookkeeping and, by an
  introduction, in its contact; the result is what the handler leaves of the router and of the session, with the message forgotten.
\<close>

theorem link_message_crosses:
  assumes E: "endpoint S EA" "endpoint S EB" and r: "ready A" "ready B" "s_sessionkey A = s_sessionkey B"
    and fl: "txflags (s_frame A) AND eSessionInvalidated = 0" "txflags (s_frame B) AND eSessionInvalidated = 0"
    and i: "txids (s_frame A) = i" "i \<noteq> 0" "map_of (tx (s_frame A)) i = None" "map_of (rx (s_frame B)) i = None"
    and msg: "inet_ok ntop pton" "link_valid u (s_remote_router B) msg" "nfrags (link_bytes ntop msg) \<le> 32"
    and recv: "recv = HandleRecvLinkMessage handle pton u"
  shows "\<exists>A0 x A1 s. link_same B s \<and> sendto EA (link_bytes ntop msg) A = Some A0 \<and> flush EA A0 = Some ([x], A1) \<and>
    (if nfrags (link_bytes ntop msg) = 0
     then deliver EB recv x B = message_handled EB handle i msg s
     else \<exists>B1 ack B2 A2 fs A3. deliver EB recv x B = Some B1 \<and> flush EB B1 = Some ([ack], B2) \<and> deliver EA recvA ack A1 = Some A2 \<and>
       flush EA A2 = Some (fs, A3) \<and> length fs = nfrags (link_bytes ntop msg) \<and>
       deliver_all EB recv fs B2 = message_handled EB handle i msg s)"
proof -
  let ?m = "link_bytes ntop msg"
  have d: "delivered EB recv ?m i s = message_handled EB handle i msg s" if "link_same B s" for s
    using delivered_parsed [OF msg(1), of u s msg EB handle i] msg(2) link_same_fields(6) [OF that] recv by simp
  from message_crosses [OF E r fl i msg(3), of recv recvA] obtain A0 x A1 where
    A: "sendto EA ?m A = Some A0" "flush EA A0 = Some ([x], A1)" and
    B: "if nfrags ?m = 0 then \<exists>s. link_same B s \<and> deliver EB recv x B = delivered EB recv ?m i s
     else \<exists>B1 ack B2 A2 fs A3 s. deliver EB recv x B = Some B1 \<and> flush EB B1 = Some ([ack], B2) \<and> deliver EA recvA ack A1 = Some A2 \<and>
       flush EA A2 = Some (fs, A3) \<and> length fs = nfrags ?m \<and> link_same B s \<and> deliver_all EB recv fs B2 = delivered EB recv ?m i s" by blast
  show ?thesis
  proof (cases "nfrags ?m = 0")
    case True
    with B obtain s where "link_same B s" "deliver EB recv x B = delivered EB recv ?m i s" by auto
    with True A d [of s] show ?thesis by (intro exI [of _ A0] exI [of _ x] exI [of _ A1] exI [of _ s]) simp
  next
    case False
    with B obtain B1 ack B2 A2 fs A3 s where
      "deliver EB recv x B = Some B1" "flush EB B1 = Some ([ack], B2)" "deliver EA recvA ack A1 = Some A2" "flush EA A2 = Some (fs, A3)"
      "length fs = nfrags ?m" "link_same B s" "deliver_all EB recv fs B2 = delivered EB recv ?m i s" by auto
    with False A d [of s] show ?thesis by (intro exI [of _ A0] exI [of _ x] exI [of _ A1] exI [of _ s]) simp
  qed
qed

definition example_link :: "byte \<Rightarrow> session" where
  "example_link x = (example_session x)\<lparr>s_state := eEstablished, s_sessionkey := replicate 32 5, s_frame := frame_state_new\<lparr>txids := 1\<rparr>\<rparr>"

text \<open>A router that keeps the messages it is given\<close>

definition example_end :: "byte \<Rightarrow> link_message list link_end" where
  "example_end x = session.extend (example_link x) (link_end.fields False None [])"

definition example_handle :: "link_message list link_end handler" where
  "example_handle msg s = (True, s\<lparr>le_router := msg # le_router s\<rparr>)"

theorem link_message_crosses_witness:
  "\<exists>A0 x A1 s. link_same (example_end 2) s \<and>
    sendto example_env (link_bytes hex_ntop (Discard \<lparr>dm_remote = replicate 32 0, dm_version = 0, dm_pad = replicate 1200 3\<rparr>)) (example_link 1) = Some A0 \<and>
    flush example_env A0 = Some ([x], A1) \<and>
    (\<exists>B1 ack B2 A2 fs A3. deliver example_env (HandleRecvLinkMessage example_handle HexDecode
          \<lparr>u_ai = uninit_ai, u_bytes = (\<lambda>n. replicate n 0), u_u64 = 0\<rparr>) x (example_end 2) = Some B1 \<and> flush example_env B1 = Some ([ack], B2) \<and>
      deliver example_env (\<lambda>_ _. None) ack A1 = Some A2 \<and> flush example_env A2 = Some (fs, A3) \<and> length fs = 1 \<and>
      deliver_all example_env (HandleRecvLinkMessage example_handle HexDecode
          \<lparr>u_ai = uninit_ai, u_bytes = (\<lambda>n. replicate n 0), u_u64 = 0\<rparr>) fs B2 =
        message_handled example_env example_handle 1 (Discard \<lparr>dm_remote = replicate 32 0, dm_version = 0, dm_pad = replicate 1200 3\<rparr>) s)"
proof -
  let ?u = "\<lparr>u_ai = uninit_ai, u_bytes = (\<lambda>n. replicate n 0), u_u64 = 0\<rparr>"
  let ?msg = "Discard \<lparr>dm_remote = replicate 32 0, dm_version = 0, dm_pad = replicate 1200 3\<rparr>"
  have E: "endpoint example_sodium example_env" using example_sodium_ok by (simp add: endpoint_def example_env_def)
  have "codel_inv f_created CoDelQueue_new" "m_Queue (CoDelQueue_new :: iwp_async_frame CoDelQueue) = []"
    by (simp_all add: codel_inv_def CoDelQueue_new_def)
  then have A: "ready (example_link x)" "s_sessionkey (example_link x) = replicate 32 5" "s_frame (example_link x) = frame_state_new\<lparr>txids := 1\<rparr>" for x
    by (simp_all add: ready_def transporting_def idle_def example_link_def example_session_def session_new_def frame_state_new_def randbytes_def)
  have "s_remote_router (example_end x) = s_remote_router (example_link x)" "s_sessionkey (example_end x) = s_sessionkey (example_link x)"
    "s_frame (example_end x) = s_frame (example_link x)" "ready (example_end x) = ready (example_link x)" for x
    by (simp_all add: example_end_def session.defs ready_def transporting_def)
  then have B: "ready (example_end x)" "s_sessionkey (example_end x) = replicate 32 5" "s_frame (example_end x) = frame_state_new\<lparr>txids := 1\<rparr>"
    "s_remote_router (example_end x) = rc_zero" for x
    using A [of x] by (simp_all add: example_link_def example_session_def session_new_def randbytes_def)
  have n: "nfrags (link_bytes hex_ntop ?msg) = 1"
    by (simp add: nfrags_def MTU_def link_bytes_def msg_bytes_def bstr_def bint_def dec_int_def dec_nat.simps dm_entries_def)
  have v: "link_valid ?u (s_remote_router (example_end 2)) ?msg" by (simp add: B(4) rc_zero_def MAX_DISCARD_SIZE_def PUBKEYSIZE_def)
  show ?thesis
    using link_message_crosses [OF E E A(1) B(1) _ _ _ _ _ _ _ inet_ok_hex v _ refl, of 1 1 example_handle "\<lambda>_ _. None"]
    by (simp add: A B n frame_state_new_def)
qed

end
