(* ===== verification/Kqueue_Loop.thy ===== *)
theory Kqueue_Loop
  imports Event_Loop
begin

text \<open>
  The event loop on FreeBSD and macOS (\<open>udap/ev_kqueue.hpp\<close>). It keeps the interface of the loop on Linux, with three
  differences: a listener that cannot be read is deleted, the result of closing is that of the removal from the
  queue, and stopping closes the descriptor of the queue. On these systems the address families are those of IP; the
  bytes of an address are laid out as on Linux, which only the choice of the family depends on.
\<close>

section \<open>State\<close>

record kqueue_loop =
  kq_open :: bool
  kq_watched :: "nat list"
  kq_listeners :: "nat list"
  kq_impl :: "nat \<Rightarrow> nat option"
  kq_heap :: "nat \<Rightarrow> nat option"
  kq_next :: nat
  kq_received :: "(nat \<times> byte list \<times> byte list) list"
  kq_ticked :: "nat list"

definition kqueue_loop_new :: kqueue_loop where
  "kqueue_loop_new = \<lparr>kq_open = False, kq_watched = [], kq_listeners = [], kq_impl = (\<lambda>_. None), kq_heap = (\<lambda>_. None), kq_next = 0,
     kq_received = [], kq_ticked = []\<rparr>"

text \<open>\<open>made\<close>: whether the system gives a queue\<close>

definition kq_init :: "bool \<Rightarrow> kqueue_loop \<Rightarrow> bool \<times> kqueue_loop" where
  "kq_init made l = (let l = (if \<not> kq_open l then l\<lparr>kq_open := made\<rparr> else l) in (kq_open l, l))"

definition kq_stop :: "kqueue_loop \<Rightarrow> kqueue_loop" where
  "kq_stop l = l\<lparr>kq_open := False, kq_watched := []\<rparr>"

section \<open>Sockets\<close>

definition kq_udp_bind :: "sockets \<Rightarrow> byte list \<Rightarrow> bool" where
  "kq_udp_bind so addr \<longleftrightarrow> ip_family addr \<and> so_socket so \<and>
     (family_of (bytes_at 0 2 addr) = AF_INET6 \<longrightarrow> so_setsockopt so) \<and> so_bind so addr"

text \<open>True when the removal failed\<close>

definition kq_close_ev :: "nat \<Rightarrow> kqueue_loop \<Rightarrow> bool \<times> kqueue_loop" where
  "kq_close_ev ev l = (\<not> (kq_open l \<and> ev \<in> set (kq_watched l)), l\<lparr>kq_watched := removeAll ev (kq_watched l)\<rparr>)"

text \<open>\<open>delete\<close> of a listener closes its socket, and so removes it from the queue.\<close>

definition delete_listener :: "nat \<Rightarrow> kqueue_loop \<Rightarrow> kqueue_loop" where
  "delete_listener ev l = l\<lparr>kq_heap := (kq_heap l)(ev := None), kq_watched := removeAll ev (kq_watched l)\<rparr>"

definition kq_udp_listen :: "sockets \<Rightarrow> nat \<Rightarrow> byte list \<Rightarrow> kqueue_loop \<Rightarrow> bool \<times> kqueue_loop" where
  "kq_udp_listen so udp src l =
     (if \<not> kq_udp_bind so src then (False, l)
      else (let listener = kq_next l; l = l\<lparr>kq_next := listener + 1\<rparr>
            in if \<not> (kq_open l \<and> so_epoll_add so) then (False, l)
               else (True, l\<lparr>kq_heap := (kq_heap l)(listener \<mapsto> udp), kq_watched := kq_watched l @ [listener],
                       kq_listeners := kq_listeners l @ [udp], kq_impl := (kq_impl l)(udp \<mapsto> listener)\<rparr>)))"

definition kq_udp_close :: "nat \<Rightarrow> kqueue_loop \<Rightarrow> (bool \<times> kqueue_loop) option" where
  "kq_udp_close udp l =
     (case kq_impl l udp of
        None \<Rightarrow> Some (False, l)
      | Some listener \<Rightarrow> do {
          _ \<leftarrow> kq_heap l listener;
          let (ret, l) = kq_close_ev listener l;
          let l = delete_listener listener l;
          Some (ret, l\<lparr>kq_impl := (kq_impl l)(udp := None), kq_listeners := removeAll udp (kq_listeners l)\<rparr>)
        })"

definition kq_sendto :: "sockets \<Rightarrow> nat \<Rightarrow> byte list \<Rightarrow> byte list \<Rightarrow> kqueue_loop \<Rightarrow> int option" where
  "kq_sendto so udp dst buf l = do {
     listener \<leftarrow> kq_impl l udp;
     _ \<leftarrow> kq_heap l listener;
     Some (if ip_family dst then so_send so dst buf else -1)
   }"

section \<open>The loop\<close>

fun kq_handle :: "ready_event list \<Rightarrow> kqueue_loop \<Rightarrow> kqueue_loop option" where
  "kq_handle [] l = Some l"
| "kq_handle ((ev, datagram) # evs) l = do {
     udp \<leftarrow> kq_heap l ev;
     kq_handle evs
       (case datagram of
          None \<Rightarrow> delete_listener ev (snd (kq_close_ev ev l))
        | Some (src, data) \<Rightarrow> l\<lparr>kq_received := kq_received l @ [(udp, src, take 2048 data)]\<rparr>)
   }"

text \<open>What \<open>kevent\<close> gives: an error when there is no queue, else what the system reports. It waits without a limit.\<close>

definition kevent_wait :: "ready_event list option \<Rightarrow> kqueue_loop \<Rightarrow> ready_event list option" where
  "kevent_wait w l = (if kq_open l then w else None)"

definition kq_tick_listeners :: "(nat \<Rightarrow> bool) \<Rightarrow> kqueue_loop \<Rightarrow> kqueue_loop" where
  "kq_tick_listeners ticks l = l\<lparr>kq_ticked := kq_ticked l @ filter ticks (kq_listeners l)\<rparr>"

definition kq_tick :: "(nat \<Rightarrow> bool) \<Rightarrow> ready_event list option \<Rightarrow> kqueue_loop \<Rightarrow> (int \<times> kqueue_loop) option" where
  "kq_tick ticks w l =
     (case kevent_wait w l of
        None \<Rightarrow> Some (-1, kq_tick_listeners ticks l)
      | Some evs \<Rightarrow> do {
          l \<leftarrow> kq_handle evs l;
          Some (int (length evs), kq_tick_listeners ticks l)
        })"

text \<open>\<open>run\<close> on the waits to come, nothing when it has not returned after them\<close>

fun kq_run :: "(nat \<Rightarrow> bool) \<Rightarrow> ready_event list option list \<Rightarrow> kqueue_loop \<Rightarrow> (int option \<times> kqueue_loop) option" where
  "kq_run ticks [] l = Some (None, l)"
| "kq_run ticks (w # ws) l =
     (case kevent_wait w l of
        None \<Rightarrow> Some (Some (-1), kq_tick_listeners ticks l)
      | Some evs \<Rightarrow> do {
          l \<leftarrow> kq_handle evs l;
          kq_run ticks ws (kq_tick_listeners ticks l)
        })"

section \<open>The interface\<close>

definition kq_inv :: "kqueue_loop \<Rightarrow> bool" where
  "kq_inv l \<longleftrightarrow> (\<forall>i \<in> set (kq_watched l). kq_heap l i \<noteq> None) \<and> (\<forall>i \<ge> kq_next l. kq_heap l i = None) \<and> (kq_watched l \<noteq> [] \<longrightarrow> kq_open l)"

lemma kq_handle_turn:
  assumes "kq_inv l" "distinct (map fst evs)" "fst ` set evs \<subseteq> set (kq_watched l)"
  shows "\<exists>l'. kq_handle evs l = Some l' \<and> kq_inv l' \<and> kq_received l' = kq_received l @ given (kq_heap l) evs \<and>
    set (kq_watched l') = set (kq_watched l) - unread evs \<and> kq_heap l' = kq_heap l |` (- unread evs) \<and>
    kq_impl l' = kq_impl l \<and> kq_listeners l' = kq_listeners l \<and> kq_open l' = kq_open l"
  using assms
proof (induction evs arbitrary: l)
  case (Cons ev evs)
  obtain i d where ev: "ev = (i, d)" by fastforce
  have i: "i \<in> set (kq_watched l)" "i \<notin> fst ` set evs" "fst ` set evs \<subseteq> set (kq_watched l)" using Cons.prems(2,3) ev by auto
  obtain u where u: "kq_heap l i = Some u" using Cons.prems(1) i(1) by (auto simp: kq_inv_def)
  let ?l = "case d of None \<Rightarrow> delete_listener i (snd (kq_close_ev i l)) | Some (src, data) \<Rightarrow> l\<lparr>kq_received := kq_received l @ [(u, src, take 2048 data)]\<rparr>"
  have l: "kq_inv ?l" "fst ` set evs \<subseteq> set (kq_watched ?l)"
    using Cons.prems(1) i by (auto simp: kq_inv_def delete_listener_def kq_close_ev_def split: option.split)
  have h: "given (kq_heap ?l) evs = given (kq_heap l) evs"
    unfolding given_def by (intro arg_cong [where f = concat] map_cong refl) (use i(2) in \<open>force simp: delete_listener_def kq_close_ev_def split: option.split\<close>)
  from Cons.IH [OF l(1) _ l(2)] Cons.prems(2) obtain l' where
    "kq_handle evs ?l = Some l'" "kq_inv l'" "kq_received l' = kq_received ?l @ given (kq_heap l) evs" "set (kq_watched l') = set (kq_watched ?l) - unread evs"
    "kq_heap l' = kq_heap ?l |` (- unread evs)" "kq_impl l' = kq_impl ?l \<and> kq_listeners l' = kq_listeners ?l \<and> kq_open l' = kq_open ?l"
    unfolding h by auto
  with u ev show ?case
    by (cases d) (auto simp: given_Cons unread_Cons delete_listener_def kq_close_ev_def fun_eq_iff restrict_map_def)
qed (simp add: given_Nil unread_def fun_eq_iff restrict_map_def)

definition kqueue_turn :: "(nat \<Rightarrow> bool) \<Rightarrow> ready_event list \<Rightarrow> kqueue_loop \<Rightarrow> kqueue_loop option" where
  "kqueue_turn ticks evs l = map_option snd (kq_tick ticks (Some evs) l)"

interpretation kqueue: event_source "\<lambda>l. kq_inv l \<and> kq_open l" "\<lambda>l. set (kq_watched l)" kq_heap kq_received "kq_udp_listen so" "kqueue_turn ticks"
  for so ticks
proof (unfold_locales, goal_cases)
  case (1 l i)
  then show ?case by (simp add: kq_inv_def)
next
  case (2 l u a)
  then show ?case by (auto simp: kq_inv_def kq_udp_listen_def Let_def)
next
  case (3 l u a l')
  then have "kq_heap l (kq_next l) = None" by (simp add: kq_inv_def)
  with 3(2) show ?case by (auto simp: kq_udp_listen_def Let_def split: if_splits)
next
  case (4 l evs)
  then have "kq_inv l" "kq_open l" by simp_all
  from kq_handle_turn [OF this(1) 4(2,3)] this(2) show ?case
    by (auto simp: kqueue_turn_def kq_tick_def kevent_wait_def kq_tick_listeners_def kq_inv_def)
qed

section \<open>Steps\<close>

text \<open>The rounds of a system in which every datagram can be read; \<open>kevent\<close> reports sockets of the queue, each once.\<close>

inductive kq_step :: "kqueue_loop \<Rightarrow> kqueue_loop \<Rightarrow> bool" where
  listen: "kq_udp_listen so udp src l = (r, l') \<Longrightarrow> kq_step l l'"
| closed: "kq_udp_close udp l = Some (r, l') \<Longrightarrow> kq_step l l'"
| opened: "kq_init made l = (r, l') \<Longrightarrow> kq_step l l'"
| stopping: "kq_step l (kq_stop l)"
| failed: "kq_tick ticks None l = Some (r, l') \<Longrightarrow> kq_step l l'"
| round: "distinct (map fst evs) \<Longrightarrow> fst ` set evs \<subseteq> set (kq_watched l) \<Longrightarrow> unread evs = {} \<Longrightarrow> kq_tick ticks (Some evs) l = Some (r, l') \<Longrightarrow> kq_step l l'"

definition kq_sound :: "kqueue_loop \<Rightarrow> bool" where
  "kq_sound l \<longleftrightarrow> kq_inv l \<and> (\<forall>u i. kq_impl l u = Some i \<longrightarrow> kq_heap l i = Some u)"

lemma sound_close:
  assumes "kq_sound l" "kq_udp_close udp l = Some (r, l')" shows "kq_sound l'"
proof (cases "kq_impl l udp")
  case (Some i)
  have l': "l' = l\<lparr>kq_watched := removeAll i (kq_watched l), kq_heap := (kq_heap l)(i := None), kq_impl := (kq_impl l)(udp := None),
      kq_listeners := removeAll udp (kq_listeners l)\<rparr>"
    using assms(2) Some by (auto simp: kq_udp_close_def kq_close_ev_def delete_listener_def split: bind_splits)
  have "u = udp" if "kq_impl l u = Some i" for u using that Some assms(1) unfolding kq_sound_def by (metis option.inject)
  with assms(1) show ?thesis unfolding l' by (auto simp: kq_sound_def kq_inv_def)
qed (use assms in \<open>simp add: kq_udp_close_def\<close>)

lemma sound_round:
  assumes "kq_sound l" "distinct (map fst evs)" "fst ` set evs \<subseteq> set (kq_watched l)" "unread evs = {}" "kq_tick ticks (Some evs) l = Some (r, l')"
  shows "kq_sound l'"
proof (cases "kq_open l")
  case True
  have inv: "kq_inv l" using assms(1) by (simp add: kq_sound_def)
  from kq_handle_turn [OF inv assms(2,3)] obtain l1 where
    "kq_handle evs l = Some l1" "kq_inv l1" "kq_heap l1 = kq_heap l" "kq_impl l1 = kq_impl l"
    using assms(4) by (auto simp: restrict_map_def)
  with assms(1,5) True show ?thesis
    by (auto simp: kq_tick_def kevent_wait_def kq_sound_def kq_inv_def kq_tick_listeners_def)
next
  case False
  with assms(1,5) show ?thesis by (auto simp: kq_tick_def kevent_wait_def kq_sound_def kq_inv_def kq_tick_listeners_def)
qed

lemma sound_step: "kq_step l l' \<Longrightarrow> kq_sound l \<Longrightarrow> kq_sound l'"
proof (induction rule: kq_step.induct)
  case (listen so udp src l r l')
  then show ?case by (auto simp: kq_udp_listen_def Let_def kq_sound_def kq_inv_def split: if_splits)
next
  case (closed udp l r l')
  then show ?case by (blast intro: sound_close)
next
  case (opened made l r l')
  then show ?case by (auto simp: kq_init_def Let_def kq_sound_def kq_inv_def split: if_splits)
next
  case (stopping l)
  then show ?case by (auto simp: kq_stop_def kq_sound_def kq_inv_def)
next
  case (failed ticks l r l')
  then show ?case by (auto simp: kq_tick_def kevent_wait_def kq_sound_def kq_inv_def kq_tick_listeners_def)
next
  case (round evs l ticks r l')
  then show ?case by (blast intro: sound_round)
qed

lemma sound_reach: "kq_step\<^sup>*\<^sup>* kqueue_loop_new l \<Longrightarrow> kq_sound l"
proof (induction rule: rtranclp_induct)
  case base
  show ?case by (simp add: kq_sound_def kq_inv_def kqueue_loop_new_def)
qed (blast dest: sound_step)

section \<open>Theorems\<close>

text \<open>
  C40. On both systems a datagram for a socket that was opened, once it is ready, reaches the \<open>udap_udp_io\<close> that opened
  the socket, with its first 2048 bytes; nothing else is given to anybody in that round.
\<close>

theorem opened_socket_receives:
  assumes "ev_inv l" "udp_listen so u a l = (True, l1)" "kq_inv k" "kq_open k" "kq_udp_listen so u a k = (True, k1)"
  shows "(\<exists>i l'. i \<in> set (el_epoll l1) \<and> epoll_turn ticks [(i, Some (src, data))] l1 = Some l' \<and>
      el_received l' = el_received l @ [(u, src, take 2048 data)]) \<and>
    (\<exists>i k'. i \<in> set (kq_watched k1) \<and> kqueue_turn ticks [(i, Some (src, data))] k1 = Some k' \<and>
      kq_received k' = kq_received k @ [(u, src, take 2048 data)])"
  using epoll.listened_delivers [OF assms(1,2)] kqueue.listened_delivers [OF conjI [OF assms(3,4)] assms(5)] by blast

text \<open>
  As long as all datagrams can be read, the loop of FreeBSD and macOS never follows a pointer to a deleted listener: rounds are
  defined, and so are sending and closing on every socket.
\<close>

theorem kqueue_safe_without_errors:
  assumes "kq_step\<^sup>*\<^sup>* kqueue_loop_new l"
  shows "(\<forall>evs. distinct (map fst evs) \<and> fst ` set evs \<subseteq> set (kq_watched l) \<longrightarrow> kq_tick ticks (Some evs) l \<noteq> None) \<and>
    kq_udp_close udp l \<noteq> None \<and> (kq_impl l udp \<noteq> None \<longrightarrow> kq_sendto so udp dst buf l \<noteq> None)"
proof -
  have s: "kq_sound l" by (rule sound_reach [OF assms])
  have "kq_tick ticks (Some evs) l \<noteq> None" if "distinct (map fst evs)" "fst ` set evs \<subseteq> set (kq_watched l)" for evs
  proof (cases "kq_open l")
    case True
    have "kq_inv l" using s by (simp add: kq_sound_def)
    from kq_handle_turn [OF this that] True show ?thesis by (auto simp: kq_tick_def kevent_wait_def)
  qed (simp add: kq_tick_def kevent_wait_def)
  moreover have "kq_udp_close udp l \<noteq> None" "kq_impl l udp \<noteq> None \<longrightarrow> kq_sendto so udp dst buf l \<noteq> None"
    using s by (auto simp: kq_sound_def kq_udp_close_def kq_sendto_def case_prod_beta' Let_def split: option.splits)
  ultimately show ?thesis by blast
qed

text \<open>
  One read that fails ends that: the listener is deleted while its \<open>udap_udp_io\<close> still points to it, so that the next
  datagram sent on it, and closing it, use freed memory.
\<close>

theorem failed_read_dangles:
  assumes "kq_open l" "kq_impl l udp = Some i" "kq_heap l i = Some udp"
  shows "\<exists>l'. kq_tick ticks (Some [(i, None)]) l = Some (1, l') \<and> kq_sendto so udp dst buf l' = None \<and> kq_udp_close udp l' = None"
  using assms
  by (simp add: kq_tick_def kevent_wait_def kq_close_ev_def delete_listener_def kq_tick_listeners_def kq_sendto_def kq_udp_close_def)

text \<open>Stopping ends both ways to run the loop, in the next round.\<close>

theorem kqueue_stop_ends:
  "\<exists>l'. kq_tick ticks w (kq_stop l) = Some (-1, l') \<and> kq_run ticks (w # ws) (kq_stop l) = Some (Some (-1), l')"
  by (simp add: kq_tick_def kevent_wait_def kq_stop_def)

text \<open>The result of closing a socket says that it worked exactly when its removal from the queue failed.\<close>

theorem kqueue_close_inverted:
  assumes "kq_impl l udp = Some i" "kq_heap l i = Some udp"
  shows "\<exists>l'. kq_udp_close udp l = Some (\<not> (kq_open l \<and> i \<in> set (kq_watched l)), l') \<and> kq_impl l' udp = None \<and> i \<notin> set (kq_watched l')"
  using assms by (simp add: kq_udp_close_def kq_close_ev_def delete_listener_def)

section \<open>Witnesses\<close>

definition example_kqueue :: kqueue_loop where
  "example_kqueue = snd (kq_udp_listen example_sockets 7 (machine16 2 @ replicate 14 0) (kqueue_loop_new\<lparr>kq_open := True\<rparr>))"

lemma example_kqueue_eq:
  "example_kqueue = kqueue_loop_new\<lparr>kq_open := True, kq_next := 1, kq_heap := [0 \<mapsto> 7], kq_watched := [0], kq_impl := [7 \<mapsto> 0], kq_listeners := [7]\<rparr>"
proof -
  have "kq_udp_bind example_sockets (machine16 2 @ replicate 14 0)" by code_simp
  then show ?thesis
    by (simp add: example_kqueue_def kq_udp_listen_def example_sockets_def kqueue_loop_new_def Let_def)
qed

theorem opened_socket_receives_witness:
  "(\<exists>i l'. epoll_turn (\<lambda>_. False) [(i, Some ([1], [2, 3]))] example_loop = Some l' \<and> el_received l' = [(7, [1], [2, 3])]) \<and>
   (\<exists>i k'. kqueue_turn (\<lambda>_. False) [(i, Some ([1], [2, 3]))] example_kqueue = Some k' \<and> kq_received k' = [(7, [1], [2, 3])])"
proof -
  let ?src = "machine16 2 @ replicate 14 0" and ?k = "kqueue_loop_new\<lparr>kq_open := True\<rparr>"
  have "udp_bind example_sockets ?src" "kq_udp_bind example_sockets ?src" by code_simp+
  then have "udp_listen example_sockets 7 ?src ev_loop_new = (True, example_loop)" "kq_udp_listen example_sockets 7 ?src ?k = (True, example_kqueue)"
    by (simp_all add: example_loop_def example_kqueue_def udap_ev_add_udp_def udp_listen_def kq_udp_listen_def example_sockets_def ev_loop_new_def
        kqueue_loop_new_def Let_def)
  moreover have "kq_inv ?k" "kq_open ?k" by (simp_all add: kq_inv_def kqueue_loop_new_def)
  ultimately show ?thesis
    using opened_socket_receives [OF inv_new, of example_sockets 7 ?src example_loop ?k example_kqueue "\<lambda>_. False" "[1]" "[2, 3]"]
    by (auto simp: ev_loop_new_def kqueue_loop_new_def)
qed

theorem kqueue_safe_without_errors_witness:
  "kq_tick (\<lambda>_. False) (Some [(0, Some ([1], [2, 3]))]) example_kqueue \<noteq> None \<and> kq_udp_close 7 example_kqueue \<noteq> None \<and>
    kq_sendto example_sockets 7 [] [] example_kqueue \<noteq> None"
proof -
  have "kq_step kqueue_loop_new (kqueue_loop_new\<lparr>kq_open := True\<rparr>)"
    by (rule opened [of True _ True]) (simp add: kq_init_def kqueue_loop_new_def Let_def)
  moreover have "kq_step (kqueue_loop_new\<lparr>kq_open := True\<rparr>) example_kqueue"
    unfolding example_kqueue_def by (rule listen) (rule surjective_pairing)
  ultimately have "kq_step\<^sup>*\<^sup>* kqueue_loop_new example_kqueue" by auto
  from kqueue_safe_without_errors [OF this, of "\<lambda>_. False" 7 example_sockets "[]" "[]"] show ?thesis
    by (auto simp: example_kqueue_eq kqueue_loop_new_def dest: spec [of _ "[(0, Some ([1], [2, 3]))]"])
qed

theorem failed_read_dangles_witness:
  "\<exists>l'. kq_tick (\<lambda>_. False) (Some [(0, None)]) example_kqueue = Some (1, l') \<and> kq_sendto example_sockets 7 [] [] l' = None \<and> kq_udp_close 7 l' = None"
  by (rule failed_read_dangles) (simp_all add: example_kqueue_eq kqueue_loop_new_def)

theorem kqueue_close_inverted_witness: "\<exists>l'. kq_udp_close 7 example_kqueue = Some (False, l')"
  using kqueue_close_inverted [of example_kqueue 7 0] by (auto simp: example_kqueue_eq kqueue_loop_new_def)

end
