(* ===== verification/Thread_Pool.thy ===== *)
theory Thread_Pool
  imports Prelude "HOL-Library.Multiset"
begin

text \<open>
  The threads of a pool (\<open>udap/threadpool.cpp\<close>, \<open>Pool\<close>): each worker checks the queue under the mutex, sleeps on
  the condition variable while there is nothing to do, runs one job at a time outside the mutex, and returns once the pool
  has stopped and the queue is empty. What happens under the mutex is one step; the notifications are steps of their
  own, after it, in any order with everything else.
\<close>

section \<open>State\<close>

text \<open>
  A worker is about to check the queue, sleeps in \<open>condition.wait\<close>, runs a job, or has returned. \<open>po_wakeups\<close> are the calls of
  \<open>notify_one\<close> still to come, \<open>po_wake_all\<close> that of \<open>notify_all\<close>. What was accepted, started and done is recorded in order.
\<close>

datatype worker = Checking | Asleep | Working nat | Returned

record Pool =
  po_jobs :: "nat list"
  po_stop :: bool
  po_workers :: "worker list"
  po_wakeups :: nat
  po_wake_all :: bool
  po_accepted :: "nat list"
  po_started :: "nat list"
  po_done :: "nat list"

definition Pool_new :: "nat \<Rightarrow> Pool" where
  "Pool_new workers = \<lparr>po_jobs = [], po_stop = False, po_workers = replicate workers Checking, po_wakeups = 0, po_wake_all = False,
     po_accepted = [], po_started = [], po_done = []\<rparr>"

section \<open>Operations\<close>

definition Pool_Stop :: "Pool \<Rightarrow> Pool" where
  "Pool_Stop p = p\<lparr>po_stop := True, po_wake_all := True\<rparr>"

definition Pool_QueueJob :: "nat \<Rightarrow> Pool \<Rightarrow> Pool" where
  "Pool_QueueJob job p =
     (if po_stop p then p
      else p\<lparr>po_jobs := po_jobs p @ [job], po_accepted := po_accepted p @ [job], po_wakeups := po_wakeups p + 1\<rparr>)"

text \<open>\<open>Join\<close> returns when every thread has; the pool has no threads then.\<close>

definition Pool_Join :: "Pool \<Rightarrow> Pool option" where
  "Pool_Join p = (if list_all (\<lambda>w. w = Returned) (po_workers p) then Some (p\<lparr>po_workers := []\<rparr>) else None)"

definition set_worker :: "nat \<Rightarrow> worker \<Rightarrow> Pool \<Rightarrow> Pool" where
  "set_worker i w p = p\<lparr>po_workers := (po_workers p)[i := w]\<rparr>"

definition worker_check :: "nat \<Rightarrow> Pool \<Rightarrow> Pool" where
  "worker_check i p =
     (if \<not> (po_stop p \<or> po_jobs p \<noteq> []) then set_worker i Asleep p
      else case po_jobs p of
             [] \<Rightarrow> set_worker i Returned p
           | job # js \<Rightarrow> set_worker i (Working job) (p\<lparr>po_jobs := js, po_started := po_started p @ [job]\<rparr>))"

definition worker_finish :: "nat \<Rightarrow> nat \<Rightarrow> Pool \<Rightarrow> Pool" where
  "worker_finish i job p = set_worker i Checking (p\<lparr>po_done := po_done p @ [job]\<rparr>)"

definition wake :: "worker \<Rightarrow> worker" where
  "wake w = (if w = Asleep then Checking else w)"

definition holds :: "nat \<Rightarrow> worker \<Rightarrow> Pool \<Rightarrow> bool" where
  "holds i w p \<longleftrightarrow> i < length (po_workers p) \<and> po_workers p ! i = w"

text \<open>The steps of the workers and of the notifications that they wait for\<close>

inductive worker_step :: "Pool \<Rightarrow> Pool \<Rightarrow> bool" where
  check: "holds i Checking p \<Longrightarrow> worker_step p (worker_check i p)"
| finish: "holds i (Working job) p \<Longrightarrow> worker_step p (worker_finish i job p)"
| wake_one: "po_wakeups p = Suc n \<Longrightarrow> holds i Asleep p \<Longrightarrow> worker_step p (set_worker i Checking (p\<lparr>po_wakeups := n\<rparr>))"
| wake_none: "po_wakeups p = Suc n \<Longrightarrow> Asleep \<notin> set (po_workers p) \<Longrightarrow> worker_step p (p\<lparr>po_wakeups := n\<rparr>)"
| wake_every: "po_wake_all p \<Longrightarrow> worker_step p (p\<lparr>po_wake_all := False, po_workers := map wake (po_workers p)\<rparr>)"

text \<open>A condition variable may wake a thread without a notification.\<close>

inductive pool_step :: "Pool \<Rightarrow> Pool \<Rightarrow> bool" where
  inner: "worker_step p p' \<Longrightarrow> pool_step p p'"
| spurious: "holds i Asleep p \<Longrightarrow> pool_step p (set_worker i Checking p)"
| queued: "pool_step p (Pool_QueueJob job p)"
| stopped: "pool_step p (Pool_Stop p)"

section \<open>The invariant\<close>

fun job_of :: "worker \<Rightarrow> nat list" where
  "job_of (Working job) = [job]"
| "job_of _ = []"

definition working :: "Pool \<Rightarrow> nat list" where
  "working p = concat (map job_of (po_workers p))"

fun active :: "worker \<Rightarrow> bool" where
  "active Asleep = False"
| "active Returned = False"
| "active _ = True"

text \<open>
  Jobs are started in order and each is with one worker until it is done; no worker has returned before the end; while jobs wait,
  a worker is active or a notification is to come; once the pool has stopped no worker sleeps, or all will be woken.
\<close>

definition order_inv :: "Pool \<Rightarrow> bool" where
  "order_inv p \<longleftrightarrow> po_started p @ po_jobs p = po_accepted p \<and> mset (po_done p) + mset (working p) = mset (po_started p)"

definition wake_inv :: "Pool \<Rightarrow> bool" where
  "wake_inv p \<longleftrightarrow> (Returned \<in> set (po_workers p) \<longrightarrow> po_stop p \<and> po_jobs p = []) \<and>
     (po_jobs p \<noteq> [] \<and> po_workers p \<noteq> [] \<longrightarrow> po_wakeups p > 0 \<or> (\<exists>w \<in> set (po_workers p). active w)) \<and>
     (po_stop p \<longrightarrow> po_wake_all p \<or> Asleep \<notin> set (po_workers p))"

lemma holds_split: "holds i w p \<Longrightarrow> \<exists>xs ys. po_workers p = xs @ w # ys \<and> length xs = i"
  unfolding holds_def by (metis id_take_nth_drop length_take min.absorb4)

lemma working_update:
  assumes "holds i w p"
  shows "mset (working (set_worker i w' p)) + mset (job_of w) = mset (working p) + mset (job_of w')"
proof -
  from holds_split [OF assms] obtain xs ys where "po_workers p = xs @ w # ys" "length xs = i" by blast
  then show ?thesis by (auto simp: working_def set_worker_def)
qed

lemma set_worker_fields [simp]:
  "po_jobs (set_worker i w p) = po_jobs p" "po_stop (set_worker i w p) = po_stop p" "po_accepted (set_worker i w p) = po_accepted p"
  "po_started (set_worker i w p) = po_started p" "po_done (set_worker i w p) = po_done p" "po_wakeups (set_worker i w p) = po_wakeups p"
  "po_wake_all (set_worker i w p) = po_wake_all p" "po_workers (set_worker i w p) = (po_workers p)[i := w]"
  by (simp_all add: set_worker_def)

lemma working_cong: "po_workers p = po_workers p' \<Longrightarrow> working p = working p'"
  by (simp add: working_def)

lemma job_of_wake: "job_of (wake w) = job_of w"
  by (cases w) (simp_all add: wake_def)

lemma check_order:
  assumes "holds i Checking p" "order_inv p" shows "order_inv (worker_check i p)"
proof (cases "po_jobs p")
  case Nil
  with assms(2) working_update [OF assms(1)] show ?thesis
    by (simp add: worker_check_def order_inv_def)
next
  case (Cons job js)
  let ?p = "p\<lparr>po_jobs := js, po_started := po_started p @ [job]\<rparr>"
  have "holds i Checking ?p" "working ?p = working p" using assms(1) by (simp_all add: holds_def working_def)
  with working_update [of i Checking ?p "Working job"] assms(2) Cons show ?thesis
    by (auto simp: worker_check_def order_inv_def)
qed

lemma finish_order:
  assumes "holds i (Working job) p" "order_inv p" shows "order_inv (worker_finish i job p)"
proof -
  let ?p = "p\<lparr>po_done := po_done p @ [job]\<rparr>"
  have "holds i (Working job) ?p" "working ?p = working p" using assms(1) by (simp_all add: holds_def working_def)
  from working_update [OF this(1), of Checking] this(2)
  have "mset (working p) = add_mset job (mset (working (set_worker i Checking ?p)))" by simp
  with assms(2) show ?thesis by (simp add: worker_finish_def order_inv_def)
qed

lemma awake_order:
  assumes "holds i Asleep p" "order_inv p" shows "order_inv (set_worker i Checking (p\<lparr>po_wakeups := n\<rparr>))"
proof -
  let ?p = "p\<lparr>po_wakeups := n\<rparr>"
  have "holds i Asleep ?p" "working ?p = working p" using assms(1) by (simp_all add: holds_def working_def)
  from working_update [OF this(1), of Checking] this(2) assms(2) show ?thesis by (auto simp: order_inv_def)
qed

lemma step_order: "pool_step p p' \<Longrightarrow> order_inv p \<Longrightarrow> order_inv p'"
proof (induction rule: pool_step.induct)
  case (inner p p')
  then show ?case
  proof (induction rule: worker_step.induct)
    case (wake_every p)
    then show ?case by (simp add: order_inv_def working_def job_of_wake comp_def)
  next
    case (wake_none p n)
    then show ?case by (simp add: order_inv_def working_def)
  qed (simp_all add: check_order finish_order awake_order)
next
  case (spurious i p)
  then show ?case using awake_order [of i p "po_wakeups p"] by simp
next
  case (queued p job)
  then show ?case by (auto simp: Pool_QueueJob_def order_inv_def working_def)
next
  case (stopped p)
  then show ?case by (simp add: Pool_Stop_def order_inv_def working_def)
qed

lemma wake_one_inv:
  assumes "holds i Asleep p" "wake_inv p" shows "wake_inv (set_worker i Checking (p\<lparr>po_wakeups := n\<rparr>))"
proof -
  from holds_split [OF assms(1)] obtain xs ys where "po_workers p = xs @ Asleep # ys" "length xs = i" by blast
  with assms(2) show ?thesis by (auto simp: wake_inv_def)
qed

lemma check_wake:
  assumes "holds i Checking p" "wake_inv p" shows "wake_inv (worker_check i p)"
proof -
  from holds_split [OF assms(1)] obtain xs ys where "po_workers p = xs @ Checking # ys" "length xs = i" by blast
  with assms(2) show ?thesis by (cases "po_jobs p") (auto simp: wake_inv_def worker_check_def)
qed

lemma finish_wake:
  assumes "holds i (Working job) p" "wake_inv p" shows "wake_inv (worker_finish i job p)"
proof -
  from holds_split [OF assms(1)] obtain xs ys where "po_workers p = xs @ Working job # ys" "length xs = i" by blast
  with assms(2) show ?thesis by (auto simp: wake_inv_def worker_finish_def)
qed

lemma not_asleep_active: "w \<noteq> Asleep \<Longrightarrow> w \<noteq> Returned \<Longrightarrow> active w"
  by (cases w) simp_all

lemma wake_none_inv:
  assumes "Asleep \<notin> set (po_workers p)" "wake_inv p" shows "wake_inv (p\<lparr>po_wakeups := n\<rparr>)"
proof -
  have "\<exists>w \<in> set (po_workers p). active w" if jobs: "po_jobs p \<noteq> []" and ws: "po_workers p \<noteq> []"
  proof -
    obtain w where "w \<in> set (po_workers p)" using ws by (cases "po_workers p") auto
    moreover from this have "w \<noteq> Asleep" "w \<noteq> Returned" using assms jobs by (auto simp: wake_inv_def)
    ultimately show ?thesis using not_asleep_active by blast
  qed
  with assms(2) show ?thesis by (auto simp: wake_inv_def)
qed

lemma wake_every_inv:
  assumes "wake_inv p" shows "wake_inv (p\<lparr>po_wake_all := False, po_workers := map wake (po_workers p)\<rparr>)"
proof -
  let ?S = "set (po_workers p)"
  have w: "active w \<Longrightarrow> active (wake w)" "Asleep \<noteq> wake w" "Returned = wake w \<longleftrightarrow> Returned = w" for w
    by (cases w; simp add: wake_def)+
  then have "Asleep \<notin> wake ` ?S" "Returned \<in> wake ` ?S \<longleftrightarrow> Returned \<in> ?S" by auto
  moreover have "(\<exists>w \<in> ?S. active w) \<longrightarrow> (\<exists>w \<in> ?S. active (wake w))" using w(1) by blast
  ultimately show ?thesis using assms by (auto simp: wake_inv_def)
qed

lemma step_wake: "pool_step p p' \<Longrightarrow> wake_inv p \<Longrightarrow> wake_inv p'"
proof (induction rule: pool_step.induct)
  case (inner p p')
  then show ?case
    by (induction rule: worker_step.induct) (simp_all add: check_wake finish_wake wake_one_inv wake_none_inv wake_every_inv)
next
  case (spurious i p)
  then show ?case using wake_one_inv [of i p "po_wakeups p"] by simp
next
  case (queued p job)
  then show ?case by (auto simp: Pool_QueueJob_def wake_inv_def)
next
  case (stopped p)
  then show ?case by (simp add: Pool_Stop_def wake_inv_def)
qed

definition pool_inv :: "nat \<Rightarrow> Pool \<Rightarrow> bool" where
  "pool_inv n p \<longleftrightarrow> order_inv p \<and> wake_inv p \<and> length (po_workers p) = n"

lemma step_length: "pool_step p p' \<Longrightarrow> length (po_workers p') = length (po_workers p)"
proof (induction rule: pool_step.induct)
  case (inner p p')
  then show ?case
    by (induction rule: worker_step.induct) (auto simp: worker_check_def worker_finish_def split: list.split)
qed (simp_all add: Pool_QueueJob_def Pool_Stop_def)

lemma pool_reach: "pool_step\<^sup>*\<^sup>* (Pool_new n) p \<Longrightarrow> pool_inv n p"
proof (induction rule: rtranclp_induct)
  case base
  have "working (Pool_new n) = []" by (induction n) (simp_all add: working_def Pool_new_def)
  then show ?case by (auto simp: pool_inv_def order_inv_def wake_inv_def Pool_new_def)
next
  case (step p p')
  then show ?case using step_order step_wake step_length by (auto simp: pool_inv_def)
qed

section \<open>Progress\<close>

lemma holds_ex: "w \<in> set (po_workers p) \<Longrightarrow> \<exists>i. holds i w p"
  by (auto simp: holds_def in_set_conv_nth)

lemma active_steps:
  assumes "w \<in> set (po_workers p)" "active w" shows "\<exists>p'. worker_step p p'"
proof -
  obtain i where "holds i w p" using holds_ex [OF assms(1)] by blast
  with assms(2) show ?thesis by (cases w) (auto intro: worker_step.intros)
qed

lemma wakeup_steps:
  assumes "po_wakeups p > 0" shows "\<exists>p'. worker_step p p'"
proof -
  obtain n where n: "po_wakeups p = Suc n" using assms by (cases "po_wakeups p") auto
  show ?thesis
  proof (cases "Asleep \<in> set (po_workers p)")
    case True
    then obtain i where "holds i Asleep p" using holds_ex by blast
    with n show ?thesis by (blast intro: wake_one)
  qed (blast intro: wake_none [OF n])
qed

lemma busy_steps:
  assumes "pool_inv n p" "0 < n" "po_jobs p \<noteq> [] \<or> po_stop p \<and> (\<exists>w \<in> set (po_workers p). w \<noteq> Returned)"
  shows "\<exists>p'. worker_step p p'"
proof -
  have inv: "wake_inv p" and ne: "po_workers p \<noteq> []" using assms(1,2) by (auto simp: pool_inv_def)
  from assms(3) show ?thesis
  proof
    assume "po_jobs p \<noteq> []"
    with inv ne have "po_wakeups p > 0 \<or> (\<exists>w \<in> set (po_workers p). active w)" by (simp add: wake_inv_def)
    then show ?thesis using wakeup_steps active_steps by blast
  next
    assume "po_stop p \<and> (\<exists>w \<in> set (po_workers p). w \<noteq> Returned)"
    then obtain w where w: "w \<in> set (po_workers p)" "w \<noteq> Returned" "po_wake_all p \<or> w \<noteq> Asleep" using inv by (auto simp: wake_inv_def)
    then show ?thesis using active_steps [OF w(1)] not_asleep_active wake_every by blast
  qed
qed

text \<open>Once the pool has stopped, every step brings its end nearer.\<close>

fun weight :: "worker \<Rightarrow> nat" where
  "weight Checking = 1"
| "weight Asleep = 2"
| "weight (Working job) = 2"
| "weight Returned = 0"

definition pool_measure :: "Pool \<Rightarrow> nat" where
  "pool_measure p = 2 * length (po_jobs p) + sum_list (map weight (po_workers p)) + po_wakeups p + of_bool (po_wake_all p)"

lemma weight_update:
  "holds i w p \<Longrightarrow> sum_list (map weight ((po_workers p)[i := w'])) + weight w = sum_list (map weight (po_workers p)) + weight w'"
  by (drule holds_split) auto

lemma weight_wake: "sum_list (map weight (map wake ws)) \<le> sum_list (map weight ws)"
  by (induction ws) (auto simp: wake_def intro: add_mono)

lemma step_decreases:
  assumes "worker_step p p'" "po_stop p"
  shows "pool_measure p' < pool_measure p \<and> po_stop p' \<and> po_accepted p' = po_accepted p"
  using assms
proof (induction rule: worker_step.induct)
  case (check i p)
  show ?case
  proof (cases "po_jobs p")
    case Nil
    with check weight_update [OF check(1), of Returned] show ?thesis by (simp add: pool_measure_def worker_check_def)
  next
    case (Cons job js)
    with check weight_update [OF check(1), of "Working job"] show ?thesis by (simp add: pool_measure_def worker_check_def)
  qed
next
  case (finish i job p)
  with weight_update [OF finish(1), of Checking] show ?case by (simp add: pool_measure_def worker_finish_def)
next
  case (wake_one p n i)
  with weight_update [OF wake_one(2), of Checking] show ?case by (simp add: pool_measure_def)
next
  case (wake_none p n)
  then show ?case by (simp add: pool_measure_def)
next
  case (wake_every p)
  with weight_wake [of "po_workers p"] show ?case by (simp add: pool_measure_def)
qed

lemma run_to_end: "po_stop p \<Longrightarrow> \<exists>p'. worker_step\<^sup>*\<^sup>* p p' \<and> (\<nexists>p''. worker_step p' p'') \<and> po_stop p' \<and> po_accepted p' = po_accepted p"
proof (induction "pool_measure p" arbitrary: p rule: less_induct)
  case less
  show ?case
  proof (cases "\<exists>p1. worker_step p p1")
    case True
    then obtain p1 where p1: "worker_step p p1" by blast
    note d = step_decreases [OF p1 less.prems]
    from less.hyps [of p1] d obtain p' where
      "worker_step\<^sup>*\<^sup>* p1 p'" "\<nexists>p''. worker_step p' p''" "po_stop p'" "po_accepted p' = po_accepted p" by auto
    with p1 show ?thesis by (meson converse_rtranclp_into_rtranclp)
  qed (use less.prems in blast)
qed

lemma run_inv: "worker_step\<^sup>*\<^sup>* p p' \<Longrightarrow> pool_inv n p \<Longrightarrow> pool_inv n p'"
proof (induction rule: rtranclp_induct)
  case (step p1 p2)
  then have "pool_step p1 p2" by (simp add: inner)
  with step step_order step_wake step_length show ?case by (auto simp: pool_inv_def)
qed simp

lemma ended:
  assumes "pool_inv n p" "0 < n" "po_stop p" "\<nexists>p'. worker_step p p'"
  shows "list_all (\<lambda>w. w = Returned) (po_workers p) \<and> mset (po_done p) = mset (po_accepted p) \<and> po_started p = po_accepted p"
proof -
  have w: "\<forall>w \<in> set (po_workers p). w = Returned" "po_jobs p = []" using busy_steps [OF assms(1,2)] assms(3,4) by blast+
  have "concat (map job_of ws) = []" if "\<forall>w \<in> set ws. w = Returned" for ws using that by (induction ws) auto
  from this [OF w(1)] have "working p = []" by (simp add: working_def)
  with w assms(1) show ?thesis by (auto simp: pool_inv_def order_inv_def list_all_iff)
qed

section \<open>Theorems\<close>

text \<open>
  C16. No wake-up is lost: in every state that calls of the pool and its threads can reach, in whatever order, a pool with at least one
  thread can go on whenever a job waits, or whenever it has stopped and a thread has not returned.
\<close>

theorem no_lost_wakeup:
  assumes "pool_step\<^sup>*\<^sup>* (Pool_new n) p" "0 < n" "po_jobs p \<noteq> [] \<or> po_stop p \<and> (\<exists>w \<in> set (po_workers p). w \<noteq> Returned)"
  shows "\<exists>p'. worker_step p p'"
  by (rule busy_steps [OF pool_reach [OF assms(1)] assms(2,3)])

text \<open>
  C15. Stopping a pool ends it: its threads cannot go on forever, and when none of them can do anything any more, \<open>Join\<close>
  returns; then the jobs that were accepted before the stop were all started in the order in which they were given, and each was
  run exactly once.
\<close>

theorem stopped_pool_joins:
  assumes "pool_step\<^sup>*\<^sup>* (Pool_new n) p" "0 < n"
  shows "wfP (\<lambda>p2 p1. worker_step p1 p2 \<and> po_stop p1) \<and>
    (\<exists>p'. worker_step\<^sup>*\<^sup>* (Pool_Stop p) p' \<and> (\<nexists>p''. worker_step p' p'')) \<and>
    (\<forall>p'. worker_step\<^sup>*\<^sup>* (Pool_Stop p) p' \<and> (\<nexists>p''. worker_step p' p'') \<longrightarrow>
      Pool_Join p' \<noteq> None \<and> po_started p' = po_accepted p \<and> mset (po_done p') = mset (po_accepted p))"
proof (intro conjI allI impI)
  show "wfP (\<lambda>p2 p1. worker_step p1 p2 \<and> po_stop p1)"
    by (rule wfp_if_convertible_to_nat [of _ pool_measure]) (use step_decreases in blast)
  have stop: "po_stop (Pool_Stop p)" "po_accepted (Pool_Stop p) = po_accepted p" by (simp_all add: Pool_Stop_def)
  from run_to_end [OF this(1)] show "\<exists>p'. worker_step\<^sup>*\<^sup>* (Pool_Stop p) p' \<and> (\<nexists>p''. worker_step p' p'')" by blast
  fix p' assume run: "worker_step\<^sup>*\<^sup>* (Pool_Stop p) p' \<and> (\<nexists>p''. worker_step p' p'')"
  have "pool_step\<^sup>*\<^sup>* (Pool_new n) (Pool_Stop p)" using assms(1) stopped by (meson rtranclp.rtrancl_into_rtrancl)
  from run_inv [OF _ pool_reach [OF this]] run have inv: "pool_inv n p'" by blast
  have "worker_step\<^sup>*\<^sup>* (Pool_Stop p) p' \<Longrightarrow> po_stop p' \<and> po_accepted p' = po_accepted p"
    by (induction rule: rtranclp_induct) (use stop step_decreases in auto)
  with run ended [OF inv assms(2)] show "Pool_Join p' \<noteq> None" "po_started p' = po_accepted p" "mset (po_done p') = mset (po_accepted p)"
    by (auto simp: Pool_Join_def)
qed

text \<open>A pool is never joined before it was stopped.\<close>

theorem join_needs_stop:
  assumes "pool_step\<^sup>*\<^sup>* (Pool_new n) p" "0 < n" "\<not> po_stop p"
  shows "Pool_Join p = None"
proof -
  have "pool_inv n p" by (rule pool_reach [OF assms(1)])
  with assms(2,3) show ?thesis by (cases "po_workers p") (auto simp: pool_inv_def wake_inv_def Pool_Join_def)
qed

section \<open>Witnesses\<close>

theorem no_lost_wakeup_witness: "\<exists>p'. worker_step (Pool_QueueJob 7 (Pool_new 2)) p'"
  by (rule no_lost_wakeup [of 2]) (auto simp: Pool_QueueJob_def Pool_new_def intro: queued [of "Pool_new 2" 7, unfolded Pool_QueueJob_def Pool_new_def, simplified])

theorem stopped_pool_joins_witness:
  "\<exists>p'. worker_step\<^sup>*\<^sup>* (Pool_Stop (Pool_QueueJob 7 (Pool_new 2))) p' \<and> Pool_Join p' \<noteq> None \<and> po_done p' = [7]"
proof -
  have "pool_step\<^sup>*\<^sup>* (Pool_new 2) (Pool_QueueJob 7 (Pool_new 2))" by (rule r_into_rtranclp) (rule queued)
  from stopped_pool_joins [OF this] obtain p' where
    "worker_step\<^sup>*\<^sup>* (Pool_Stop (Pool_QueueJob 7 (Pool_new 2))) p'" "Pool_Join p' \<noteq> None" "mset (po_done p') = mset (po_accepted (Pool_QueueJob 7 (Pool_new 2)))" by auto
  moreover have "po_accepted (Pool_QueueJob 7 (Pool_new 2)) = [7]" by (simp add: Pool_QueueJob_def Pool_new_def)
  ultimately show ?thesis using mset_single_iff [of "po_done p'" 7] by auto
qed

theorem join_needs_stop_witness: "Pool_Join (Pool_new 1) = None"
  by (rule join_needs_stop [of 1]) (simp_all add: Pool_new_def)

end
