(* ===== verification/Ini_Dump.thy ===== *)
theory Ini_Dump
  imports Config "HOL-Library.Sublist"
begin

text \<open>
  Writing out a configuration (\<open>udap/ini.hpp\<close>, \<open>Parser::dump\<close>): the tree of levels as text, with any nesting of
  sections, and reading that text back.
\<close>

section \<open>Trees\<close>

text \<open>A level with its settings and its sections in the order of \<open>ordered_sections\<close>\<close>

datatype level_tree = Node (tr_values: "(byte list \<times> byte list) list") (tr_sections: "(byte list \<times> level_tree) list")

text \<open>The settings of a level, and the first setting with a name\<close>

definition level_get :: "byte list \<Rightarrow> (byte list \<times> byte list) list \<Rightarrow> byte list" where
  "level_get name values = (case map_of values name of Some v \<Rightarrow> v | None \<Rightarrow> [])"

fun dump :: "nat \<Rightarrow> byte list \<Rightarrow> level_tree \<Rightarrow> byte list" where
  "dump depth sname (Node vals sections) =
     (if sname \<noteq> [] then [10] else []) @ replicate depth 0x5B @ sname @ replicate depth 0x5D @ (if sname \<noteq> [] then [10] else []) @
     concat (map (\<lambda>(k, v). k @ [0x3D] @ v @ [10]) vals) @
     concat (map (\<lambda>(n, t). dump (depth + 1) n t) sections)"

text \<open>The levels at and below a path are this tree.\<close>

fun is_tree :: "(path \<rightharpoonup> Level) \<Rightarrow> path \<Rightarrow> level_tree \<Rightarrow> bool" where
  "is_tree L q (Node vals sections) \<longleftrightarrow>
     L q = Some \<lparr>lv_values = vals, lv_ordered = map fst sections, lv_parent = (if q = [] then None else Some (butlast q)), lv_depth = length q\<rparr> \<and>
     (\<forall>(n, t) \<in> set sections. is_tree L (q @ [n]) t)"

definition name_ok :: "byte list \<Rightarrow> bool" where
  "name_ok n \<longleftrightarrow> n \<noteq> [] \<and> 10 \<notin> set n \<and> hd n \<noteq> 0x5B"

fun tree_ok :: "level_tree \<Rightarrow> bool" where
  "tree_ok (Node vals sections) \<longleftrightarrow> list_all setting_ok vals \<and> distinct (map fst sections) \<and>
     (\<forall>(n, t) \<in> set sections. name_ok n \<and> tree_ok t)"

section \<open>Lines\<close>

definition header :: "nat \<Rightarrow> byte list \<Rightarrow> byte list" where
  "header depth n = replicate depth 0x5B @ n @ replicate depth 0x5D"

fun dump_lines :: "nat \<Rightarrow> byte list \<Rightarrow> level_tree \<Rightarrow> byte list list" where
  "dump_lines depth n (Node vals sections) = [] # header depth n # map setting_line vals @ concat (map (\<lambda>(n, t). dump_lines (depth + 1) n t) sections)"

definition with_newlines :: "byte list list \<Rightarrow> byte list" where
  "with_newlines ls = concat (map (\<lambda>l. l @ [10]) ls)"

lemma with_newlines_simps [simp]:
  "with_newlines [] = []" "with_newlines (l # ls) = l @ [10] @ with_newlines ls" "with_newlines (ls @ ls') = with_newlines ls @ with_newlines ls'"
  by (simp_all add: with_newlines_def)

lemma with_newlines_concat: "concat (map with_newlines lss) = with_newlines (concat lss)"
  by (induction lss) simp_all

lemma values_lines: "concat (map (\<lambda>(k, v). k @ 0x3D # v @ [10]) vals) = with_newlines (map setting_line vals)"
  by (induction vals) (auto simp: setting_line_def)

lemma dump_is_lines: "n \<noteq> [] \<Longrightarrow> tree_ok t \<Longrightarrow> dump depth n t = with_newlines (dump_lines depth n t)"
proof (induction t arbitrary: depth n)
  case (Node vals sections)
  have "concat (map (\<lambda>(n, t). dump (depth + 1) n t) ss) = with_newlines (concat (map (\<lambda>(n, t). dump_lines (depth + 1) n t) ss))"
    if "set ss \<subseteq> set sections" for ss
    using that
  proof (induction ss)
    case (Cons s ss)
    obtain m t where s: "s = (m, t)" by fastforce
    with Cons.prems have mem: "(m, t) \<in> set sections" by simp
    with Node.prems(2) have "m \<noteq> []" "tree_ok t" by (auto simp: name_ok_def)
    from Node.IH [OF mem _ this, of "depth + 1"] have "dump (depth + 1) m t = with_newlines (dump_lines (depth + 1) m t)" by simp
    with Cons s show ?case by simp
  qed simp
  from this [OF subset_refl] Node.prems(1) show ?case by (simp add: header_def values_lines)
qed

section \<open>Reading a section\<close>

abbreviation levels :: "Parser \<Rightarrow> path \<rightharpoonup> Level" where
  "levels p \<equiv> map_of (pa_levels p)"

text \<open>The parser is somewhere below the level \<open>q\<close>.\<close>

definition inside :: "path \<Rightarrow> Parser \<Rightarrow> bool" where
  "inside q p \<longleftrightarrow> parser_ok p \<and> (\<exists>r. pa_current p = q @ r)"

lemma inside_level: "inside q p \<Longrightarrow> \<exists>l. levels p q = Some l"
proof -
  assume i: "inside q p"
  then obtain r where r: "pa_current p = q @ r" and ok: "levels_ok (pa_levels p)" "levels p (q @ r) \<noteq> None"
    by (auto simp: inside_def parser_ok_def)
  have "length r \<le> length (q @ r)" by simp
  from ascend_ok [OF ok this] show ?thesis by auto
qed

lemma below_absent:
  assumes "levels_ok ls" "map_of ls q = None" shows "map_of ls (q @ r) = None"
  using assms(2)
proof (induction r rule: rev_induct)
  case (snoc x r)
  have "map_of ls (q @ r @ [x]) \<noteq> None \<Longrightarrow> map_of ls (butlast (q @ r @ [x])) \<noteq> None" using assms(1) unfolding levels_ok_def by blast
  with snoc show ?case by (metis append_assoc butlast_snoc)
qed simp

lemma header_parts:
  assumes "name_ok n" "0 < d"
  shows "trim (header d n) = header d n" "hd (header d n) = 0x5B" "header d n \<noteq> []" "parseSLine (header d n) = (n, d)"
proof -
  obtain k where d: "d = Suc k" using assms(2) by (cases d) auto
  show "hd (header d n) = 0x5B" "header d n \<noteq> []" by (simp_all add: header_def d)
  moreover have "last (header d n) = 0x5D" using assms by (simp add: header_def d last_replicate)
  ultimately show "trim (header d n) = header d n" by (intro trim_ends) (simp_all add: blank_def)
  have "takeWhile (\<lambda>c. c = 0x5B) (replicate d 0x5B @ n @ replicate d (0x5D :: byte)) = replicate d 0x5B"
    using assms(1) by (cases n) (auto simp: name_ok_def takeWhile_append)
  then have "length (takeWhile (\<lambda>c. c = 0x5B) (header d n)) = d" by (simp add: header_def)
  then show "parseSLine (header d n) = (n, d)" by (simp add: parseSLine_def substr_def header_def)
qed

lemma header_parsed:
  assumes p: "inside q p" and n: "name_ok n" and new: "levels p (q @ [n]) = None" and l: "levels p q = Some l"
  shows "\<exists>p'. parse_line (header (length q + 1) n) p = Inr p' \<and> inside (q @ [n]) p' \<and> pa_current p' = q @ [n] \<and>
    levels p' = (levels p)(q @ [n] \<mapsto> \<lparr>lv_values = [], lv_ordered = [], lv_parent = Some q, lv_depth = length q + 1\<rparr>,
      q \<mapsto> l\<lparr>lv_ordered := lv_ordered l @ [n]\<rparr>)"
proof -
  let ?h = "header (length q + 1) n" and ?p = "p\<lparr>pa_ln := pa_ln p + 1\<rparr>"
  note h = header_parts [OF n, of "length q + 1"]
  obtain r where r: "pa_current p = q @ r" and ok: "levels_ok (pa_levels p)" "levels p (q @ r) \<noteq> None"
    using p by (auto simp: inside_def parser_ok_def)
  obtain c where c: "levels p (q @ r) = Some c" using ok(2) by auto
  then have dc: "lv_depth c = length q + length r" using ok(1) by (auto simp: levels_ok_def)
  have "ascend (length r) (pa_levels p) (q @ r) = Some q" using ascend_ok [OF ok, of "length r"] by simp
  moreover have "(if lv_depth c = length q then 0 else lv_depth c - (length q + 1) + 1) = length r" using dc by (cases r) auto
  moreover have "q \<noteq> q @ [n]" by simp
  ultimately have e: "enter_section ?h ?p = Inr (?p\<lparr>pa_levels := AList.update q (l\<lparr>lv_ordered := lv_ordered l @ [n]\<rparr>)
      (AList.update (q @ [n]) (Level_new\<lparr>lv_depth := length q + 1, lv_parent := Some q\<rparr>) (pa_levels p)), pa_current := q @ [n]\<rparr>)"
    using h r c dc new l by (simp add: enter_section_def Let_def Level_new_def update_conv')
  let ?p' = "?p\<lparr>pa_levels := AList.update q (l\<lparr>lv_ordered := lv_ordered l @ [n]\<rparr>)
      (AList.update (q @ [n]) (Level_new\<lparr>lv_depth := length q + 1, lv_parent := Some q\<rparr>) (pa_levels p)), pa_current := q @ [n]\<rparr>"
  have "parser_ok ?p" using p by (simp add: inside_def parser_ok_def)
  from enter_ok [OF this, of ?h] e h have "parser_ok ?p'" by simp
  then have "inside (q @ [n]) ?p'" by (simp add: inside_def)
  moreover have "parse_line ?h p = Inr ?p'" using e h by (simp add: parse_line_def Let_def)
  moreover have "levels ?p' = (levels p)(q @ [n] \<mapsto> \<lparr>lv_values = [], lv_ordered = [], lv_parent = Some q, lv_depth = length q + 1\<rparr>,
      q \<mapsto> l\<lparr>lv_ordered := lv_ordered l @ [n]\<rparr>)" by (simp add: update_conv' Level_new_def)
  ultimately show ?thesis by (intro exI [of _ ?p']) simp
qed

lemma value_parsed:
  assumes p: "parser_ok p" "pa_current p = q" "levels p q = Some l" and kv: "setting_ok kv"
  shows "\<exists>p'. parse_line (setting_line kv) p = Inr p' \<and> parser_ok p' \<and> pa_current p' = q \<and>
    levels p' = (levels p)(q \<mapsto> l\<lparr>lv_values := lv_values l @ [kv]\<rparr>)"
proof -
  obtain k v where kv': "kv = (k, v)" by fastforce
  note s = setting_line_parts [OF kv]
  let ?p = "p\<lparr>pa_ln := pa_ln p + 1\<rparr>" and ?p' = "p\<lparr>pa_ln := pa_ln p + 1, pa_levels := AList.update q (l\<lparr>lv_values := lv_values l @ [kv]\<rparr>) (pa_levels p)\<rparr>"
  have a: "add_value (setting_line kv) ?p = Inr ?p'" using s p by (simp add: add_value_def Let_def setting_line_def substr_def kv')
  have "parser_ok ?p" using p(1) by (simp add: parser_ok_def)
  from add_value_ok [OF this, of "setting_line kv"] a have "parser_ok ?p'" by simp
  moreover have "parse_line (setting_line kv) p = Inr ?p'" using a s by (simp add: parse_line_def Let_def)
  ultimately show ?thesis using p(2) by (intro exI [of _ ?p']) (simp add: update_conv')
qed

lemma values_parsed:
  assumes "parser_ok p" "pa_current p = q" "levels p q = Some l" "list_all setting_ok kvs"
  shows "\<exists>p'. parse (map setting_line kvs @ rest) p = parse rest p' \<and> parser_ok p' \<and> pa_current p' = q \<and>
    levels p' = (levels p)(q \<mapsto> l\<lparr>lv_values := lv_values l @ kvs\<rparr>)"
  using assms
proof (induction kvs arbitrary: p l)
  case Nil
  then show ?case by (intro exI [of _ p]) (auto simp: fun_upd_idem)
next
  case (Cons kv kvs)
  from value_parsed [OF Cons.prems(1-3), of kv] Cons.prems(4) obtain p1 where
    p1: "parse_line (setting_line kv) p = Inr p1" "parser_ok p1" "pa_current p1 = q" "levels p1 = (levels p)(q \<mapsto> l\<lparr>lv_values := lv_values l @ [kv]\<rparr>)" by auto
  let ?l = "l\<lparr>lv_values := lv_values l @ [kv]\<rparr>"
  have "levels p1 q = Some ?l" "list_all setting_ok kvs" using p1(4) Cons.prems(4) by simp_all
  from Cons.IH [OF p1(2,3) this] obtain p' where
    "parse (map setting_line kvs @ rest) p1 = parse rest p'" "parser_ok p'" "pa_current p' = q"
    "levels p' = (levels p1)(q \<mapsto> ?l\<lparr>lv_values := lv_values ?l @ kvs\<rparr>)" by blast
  with p1(1,4) show ?case by (intro exI [of _ p']) simp
qed

section \<open>Reading a tree\<close>

text \<open>A tree is read below any level: its levels are added, and nothing else changes but the list of sections above it.\<close>

definition readable :: "level_tree \<Rightarrow> bool" where
  "readable t \<longleftrightarrow> (\<forall>q n p l rest. inside q p \<longrightarrow> name_ok n \<longrightarrow> levels p (q @ [n]) = None \<longrightarrow> levels p q = Some l \<longrightarrow>
     (\<exists>p'. parse (dump_lines (length q + 1) n t @ rest) p = parse rest p' \<and> inside q p' \<and> is_tree (levels p') (q @ [n]) t \<and>
       levels p' q = Some (l\<lparr>lv_ordered := lv_ordered l @ [n]\<rparr>) \<and> (\<forall>r. r \<noteq> q \<and> \<not> prefix (q @ [n]) r \<longrightarrow> levels p' r = levels p r)))"

lemma is_tree_cong: "(\<And>r. prefix q r \<Longrightarrow> L r = L' r) \<Longrightarrow> is_tree L q t = is_tree L' q t"
proof (induction t arbitrary: q)
  case (Node vals sections)
  have "is_tree L (q @ [n]) t = is_tree L' (q @ [n]) t" if "(n, t) \<in> set sections" for n t
    using Node.IH [OF that, of t "q @ [n]"] Node.prems by (auto simp: append_prefixD)
  with Node.prems [of q] show ?case by auto
qed

lemma prefix_sibling: "n \<noteq> n' \<Longrightarrow> prefix (q @ [n]) r \<Longrightarrow> \<not> prefix (q @ [n']) r"
  by (auto simp: prefix_def)

lemma sections_read:
  assumes "list_all (\<lambda>(n, t). name_ok n \<and> readable t) ss" "distinct (map fst ss)" "inside q p" "levels p q = Some l"
    "\<forall>n \<in> fst ` set ss. levels p (q @ [n]) = None"
  shows "\<exists>p'. parse (concat (map (\<lambda>(n, t). dump_lines (length q + 1) n t) ss) @ rest) p = parse rest p' \<and> inside q p' \<and>
    levels p' q = Some (l\<lparr>lv_ordered := lv_ordered l @ map fst ss\<rparr>) \<and> (\<forall>(n, t) \<in> set ss. is_tree (levels p') (q @ [n]) t) \<and>
    (\<forall>r. r \<noteq> q \<and> (\<forall>n \<in> fst ` set ss. \<not> prefix (q @ [n]) r) \<longrightarrow> levels p' r = levels p r)"
  using assms
proof (induction ss arbitrary: p l)
  case Nil
  then show ?case by (intro exI [of _ p]) auto
next
  case (Cons s ss)
  obtain n t where s: "s = (n, t)" by fastforce
  have n: "name_ok n" "readable t" "levels p (q @ [n]) = None" "n \<notin> fst ` set ss" using Cons.prems s by auto
  let ?rest = "concat (map (\<lambda>(n, t). dump_lines (length q + 1) n t) ss) @ rest"
  from n Cons.prems(3,4) obtain p1 where
    p1: "parse (dump_lines (length q + 1) n t @ ?rest) p = parse ?rest p1" "inside q p1" "is_tree (levels p1) (q @ [n]) t"
      "levels p1 q = Some (l\<lparr>lv_ordered := lv_ordered l @ [n]\<rparr>)" "\<forall>r. r \<noteq> q \<and> \<not> prefix (q @ [n]) r \<longrightarrow> levels p1 r = levels p r"
    unfolding readable_def by metis
  have "levels p1 (q @ [m]) = None" if "m \<in> fst ` set ss" for m
  proof -
    have "m \<noteq> n" using that n(4) by auto
    then have "levels p1 (q @ [m]) = levels p (q @ [m])" using p1(5) prefix_sibling [of m n q "q @ [m]"] by auto
    moreover have "levels p (q @ [m]) = None" using that Cons.prems(5) by auto
    ultimately show ?thesis by simp
  qed
  with Cons.IH [OF _ _ p1(2,4)] Cons.prems(1,2) obtain p2 where
    p2: "parse ?rest p1 = parse rest p2" "inside q p2" "levels p2 q = Some (l\<lparr>lv_ordered := lv_ordered l @ [n] @ map fst ss\<rparr>)"
      "\<forall>(n, t) \<in> set ss. is_tree (levels p2) (q @ [n]) t" "\<forall>r. r \<noteq> q \<and> (\<forall>n \<in> fst ` set ss. \<not> prefix (q @ [n]) r) \<longrightarrow> levels p2 r = levels p1 r"
    by auto
  have "levels p2 r = levels p1 r" if "prefix (q @ [n]) r" for r
  proof -
    have "r \<noteq> q" using that by (auto simp: prefix_def)
    moreover have "\<forall>m \<in> fst ` set ss. \<not> prefix (q @ [m]) r" using that n(4) prefix_sibling by metis
    ultimately show ?thesis using p2(5) by blast
  qed
  then have "is_tree (levels p2) (q @ [n]) t" using is_tree_cong [of "q @ [n]" "levels p2" "levels p1" t] p1(3) by simp
  moreover have "\<forall>r. r \<noteq> q \<and> (\<forall>m \<in> fst ` set (s # ss). \<not> prefix (q @ [m]) r) \<longrightarrow> levels p2 r = levels p r"
    using p1(5) p2(5) s by auto
  ultimately show ?case using p1(1) p2(1-4) s by (intro exI [of _ p2]) auto
qed

lemma inside_up: "inside (q @ [n]) p \<Longrightarrow> inside q p"
  by (auto simp: inside_def)

lemma tree_readable: "tree_ok t \<Longrightarrow> readable t"
proof (induction t)
  case (Node vals sections)
  have sub: "list_all (\<lambda>(n, t). name_ok n \<and> readable t) sections" using Node by (fastforce simp: list_all_iff)
  have ok: "list_all setting_ok vals" "distinct (map fst sections)" using Node.prems by auto
  have "\<exists>p'. parse (dump_lines (length q + 1) n (Node vals sections) @ rest) p = parse rest p' \<and> inside q p' \<and>
      is_tree (levels p') (q @ [n]) (Node vals sections) \<and> levels p' q = Some (l\<lparr>lv_ordered := lv_ordered l @ [n]\<rparr>) \<and>
      (\<forall>r. r \<noteq> q \<and> \<not> prefix (q @ [n]) r \<longrightarrow> levels p' r = levels p r)"
    if p: "inside q p" "name_ok n" "levels p (q @ [n]) = None" "levels p q = Some l" for q n p l rest
  proof -
    let ?q = "q @ [n]" and ?p0 = "p\<lparr>pa_ln := pa_ln p + 1\<rparr>" and ?new = "\<lparr>lv_values = [], lv_ordered = [], lv_parent = Some q, lv_depth = length q + 1\<rparr>"
    let ?subs = "concat (map (\<lambda>(n, t). dump_lines (length ?q + 1) n t) sections)"
    have p0: "inside q ?p0" "levels ?p0 = levels p" using p(1) by (simp_all add: inside_def parser_ok_def)
    have "parse_line [] p = Inr ?p0" by (simp add: parse_line_def trim_eq)
    moreover from header_parsed [OF p0(1) p(2), of l] p(3,4) obtain p1 where
      p1: "parse_line (header (length q + 1) n) ?p0 = Inr p1" "inside ?q p1" "pa_current p1 = ?q"
        "levels p1 = (levels p)(?q \<mapsto> ?new, q \<mapsto> l\<lparr>lv_ordered := lv_ordered l @ [n]\<rparr>)" by auto
    moreover have "levels p1 ?q = Some ?new" "parser_ok p1" using p1(2,4) by (simp_all add: inside_def)
    from values_parsed [OF this(2) p1(3) this(1) ok(1), of "?subs @ rest"] obtain p2 where
      p2: "parse (map setting_line vals @ ?subs @ rest) p1 = parse (?subs @ rest) p2" "parser_ok p2" "pa_current p2 = ?q"
        "levels p2 = (levels p1)(?q \<mapsto> ?new\<lparr>lv_values := vals\<rparr>)" by auto
    have "levels p (?q @ r) = None" for r
      using below_absent [of "pa_levels p" ?q r] p(1,3) by (simp add: inside_def parser_ok_def)
    then have "levels p2 (?q @ [m]) = None" for m using p1(4) p2(4) by simp
    moreover have "inside ?q p2" "levels p2 ?q = Some (?new\<lparr>lv_values := vals\<rparr>)" using p2 by (auto simp: inside_def)
    ultimately obtain p3 where
      p3: "parse (?subs @ rest) p2 = parse rest p3" "inside ?q p3" "levels p3 ?q = Some (?new\<lparr>lv_values := vals, lv_ordered := map fst sections\<rparr>)"
        "\<forall>(m, t) \<in> set sections. is_tree (levels p3) (?q @ [m]) t"
        "\<forall>r. r \<noteq> ?q \<and> (\<forall>m \<in> fst ` set sections. \<not> prefix (?q @ [m]) r) \<longrightarrow> levels p3 r = levels p2 r"
      using sections_read [OF sub ok(2), of ?q p2 "?new\<lparr>lv_values := vals\<rparr>" rest] by auto
    have out: "levels p3 r = levels p2 r" if "\<not> prefix ?q r" for r
    proof -
      have "\<not> prefix (?q @ [m]) r" for m using that append_prefixD by blast
      with that p3(5) show ?thesis by auto
    qed
    have "levels p3 q = Some (l\<lparr>lv_ordered := lv_ordered l @ [n]\<rparr>)" using out [of q] p2(4) p1(4) by simp
    moreover have "\<forall>r. r \<noteq> q \<and> \<not> prefix ?q r \<longrightarrow> levels p3 r = levels p r" using out p2(4) p1(4) by auto
    moreover have "is_tree (levels p3) ?q (Node vals sections)" using p3(3,4) by simp
    moreover have "parse (dump_lines (length q + 1) n (Node vals sections) @ rest) p = parse rest p3"
      using \<open>parse_line [] p = Inr ?p0\<close> p1(1) p2(1) p3(1) by simp
    ultimately show ?thesis using inside_up [OF p3(2)] by blast
  qed
  then show ?case unfolding readable_def by blast
qed

section \<open>Theorems\<close>

lemma lines_no_newline: "tree_ok t \<Longrightarrow> 10 \<notin> set n \<Longrightarrow> list_all (\<lambda>l. 10 \<notin> set l) (dump_lines d n t)"
proof (induction t arbitrary: d n)
  case (Node vals sections)
  have "list_all (\<lambda>l. 10 \<notin> set l) (dump_lines (d + 1) m t)" if "(m, t) \<in> set sections" for m t
    using Node.IH [OF that, of t m] Node.prems(1) that by (auto simp: name_ok_def)
  moreover have "list_all (\<lambda>l. 10 \<notin> set l) (map setting_line vals)"
    using Node.prems(1) by (auto simp: list_all_iff setting_ok_def setting_line_def)
  ultimately show ?case using Node.prems(2) by (auto simp: list_all_iff header_def)
qed

text \<open>
  C23. What \<open>dump\<close> writes of a tree of sections, of any depth, the parser reads back: every level has its settings in order, its
  sections in order, and its place in the tree.
\<close>

theorem dump_read_back:
  assumes "tree_ok t"
  shows "\<exists>p. parse (getlines (dump 0 [] t)) Parser_new = Inr p \<and> is_tree (map_of (pa_levels p)) [] t"
proof -
  obtain vals sections where t: "t = Node vals sections" by (cases t)
  let ?lines = "map setting_line vals @ concat (map (\<lambda>(n, t). dump_lines 1 n t) sections)"
  have ok: "list_all setting_ok vals" "distinct (map fst sections)" "\<forall>(n, t) \<in> set sections. name_ok n \<and> tree_ok t" using assms t by auto
  have "map (\<lambda>(n, t). dump 1 n t) sections = map with_newlines (map (\<lambda>(n, t). dump_lines 1 n t) sections)"
    using ok(3) by (auto simp: name_ok_def dump_is_lines)
  then have "concat (map (\<lambda>(n, t). dump 1 n t) sections) = with_newlines (concat (map (\<lambda>(n, t). dump_lines 1 n t) sections))"
    by (metis with_newlines_concat)
  then have "dump 0 [] t = with_newlines ?lines" by (simp add: t values_lines)
  moreover have "list_all (\<lambda>l. 10 \<notin> set l) ?lines"
    using ok lines_no_newline by (fastforce simp: list_all_iff setting_ok_def setting_line_def name_ok_def)
  ultimately have g: "getlines (dump 0 [] t) = ?lines" unfolding with_newlines_def by (metis getlines_lines)
  have "levels Parser_new [] = Some Level_new" "pa_current Parser_new = []" by (simp_all add: Parser_new_def)
  from values_parsed [OF new_ok this(2,1) ok(1), of "concat (map (\<lambda>(n, t). dump_lines 1 n t) sections)"] obtain p1 where
    p1: "parse ?lines Parser_new = parse (concat (map (\<lambda>(n, t). dump_lines 1 n t) sections)) p1" "parser_ok p1" "pa_current p1 = []"
      "levels p1 = (levels Parser_new)([] \<mapsto> Level_new\<lparr>lv_values := vals\<rparr>)" by (auto simp: Level_new_def)
  have "list_all (\<lambda>(n, t). name_ok n \<and> readable t) sections" using ok(3) tree_readable by (auto simp: list_all_iff)
  moreover have "inside [] p1" "levels p1 [] = Some (Level_new\<lparr>lv_values := vals\<rparr>)" using p1 by (simp_all add: inside_def)
  moreover have "levels p1 ([] @ [n]) = None" for n using p1(4) by (simp add: Parser_new_def)
  ultimately obtain p2 where "parse (concat (map (\<lambda>(n, t). dump_lines 1 n t) sections)) p1 = Inr p2"
      "levels p2 [] = Some (Level_new\<lparr>lv_values := vals, lv_ordered := map fst sections\<rparr>)" "\<forall>(n, t) \<in> set sections. is_tree (levels p2) [n] t"
    using sections_read [OF _ ok(2), of "[]" p1 "Level_new\<lparr>lv_values := vals\<rparr>" "[]"] by (auto simp: Level_new_def)
  with g p1(1) show ?thesis by (intro exI [of _ p2]) (simp add: t Level_new_def)
qed

definition example_tree :: level_tree where
  "example_tree = Node [(lit ''a'', lit ''1'')] [(lit ''router'', Node [(lit ''threads'', lit ''4'')] [(lit ''inner'', Node [(lit ''x'', [])] [])]),
     (lit ''bind'', Node [] [])]"

theorem dump_read_back_witness:
  "\<exists>p. parse (getlines (dump 0 [] example_tree)) Parser_new = Inr p \<and> is_tree (map_of (pa_levels p)) [] example_tree"
proof (rule dump_read_back)
  show "tree_ok example_tree" by code_simp
qed

text \<open>A section without a name is not read back: its settings are written in the line of its brackets.\<close>

theorem unnamed_section_lost:
  "case parse (getlines (dump 0 [] (Node [] [([], Node [(lit ''k'', lit ''v'')] [])]))) Parser_new of
     Inl e \<Rightarrow> False
   | Inr p \<Rightarrow> map_of (pa_levels p) [[]] = None"
  by code_simp

end
