(* ===== verification/Logic.thy ===== *)
theory Logic
  imports Timers
begin

text \<open>
  The logic thread (\<open>udap/logic.cpp\<close>): its interface to the timers, the loop that ticks them (\<open>udap_timer_run\<close>) and the end of
  both. The loop keeps the pool it was started with, and \<open>udap_logic_stop\<close> runs in another thread.
\<close>

section \<open>The interface\<close>

definition udap_init_logic :: "u64 \<Rightarrow> udap_logic" where
  "udap_init_logic now =
     \<lparr>lg_thread = (case udap_init_threadpool 1 of None \<Rightarrow> udap_init_same_process_threadpool | Some tp \<Rightarrow> tp), lg_timer = udap_init_timer,
      lg_heap = Map.empty, lg_next = 0, lg_now = now, lg_calls = []\<rparr>"

definition udap_logic_tick :: "udap_logic \<Rightarrow> udap_logic option" where
  "udap_logic_tick logic = udap_timer_tick_all logic"

definition udap_logic_call_later :: "udap_timeout_job \<Rightarrow> udap_logic \<Rightarrow> u32 \<times> udap_logic" where
  "udap_logic_call_later job logic =
     call_later \<lparr>tj_timeout = tj_timeout job, tj_user = tj_user job, tj_handler = tj_handler job\<rparr> logic"

definition udap_logic_cancel_call :: "u32 \<Rightarrow> udap_logic \<Rightarrow> udap_logic option" where
  "udap_logic_cancel_call i logic = cancel i logic"

definition udap_logic_remove_call :: "u32 \<Rightarrow> udap_logic \<Rightarrow> udap_logic option" where
  "udap_logic_remove_call i logic = timer_remove i logic"

section \<open>The loop\<close>

text \<open>\<open>lr_freed\<close>: the pool that the loop uses was deleted\<close>

record logic_run =
  lr_logic :: udap_logic
  lr_freed :: bool

text \<open>The timers that a tick gives to the pool\<close>

definition due :: "udap_logic \<Rightarrow> (u32 \<times> nat) list" where
  "due l = filter (\<lambda>(i, a). case lg_heap l a of None \<Rightarrow> False | Some t \<Rightarrow>
     (lg_now l - tm_started t \<ge> tm_timeout t \<or> tm_canceled t) \<and> tm_func t \<noteq> None \<and> tm_called_at t = 0) (tc_timers (lg_timer l))"

definition timer_run_round :: "logic_run \<Rightarrow> logic_run option" where
  "timer_run_round r =
     (if \<not> tc_run (lg_timer (lr_logic r)) then Some r
      else if lr_freed r \<and> due (lr_logic r) \<noteq> [] then None
      else map_option (\<lambda>l. r\<lparr>lr_logic := l\<rparr>) (udap_timer_tick_all (lr_logic r)))"

text \<open>\<open>others\<close>: what the other threads do during each wait. The result says whether the loop has returned.\<close>

fun udap_timer_run :: "(logic_run \<Rightarrow> logic_run) list \<Rightarrow> logic_run \<Rightarrow> (bool \<times> logic_run) option" where
  "udap_timer_run [] r = Some (\<not> tc_run (lg_timer (lr_logic r)), r)"
| "udap_timer_run (others # waits) r =
     (if \<not> tc_run (lg_timer (lr_logic r)) then Some (True, r)
      else do { r \<leftarrow> timer_run_round (others r); udap_timer_run waits r })"

definition udap_logic_mainloop :: "(logic_run \<Rightarrow> logic_run) list \<Rightarrow> udap_logic \<Rightarrow> (bool \<times> logic_run) option" where
  "udap_logic_mainloop waits logic = udap_timer_run waits \<lparr>lr_logic = logic, lr_freed = False\<rparr>"

text \<open>Stopping in the order of the source: the pool is stopped and joined, then deleted, then the timers are stopped.\<close>

definition logic_stop_pool :: "logic_run \<Rightarrow> logic_run" where
  "logic_stop_pool r = r\<lparr>lr_logic := (lr_logic r)\<lparr>lg_thread := udap_threadpool_stop (lg_thread (lr_logic r))\<rparr>\<rparr>"

definition logic_free_pool :: "logic_run \<Rightarrow> logic_run" where
  "logic_free_pool r = r\<lparr>lr_freed := True\<rparr>"

definition logic_stop_timers :: "logic_run \<Rightarrow> logic_run" where
  "logic_stop_timers r = r\<lparr>lr_logic := udap_timer_stop (lr_logic r)\<rparr>"

definition udap_logic_stop :: "logic_run \<Rightarrow> logic_run" where
  "udap_logic_stop r = logic_stop_timers (logic_free_pool (logic_stop_pool r))"

section \<open>Theorems\<close>

text \<open>What the other threads may do: calls of the interface\<close>

definition behaves :: "(logic_run \<Rightarrow> logic_run) \<Rightarrow> bool" where
  "behaves f \<longleftrightarrow> (\<forall>r. logic_inv (lr_logic r) \<and> \<not> lr_freed r \<longrightarrow> logic_inv (lr_logic (f r)) \<and> \<not> lr_freed (f r))"

lemma round_safe:
  assumes "logic_inv (lr_logic r)" "\<not> lr_freed r"
  shows "\<exists>r'. timer_run_round r = Some r' \<and> logic_inv (lr_logic r') \<and> \<not> lr_freed r'"
proof -
  obtain l' where "udap_timer_tick_all (lr_logic r) = Some l'" "logic_inv l'" using inv_tick [OF assms(1)] by blast
  with assms show ?thesis by (cases "tc_run (lg_timer (lr_logic r))") (simp_all add: timer_run_round_def)
qed

lemma stop_in_wait: "udap_timer_run (udap_logic_stop # later) r = Some (True, if tc_run (lg_timer (lr_logic r)) then udap_logic_stop r else r)"
proof -
  have s: "\<not> tc_run (lg_timer (lr_logic (udap_logic_stop r)))" by (simp add: udap_logic_stop_def logic_stop_timers_def udap_timer_stop_def)
  then show ?thesis by (cases later) (simp_all add: timer_run_round_def)
qed

text \<open>
  The loop of the logic never fails while the other threads only do what the interface allows (\<open>logic_inv\<close> is kept by every one of its
  calls), and a stop that takes place as a whole during one wait ends it: it returns without touching a timer or the pool again.
\<close>

theorem mainloop_stops:
  assumes "logic_inv l" "list_all behaves waits"
  shows "\<exists>r. udap_logic_mainloop (waits @ udap_logic_stop # later) l = Some (True, r) \<and> \<not> tc_run (lg_timer (lr_logic r))"
proof -
  have "\<exists>r'. udap_timer_run (waits @ udap_logic_stop # later) r = Some (True, r') \<and> \<not> tc_run (lg_timer (lr_logic r'))"
    if "logic_inv (lr_logic r)" "\<not> lr_freed r" for r
    using that assms(2)
  proof (induction waits arbitrary: r)
    case Nil
    have "\<not> tc_run (lg_timer (lr_logic (udap_logic_stop r)))" by (simp add: udap_logic_stop_def logic_stop_timers_def udap_timer_stop_def)
    then show ?case using stop_in_wait [of later r] by (auto simp del: udap_timer_run.simps)
  next
    case (Cons f fs)
    have "logic_inv (lr_logic (f r))" "\<not> lr_freed (f r)" using Cons.prems by (auto simp: behaves_def)
    from round_safe [OF this] obtain r' where "timer_run_round (f r) = Some r'" "logic_inv (lr_logic r')" "\<not> lr_freed r'" by blast
    with Cons.IH [of r'] Cons.prems show ?case by auto
  qed
  from this [of "\<lparr>lr_logic = l, lr_freed = False\<rparr>"] assms(1) show ?thesis by (simp add: udap_logic_mainloop_def)
qed

lemma due_thread: "due (l\<lparr>lg_thread := tp\<rparr>) = due l"
  by (simp add: due_def cong: option.case_cong)

text \<open>
  A stop that is not yet through when the loop wakes: the pool is deleted before the timers are stopped, so a timer that is due then is given
  to a pool that does not exist any more.
\<close>

theorem stop_races_with_timers:
  assumes "tc_run (lg_timer l)" "due l \<noteq> []"
  shows "udap_logic_mainloop ((logic_free_pool \<circ> logic_stop_pool) # later) l = None"
  using assms by (simp add: udap_logic_mainloop_def timer_run_round_def logic_free_pool_def logic_stop_pool_def due_thread)

section \<open>Witnesses\<close>

definition example_logic :: udap_logic where
  "example_logic = (snd (udap_logic_call_later \<lparr>tj_timeout = 10, tj_user = 1, tj_handler = Some 2\<rparr> (udap_init_logic 1000)))\<lparr>lg_now := 1020\<rparr>"

lemma example_logic_inv: "logic_inv example_logic" "tc_run (lg_timer example_logic)" "due example_logic = [(1, 0)]"
proof -
  show "tc_run (lg_timer example_logic)" "due example_logic = [(1, 0)]"
    by (simp_all add: due_def example_logic_def udap_logic_call_later_def udap_init_logic_def call_later_def udap_init_timer_def timer_new_def Let_def)
  have "logic_inv (udap_init_logic 1000)" by (simp add: logic_inv_defs udap_init_logic_def udap_init_threadpool_def udap_init_timer_def)
  moreover have "logic_step (udap_init_logic 1000) (snd (udap_logic_call_later job (udap_init_logic 1000)))" for job
    unfolding udap_logic_call_later_def by (rule later)
  moreover have "logic_step (snd (udap_logic_call_later job (udap_init_logic 1000))) ((snd (udap_logic_call_later job (udap_init_logic 1000)))\<lparr>lg_now := 1020\<rparr>)" for job
    by (rule clock) (simp add: udap_logic_call_later_def call_later_def udap_init_logic_def Let_def)
  ultimately show "logic_inv example_logic"
    unfolding example_logic_def by (meson logic_reach_inv r_into_rtranclp rtranclp.rtrancl_into_rtrancl)
qed

theorem mainloop_stops_witness: "\<exists>r. udap_logic_mainloop ([\<lambda>r. r] @ udap_logic_stop # []) example_logic = Some (True, r) \<and> \<not> tc_run (lg_timer (lr_logic r))"
  by (rule mainloop_stops [OF example_logic_inv(1)]) (simp add: behaves_def)

theorem stop_races_with_timers_witness: "udap_logic_mainloop [logic_free_pool \<circ> logic_stop_pool] example_logic = None"
  by (rule stop_races_with_timers [OF example_logic_inv(2)]) (simp add: example_logic_inv(3))

end
