(* ===== verification/Program.thy ===== *)
theory Program
  imports Startup
begin

text \<open>
  The program as a whole: \<open>Context::Run\<close> and the signals (\<open>udap/context.cpp\<close>), and the daemon (\<open>daemon/main.c\<close>). Whether the router can be
  configured is a parameter (\<open>udap_configure_router\<close> of \<open>Startup\<close>), and so is what the named configuration file holds; the loops that run until
  the program ends are those of \<open>Event_Loop\<close> and \<open>Logic\<close>. What \<open>Run\<close> calls besides is in the theories of its parts: loading the database in
  \<open>Nodedb\<close>, starting the router in \<open>Router\<close>, closing it in \<open>Startup\<close>.
\<close>

section \<open>Running\<close>

text \<open>\<open>while(num_nethreads--)\<close>: the threads that it starts; a negative number does not end it.\<close>

function start_netio :: "int \<Rightarrow> nat \<Rightarrow> nat option" where
  "start_netio num_nethreads started =
     (if num_nethreads = 0 then Some started
      else if num_nethreads < 0 then None
      else start_netio (num_nethreads - 1) (started + 1))"
  by pat_completeness auto
termination by (relation "measure (\<lambda>(n, _). nat n)") auto

declare start_netio.simps [simp del]

datatype mainloop = SingleProcess | LogicMainloop nat

text \<open>The result of \<open>Run\<close>, what it runs until it ends, and the context with its pools\<close>

definition context_run :: "bool \<Rightarrow> Context \<Rightarrow> (int \<times> mainloop option \<times> Context) option" where
  "context_run configured ctx =
     (let ctx = Context_Run ctx
      in if \<not> configured then Some (1, None, ctx)
         else if cx_singleThreaded ctx then Some (0, Some SingleProcess, ctx)
         else do {
           threads \<leftarrow> start_netio (cx_num_nethreads ctx) 0;
           Some (0, Some (LogicMainloop threads), ctx\<lparr>cx_num_nethreads := -1\<rparr>)
         })"

datatype signal = SIGINT | SIGHUP | OtherSignal

definition SigINT :: "Context \<Rightarrow> context_error + Context" where
  "SigINT ctx = Context_Close ctx"

definition HandleSignal :: "byte list option \<Rightarrow> signal \<Rightarrow> Context \<Rightarrow> context_error + Context" where
  "HandleSignal file sig ctx =
     (case sig of
        SIGINT \<Rightarrow> SigINT ctx
      | SIGHUP \<Rightarrow> (case ReloadConfig file ctx of Inl e \<Rightarrow> Inl e | Inr (_, ctx) \<Rightarrow> Inr ctx)
      | OtherSignal \<Rightarrow> Inr ctx)"

definition udap_main_signal :: "byte list option \<Rightarrow> signal \<Rightarrow> Context \<Rightarrow> context_error + Context" where
  "udap_main_signal file sig ctx = HandleSignal file sig ctx"

section \<open>The daemon\<close>

text \<open>\<open>ctx\<close> is null before \<open>udap_main_init\<close> has returned.\<close>

definition handle_signal :: "byte list option \<Rightarrow> signal \<Rightarrow> Context option \<Rightarrow> context_error + Context option" where
  "handle_signal file sig ctx =
     (case ctx of
        None \<Rightarrow> Inr None
      | Some c \<Rightarrow> (case udap_main_signal file sig c of Inl e \<Rightarrow> Inl e | Inr c \<Rightarrow> Inr (Some c)))"

text \<open>Only \<open>SIGINT\<close> is given to the handler; the default of the others is not part of the program.\<close>

definition handled_signals :: "signal list" where
  "handled_signals = [SIGINT]"

fun take_signals :: "byte list option \<Rightarrow> signal list \<Rightarrow> Context option \<Rightarrow> context_error + Context option" where
  "take_signals file [] ctx = Inr ctx"
| "take_signals file (sig # sigs) ctx =
     (if sig \<in> set handled_signals
      then (case handle_signal file sig ctx of Inl e \<Rightarrow> Inl e | Inr ctx \<Rightarrow> take_signals file sigs ctx)
      else take_signals file sigs ctx)"

text \<open>
  The exit code and the context that \<open>udap_main_free\<close> deletes, with the signals that arrive while the program runs. The loop of the logic ends
  only when the context is closed: with no interrupt there is no exit code. Signals do not matter to a program that could not be configured.
\<close>

definition daemon_main :: "byte list option \<Rightarrow> bool \<Rightarrow> signal list \<Rightarrow> context_error + (int \<times> Context option) option" where
  "daemon_main file configured sigs =
     (case udap_main_init file True of
        Inl e \<Rightarrow> Inl e
      | Inr None \<Rightarrow> Inr (Some (1, None))
      | Inr (Some ctx) \<Rightarrow>
          (case context_run configured ctx of
             None \<Rightarrow> Inr None
           | Some (code, None, ctx) \<Rightarrow> Inr (Some (code, Some ctx))
           | Some (code, Some _, ctx) \<Rightarrow>
               (case take_signals file sigs (Some ctx) of
                  Inl e \<Rightarrow> Inl e
                | Inr ctx \<Rightarrow> Inr (if SIGINT \<in> set sigs then Some (code, ctx) else None))))"

section \<open>Theorems\<close>

lemma start_netio_eq: "0 \<le> n \<Longrightarrow> start_netio n k = Some (k + nat n)"
proof (induction n k rule: start_netio.induct)
  case (1 n k)
  show ?case
  proof (cases "n = 0")
    case False
    with 1 have "start_netio (n - 1) (k + 1) = Some (k + 1 + nat (n - 1))" by simp
    moreover have "k + 1 + nat (n - 1) = k + nat n" using False 1(2) by simp
    ultimately show ?thesis using False 1(2) by (simp add: start_netio.simps [of n k])
  qed (simp add: start_netio.simps)
qed

definition threads_ok :: "Context \<Rightarrow> bool" where
  "threads_ok ctx \<longleftrightarrow> \<not> cx_singleThreaded ctx \<longrightarrow> 1 \<le> cx_num_nethreads ctx"

lemma iter_threads: "threads_ok ctx \<Longrightarrow> threads_ok (iter_config v ctx)"
  by (cases v) (auto simp: iter_config_def threads_ok_def new_pool_def Let_def simp del: lit_Cons)

lemma fold_threads: "threads_ok ctx \<Longrightarrow> threads_ok (fold iter_config vs ctx)"
  by (induction vs arbitrary: ctx) (auto simp: iter_threads)

lemma load_threads:
  assumes "LoadConfig file (Context_new single) = Inr (ok, ctx)" shows "threads_ok ctx"
proof -
  have new: "threads_ok ((Context_new single)\<lparr>cx_config := c\<rparr>)" for c by (simp add: threads_ok_def Context_new_def)
  show ?thesis
    using assms fold_threads [OF new] new by (auto simp: LoadConfig_def ReloadConfig_def split: sum.splits if_splits)
qed

lemma run_fields:
  "cx_singleThreaded (Context_Run ctx) = cx_singleThreaded ctx" "cx_num_nethreads (Context_Run ctx) = cx_num_nethreads ctx"
  by (simp_all add: Context_Run_def new_pool_def Let_def)

text \<open>
  Whatever the configuration says, a program that is configured starts: with one thread it runs the loop of one process, else it starts as many
  network threads as the configuration says, at least one, and runs the loop of the logic.
\<close>

theorem run_starts:
  assumes "LoadConfig file (Context_new single) = Inr (True, ctx)"
  shows "\<exists>ctx'. context_run True ctx = Some (0, Some (if single then SingleProcess else LogicMainloop (nat (cx_num_nethreads ctx))), ctx') \<and>
    (\<not> single \<longrightarrow> 1 \<le> cx_num_nethreads ctx)"
proof -
  have t: "threads_ok ctx" by (rule load_threads [OF assms])
  have "cx_singleThreaded ctx = single" using load_pools [OF assms] by (simp add: pools_ok_def)
  with t show ?thesis by (cases single) (auto simp: context_run_def run_fields threads_ok_def start_netio_eq Let_def)
qed

text \<open>
  The daemon ends cleanly on one interrupt and on many: the first closes everything, the others find nothing to close; no pool is used or freed
  after it was freed, and none is left. Other signals do not reach the context, so it is never asked to read its configuration again.
\<close>

lemma closed_again:
  assumes "cx_worker ctx = None" "cx_logic ctx = None"
  shows "Context_Close ctx = Inr (ctx\<lparr>cx_config := None, cx_worker := None, cx_logic := None\<rparr>)"
  using assms by (simp add: Context_Close_def use_pool_def free_pool_def)

lemma signals_closed:
  assumes "cx_worker ctx = None" "cx_logic ctx = None" "cx_pools ctx = []"
  shows "\<exists>ctx'. take_signals file sigs (Some ctx) = Inr (Some ctx') \<and> cx_pools ctx' = [] \<and> cx_worker ctx' = None"
  using assms
proof (induction sigs arbitrary: ctx)
  case (Cons sig sigs)
  let ?c = "ctx\<lparr>cx_config := None, cx_worker := None, cx_logic := None\<rparr>"
  have "handle_signal file SIGINT (Some ctx) = Inr (Some ?c)"
    using closed_again [OF Cons.prems(1,2)] by (simp add: handle_signal_def udap_main_signal_def HandleSignal_def SigINT_def)
  with Cons.IH [of ?c] Cons.IH [of ctx] Cons.prems show ?case by (simp add: handled_signals_def)
qed simp

lemma interrupt_closes:
  assumes "pools_ok False ctx" "SIGINT \<in> set sigs"
  shows "\<exists>ctx'. take_signals file sigs (Some ((Context_Run ctx)\<lparr>cx_num_nethreads := n\<rparr>)) = Inr (Some ctx') \<and> cx_pools ctx' = [] \<and> cx_worker ctx' = None"
  using assms(2)
proof (induction sigs)
  case (Cons sig sigs)
  let ?r = "(Context_Run ctx)\<lparr>cx_num_nethreads := n\<rparr>"
  show ?case
  proof (cases "sig = SIGINT")
    case True
    have "\<exists>c. Context_Close ?r = Inr c \<and> cx_pools c = [] \<and> cx_worker c = None \<and> cx_logic c = None"
      using assms(1) by (auto simp: Context_Run_def Context_Close_def pools_ok_def new_pool_def use_pool_def free_pool_def Let_def split: option.splits)
    then obtain c where "Context_Close ?r = Inr c" "cx_pools c = []" "cx_worker c = None" "cx_logic c = None" by blast
    with signals_closed [of c "file" sigs] True show ?thesis
      by (simp add: handled_signals_def handle_signal_def udap_main_signal_def HandleSignal_def SigINT_def)
  next
    case False
    with Cons show ?thesis by (simp add: handled_signals_def)
  qed
qed simp

theorem interrupts_end_cleanly:
  assumes "udap_main_init file True = Inr (Some ctx)" "SIGINT \<in> set sigs"
  shows "\<exists>ctx'. daemon_main file True sigs = Inr (Some (0, Some ctx')) \<and> cx_pools ctx' = []"
proof -
  have l: "LoadConfig file (Context_new False) = Inr (True, ctx)"
    using assms(1) by (auto simp: udap_main_init_def split: sum.splits if_splits prod.splits)
  have "threads_ok ctx" "\<not> cx_singleThreaded ctx" using load_threads [OF l] load_pools [OF l] by (auto simp: pools_ok_def)
  then have "context_run True ctx = Some (0, Some (LogicMainloop (nat (cx_num_nethreads ctx))), (Context_Run ctx)\<lparr>cx_num_nethreads := -1\<rparr>)"
    by (simp add: context_run_def run_fields threads_ok_def start_netio_eq Let_def)
  with interrupt_closes [OF load_pools [OF l] assms(2), of "file" "-1"] assms show ?thesis by (auto simp: daemon_main_def)
qed

section \<open>Witnesses\<close>

lemma example_init: "\<exists>ctx. udap_main_init (Some []) True = Inr (Some ctx) \<and> LoadConfig (Some []) (Context_new False) = Inr (True, ctx)"
  by (simp add: udap_main_init_def LoadConfig_def ReloadConfig_def Config_Load_def)

theorem run_starts_witness:
  "\<exists>ctx ctx'. LoadConfig (Some []) (Context_new False) = Inr (True, ctx) \<and> context_run True ctx = Some (0, Some (LogicMainloop (nat (cx_num_nethreads ctx))), ctx')"
  using example_init run_starts [of "Some []" False] by fastforce

theorem interrupts_end_cleanly_witness: "\<exists>ctx'. daemon_main (Some []) True [SIGHUP, SIGINT, SIGINT] = Inr (Some (0, Some ctx')) \<and> cx_pools ctx' = []"
proof -
  obtain ctx where "udap_main_init (Some []) True = Inr (Some ctx)" using example_init by blast
  from interrupts_end_cleanly [OF this] show ?thesis by simp
qed

end
