(* ===== verification/Nodedb_Dirs.thy ===== *)
theory Nodedb_Dirs
  imports Nodedb
begin

text \<open>
  The directories of the contact database (\<open>udap_nodedb_ensure_dir\<close> of \<open>udap/nodedb.cpp\<close>): made when they are not there, so that
  every contact has a directory for its file. The file system says of a path whether it is a directory, and which can be made.
\<close>

type_synonym tree = "byte list \<rightharpoonup> bool"

text \<open>\<open>create_directory\<close>: an existing directory is no error, another file is.\<close>

definition create_directory :: "(byte list \<Rightarrow> bool) \<Rightarrow> byte list \<Rightarrow> tree \<Rightarrow> bool \<times> tree" where
  "create_directory can p fs =
     (case fs p of
        Some is_dir \<Rightarrow> (is_dir, fs)
      | None \<Rightarrow> if can p then (True, fs(p \<mapsto> True)) else (False, fs))"

text \<open>The array of the characters ends with a null byte, which names the directory itself.\<close>

definition sub_dir :: "byte list \<Rightarrow> byte \<Rightarrow> byte list" where
  "sub_dir dir ch = (if ch = 0 then dir else dir @ lit ''/'' @ [ch])"

fun make_subdirs :: "(byte list \<Rightarrow> bool) \<Rightarrow> byte list \<Rightarrow> byte list \<Rightarrow> tree \<Rightarrow> bool \<times> tree" where
  "make_subdirs can dir [] fs = (True, fs)"
| "make_subdirs can dir (ch # chs) fs =
     (let (ok, fs) = create_directory can (sub_dir dir ch) fs
      in if \<not> ok then (False, fs) else make_subdirs can dir chs fs)"

definition udap_nodedb_ensure_dir :: "(byte list \<Rightarrow> bool) \<Rightarrow> byte list \<Rightarrow> tree \<Rightarrow> bool \<times> tree" where
  "udap_nodedb_ensure_dir can dir fs =
     (let (ok, fs) = (if fs dir = None then create_directory can dir fs else (True, fs))
      in if \<not> ok then (False, fs)
         else if fs dir \<noteq> Some True then (False, fs)
         else make_subdirs can dir skiplist_subdirs fs)"

lemma make_subdirs_made:
  assumes "make_subdirs can dir chs fs = (True, fs')"
  shows "(\<forall>ch \<in> set chs. fs' (sub_dir dir ch) = Some True) \<and> (\<forall>p. fs p \<noteq> None \<longrightarrow> fs' p = fs p)"
  using assms
proof (induction chs arbitrary: fs)
  case (Cons ch chs)
  obtain ok fs1 where c: "create_directory can (sub_dir dir ch) fs = (ok, fs1)" by fastforce
  with Cons.prems have ok: "ok" "make_subdirs can dir chs fs1 = (True, fs')" by (auto split: if_splits)
  from c ok(1) have f: "fs1 (sub_dir dir ch) = Some True" "\<forall>p. fs p \<noteq> None \<longrightarrow> fs1 p = fs p"
    by (auto simp: create_directory_def split: option.splits if_splits)
  with Cons.IH [OF ok(2)] show ?case by (metis option.distinct(1) set_ConsD)
qed simp

lemma make_subdirs_can:
  assumes "\<forall>ch \<in> set chs. fs (sub_dir dir ch) = Some True \<or> fs (sub_dir dir ch) = None \<and> can (sub_dir dir ch)"
  shows "fst (make_subdirs can dir chs fs)"
  using assms
proof (induction chs arbitrary: fs)
  case (Cons ch chs)
  let ?fs = "snd (create_directory can (sub_dir dir ch) fs)"
  have "fst (create_directory can (sub_dir dir ch) fs)" using Cons.prems by (auto simp: create_directory_def)
  moreover have "?fs p = fs p \<or> fs p = None \<and> ?fs p = Some True" for p by (auto simp: create_directory_def split: option.split)
  then have "\<forall>c \<in> set chs. ?fs (sub_dir dir c) = Some True \<or> ?fs (sub_dir dir c) = None \<and> can (sub_dir dir c)"
    using Cons.prems by (metis list.set_intros(2))
  from Cons.IH [OF this] calculation show ?case by (simp add: case_prod_beta')
qed simp

lemma hex_digit_listed: "d < 16 \<Longrightarrow> hex_digit d \<in> set skiplist_subdirs \<and> hex_digit d \<noteq> 0"
proof -
  assume "d < 16"
  then have "unat d \<in> set [0..<16]" by (simp add: word_less_nat_alt)
  moreover have "\<forall>n \<in> set [0..<16]. hex_digit (of_nat n) \<in> set skiplist_subdirs \<and> hex_digit (of_nat n) \<noteq> 0" by code_simp
  ultimately have "hex_digit (of_nat (unat d)) \<in> set skiplist_subdirs \<and> hex_digit (of_nat (unat d)) \<noteq> 0" by (rule bspec [rotated])
  then show ?thesis by simp
qed

lemma last_hex: "pk \<noteq> [] \<Longrightarrow> \<exists>d < 16. last (HexEncode pk) = hex_digit d"
proof (cases pk rule: rev_cases)
  case (snoc xs x)
  have "x mod 16 < 16" by (simp add: word_mod_less_divisor)
  with snoc show ?thesis by (auto simp: HexEncode_def)
qed simp

text \<open>
  When the directory of the database was ensured, the file of every contact has its directory: the one that \<open>getRCFilePath\<close> names by the last
  digit of the key. Nothing that was there before has changed. It is ensured whenever what is missing can be made.
\<close>

theorem contact_directories:
  assumes "udap_nodedb_ensure_dir can dir fs = (True, fs')" "nd_nodePath db = dir" "pk \<noteq> []"
  shows "\<exists>sub. fs' sub = Some True \<and> getRCFilePath pk db = sub @ lit ''/'' @ HexEncode pk @ lit ''.signed'' \<and> (\<forall>p. fs p \<noteq> None \<longrightarrow> fs' p = fs p)"
proof -
  obtain fs1 where f: "make_subdirs can dir skiplist_subdirs fs1 = (True, fs')" "\<forall>p. fs p \<noteq> None \<longrightarrow> fs1 p = fs p"
    using assms(1) by (fastforce simp: udap_nodedb_ensure_dir_def create_directory_def Let_def split: if_splits option.splits)
  note m = make_subdirs_made [OF f(1)]
  obtain d where d: "d < 16" "last (HexEncode pk) = hex_digit d" using last_hex [OF assms(3)] by blast
  note h = hex_digit_listed [OF d(1)]
  have "fs' (dir @ lit ''/'' @ [hex_digit d]) = Some True" using m h by (auto simp: sub_dir_def)
  moreover have "getRCFilePath pk db = (dir @ lit ''/'' @ [hex_digit d]) @ lit ''/'' @ HexEncode pk @ lit ''.signed''"
    using d(2) assms(2) by (simp add: getRCFilePath_def)
  ultimately show ?thesis using m f(2) by metis
qed

theorem contact_directories_witness:
  "\<exists>fs' sub. udap_nodedb_ensure_dir (\<lambda>_. True) (lit ''db'') (\<lambda>_. None) = (True, fs') \<and> fs' sub = Some True \<and>
    getRCFilePath (replicate 32 4) (udap_nodedb_new\<lparr>nd_nodePath := lit ''db''\<rparr>) = sub @ lit ''/'' @ HexEncode (replicate 32 4) @ lit ''.signed''"
proof -
  have "fst (make_subdirs (\<lambda>_. True) (lit ''db'') skiplist_subdirs [lit ''db'' \<mapsto> True])"
    by (rule make_subdirs_can) (auto simp: sub_dir_def)
  then obtain fs' where "udap_nodedb_ensure_dir (\<lambda>_. True) (lit ''db'') (\<lambda>_. None) = (True, fs')"
    by (cases "make_subdirs (\<lambda>_. True) (lit ''db'') skiplist_subdirs [lit ''db'' \<mapsto> True]")
      (auto simp: udap_nodedb_ensure_dir_def create_directory_def simp del: lit_Cons)
  with contact_directories [OF this, of "udap_nodedb_new\<lparr>nd_nodePath := lit ''db''\<rparr>" "replicate 32 4"] show ?thesis by auto
qed

end
