(* ===== verification/Dht_Service.thy ===== *)
theory Dht_Service
  imports Dht
begin

text \<open>
  The hash table as the router runs it (\<open>udap/dht.cpp\<close>): its start, lookups that are queued for the logic thread, messages, and the timer that is
  meant to clean up. \<open>dr_timers\<close> counts the calls of the cleaner that are scheduled.
\<close>

record dht_run =
  dr_ctx :: dht_context
  dr_timers :: nat
  dr_jobs :: "lookup_job list"

definition udap_dht_context_start :: "byte list \<Rightarrow> dht_context \<Rightarrow> dht_run" where
  "udap_dht_context_start key ctx = \<lparr>dr_ctx = Context_Init key ctx, dr_timers = 0, dr_jobs = []\<rparr>"

definition ScheduleCleanupTimer :: "dht_run \<Rightarrow> dht_run" where
  "ScheduleCleanupTimer r = r\<lparr>dr_timers := dr_timers r + 1\<rparr>"

definition handle_cleaner_timer :: "u64 \<Rightarrow> u64 \<Rightarrow> dht_run \<Rightarrow> dht_run" where
  "handle_cleaner_timer now left r =
     (if left \<noteq> 0 then r
      else ScheduleCleanupTimer (r\<lparr>dr_ctx := CleanupTX now (dr_ctx r)\<rparr>))"

definition udap_dht_lookup_router :: "lookup_job \<Rightarrow> dht_run \<Rightarrow> dht_run" where
  "udap_dht_lookup_router job r = r\<lparr>dr_jobs := dr_jobs r @ [job]\<rparr>"

definition queue_router_lookup :: "u64 \<Rightarrow> byte list \<Rightarrow> lookup_job \<Rightarrow> dht_run \<Rightarrow> dht_run" where
  "queue_router_lookup now junk job r = r\<lparr>dr_ctx := LookupRouterViaJob now junk job (dr_ctx r)\<rparr>"

text \<open>The steps of the table while nothing arrives from the peer \<open>p\<close>. A message names the peer it came from in all of its parts.\<close>

definition not_from :: "byte list \<Rightarrow> dht_message \<Rightarrow> bool" where
  "not_from p msg \<longleftrightarrow> (case msg of GotRouter m \<Rightarrow> gr_From m \<noteq> p | FindRouter m \<Rightarrow> True)"

inductive silent_step :: "byte list \<Rightarrow> dht_run \<Rightarrow> dht_run \<Rightarrow> bool" for p where
  asked: "silent_step p r (udap_dht_lookup_router job r)"
| looked: "dr_jobs r = job # jobs \<Longrightarrow> silent_step p r (queue_router_lookup now junk job (r\<lparr>dr_jobs := jobs\<rparr>))"
| put: "silent_step p r (r\<lparr>dr_ctx := udap_dht_put_peer (dr_ctx r) rc\<rparr>)"
| removed: "silent_step p r (r\<lparr>dr_ctx := udap_dht_remove_peer (dr_ctx r) k\<rparr>)"
| message: "list_all (not_from p) (im_msgs im) \<Longrightarrow>
    silent_step p r (r\<lparr>dr_ctx := snd (DHTImmeidateMessage_HandleMessage now junk our_rc sent im (dr_ctx r))\<rparr>)"
| fired: "dr_timers r = Suc n \<Longrightarrow> silent_step p r (handle_cleaner_timer now 0 (r\<lparr>dr_timers := n\<rparr>))"

definition pending :: "byte list \<Rightarrow> u64 \<Rightarrow> dht_context \<Rightarrow> bool" where
  "pending p i ctx \<longleftrightarrow> FindPendingTX ctx p i \<noteq> None"

lemma pending_emit [simp]: "pending p i (emit es ctx) = pending p i ctx"
  by (simp add: pending_def FindPendingTX_def emit_def)

lemma pending_lookup: "pending p i ctx \<Longrightarrow> pending p i (LookupRouter now target whoasked txid askpeer job iterative ex ctx)"
  by (auto simp: pending_def FindPendingTX_def LookupRouter_def emit_def Let_def update_conv')

lemma pending_remove: "pending p i ctx \<Longrightarrow> q \<noteq> p \<Longrightarrow> pending p i (RemovePendingLookup ctx q j)"
  by (simp add: pending_def FindPendingTX_def RemovePendingLookup_def delete_conv')

lemma pending_dht_Handle:
  assumes "pending p i ctx" "not_from p msg" "dht_HandleMessage now junk our_rc msg ctx = (ok, replies, ctx')"
  shows "pending p i ctx'"
proof (cases msg)
  case (FindRouter m)
  then show ?thesis
    using assms pending_lookup [OF assms(1)]
    by (auto simp: dht_HandleMessage_def FindRouterMessage_HandleMessage_def LookupRouterRelayed_def Let_def
        split: if_splits option.splits prod.splits)
next
  case (GotRouter m)
  then have "gr_From m \<noteq> p" using assms(2) by (simp add: not_from_def)
  with GotRouter show ?thesis
    using assms(1,3)
    by (auto simp: dht_HandleMessage_def GotRouterMessage_HandleMessage_def Let_def
        intro!: pending_remove pending_lookup split: if_splits option.splits prod.splits list.splits)
qed

lemma pending_message:
  assumes "pending p i ctx" "list_all (not_from p) (im_msgs im)"
  shows "pending p i (snd (DHTImmeidateMessage_HandleMessage now junk our_rc sent im ctx))"
proof -
  let ?step = "\<lambda>msg (result, replies, ctx).
      let (ok, rs, ctx) = dht_HandleMessage now junk our_rc msg ctx in (result \<and> ok, replies @ rs, ctx)"
  have "pending p i ctx \<Longrightarrow> list_all (not_from p) ms \<Longrightarrow> pending p i (snd (snd (fold ?step ms (r, rs, ctx))))" for ms r rs ctx
  proof (induction ms arbitrary: r rs ctx)
    case (Cons m ms)
    obtain ok rs2 ctx2 where "dht_HandleMessage now junk our_rc m ctx = (ok, rs2, ctx2)"
      by (cases "dht_HandleMessage now junk our_rc m ctx") auto
    with Cons pending_dht_Handle [OF Cons.prems(1) _ this] show ?case by simp
  qed simp
  from this [OF assms, of True "[]"] show ?thesis
    by (auto simp: DHTImmeidateMessage_HandleMessage_def split: prod.split)
qed

lemma silent_keeps:
  "silent_step p r r' \<Longrightarrow> dr_timers r = 0 \<Longrightarrow> pending p i (dr_ctx r) \<Longrightarrow> dr_timers r' = 0 \<and> pending p i (dr_ctx r')"
proof (induction rule: silent_step.induct)
  case (looked r job jobs now junk)
  then show ?case
    using pending_lookup by (auto simp: queue_router_lookup_def LookupRouterViaJob_def split: prod.splits)
qed (auto simp: udap_dht_lookup_router_def udap_dht_put_peer_def udap_dht_remove_peer_def pending_message, simp_all add: pending_def FindPendingTX_def)

text \<open>
  The cleaner never runs: the start of the table does not schedule it, and only the cleaner schedules itself. A lookup whose peer does not answer
  is pending forever, whatever else the table does, and its job is never told.
\<close>

lemma timers_never: "(\<lambda>r r'. \<exists>p. silent_step p r r')\<^sup>*\<^sup>* (udap_dht_context_start key ctx) r \<Longrightarrow> dr_timers r = 0"
proof (induction rule: rtranclp_induct)
  case base
  show ?case by (simp add: udap_dht_context_start_def)
next
  case (step r r')
  from step(2) obtain p where "silent_step p r r'" by blast
  then show ?case using step(3)
    by (induction rule: silent_step.induct) (simp_all add: udap_dht_lookup_router_def queue_router_lookup_def)
qed

theorem lookup_never_times_out:
  assumes "(\<lambda>r r'. \<exists>p. silent_step p r r')\<^sup>*\<^sup>* (udap_dht_context_start key ctx) r" "FindPendingTX (dr_ctx r) p i \<noteq> None" "(silent_step p)\<^sup>*\<^sup>* r r'"
  shows "dr_timers r' = 0 \<and> FindPendingTX (dr_ctx r') p i \<noteq> None"
proof -
  have "dr_timers r = 0" "pending p i (dr_ctx r)" using timers_never [OF assms(1)] assms(2) by (simp_all add: pending_def)
  with assms(3) have "dr_timers r' = 0 \<and> pending p i (dr_ctx r')"
    by (induction rule: rtranclp_induct) (auto dest: silent_keeps)
  then show ?thesis by (simp add: pending_def)
qed

lemma service_pending: "\<exists>p i. FindPendingTX (dr_ctx (udap_dht_context_start (replicate 32 1) searching_ctx)) p i \<noteq> None"
  by (auto simp: udap_dht_context_start_def searching_ctx_def Context_Init_def FindPendingTX_def)

theorem lookup_never_times_out_witness:
  "\<exists>p i. let r = udap_dht_lookup_router example_job (udap_dht_context_start (replicate 32 1) searching_ctx)
     in dr_timers r = 0 \<and> FindPendingTX (dr_ctx r) p i \<noteq> None"
proof -
  let ?r = "udap_dht_context_start (replicate 32 1) searching_ctx"
  obtain p i where "FindPendingTX (dr_ctx ?r) p i \<noteq> None" using service_pending by blast
  moreover have "(silent_step p)\<^sup>*\<^sup>* ?r (udap_dht_lookup_router example_job ?r)" by (rule r_into_rtranclp) (rule asked)
  ultimately show ?thesis using lookup_never_times_out [OF rtranclp.rtrancl_refl, of "replicate 32 1" searching_ctx p i] unfolding Let_def by blast
qed

end
