(* ===== verification/Dht_Lookup.thy ===== *)
theory Dht_Lookup
  imports Dht
begin

text \<open>
  Lookups of the hash table from the first question to the last: what a router does with a question of another (\<open>LookupRouterRelayed\<close>), and
  the questions that one lookup causes while the answers are negative (\<open>GotRouterMessage::HandleMessage\<close>, \<open>LookupRouter\<close> of \<open>udap/dht.cpp\<close>).
\<close>

section \<open>Questions and answers\<close>

text \<open>What goes over the network: a question for \<open>target\<close> with the id of the transaction, and an answer to the question \<open>m\<close>.\<close>

definition question :: "byte list \<Rightarrow> byte list \<Rightarrow> u64 \<Rightarrow> bool \<Rightarrow> dht_event" where
  "question peer target i iterative = SendToOrQueue peer
     \<lparr>im_remote = peer, im_version = 0, im_msgs = [FindRouter \<lparr>fr_From = peer, fr_K = target, fr_iterative = iterative, fr_txid = i, fr_version = 0\<rparr>]\<rparr>"





section \<open>A question from another router\<close>











section \<open>The questions of one lookup\<close>

text \<open>The operations of the table: a lookup of a user, a message of the list of a peer, the answers that go back, the clean-up, and the router's changes.\<close>

datatype dht_op =
    StartLookup u64 "byte list" lookup_job
  | HandleOne u64 "byte list" udap_rc dht_message
  | SendReplies "byte list" "dht_message list"
  | Cleanup u64
  | PutPeer udap_rc
  | RemovePeer "byte list"
  | AllowTransit

fun dht_do :: "dht_op \<Rightarrow> dht_context \<Rightarrow> dht_context" where
  "dht_do (StartLookup now junk job) ctx = LookupRouterViaJob now junk job ctx"
| "dht_do (HandleOne now junk our_rc msg) ctx = snd (snd (dht_HandleMessage now junk our_rc msg ctx))"
| "dht_do (SendReplies peer replies) ctx = emit [SendToOrQueue peer \<lparr>im_remote = peer, im_version = 0, im_msgs = replies\<rparr>] ctx"
| "dht_do (Cleanup now) ctx = CleanupTX now ctx"
| "dht_do (PutPeer rc) ctx = udap_dht_put_peer ctx rc"
| "dht_do (RemovePeer k) ctx = udap_dht_remove_peer ctx k"
| "dht_do AllowTransit ctx = udap_dht_allow_transit ctx"

text \<open>A message with a list is a sequence of these operations.\<close>

lemma immediate_ops: "\<exists>ops. snd (DHTImmeidateMessage_HandleMessage now junk our_rc sent im ctx) = fold dht_do ops ctx"
proof -
  let ?step = "\<lambda>msg (result, replies, ctx).
      let (ok, rs, ctx) = dht_HandleMessage now junk our_rc msg ctx in (result \<and> ok, replies @ rs, ctx)"
  have ops: "snd (snd (fold ?step ms (r, rs, c))) = fold dht_do (map (HandleOne now junk our_rc) ms) c" for ms r rs c
    by (induction ms arbitrary: r rs c) (simp_all split: prod.split)
  obtain r rs c where f: "fold ?step (im_msgs im) (True, [], ctx) = (r, rs, c)" by (rule prod_cases3)
  with ops [of "im_msgs im" True "[]" ctx] have c: "c = fold dht_do (map (HandleOne now junk our_rc) (im_msgs im)) ctx" by simp
  have "snd (DHTImmeidateMessage_HandleMessage now junk our_rc sent im ctx) =
      fold dht_do (map (HandleOne now junk our_rc) (im_msgs im) @ (if r then [SendReplies (im_remote im) rs] else [])) ctx"
    using f c by (simp add: DHTImmeidateMessage_HandleMessage_def)
  then show ?thesis by blast
qed



lemma no_question [simp]: "JobHook j r \<noteq> question p K i it" "question p K i it \<noteq> JobHook j r"
  by (simp_all add: question_def)














end
