(* ===== verification/Spec2Isabelle.thy ===== *)
theory Spec2Isabelle
  imports Iwp_Delivery Path_Establish Rcutil Timers Iwp_Server Api Event_Loop Link_Transfer Kqueue_Loop Thread_Pool Ini_Dump Logic
    Program Nodedb_Dirs Dht_Service Dht_Lookup
begin

text \<open>
  Verification of the udap onion router (the C and C++ sources under \<open>src/udap\<close> and \<open>src/include/udap\<close>).

  \<^bold>\<open>The program.\<close> A router keeps link sessions with its neighbours over UDP. A session sends link
  messages, bencoded dictionaries cut into fragments, in encrypted frames. Over the links run a distributed
  hash table that finds signed router contacts, a database that keeps them, and onion paths: a builder
  chooses routers, sends a commit message with one sealed record for each of them, and then sends routing
  messages through the layers. A context reads the configuration, starts the threads and closes them.

  \<^bold>\<open>Conventions.\<close> Bytes, 16-, 32- and 64-bit integers are words of their width, so that arithmetic wraps as
  it does in the code; \<open>size_t\<close> is a natural number with the wrap-around written out where a subtraction can
  wrap. A pointer into memory is an object with an offset (\<open>CLib\<close>, \<open>Buffer\<close>), and an access outside the
  object, a null pointer that is followed and a deleted object that is used are the value \<open>None\<close>: a theorem that
  concludes \<open>Some\<close> shows that the operation is defined. Failures that the code reports are values, \<open>False\<close> or an error.
  What is not in the sources is a parameter with named laws: libsodium (record \<open>sodium\<close>, laws \<open>sodium_ok\<close>, and
  \<open>dh_agree\<close> for two keys), \<open>inet_ntop\<close> and \<open>inet_pton\<close> (\<open>inet_ok\<close>), the file system (a map from
  paths to contents with predicates for what can be opened), random bytes, the clock, what
  uninitialised memory holds, and whether a datagram can be sent. Every theorem with hypotheses
  has a witness with concrete functions for the parameters.

  \<^bold>\<open>Foundations.\<close>
  \<^item> \<open>Prelude\<close>: collections of rules, lemmas on lists, options, words and binds.
  \<^item> \<open>CLib\<close>: the integer conversions of \<open>printf\<close>, \<open>atoi\<close>, \<open>atol\<close>, \<open>memcmp\<close> and \<open>strnlen\<close>; parsing inverts printing.
  \<^item> \<open>Buffer\<close> (\<open>buffer.cpp\<close>), \<open>Bencode\<close> (\<open>bencode.c\<close>, \<open>bencode.hpp\<close>): readers and writers; the loops of the readers
    recurse on the bytes that are left, and running out of them is an outcome, not fuel.
  \<^item> \<open>Reading\<close>, \<open>Safety\<close>, \<open>Codec\<close>: what a reader and a writer promise, as locales: a codec reads back
    what it wrote and stops behind it, a safe reader terminates and looks at most a known number of bytes
    behind its buffer. \<open>Aligned\<close> (\<open>aligned.hpp\<close>, \<open>encrypted.hpp\<close>, \<open>encode.hpp\<close>): fixed-size buffers and hex.
  \<^item> \<open>Std_Map\<close>: \<open>std::map\<close> and \<open>std::multimap\<close> for an order (locale \<open>key_order\<close>), interpreted for byte
    order, XOR distance and strings.

  \<^bold>\<open>Messages.\<close> \<open>Address_Info\<close>, \<open>Exit_Info\<close>, \<open>Router_Contact\<close> (\<open>address_info.cpp\<close>, \<open>exit_info.cpp\<close>,
  \<open>router_contact.cpp\<close>): a contact survives encoding and decoding, a signed one verifies, a stored one is read back.
  \<open>Link_Messages\<close>, \<open>Dht_Messages\<close>, \<open>Link_Parser\<close> (\<open>link_intro.cpp\<close>, \<open>relay_*.cpp\<close>, \<open>dht.cpp\<close>, \<open>link_message.cpp\<close>):
  every link message is recognised and delivered once with its members as sent, and the parser returns on
  every input. \<open>Routing\<close> (\<open>routing/*.cpp\<close>): the same for the messages at the ends of a path.

  \<^bold>\<open>Cryptography.\<close> \<open>Crypto\<close> (\<open>crypto_libsodium.cpp\<close>, \<open>encrypted_frame.cpp\<close>) and \<open>Crypto_Async\<close> (\<open>crypto_async.cpp\<close>):
  sealed frames open to what was sealed and are accepted only with the right keyed hash.

  \<^bold>\<open>Links.\<close> \<open>Iwp_Message\<close>, \<open>Codel\<close>, \<open>Iwp_Session\<close> (\<open>iwp_link.cpp\<close>, \<open>codel.hpp\<close>): fragments and bitsets, the outbound
  queue, and the session with its states and its jobs; a job that the code gives to a worker is an
  element of a queue, and running it is an operation, so that every order of jobs can be stated.
  \<open>Iwp_Handshake\<close>: both sides of the handshake agree on the session key. \<open>Iwp_Sending\<close>, \<open>Iwp_Delivery\<close>:
  a message arrives as sent whatever the order and repetition of its fragments, and
  acknowledgements are exact. \<open>Link_Transfer\<close> composes all of it: a link message that one session sends is cut,
  encrypted, carried in datagrams, put together, acknowledged, parsed and handled at the other end; the session is extended by the
  router there (\<open>link_end\<close>), so that what the parser and the handlers change of both is part of the result. \<open>Iwp_Server\<close>: the tables of sessions and routers over the sessions as heap
  objects; a tick removes exactly the sessions that are over. \<open>Net\<close> (\<open>net.hpp\<close>, \<open>net.cpp\<close>, \<open>link_configure\<close>): addresses as
  the bytes of socket addresses; the source of a datagram equals the address of its sender's contact,
  and what a link advertises leads to its socket.

  \<^bold>\<open>Hash table, database, router.\<close> \<open>Dht\<close> (\<open>dht.cpp\<close>, \<open>dht.hpp\<close>): the bucket refines a finite map, closest nodes are
  closest, an answer is handled once. \<open>Dht_Lookup\<close>: what a question of another router makes this one send, and the questions of one lookup as runs over all
  operations of the table: no peer is asked twice, and three at most. \<open>Dht_Service\<close>: the table as the router runs it, whose cleaner is never
  scheduled. \<open>Nodedb\<close>, \<open>Nodedb_Dirs\<close> (\<open>nodedb.cpp\<close>): every contact has a directory for its file,
  what is stored is loaded, loading gives exactly the verified contacts of the files, only verified contacts enter. \<open>Router\<close>, \<open>Router_Sessions\<close> (\<open>router.cpp\<close>): a
  step relation over the handlers of the router with an invariant of every state that is reached; queued messages are
  sent once the session is there; attempts to connect end.

  \<^bold>\<open>Paths.\<close> \<open>Path\<close>, \<open>Path_Tables\<close>, \<open>Onion\<close>, \<open>Path_Build\<close>, \<open>Path_Establish\<close> (\<open>path.cpp\<close>, \<open>transit_hop.cpp\<close>, \<open>pathset.cpp\<close>,
  \<open>relay_up_down.cpp\<close>, \<open>pathbuilder.cpp\<close>, \<open>relay_commit.cpp\<close>): the tables of transit hops and when they expire, messages
  through all layers in both directions, latency measurement, and the whole build of a path over
  up to eight routers (\<open>MAXHOPS\<close>, the bound of the commit message) from the builder's request to the established path.

  \<^bold>\<open>Running the program.\<close> \<open>Timers\<close>, \<open>Logic\<close> (\<open>timer.cpp\<close>, \<open>logic.cpp\<close>): a step relation over ticks, calls, cancellations
  and workers; no timer is used after it was freed, one that is due is called, and the loop of the logic ends. \<open>Thread_Pool\<close>
  (\<open>threadpool.cpp\<close>): the workers, the condition variable, stopping and joining as a step relation over whole critical
  sections; no wake-up is lost and a pool that is stopped can be joined with all its jobs done. \<open>Config\<close>, \<open>Ini_Dump\<close> (\<open>ini.hpp\<close>,
  \<open>config.cpp\<close>): the parser never follows a null pointer, and a tree of sections that is written out is read back. \<open>Startup\<close> (\<open>context.cpp\<close>, parts of
  \<open>router.cpp\<close>): keys persist, the links are configured, configured contacts are connected to, and what closing frees.
  \<open>Program\<close> (\<open>context.cpp\<close>, \<open>daemon/main.c\<close>): running with network threads, and the signals that end it.
  \<open>Event_Loop\<close> (\<open>ev.cpp\<close>, \<open>ev_epoll.hpp\<close>): a step relation over listening, closing and rounds of the loop, which never
  uses a deleted listener and gives every datagram to its owner; \<open>Kqueue_Loop\<close> (\<open>ev_kqueue.hpp\<close>): the loop on other systems. Both
  interpret the locale \<open>event_source\<close>, what a listener may expect of a loop. \<open>Api\<close> (\<open>api/*.cpp\<close>): the messages of the client interface,
  whose password hash verifies, its parser and the client.
  \<open>Rcutil\<close> (\<open>daemon/rcutil.cpp\<close>): the tool for contacts; what it generates can be imported and is exported unchanged.

  \<^bold>\<open>Defects.\<close> Some theorems state what the code does where it does not do what it means to: among
  them a tick that uses a freed session (\<open>Iwp_Server\<close>), a thread pool that is freed twice (\<open>Startup\<close>), a
  lookup job that is dropped (\<open>Dht\<close>), transactions that never time out (\<open>Dht_Service\<close>), a listener that is deleted and used (\<open>Kqueue_Loop\<close>), timers
  that are used while they are freed (\<open>Logic\<close>) or called while they are removed (\<open>Timers\<close>), unexpired hops that are removed (\<open>Path_Tables\<close>), a session that is never removed
  and packets that are read beyond their end (\<open>Iwp_Handshake\<close>).

  \<^bold>\<open>Bounds and fuel.\<close> Loops recurse on their data. The choice of a random hop (\<open>Nodedb\<close>) may run for ever: its
  draws are a list, running out of draws is the value \<open>Spins\<close>, and it is shown when it returns and that it does not
  with one contact. Everything else is total.

  \<^bold>\<open>Not modelled.\<close> System calls and what makes or configures a descriptor are parameters. What happens under a mutex is one
  step, and nothing is said of the memory order between threads. Logging, the main program of the client (\<open>client/\<close>), \<open>udap_threadpool_wait\<close> (which
  nothing calls), constructors that only store their arguments, functions that only forward a call to a queue, and code in comments are left out, and so are
  the unfinished hidden services, proof of work and relayed acknowledgements, whose functions are stubs.
\<close>

end
